(* ===== verification/Kio_Prelude.thy ===== *)
theory Kio_Prelude
  imports Main "HOL-Library.Word" "HOL-Library.List_Lexorder" "HOL-Library.Char_ord"
begin

text \<open>
  Shared vocabulary of the kineticio development: exceptions as values, the parts of
  \<^verbatim>\<open>std::string\<close> and of the stream formatting that the sources use, machine integer
  conversions, and the list and arithmetic lemmas that several components need.

  A C++ function that may throw returns \<open>exn + 'a\<close>, with \<open>Inl\<close> for the exception.
  A \<^verbatim>\<open>std::string\<close> is a \<^typ>\<open>string\<close>, that is a list of bytes, compared
  lexicographically on unsigned bytes as \<^verbatim>\<open>char_traits<char>::compare\<close> does.
  A \<^verbatim>\<open>shared_ptr<const std::string>\<close> is a \<open>string option\<close> wherever the code tests it
  against null.
\<close>

section \<open>Proof collections\<close>

named_theorems kio_defs \<open>small definitions that component proofs unfold\<close>
named_theorems kio_simps \<open>rewrite rules shared by the components\<close>

section \<open>Exceptions as values\<close>

datatype errc =
    invalid_argument
  | io_error
  | file_exists
  | no_such_file_or_directory
  | operation_not_permitted
  | no_such_device
  | not_connected
  | executable_format_error

datatype exn =
    System_error errc
  | Invalid_argument
  | Out_of_range
  | Runtime_error
  | Logic_error
  | Undefined_behaviour

type_synonym 'a res = "exn + 'a"

fun res_bind :: "'a res \<Rightarrow> ('a \<Rightarrow> 'b res) \<Rightarrow> 'b res" where
  "res_bind (Inl e) f = Inl e"
| "res_bind (Inr x) f = f x"

lemma res_bind_cong [fundef_cong]:
  "r = r' \<Longrightarrow> (\<And>x. r' = Inr x \<Longrightarrow> f x = g x) \<Longrightarrow> res_bind r f = res_bind r' g"
  by (cases r') auto

lemma res_bind_Inr_iff:
  "res_bind r f = Inr y \<longleftrightarrow> (\<exists>x. r = Inr x \<and> f x = Inr y)"
  by (cases r) auto

lemma res_bind_Inl_iff:
  "res_bind r f = Inl e \<longleftrightarrow> r = Inl e \<or> (\<exists>x. r = Inr x \<and> f x = Inl e)"
  by (cases r) auto

section \<open>Machine integers\<close>

text \<open>\<^verbatim>\<open>static_cast<int>\<close> of a wider value on the supported platforms: the low 32 bits
  read as two's complement.\<close>

definition to_int32 :: "int \<Rightarrow> int" where
  "to_int32 k = sint (word_of_int k :: 32 word)"

lemma to_int32_id:
  assumes "- (2 ^ 31) \<le> k" and "k < 2 ^ 31"
  shows "to_int32 k = k"
  using assms by (simp add: to_int32_def signed_of_int signed_take_bit_int_eq_self)

definition int_max :: int where
  "int_max = 2147483647"

definition int_min :: int where
  "int_min = - 2147483648"

text \<open>\<^verbatim>\<open>std::string::npos\<close> and 64-bit \<^verbatim>\<open>size_t\<close> addition, which wraps.\<close>

definition npos :: nat where
  "npos = 18446744073709551615"

definition size_add :: "nat \<Rightarrow> nat \<Rightarrow> nat" where
  "size_add a b = (a + b) mod 18446744073709551616"

definition size_sub :: "nat \<Rightarrow> nat \<Rightarrow> nat" where
  "size_sub a b = nat ((int a - int b) mod 18446744073709551616)"

lemma size_add_npos_1 [simp]: "size_add npos 1 = 0" "size_add npos (Suc 0) = 0"
  by (simp_all add: size_add_def npos_def)

lemma size_add_small: "a + b < 18446744073709551616 \<Longrightarrow> size_add a b = a + b"
  by (simp add: size_add_def)

lemma size_sub_le:
  assumes "b \<le> a" and "a < 18446744073709551616"
  shows "size_sub a b = a - b"
proof -
  have "(int a - int b) mod 18446744073709551616 = int a - int b"
    using assms by (intro mod_pos_pos_trivial) auto
  then show ?thesis
    using assms(1) by (simp add: size_sub_def nat_diff_distrib)
qed

section \<open>Strings\<close>

text \<open>\<^verbatim>\<open>std::string::substr(pos, n)\<close>: throws \<^verbatim>\<open>out_of_range\<close> when the position is
  past the end.\<close>

definition std_substr :: "string \<Rightarrow> nat \<Rightarrow> nat \<Rightarrow> string res" where
  "std_substr s pos n = (if length s < pos then Inl Out_of_range else Inr (take n (drop pos s)))"

definition find_first_of :: "string \<Rightarrow> char \<Rightarrow> nat \<Rightarrow> nat" where
  "find_first_of s c pos =
     (case List.find (\<lambda>i. s ! i = c) [pos..<length s] of None \<Rightarrow> npos | Some i \<Rightarrow> i)"

definition find_last_of :: "string \<Rightarrow> char \<Rightarrow> nat" where
  "find_last_of s c =
     (case List.find (\<lambda>i. s ! i = c) (rev [0..<length s]) of None \<Rightarrow> npos | Some i \<Rightarrow> i)"

lemma std_substr_append [simp]:
  "length p = n \<Longrightarrow> std_substr (p @ s) n m = Inr (take m s)"
  by (simp add: std_substr_def)

lemma find_append [simp]:
  "List.find P (xs @ ys) = (case List.find P xs of None \<Rightarrow> List.find P ys | Some x \<Rightarrow> Some x)"
  by (induction xs) auto

lemma find_upt_first:
  assumes "pos \<le> i" and "i < n" and "P i" and "\<And>j. pos \<le> j \<Longrightarrow> j < i \<Longrightarrow> \<not> P j"
  shows "List.find P [pos..<n] = Some i"
proof -
  have "[pos..<n] = [pos..<i] @ [i..<n]"
    using assms(1,2) by (metis less_imp_le_nat upt_add_eq_append le_add_diff_inverse)
  moreover have "[i..<n] = i # [Suc i..<n]"
    using assms(2) by (rule upt_conv_Cons)
  moreover have "List.find P [pos..<i] = None"
    using assms(4) by (auto simp: find_None_iff)
  ultimately show ?thesis
    using assms(3) by (simp add: find_append)
qed

lemma find_first_of_eq:
  assumes "pos \<le> i" and "i < length s" and "s ! i = c"
    and "\<And>j. pos \<le> j \<Longrightarrow> j < i \<Longrightarrow> s ! j \<noteq> c"
  shows "find_first_of s c pos = i"
  using find_upt_first [of pos i "length s" "\<lambda>i. s ! i = c"] assms
  by (simp add: find_first_of_def)

text \<open>The first separator after a prefix: the segment before it does not contain it.\<close>

lemma find_first_of_segment:
  assumes "c \<notin> set x" and "pos = length p"
  shows "find_first_of (p @ x @ c # y) c pos = length p + length x"
proof (rule find_first_of_eq)
  fix j assume "pos \<le> j" "j < length p + length x"
  then have "(p @ x @ c # y) ! j = x ! (j - length p)"
    using assms(2) by (simp add: nth_append less_diff_conv2)
  moreover have "x ! (j - length p) \<in> set x"
    using \<open>pos \<le> j\<close> \<open>j < length p + length x\<close> assms(2) by (simp add: less_diff_conv2)
  ultimately show "(p @ x @ c # y) ! j \<noteq> c"
    using assms(1) by auto
qed (use assms(2) in \<open>auto simp: nth_append\<close>)

lemma find_last_of_segment:
  assumes "c \<notin> set y"
  shows "find_last_of (x @ c # y) c = length x"
proof -
  let ?s = "x @ c # y"
  have parts: "[0..<length ?s] = [0..<length x] @ length x # [Suc (length x)..<length ?s]"
    by (metis append_Nil length_Cons length_append less_add_same_cancel1 upt_conv_Cons
        upt_add_eq_append zero_less_Suc le0 add_0)
  have "List.find (\<lambda>i. ?s ! i = c) (rev [Suc (length x)..<length ?s]) = None"
  proof -
    have "?s ! i \<noteq> c" if "Suc (length x) \<le> i" "i < length ?s" for i
    proof -
      have "?s ! i = y ! (i - Suc (length x))"
        using that by (simp add: nth_append nth_Cons')
      moreover have "y ! (i - Suc (length x)) \<in> set y"
        using that by simp
      ultimately show ?thesis using assms by auto
    qed
    then show ?thesis
      unfolding find_None_iff by (metis set_rev atLeastLessThan_iff set_upt)
  qed
  then show ?thesis
    by (simp only: find_last_of_def parts rev_append rev.simps append_assoc find_append) simp
qed

section \<open>Decimal numbers in streams\<close>

definition digit_char :: "nat \<Rightarrow> char" where
  "digit_char d = char_of (48 + d)"

definition is_digit :: "char \<Rightarrow> bool" where
  "is_digit c \<longleftrightarrow> 48 \<le> (of_char c :: nat) \<and> (of_char c :: nat) \<le> 57"

definition digit_val :: "char \<Rightarrow> nat" where
  "digit_val c = of_char c - 48"

text \<open>\<^verbatim>\<open>os << n\<close> for an unsigned and for a signed value, and the left padding of
  \<^verbatim>\<open>std::setw(w) << std::setfill('0')\<close>.\<close>

fun dec :: "nat \<Rightarrow> string" where
  "dec n = (if n < 10 then [digit_char n] else dec (n div 10) @ [digit_char (n mod 10)])"

declare dec.simps [simp del]

definition dec_int :: "int \<Rightarrow> string" where
  "dec_int k = (if k < 0 then CHR ''-'' # dec (nat (- k)) else dec (nat k))"

definition zpad :: "nat \<Rightarrow> string \<Rightarrow> string" where
  "zpad w s = replicate (w - length s) (CHR ''0'') @ s"

text \<open>Reading a number back: \<^verbatim>\<open>stream >> x\<close> for an \<^verbatim>\<open>int\<close> skips white space, takes an
  optional sign and the longest run of digits; without a digit it stores 0, and a value out of
  range is replaced by the nearest bound.\<close>

definition is_space :: "char \<Rightarrow> bool" where
  "is_space c \<longleftrightarrow> (of_char c :: nat) \<in> {9, 10, 11, 12, 13, 32}"

definition digits_val :: "string \<Rightarrow> nat" where
  "digits_val s = foldl (\<lambda>a c. 10 * a + digit_val c) 0 s"

definition scan_digits :: "string \<Rightarrow> (bool \<times> string)" where
  "scan_digits s =
     (let t = dropWhile is_space s;
          neg = (t \<noteq> [] \<and> hd t = CHR ''-'');
          u = (if t \<noteq> [] \<and> (hd t = CHR ''-'' \<or> hd t = CHR ''+'') then tl t else t)
      in (neg, takeWhile is_digit u))"

definition stream_to_int :: "string \<Rightarrow> int" where
  "stream_to_int s =
     (case scan_digits s of (neg, ds) \<Rightarrow>
        let v = int (digits_val ds); k = (if neg then - v else v)
        in if ds = [] then 0 else if k < int_min then int_min else if int_max < k then int_max else k)"

text \<open>\<^verbatim>\<open>std::stoi\<close>: the same scan, but failures are exceptions.\<close>

definition std_stoi :: "string \<Rightarrow> int res" where
  "std_stoi s =
     (case scan_digits s of (neg, ds) \<Rightarrow>
        let v = int (digits_val ds); k = (if neg then - v else v)
        in if ds = [] then Inl Invalid_argument
           else if k < int_min \<or> int_max < k then Inl Out_of_range else Inr k)"

subsection \<open>Facts about decimal text\<close>

lemma of_char_digit_char: "d < 10 \<Longrightarrow> (of_char (digit_char d) :: nat) = 48 + d"
  by (simp add: digit_char_def)

lemma is_digit_digit_char [simp]: "d < 10 \<Longrightarrow> is_digit (digit_char d)"
  by (simp add: is_digit_def of_char_digit_char)

lemma digit_val_digit_char [simp]: "d < 10 \<Longrightarrow> digit_val (digit_char d) = d"
  by (simp add: digit_val_def of_char_digit_char)

lemma digit_char_less_iff:
  "a < 10 \<Longrightarrow> b < 10 \<Longrightarrow> digit_char a < digit_char b \<longleftrightarrow> a < b"
  by (simp add: less_char_def of_char_digit_char)

lemma digit_char_eq_iff:
  "a < 10 \<Longrightarrow> b < 10 \<Longrightarrow> digit_char a = digit_char b \<longleftrightarrow> a = b"
  by (metis digit_val_digit_char)

lemma digit_char_0: "digit_char 0 = CHR ''0''"
  by code_simp

lemma div10_less_iff: "n div 10 < 10 ^ w \<longleftrightarrow> n < 10 ^ Suc w" for n :: nat
proof -
  have "n div 10 < 10 ^ w \<longleftrightarrow> n < 10 ^ w * 10"
    by (rule div_less_iff_less_mult) simp
  then show ?thesis by (simp only: power_Suc2)
qed

text \<open>The fixed-width rendering: exactly \<open>w\<close> digits, most significant first.\<close>

primrec fixdec :: "nat \<Rightarrow> nat \<Rightarrow> string" where
  "fixdec 0 n = []"
| "fixdec (Suc w) n = fixdec w (n div 10) @ [digit_char (n mod 10)]"

lemma length_fixdec [simp]: "length (fixdec w n) = w"
  by (induction w arbitrary: n) auto

lemma fixdec_zero: "fixdec w 0 = replicate w (CHR ''0'')"
  by (induction w) (auto simp: digit_char_0 replicate_append_same)

lemma dec_nonempty [simp]: "dec n \<noteq> []"
  by (subst dec.simps) simp

lemma dec_eq_fixdec: "\<exists>w. 0 < w \<and> (w = 1 \<or> 10 ^ (w - 1) \<le> n) \<and> n < 10 ^ w \<and> dec n = fixdec w n"
proof (induction n rule: dec.induct)
  case (1 n)
  show ?case
  proof (cases "n < 10")
    case True
    then show ?thesis by (intro exI [of _ 1]) (simp add: dec.simps [of n])
  next
    case False
    from "1.IH" [OF False] obtain w where w: "0 < w" "w = 1 \<or> 10 ^ (w - 1) \<le> n div 10"
      "n div 10 < 10 ^ w" "dec (n div 10) = fixdec w (n div 10)"
      by (elim exE conjE) (rule that)
    have lower: "10 ^ w \<le> n"
    proof (cases "w = 1")
      case True
      with False show ?thesis by simp
    next
      case False
      with w(1,2) have "10 ^ (w - 1) * 10 \<le> n div 10 * 10" by simp
      also have "\<dots> \<le> n" by simp
      finally show ?thesis
        using w(1) by (simp add: power_eq_if mult.commute)
    qed
    have "n < 10 ^ Suc w"
      using w(3) by (simp only: div10_less_iff)
    with lower w(4) False show ?thesis
      by (intro exI [of _ "Suc w"]) (simp add: dec.simps [of n])
  qed
qed

lemma set_fixdec: "c \<in> set (fixdec w n) \<Longrightarrow> is_digit c"
  by (induction w arbitrary: n) auto

lemma set_dec: "c \<in> set (dec n) \<Longrightarrow> is_digit c"
  using dec_eq_fixdec [of n] set_fixdec by metis

lemma fixdec_pad: "n < 10 ^ w \<Longrightarrow> fixdec (k + w) n = replicate k (CHR ''0'') @ fixdec w n"
proof (induction w arbitrary: n)
  case 0
  then show ?case by (simp add: fixdec_zero)
next
  case (Suc w)
  then have "n div 10 < 10 ^ w"
    by (simp only: div10_less_iff)
  with Suc.IH show ?case by simp
qed

lemma zpad_dec:
  assumes "n < 10 ^ w" and "0 < w"
  shows "zpad w (dec n) = fixdec w n"
proof -
  obtain v where v: "0 < v" "v = 1 \<or> 10 ^ (v - 1) \<le> n" "n < 10 ^ v" "dec n = fixdec v n"
    using dec_eq_fixdec [of n] by (elim exE conjE) (rule that)
  have "v \<le> w"
  proof (cases "v = 1")
    case True
    with assms(2) show ?thesis by simp
  next
    case False
    with v(2) assms(1) have "(10::nat) ^ (v - 1) < 10 ^ w" by linarith
    then have "v - 1 < w" using power_less_imp_less_exp [of 10] by simp
    then show ?thesis by simp
  qed
  with fixdec_pad [OF v(3), of "w - v"] v(4) show ?thesis
    by (simp add: zpad_def)
qed

lemma digits_val_snoc: "digits_val (s @ [c]) = 10 * digits_val s + digit_val c"
  by (simp add: digits_val_def)

lemma digits_val_fixdec: "n < 10 ^ w \<Longrightarrow> digits_val (fixdec w n) = n"
proof (induction w arbitrary: n)
  case 0
  then show ?case by (simp add: digits_val_def)
next
  case (Suc w)
  then have "n div 10 < 10 ^ w"
    by (simp only: div10_less_iff)
  with Suc.IH show ?case by (simp add: digits_val_snoc)
qed

lemma digits_val_dec: "digits_val (dec n) = n"
  using dec_eq_fixdec [of n] digits_val_fixdec by metis

lemma dec_inject: "dec a = dec b \<longleftrightarrow> a = b"
  by (metis digits_val_dec)

text \<open>Text that starts with a digit is scanned without a sign.\<close>

lemma is_digit_not_space: "is_digit c \<Longrightarrow> \<not> is_space c"
  by (auto simp: is_digit_def is_space_def)

lemma is_digit_not_sign: "is_digit c \<Longrightarrow> c \<noteq> CHR ''-'' \<and> c \<noteq> CHR ''+''"
  by (auto simp: is_digit_def)

lemma scan_digits_all:
  assumes "\<And>c. c \<in> set s \<Longrightarrow> is_digit c"
  shows "scan_digits s = (False, s)"
proof -
  have "dropWhile is_space s = s"
    using assms by (cases s) (auto simp: is_digit_not_space)
  moreover have "takeWhile is_digit s = s"
    using assms by simp
  moreover have "s \<noteq> [] \<Longrightarrow> hd s \<noteq> CHR ''-'' \<and> hd s \<noteq> CHR ''+''"
    using assms is_digit_not_sign by simp
  ultimately show ?thesis
    by (auto simp: scan_digits_def Let_def)
qed

lemma stream_to_int_fixdec:
  assumes "n < 10 ^ w" and "0 < w" and "int n \<le> int_max"
  shows "stream_to_int (fixdec w n) = int n"
proof -
  have "scan_digits (fixdec w n) = (False, fixdec w n)"
    by (rule scan_digits_all) (rule set_fixdec)
  moreover have "fixdec w n \<noteq> []"
    using assms(2) length_fixdec [of w n] by fastforce
  ultimately show ?thesis
    using assms(1,3) by (simp add: stream_to_int_def digits_val_fixdec int_min_def)
qed

lemma std_stoi_fixdec:
  assumes "n < 10 ^ w" and "0 < w" and "int n \<le> int_max"
  shows "std_stoi (fixdec w n) = Inr (int n)"
proof -
  have "scan_digits (fixdec w n) = (False, fixdec w n)"
    by (rule scan_digits_all) (rule set_fixdec)
  moreover have "fixdec w n \<noteq> []"
    using assms(2) length_fixdec [of w n] by fastforce
  ultimately show ?thesis
    using assms(1,3) by (simp add: std_stoi_def digits_val_fixdec int_min_def)
qed

subsection \<open>Numeric order is text order at a fixed width\<close>

lemma less_append_same_length:
  fixes xs ys :: "'a::linorder list"
  assumes "length xs = length ys"
  shows "xs @ us < ys @ vs \<longleftrightarrow> xs < ys \<or> (xs = ys \<and> us < vs)"
  using assms by (induction xs ys rule: list_induct2) auto

lemma less_append_prefix:
  fixes us vs :: "'a::linorder list"
  shows "p @ us < p @ vs \<longleftrightarrow> us < vs"
  by (simp add: less_append_same_length)

lemma fixdec_eq_iff:
  assumes "a < 10 ^ w" and "b < 10 ^ w"
  shows "fixdec w a = fixdec w b \<longleftrightarrow> a = b"
  using digits_val_fixdec assms by metis

lemma less_iff_div_mod_10:
  "a div 10 < b div 10 \<or> (a div 10 = b div 10 \<and> a mod 10 < b mod 10) \<longleftrightarrow> a < b" for a b :: nat
proof -
  define qa ra qb rb where defs: "qa = a div 10" "ra = a mod 10" "qb = b div 10" "rb = b mod 10"
  then have eqs: "a = 10 * qa + ra" "ra < 10" "b = 10 * qb + rb" "rb < 10"
    by simp_all
  show ?thesis
    unfolding defs [symmetric] using eqs by arith
qed

lemma fixdec_less_iff:
  assumes "a < 10 ^ w" and "b < 10 ^ w"
  shows "fixdec w a < fixdec w b \<longleftrightarrow> a < b"
  using assms
proof (induction w arbitrary: a b)
  case 0
  then show ?case by simp
next
  case (Suc w)
  have lt: "a div 10 < 10 ^ w" "b div 10 < 10 ^ w"
    using Suc.prems by (simp_all only: div10_less_iff)
  have "fixdec (Suc w) a < fixdec (Suc w) b \<longleftrightarrow>
      a div 10 < b div 10 \<or> (a div 10 = b div 10 \<and> a mod 10 < b mod 10)"
    using Suc.IH [OF lt] fixdec_eq_iff [OF lt]
    by (simp add: less_append_same_length digit_char_less_iff)
  also have "\<dots> \<longleftrightarrow> a < b" by (rule less_iff_div_mod_10)
  finally show ?case .
qed

section \<open>The bits of a byte\<close>

definition char_bits :: "char \<Rightarrow> bool list" where
  "char_bits c = [digit0 c, digit1 c, digit2 c, digit3 c, digit4 c, digit5 c, digit6 c, digit7 c]"

lemma length_char_bits [simp]: "length (char_bits c) = 8"
  by (simp add: char_bits_def)

lemma bit_of_char:
  "bit (of_char c :: 'a::len word) i \<longleftrightarrow> i < LENGTH('a) \<and> i < 8 \<and> char_bits c ! i"
proof -
  have "(of_char c :: 'a word) = horner_sum of_bool 2 (char_bits c)"
    by (simp only: of_char_def char_bits_def)
  then show ?thesis
    by (simp only: bit_horner_sum_bit_word_iff length_char_bits min_less_iff_conj conj_assoc)
qed

lemma char_bits_inject [simp]: "char_bits c = char_bits d \<longleftrightarrow> c = d"
  by (auto simp: char_bits_def intro: char.expand)

end
