(* ===== verification/Kinetic_Types.thy ===== *)
theory Kinetic_Types
  imports Kio_Prelude
begin

text \<open>
  The vocabulary of the kinetic-cpp-client library that the sources use: status codes, statuses,
  write modes and records. The library is not part of the repository, so nothing here is mapped
  to source lines. The numeric values of the status codes, on which the order of the result map
  of an operation vector depends, are a parameter of the definitions that use them.
\<close>

datatype status_code =
    OK
  | CLIENT_IO_ERROR
  | CLIENT_SHUTDOWN
  | CLIENT_INTERNAL_ERROR
  | CLIENT_RESPONSE_HMAC_VERIFICATION_ERROR
  | REMOTE_HMAC_ERROR
  | REMOTE_NOT_AUTHORIZED
  | REMOTE_CLUSTER_VERSION_MISMATCH
  | REMOTE_NOT_FOUND
  | REMOTE_VERSION_MISMATCH
  | OTHER_STATUS int

record kinetic_status =
  statusCode :: status_code
  message :: string

abbreviation mk_status :: "status_code \<Rightarrow> string \<Rightarrow> kinetic_status" where
  "mk_status c m \<equiv> \<lparr>statusCode = c, message = m\<rparr>"

definition status_ok :: "kinetic_status \<Rightarrow> bool" where
  "status_ok s \<longleftrightarrow> statusCode s = OK"

lemma status_ok_mk [simp]: "status_ok (mk_status c m) \<longleftrightarrow> c = OK"
  by (simp add: status_ok_def)

datatype write_mode = IGNORE_VERSION | REQUIRE_SAME_VERSION

text \<open>A stored record: the value, its version and its tag (the checksum as decimal text).\<close>

record kinetic_record =
  rec_value :: string
  rec_version :: string
  rec_tag :: string

end
