(* ===== verification/Utility.thy ===== *)
theory Utility
  imports Kinetic_Types
begin

text \<open>
  The helper functions of \<^verbatim>\<open>src/Utility.cc\<close>: text for status values, kinetic urls, the names
  under which data blocks, metadata, attributes and indicators are stored, and the version
  strings that carry the size of a value. The uuid text comes from libuuid and is an argument.
\<close>

section \<open>Model\<close>

subsection \<open>Text for status values\<close>

fun toString_StatusCode :: "(status_code \<Rightarrow> int) \<Rightarrow> status_code \<Rightarrow> string" where
  "toString_StatusCode num OK = ''OK''"
| "toString_StatusCode num CLIENT_IO_ERROR = ''CLIENT_IO_ERROR''"
| "toString_StatusCode num CLIENT_SHUTDOWN = ''CLIENT_SHUTDOWN''"
| "toString_StatusCode num CLIENT_INTERNAL_ERROR = ''CLIENT_INTERNAL_ERROR''"
| "toString_StatusCode num CLIENT_RESPONSE_HMAC_VERIFICATION_ERROR =
     ''CLIENT_RESPONSE_HMAC_VERIFICATION_ERROR''"
| "toString_StatusCode num REMOTE_HMAC_ERROR = ''REMOTE_HMAC_ERROR''"
| "toString_StatusCode num REMOTE_NOT_AUTHORIZED = ''REMOTE_NOT_AUTHORIZED''"
| "toString_StatusCode num REMOTE_CLUSTER_VERSION_MISMATCH = ''REMOTE_CLUSTER_VERSION_MISMATCH''"
| "toString_StatusCode num REMOTE_NOT_FOUND = ''REMOTE_NOT_FOUND''"
| "toString_StatusCode num REMOTE_VERSION_MISMATCH = ''REMOTE_VERSION_MISMATCH''"
| "toString_StatusCode num (OTHER_STATUS k) =
     ''OTHER_ERROR (code == '' @ dec_int (num (OTHER_STATUS k)) @ '')''"

definition status_to_stream :: "(status_code \<Rightarrow> int) \<Rightarrow> kinetic_status \<Rightarrow> string" where
  "status_to_stream num s = toString_StatusCode num (statusCode s) @ '': '' @ message s"

definition seconds_to_stream :: "int \<Rightarrow> string" where
  "seconds_to_stream s = dec_int s @ '' seconds''"

text \<open>\<^verbatim>\<open>Convert::toString\<close> writes its arguments one after the other into a stream; the
  arguments are given here as already rendered text. \<^verbatim>\<open>Convert::toInt\<close> reads an \<^verbatim>\<open>int\<close> from
  that stream.\<close>

definition Convert_toString :: "string list \<Rightarrow> string" where
  "Convert_toString args = concat args"

definition Convert_toInt :: "string list \<Rightarrow> int" where
  "Convert_toInt args = stream_to_int (concat args)"

subsection \<open>Kinetic urls\<close>

definition urlToClusterId :: "string \<Rightarrow> string res" where
  "urlToClusterId url =
     (let id_start = length ''kinetic://'';
          id_end = find_first_of url (CHR ''/'') id_start
      in std_substr url id_start (size_sub id_end id_start))"

definition urlToPath :: "string \<Rightarrow> string res" where
  "urlToPath url =
     std_substr url
       (size_add (find_first_of url (CHR ''/'') (length ''kinetic://'' + 1)) 1) npos"

definition metadataToUrl :: "string \<Rightarrow> string res" where
  "metadataToUrl mdkey =
     (let pos1 = find_first_of mdkey (CHR '':'') 0;
          pos2 = find_first_of mdkey (CHR '':'') (size_add pos1 1)
      in res_bind (std_substr mdkey 0 pos1) (\<lambda>cid.
           res_bind (std_substr mdkey (size_add pos2 1) npos) (\<lambda>path.
             Inr (''kinetic://'' @ cid @ ''/'' @ path))))"

subsection \<open>Versions that carry a size\<close>

definition uuidGenerateEncodeSize :: "string \<Rightarrow> nat \<Rightarrow> string" where
  "uuidGenerateEncodeSize uuid sz = zpad 10 (dec sz) @ uuid"

definition uuidDecodeSize :: "string option \<Rightarrow> nat res" where
  "uuidDecodeSize v =
     (case v of
        None \<Rightarrow> Inl Invalid_argument
      | Some uuid \<Rightarrow>
          if length uuid = 46 \<or> length uuid = 26
          then res_bind (std_substr uuid 0 10)
                 (\<lambda>sz. Inr (nat (Convert_toInt [sz] mod 18446744073709551616)))
          else Inl Invalid_argument)"

subsection \<open>Key names\<close>

definition makeDataKey :: "string \<Rightarrow> string \<Rightarrow> int \<Rightarrow> string" where
  "makeDataKey clusterId base block_number =
     clusterId @ '':data:'' @ base @ ''_'' @ zpad 10 (dec_int block_number)"

definition makeMetadataKey :: "string \<Rightarrow> string \<Rightarrow> string" where
  "makeMetadataKey clusterId base = clusterId @ '':metadata:'' @ base"

definition makeAttributeKey :: "string \<Rightarrow> string \<Rightarrow> string \<Rightarrow> string" where
  "makeAttributeKey clusterId path attribute_name =
     clusterId @ '':attribute:'' @ path @ '':'' @ attribute_name"

definition extractAttributeName :: "string \<Rightarrow> string \<Rightarrow> string \<Rightarrow> string res" where
  "extractAttributeName clusterId path attrkey =
     (let start = length clusterId + length '':attribute:'' + length path + 1
      in std_substr attrkey start npos)"

definition makeIndicatorKey :: "string \<Rightarrow> string" where
  "makeIndicatorKey key = ''indicator:'' @ key"

definition indicatorToKey :: "string \<Rightarrow> string res" where
  "indicatorToKey indicator_key = std_substr indicator_key (length ''indicator:'') npos"

section \<open>Lemmas\<close>

text \<open>A string of the machine is shorter than \<^verbatim>\<open>npos\<close>, so \<^verbatim>\<open>substr(pos)\<close> takes the
  whole rest.\<close>

lemma std_substr_rest:
  assumes "length s \<le> npos" and "pos \<le> length s"
  shows "std_substr s pos npos = Inr (drop pos s)"
  using assms by (simp add: std_substr_def)

lemma makeDataKey_fixdec:
  assumes "0 \<le> n" and "n \<le> int_max"
  shows "makeDataKey c b n = (c @ '':data:'' @ b @ ''_'') @ fixdec 10 (nat n)"
proof -
  have "nat n < 10 ^ 10"
    using assms(2) by (simp add: int_max_def)
  then show ?thesis
    using assms(1) by (simp add: makeDataKey_def dec_int_def zpad_dec)
qed

lemma data_key_suffix_bound: "n \<le> int_max \<Longrightarrow> nat n < 10 ^ 10"
  by (simp add: int_max_def)

lemma uuidDecodeSize_encode_aux:
  assumes "length uuid = 36 \<or> length uuid = 16" and "sz < 10 ^ 10"
  shows "uuidDecodeSize (Some (uuidGenerateEncodeSize uuid sz)) =
           Inr (nat (stream_to_int (fixdec 10 sz) mod 18446744073709551616))"
proof -
  have enc: "uuidGenerateEncodeSize uuid sz = fixdec 10 sz @ uuid"
    using assms(2) by (simp add: uuidGenerateEncodeSize_def zpad_dec)
  then have "length (uuidGenerateEncodeSize uuid sz) = 46 \<or>
      length (uuidGenerateEncodeSize uuid sz) = 26"
    using assms(1) by auto
  moreover have "std_substr (fixdec 10 sz @ uuid) 0 10 = Inr (fixdec 10 sz)"
    by (simp add: std_substr_def)
  ultimately show ?thesis
    by (auto simp: uuidDecodeSize_def enc Convert_toInt_def)
qed

lemma stream_to_int_fixdec_clamped:
  assumes "sz < 10 ^ w" and "0 < w" and "int_max < int sz"
  shows "stream_to_int (fixdec w sz) = int_max"
proof -
  have "scan_digits (fixdec w sz) = (False, fixdec w sz)"
    by (rule scan_digits_all) (rule set_fixdec)
  moreover have "fixdec w sz \<noteq> []"
    using assms(2) length_fixdec [of w sz] by fastforce
  ultimately show ?thesis
    using assms(1,3) by (simp add: stream_to_int_def digits_val_fixdec int_min_def)
qed

text \<open>Each parser is characterised on text split into its segments; the literal prefix is kept
  folded so that positions are lengths of segments.\<close>

lemma urlToClusterId_segments:
  assumes "CHR ''/'' \<notin> set cid" and "length (''kinetic://'' @ cid @ CHR ''/'' # path) < npos"
  shows "urlToClusterId (''kinetic://'' @ cid @ CHR ''/'' # path) = Inr cid"
proof -
  define p where "p = ''kinetic://''"
  have "find_first_of (p @ cid @ CHR ''/'' # path) (CHR ''/'') (length p) = length p + length cid"
    using assms(1) by (rule find_first_of_segment) simp
  moreover have "length p + length cid < npos"
    using assms(2) by (simp add: p_def)
  ultimately show ?thesis
    unfolding urlToClusterId_def p_def [symmetric] Let_def
    by (simp add: size_sub_le npos_def)
qed

lemma urlToPath_segments:
  assumes "cid \<noteq> []" and "CHR ''/'' \<notin> set cid"
    and "length (''kinetic://'' @ cid @ CHR ''/'' # path) < npos"
  shows "urlToPath (''kinetic://'' @ cid @ CHR ''/'' # path) = Inr path"
proof -
  define p where "p = ''kinetic://''"
  obtain c cs where c: "cid = c # cs" using assms(1) by (cases cid) auto
  have "find_first_of ((p @ [c]) @ cs @ CHR ''/'' # path) (CHR ''/'') (length p + 1)
      = length (p @ [c]) + length cs"
    by (rule find_first_of_segment) (use assms(2) c in auto)
  moreover have "length p + length cid + length path + 1 < npos"
    using assms(3) by (simp add: p_def)
  ultimately show ?thesis
    unfolding urlToPath_def p_def [symmetric]
    by (simp add: c size_add_small npos_def std_substr_def)
qed

lemma metadataToUrl_segments:
  assumes "CHR '':'' \<notin> set cid" and "length (''kinetic://'' @ cid @ CHR ''/'' # path) < npos"
  shows "metadataToUrl (makeMetadataKey cid path) = Inr (''kinetic://'' @ cid @ CHR ''/'' # path)"
proof -
  define m where "m = ''metadata''"
  have k: "makeMetadataKey cid path = cid @ CHR '':'' # m @ CHR '':'' # path"
    by (simp add: makeMetadataKey_def m_def)
  have p1: "find_first_of (cid @ CHR '':'' # m @ CHR '':'' # path) (CHR '':'') 0 = length cid"
    using find_first_of_segment [of "CHR '':''" cid 0 "[]"] assms(1) by simp
  have p2: "find_first_of (cid @ CHR '':'' # m @ CHR '':'' # path) (CHR '':'') (length cid + 1)
      = length cid + 1 + length m"
    using find_first_of_segment [of "CHR '':''" m "length cid + 1" "cid @ [CHR '':'']" path]
    by (simp add: m_def)
  have small: "length cid + 1 + length m + 1 < 18446744073709551616" and "length path \<le> npos"
    using assms(2) by (simp_all add: m_def npos_def)
  have "size_add (length cid) 1 = length cid + 1"
    using small by (intro size_add_small) simp
  moreover have "size_add (length cid + 1 + length m) 1 = length cid + 1 + length m + 1"
    using small by (rule size_add_small)
  moreover have "std_substr (cid @ CHR '':'' # m @ CHR '':'' # path) (length cid + 1 + length m + 1) npos
      = Inr path"
    using \<open>length path \<le> npos\<close> by (simp add: std_substr_def)
  ultimately show ?thesis
    unfolding metadataToUrl_def k Let_def using p2 by (simp add: p1 std_substr_def)
qed

lemma extractAttributeName_segments:
  assumes "length (makeAttributeKey cid path name) \<le> npos"
  shows "extractAttributeName cid path (makeAttributeKey cid path name) = Inr name"
proof -
  define a where "a = '':attribute:''"
  have "makeAttributeKey cid path name = (cid @ a @ path @ [CHR '':'']) @ name"
    by (simp add: makeAttributeKey_def a_def)
  moreover have "length name \<le> npos"
    using assms by (simp add: makeAttributeKey_def)
  ultimately show ?thesis
    unfolding extractAttributeName_def a_def [symmetric] Let_def by (simp add: std_substr_def)
qed

lemma indicatorToKey_segments:
  assumes "length (makeIndicatorKey key) \<le> npos"
  shows "indicatorToKey (makeIndicatorKey key) = Inr key"
proof -
  define i where "i = ''indicator:''"
  have "length key \<le> npos"
    using assms by (simp add: makeIndicatorKey_def)
  then show ?thesis
    unfolding indicatorToKey_def makeIndicatorKey_def i_def [symmetric] by simp
qed

lemma uuidDecodeSize_encode_size:
  assumes "length uuid = 36 \<or> length uuid = 16" and "int sz \<le> int_max"
  shows "uuidDecodeSize (Some (uuidGenerateEncodeSize uuid sz)) = Inr sz"
proof -
  have bound: "sz < 10 ^ 10"
    using assms(2) by (simp add: int_max_def)
  have "stream_to_int (fixdec 10 sz) = int sz"
    using stream_to_int_fixdec [OF bound] assms(2) by simp
  with uuidDecodeSize_encode_aux [OF assms(1) bound] assms(2) show ?thesis
    by (simp add: int_max_def)
qed

section \<open>Properties\<close>

text \<open>block keys sort like block numbers. For two block numbers that fit an \<^verbatim>\<open>int\<close>, the
  key of one block is lexicographically before the key of another block of the same file exactly
  when its number is smaller. Range requests over the blocks of a file rest on this.\<close>

theorem makeDataKey_less_iff:
  assumes "0 \<le> m" and "m \<le> int_max" and "0 \<le> n" and "n \<le> int_max"
  shows "makeDataKey c b m < makeDataKey c b n \<longleftrightarrow> m < n"
proof -
  have "makeDataKey c b m < makeDataKey c b n \<longleftrightarrow> fixdec 10 (nat m) < fixdec 10 (nat n)"
    by (simp only: makeDataKey_fixdec assms less_append_prefix)
  also have "\<dots> \<longleftrightarrow> nat m < nat n"
    by (rule fixdec_less_iff) (rule data_key_suffix_bound, rule assms)+
  finally show ?thesis
    using assms(1,3) by auto
qed

theorem makeDataKey_less_iff_witness:
  "makeDataKey ''c'' ''f'' 9 < makeDataKey ''c'' ''f'' 10"
  using makeDataKey_less_iff [of 9 10 "''c''" "''f''"] by (simp add: int_max_def)

text \<open>the size of a value survives its version string. For a size that fits an
  \<^verbatim>\<open>int\<close>, decoding the version generated for it gives the size back, for the textual uuid
  (36 bytes) and for the deprecated binary one (16 bytes).\<close>

theorem uuidDecodeSize_encode:
  assumes "length uuid = 36 \<or> length uuid = 16" and "int sz \<le> int_max"
  shows "uuidDecodeSize (Some (uuidGenerateEncodeSize uuid sz)) = Inr sz"
  using assms by (rule uuidDecodeSize_encode_size)

theorem uuidDecodeSize_encode_witness:
  "uuidDecodeSize (Some (uuidGenerateEncodeSize (replicate 36 (CHR ''a'')) 112323)) = Inr 112323"
  using uuidDecodeSize_encode [of "replicate 36 (CHR ''a'')" 112323] by (simp add: int_max_def)

text \<open>Sizes the decoder cannot represent. A size above \<^verbatim>\<open>INT_MAX\<close> that still has ten digits is
  encoded without complaint and decoded as \<^verbatim>\<open>INT_MAX\<close>; a version of any other length is refused
  with \<^verbatim>\<open>std::invalid_argument\<close>.\<close>

theorem uuidDecodeSize_limits:
  assumes "length uuid = 36" and "int_max < int sz" and "sz < 10 ^ 10"
    and "length v \<noteq> 46" and "length v \<noteq> 26"
  shows "uuidDecodeSize (Some (uuidGenerateEncodeSize uuid sz)) = Inr 2147483647 \<and>
         uuidDecodeSize (Some v) = Inl Invalid_argument"
proof -
  have "stream_to_int (fixdec 10 sz) = int_max"
    using stream_to_int_fixdec_clamped assms(2,3) by simp
  with uuidDecodeSize_encode_aux [of uuid sz] assms show ?thesis
    by (simp add: uuidDecodeSize_def int_max_def)
qed

theorem uuidDecodeSize_limits_witness:
  "uuidDecodeSize (Some (uuidGenerateEncodeSize (replicate 36 (CHR ''a'')) 3000000000)) = Inr 2147483647 \<and>
   uuidDecodeSize (Some ''short'') = Inl Invalid_argument"
  using uuidDecodeSize_limits [of "replicate 36 (CHR ''a'')" 3000000000 "''short''"]
  by (simp add: int_max_def)

text \<open>Urls and metadata keys are inverse to each other. For a url
  \<^verbatim>\<open>kinetic://clusterId/path\<close> whose cluster id is not empty and contains neither \<open>/\<close> nor
  \<open>:\<close> (as the README requires), the cluster id and the path are extracted as written and the
  metadata key built from them leads back to the url.\<close>

theorem url_metadata_roundtrip:
  assumes "cid \<noteq> []" and "CHR ''/'' \<notin> set cid" and "CHR '':'' \<notin> set cid"
    and "url = ''kinetic://'' @ cid @ CHR ''/'' # path" and "length url < npos"
  shows "urlToClusterId url = Inr cid \<and> urlToPath url = Inr path \<and>
         metadataToUrl (makeMetadataKey cid path) = Inr url"
  using urlToClusterId_segments [OF assms(2)] urlToPath_segments [OF assms(1,2)]
    metadataToUrl_segments [OF assms(3)] assms(4,5) by simp

theorem url_metadata_roundtrip_witness:
  "urlToClusterId ''kinetic://cluster//the/path'' = Inr ''cluster'' \<and>
   urlToPath ''kinetic://cluster//the/path'' = Inr ''/the/path'' \<and>
   metadataToUrl (makeMetadataKey ''cluster'' ''/the/path'') = Inr ''kinetic://cluster//the/path''"
  using url_metadata_roundtrip
    [of "''cluster''" "''kinetic://cluster//the/path''" "''/the/path''"] by (simp add: npos_def)

text \<open>the name of an attribute and the key behind an indicator are recovered exactly from the
  keys built for them.\<close>

theorem attribute_indicator_roundtrip:
  assumes "length (makeAttributeKey cid path name) \<le> npos" and "length (makeIndicatorKey key) \<le> npos"
  shows "extractAttributeName cid path (makeAttributeKey cid path name) = Inr name \<and>
         indicatorToKey (makeIndicatorKey key) = Inr key"
  using extractAttributeName_segments [OF assms(1)] indicatorToKey_segments [OF assms(2)] by simp

theorem attribute_indicator_roundtrip_witness:
  "extractAttributeName ''cluster'' ''/the/path''
     (makeAttributeKey ''cluster'' ''/the/path'' ''test-attribute'') = Inr ''test-attribute'' \<and>
   indicatorToKey (makeIndicatorKey ''a-key'') = Inr ''a-key''"
  using attribute_indicator_roundtrip [of "''cluster''" "''/the/path''" "''test-attribute''" "''a-key''"]
  by (simp add: makeAttributeKey_def makeIndicatorKey_def npos_def)

end
