(* ===== verification/Murmur_Hash.thy ===== *)
theory Murmur_Hash
  imports Kio_Prelude
begin

text \<open>
  The hash of \<^verbatim>\<open>src/outside/MurmurHash3.cpp\<close> that decides on which drives the chunks of a key
  are placed (\<^verbatim>\<open>MurmurHash3_x86_32\<close>, the only entry point the library calls). Blocks are read
  as little-endian words, as on the platforms the library is built for. The length is an \<^verbatim>\<open>int\<close> in
  the code and the length of the list here: keys are shorter than \<open>2\<^sup>3\<^sup>1\<close> bytes.
\<close>

unbundle bit_operations_syntax

section \<open>Model\<close>

definition rotl32 :: "32 word \<Rightarrow> nat \<Rightarrow> 32 word" where
  "rotl32 x r = (push_bit r x) OR (drop_bit (32 - r) x)"

definition byte_at :: "string \<Rightarrow> nat \<Rightarrow> 32 word" where
  "byte_at data i = of_char (data ! i)"

definition getblock32 :: "string \<Rightarrow> nat \<Rightarrow> 32 word" where
  "getblock32 data i =
     byte_at data (4 * i) OR push_bit 8 (byte_at data (4 * i + 1)) OR
     push_bit 16 (byte_at data (4 * i + 2)) OR push_bit 24 (byte_at data (4 * i + 3))"

definition fmix32 :: "32 word \<Rightarrow> 32 word" where
  "fmix32 h =
     (let h = h XOR drop_bit 16 h;
          h = h * 0x85ebca6b;
          h = h XOR drop_bit 13 h;
          h = h * 0xc2b2ae35
      in h XOR drop_bit 16 h)"

definition murmur_k1 :: "32 word \<Rightarrow> 32 word" where
  "murmur_k1 k = rotl32 (k * 0xcc9e2d51) 15 * 0x1b873593"

definition murmur_round :: "string \<Rightarrow> 32 word \<Rightarrow> nat \<Rightarrow> 32 word" where
  "murmur_round data h1 i = rotl32 (h1 XOR murmur_k1 (getblock32 data i)) 13 * 5 + 0xe6546b64"

text \<open>The fall-through switch over the last \<open>len & 3\<close> bytes.\<close>

definition murmur_tail :: "string \<Rightarrow> nat \<Rightarrow> 32 word \<Rightarrow> 32 word" where
  "murmur_tail data nblocks h1 =
     (let len = length data;
          t = 4 * nblocks;
          k3 = (if len mod 4 = 3 then push_bit 16 (byte_at data (t + 2)) else 0);
          k2 = (if 2 \<le> len mod 4 then k3 XOR push_bit 8 (byte_at data (t + 1)) else k3)
      in if 1 \<le> len mod 4 then h1 XOR murmur_k1 (k2 XOR byte_at data t) else h1)"

definition MurmurHash3_x86_32 :: "string \<Rightarrow> 32 word \<Rightarrow> 32 word" where
  "MurmurHash3_x86_32 data seed =
     (let nblocks = length data div 4;
          h1 = foldl (murmur_round data) seed [0..<nblocks];
          h1 = murmur_tail data nblocks h1
      in fmix32 (h1 XOR of_nat (length data)))"

section \<open>Lemmas\<close>

lemma rotation_bits:
  fixes x :: "'a::len word"
  assumes "0 < r" and "r < LENGTH('a)"
  shows "push_bit r x OR drop_bit (LENGTH('a) - r) x = word_rotl r x"
proof (rule bit_word_eqI)
  fix n assume n: "n < LENGTH('a)"
  show "bit (push_bit r x OR drop_bit (LENGTH('a) - r) x) n = bit (word_rotl r x) n"
  proof (cases "r \<le> n")
    case True
    then have "\<not> bit x (LENGTH('a) - r + n)"
      using bit_imp_le_length [of x "LENGTH('a) - r + n"] assms by auto
    moreover have "(n + (LENGTH('a) - r)) mod LENGTH('a) = n - r"
      using True n assms by (simp add: mod_if)
    ultimately show ?thesis
      using True n assms by (simp add: bit_or_iff bit_push_bit_iff bit_drop_bit_eq bit_word_rotl_iff)
  next
    case False
    then have "(n + (LENGTH('a) - r)) mod LENGTH('a) = LENGTH('a) - r + n"
      using n assms by simp
    then show ?thesis
      using False n assms by (simp add: bit_or_iff bit_push_bit_iff bit_drop_bit_eq bit_word_rotl_iff)
  qed
qed

lemma rotl32_is_rotation: "0 < r \<Longrightarrow> r < 32 \<Longrightarrow> rotl32 x r = word_rotl r x"
  using rotation_bits [of r x] by (simp add: rotl32_def)

end
