(* ===== verification/Murmur_Variants.thy ===== *)
theory Murmur_Variants
  imports Murmur_Hash
begin

text \<open>
  The two 128 bit hashes of \<^verbatim>\<open>src/outside/MurmurHash3.cpp\<close>, and what all three hashes have in common: keys
  of the same length that differ within one aligned block never collide. The common argument is a
  locale over the round, the tail and the final mixing of a hash, interpreted on the three of the file.
\<close>

unbundle bit_operations_syntax

section \<open>Model\<close>

definition rotl64 :: "64 word \<Rightarrow> nat \<Rightarrow> 64 word" where
  "rotl64 x r = (push_bit r x) OR (drop_bit (64 - r) x)"

definition getblock64 :: "string \<Rightarrow> nat \<Rightarrow> 64 word" where
  "getblock64 data i = fold (\<lambda>j k. k OR push_bit (8 * j) (of_char (data ! (8 * i + j)))) [0..<8] 0"

definition fmix64 :: "64 word \<Rightarrow> 64 word" where
  "fmix64 k =
     (let k = k XOR drop_bit 33 k;
          k = k * 0xff51afd7ed558ccd;
          k = k XOR drop_bit 33 k;
          k = k * 0xc4ceb9fe1a85ec53
      in k XOR drop_bit 33 k)"

text \<open>The bytes of a tail, collected from the last one down to the first by falling through the cases.\<close>

definition tail_word :: "string \<Rightarrow> nat \<Rightarrow> nat \<Rightarrow> 'a::len word" where
  "tail_word data t n = fold (\<lambda>j k. k XOR push_bit (8 * j) (of_char (data ! (t + j)))) (rev [0..<n]) 0"

definition murmur_mix :: "32 word \<Rightarrow> nat \<Rightarrow> 32 word \<Rightarrow> 32 word \<Rightarrow> 32 word" where
  "murmur_mix c r c' k = rotl32 (k * c) r * c'"

definition murmur_mix64 :: "64 word \<Rightarrow> nat \<Rightarrow> 64 word \<Rightarrow> 64 word \<Rightarrow> 64 word" where
  "murmur_mix64 c r c' k = rotl64 (k * c) r * c'"

definition murmur_step :: "32 word \<Rightarrow> nat \<Rightarrow> 32 word \<Rightarrow> 32 word \<Rightarrow> 32 word" where
  "murmur_step h r g c = (rotl32 h r + g) * 5 + c"

definition murmur_step64 :: "64 word \<Rightarrow> nat \<Rightarrow> 64 word \<Rightarrow> 64 word \<Rightarrow> 64 word" where
  "murmur_step64 h r g c = (rotl64 h r + g) * 5 + c"

subsection \<open>The 128 bit hash on 32 bit words\<close>

type_synonym state_x86 = "32 word \<times> 32 word \<times> 32 word \<times> 32 word"

definition x86_k1 :: "32 word \<Rightarrow> 32 word" where
  "x86_k1 = murmur_mix 0x239b961b 15 0xab0e9789"

definition x86_k2 :: "32 word \<Rightarrow> 32 word" where
  "x86_k2 = murmur_mix 0xab0e9789 16 0x38b34ae5"

definition x86_k3 :: "32 word \<Rightarrow> 32 word" where
  "x86_k3 = murmur_mix 0x38b34ae5 17 0xa1e38b93"

definition x86_k4 :: "32 word \<Rightarrow> 32 word" where
  "x86_k4 = murmur_mix 0xa1e38b93 18 0x239b961b"

definition x86_round :: "string \<Rightarrow> state_x86 \<Rightarrow> nat \<Rightarrow> state_x86" where
  "x86_round data = (\<lambda>(h1, h2, h3, h4) i.
     (let k1 = getblock32 data (i * 4 + 0);
          k2 = getblock32 data (i * 4 + 1);
          k3 = getblock32 data (i * 4 + 2);
          k4 = getblock32 data (i * 4 + 3);
          h1 = h1 XOR x86_k1 k1; h1 = murmur_step h1 19 h2 0x561ccd1b;
          h2 = h2 XOR x86_k2 k2; h2 = murmur_step h2 17 h3 0x0bcaa747;
          h3 = h3 XOR x86_k3 k3; h3 = murmur_step h3 15 h4 0x96cd1c35;
          h4 = h4 XOR x86_k4 k4; h4 = murmur_step h4 13 h1 0x32ac3b17
      in (h1, h2, h3, h4)))"

definition x86_tail :: "string \<Rightarrow> nat \<Rightarrow> state_x86 \<Rightarrow> state_x86" where
  "x86_tail data nblocks = (\<lambda>(h1, h2, h3, h4).
     (let n = length data mod 16;
          t = nblocks * 16;
          h4 = (if 13 \<le> n then h4 XOR x86_k4 (tail_word data (t + 12) (n - 12)) else h4);
          h3 = (if 9 \<le> n then h3 XOR x86_k3 (tail_word data (t + 8) (min 4 (n - 8))) else h3);
          h2 = (if 5 \<le> n then h2 XOR x86_k2 (tail_word data (t + 4) (min 4 (n - 4))) else h2);
          h1 = (if 1 \<le> n then h1 XOR x86_k1 (tail_word data t (min 4 n)) else h1)
      in (h1, h2, h3, h4)))"

definition x86_spread :: "state_x86 \<Rightarrow> state_x86" where
  "x86_spread = (\<lambda>(h1, h2, h3, h4).
     (let h1 = h1 + h2; h1 = h1 + h3; h1 = h1 + h4
      in (h1, h2 + h1, h3 + h1, h4 + h1)))"

definition x86_finish :: "nat \<Rightarrow> state_x86 \<Rightarrow> state_x86" where
  "x86_finish len = (\<lambda>(h1, h2, h3, h4).
     (let (h1, h2, h3, h4) = x86_spread (h1 XOR of_nat len, h2 XOR of_nat len, h3 XOR of_nat len, h4 XOR of_nat len)
      in x86_spread (fmix32 h1, fmix32 h2, fmix32 h3, fmix32 h4)))"

definition MurmurHash3_x86_128 :: "string \<Rightarrow> 32 word \<Rightarrow> state_x86" where
  "MurmurHash3_x86_128 data seed =
     (let nblocks = length data div 16;
          h = foldl (x86_round data) (seed, seed, seed, seed) [0..<nblocks]
      in x86_finish (length data) (x86_tail data nblocks h))"

subsection \<open>The 128 bit hash on 64 bit words\<close>

type_synonym state_x64 = "64 word \<times> 64 word"

definition x64_k1 :: "64 word \<Rightarrow> 64 word" where
  "x64_k1 = murmur_mix64 0x87c37b91114253d5 31 0x4cf5ad432745937f"

definition x64_k2 :: "64 word \<Rightarrow> 64 word" where
  "x64_k2 = murmur_mix64 0x4cf5ad432745937f 33 0x87c37b91114253d5"

definition x64_round :: "string \<Rightarrow> state_x64 \<Rightarrow> nat \<Rightarrow> state_x64" where
  "x64_round data = (\<lambda>(h1, h2) i.
     (let k1 = getblock64 data (i * 2 + 0);
          k2 = getblock64 data (i * 2 + 1);
          h1 = h1 XOR x64_k1 k1; h1 = murmur_step64 h1 27 h2 0x52dce729;
          h2 = h2 XOR x64_k2 k2; h2 = murmur_step64 h2 31 h1 0x38495ab5
      in (h1, h2)))"

definition x64_tail :: "string \<Rightarrow> nat \<Rightarrow> state_x64 \<Rightarrow> state_x64" where
  "x64_tail data nblocks = (\<lambda>(h1, h2).
     (let n = length data mod 16;
          t = nblocks * 16;
          h2 = (if 9 \<le> n then h2 XOR x64_k2 (tail_word data (t + 8) (n - 8)) else h2);
          h1 = (if 1 \<le> n then h1 XOR x64_k1 (tail_word data t (min 8 n)) else h1)
      in (h1, h2)))"

definition x64_spread :: "state_x64 \<Rightarrow> state_x64" where
  "x64_spread = (\<lambda>(h1, h2). (let h1 = h1 + h2 in (h1, h2 + h1)))"

definition x64_finish :: "nat \<Rightarrow> state_x64 \<Rightarrow> state_x64" where
  "x64_finish len = (\<lambda>(h1, h2).
     (let (h1, h2) = x64_spread (h1 XOR of_nat len, h2 XOR of_nat len)
      in x64_spread (fmix64 h1, fmix64 h2)))"

definition MurmurHash3_x64_128 :: "string \<Rightarrow> 32 word \<Rightarrow> state_x64" where
  "MurmurHash3_x64_128 data seed =
     (let nblocks = length data div 16;
          h = foldl (x64_round data) (ucast seed, ucast seed) [0..<nblocks]
      in x64_finish (length data) (x64_tail data nblocks h))"

section \<open>Steps that lose nothing\<close>

lemma word_rotl_inject [simp]: "word_rotl r x = word_rotl r y \<longleftrightarrow> x = y"
  by (metis word_rot_lr)

lemma odd_mult_inject:
  fixes x y c :: "'a::len word"
  assumes "odd c"
  shows "x * c = y * c \<longleftrightarrow> x = y"
proof
  assume "x * c = y * c"
  then have "uint ((x - y) * c) = 0" by (simp add: left_diff_distrib)
  then have "2 ^ LENGTH('a) dvd uint (x - y) * uint c"
    by (simp add: uint_mult_lem uint_word_ariths mod_eq_0_iff_dvd)
  moreover have "bit (uint c) 0 \<longleftrightarrow> bit c 0" unfolding bit_uint_iff by (simp del: bit_0)
  with assms have "coprime (2 ^ LENGTH('a)) (uint c)" by (simp add: bit_0)
  ultimately have "2 ^ LENGTH('a) dvd uint (x - y)"
    by (simp add: coprime_dvd_mult_left_iff)
  then have "uint (x - y) = 0"
    using uint_lt2p [of "x - y"] zdvd_not_zless [of "uint (x - y)" "2 ^ LENGTH('a)"] uint_ge_0 [of "x - y"] by linarith
  then have "x - y = 0" by (simp only: uint_0_iff)
  then show "x = y" by simp
qed simp

lemma drop_bit_fixpoint:
  fixes z :: "'a::len word"
  assumes "z = drop_bit r z" and "0 < r"
  shows "z = 0"
proof (rule bit_word_eqI)
  fix n
  have "\<not> bit z n"
  proof (induction "LENGTH('a) - n" arbitrary: n rule: less_induct)
    case less
    show ?case
    proof
      assume b: "bit z n"
      then have "bit z (r + n)" using assms(1) by (metis bit_drop_bit_eq comp_apply)
      moreover have "LENGTH('a) - (r + n) < LENGTH('a) - n"
        using bit_imp_le_length [OF b] assms(2) by simp
      ultimately show False using less by blast
    qed
  qed
  then show "bit z n = bit 0 n" by simp
qed

lemma xorshift_inject:
  fixes x y :: "'a::len word"
  assumes "0 < r"
  shows "x XOR drop_bit r x = y XOR drop_bit r y \<longleftrightarrow> x = y"
proof
  assume e: "x XOR drop_bit r x = y XOR drop_bit r y"
  have "x XOR y = drop_bit r (x XOR y)"
    unfolding drop_bit_xor by (metis e xor.assoc xor.commute xor.left_commute xor_self_eq xor.right_neutral)
  then have "x XOR y = 0" by (rule drop_bit_fixpoint [OF _ assms])
  then show "x = y" by (metis xor.assoc xor.left_neutral xor.right_neutral xor_self_eq)
qed simp


lemma rotl32_inject: "0 < r \<Longrightarrow> r < 32 \<Longrightarrow> rotl32 x r = rotl32 y r \<longleftrightarrow> x = y"
  by (simp add: rotl32_is_rotation)

lemma rotl64_inject: "0 < r \<Longrightarrow> r < 64 \<Longrightarrow> rotl64 x r = rotl64 y r \<longleftrightarrow> x = y"
  using rotation_bits [of r x] rotation_bits [of r y] by (simp add: rotl64_def)

lemma xor_inject [simp]: "(a :: 'a::len word) XOR b = a XOR c \<longleftrightarrow> b = c" "b XOR a = c XOR a \<longleftrightarrow> b = c"
  by (metis xor.assoc xor.left_neutral xor_self_eq) (metis xor.assoc xor.right_neutral xor_self_eq)

lemma fmix32_inject [simp]: "fmix32 x = fmix32 y \<longleftrightarrow> x = y"
  by (simp add: fmix32_def Let_def xorshift_inject odd_mult_inject)

lemma fmix64_inject [simp]: "fmix64 x = fmix64 y \<longleftrightarrow> x = y"
  by (simp add: fmix64_def Let_def xorshift_inject odd_mult_inject)

lemma murmur_k1_inject [simp]: "murmur_k1 x = murmur_k1 y \<longleftrightarrow> x = y"
  by (simp add: murmur_k1_def rotl32_inject odd_mult_inject)

lemma x86_k_inject [simp]:
  "x86_k1 x = x86_k1 y \<longleftrightarrow> x = y" "x86_k2 x = x86_k2 y \<longleftrightarrow> x = y"
  "x86_k3 x = x86_k3 y \<longleftrightarrow> x = y" "x86_k4 x = x86_k4 y \<longleftrightarrow> x = y"
  by (simp_all add: x86_k1_def x86_k2_def x86_k3_def x86_k4_def murmur_mix_def rotl32_inject odd_mult_inject)

lemma x64_k_inject [simp]: "x64_k1 x = x64_k1 y \<longleftrightarrow> x = y" "x64_k2 x = x64_k2 y \<longleftrightarrow> x = y"
  by (simp_all add: x64_k1_def x64_k2_def murmur_mix64_def rotl64_inject odd_mult_inject)

lemma murmur_step_inject [simp]: "0 < r \<Longrightarrow> r < 32 \<Longrightarrow> murmur_step x r u c = murmur_step y r u c \<longleftrightarrow> x = y"
  "murmur_step x r u c = murmur_step x r v c \<longleftrightarrow> u = v"
  by (simp_all add: murmur_step_def odd_mult_inject rotl32_inject del: distrib_right_numeral)

lemma murmur_step64_inject [simp]: "0 < r \<Longrightarrow> r < 64 \<Longrightarrow> murmur_step64 x r u c = murmur_step64 y r u c \<longleftrightarrow> x = y"
  "murmur_step64 x r u c = murmur_step64 x r v c \<longleftrightarrow> u = v"
  by (simp_all add: murmur_step64_def odd_mult_inject rotl64_inject del: distrib_right_numeral)

section \<open>Bytes and words\<close>

lemma fold_xor_start:
  fixes f :: "nat \<Rightarrow> 'a::len word"
  shows "fold (\<lambda>j k. k XOR f j) js w = w XOR fold (\<lambda>j k. k XOR f j) js 0"
proof (induction js arbitrary: w)
  case (Cons j js)
  show ?case by (simp add: Cons [of "w XOR f j"] Cons [of "f j"] xor.assoc)
qed simp

lemma bit_shifted_byte:
  "bit (push_bit (8 * j) (of_char c) :: 'a::len word) m \<longleftrightarrow>
     m < LENGTH('a) \<and> m div 8 = j \<and> char_bits c ! (m mod 8)"
proof -
  have "8 * j \<le> m \<and> m - 8 * j < 8 \<longleftrightarrow> m div 8 = j" by auto
  moreover have "m div 8 = j \<Longrightarrow> m - 8 * j = m mod 8" by presburger
  ultimately show ?thesis by (auto simp: bit_push_bit_iff bit_of_char)
qed

lemma bit_tail_word:
  "bit (tail_word data t n :: 'a::len word) m \<longleftrightarrow>
     m < LENGTH('a) \<and> m div 8 < n \<and> char_bits (data ! (t + m div 8)) ! (m mod 8)"
proof (induction n)
  case (Suc n)
  have "(tail_word data t (Suc n) :: 'a word) = push_bit (8 * n) (of_char (data ! (t + n))) XOR tail_word data t n"
    unfolding tail_word_def using fold_xor_start [where js = "rev [0..<n]"] by simp
  with Suc show ?case by (auto simp: bit_xor_iff bit_shifted_byte less_Suc_eq)
qed (simp add: tail_word_def)

lemma tail_word_eq_iff:
  assumes "8 * n \<le> LENGTH('a::len)"
  shows "(tail_word d t n :: 'a word) = tail_word d' t n \<longleftrightarrow> (\<forall>j<n. d ! (t + j) = d' ! (t + j))"
proof
  assume eq: "(tail_word d t n :: 'a word) = tail_word d' t n"
  have "d ! (t + j) = d' ! (t + j)" if "j < n" for j
  proof -
    have "char_bits (d ! (t + j)) ! i = char_bits (d' ! (t + j)) ! i" if "i < 8" for i
      using arg_cong [OF eq, of "\<lambda>w. bit w (8 * j + i)"] \<open>j < n\<close> that assms by (simp add: bit_tail_word)
    then have "char_bits (d ! (t + j)) = char_bits (d' ! (t + j))" by (simp add: list_eq_iff_nth_eq)
    then show ?thesis by simp
  qed
  then show "\<forall>j<n. d ! (t + j) = d' ! (t + j)" by blast
next
  assume "\<forall>j<n. d ! (t + j) = d' ! (t + j)"
  then show "(tail_word d t n :: 'a word) = tail_word d' t n"
    by (intro bit_word_eqI) (auto simp: bit_tail_word)
qed


lemma getblock32_tail_word: "getblock32 data i = tail_word data (4 * i) 4"
proof (rule bit_word_eqI)
  fix m assume "m < LENGTH(32)"
  then have "m div 8 < 4" by simp
  moreover have "bit (getblock32 data i) m \<longleftrightarrow> (\<exists>j<4. bit (push_bit (8 * j) (of_char (data ! (4 * i + j))) :: 32 word) m)"
    by (simp add: getblock32_def byte_at_def bit_or_iff numeral_eq_Suc less_Suc_eq ex_disj_distrib conj_disj_distribR)
  ultimately show "bit (getblock32 data i) m \<longleftrightarrow> bit (tail_word data (4 * i) 4 :: 32 word) m"
    by (auto simp: bit_shifted_byte bit_tail_word)
qed

lemma getblock64_tail_word: "getblock64 data i = tail_word data (8 * i) 8"
proof (rule bit_word_eqI)
  fix m assume "m < LENGTH(64)"
  then have "m div 8 < 8" by simp
  moreover have "bit (getblock64 data i) m \<longleftrightarrow> (\<exists>j<8. bit (push_bit (8 * j) (of_char (data ! (8 * i + j))) :: 64 word) m)"
    by (simp add: getblock64_def bit_or_iff numeral_eq_Suc less_Suc_eq ex_disj_distrib conj_disj_distribR upt_rec)
  ultimately show "bit (getblock64 data i) m \<longleftrightarrow> bit (tail_word data (8 * i) 8 :: 64 word) m"
    by (auto simp: bit_shifted_byte bit_tail_word)
qed

lemma getblock_eq_iff:
  "getblock32 d i = getblock32 d' i \<longleftrightarrow> (\<forall>j<4. d ! (4 * i + j) = d' ! (4 * i + j))"
  "getblock64 d i = getblock64 d' i \<longleftrightarrow> (\<forall>j<8. d ! (8 * i + j) = d' ! (8 * i + j))"
  by (simp_all add: getblock32_tail_word getblock64_tail_word tail_word_eq_iff)

lemma murmur_tail_tail_word:
  "murmur_tail data n h = (if length data mod 4 = 0 then h else h XOR murmur_k1 (tail_word data (4 * n) (length data mod 4)))"
proof -
  consider "length data mod 4 = 0" | "length data mod 4 = 1" | "length data mod 4 = 2" | "length data mod 4 = 3"
    by linarith
  then show ?thesis
    by cases (simp_all add: murmur_tail_def byte_at_def tail_word_def upt_rec Let_def)
qed

text \<open>A range of bytes in pieces.\<close>

lemma all_less_blocks:
  assumes "0 < (b :: nat)"
  shows "(\<forall>j<a. \<forall>l<b. P (b * j + l)) \<longleftrightarrow> (\<forall>m < b * a. P m)"
proof
  assume *: "\<forall>j<a. \<forall>l<b. P (b * j + l)"
  show "\<forall>m < b * a. P m"
  proof (intro allI impI)
    fix m assume "m < b * a"
    then have "m div b < a" by (simp add: less_mult_imp_div_less mult.commute)
    then have "P (b * (m div b) + m mod b)" using * mod_less_divisor [OF assms] by blast
    then show "P m" by (simp only: mult_div_mod_eq)
  qed
next
  assume *: "\<forall>m < b * a. P m"
  have "b * j + l < b * a" if "j < a" "l < b" for j l
  proof -
    have "b * j + l < b * Suc j" using that(2) by simp
    also have "\<dots> \<le> b * a" using that(1) by (intro mult_le_mono2) simp
    finally show ?thesis .
  qed
  with * show "\<forall>j<a. \<forall>l<b. P (b * j + l)" by simp
qed

section \<open>What the three hashes have in common\<close>

locale block_hash =
  fixes width :: nat and round :: "string \<Rightarrow> 's \<Rightarrow> nat \<Rightarrow> 's" and tail :: "string \<Rightarrow> nat \<Rightarrow> 's \<Rightarrow> 's"
    and finish :: "nat \<Rightarrow> 's \<Rightarrow> 'h"
  assumes width: "0 < width"
    and round_state: "round d s i = round d s' i \<Longrightarrow> s = s'"
    and round_bytes: "round d s i = round d' s i \<longleftrightarrow> (\<forall>j < width. d ! (width * i + j) = d' ! (width * i + j))"
    and tail_state: "tail d n s = tail d n s' \<Longrightarrow> s = s'"
    and tail_bytes: "length d = length d' \<Longrightarrow> tail d n s = tail d' n s \<longleftrightarrow>
      (\<forall>j < length d mod width. d ! (width * n + j) = d' ! (width * n + j))"
    and finish_inject: "finish n s = finish n s' \<Longrightarrow> s = s'"
begin

definition hash :: "string \<Rightarrow> 's \<Rightarrow> 'h" where
  "hash d s = finish (length d) (tail d (length d div width) (foldl (round d) s [0..<length d div width]))"

lemma rounds_state: "foldl (round d) s is = foldl (round d) s' is \<Longrightarrow> s = s'"
  by (induction "is" arbitrary: s s') (auto dest: round_state)

lemma rounds_bytes:
  assumes "\<And>i j. i \<in> set is \<Longrightarrow> j < width \<Longrightarrow> a ! (width * i + j) = b ! (width * i + j)"
  shows "foldl (round a) s is = foldl (round b) s is"
  using assms by (intro foldl_cong) (simp_all add: round_bytes)

lemma hash_seed: "hash d s = hash d s' \<Longrightarrow> s = s'"
  unfolding hash_def by (blast dest: finish_inject tail_state rounds_state)

text \<open>The position of a byte in its block.\<close>

lemma block_inside:
  assumes "i < n div width" and "j < width"
  shows "width * i + j < n"
proof -
  have "width * i + j < width * Suc i" using assms(2) by simp
  also have "\<dots> \<le> width * (n div width)" using assms(1) by (intro mult_le_mono2) simp
  also have "\<dots> \<le> n" by simp
  finally show ?thesis .
qed

lemma tail_position:
  assumes "j < n mod width"
  shows "width * (n div width) + j < n" and "(width * (n div width) + j) div width = n div width"
proof -
  show "width * (n div width) + j < n" using assms by (metis add_less_cancel_left mult_div_mod_eq)
  have "j < width" by (rule less_trans [OF assms mod_less_divisor [OF width]])
  then show "(width * (n div width) + j) div width = n div width" by simp
qed

text \<open>Two keys with the same hash that can only differ within block \<open>k\<close> do not differ there.\<close>

lemma same_hash_block:
  assumes len: "length a = length b" and same: "\<And>i. i < length a \<Longrightarrow> i div width \<noteq> k \<Longrightarrow> a ! i = b ! i"
    and k: "k < length a div width" and hash: "hash a s = hash b s" and j: "j < width"
  shows "a ! (width * k + j) = b ! (width * k + j)"
proof -
  let ?n = "length a div width"
  let ?a = "foldl (round a) s [0..<k]"
  have bytes: "a ! (width * i + j) = b ! (width * i + j)" if "i < ?n" "i \<noteq> k" "j < width" for i j
    using that by (intro same) (simp_all add: block_inside)
  have "tail a ?n x = tail b ?n x" for x
    using k tail_position [of _ "length a"] same by (simp add: tail_bytes [OF len])
  moreover have "tail a ?n (foldl (round a) s [0..<?n]) = tail b ?n (foldl (round b) s [0..<?n])"
    using hash finish_inject by (auto simp: hash_def len)
  ultimately have "foldl (round a) s [0..<?n] = foldl (round b) s [0..<?n]" by (metis tail_state)
  moreover have "[0..<?n] = [0..<k] @ k # [Suc k..<?n]"
    using k by (metis less_imp_le upt_add_eq_append upt_conv_Cons le0 le_add_diff_inverse)
  ultimately have "foldl (round a) (round a ?a k) [Suc k..<?n] = foldl (round b) (round b (foldl (round b) s [0..<k]) k) [Suc k..<?n]"
    by (metis foldl_append foldl_Cons)
  moreover have "foldl (round b) s [0..<k] = ?a"
    using bytes k by (intro rounds_bytes) (simp add: order.strict_trans)
  moreover have "foldl (round b) x [Suc k..<?n] = foldl (round a) x [Suc k..<?n]" for x
    using bytes by (intro rounds_bytes) simp
  ultimately have "round a ?a k = round b ?a k" by (metis rounds_state)
  then show ?thesis using j by (simp add: round_bytes)
qed

lemma same_hash_tail:
  assumes len: "length a = length b" and same: "\<And>i. i < length a \<Longrightarrow> i div width \<noteq> length a div width \<Longrightarrow> a ! i = b ! i"
    and hash: "hash a s = hash b s" and j: "j < length a mod width"
  shows "a ! (width * (length a div width) + j) = b ! (width * (length a div width) + j)"
proof -
  let ?n = "length a div width"
  have "foldl (round a) s [0..<?n] = foldl (round b) s [0..<?n]"
    by (rule rounds_bytes) (simp add: same block_inside)
  moreover have "tail a ?n (foldl (round a) s [0..<?n]) = tail b ?n (foldl (round b) s [0..<?n])"
    using hash finish_inject by (auto simp: hash_def len)
  ultimately show ?thesis using j by (simp add: tail_bytes [OF len])
qed

lemma hash_separates:
  assumes len: "length a = length b" and same: "\<And>i. i < length a \<Longrightarrow> i div width \<noteq> k \<Longrightarrow> a ! i = b ! i" and "a \<noteq> b"
  shows "hash a s \<noteq> hash b s"
proof
  assume hash: "hash a s = hash b s"
  have "a ! p = b ! p" if p: "p < length a" for p
  proof (cases "p div width = k")
    case blk: True
    then have pos: "p = width * k + p mod width" by (metis mult_div_mod_eq)
    show ?thesis
    proof (cases "k < length a div width")
      case True
      have "a ! (width * k + p mod width) = b ! (width * k + p mod width)"
        by (rule same_hash_block [OF len same True hash]) (simp_all add: width)
      with pos show ?thesis by simp
    next
      case False
      with blk p have k: "k = length a div width" by (metis div_le_mono less_imp_le le_neq_implies_less)
      have "p mod width < length a mod width" using p pos k by (metis add_less_cancel_left mult_div_mod_eq)
      then have "a ! (width * k + p mod width) = b ! (width * k + p mod width)"
        unfolding k using same k by (intro same_hash_tail [OF len _ hash]) auto
      with pos show ?thesis by simp
    qed
  qed (use p same in simp)
  with len \<open>a \<noteq> b\<close> show False by (simp add: list_eq_iff_nth_eq)
qed

end


interpretation x86_32: block_hash 4 murmur_round murmur_tail "\<lambda>n h. fmix32 (h XOR of_nat n)"
proof
  fix d d' :: string and s s' :: "32 word" and i n :: nat
  show "murmur_round d s i = murmur_round d s' i \<Longrightarrow> s = s'"
    by (simp add: murmur_round_def odd_mult_inject rotl32_inject)
  show "murmur_round d s i = murmur_round d' s i \<longleftrightarrow> (\<forall>j<4. d ! (4 * i + j) = d' ! (4 * i + j))"
    by (simp add: murmur_round_def odd_mult_inject rotl32_inject getblock_eq_iff)
  show "murmur_tail d n s = murmur_tail d n s' \<Longrightarrow> s = s'"
    by (simp add: murmur_tail_def Let_def split: if_splits)
  show "length d = length d' \<Longrightarrow> murmur_tail d n s = murmur_tail d' n s \<longleftrightarrow>
      (\<forall>j < length d mod 4. d ! (4 * n + j) = d' ! (4 * n + j))"
    by (simp add: murmur_tail_tail_word tail_word_eq_iff)
qed simp_all


subsection \<open>The hash on four words\<close>

lemma x86_round_state:
  assumes "x86_round d s i = x86_round d s' i"
  shows "s = s'"
proof -
  obtain h1 h2 h3 h4 where s: "s = (h1, h2, h3, h4)" by (cases s)
  obtain g1 g2 g3 g4 where s': "s' = (g1, g2, g3, g4)" by (cases s')
  note eq = assms [unfolded s s' x86_round_def Let_def prod.case prod.inject]
  have 4: "h4 = g4" using eq [THEN conjunct2, THEN conjunct2, THEN conjunct2] unfolding eq [THEN conjunct1] by simp
  with eq have 3: "h3 = g3" by simp
  with eq have 2: "h2 = g2" by simp
  with eq have "h1 = g1" by simp
  with 2 3 4 s s' show ?thesis by simp
qed

lemma x86_round_bytes:
  "x86_round d s i = x86_round d' s i \<longleftrightarrow> (\<forall>j<16. d ! (16 * i + j) = d' ! (16 * i + j))"
proof -
  have "x86_round d s i = x86_round d' s i \<longleftrightarrow> (\<forall>j<4. getblock32 d (i * 4 + j) = getblock32 d' (i * 4 + j))"
    by (cases s) (auto simp: x86_round_def Let_def numeral_eq_Suc less_Suc_eq)
  also have "\<dots> \<longleftrightarrow> (\<forall>j<16. d ! (16 * i + j) = d' ! (16 * i + j))"
    using all_less_blocks [of 4 4 "\<lambda>m. d ! (16 * i + m) = d' ! (16 * i + m)"]
    by (simp add: getblock_eq_iff algebra_simps)
  finally show ?thesis .
qed


lemma x86_tail_state: "x86_tail d n s = x86_tail d n s' \<Longrightarrow> s = s'"
  by (cases s; cases s') (simp add: x86_tail_def Let_def split: if_splits)

text \<open>Behind the guards of the tail: a word without bytes contributes nothing.\<close>

lemma tail_part_eq_iff:
  fixes f :: "'a::len word \<Rightarrow> 'a word"
  assumes "\<And>x y. f x = f y \<longleftrightarrow> x = y" and "8 * k \<le> LENGTH('a)"
  shows "(if 0 < k then h XOR f (tail_word d t k) else h) = (if 0 < k then h XOR f (tail_word d' t k) else h) \<longleftrightarrow>
    (\<forall>j<k. d ! (t + j) = d' ! (t + j))"
  using assms by (simp add: tail_word_eq_iff)

lemma x86_tail_parts:
  "x86_tail d n (h1, h2, h3, h4) =
    (let m = length d mod 16 in
     (if 0 < min 4 m then h1 XOR x86_k1 (tail_word d (16 * n + 4 * 0) (min 4 m)) else h1,
      if 0 < min 4 (m - 4) then h2 XOR x86_k2 (tail_word d (16 * n + 4) (min 4 (m - 4))) else h2,
      if 0 < min 4 (m - 8) then h3 XOR x86_k3 (tail_word d (16 * n + 8) (min 4 (m - 8))) else h3,
      if 0 < min 4 (m - 12) then h4 XOR x86_k4 (tail_word d (16 * n + 12) (min 4 (m - 12))) else h4))"
proof -
  have "length d mod 16 - 12 = min 4 (length d mod 16 - 12)" by simp
  moreover have "13 \<le> m \<longleftrightarrow> 0 < min 4 (m - 12)" "9 \<le> m \<longleftrightarrow> 0 < min 4 (m - 8)" "5 \<le> m \<longleftrightarrow> 0 < min 4 (m - 4)"
    "1 \<le> m \<longleftrightarrow> 0 < min 4 m" for m :: nat by auto
  ultimately show ?thesis
    unfolding x86_tail_def Let_def prod.case mult.commute [of n 16] by simp
qed

lemma all_less_parts:
  assumes "m < (16 :: nat)"
  shows "(\<forall>j<m. P j) \<longleftrightarrow> (\<forall>j < min 4 m. P j) \<and> (\<forall>j < min 4 (m - 4). P (4 + j)) \<and>
    (\<forall>j < min 4 (m - 8). P (8 + j)) \<and> (\<forall>j < min 4 (m - 12). P (12 + j))" (is "_ \<longleftrightarrow> ?R")
proof
  assume ?R
  show "\<forall>j<m. P j"
  proof (intro allI impI)
    fix j assume "j < m"
    then consider "j < min 4 m" | "j - 4 < min 4 (m - 4)" "4 \<le> j" | "j - 8 < min 4 (m - 8)" "8 \<le> j"
      | "j - 12 < min 4 (m - 12)" "12 \<le> j" using assms by linarith
    then show "P j" using \<open>?R\<close> by cases (metis le_add_diff_inverse)+
  qed
qed (use assms in auto)

lemma x86_tail_bytes:
  assumes "length d = length d'"
  shows "x86_tail d n s = x86_tail d' n s \<longleftrightarrow> (\<forall>j < length d mod 16. d ! (16 * n + j) = d' ! (16 * n + j))"
proof -
  obtain h1 h2 h3 h4 where s: "s = (h1, h2, h3, h4)" by (cases s)
  have small: "8 * min 4 (k :: nat) \<le> LENGTH(32)" for k by simp
  show ?thesis
    unfolding s x86_tail_parts assms Let_def prod.inject
      tail_part_eq_iff [of x86_k1, OF x86_k_inject(1) small] tail_part_eq_iff [of x86_k2, OF x86_k_inject(2) small]
      tail_part_eq_iff [of x86_k3, OF x86_k_inject(3) small] tail_part_eq_iff [of x86_k4, OF x86_k_inject(4) small]
    by (subst all_less_parts [of "length d' mod 16"]) (simp_all add: add.assoc)
qed

lemma x86_spread_inject: "x86_spread (h1, h2, h3, h4) = x86_spread (g1, g2, g3, g4) \<longleftrightarrow> h1 = g1 \<and> h2 = g2 \<and> h3 = g3 \<and> h4 = g4"
proof
  assume "x86_spread (h1, h2, h3, h4) = x86_spread (g1, g2, g3, g4)"
  note eq = this [unfolded x86_spread_def Let_def prod.case prod.inject]
  have sum: "h1 + h2 + h3 + h4 = g1 + g2 + g3 + g4" using eq by (rule conjunct1)
  have rest: "h2 = g2 \<and> h3 = g3 \<and> h4 = g4"
    using eq [THEN conjunct2] unfolding sum by (simp only: add_right_cancel)
  with sum show "h1 = g1 \<and> h2 = g2 \<and> h3 = g3 \<and> h4 = g4" by simp
qed simp

lemma x86_finish_inject:
  assumes "x86_finish n s = x86_finish n s'"
  shows "s = s'"
proof -
  obtain h1 h2 h3 h4 where s: "s = (h1, h2, h3, h4)" by (cases s)
  obtain g1 g2 g3 g4 where s': "s' = (g1, g2, g3, g4)" by (cases s')
  obtain k1 k2 k3 k4 where k: "x86_spread (h1 XOR of_nat n, h2 XOR of_nat n, h3 XOR of_nat n, h4 XOR of_nat n) = (k1, k2, k3, k4)"
    by (rule prod_cases4)
  obtain l1 l2 l3 l4 where l: "x86_spread (g1 XOR of_nat n, g2 XOR of_nat n, g3 XOR of_nat n, g4 XOR of_nat n) = (l1, l2, l3, l4)"
    by (rule prod_cases4)
  from assms have "k1 = l1 \<and> k2 = l2 \<and> k3 = l3 \<and> k4 = l4"
    by (simp add: x86_finish_def s s' k l x86_spread_inject)
  with k l have "x86_spread (h1 XOR of_nat n, h2 XOR of_nat n, h3 XOR of_nat n, h4 XOR of_nat n) =
      x86_spread (g1 XOR of_nat n, g2 XOR of_nat n, g3 XOR of_nat n, g4 XOR of_nat n)" by simp
  then show ?thesis by (simp add: x86_spread_inject s s')
qed

interpretation x86_128: block_hash 16 x86_round x86_tail x86_finish
proof
  show "0 < (16 :: nat)" by simp
qed (fact x86_round_state x86_round_bytes x86_tail_state x86_tail_bytes x86_finish_inject)+

subsection \<open>The hash on two words\<close>

lemma x64_round_state:
  assumes "x64_round d s i = x64_round d s' i"
  shows "s = s'"
proof -
  obtain h1 h2 where s: "s = (h1, h2)" by (cases s)
  obtain g1 g2 where s': "s' = (g1, g2)" by (cases s')
  note eq = assms [unfolded s s' x64_round_def Let_def prod.case prod.inject]
  have 2: "h2 = g2" using eq [THEN conjunct2] unfolding eq [THEN conjunct1] by simp
  with eq have "h1 = g1" by simp
  with 2 s s' show ?thesis by simp
qed

lemma x64_round_bytes:
  "x64_round d s i = x64_round d' s i \<longleftrightarrow> (\<forall>j<16. d ! (16 * i + j) = d' ! (16 * i + j))"
proof -
  have "x64_round d s i = x64_round d' s i \<longleftrightarrow> (\<forall>j<2. getblock64 d (i * 2 + j) = getblock64 d' (i * 2 + j))"
    by (cases s) (auto simp: x64_round_def Let_def numeral_eq_Suc less_Suc_eq)
  also have "\<dots> \<longleftrightarrow> (\<forall>j<16. d ! (16 * i + j) = d' ! (16 * i + j))"
    using all_less_blocks [of 8 2 "\<lambda>m. d ! (16 * i + m) = d' ! (16 * i + m)"]
    by (simp add: getblock_eq_iff algebra_simps)
  finally show ?thesis .
qed

lemma x64_tail_state: "x64_tail d n s = x64_tail d n s' \<Longrightarrow> s = s'"
  by (cases s; cases s') (simp add: x64_tail_def Let_def split: if_splits)

lemma x64_tail_parts:
  "x64_tail d n (h1, h2) =
    (let m = length d mod 16 in
     (if 0 < min 8 m then h1 XOR x64_k1 (tail_word d (16 * n) (min 8 m)) else h1,
      if 0 < min 8 (m - 8) then h2 XOR x64_k2 (tail_word d (16 * n + 8) (min 8 (m - 8))) else h2))"
proof -
  have "length d mod 16 - 8 = min 8 (length d mod 16 - 8)" by simp
  moreover have "9 \<le> m \<longleftrightarrow> 0 < min 8 (m - 8)" "1 \<le> m \<longleftrightarrow> 0 < min 8 m" for m :: nat by auto
  ultimately show ?thesis
    unfolding x64_tail_def Let_def prod.case mult.commute [of n 16] by simp
qed

lemma all_less_halves:
  assumes "m < (16 :: nat)"
  shows "(\<forall>j<m. P j) \<longleftrightarrow> (\<forall>j < min 8 m. P j) \<and> (\<forall>j < min 8 (m - 8). P (8 + j))" (is "_ \<longleftrightarrow> ?R")
proof
  assume ?R
  show "\<forall>j<m. P j"
  proof (intro allI impI)
    fix j assume "j < m"
    then consider "j < min 8 m" | "j - 8 < min 8 (m - 8)" "8 \<le> j" using assms by linarith
    then show "P j" using \<open>?R\<close> by cases (metis le_add_diff_inverse)+
  qed
qed (use assms in auto)

lemma x64_tail_bytes:
  assumes "length d = length d'"
  shows "x64_tail d n s = x64_tail d' n s \<longleftrightarrow> (\<forall>j < length d mod 16. d ! (16 * n + j) = d' ! (16 * n + j))"
proof -
  obtain h1 h2 where s: "s = (h1, h2)" by (cases s)
  have small: "8 * min 8 (k :: nat) \<le> LENGTH(64)" for k by simp
  show ?thesis
    unfolding s x64_tail_parts assms Let_def prod.inject
      tail_part_eq_iff [of x64_k1, OF x64_k_inject(1) small] tail_part_eq_iff [of x64_k2, OF x64_k_inject(2) small]
    by (subst all_less_halves [of "length d' mod 16"]) (simp_all add: add.assoc)
qed

lemma x64_spread_inject: "x64_spread (h1, h2) = x64_spread (g1, g2) \<longleftrightarrow> h1 = g1 \<and> h2 = g2"
proof
  assume "x64_spread (h1, h2) = x64_spread (g1, g2)"
  note eq = this [unfolded x64_spread_def Let_def prod.case prod.inject]
  have "h2 = g2" using eq [THEN conjunct2] unfolding eq [THEN conjunct1] by (simp only: add_right_cancel)
  with eq show "h1 = g1 \<and> h2 = g2" by simp
qed simp

lemma x64_finish_inject:
  assumes "x64_finish n s = x64_finish n s'"
  shows "s = s'"
proof -
  obtain h1 h2 where s: "s = (h1, h2)" by (cases s)
  obtain g1 g2 where s': "s' = (g1, g2)" by (cases s')
  obtain k1 k2 where k: "x64_spread (h1 XOR of_nat n, h2 XOR of_nat n) = (k1, k2)" by (rule prod.exhaust)
  obtain l1 l2 where l: "x64_spread (g1 XOR of_nat n, g2 XOR of_nat n) = (l1, l2)" by (rule prod.exhaust)
  from assms have "k1 = l1 \<and> k2 = l2" by (simp add: x64_finish_def s s' k l x64_spread_inject)
  with k l have "x64_spread (h1 XOR of_nat n, h2 XOR of_nat n) = x64_spread (g1 XOR of_nat n, g2 XOR of_nat n)" by simp
  then show ?thesis by (simp add: x64_spread_inject s s')
qed

interpretation x64_128: block_hash 16 x64_round x64_tail x64_finish
proof
  show "0 < (16 :: nat)" by simp
qed (fact x64_round_state x64_round_bytes x64_tail_state x64_tail_bytes x64_finish_inject)+

section \<open>Keys that never collide\<close>

lemma hashes_in_common:
  "MurmurHash3_x86_32 d seed = x86_32.hash d seed"
  "MurmurHash3_x86_128 d seed = x86_128.hash d (seed, seed, seed, seed)"
  "MurmurHash3_x64_128 d seed = x64_128.hash d (ucast seed, ucast seed)"
  by (simp_all add: MurmurHash3_x86_32_def MurmurHash3_x86_128_def MurmurHash3_x64_128_def
      x86_32.hash_def x86_128.hash_def x64_128.hash_def Let_def)

text \<open>C30: Keys of the same length that differ within one aligned block of four bytes have different hashes, so
  the placement starts from different indices; both hashes of 128 bits even separate keys that
  differ anywhere within one aligned block of sixteen bytes. For one key, different seeds give
  different hashes.\<close>

theorem hashes_separate:
  assumes "length a = length b" and "a \<noteq> b"
  shows "((\<forall>i < length a. i div 4 \<noteq> k \<longrightarrow> a ! i = b ! i) \<longrightarrow> MurmurHash3_x86_32 a seed \<noteq> MurmurHash3_x86_32 b seed) \<and>
    ((\<forall>i < length a. i div 16 \<noteq> k \<longrightarrow> a ! i = b ! i) \<longrightarrow>
      MurmurHash3_x86_128 a seed \<noteq> MurmurHash3_x86_128 b seed \<and> MurmurHash3_x64_128 a seed \<noteq> MurmurHash3_x64_128 b seed) \<and>
    (MurmurHash3_x86_32 a seed = MurmurHash3_x86_32 a seed' \<or> MurmurHash3_x86_128 a seed = MurmurHash3_x86_128 a seed' \<or>
      MurmurHash3_x64_128 a seed = MurmurHash3_x64_128 a seed' \<longrightarrow> seed = seed')"
proof (intro conjI)
  have "ucast seed = (ucast seed' :: 64 word) \<Longrightarrow> seed = seed'"
    by (rule bit_word_eqI) (auto simp: bit_eq_iff bit_simps)
  then show "MurmurHash3_x86_32 a seed = MurmurHash3_x86_32 a seed' \<or> MurmurHash3_x86_128 a seed = MurmurHash3_x86_128 a seed' \<or>
      MurmurHash3_x64_128 a seed = MurmurHash3_x64_128 a seed' \<longrightarrow> seed = seed'"
    unfolding hashes_in_common by (blast dest: x86_32.hash_seed x86_128.hash_seed x64_128.hash_seed)
qed (use x86_32.hash_separates [OF assms(1) _ assms(2)] x86_128.hash_separates [OF assms(1) _ assms(2)]
    x64_128.hash_separates [OF assms(1) _ assms(2)] in \<open>unfold hashes_in_common, blast+\<close>)

theorem hashes_separate_witness:
  "MurmurHash3_x86_32 ''c:data:file_0000000001'' 0 \<noteq> MurmurHash3_x86_32 ''c:data:file_0000000002'' 0 \<and>
   MurmurHash3_x86_128 ''c:data:file_0000000001'' 7 \<noteq> MurmurHash3_x86_128 ''c:data:file_0000123452'' 7"
proof
  have "list_all (\<lambda>i. i div 4 \<noteq> 5 \<longrightarrow> ''c:data:file_0000000001'' ! i = ''c:data:file_0000000002'' ! i) [0..<22]"
    by code_simp
  then show "MurmurHash3_x86_32 ''c:data:file_0000000001'' 0 \<noteq> MurmurHash3_x86_32 ''c:data:file_0000000002'' 0"
    using hashes_separate [of "''c:data:file_0000000001''" "''c:data:file_0000000002''" 5] by (simp add: list_all_iff)
  have "list_all (\<lambda>i. i div 16 \<noteq> 1 \<longrightarrow> ''c:data:file_0000000001'' ! i = ''c:data:file_0000123452'' ! i) [0..<22]"
    by code_simp
  then show "MurmurHash3_x86_128 ''c:data:file_0000000001'' 7 \<noteq> MurmurHash3_x86_128 ''c:data:file_0000123452'' 7"
    using hashes_separate [of "''c:data:file_0000000001''" "''c:data:file_0000123452''" 1] by (simp add: list_all_iff)
qed


end
