(* ===== verification/Crc32c.thy ===== *)
theory Crc32c
  imports Kio_Prelude
begin

text \<open>
  The checksum of \<^verbatim>\<open>src/outside/crc32c.c\<close> that protects every stored chunk. The software path
  is modelled: the construction of the eight tables and the loop that consumes single bytes up to
  an eight-byte boundary, then eight bytes at a time, then the remaining bytes. It is shown to be
  the bitwise CRC-32C whatever the alignment of the buffer. The hardware path, which executes the
  \<^verbatim>\<open>crc32\<close> instruction of the processor, is in \<open>Crc32c_Hw\<close>.
\<close>

unbundle bit_operations_syntax

section \<open>Model\<close>

definition POLY :: "32 word" where
  "POLY = 0x82f63b78"

text \<open>One line \<^verbatim>\<open>crc = crc & 1 ? (crc >> 1) ^ POLY : crc >> 1\<close>.\<close>

definition crc_bit :: "32 word \<Rightarrow> 32 word" where
  "crc_bit crc = (if crc AND 1 \<noteq> 0 then drop_bit 1 crc XOR POLY else drop_bit 1 crc)"

text \<open>\<^verbatim>\<open>crc32c_init_sw\<close>: the table entries as a function of their indices.\<close>

fun crc32c_table :: "nat \<Rightarrow> 32 word \<Rightarrow> 32 word" where
  "crc32c_table 0 n = (crc_bit ^^ 8) n"
| "crc32c_table (Suc k) n =
     (let crc = crc32c_table k n in crc32c_table 0 (crc AND 0xff) XOR drop_bit 8 crc)"

text \<open>The 64-bit register of the loop and its byte indices.\<close>

definition low_byte :: "64 word \<Rightarrow> 32 word" where
  "low_byte x = ucast (x AND 0xff)"

definition crc_step1 :: "64 word \<Rightarrow> char \<Rightarrow> 64 word" where
  "crc_step1 crc c =
     ucast (crc32c_table 0 (low_byte (crc XOR of_char c))) XOR drop_bit 8 crc"

definition load64 :: "string \<Rightarrow> 64 word" where
  "load64 bs = fold (\<lambda>i w. w OR push_bit (8 * i) (of_char (bs ! i))) [0..<8] 0"

definition crc_step8 :: "64 word \<Rightarrow> string \<Rightarrow> 64 word" where
  "crc_step8 crc bs =
     (let crc = crc XOR load64 bs
      in ucast (crc32c_table 7 (low_byte crc) XOR
           crc32c_table 6 (low_byte (drop_bit 8 crc)) XOR
           crc32c_table 5 (low_byte (drop_bit 16 crc)) XOR
           crc32c_table 4 (low_byte (drop_bit 24 crc)) XOR
           crc32c_table 3 (low_byte (drop_bit 32 crc)) XOR
           crc32c_table 2 (low_byte (drop_bit 40 crc)) XOR
           crc32c_table 1 (low_byte (drop_bit 48 crc)) XOR
           crc32c_table 0 (ucast (drop_bit 56 crc))))"

text \<open>The three loops of \<^verbatim>\<open>crc32c_sw\<close>; \<open>addr\<close> is the address of the next byte.\<close>

fun crc_align :: "nat \<Rightarrow> 64 word \<Rightarrow> string \<Rightarrow> 64 word \<times> string" where
  "crc_align addr crc [] = (crc, [])"
| "crc_align addr crc (c # cs) =
     (if addr mod 8 = 0 then (crc, c # cs) else crc_align (Suc addr) (crc_step1 crc c) cs)"

fun crc_quads :: "64 word \<Rightarrow> string \<Rightarrow> 64 word \<times> string" where
  "crc_quads crc cs =
     (if 8 \<le> length cs then crc_quads (crc_step8 crc (take 8 cs)) (drop 8 cs) else (crc, cs))"

declare crc_quads.simps [simp del]

definition crc32c_sw :: "nat \<Rightarrow> 32 word \<Rightarrow> string \<Rightarrow> 32 word" where
  "crc32c_sw addr crci buf =
     (let crc = ucast (crci XOR 0xffffffff);
          (crc, rest) = crc_align addr crc buf;
          (crc, rest) = crc_quads crc rest;
          crc = foldl crc_step1 crc rest
      in ucast crc XOR 0xffffffff)"

text \<open>\<^verbatim>\<open>crc32c(crc, buf, len)\<close> on a processor without SSE 4.2, with an aligned buffer.\<close>

definition crc32c :: "32 word \<Rightarrow> string \<Rightarrow> 32 word" where
  "crc32c crc buf = crc32c_sw 0 crc buf"

text \<open>The reference: one byte at a time, bit by bit.\<close>

definition crc_byte :: "32 word \<Rightarrow> char \<Rightarrow> 32 word" where
  "crc_byte crc c = (crc_bit ^^ 8) (crc XOR of_char c)"

definition crc32c_ref :: "32 word \<Rightarrow> string \<Rightarrow> 32 word" where
  "crc32c_ref crci buf = foldl crc_byte (crci XOR 0xffffffff) buf XOR 0xffffffff"

section \<open>Lemmas\<close>

subsection \<open>The zero-byte operator is linear\<close>

lemma and_1_ne_0_iff: "x AND 1 \<noteq> 0 \<longleftrightarrow> bit x 0" for x :: "'a::len word"
  by (simp add: and_one_eq odd_iff_mod_2_eq_one bit_0)

lemma crc_bit_alt: "crc_bit x = drop_bit 1 x XOR (if bit x 0 then POLY else 0)"
  by (simp add: crc_bit_def and_1_ne_0_iff)

lemma crc_bit_xor: "crc_bit (x XOR y) = crc_bit x XOR crc_bit y"
  by (rule bit_word_eqI) (auto simp: crc_bit_alt bit_xor_iff bit_drop_bit_eq)

definition zero_byte :: "32 word \<Rightarrow> 32 word" where
  "zero_byte = crc_bit ^^ 8"

lemma funpow_crc_bit_xor: "(crc_bit ^^ n) (x XOR y) = (crc_bit ^^ n) x XOR (crc_bit ^^ n) y"
  by (induction n) (simp_all add: crc_bit_xor)

lemma zero_byte_xor: "zero_byte (x XOR y) = zero_byte x XOR zero_byte y"
  by (simp add: zero_byte_def funpow_crc_bit_xor)

lemma zero_bytes_xor: "(zero_byte ^^ k) (x XOR y) = (zero_byte ^^ k) x XOR (zero_byte ^^ k) y"
  by (induction k) (simp_all add: zero_byte_xor)

text \<open>Shifting out bits that are zero is a plain shift.\<close>

lemma funpow_crc_bit_zeros:
  "(\<And>i. i < n \<Longrightarrow> \<not> bit x i) \<Longrightarrow> (crc_bit ^^ n) x = drop_bit n x"
proof (induction n arbitrary: x)
  case 0
  then show ?case by simp
next
  case (Suc n)
  have "crc_bit x = drop_bit 1 x"
    using Suc.prems [of 0] by (simp add: crc_bit_alt)
  moreover have "(crc_bit ^^ n) (drop_bit 1 x) = drop_bit n (drop_bit 1 x)"
    by (rule Suc.IH) (use Suc.prems in \<open>simp add: bit_drop_bit_eq\<close>)
  ultimately show ?case
    by (simp add: funpow_swap1 drop_bit_drop_bit)
qed

lemma ff_mask32: "(0xff :: 32 word) = mask 8"
  by (simp add: mask_numeral)

lemma ff_mask64: "(0xff :: 64 word) = mask 8"
  by (simp add: mask_numeral)

lemma zero_byte_split: "zero_byte x = zero_byte (x AND mask 8) XOR drop_bit 8 x"
proof -
  let ?h = "x AND NOT (mask 8)"
  have "x = (x AND mask 8) XOR ?h"
    by (rule bit_word_eqI) (auto simp: bit_simps)
  moreover have "zero_byte ?h = drop_bit 8 ?h"
    unfolding zero_byte_def by (rule funpow_crc_bit_zeros) (simp add: bit_simps)
  moreover have "drop_bit 8 ?h = drop_bit 8 x"
    by (rule bit_word_eqI) (auto simp: bit_simps dest: bit_imp_le_length)
  ultimately show ?thesis
    by (metis zero_byte_xor)
qed

lemma crc32c_table_0: "crc32c_table 0 = zero_byte"
  by (rule ext) (simp add: zero_byte_def)

lemma crc32c_table_zero_bytes: "crc32c_table k n = (zero_byte ^^ Suc k) n"
proof (induction k)
  case 0
  then show ?case by (simp add: crc32c_table_0 del: crc32c_table.simps)
next
  case (Suc k)
  have "crc32c_table (Suc k) n = zero_byte (crc32c_table k n)"
    by (simp only: crc32c_table.simps(2) Let_def crc32c_table_0 ff_mask32
        zero_byte_split [of "crc32c_table k n", symmetric])
  with Suc.IH show ?case by simp
qed

subsection \<open>One byte through the 64-bit register\<close>

lemma crc_byte_zero_byte: "crc_byte crc c = zero_byte (crc XOR of_char c)"
  by (simp add: crc_byte_def zero_byte_def)

lemma crc_step1_ucast: "crc_step1 (ucast crc) c = ucast (crc_byte crc c)"
proof -
  have low: "low_byte (ucast crc XOR of_char c) = (crc XOR of_char c) AND mask 8"
    unfolding low_byte_def ff_mask64
    by (rule bit_word_eqI) (auto simp: bit_simps bit_of_char)
  have high: "drop_bit 8 (ucast crc :: 64 word) = ucast (drop_bit 8 (crc XOR of_char c))"
    by (rule bit_word_eqI) (auto simp: bit_simps bit_of_char dest: bit_imp_le_length)
  have ucast_xor: "ucast (a XOR b) = (ucast a XOR ucast b :: 64 word)" for a b :: "32 word"
    by (rule bit_word_eqI) (auto simp: bit_simps)
  show ?thesis
    unfolding crc_step1_def crc_byte_zero_byte crc32c_table_0 low high
    by (simp only: zero_byte_split [of "crc XOR of_char c"] ucast_xor)
qed

lemma foldl_crc_step1: "foldl crc_step1 (ucast crc) cs = ucast (foldl crc_byte crc cs)"
  by (induction cs arbitrary: crc) (simp_all add: crc_step1_ucast)

subsection \<open>Eight bytes at a time\<close>

lemma bit_load64_upto:
  "bit (fold (\<lambda>i w. w OR push_bit (8 * i) (of_char (bs ! i))) [0..<k] (0 :: 64 word)) m \<longleftrightarrow>
     m < 64 \<and> m div 8 < k \<and> char_bits (bs ! (m div 8)) ! (m mod 8)"
proof (induction k)
  case 0
  then show ?case by simp
next
  case (Suc k)
  have "8 * k \<le> m \<and> m - 8 * k < 8 \<longleftrightarrow> m div 8 = k" by auto
  moreover have "m div 8 = k \<Longrightarrow> m - 8 * k = m mod 8" by presburger
  ultimately have new: "bit (push_bit (8 * k) (of_char (bs ! k)) :: 64 word) m \<longleftrightarrow>
      m < 64 \<and> m div 8 = k \<and> char_bits (bs ! (m div 8)) ! (m mod 8)"
    by (auto simp: bit_push_bit_iff bit_of_char)
  show ?case
    using Suc.IH new by (auto simp: bit_or_iff less_Suc_eq)
qed

lemma bit_load64:
  "bit (load64 bs) m \<longleftrightarrow> m < 64 \<and> char_bits (bs ! (m div 8)) ! (m mod 8)"
  unfolding load64_def bit_load64_upto by auto

lemma low_byte_load64:
  assumes "i < 8"
  shows "low_byte (drop_bit (8 * i) (ucast crc XOR load64 bs)) =
           (drop_bit (8 * i) crc AND mask 8) XOR of_char (bs ! i)"
  unfolding low_byte_def ff_mask64
proof (rule bit_word_eqI)
  fix m assume "m < LENGTH(32)"
  show "bit (ucast (drop_bit (8 * i) (ucast crc XOR load64 bs) AND mask 8) :: 32 word) m \<longleftrightarrow>
        bit (drop_bit (8 * i) crc AND mask 8 XOR of_char (bs ! i)) m"
    using assms \<open>m < LENGTH(32)\<close>
    by (auto simp: bit_simps bit_load64 bit_of_char dest: bit_imp_le_length)
qed

lemma top_byte_load64:
  "ucast (drop_bit 56 x) = low_byte (drop_bit 56 x)"
  unfolding low_byte_def ff_mask64
  by (rule bit_word_eqI) (auto simp: bit_simps dest: bit_imp_le_length)

lemma drop_bit_ge_length: "32 \<le> n \<Longrightarrow> drop_bit n (x :: 32 word) = 0"
  by (rule bit_word_eqI) (auto simp: bit_simps dest: bit_imp_le_length)

text \<open>The register's four bytes pass through the zero-byte operator one after the other.\<close>

lemma zero_bytes_peel:
  "(zero_byte ^^ Suc k) x = (zero_byte ^^ Suc k) (x AND mask 8) XOR (zero_byte ^^ k) (drop_bit 8 x)"
proof -
  have "(zero_byte ^^ Suc k) x = (zero_byte ^^ k) (zero_byte x)"
    by (simp add: funpow_swap1)
  also have "\<dots> = (zero_byte ^^ k) (zero_byte (x AND mask 8)) XOR (zero_byte ^^ k) (drop_bit 8 x)"
    by (simp only: zero_byte_split [of x] zero_bytes_xor)
  finally show ?thesis by (simp add: funpow_swap1)
qed

lemma zero_bytes_0: "(zero_byte ^^ k) 0 = 0"
  using zero_bytes_xor [of k 0 0] by simp

lemma zero_bytes_8:
  "(zero_byte ^^ 8) x =
     (zero_byte ^^ 8) (x AND mask 8) XOR (zero_byte ^^ 7) (drop_bit 8 x AND mask 8) XOR
     (zero_byte ^^ 6) (drop_bit 16 x AND mask 8) XOR (zero_byte ^^ 5) (drop_bit 24 x AND mask 8)"
proof -
  have 1: "(zero_byte ^^ 8) x = (zero_byte ^^ 8) (x AND mask 8) XOR (zero_byte ^^ 7) (drop_bit 8 x)"
    using zero_bytes_peel [of 7 x] by simp
  have 2: "(zero_byte ^^ 7) (drop_bit 8 x) =
      (zero_byte ^^ 7) (drop_bit 8 x AND mask 8) XOR (zero_byte ^^ 6) (drop_bit 16 x)"
    using zero_bytes_peel [of 6 "drop_bit 8 x"] by (simp add: drop_bit_drop_bit)
  have 3: "(zero_byte ^^ 6) (drop_bit 16 x) =
      (zero_byte ^^ 6) (drop_bit 16 x AND mask 8) XOR (zero_byte ^^ 5) (drop_bit 24 x)"
    using zero_bytes_peel [of 5 "drop_bit 16 x"] by (simp add: drop_bit_drop_bit)
  have 4: "(zero_byte ^^ 5) (drop_bit 24 x) = (zero_byte ^^ 5) (drop_bit 24 x AND mask 8)"
    using zero_bytes_peel [of 4 "drop_bit 24 x"]
    by (simp add: drop_bit_drop_bit drop_bit_ge_length zero_bytes_0)
  show ?thesis
    unfolding 1 2 3 4 by (simp only: xor.assoc)
qed

lemma foldl_crc_byte_8:
  "foldl crc_byte x [b0, b1, b2, b3, b4, b5, b6, b7] =
     (zero_byte ^^ 8) x XOR (zero_byte ^^ 8) (of_char b0) XOR (zero_byte ^^ 7) (of_char b1) XOR
     (zero_byte ^^ 6) (of_char b2) XOR (zero_byte ^^ 5) (of_char b3) XOR
     (zero_byte ^^ 4) (of_char b4) XOR (zero_byte ^^ 3) (of_char b5) XOR
     (zero_byte ^^ 2) (of_char b6) XOR zero_byte (of_char b7)"
  by (simp only: foldl.simps crc_byte_zero_byte zero_byte_xor eval_nat_numeral funpow.simps
      BitM.simps o_apply xor.assoc id_apply)

lemma crc_step8_ucast:
  assumes "length bs = 8"
  shows "crc_step8 (ucast crc) bs = ucast (foldl crc_byte crc bs)"
proof -
  obtain b0 b1 b2 b3 b4 b5 b6 b7 where bs: "bs = [b0, b1, b2, b3, b4, b5, b6, b7]"
    using assms by (auto simp: eval_nat_numeral length_Suc_conv)
  define X where "X = ucast crc XOR load64 bs"
  have bytes: "low_byte X = (crc AND mask 8) XOR of_char b0"
    "low_byte (drop_bit 8 X) = (drop_bit 8 crc AND mask 8) XOR of_char b1"
    "low_byte (drop_bit 16 X) = (drop_bit 16 crc AND mask 8) XOR of_char b2"
    "low_byte (drop_bit 24 X) = (drop_bit 24 crc AND mask 8) XOR of_char b3"
    "low_byte (drop_bit 32 X) = of_char b4" "low_byte (drop_bit 40 X) = of_char b5"
    "low_byte (drop_bit 48 X) = of_char b6" "low_byte (drop_bit 56 X) = of_char b7"
    using low_byte_load64 [of 0 crc bs] low_byte_load64 [of 1 crc bs] low_byte_load64 [of 2 crc bs]
      low_byte_load64 [of 3 crc bs] low_byte_load64 [of 4 crc bs] low_byte_load64 [of 5 crc bs]
      low_byte_load64 [of 6 crc bs] low_byte_load64 [of 7 crc bs]
    unfolding X_def bs by (simp_all add: drop_bit_ge_length)
  have T: "crc32c_table 7 = zero_byte ^^ 8" "crc32c_table 6 = zero_byte ^^ 7"
    "crc32c_table 5 = zero_byte ^^ 6" "crc32c_table 4 = zero_byte ^^ 5"
    "crc32c_table 3 = zero_byte ^^ 4" "crc32c_table 2 = zero_byte ^^ 3"
    "crc32c_table 1 = zero_byte ^^ 2"
    by (simp_all add: fun_eq_iff crc32c_table_zero_bytes numeral_eq_Suc)
  have "crc_step8 (ucast crc) bs =
      ucast ((zero_byte ^^ 8) (crc AND mask 8 XOR of_char b0) XOR
       (zero_byte ^^ 7) (drop_bit 8 crc AND mask 8 XOR of_char b1) XOR
       (zero_byte ^^ 6) (drop_bit 16 crc AND mask 8 XOR of_char b2) XOR
       (zero_byte ^^ 5) (drop_bit 24 crc AND mask 8 XOR of_char b3) XOR
       (zero_byte ^^ 4) (of_char b4) XOR (zero_byte ^^ 3) (of_char b5) XOR
       (zero_byte ^^ 2) (of_char b6) XOR zero_byte (of_char b7))"
    by (simp only: crc_step8_def Let_def X_def [symmetric] top_byte_load64 bytes T crc32c_table_0)
  also have "\<dots> = ucast (foldl crc_byte crc bs)"
    unfolding bs foldl_crc_byte_8 zero_bytes_8 [of crc] zero_bytes_xor
    by (simp only: xor.assoc xor.left_commute xor.commute)
  finally show ?thesis .
qed

subsection \<open>The three loops\<close>

lemma crc_align_foldl:
  "crc_align addr (ucast crc) cs = (crc', rest) \<Longrightarrow>
     \<exists>ds. cs = ds @ rest \<and> crc' = ucast (foldl crc_byte crc ds)"
proof (induction cs arbitrary: addr crc)
  case Nil
  then show ?case by auto
next
  case (Cons c cs)
  show ?case
  proof (cases "addr mod 8 = 0")
    case True
    with Cons.prems show ?thesis by auto
  next
    case False
    with Cons.prems have "crc_align (Suc addr) (ucast (crc_byte crc c)) cs = (crc', rest)"
      by (simp add: crc_step1_ucast)
    from Cons.IH [OF this] obtain ds where
      "cs = ds @ rest" "crc' = ucast (foldl crc_byte (crc_byte crc c) ds)" by auto
    then show ?thesis
      by (intro exI [of _ "c # ds"]) simp
  qed
qed

lemma crc_quads_foldl:
  "crc_quads (ucast crc) cs = (crc', rest) \<Longrightarrow>
     \<exists>ds. cs = ds @ rest \<and> crc' = ucast (foldl crc_byte crc ds) \<and> length rest < 8"
proof (induction "length cs" arbitrary: crc cs rule: less_induct)
  case less
  show ?case
  proof (cases "8 \<le> length cs")
    case True
    then have step: "crc_step8 (ucast crc) (take 8 cs) = ucast (foldl crc_byte crc (take 8 cs))"
      by (intro crc_step8_ucast) simp
    have "crc_quads (ucast (foldl crc_byte crc (take 8 cs))) (drop 8 cs) = (crc', rest)"
      using less.prems True by (simp add: crc_quads.simps [of _ cs] step)
    moreover have "length (drop 8 cs) < length cs" using True by simp
    ultimately obtain ds where ds: "drop 8 cs = ds @ rest" "length rest < 8"
      "crc' = ucast (foldl crc_byte (foldl crc_byte crc (take 8 cs)) ds)"
      using less.hyps by blast
    then show ?thesis
      by (intro exI [of _ "take 8 cs @ ds"]) (metis append_assoc append_take_drop_id foldl_append)
  next
    case False
    with less.prems show ?thesis by (auto simp: crc_quads.simps [of _ cs])
  qed
qed

section \<open>Properties\<close>

text \<open>The table-driven routine computes the bitwise CRC-32C: whatever the address of the buffer, hence
  whatever the split into single bytes and groups of eight, the result is that of shifting every byte
  through the polynomial bit by bit.\<close>

theorem crc32c_sw_correct: "crc32c_sw addr crci buf = crc32c_ref crci buf"
proof -
  define x where "x = crci XOR 0xffffffff"
  obtain c1 r1 where a: "crc_align addr (ucast x) buf = (c1, r1)" by fastforce
  from crc_align_foldl [OF a] obtain d1 where d1: "buf = d1 @ r1" "c1 = ucast (foldl crc_byte x d1)"
    by blast
  obtain c2 r2 where q: "crc_quads c1 r1 = (c2, r2)" by fastforce
  from crc_quads_foldl [OF q [unfolded d1(2)]] obtain d2 where
    d2: "r1 = d2 @ r2" "c2 = ucast (foldl crc_byte (foldl crc_byte x d1) d2)"
    by blast
  have "foldl crc_step1 c2 r2 = ucast (foldl crc_byte x buf)"
    unfolding d2(2) foldl_crc_step1 by (simp add: d1(1) d2(1))
  moreover have "ucast (ucast y :: 64 word) = (y :: 32 word)" for y
    by (rule bit_word_eqI) (simp add: bit_simps)
  ultimately show ?thesis
    by (simp add: crc32c_sw_def crc32c_ref_def x_def [symmetric] a q)
qed

end
