(* ===== verification/Crc32c_Hw.thy ===== *)
theory Crc32c_Hw
  imports Crc32c
begin

text \<open>
  The hardware path of \<^verbatim>\<open>src/outside/crc32c.c\<close>: three checksums of adjacent blocks are computed at the
  same time with the \<^verbatim>\<open>crc32\<close> instruction of the processor and joined by applying the operator of
  appending zeros, which is computed as a matrix over the field of two elements and stored in tables.

  The two instructions are arguments of the definitions; what the processor promises about them is the
  locale \<open>crc_instructions\<close>. The single steps of the software routine keep the same promises.
\<close>

unbundle bit_operations_syntax

section \<open>Model\<close>

subsection \<open>Matrices over the field of two elements\<close>

function gf2_times_loop :: "32 word list \<Rightarrow> 32 word \<Rightarrow> 32 word \<Rightarrow> 32 word" where
  "gf2_times_loop mat vec acc =
     (if vec = 0 then acc
      else gf2_times_loop (tl mat) (drop_bit 1 vec) (if vec AND 1 \<noteq> 0 then acc XOR hd mat else acc))"
  by pat_completeness auto

termination
proof (relation "measure (\<lambda>(mat, vec, acc). unat vec)")
  fix mat :: "32 word list" and vec acc :: "32 word"
  assume "vec \<noteq> 0"
  then have "0 < unat vec" by (simp add: unat_gt_0)
  then have "unat (vec div 2) < unat vec" by (simp add: unat_div)
  then show "((tl mat, drop_bit 1 vec, if vec AND 1 \<noteq> 0 then acc XOR hd mat else acc), mat, vec, acc) \<in>
      measure (\<lambda>(mat, vec, acc). unat vec)"
    by (simp add: drop_bit_Suc)
qed simp

declare gf2_times_loop.simps [simp del]

definition gf2_matrix_times :: "32 word list \<Rightarrow> 32 word \<Rightarrow> 32 word" where
  "gf2_matrix_times mat vec = gf2_times_loop mat vec 0"

definition gf2_matrix_square :: "32 word list \<Rightarrow> 32 word list" where
  "gf2_matrix_square mat = map (\<lambda>n. gf2_matrix_times mat (mat ! n)) [0..<32]"

text \<open>The operator for one zero bit, then the loop that squares as often as the length has bits.\<close>

definition one_bit_op :: "32 word list" where
  "one_bit_op = POLY # map (\<lambda>n. push_bit n 1) [0..<31]"

function zeros_op_loop :: "32 word list \<Rightarrow> nat \<Rightarrow> 32 word list" where
  "zeros_op_loop odd_op len =
     (let even_op = gf2_matrix_square odd_op; len = len div 2
      in if len = 0 then even_op
         else let odd_op = gf2_matrix_square even_op; len = len div 2
              in if len = 0 then odd_op else zeros_op_loop odd_op len)"
  by pat_completeness auto

termination
  by (relation "measure snd") auto

declare zeros_op_loop.simps [simp del]

definition crc32c_zeros_op :: "nat \<Rightarrow> 32 word list" where
  "crc32c_zeros_op len = zeros_op_loop (gf2_matrix_square (gf2_matrix_square one_bit_op)) len"

text \<open>The four tables of 256 entries as a function of their indices.\<close>

definition crc32c_zeros :: "nat \<Rightarrow> nat \<Rightarrow> 32 word \<Rightarrow> 32 word" where
  "crc32c_zeros len k n = gf2_matrix_times (crc32c_zeros_op len) (push_bit (8 * k) n)"

definition crc32c_shift :: "(nat \<Rightarrow> 32 word \<Rightarrow> 32 word) \<Rightarrow> 32 word \<Rightarrow> 32 word" where
  "crc32c_shift zeros crc =
     zeros 0 (crc AND 0xff) XOR zeros 1 (drop_bit 8 crc AND 0xff) XOR
     zeros 2 (drop_bit 16 crc AND 0xff) XOR zeros 3 (drop_bit 24 crc)"

definition crc_LONG :: nat where
  "crc_LONG = 8192"

definition crc_SHORT :: nat where
  "crc_SHORT = 256"

subsection \<open>The loops\<close>

type_synonym crc32b = "64 word \<Rightarrow> char \<Rightarrow> 64 word"
type_synonym crc32q = "64 word \<Rightarrow> string \<Rightarrow> 64 word"

fun hw_align :: "crc32b \<Rightarrow> nat \<Rightarrow> 64 word \<Rightarrow> string \<Rightarrow> 64 word \<times> string" where
  "hw_align crc32b addr crc [] = (crc, [])"
| "hw_align crc32b addr crc (c # cs) =
     (if addr mod 8 = 0 then (crc, c # cs) else hw_align crc32b (Suc addr) (crc32b crc c) cs)"

text \<open>The inner loop: eight bytes of each of three adjacent blocks of size \<open>sz\<close>.\<close>

definition hw_three ::
  "crc32q \<Rightarrow> nat \<Rightarrow> string \<Rightarrow> nat \<Rightarrow> 64 word \<times> 64 word \<times> 64 word \<Rightarrow> 64 word \<times> 64 word \<times> 64 word" where
  "hw_three crc32q sz next i = (\<lambda>(crc0, crc1, crc2).
     (crc32q crc0 (take 8 (drop (8 * i) next)),
      crc32q crc1 (take 8 (drop (sz + 8 * i) next)),
      crc32q crc2 (take 8 (drop (2 * sz + 8 * i) next))))"

function hw_blocks :: "crc32q \<Rightarrow> nat \<Rightarrow> 64 word \<Rightarrow> string \<Rightarrow> 64 word \<times> string" where
  "hw_blocks crc32q sz crc0 next =
     (if 0 < sz \<and> sz * 3 \<le> length next then
        let (crc0, crc1, crc2) = fold (hw_three crc32q sz next) [0..<sz div 8] (crc0, 0, 0);
            crc0 = ucast (crc32c_shift (crc32c_zeros sz) (ucast crc0)) XOR crc1;
            crc0 = ucast (crc32c_shift (crc32c_zeros sz) (ucast crc0)) XOR crc2
        in hw_blocks crc32q sz crc0 (drop (sz * 3) next)
      else (crc0, next))"
  by pat_completeness auto

termination
  by (relation "measure (\<lambda>(f, sz, crc, next). length next)") auto

declare hw_blocks.simps [simp del]

function hw_quads :: "crc32q \<Rightarrow> 64 word \<Rightarrow> string \<Rightarrow> 64 word \<times> string" where
  "hw_quads crc32q crc cs =
     (if 8 \<le> length cs then hw_quads crc32q (crc32q crc (take 8 cs)) (drop 8 cs) else (crc, cs))"
  by pat_completeness auto

termination
  by (relation "measure (\<lambda>(f, crc, cs). length cs)") auto

declare hw_quads.simps [simp del]

definition crc32c_hw :: "crc32b \<Rightarrow> crc32q \<Rightarrow> nat \<Rightarrow> 32 word \<Rightarrow> string \<Rightarrow> 32 word" where
  "crc32c_hw crc32b crc32q addr crci buf =
     (let crc0 = ucast (crci XOR 0xffffffff);
          (crc0, rest) = hw_align crc32b addr crc0 buf;
          (crc0, rest) = hw_blocks crc32q crc_LONG crc0 rest;
          (crc0, rest) = hw_blocks crc32q crc_SHORT crc0 rest;
          (crc0, rest) = hw_quads crc32q crc0 rest;
          crc0 = foldl crc32b crc0 rest
      in ucast crc0 XOR 0xffffffff)"

text \<open>\<^verbatim>\<open>crc32c\<close> with the result of the processor check and the address of the buffer.\<close>

definition crc32c_dispatch :: "bool \<Rightarrow> crc32b \<Rightarrow> crc32q \<Rightarrow> nat \<Rightarrow> 32 word \<Rightarrow> string \<Rightarrow> 32 word" where
  "crc32c_dispatch sse42 crc32b crc32q addr crc buf =
     (if sse42 then crc32c_hw crc32b crc32q addr crc buf else crc32c_sw addr crc buf)"

section \<open>The operator of appending zeros\<close>

definition gf2_linear :: "(32 word \<Rightarrow> 32 word) \<Rightarrow> bool" where
  "gf2_linear f \<longleftrightarrow> (\<forall>x y. f (x XOR y) = f x XOR f y)"

definition represents :: "32 word list \<Rightarrow> (32 word \<Rightarrow> 32 word) \<Rightarrow> bool" where
  "represents mat f \<longleftrightarrow> gf2_linear f \<and> length mat = 32 \<and> (\<forall>n < 32. mat ! n = f (push_bit n 1))"

lemma gf2_linear_0: "gf2_linear f \<Longrightarrow> f 0 = 0"
  unfolding gf2_linear_def by (metis xor_self_eq)

lemma gf2_times_loop_eq:
  assumes "represents mat f"
  shows "k \<le> 32 \<Longrightarrow> gf2_times_loop (drop k mat) (drop_bit k vec) acc = acc XOR f (vec AND NOT (mask k))"
proof (induction "32 - k" arbitrary: k acc)
  case 0
  then have "k = 32" by simp
  then have "drop_bit k vec = 0" "vec AND NOT (mask k) = 0"
    by (auto intro!: bit_word_eqI simp: bit_simps dest: bit_imp_le_length)
  then show ?case using gf2_linear_0 [of f] assms by (simp add: gf2_times_loop.simps represents_def)
next
  case (Suc d)
  then have k: "k < 32" by simp
  have lin: "f (x XOR y) = f x XOR f y" for x y using assms by (simp add: represents_def gf2_linear_def)
  have split: "vec AND NOT (mask k) = (if bit vec k then push_bit k 1 else 0) XOR (vec AND NOT (mask (Suc k)))"
    using k by (intro bit_word_eqI) (auto simp: bit_simps less_Suc_eq)
  show ?case
  proof (cases "drop_bit k vec = 0")
    case True
    have "vec AND NOT (mask k) = push_bit k (drop_bit k vec)"
      by (intro bit_word_eqI) (auto simp: bit_simps)
    then show ?thesis using True gf2_linear_0 [of f] assms by (simp add: gf2_times_loop.simps represents_def)
  next
    case False
    have IH: "gf2_times_loop (drop (Suc k) mat) (drop_bit (Suc k) vec) s = s XOR f (vec AND NOT (mask (Suc k)))" for s
      using Suc.hyps(1) [of "Suc k" s] Suc.hyps(2) k by simp
    have hd: "hd (drop k mat) = f (push_bit k 1)" "tl (drop k mat) = drop (Suc k) mat"
      using assms k by (simp_all add: represents_def hd_drop_conv_nth drop_Suc tl_drop)
    have odd: "drop_bit k vec AND 1 \<noteq> 0 \<longleftrightarrow> bit vec k" by (simp only: and_1_ne_0_iff bit_drop_bit_eq comp_apply add_0_right)
    have "gf2_times_loop (drop k mat) (drop_bit k vec) acc =
        gf2_times_loop (drop (Suc k) mat) (drop_bit (Suc k) vec) (if bit vec k then acc XOR f (push_bit k 1) else acc)"
      using False by (subst gf2_times_loop.simps) (simp add: hd odd drop_bit_drop_bit)
    also have "\<dots> = acc XOR f (vec AND NOT (mask k))"
      unfolding IH split using gf2_linear_0 [of f] assms by (simp add: lin xor.assoc represents_def)
    finally show ?thesis .
  qed
qed

lemma gf2_matrix_times_eq: "represents mat f \<Longrightarrow> gf2_matrix_times mat vec = f vec"
  using gf2_times_loop_eq [of mat f 0 vec 0] by (simp add: gf2_matrix_times_def)

lemma represents_square: "represents mat f \<Longrightarrow> represents (gf2_matrix_square mat) (f \<circ> f)"
  by (auto simp: represents_def gf2_matrix_square_def gf2_linear_def gf2_matrix_times_eq)


lemma represents_square_power:
  "represents mat (crc_bit ^^ a) \<Longrightarrow> represents (gf2_matrix_square mat) (crc_bit ^^ (2 * a))"
  using represents_square [of mat "crc_bit ^^ a"] by (simp add: mult_2 funpow_add)

lemma represents_one_bit_op: "represents one_bit_op (crc_bit ^^ 1)"
proof -
  have "one_bit_op ! n = crc_bit (push_bit n 1)" if "n < 32" for n
  proof (cases n)
    case 0
    have "drop_bit 1 (1 :: 32 word) = 0" by (simp add: drop_bit_Suc)
    with 0 show ?thesis by (simp add: one_bit_op_def crc_bit_alt)
  next
    case (Suc m)
    have "crc_bit (push_bit (Suc m) 1) = push_bit m 1"
      unfolding crc_bit_alt using Suc that by (intro bit_word_eqI) (auto simp: bit_simps)
    with Suc that show ?thesis by (simp add: one_bit_op_def)
  qed
  moreover have "gf2_linear (crc_bit ^^ 1)"
    unfolding gf2_linear_def using funpow_crc_bit_xor [of 1] by blast
  ultimately show ?thesis by (simp add: represents_def one_bit_op_def)
qed

lemma represents_zeros_op_loop:
  "represents mat (crc_bit ^^ a) \<Longrightarrow> represents (zeros_op_loop mat (2 ^ j)) (crc_bit ^^ (2 * a * 2 ^ j))"
proof (induction j arbitrary: mat a rule: induct_nat_012)
  case 0
  then show ?case using represents_square_power by (simp add: zeros_op_loop.simps Let_def)
next
  case 1
  have "represents (gf2_matrix_square (gf2_matrix_square mat)) (crc_bit ^^ (2 * (2 * a)))"
    using 1 by (intro represents_square_power)
  moreover have "2 * (2 * a) = 2 * a * 2 ^ Suc 0" by simp
  ultimately show ?case by (subst zeros_op_loop.simps) (simp add: Let_def)
next
  case (ge2 j)
  have "represents (gf2_matrix_square (gf2_matrix_square mat)) (crc_bit ^^ (2 * (2 * a)))"
    using ge2.prems by (intro represents_square_power)
  then have "represents (zeros_op_loop (gf2_matrix_square (gf2_matrix_square mat)) (2 ^ j))
      (crc_bit ^^ (2 * (2 * (2 * a)) * 2 ^ j))"
    by (rule ge2.IH(1))
  moreover have "zeros_op_loop mat (2 ^ Suc (Suc j)) =
      zeros_op_loop (gf2_matrix_square (gf2_matrix_square mat)) (2 ^ j)"
    by (subst zeros_op_loop.simps) (simp add: Let_def)
  moreover have "2 * (2 * (2 * a)) * 2 ^ j = 2 * a * 2 ^ Suc (Suc j)" by simp
  ultimately show ?case by (simp only:)
qed

lemma represents_crc32c_zeros_op: "represents (crc32c_zeros_op (2 ^ j)) (zero_byte ^^ (2 ^ j))"
proof -
  have "represents (gf2_matrix_square (gf2_matrix_square one_bit_op)) (crc_bit ^^ (2 * (2 * 1)))"
    by (intro represents_square_power represents_one_bit_op)
  from represents_zeros_op_loop [OF this, of j] show ?thesis
    by (simp add: crc32c_zeros_op_def zero_byte_def funpow_mult)
qed

text \<open>The four tables, applied to the four bytes, are the operator.\<close>

lemma four_bytes:
  "x = (x AND 0xff) XOR push_bit 8 (drop_bit 8 x AND 0xff) XOR
     push_bit 16 (drop_bit 16 x AND 0xff) XOR push_bit 24 (drop_bit 24 x)" for x :: "32 word"
  unfolding ff_mask32 by (rule bit_word_eqI) (auto simp: bit_simps)

lemma crc32c_shift_eq: "crc32c_shift (crc32c_zeros (2 ^ j)) x = (zero_byte ^^ (2 ^ j)) x"
proof -
  have "(zero_byte ^^ (2 ^ j)) x = (zero_byte ^^ (2 ^ j))
      ((x AND 0xff) XOR push_bit 8 (drop_bit 8 x AND 0xff) XOR
       push_bit 16 (drop_bit 16 x AND 0xff) XOR push_bit 24 (drop_bit 24 x))"
    by (rule arg_cong, rule four_bytes)
  then show ?thesis
    by (simp add: crc32c_shift_def crc32c_zeros_def zero_bytes_xor
        gf2_matrix_times_eq [OF represents_crc32c_zeros_op])
qed

lemma foldl_crc_byte_split:
  "foldl crc_byte x bs = (zero_byte ^^ length bs) x XOR foldl crc_byte 0 bs"
proof (induction bs rule: rev_induct)
  case Nil
  show ?case by simp
next
  case (snoc c bs)
  have "crc_byte (a XOR b) c = zero_byte a XOR crc_byte b c" for a b
    by (simp add: crc_byte_zero_byte zero_byte_xor xor.assoc)
  then show ?case using snoc.IH by simp
qed

text \<open>Joining the checksums of three adjacent blocks of the same size.\<close>

lemma three_blocks:
  assumes "length b1 = 2 ^ j" "length b2 = 2 ^ j"
  defines "shift \<equiv> crc32c_shift (crc32c_zeros (2 ^ j))"
  shows "shift (shift (foldl crc_byte x b0) XOR foldl crc_byte 0 b1) XOR foldl crc_byte 0 b2 =
           foldl crc_byte x (b0 @ b1 @ b2)"
proof -
  have join: "shift y XOR foldl crc_byte 0 b = foldl crc_byte y b" if "length b = 2 ^ j" for y b
    using foldl_crc_byte_split [of y b] that by (simp only: shift_def crc32c_shift_eq)
  show ?thesis by (simp only: join [OF assms(1)] join [OF assms(2)] foldl_append)
qed


section \<open>The contract of the instructions\<close>

text \<open>
  What the processor documents: both instructions keep a 32-bit checksum in the low half of the register,
  clear the high half, and advance the checksum by one byte or by eight bytes in memory order.
\<close>

locale crc_instructions =
  fixes crc32b :: crc32b and crc32q :: crc32q
  assumes crc32b_byte: "crc32b (ucast crc) c = ucast (crc_byte crc c)"
    and crc32q_bytes: "length bs = 8 \<Longrightarrow> crc32q (ucast crc) bs = ucast (foldl crc_byte crc bs)"
begin

lemma foldl_crc32b: "foldl crc32b (ucast crc) cs = ucast (foldl crc_byte crc cs)"
  by (induction cs arbitrary: crc) (simp_all add: crc32b_byte)

lemma hw_align_foldl:
  "\<exists>ds rest. hw_align crc32b addr (ucast crc) cs = (ucast (foldl crc_byte crc ds), rest) \<and> cs = ds @ rest"
proof (induction cs arbitrary: addr crc)
  case Nil
  show ?case by simp
next
  case (Cons c cs)
  show ?case
  proof (cases "addr mod 8 = 0")
    case True
    then show ?thesis by (intro exI [of _ "[]"] exI [of _ "c # cs"]) simp
  next
    case False
    obtain ds rest where
      "hw_align crc32b (Suc addr) (ucast (crc_byte crc c)) cs = (ucast (foldl crc_byte (crc_byte crc c) ds), rest)"
      "cs = ds @ rest"
      using Cons.IH by blast
    with False show ?thesis
      by (intro exI [of _ "c # ds"] exI [of _ rest]) (simp add: crc32b_byte)
  qed
qed

text \<open>The inner loop runs through the three blocks side by side.\<close>

lemma next_eight:
  "8 * Suc i \<le> length bs \<Longrightarrow>
     crc32q (ucast (foldl crc_byte x (take (8 * i) bs))) (take 8 (drop (8 * i) bs)) =
       ucast (foldl crc_byte x (take (8 * Suc i) bs))"
proof -
  assume "8 * Suc i \<le> length bs"
  then have "crc32q (ucast (foldl crc_byte x (take (8 * i) bs))) (take 8 (drop (8 * i) bs)) =
      ucast (foldl crc_byte (foldl crc_byte x (take (8 * i) bs)) (take 8 (drop (8 * i) bs)))"
    by (intro crc32q_bytes) simp
  also have "\<dots> = ucast (foldl crc_byte x (take (8 * i + 8) bs))"
    by (simp only: take_add foldl_append)
  finally show ?thesis by (simp add: add.commute)
qed

lemma hw_three_loop:
  assumes "sz * 3 \<le> length nxt"
  shows "8 * n \<le> sz \<Longrightarrow> fold (hw_three crc32q sz nxt) [0..<n] (ucast x, ucast y, ucast z) =
    (ucast (foldl crc_byte x (take (8 * n) nxt)), ucast (foldl crc_byte y (take (8 * n) (drop sz nxt))),
     ucast (foldl crc_byte z (take (8 * n) (drop (2 * sz) nxt))))"
proof (induction n)
  case 0
  show ?case by simp
next
  case (Suc n)
  then have len: "8 * Suc n \<le> length nxt" "8 * Suc n \<le> length (drop sz nxt)"
    "8 * Suc n \<le> length (drop (2 * sz) nxt)" using assms by simp_all
  from Suc have IH: "fold (hw_three crc32q sz nxt) [0..<n] (ucast x, ucast y, ucast z) =
    (ucast (foldl crc_byte x (take (8 * n) nxt)), ucast (foldl crc_byte y (take (8 * n) (drop sz nxt))),
     ucast (foldl crc_byte z (take (8 * n) (drop (2 * sz) nxt))))" by simp
  have "fold (hw_three crc32q sz nxt) [0..<Suc n] (ucast x, ucast y, ucast z) =
      hw_three crc32q sz nxt n (fold (hw_three crc32q sz nxt) [0..<n] (ucast x, ucast y, ucast z))" by simp
  also have "\<dots> = (ucast (foldl crc_byte x (take (8 * Suc n) nxt)),
      ucast (foldl crc_byte y (take (8 * Suc n) (drop sz nxt))),
      ucast (foldl crc_byte z (take (8 * Suc n) (drop (2 * sz) nxt))))"
    using next_eight [OF len(1), of x] next_eight [OF len(2), of y] next_eight [OF len(3), of z]
    by (simp only: IH hw_three_def prod.case drop_drop add.commute)
  finally show ?case .
qed

lemma hw_round:
  assumes "sz = 2 ^ j" "8 dvd sz" "sz * 3 \<le> length nxt"
  defines "shift \<equiv> crc32c_shift (crc32c_zeros sz)"
  shows "(let (crc0, crc1, crc2) = fold (hw_three crc32q sz nxt) [0..<sz div 8] (ucast x, 0, 0);
              crc0 = ucast (shift (ucast crc0)) XOR crc1
          in ucast (shift (ucast crc0)) XOR crc2) = ucast (foldl crc_byte x (take (sz * 3) nxt))"
proof -
  have down: "ucast (ucast v :: 64 word) = v" for v :: "32 word"
    by (rule bit_word_eqI) (simp add: bit_simps)
  have up: "(ucast v XOR ucast w :: 64 word) = ucast (v XOR w)" for v w :: "32 word"
    by (rule bit_word_eqI) (auto simp: bit_simps)
  have "8 * (sz div 8) = sz" using assms(2) by simp
  then have "fold (hw_three crc32q sz nxt) [0..<sz div 8] (ucast x, ucast (0 :: 32 word), ucast (0 :: 32 word)) =
    (ucast (foldl crc_byte x (take sz nxt)), ucast (foldl crc_byte 0 (take sz (drop sz nxt))),
     ucast (foldl crc_byte 0 (take sz (drop (2 * sz) nxt))))"
    using hw_three_loop [OF assms(3), of "sz div 8" x 0 0] by simp
  moreover have "take (sz * 3) nxt = take sz nxt @ take sz (drop sz nxt) @ take sz (drop (2 * sz) nxt)"
  proof -
    have "sz * 3 = sz + (sz + sz)" by simp
    then show ?thesis by (simp only: take_add drop_drop mult_2)
  qed
  moreover have "shift (shift (foldl crc_byte x b0) XOR foldl crc_byte 0 b1) XOR foldl crc_byte 0 b2 =
      foldl crc_byte x (b0 @ b1 @ b2)" if "length b1 = sz" "length b2 = sz" for b0 b1 b2
    using three_blocks [of b1 j b2 x b0] that assms(1) by (simp add: shift_def)
  ultimately show ?thesis
    using assms(3) by (simp only: Let_def prod.case ucast_0 down up length_take length_drop)
qed

lemma hw_blocks_foldl:
  assumes "sz = 2 ^ j" "8 dvd sz"
  shows "\<exists>ds rest. hw_blocks crc32q sz (ucast x) cs = (ucast (foldl crc_byte x ds), rest) \<and> cs = ds @ rest"
proof (induction "length cs" arbitrary: x cs rule: less_induct)
  case less
  have pos: "0 < sz" using assms(1) by simp
  show ?case
  proof (cases "sz * 3 \<le> length cs")
    case True
    let ?y = "foldl crc_byte x (take (sz * 3) cs)"
    have "length (drop (sz * 3) cs) < length cs" using True pos by simp
    from less [OF this, of ?y] obtain ds rest where
      rest: "hw_blocks crc32q sz (ucast ?y) (drop (sz * 3) cs) = (ucast (foldl crc_byte ?y ds), rest)"
        "drop (sz * 3) cs = ds @ rest" by blast
    have "hw_blocks crc32q sz (ucast x) cs = hw_blocks crc32q sz (ucast ?y) (drop (sz * 3) cs)"
      using True pos hw_round [OF assms True, of x]
      by (subst hw_blocks.simps) (simp add: Let_def split_beta)
    moreover have "foldl crc_byte ?y ds = foldl crc_byte x (take (sz * 3) cs @ ds)"
      by (simp only: foldl_append)
    moreover have "cs = (take (sz * 3) cs @ ds) @ rest"
      using rest(2) by (metis append_assoc append_take_drop_id)
    ultimately show ?thesis using rest(1) by metis
  next
    case False
    then show ?thesis by (intro exI [of _ "[]"] exI [of _ cs]) (simp add: hw_blocks.simps)
  qed
qed

lemma hw_quads_foldl:
  "\<exists>ds rest. hw_quads crc32q (ucast x) cs = (ucast (foldl crc_byte x ds), rest) \<and> cs = ds @ rest"
proof (induction "length cs" arbitrary: x cs rule: less_induct)
  case less
  show ?case
  proof (cases "8 \<le> length cs")
    case True
    let ?y = "foldl crc_byte x (take 8 cs)"
    have "length (drop 8 cs) < length cs" using True by simp
    from less [OF this, of ?y] obtain ds rest where
      rest: "hw_quads crc32q (ucast ?y) (drop 8 cs) = (ucast (foldl crc_byte ?y ds), rest)"
        "drop 8 cs = ds @ rest" by blast
    have "hw_quads crc32q (ucast x) cs = hw_quads crc32q (ucast ?y) (drop 8 cs)"
      using True crc32q_bytes [of "take 8 cs" x] by (subst hw_quads.simps) simp
    moreover have "foldl crc_byte ?y ds = foldl crc_byte x (take 8 cs @ ds)"
      by (simp only: foldl_append)
    moreover have "cs = (take 8 cs @ ds) @ rest"
      using rest(2) by (metis append_assoc append_take_drop_id)
    ultimately show ?thesis using rest(1) by metis
  next
    case False
    then show ?thesis by (intro exI [of _ "[]"] exI [of _ cs]) (simp add: hw_quads.simps)
  qed
qed

lemma hw_ref: "crc32c_hw crc32b crc32q addr crci buf = crc32c_ref crci buf"
proof -
  define x where "x = crci XOR 0xffffffff"
  obtain d1 r1 where 1: "hw_align crc32b addr (ucast x) buf = (ucast (foldl crc_byte x d1), r1)" "buf = d1 @ r1"
    using hw_align_foldl by blast
  have long: "crc_LONG = 2 ^ 13" "8 dvd crc_LONG" by (simp_all add: crc_LONG_def)
  have short: "crc_SHORT = 2 ^ 8" "8 dvd crc_SHORT" by (simp_all add: crc_SHORT_def)
  obtain d2 r2 where 2: "hw_blocks crc32q crc_LONG (ucast (foldl crc_byte x d1)) r1 =
      (ucast (foldl crc_byte (foldl crc_byte x d1) d2), r2)" "r1 = d2 @ r2"
    using hw_blocks_foldl [OF long] by blast
  obtain d3 r3 where 3: "hw_blocks crc32q crc_SHORT (ucast (foldl crc_byte (foldl crc_byte x d1) d2)) r2 =
      (ucast (foldl crc_byte (foldl crc_byte (foldl crc_byte x d1) d2) d3), r3)" "r2 = d3 @ r3"
    using hw_blocks_foldl [OF short] by blast
  obtain d4 r4 where 4: "hw_quads crc32q (ucast (foldl crc_byte (foldl crc_byte (foldl crc_byte x d1) d2) d3)) r3 =
      (ucast (foldl crc_byte (foldl crc_byte (foldl crc_byte (foldl crc_byte x d1) d2) d3) d4), r4)" "r3 = d4 @ r4"
    using hw_quads_foldl by blast
  have "ucast (ucast y :: 64 word) = (y :: 32 word)" for y
    by (rule bit_word_eqI) (simp add: bit_simps)
  moreover have "crc32c_hw crc32b crc32q addr crci buf =
      ucast (foldl crc32b (ucast (foldl crc_byte (foldl crc_byte (foldl crc_byte (foldl crc_byte x d1) d2) d3) d4)) r4)
        XOR 0xffffffff"
    by (simp only: crc32c_hw_def x_def [symmetric] Let_def 1(1) 2(1) 3(1) 4(1) prod.case)
  moreover have "buf = d1 @ d2 @ d3 @ d4 @ r4" using 1(2) 2(2) 3(2) 4(2) by simp
  ultimately show ?thesis
    by (simp only: crc32c_ref_def x_def [symmetric] foldl_crc32b foldl_append)
qed

end

text \<open>The single steps of the software routine keep the contract of the instructions.\<close>

interpretation sw_steps: crc_instructions crc_step1 crc_step8
  by unfold_locales (simp_all add: crc_step1_ucast crc_step8_ucast)

section \<open>Properties\<close>

text \<open>C29: The checksum is the bitwise CRC-32C and does not depend on the processor. With the \<^verbatim>\<open>crc32\<close>
  instructions as documented, the three-way parallel routine, whose partial checksums are joined by
  table lookups, and the table-driven software routine both give the checksum that shifts every byte
  through the polynomial bit by bit, for every initial value, buffer and buffer address. A chunk
  written by one machine is therefore accepted by every other.\<close>

theorem crc32c_correct:
  assumes "\<And>crc c. crc32b (ucast crc) c = ucast (crc_byte crc c)"
    and "\<And>crc bs. length bs = 8 \<Longrightarrow> crc32q (ucast crc) bs = ucast (foldl crc_byte crc bs)"
  shows "crc32c_dispatch sse42 crc32b crc32q addr crci buf = crc32c_ref crci buf"
proof -
  have "crc_instructions crc32b crc32q" by unfold_locales (simp_all add: assms)
  from crc_instructions.hw_ref [OF this] show ?thesis
    by (simp add: crc32c_dispatch_def crc32c_sw_correct)
qed

theorem crc32c_correct_witness:
  "crc32c_dispatch True crc_step1 crc_step8 3 0 ''1'' = 0x90f599e3 \<and>
   crc32c_dispatch True crc_step1 crc_step8 3 0 (replicate 30000 CHR ''k'') = crc32c_ref 0 (replicate 30000 CHR ''k'')"
proof -
  have "crc32c_dispatch True crc_step1 crc_step8 3 0 buf = crc32c_ref 0 buf" for buf
    by (rule crc32c_correct) (simp_all add: crc_step1_ucast crc_step8_ucast)
  moreover have "crc32c_ref 0 ''1'' = 0x90f599e3" by code_simp
  ultimately show ?thesis by (simp only: simp_thms)
qed

end
