(* ===== verification/Prefetch_Oracle.thy ===== *)
theory Prefetch_Oracle
  imports Kio_Prelude "HOL-Library.Multiset"
begin

text \<open>
  \<^verbatim>\<open>PrefetchOracle\<close> (src/PrefetchOracle.cc): predicts the next block numbers of a reader from
  the block numbers it has asked for. The deques are lists whose head is the front. The order in
  which the \<^verbatim>\<open>unordered_map\<close> of distances is iterated is not specified by the language, so it is
  a parameter \<open>order\<close> of the prediction, assumed to be a permutation.
\<close>

section \<open>Model\<close>

datatype PredictionType = COMPLETE | CONTINUE

record prefetch_oracle =
  max_prediction :: nat
  sequence_capacity :: nat
  sequence :: "int list"
  past_prediction :: "int list"

type_synonym distance_map = "(int \<times> int list) list"

definition PrefetchOracle_new :: "nat \<Rightarrow> prefetch_oracle" where
  "PrefetchOracle_new m =
     \<lparr>max_prediction = m, sequence_capacity = (if 8 < m then m + 2 else 10),
      sequence = [], past_prediction = []\<rparr>"

fun contains_num :: "int list \<Rightarrow> int \<Rightarrow> bool" where
  "contains_num [] n = False"
| "contains_num (x # xs) n = (if x = n then True else contains_num xs n)"

definition PrefetchOracle_add :: "int \<Rightarrow> prefetch_oracle \<Rightarrow> prefetch_oracle" where
  "PrefetchOracle_add number po =
     (if contains_num (sequence po) number then po
      else let s = number # sequence po
           in po\<lparr>sequence := if sequence_capacity po < length s then butlast s else s\<rparr>)"

text \<open>\<^verbatim>\<open>distances[k].push_back(x)\<close>.\<close>

fun distances_push :: "int \<Rightarrow> int \<Rightarrow> distance_map \<Rightarrow> distance_map" where
  "distances_push k x [] = [(k, [x])]"
| "distances_push k x ((k', xs) # m) =
     (if k' = k then (k', xs @ [x]) # m else (k', xs) # distances_push k x m)"

text \<open>The loop over the sequence: the distance to the next element and to the one after it.\<close>

fun collect_distances :: "int list \<Rightarrow> distance_map \<Rightarrow> distance_map" where
  "collect_distances [] m = m"
| "collect_distances [a] m = m"
| "collect_distances [a, b] m = collect_distances [b] (distances_push (a - b) a m)"
| "collect_distances (a # b # c # s) m =
     collect_distances (b # c # s) (distances_push (a - c) a (distances_push (a - b) a m))"

definition most_frequent_distance :: "distance_map \<Rightarrow> int \<times> int list" where
  "most_frequent_distance ds =
     foldl (\<lambda>best e. if length (snd best) < length (snd e) then e else best) (hd ds) ds"

text \<open>The arithmetic of the prediction runs in \<^verbatim>\<open>size_t\<close> and is narrowed to \<^verbatim>\<open>int\<close>.\<close>

definition build_prediction :: "nat \<Rightarrow> int \<times> int list \<Rightarrow> int list" where
  "build_prediction n dist =
     foldl (\<lambda>pr i. let p = to_int32 (hd (snd dist) + int i * fst dist)
                   in if 0 < p \<and> length pr < n then pr @ [p] else pr)
       [] [1..<length (snd dist) + 1]"

text \<open>Keeping the list of past predictions up to date.\<close>

definition remember_prediction :: "nat \<Rightarrow> int list \<Rightarrow> int list \<Rightarrow> int list" where
  "remember_prediction capacity pr past =
     (let past = foldl (\<lambda>d x. x # d) past pr
      in if capacity < length past then take capacity past else past)"

definition PrefetchOracle_predict ::
  "(distance_map \<Rightarrow> distance_map) \<Rightarrow> nat \<Rightarrow> PredictionType \<Rightarrow> prefetch_oracle \<Rightarrow>
   int list \<times> prefetch_oracle" where
  "PrefetchOracle_predict order n type po =
     (let n = (if max_prediction po < n then max_prediction po else n);
          len = length (sequence po)
      in if len < 3 then ([], po)
         else
           let dist = most_frequent_distance (order (collect_distances (sequence po) []))
           in if length (snd dist) < 3 * len div 4 then ([], po)
              else
                let pr = build_prediction n dist;
                    pr = (if type = CONTINUE
                          then filter (\<lambda>x. \<not> contains_num (past_prediction po) x) pr else pr)
                in (pr, po\<lparr>past_prediction :=
                             remember_prediction (sequence_capacity po) pr (past_prediction po)\<rparr>))"

section \<open>Lemmas\<close>

lemma contains_num_iff [simp]: "contains_num xs n \<longleftrightarrow> n \<in> set xs"
  by (induction xs) auto

definition oracle_wf :: "prefetch_oracle \<Rightarrow> bool" where
  "oracle_wf po \<longleftrightarrow>
     sequence_capacity po = (if 8 < max_prediction po then max_prediction po + 2 else 10) \<and>
     length (sequence po) \<le> sequence_capacity po \<and> distinct (sequence po) \<and>
     length (past_prediction po) \<le> sequence_capacity po"

lemma oracle_wf_add: "oracle_wf po \<Longrightarrow> oracle_wf (PrefetchOracle_add n po)"
  by (auto simp: oracle_wf_def PrefetchOracle_add_def Let_def distinct_butlast
      dest: in_set_butlastD)

lemma length_remember: "length (remember_prediction c pr past) \<le> c"
  by (simp add: remember_prediction_def Let_def not_less)

lemma oracle_wf_predict: "oracle_wf po \<Longrightarrow> oracle_wf (snd (PrefetchOracle_predict ord n t po))"
proof -
  assume "oracle_wf po"
  then have "oracle_wf (po\<lparr>past_prediction := remember_prediction (sequence_capacity po) pr past\<rparr>)"
    for pr past by (simp add: oracle_wf_def length_remember)
  with \<open>oracle_wf po\<close> show ?thesis
    unfolding PrefetchOracle_predict_def Let_def by simp
qed

subsection \<open>Building the prediction list\<close>

lemma build_loop:
  "foldl (\<lambda>pr i. let p = f i in if 0 < p \<and> length pr < n then pr @ [p] else pr) acc is =
     acc @ take (n - length acc) (filter (\<lambda>p. 0 < p) (map f is))"
  for f :: "nat \<Rightarrow> int"
proof (induction "is" arbitrary: acc)
  case Nil
  then show ?case by simp
next
  case (Cons i "is")
  show ?case
  proof (cases "0 < f i \<and> length acc < n")
    case True
    then have "n - length acc = Suc (n - Suc (length acc))" by (simp add: Suc_diff_Suc)
    with True Cons.IH [of "acc @ [f i]"] show ?thesis by simp
  next
    case False
    with Cons.IH [of acc] show ?thesis by (auto simp: not_less)
  qed
qed

lemma build_prediction_eq:
  "build_prediction n dist =
     take n (filter (\<lambda>p. 0 < p)
       (map (\<lambda>i. to_int32 (hd (snd dist) + int i * fst dist)) [1..<length (snd dist) + 1]))"
  unfolding build_prediction_def build_loop by simp

subsection \<open>The distance map\<close>

text \<open>The elements of a sequence that have a given distance to one of their two successors.\<close>

fun at_distance :: "int \<Rightarrow> int list \<Rightarrow> int list" where
  "at_distance k [] = []"
| "at_distance k [a] = []"
| "at_distance k [a, b] = (if a - b = k then [a] else [])"
| "at_distance k (a # b # c # s) =
     (if a - b = k then [a] else []) @ (if a - c = k then [a] else []) @ at_distance k (b # c # s)"

definition lookup_list :: "distance_map \<Rightarrow> int \<Rightarrow> int list" where
  "lookup_list m k = (case map_of m k of None \<Rightarrow> [] | Some xs \<Rightarrow> xs)"

lemma lookup_push:
  "lookup_list (distances_push k x m) k' = lookup_list m k' @ (if k' = k then [x] else [])"
  by (induction k x m rule: distances_push.induct) (auto simp: lookup_list_def)

lemma keys_push: "set (map fst (distances_push k x m)) = insert k (set (map fst m))"
  by (induction k x m rule: distances_push.induct) auto

lemma distinct_push: "distinct (map fst m) \<Longrightarrow> distinct (map fst (distances_push k x m))"
proof (induction k x m rule: distances_push.induct)
  case (2 k x k' xs m)
  then show ?case using keys_push [of k x m] by auto
qed auto

lemma nonempty_push:
  "\<forall>e \<in> set m. snd e \<noteq> [] \<Longrightarrow> e \<in> set (distances_push k x m) \<Longrightarrow> snd e \<noteq> []"
  by (induction k x m rule: distances_push.induct) (auto split: if_splits)

lemma lookup_collect:
  "lookup_list (collect_distances s m) k = lookup_list m k @ at_distance k s"
  by (induction s m rule: collect_distances.induct) (auto simp: lookup_push)

lemma collect_wf:
  assumes "distinct (map fst m)" and "\<forall>e \<in> set m. snd e \<noteq> []"
  shows "distinct (map fst (collect_distances s m)) \<and> (\<forall>e \<in> set (collect_distances s m). snd e \<noteq> [])"
  using assms
proof (induction s m rule: collect_distances.induct)
  case (3 a b m)
  show ?case
    by simp (use 3 nonempty_push in \<open>blast intro!: distinct_push\<close>)
next
  case (4 a b c s m)
  show ?case
    by simp (rule 4(1); use 4(2,3) nonempty_push in \<open>blast intro!: distinct_push\<close>)
qed auto

lemma collect_entries:
  "(k, xs) \<in> set (collect_distances s []) \<longleftrightarrow> xs = at_distance k s \<and> xs \<noteq> []"
proof -
  have wf: "distinct (map fst (collect_distances s []))" "\<forall>e \<in> set (collect_distances s []). snd e \<noteq> []"
    using collect_wf [of "[]" s] by auto
  have look: "lookup_list (collect_distances s []) k = at_distance k s"
    by (simp add: lookup_collect) (simp add: lookup_list_def)
  show ?thesis
  proof
    assume "(k, xs) \<in> set (collect_distances s [])"
    then show "xs = at_distance k s \<and> xs \<noteq> []"
      using wf look by (force simp: lookup_list_def)
  next
    assume "xs = at_distance k s \<and> xs \<noteq> []"
    then show "(k, xs) \<in> set (collect_distances s [])"
      using look by (auto simp: lookup_list_def split: option.splits dest: map_of_SomeD)
  qed
qed

subsection \<open>Choosing the most frequent distance\<close>

lemma foldl_max_unique:
  assumes "\<And>e'. e' \<in> set ds \<Longrightarrow> e' \<noteq> e \<Longrightarrow> length (snd e') < length (snd e)"
    and "b \<noteq> e \<Longrightarrow> length (snd b) < length (snd e)"
    and "e \<in> set ds \<or> b = e"
  shows "foldl (\<lambda>best e. if length (snd best) < length (snd e) then e else best) b ds = e"
  using assms
proof (induction ds arbitrary: b)
  case Nil
  then show ?case by simp
next
  case (Cons d ds)
  define b' where "b' = (if length (snd b) < length (snd d) then d else b)"
  have d: "d \<noteq> e \<Longrightarrow> length (snd d) < length (snd e)"
    using Cons.prems(1) by simp
  have "b' = e" if "e \<notin> set ds"
  proof -
    have "d = e \<or> b = e" using Cons.prems(3) that by auto
    then show ?thesis using d Cons.prems(2) by (metis b'_def less_asym')
  qed
  moreover have "b' \<noteq> e \<Longrightarrow> length (snd b') < length (snd e)"
    using d Cons.prems(2) by (simp add: b'_def split: if_splits)
  ultimately have "foldl (\<lambda>best e. if length (snd best) < length (snd e) then e else best) b' ds = e"
    using Cons.prems(1) by (intro Cons.IH) auto
  then show ?case by (simp add: b'_def)
qed

lemma most_frequent_unique:
  assumes "e \<in> set ds"
    and "\<And>e'. e' \<in> set ds \<Longrightarrow> e' \<noteq> e \<Longrightarrow> length (snd e') < length (snd e)"
  shows "most_frequent_distance ds = e"
proof -
  have "hd ds \<in> set ds" using assms(1) by (cases ds) auto
  then show ?thesis
    unfolding most_frequent_distance_def by (intro foldl_max_unique) (use assms in blast)+
qed

subsection \<open>Arithmetic sequences\<close>

definition stride :: "int \<Rightarrow> int \<Rightarrow> nat \<Rightarrow> int list" where
  "stride x d n = map (\<lambda>i. x - int i * d) [0..<n]"

lemma stride_Suc: "stride x d (Suc n) = x # stride (x - d) d n"
  by (simp add: stride_def map_upt_Suc algebra_simps del: upt_Suc)

lemma stride_simps [simp]: "stride x d 0 = []" "length (stride x d n) = n"
  by (simp_all add: stride_def)

lemma at_distance_stride_other:
  "k \<noteq> d \<Longrightarrow> k \<noteq> 2 * d \<Longrightarrow> at_distance k (stride x d n) = []"
proof (induction n arbitrary: x)
  case (Suc n)
  then show ?case
    using Suc.IH [of "x - d"] by (cases n; cases "n - 1") (auto simp: stride_Suc)
qed simp

lemma at_distance_stride_1:
  "d \<noteq> 0 \<Longrightarrow> at_distance d (stride x d (Suc n)) = stride x d n"
proof (induction n arbitrary: x)
  case (Suc n)
  then show ?case
    using Suc.IH [of "x - d"] by (cases n) (auto simp: stride_Suc)
qed (simp add: stride_Suc)

lemma at_distance_stride_2:
  "d \<noteq> 0 \<Longrightarrow> at_distance (2 * d) (stride x d (Suc (Suc n))) = stride x d n"
proof (induction n arbitrary: x)
  case (Suc n)
  then show ?case
    using Suc.IH [of "x - d"] by (cases n) (auto simp: stride_Suc)
qed (simp add: stride_Suc)

lemma most_frequent_stride:
  assumes "d \<noteq> 0" and "2 \<le> n" and "set (ord (collect_distances (stride x d (Suc n)) [])) =
    set (collect_distances (stride x d (Suc n)) [])"
  shows "most_frequent_distance (ord (collect_distances (stride x d (Suc n)) [])) = (d, stride x d n)"
proof (rule most_frequent_unique)
  obtain m where m: "n = Suc m" using assms(2) by (cases n) auto
  have "stride x d n \<noteq> []" using m by (simp add: stride_Suc)
  then show "(d, stride x d n) \<in> set (ord (collect_distances (stride x d (Suc n)) []))"
    using assms at_distance_stride_1 [OF assms(1), of x n] by (simp add: collect_entries)
  fix e assume "e \<in> set (ord (collect_distances (stride x d (Suc n)) []))" and "e \<noteq> (d, stride x d n)"
  moreover obtain k xs where e: "e = (k, xs)" by (cases e)
  ultimately have e2: "xs = at_distance k (stride x d (Suc n))" "xs \<noteq> []"
    unfolding assms(3) collect_entries by (auto simp: collect_entries)
  with \<open>e \<noteq> (d, stride x d n)\<close> have "k \<noteq> d"
    using e at_distance_stride_1 [OF assms(1), of x n] by blast
  with e2 have "k = 2 * d" using at_distance_stride_other by metis
  then have "xs = stride x d m"
    using e2(1) at_distance_stride_2 [OF assms(1), of x m] m by simp
  then show "length (snd e) < length (snd (d, stride x d n))"
    using e m by simp
qed

section \<open>Properties\<close>

text \<open>Whatever numbers are added and predictions made, the history never exceeds its capacity
  and holds no number twice, and the list of past predictions never exceeds the same capacity.\<close>

theorem oracle_invariant:
  "oracle_wf (PrefetchOracle_new m) \<and>
   (oracle_wf po \<longrightarrow> oracle_wf (PrefetchOracle_add k po) \<and>
      oracle_wf (snd (PrefetchOracle_predict order n type po)))"
  by (simp add: oracle_wf_add oracle_wf_predict) (simp add: oracle_wf_def PrefetchOracle_new_def)

theorem oracle_invariant_witness:
  "oracle_wf (PrefetchOracle_add 7 (PrefetchOracle_new 5))"
proof -
  have "oracle_wf (PrefetchOracle_new 5)" by code_simp
  then show ?thesis
    using oracle_invariant [of 5 "PrefetchOracle_new 5" 7 id 3 COMPLETE] by simp
qed

text \<open>A prediction never has more entries than requested or than the configured maximum, never
  contains block 0 or a negative number, and a continuing prediction never repeats a number that
  is remembered from an earlier one.\<close>

theorem predict_bounds:
  assumes "PrefetchOracle_predict order n type po = (pr, po')"
  shows "length pr \<le> min n (max_prediction po) \<and> (\<forall>p \<in> set pr. 0 < p) \<and>
    (type = CONTINUE \<longrightarrow> set pr \<inter> set (past_prediction po) = {})"
proof -
  let ?n = "if max_prediction po < n then max_prediction po else n"
  have len: "length (build_prediction k dist) \<le> k" for k dist
    by (simp add: build_prediction_eq)
  have pos: "p \<in> set (build_prediction k dist) \<Longrightarrow> 0 < p" for k dist p
    unfolding build_prediction_eq by (auto dest!: in_set_takeD)
  define dist where "dist = most_frequent_distance (order (collect_distances (sequence po) []))"
  have "pr = [] \<or> pr = (if type = CONTINUE
      then filter (\<lambda>x. \<not> contains_num (past_prediction po) x) (build_prediction ?n dist)
      else build_prediction ?n dist)"
    using assms unfolding PrefetchOracle_predict_def Let_def dist_def [symmetric]
    by (cases "length (sequence po) < 3"; cases "type = CONTINUE") (auto split: if_splits)
  then consider "pr = []"
    | "type = CONTINUE"
        "pr = filter (\<lambda>x. \<not> contains_num (past_prediction po) x) (build_prediction ?n dist)"
    | "type \<noteq> CONTINUE" "pr = build_prediction ?n dist"
    by (cases "type = CONTINUE") auto
  then show ?thesis
  proof cases
    case 2
    have "length pr \<le> length (build_prediction ?n dist)"
      unfolding 2(2) by (rule length_filter_le)
    then have "length pr \<le> min n (max_prediction po)"
      using len [of ?n dist] by (simp split: if_splits)
    moreover have "\<forall>p \<in> set pr. 0 < p \<and> p \<notin> set (past_prediction po)"
      unfolding 2(2) using pos [of _ ?n dist] by auto
    ultimately show ?thesis by blast
  next
    case 3
    then show ?thesis
      using len [of ?n dist] pos [of _ ?n dist] by (auto split: if_splits)
  qed simp
qed

theorem predict_bounds_witness:
  "length (fst (PrefetchOracle_predict id 2 COMPLETE
     ((PrefetchOracle_add 3 \<circ> PrefetchOracle_add 2 \<circ> PrefetchOracle_add 1) (PrefetchOracle_new 5)))) \<le> 2"
  using predict_bounds [of id 2 COMPLETE
      "(PrefetchOracle_add 3 \<circ> PrefetchOracle_add 2 \<circ> PrefetchOracle_add 1) (PrefetchOracle_new 5)"]
  by (metis min.boundedE prod.collapse)

text \<open>A reader that moves in constant steps, forwards or backwards, is predicted exactly: when
  the history is an arithmetic sequence of at least three numbers, the prediction is the sequence's
  own continuation, cut at the requested length and stripped of non-positive numbers, whatever the
  iteration order of the hash map.\<close>

theorem predict_stride:
  assumes "3 \<le> n" and "d \<noteq> 0" and "sequence po = stride x d n"
    and "\<And>m. mset (order m) = mset m"
    and "\<And>i. i < n \<Longrightarrow> - (2 ^ 31) \<le> x + int i * d \<and> x + int i * d < 2 ^ 31"
  shows "fst (PrefetchOracle_predict order len COMPLETE po) =
    take (min len (max_prediction po)) (filter (\<lambda>p. 0 < p) (map (\<lambda>i. x + int i * d) [1..<n]))"
proof -
  obtain k where k: "n = Suc k" using assms(1) by (cases n) auto
  let ?m = "collect_distances (sequence po) []"
  have "set (order ?m) = set ?m"
    using assms(4) mset_eq_setD by blast
  then have dist: "most_frequent_distance (order ?m) = (d, stride x d k)"
    unfolding assms(3) k using assms(1,2) k by (intro most_frequent_stride) auto
  have "3 * n div 4 \<le> k" using assms(1) k by linarith
  moreover have "hd (stride x d k) = x"
    using assms(1) k by (cases k) (auto simp: stride_Suc)
  moreover have narrow: "map (\<lambda>i. to_int32 (x + int i * d)) [1..<n] = map (\<lambda>i. x + int i * d) [1..<n]"
    using assms(5) by (intro map_cong) (auto intro: to_int32_id)
  ultimately have "build_prediction l (d, stride x d k) =
      take l (filter (\<lambda>p. 0 < p) (map (\<lambda>i. x + int i * d) [1..<n]))" for l
    unfolding build_prediction_eq by (simp add: narrow [unfolded k One_nat_def] k del: upt_Suc map_eq_conv)
  moreover have "length (sequence po) = n" "\<not> n < 3" "\<not> k < 3 * n div 4"
    using assms(1,3) k by auto
  ultimately show ?thesis
    unfolding PrefetchOracle_predict_def Let_def dist by (simp add: min_def)
qed

theorem predict_stride_witness:
  "fst (PrefetchOracle_predict rev 2 COMPLETE
     ((PrefetchOracle_add 30 \<circ> PrefetchOracle_add 20 \<circ> PrefetchOracle_add 10) (PrefetchOracle_new 5)))
   = [40, 50]"
proof -
  let ?po = "(PrefetchOracle_add 30 \<circ> PrefetchOracle_add 20 \<circ> PrefetchOracle_add 10) (PrefetchOracle_new 5)"
  have "sequence ?po = stride 30 10 3" by code_simp
  moreover have "max_prediction ?po = 5" by code_simp
  ultimately show ?thesis
    using predict_stride [of 3 10 ?po 30 rev 2] by (auto simp: upt_conv_Cons)
qed

end
