(* ===== verification/Redundancy_Provider.thy ===== *)
theory Redundancy_Provider
  imports Kio_Prelude
begin

text \<open>
  \<^verbatim>\<open>RedundancyProvider\<close> (src/RedundancyProvider.cc): computes the missing chunks of a stripe by
  replication or by erasure coding.

  The Galois field arithmetic is that of the isa-l library, which is not part of the repository:
  its five entry points are the record \<open>isal\<close>, an argument of the definitions, and what the code
  relies on of them is the predicate \<open>isal_ok\<close>. A stripe is a list of \<open>string option\<close>, \<open>None\<close> being
  a null pointer; the error pattern is the list of its missing chunks. The cache of coding tables
  is part of the state and \<open>compute\<close> returns it updated.
\<close>

unbundle bit_operations_syntax

section \<open>Model\<close>

type_synonym byte = "8 word"
type_synonym stripe = "string option list"

record isal =
  gf_mul :: "byte \<Rightarrow> byte \<Rightarrow> byte"
  gf_invert_matrix :: "byte list \<Rightarrow> nat \<Rightarrow> byte list option"
  gf_gen_cauchy1_matrix :: "nat \<Rightarrow> nat \<Rightarrow> byte list"
  ec_init_tables :: "nat \<Rightarrow> nat \<Rightarrow> byte list \<Rightarrow> byte list \<Rightarrow> byte list"
  ec_encode_data :: "int \<Rightarrow> nat \<Rightarrow> nat \<Rightarrow> byte list \<Rightarrow> byte list list \<Rightarrow> byte list list"

record CodingTable =
  table :: "byte list"
  blockIndices :: "nat list"
  nErrors :: nat

record redundancy_provider =
  nData :: nat
  nParity :: nat
  encode_matrix :: "byte list"
  cache :: "bool list \<rightharpoonup> CodingTable"

subsection \<open>The decode matrix\<close>

text \<open>The accumulation \<^verbatim>\<open>s ^= ...\<close> over \<open>j = 0 .. n - 1\<close>.\<close>

primrec xor_sum :: "nat \<Rightarrow> (nat \<Rightarrow> byte) \<Rightarrow> byte" where
  "xor_sum 0 f = 0"
| "xor_sum (Suc n) f = xor_sum n f XOR f n"

definition matrix_row :: "byte list \<Rightarrow> nat \<Rightarrow> nat \<Rightarrow> byte list" where
  "matrix_row mat k r = take k (drop (k * r) mat)"

function next_healthy :: "bool list \<Rightarrow> nat \<Rightarrow> nat" where
  "next_healthy src_in_err r =
     (if r < length src_in_err \<and> src_in_err ! r then next_healthy src_in_err (Suc r) else r)"
  by auto
termination by (relation "measure (\<lambda>(p, r). length p - r)") auto

declare next_healthy.simps [simp del]

primrec healthy_rows :: "bool list \<Rightarrow> nat \<Rightarrow> nat \<Rightarrow> nat list" where
  "healthy_rows src_in_err 0 r = []"
| "healthy_rows src_in_err (Suc k) r =
     (let r = next_healthy src_in_err r in r # healthy_rows src_in_err k (Suc r))"

text \<open>The retry loop around the matrix inversion: the last row is replaced by a later one until
  the matrix can be inverted. \<open>lst\<close> is \<^verbatim>\<open>decode_index[k - 1]\<close>.\<close>

definition skip_erased :: "nat list \<Rightarrow> nat \<Rightarrow> nat \<Rightarrow> nat \<Rightarrow> nat \<Rightarrow> nat" where
  "skip_erased src_err_list nsrcerrs nerrs lst incr =
     foldl (\<lambda>incr i. if src_err_list ! i = lst + incr then incr + 1 else incr)
       incr [nsrcerrs..<nerrs - nsrcerrs]"

lemma skip_erased_ge: "incr \<le> skip_erased errs a b lst incr"
proof -
  have "incr \<le> foldl (\<lambda>incr i. if errs ! i = lst + incr then incr + 1 else incr) incr is" for incr "is"
  proof (induction "is" arbitrary: incr)
    case (Cons i "is")
    show ?case using Cons [of incr] Cons [of "incr + 1"] by auto
  qed simp
  then show ?thesis by (simp add: skip_erased_def)
qed

function invert_retry ::
  "isal \<Rightarrow> byte list \<Rightarrow> byte list \<Rightarrow> nat list \<Rightarrow> nat \<Rightarrow> nat \<Rightarrow> nat \<Rightarrow> nat \<Rightarrow>
   byte list \<Rightarrow> nat \<Rightarrow> nat \<Rightarrow> (nat \<times> byte list) option" where
  "invert_retry lib encode backup src_err_list nerrs nsrcerrs k m b lst incr =
     (case gf_invert_matrix lib b k of
        Some invert_matrix \<Rightarrow> Some (lst, invert_matrix)
      | None \<Rightarrow>
          if nerrs = m - k then None
          else
            let incr = skip_erased src_err_list nsrcerrs nerrs lst (incr + 1)
            in if m \<le> lst + incr then None
               else invert_retry lib encode backup src_err_list nerrs nsrcerrs k m
                      (take (k * (k - 1)) backup @ matrix_row encode k (lst + incr))
                      (lst + incr) incr)"
  by auto
termination
proof (relation "measure (\<lambda>(lib, enc, bk, errs, nerrs, nsrc, k, m, b, lst, incr). m - lst)")
  fix lib :: isal and encode backup errs nerrs nsrcerrs k m b lst incr x
  assume "x = skip_erased errs nsrcerrs nerrs lst (incr + 1)" and "\<not> m \<le> lst + x"
  then show "((lib, encode, backup, errs, nerrs, nsrcerrs, k, m,
       take (k * (k - 1)) backup @ matrix_row encode k (lst + x), lst + x, x),
      lib, encode, backup, errs, nerrs, nsrcerrs, k, m, b, lst, incr)
      \<in> measure (\<lambda>(lib, enc, bk, errs, nerrs, nsrc, k, m, b, lst, incr). m - lst)"
    using skip_erased_ge [of "incr + 1" errs nsrcerrs nerrs lst] by simp
qed simp

declare invert_retry.simps [simp del]

definition decode_row ::
  "isal \<Rightarrow> byte list \<Rightarrow> byte list \<Rightarrow> nat \<Rightarrow> nat list \<Rightarrow> nat \<Rightarrow> nat \<Rightarrow> byte list" where
  "decode_row lib encode invert_matrix k src_err_list nsrcerrs p =
     (if p < nsrcerrs then matrix_row invert_matrix k (src_err_list ! p)
      else map (\<lambda>i. xor_sum k (\<lambda>j. gf_mul lib (invert_matrix ! (j * k + i))
                                     (encode ! (k * (src_err_list ! p) + j)))) [0..<k])"

text \<open>\<open>Inr None\<close> is the return value -1. Rows past the end of the encode matrix would be read out
  of bounds.\<close>

definition gf_gen_decode_matrix ::
  "isal \<Rightarrow> byte list \<Rightarrow> nat list \<Rightarrow> bool list \<Rightarrow> nat \<Rightarrow> nat \<Rightarrow> nat \<Rightarrow> nat \<Rightarrow>
   (byte list \<times> nat list) option res" where
  "gf_gen_decode_matrix lib encode src_err_list src_in_err nerrs nsrcerrs k m =
     (let decode_index = healthy_rows src_in_err k 0;
          b = concat (map (matrix_row encode k) decode_index)
      in if \<exists>r \<in> set decode_index. m \<le> r then Inl Undefined_behaviour
         else Inr
           (case invert_retry lib encode b src_err_list nerrs nsrcerrs k m b (last decode_index) 0 of
              None \<Rightarrow> None
            | Some (lst, invert_matrix) \<Rightarrow>
                Some (concat (map (decode_row lib encode invert_matrix k src_err_list nsrcerrs) [0..<nerrs])
                        @ replicate (m * k - nerrs * k) 0,
                      decode_index[k - 1 := lst])))"

subsection \<open>Operations\<close>

definition RedundancyProvider_new :: "isal \<Rightarrow> nat \<Rightarrow> nat \<Rightarrow> redundancy_provider" where
  "RedundancyProvider_new lib data parity =
     \<lparr>nData = data, nParity = parity,
      encode_matrix = gf_gen_cauchy1_matrix lib (data + parity) data, cache = (\<lambda>p. None)\<rparr>"

text \<open>The loop of \<^verbatim>\<open>getErrorPattern\<close> with its pattern, error count and block size.\<close>

fun error_scan :: "stripe \<Rightarrow> bool list \<Rightarrow> nat \<Rightarrow> nat \<Rightarrow> (bool list \<times> nat) res" where
  "error_scan [] pattern nErrs blockSize = Inr (pattern, nErrs)"
| "error_scan (c # cs) pattern nErrs blockSize =
     (if c = None \<or> c = Some [] then error_scan cs (pattern @ [True]) (nErrs + 1) blockSize
      else let blockSize = (if blockSize = 0 then length (the c) else blockSize)
           in if blockSize \<noteq> length (the c) then Inl Invalid_argument
              else error_scan cs (pattern @ [False]) nErrs blockSize)"

definition getErrorPattern :: "redundancy_provider \<Rightarrow> stripe \<Rightarrow> bool list res" where
  "getErrorPattern rp stripe =
     (if length stripe \<noteq> nData rp + nParity rp then Inl Invalid_argument
      else res_bind (error_scan stripe [] 0 0) (\<lambda>(pattern, nErrs).
        if nParity rp < nErrs then Inl Invalid_argument else Inr pattern))"

text \<open>The index loop of \<^verbatim>\<open>getCodingTable\<close> counts in a \<^verbatim>\<open>uint8_t\<close>: with a pattern of 256 or more
  entries it would never end. \<^verbatim>\<open>err_indx_list\<close> has room for \<open>nParity\<close> indices. A loop without an end and
  without effects, and one that writes past the array in every turn, are both undefined, and the model
  says no more than that; the theorems on operations of the cluster bound the number of chunks by 255.\<close>

definition getCodingTable ::
  "isal \<Rightarrow> redundancy_provider \<Rightarrow> bool list \<Rightarrow> redundancy_provider \<times> CodingTable res" where
  "getCodingTable lib rp pattern =
     (case cache rp pattern of
        Some dd \<Rightarrow> (rp, Inr dd)
      | None \<Rightarrow>
          let err_indx_list = filter (\<lambda>i. pattern ! i) [0..<length pattern];
              nerrs = length err_indx_list;
              nsrcerrs = length (filter (\<lambda>i. i < nData rp) err_indx_list)
          in if 255 < length pattern \<or> nParity rp < nerrs then (rp, Inl Undefined_behaviour)
             else
               case gf_gen_decode_matrix lib (encode_matrix rp) err_indx_list pattern nerrs nsrcerrs
                      (nData rp) (nParity rp + nData rp) of
                 Inl e \<Rightarrow> (rp, Inl e)
               | Inr None \<Rightarrow> (rp, Inl Runtime_error)
               | Inr (Some (decode_matrix, decode_index)) \<Rightarrow>
                   let dd = \<lparr>table = ec_init_tables lib (nData rp) nerrs decode_matrix
                               (replicate (nData rp * nParity rp * 32) 0),
                             blockIndices = decode_index, nErrors = nerrs\<rparr>
                   in (rp\<lparr>cache := (cache rp)(pattern \<mapsto> dd)\<rparr>, Inr dd))"

definition first_valid :: "bool list \<Rightarrow> nat" where
  "first_valid pattern = next_healthy pattern 0"

definition replication :: "stripe \<Rightarrow> bool list \<Rightarrow> stripe" where
  "replication stripe pattern =
     (let valid = first_valid pattern
      in map (\<lambda>i. if pattern ! i then stripe ! valid else stripe ! i) [0..<length pattern])"

definition bytes_of :: "string \<Rightarrow> byte list" where
  "bytes_of s = map of_char s"

definition string_of_bytes :: "byte list \<Rightarrow> string" where
  "string_of_bytes bs = map (\<lambda>b. char_of (unat b)) bs"

text \<open>The loop that stores the computed chunks: \<open>e\<close> counts the ones already used.\<close>

fun insert_computed :: "stripe \<Rightarrow> bool list \<Rightarrow> string list \<Rightarrow> stripe" where
  "insert_computed (c # cs) (True # ps) (o' # os) = Some o' # insert_computed cs ps os"
| "insert_computed (c # cs) (False # ps) os = c # insert_computed cs ps os"
| "insert_computed cs ps os = cs"

definition compute ::
  "isal \<Rightarrow> redundancy_provider \<Rightarrow> stripe \<Rightarrow> redundancy_provider \<times> stripe res" where
  "compute lib rp stripe =
     (case getErrorPattern rp stripe of
        Inl e \<Rightarrow> (rp, Inl e)
      | Inr pattern \<Rightarrow>
          if nParity rp = 0 then (rp, Inr stripe)
          else if nData rp = 1 then
            (rp, if first_valid pattern < length stripe then Inr (replication stripe pattern)
                 else Inl Undefined_behaviour)
          else
            case getCodingTable lib rp pattern of
              (rp, Inl e) \<Rightarrow> (rp, Inl e)
            | (rp, Inr dd) \<Rightarrow>
                if blockIndices dd = [] then (rp, Inl Undefined_behaviour)
                else
                  let inbuf = map (\<lambda>i. bytes_of (the (stripe ! i))) (blockIndices dd);
                      blockSize = length (the (stripe ! hd (blockIndices dd)));
                      outbuf = ec_encode_data lib (to_int32 (int blockSize)) (nData rp) (nErrors dd)
                                 (table dd) inbuf
                  in (rp, Inr (insert_computed stripe pattern (map string_of_bytes outbuf))))"

definition numData :: "redundancy_provider \<Rightarrow> nat" where
  "numData rp = nData rp"

definition numParity :: "redundancy_provider \<Rightarrow> nat" where
  "numParity rp = nParity rp"

definition rp_size :: "redundancy_provider \<Rightarrow> nat" where
  "rp_size rp = nData rp + nParity rp"

section \<open>Lemmas\<close>

subsection \<open>The error pattern\<close>

definition missing :: "string option \<Rightarrow> bool" where
  "missing c \<longleftrightarrow> c = None \<or> c = Some []"

definition same_sizes :: "stripe \<Rightarrow> bool" where
  "same_sizes cs \<longleftrightarrow>
     (\<forall>c \<in> set cs. \<forall>d \<in> set cs. \<not> missing c \<longrightarrow> \<not> missing d \<longrightarrow> length (the c) = length (the d))"

lemma missing_simps [simp]: "missing None" "missing (Some []) = True" "missing (Some (c # cs)) = False"
  by (simp_all add: missing_def)

lemma missing_Some: "missing (Some s) \<longleftrightarrow> s = []"
  by (simp add: missing_def)

lemma error_scan_spec:
  "error_scan cs pattern n bs =
     (if (\<exists>L. (bs \<noteq> 0 \<longrightarrow> L = bs) \<and> (\<forall>c \<in> set cs. \<not> missing c \<longrightarrow> length (the c) = L))
      then Inr (pattern @ map missing cs, n + length (filter missing cs)) else Inl Invalid_argument)"
proof (induction cs pattern n bs rule: error_scan.induct)
  case (1 pattern n bs)
  then show ?case by auto
next
  case (2 c cs pattern n bs)
  show ?case
  proof (cases "missing c")
    case True
    then show ?thesis
      using 2(1) by (auto simp: missing_def [of c, symmetric])
  next
    case False
    define bs' where "bs' = (if bs = 0 then length (the c) else bs)"
    have pos: "length (the c) \<noteq> 0" using False by (cases c) (auto simp: missing_def)
    then have "bs' \<noteq> 0" by (simp add: bs'_def)
    have step: "error_scan (c # cs) pattern n bs =
        (if bs' \<noteq> length (the c) then Inl Invalid_argument else error_scan cs (pattern @ [False]) n bs')"
      using False by (simp add: missing_def [of c, symmetric] bs'_def Let_def)
    show ?thesis
    proof (cases "bs' = length (the c)")
      case True
      then have "(\<exists>L. (bs' \<noteq> 0 \<longrightarrow> L = bs') \<and> (\<forall>c\<in>set cs. \<not> missing c \<longrightarrow> length (the c) = L)) \<longleftrightarrow>
          (\<exists>L. (bs \<noteq> 0 \<longrightarrow> L = bs) \<and> (\<forall>c\<in>set (c # cs). \<not> missing c \<longrightarrow> length (the c) = L))"
        using \<open>bs' \<noteq> 0\<close> False by (auto simp: bs'_def)
      moreover have "error_scan cs (pattern @ [False]) n bs' =
        (if (\<exists>L. (bs' \<noteq> 0 \<longrightarrow> L = bs') \<and> (\<forall>c\<in>set cs. \<not> missing c \<longrightarrow> length (the c) = L))
         then Inr ((pattern @ [False]) @ map missing cs, n + length (filter missing cs)) else Inl Invalid_argument)"
        using 2(2) False True by (simp add: missing_def [of c, symmetric] bs'_def)
      ultimately show ?thesis
        using True False by (simp only: step) auto
    next
      case False': False
      then have "\<not> (\<exists>L. (bs \<noteq> 0 \<longrightarrow> L = bs) \<and> (\<forall>c\<in>set (c # cs). \<not> missing c \<longrightarrow> length (the c) = L))"
        using False by (auto simp: bs'_def split: if_splits)
      then show ?thesis using False' by (simp only: step) simp
    qed
  qed
qed

lemma getErrorPattern_spec:
  "getErrorPattern rp cs =
     (if length cs = nData rp + nParity rp \<and> same_sizes cs \<and> length (filter missing cs) \<le> nParity rp
      then Inr (map missing cs) else Inl Invalid_argument)"
proof -
  have "(\<exists>L. \<forall>c\<in>set cs. \<not> missing c \<longrightarrow> length (the c) = L) \<longleftrightarrow> same_sizes cs"
    unfolding same_sizes_def by metis
  then show ?thesis
    by (simp add: getErrorPattern_def error_scan_spec not_less)
qed

lemma missing_count_map: "length (filter missing cs) = length (filter (\<lambda>i. map missing cs ! i) [0..<length cs])"
proof -
  have "length (filter missing cs) = length (filter missing (map (nth cs) [0..<length cs]))"
    by (simp only: map_nth)
  also have "\<dots> = length (filter (missing \<circ> nth cs) [0..<length cs])"
    by (simp add: filter_map)
  also have "filter (missing \<circ> nth cs) [0..<length cs] = filter (\<lambda>i. map missing cs ! i) [0..<length cs]"
    by (rule filter_cong) auto
  finally show ?thesis .
qed

subsection \<open>The rows used for decoding\<close>

lemma next_healthy_filter:
  "filter (\<lambda>i. \<not> pat ! i) [r..<length pat] =
     (if next_healthy pat r < length pat
      then next_healthy pat r # filter (\<lambda>i. \<not> pat ! i) [Suc (next_healthy pat r)..<length pat] else [])"
proof (induction pat r rule: next_healthy.induct)
  case (1 pat r)
  show ?case
  proof (cases "r < length pat")
    case True
    then show ?thesis
      using 1 by (cases "pat ! r") (simp_all add: next_healthy.simps [of pat r] upt_conv_Cons)
  next
    case False
    then show ?thesis by (simp add: next_healthy.simps [of pat r])
  qed
qed

lemma healthy_rows_eq:
  "k \<le> length (filter (\<lambda>i. \<not> pat ! i) [r..<length pat]) \<Longrightarrow>
     healthy_rows pat k r = take k (filter (\<lambda>i. \<not> pat ! i) [r..<length pat])"
proof (induction k arbitrary: r)
  case (Suc k)
  then show ?case
    using next_healthy_filter [of pat r] by (auto simp: Let_def split: if_splits)
qed simp

lemma healthy_count:
  "length (filter (\<lambda>i. \<not> pat ! i) [0..<length pat]) + length (filter (\<lambda>i. pat ! i) [0..<length pat]) = length pat"
  using sum_length_filter_compl [of "\<lambda>i. pat ! i" "[0..<length pat]"] by simp

lemma first_valid_healthy:
  assumes "\<exists>i < length pat. \<not> pat ! i"
  shows "first_valid pat < length pat \<and> \<not> pat ! first_valid pat"
proof -
  have "filter (\<lambda>i. \<not> pat ! i) [0..<length pat] \<noteq> []"
    using assms by (auto simp: filter_empty_conv)
  then have "next_healthy pat 0 < length pat"
    "next_healthy pat 0 \<in> set (filter (\<lambda>i. \<not> pat ! i) [0..<length pat])"
    using next_healthy_filter [of pat 0] by (auto split: if_splits)
  then show ?thesis by (simp add: first_valid_def)
qed

subsection \<open>Sums over the field\<close>

lemma xor_sum_cong: "(\<And>j. j < n \<Longrightarrow> f j = g j) \<Longrightarrow> xor_sum n f = xor_sum n g"
  by (induction n) auto

lemma xor_sum_zero [simp]: "xor_sum n (\<lambda>j. 0) = 0"
  by (induction n) auto

lemma xor_sum_xor: "xor_sum n (\<lambda>j. f j XOR g j) = xor_sum n f XOR xor_sum n g"
  by (induction n) (simp_all add: xor.assoc xor.left_commute)

lemma xor_sum_swap: "xor_sum n (\<lambda>i. xor_sum m (\<lambda>j. f i j)) = xor_sum m (\<lambda>j. xor_sum n (\<lambda>i. f i j))"
  by (induction n) (simp_all add: xor_sum_xor)

lemma xor_sum_single:
  "i < n \<Longrightarrow> (\<And>j. j < n \<Longrightarrow> j \<noteq> i \<Longrightarrow> f j = 0) \<Longrightarrow> xor_sum n f = f i"
proof (induction n)
  case (Suc n)
  show ?case
  proof (cases "i = n")
    case True
    have "xor_sum n f = xor_sum n (\<lambda>j. 0)"
      by (rule xor_sum_cong) (use Suc.prems(2) True in auto)
    then show ?thesis using True by simp
  next
    case False
    then show ?thesis using Suc by simp
  qed
qed simp

subsection \<open>What the erasure coding library promises\<close>

definition gf_ring :: "isal \<Rightarrow> bool" where
  "gf_ring lib \<longleftrightarrow>
     (\<forall>x y. gf_mul lib x y = gf_mul lib y x) \<and>
     (\<forall>x y z. gf_mul lib (gf_mul lib x y) z = gf_mul lib x (gf_mul lib y z)) \<and>
     (\<forall>x y z. gf_mul lib x (y XOR z) = gf_mul lib x y XOR gf_mul lib x z) \<and>
     (\<forall>x. gf_mul lib 1 x = x)"

text \<open>A successful inversion returns the inverse of the matrix.\<close>

definition gf_inverts :: "isal \<Rightarrow> nat \<Rightarrow> bool" where
  "gf_inverts lib k \<longleftrightarrow>
     (\<forall>b inv. length b = k * k \<longrightarrow> gf_invert_matrix lib b k = Some inv \<longrightarrow> length inv = k * k \<and>
        (\<forall>i < k. \<forall>l < k. xor_sum k (\<lambda>j. gf_mul lib (inv ! (k * i + j)) (b ! (k * j + l))) =
                           (if i = l then 1 else 0)))"

text \<open>The generated matrix starts with the identity, and every choice of \<open>k\<close> of its rows can be
  inverted.\<close>

definition gf_cauchy :: "isal \<Rightarrow> nat \<Rightarrow> nat \<Rightarrow> bool" where
  "gf_cauchy lib k m \<longleftrightarrow>
     (let enc = gf_gen_cauchy1_matrix lib m k
      in length enc = m * k \<and>
         (\<forall>i < k. \<forall>j < k. enc ! (k * i + j) = (if i = j then 1 else 0)) \<and>
         (\<forall>rows. length rows = k \<longrightarrow> sorted_wrt (<) rows \<longrightarrow> (\<forall>r \<in> set rows. r < m) \<longrightarrow>
            gf_invert_matrix lib (concat (map (matrix_row enc k) rows)) k \<noteq> None))"

text \<open>Encoding with initialised tables multiplies the source blocks by the matrix.\<close>

definition ec_encodes :: "isal \<Rightarrow> nat \<Rightarrow> bool" where
  "ec_encodes lib k \<longleftrightarrow>
     (\<forall>len rows a buf src. 0 < len \<longrightarrow> rows * k \<le> length a \<longrightarrow> 32 * k * rows \<le> length buf \<longrightarrow>
        length src = k \<longrightarrow> (\<forall>s \<in> set src. int (length s) = len) \<longrightarrow>
        ec_encode_data lib len k rows (ec_init_tables lib k rows a buf) src =
          map (\<lambda>r. map (\<lambda>i. xor_sum k (\<lambda>j. gf_mul lib (a ! (k * r + j)) (src ! j ! i)))
                     [0..<nat len]) [0..<rows])"

definition isal_ok :: "isal \<Rightarrow> nat \<Rightarrow> nat \<Rightarrow> bool" where
  "isal_ok lib k m \<longleftrightarrow> gf_ring lib \<and> gf_inverts lib k \<and> gf_cauchy lib k m \<and> ec_encodes lib k"

lemma gf_ring_laws:
  assumes "gf_ring lib"
  shows gf_mul_commute: "gf_mul lib x y = gf_mul lib y x"
    and gf_mul_assoc: "gf_mul lib x (gf_mul lib y z) = gf_mul lib (gf_mul lib x y) z"
    and gf_mul_xor: "gf_mul lib x (y XOR z) = gf_mul lib x y XOR gf_mul lib x z"
    and gf_mul_one: "gf_mul lib 1 x = x"
proof -
  note laws = assms [unfolded gf_ring_def]
  show "gf_mul lib x y = gf_mul lib y x"
    by (rule laws [THEN conjunct1, THEN spec, THEN spec])
  show "gf_mul lib x (gf_mul lib y z) = gf_mul lib (gf_mul lib x y) z"
    by (rule laws [THEN conjunct2, THEN conjunct1, THEN spec, THEN spec, THEN spec, symmetric])
  show "gf_mul lib x (y XOR z) = gf_mul lib x y XOR gf_mul lib x z"
    by (rule laws [THEN conjunct2, THEN conjunct2, THEN conjunct1, THEN spec, THEN spec, THEN spec])
  show "gf_mul lib 1 x = x"
    by (rule laws [THEN conjunct2, THEN conjunct2, THEN conjunct2, THEN spec])
qed

lemma gf_mul_zero: "gf_ring lib \<Longrightarrow> gf_mul lib x 0 = 0"
  using gf_mul_xor [of lib x 0 0] by simp

lemma gf_mul_zero_left: "gf_ring lib \<Longrightarrow> gf_mul lib 0 x = 0"
  using gf_mul_zero [of lib x] gf_mul_commute [of lib 0 x] by simp

lemma gf_mul_sum:
  "gf_ring lib \<Longrightarrow> gf_mul lib x (xor_sum n f) = xor_sum n (\<lambda>j. gf_mul lib x (f j))"
  by (induction n) (simp_all add: gf_mul_zero gf_mul_xor)

lemma gf_mul_sum_right:
  assumes "gf_ring lib"
  shows "gf_mul lib (xor_sum n f) x = xor_sum n (\<lambda>j. gf_mul lib (f j) x)"
  using gf_mul_sum [OF assms, of x n f]
  by (simp only: gf_mul_commute [OF assms, of x])

text \<open>The inverse of the used rows recovers the data.\<close>

lemma gf_solve:
  assumes ring: "gf_ring lib" and "l < k"
    and inv: "\<And>i l. i < k \<Longrightarrow> l < k \<Longrightarrow>
      xor_sum k (\<lambda>j. gf_mul lib (V i j) (B j l)) = (if i = l then 1 else 0)"
  shows "xor_sum k (\<lambda>j. gf_mul lib (V l j) (xor_sum k (\<lambda>h. gf_mul lib (B j h) (d h)))) = d l"
proof -
  have "xor_sum k (\<lambda>j. gf_mul lib (V l j) (xor_sum k (\<lambda>h. gf_mul lib (B j h) (d h)))) =
      xor_sum k (\<lambda>j. xor_sum k (\<lambda>h. gf_mul lib (gf_mul lib (V l j) (B j h)) (d h)))"
    using ring by (simp add: gf_mul_sum gf_mul_assoc)
  also have "\<dots> = xor_sum k (\<lambda>h. gf_mul lib (xor_sum k (\<lambda>j. gf_mul lib (V l j) (B j h))) (d h))"
    using ring by (subst xor_sum_swap) (simp add: gf_mul_sum_right)
  also have "\<dots> = xor_sum k (\<lambda>h. gf_mul lib (if l = h then 1 else 0) (d h))"
    by (rule xor_sum_cong) (simp add: inv \<open>l < k\<close>)
  also have "\<dots> = gf_mul lib (if l = l then 1 else 0) (d l)"
    by (rule xor_sum_single) (use \<open>l < k\<close> ring in \<open>auto simp: gf_mul_zero_left\<close>)
  also have "\<dots> = d l" using ring by (simp add: gf_mul_one)
  finally show ?thesis .
qed

lemma gf_solve_parity:
  assumes ring: "gf_ring lib"
    and inv: "\<And>i l. i < k \<Longrightarrow> l < k \<Longrightarrow>
      xor_sum k (\<lambda>j. gf_mul lib (V i j) (B j l)) = (if i = l then 1 else 0)"
  shows "xor_sum k (\<lambda>i. gf_mul lib (xor_sum k (\<lambda>j. gf_mul lib (V j i) (E j)))
           (xor_sum k (\<lambda>h. gf_mul lib (B i h) (d h)))) = xor_sum k (\<lambda>j. gf_mul lib (E j) (d j))"
proof -
  let ?c = "\<lambda>i. xor_sum k (\<lambda>h. gf_mul lib (B i h) (d h))"
  have swap: "gf_mul lib (gf_mul lib (V j i) (E j)) (?c i) = gf_mul lib (E j) (gf_mul lib (V j i) (?c i))" for i j
    using gf_mul_commute [OF ring] gf_mul_assoc [OF ring] by metis
  have "xor_sum k (\<lambda>i. gf_mul lib (xor_sum k (\<lambda>j. gf_mul lib (V j i) (E j))) (?c i)) =
      xor_sum k (\<lambda>i. xor_sum k (\<lambda>j. gf_mul lib (E j) (gf_mul lib (V j i) (?c i))))"
    using ring by (simp only: gf_mul_sum_right swap)
  also have "\<dots> = xor_sum k (\<lambda>j. gf_mul lib (E j) (xor_sum k (\<lambda>i. gf_mul lib (V j i) (?c i))))"
    using ring by (subst xor_sum_swap) (simp only: gf_mul_sum)
  also have "\<dots> = xor_sum k (\<lambda>j. gf_mul lib (E j) (d j))"
    by (rule xor_sum_cong) (simp only: gf_solve [OF ring _ inv])
  finally show ?thesis .
qed

subsection \<open>Rows of flattened matrices\<close>

lemma concat_rows_nth:
  assumes "\<And>r. r \<in> set rows \<Longrightarrow> length (f r) = k" and "e < length rows" and "j < k"
  shows "concat (map f rows) ! (k * e + j) = f (rows ! e) ! j"
  using assms
proof (induction rows arbitrary: e)
  case (Cons r rows)
  show ?case
  proof (cases e)
    case 0
    then show ?thesis using Cons.prems by (simp add: nth_append)
  next
    case (Suc e')
    then have "concat (map f rows) ! (k * e' + j) = f (rows ! e') ! j"
      using Cons.prems by (intro Cons.IH) auto
    then show ?thesis using Suc Cons.prems(1) [of r] by (simp add: nth_append)
  qed
qed simp

lemma length_concat_rows:
  "(\<And>r. r \<in> set rows \<Longrightarrow> length (f r) = k) \<Longrightarrow> length (concat (map f rows)) = k * length rows"
  by (induction rows) auto

lemma matrix_row_nth:
  assumes "(r + 1) * k \<le> length mat" and "j < k"
  shows "length (matrix_row mat k r) = k" and "matrix_row mat k r ! j = mat ! (k * r + j)"
  using assms by (auto simp: matrix_row_def algebra_simps)

lemma row_end_le: "r < m \<Longrightarrow> (r + 1) * k \<le> m * (k :: nat)"
  by (rule mult_le_mono1) simp

subsection \<open>Bytes and characters\<close>

lemma of_char_of_unat: "of_char (char_of (unat b)) = (b :: byte)"
proof -
  have "of_char (char_of (unat b)) = (of_nat (of_char (char_of (unat b))) :: byte)" by (simp only: of_nat_of_char)
  also have "of_char (char_of (unat b)) = unat b"
    using unsigned_less [where 'a = nat, of b] by simp
  finally show ?thesis by simp
qed

lemma char_of_unat_of_char: "char_of (unat (of_char c :: byte)) = c"
proof -
  have "(of_char c :: byte) = of_nat (of_char c)" by (simp only: of_nat_of_char)
  moreover have "(of_char c :: nat) < 256" by simp
  ultimately have "unat (of_char c :: byte) = of_char c"
    by (simp add: unat_of_nat)
  then show ?thesis by simp
qed

lemma bytes_of_string_of_bytes [simp]: "bytes_of (string_of_bytes bs) = bs"
  by (simp add: bytes_of_def string_of_bytes_def of_char_of_unat comp_def)

lemma string_of_bytes_bytes_of [simp]: "string_of_bytes (bytes_of s) = s"
  by (simp add: bytes_of_def string_of_bytes_def char_of_unat_of_char comp_def)

lemma length_bytes_of [simp]: "length (bytes_of s) = length s"
  by (simp add: bytes_of_def)

lemma length_string_of_bytes [simp]: "length (string_of_bytes bs) = length bs"
  by (simp add: string_of_bytes_def)

subsection \<open>Code words\<close>

text \<open>The chunk in row \<open>r\<close> of the stripe that belongs to the data chunks \<open>ds\<close>.\<close>

definition code_row :: "isal \<Rightarrow> byte list \<Rightarrow> nat \<Rightarrow> string list \<Rightarrow> nat \<Rightarrow> byte list" where
  "code_row lib enc k ds r =
     map (\<lambda>i. xor_sum k (\<lambda>j. gf_mul lib (enc ! (k * r + j)) (bytes_of (ds ! j) ! i))) [0..<length (hd ds)]"

definition encode :: "isal \<Rightarrow> redundancy_provider \<Rightarrow> string list \<Rightarrow> string list" where
  "encode lib rp ds =
     (if nParity rp = 0 then ds
      else if nData rp = 1 then replicate (nData rp + nParity rp) (hd ds)
      else map (\<lambda>r. string_of_bytes (code_row lib (encode_matrix rp) (nData rp) ds r))
             [0..<nData rp + nParity rp])"

text \<open>\<open>s\<close> is the stripe \<open>cw\<close> with some chunks missing.\<close>

definition erased :: "stripe \<Rightarrow> string list \<Rightarrow> bool" where
  "erased s cw \<longleftrightarrow> length s = length cw \<and> (\<forall>i < length cw. missing (s ! i) \<or> s ! i = Some (cw ! i))"

lemma insert_computed_erased:
  assumes "length s = length cw" and "\<And>i. i < length cw \<Longrightarrow> missing (s ! i) \<or> s ! i = Some (cw ! i)"
  shows "insert_computed s (map missing s) (map snd (filter (\<lambda>p. missing (fst p)) (zip s cw))) = map Some cw"
  using assms
proof (induction s cw rule: list_induct2)
  case (Cons c s w cw)
  have "insert_computed s (map missing s) (map snd (filter (\<lambda>p. missing (fst p)) (zip s cw))) = map Some cw"
    using Cons.prems [of "Suc i" for i] by (intro Cons.IH) auto
  then show ?case using Cons.prems [of 0] by (cases "missing c") auto
qed simp

lemma erased_selection:
  assumes "length s = length cw"
  shows "map snd (filter (\<lambda>p. missing (fst p)) (zip s cw)) =
         map (nth cw) (filter (\<lambda>i. map missing s ! i) [0..<length s])"
proof -
  have "zip s cw = map (\<lambda>i. (s ! i, cw ! i)) [0..<length s]"
    using assms by (intro nth_equalityI) auto
  then have "map snd (filter (\<lambda>p. missing (fst p)) (zip s cw)) =
      map (nth cw) (filter (\<lambda>i. missing (s ! i)) [0..<length s])"
    by (simp add: filter_map comp_def)
  also have "filter (\<lambda>i. missing (s ! i)) [0..<length s] = filter (\<lambda>i. map missing s ! i) [0..<length s]"
    by (rule filter_cong) auto
  finally show ?thesis .
qed

lemma erased_same_sizes:
  assumes "erased s cw" and "\<And>c. c \<in> set cw \<Longrightarrow> length c = L"
  shows "same_sizes s"
proof -
  have "length (the c) = L" if c: "c \<in> set s" "\<not> missing c" for c
  proof -
    obtain i where "i < length s" "c = s ! i" using c(1) by (auto simp: in_set_conv_nth)
    then show ?thesis using assms c(2) by (auto simp: erased_def)
  qed
  then show ?thesis by (simp add: same_sizes_def)
qed

lemma code_row_data:
  assumes "gf_ring lib" and "r < k" and "\<And>i j. i < k \<Longrightarrow> j < k \<Longrightarrow> enc ! (k * i + j) = (if i = j then 1 else 0)"
    and "\<And>d. d \<in> set ds \<Longrightarrow> length d = L" and "length ds = k"
  shows "code_row lib enc k ds r = bytes_of (ds ! r)"
proof -
  have L: "length (hd ds) = L" "length (ds ! r) = L"
    by (metis assms(2,4,5) hd_in_set length_0_conv not_less0) (metis assms(2,4,5) nth_mem)
  have "xor_sum k (\<lambda>j. gf_mul lib (enc ! (k * r + j)) (bytes_of (ds ! j) ! i)) =
      gf_mul lib (enc ! (k * r + r)) (bytes_of (ds ! r) ! i)" for i
    by (rule xor_sum_single) (simp_all add: assms(2,3) gf_mul_zero_left [OF assms(1)])
  then have "xor_sum k (\<lambda>j. gf_mul lib (enc ! (k * r + j)) (bytes_of (ds ! j) ! i)) = bytes_of (ds ! r) ! i" for i
    by (simp add: assms(2,3) gf_mul_one [OF assms(1)])
  then show ?thesis
    unfolding code_row_def L(1) by (intro nth_equalityI) (auto simp: L(2))
qed

lemma code_row_nth:
  "i < length (hd ds) \<Longrightarrow>
     code_row lib enc k ds r ! i = xor_sum k (\<lambda>j. gf_mul lib (enc ! (k * r + j)) (bytes_of (ds ! j) ! i))"
  by (simp add: code_row_def)

lemma length_code_row [simp]: "length (code_row lib enc k ds r) = length (hd ds)"
  by (simp add: code_row_def)

text \<open>Data chunks come first in the list of erased chunks.\<close>

lemma errors_split:
  fixes pat :: "bool list" and k :: nat
  assumes "e < length (filter (\<lambda>i. pat ! i) [0..<n])"
  defines "errs \<equiv> filter (\<lambda>i. pat ! i) [0..<n]"
  shows "e < length (filter (\<lambda>i. i < k) errs) \<longleftrightarrow> errs ! e < k"
proof -
  have srt: "sorted_wrt (<) errs" unfolding errs_def by (intro sorted_wrt_filter) simp
  have split_k: "errs = filter (\<lambda>i. i < k) errs @ filter (\<lambda>i. \<not> i < k) errs"
    using srt
  proof (induction errs)
    case (Cons a es)
    show ?case
    proof (cases "a < k")
      case True
      then show ?thesis using Cons by simp
    next
      case False
      then have "filter (\<lambda>i. i < k) es = []" using Cons.prems by (auto simp: filter_empty_conv)
      then show ?thesis using False Cons by simp
    qed
  qed simp
  have e: "e < length errs" using assms by simp
  show ?thesis
  proof (cases "e < length (filter (\<lambda>i. i < k) errs)")
    case True
    then have "errs ! e = filter (\<lambda>i. i < k) errs ! e" by (subst split_k) (simp add: nth_append)
    with True show ?thesis by (metis (mono_tags, lifting) mem_Collect_eq nth_mem set_filter)
  next
    case False
    then have "errs ! e = filter (\<lambda>i. \<not> i < k) errs ! (e - length (filter (\<lambda>i. i < k) errs))"
      by (subst split_k) (simp add: nth_append)
    moreover have "e - length (filter (\<lambda>i. i < k) errs) < length (filter (\<lambda>i. \<not> i < k) errs)"
      using e False sum_length_filter_compl [of "\<lambda>i. i < k" errs] by simp
    ultimately show ?thesis
      using False by (metis (mono_tags, lifting) mem_Collect_eq nth_mem set_filter)
  qed
qed

text \<open>The rows of the decode matrix turn the healthy chunks into the erased ones.\<close>

lemma decode_row_recovers:
  assumes ring: "gf_ring lib" and "0 < k" and len: "length enc = m * k" "length im = k * k"
    and id: "\<And>i j. i < k \<Longrightarrow> j < k \<Longrightarrow> enc ! (k * i + j) = (if i = j then 1 else 0)"
    and idx: "length idx = k" "\<And>r. r \<in> set idx \<Longrightarrow> r < m"
    and inv: "\<And>i l. i < k \<Longrightarrow> l < k \<Longrightarrow>
      xor_sum k (\<lambda>j. gf_mul lib (im ! (k * i + j)) (concat (map (matrix_row enc k) idx) ! (k * j + l))) =
      (if i = l then 1 else 0)"
    and ds: "length ds = k" "\<And>d. d \<in> set ds \<Longrightarrow> length d = L" and "i < L"
    and e: "errs ! e < m" "e < nsrc \<longleftrightarrow> errs ! e < k"
  shows "xor_sum k (\<lambda>j. gf_mul lib (decode_row lib enc im k errs nsrc e ! j) (code_row lib enc k ds (idx ! j) ! i))
     = code_row lib enc k ds (errs ! e) ! i"
proof -
  define d where "d h = bytes_of (ds ! h) ! i" for h
  define B where "B j l = enc ! (k * (idx ! j) + l)" for j l
  have L: "length (hd ds) = L"
    using \<open>0 < k\<close> ds by (metis hd_in_set length_greater_0_conv)
  have B: "concat (map (matrix_row enc k) idx) ! (k * j + l) = B j l" if "j < k" "l < k" for j l
  proof -
    have "length (matrix_row enc k r) = k" if "r \<in> set idx" for r
      using matrix_row_nth(1) [OF _ \<open>l < k\<close>] row_end_le [OF idx(2) [OF that]] len(1) by simp
    then have "concat (map (matrix_row enc k) idx) ! (k * j + l) = matrix_row enc k (idx ! j) ! l"
      using that idx(1) by (intro concat_rows_nth) auto
    also have "\<dots> = B j l"
      unfolding B_def using that idx len(1) row_end_le [of "idx ! j" m k]
      by (intro matrix_row_nth(2)) auto
    finally show ?thesis .
  qed
  have src: "code_row lib enc k ds (idx ! j) ! i = xor_sum k (\<lambda>h. gf_mul lib (B j h) (d h))" for j
    unfolding B_def d_def using \<open>i < L\<close> L by (simp add: code_row_nth)
  have inv': "xor_sum k (\<lambda>j. gf_mul lib (im ! (k * a + j)) (B j l)) = (if a = l then 1 else 0)"
    if "a < k" "l < k" for a l
  proof -
    have "xor_sum k (\<lambda>j. gf_mul lib (im ! (k * a + j)) (B j l)) =
      xor_sum k (\<lambda>j. gf_mul lib (im ! (k * a + j)) (concat (map (matrix_row enc k) idx) ! (k * j + l)))"
      by (rule xor_sum_cong) (simp add: B that)
    then show ?thesis using inv [OF that] by simp
  qed
  have out: "code_row lib enc k ds (errs ! e) ! i = xor_sum k (\<lambda>j. gf_mul lib (enc ! (k * errs ! e + j)) (d j))"
    unfolding d_def using \<open>i < L\<close> L by (simp add: code_row_nth)
  show ?thesis
  proof (cases "e < nsrc")
    case True
    then have lt: "errs ! e < k" using e by simp
    have row: "decode_row lib enc im k errs nsrc e ! j = im ! (k * errs ! e + j)" if "j < k" for j
      using True that row_end_le [OF lt, of k] len(2)
      by (simp add: decode_row_def matrix_row_nth(2))
    have "xor_sum k (\<lambda>j. gf_mul lib (decode_row lib enc im k errs nsrc e ! j) (code_row lib enc k ds (idx ! j) ! i))
        = xor_sum k (\<lambda>j. gf_mul lib (im ! (k * errs ! e + j)) (xor_sum k (\<lambda>h. gf_mul lib (B j h) (d h))))"
      by (rule xor_sum_cong) (simp add: row src)
    also have "\<dots> = d (errs ! e)"
      by (rule gf_solve [OF ring lt, where V = "\<lambda>a j. im ! (k * a + j)"]) (rule inv')
    also have "\<dots> = code_row lib enc k ds (errs ! e) ! i"
      using code_row_data [OF ring lt id ds(2,1)] by (simp add: d_def)
    finally show ?thesis .
  next
    case False
    have row: "decode_row lib enc im k errs nsrc e ! j =
        xor_sum k (\<lambda>h. gf_mul lib (im ! (k * h + j)) (enc ! (k * errs ! e + h)))" if "j < k" for j
      using False that by (simp add: decode_row_def mult.commute)
    have "xor_sum k (\<lambda>j. gf_mul lib (decode_row lib enc im k errs nsrc e ! j) (code_row lib enc k ds (idx ! j) ! i))
        = xor_sum k (\<lambda>j. gf_mul lib (xor_sum k (\<lambda>h. gf_mul lib (im ! (k * h + j)) (enc ! (k * errs ! e + h))))
            (xor_sum k (\<lambda>h. gf_mul lib (B j h) (d h))))"
      by (rule xor_sum_cong) (simp add: row src)
    also have "\<dots> = xor_sum k (\<lambda>j. gf_mul lib (enc ! (k * errs ! e + j)) (d j))"
      by (rule gf_solve_parity [OF ring, where V = "\<lambda>a j. im ! (k * a + j)"]) (rule inv')
    finally show ?thesis by (simp add: out)
  qed
qed

subsection \<open>The cache is transparent\<close>

definition fresh_table :: "isal \<Rightarrow> redundancy_provider \<Rightarrow> bool list \<Rightarrow> CodingTable res" where
  "fresh_table lib rp pattern = snd (getCodingTable lib (rp\<lparr>cache := (\<lambda>p. None)\<rparr>) pattern)"

definition cache_ok :: "isal \<Rightarrow> redundancy_provider \<Rightarrow> bool" where
  "cache_ok lib rp \<longleftrightarrow> (\<forall>pat dd. cache rp pat = Some dd \<longrightarrow> fresh_table lib rp pat = Inr dd)"

lemma fresh_table_cache: "fresh_table lib (rp\<lparr>cache := c\<rparr>) pat = fresh_table lib rp pat"
  by (simp add: fresh_table_def)

lemma getCodingTable_cases:
  "getCodingTable lib rp pat =
     (case cache rp pat of
        Some dd \<Rightarrow> (rp, Inr dd)
      | None \<Rightarrow>
          (case fresh_table lib rp pat of
             Inl e \<Rightarrow> (rp, Inl e)
           | Inr dd \<Rightarrow> (rp\<lparr>cache := (cache rp)(pat \<mapsto> dd)\<rparr>, Inr dd)))"
  by (simp add: getCodingTable_def fresh_table_def Let_def split: option.splits sum.splits prod.splits)

lemma getCodingTable_transparent:
  assumes "cache_ok lib rp" and "getCodingTable lib rp pat = (rp', r)"
  shows "r = fresh_table lib rp pat" and "\<exists>c. rp' = rp\<lparr>cache := c\<rparr>" and "cache_ok lib rp'"
proof -
  show "r = fresh_table lib rp pat"
    using assms by (auto simp: getCodingTable_cases cache_ok_def split: option.splits sum.splits)
  have "rp' = rp \<or> (\<exists>c. rp' = rp\<lparr>cache := c\<rparr>)"
    using assms(2) by (auto simp: getCodingTable_cases split: option.splits sum.splits)
  moreover have "rp = rp\<lparr>cache := cache rp\<rparr>" by simp
  ultimately show "\<exists>c. rp' = rp\<lparr>cache := c\<rparr>" by metis
  show "cache_ok lib rp'"
    using assms
    by (auto simp: getCodingTable_cases cache_ok_def fresh_table_cache split: option.splits sum.splits if_splits)
qed

subsection \<open>Recovery\<close>

text \<open>A provider in working order: at least one data chunk, at most 255 chunks, the generated
  encode matrix, a coherent cache and, where erasure coding is used, a library that behaves as
  documented.\<close>

definition rp_ok :: "isal \<Rightarrow> redundancy_provider \<Rightarrow> bool" where
  "rp_ok lib rp \<longleftrightarrow>
     0 < nData rp \<and> nData rp + nParity rp \<le> 255 \<and>
     encode_matrix rp = gf_gen_cauchy1_matrix lib (nData rp + nParity rp) (nData rp) \<and>
     cache_ok lib rp \<and>
     (0 < nParity rp \<longrightarrow> nData rp \<noteq> 1 \<longrightarrow> isal_ok lib (nData rp) (nData rp + nParity rp))"

lemma rp_ok_cache: "rp_ok lib rp \<Longrightarrow> cache_ok lib (rp\<lparr>cache := c\<rparr>) \<Longrightarrow> rp_ok lib (rp\<lparr>cache := c\<rparr>)"
  by (simp add: rp_ok_def)

lemma encode_cache [simp]: "encode lib (rp\<lparr>cache := c\<rparr>) = encode lib rp"
  by (rule ext) (simp add: encode_def)

lemma length_encode:
  "rp_ok lib rp \<Longrightarrow> length ds = nData rp \<Longrightarrow> length (encode lib rp ds) = nData rp + nParity rp"
  by (simp add: encode_def)

lemma encode_data:
  assumes "rp_ok lib rp" and "length ds = nData rp" and "\<And>d. d \<in> set ds \<Longrightarrow> length d = L" and "i < nData rp"
  shows "encode lib rp ds ! i = ds ! i"
proof -
  consider "nParity rp = 0" | "0 < nParity rp" "nData rp = 1" | "0 < nParity rp" "nData rp \<noteq> 1" by auto
  then show ?thesis
  proof cases
    case 2
    then show ?thesis using assms(2,4) by (cases ds) (simp_all add: encode_def)
  next
    case 3
    then have "isal_ok lib (nData rp) (nData rp + nParity rp)"
      and enc: "encode_matrix rp = gf_gen_cauchy1_matrix lib (nData rp + nParity rp) (nData rp)"
      using assms(1) by (auto simp: rp_ok_def)
    then have "code_row lib (encode_matrix rp) (nData rp) ds i = bytes_of (ds ! i)"
      by (intro code_row_data [OF _ assms(4) _ assms(3,2)]) (auto simp: isal_ok_def gf_cauchy_def Let_def)
    then show ?thesis using 3 assms(4) by (simp add: encode_def)
  qed (simp add: encode_def)
qed

lemma length_encode_chunk:
  assumes "rp_ok lib rp" and "length ds = nData rp" and "\<And>d. d \<in> set ds \<Longrightarrow> length d = L"
    and "c \<in> set (encode lib rp ds)"
  shows "length c = L"
proof -
  have "0 < nData rp" using assms(1) by (simp add: rp_ok_def)
  then have "length (hd ds) = L" using assms(2,3) by (metis hd_in_set length_greater_0_conv)
  then show ?thesis using assms(3,4) by (auto simp: encode_def split: if_splits)
qed

text \<open>The coding table of an error pattern that leaves enough chunks.\<close>

lemma fresh_table_ok:
  assumes ok: "rp_ok lib rp" and coding: "0 < nParity rp" "nData rp \<noteq> 1"
    and pat: "length pat = nData rp + nParity rp"
    and few: "length (filter (\<lambda>i. pat ! i) [0..<length pat]) \<le> nParity rp"
  defines "idx \<equiv> take (nData rp) (filter (\<lambda>i. \<not> pat ! i) [0..<length pat])"
    and "errs \<equiv> filter (\<lambda>i. pat ! i) [0..<length pat]"
  obtains im where
    "gf_invert_matrix lib (concat (map (matrix_row (encode_matrix rp) (nData rp)) idx)) (nData rp) = Some im"
    "fresh_table lib rp pat = Inr
      \<lparr>table = ec_init_tables lib (nData rp) (length errs)
        (concat (map (decode_row lib (encode_matrix rp) im (nData rp) errs (length (filter (\<lambda>i. i < nData rp) errs)))
            [0..<length errs]) @ replicate ((nParity rp + nData rp) * nData rp - length errs * nData rp) 0)
        (replicate (nData rp * nParity rp * 32) 0),
       blockIndices = idx, nErrors = length errs\<rparr>"
proof -
  let ?k = "nData rp" let ?enc = "encode_matrix rp"
  have lib: "isal_ok lib ?k (?k + nParity rp)" "0 < ?k" "?k + nParity rp \<le> 255"
    and enc: "?enc = gf_gen_cauchy1_matrix lib (?k + nParity rp) ?k"
    using ok coding by (auto simp: rp_ok_def)
  have enough: "?k \<le> length (filter (\<lambda>i. \<not> pat ! i) [0..<length pat])"
    using healthy_count [of pat] few pat by simp
  then have rows: "healthy_rows pat ?k 0 = idx"
    unfolding idx_def by (rule healthy_rows_eq)
  have len: "length idx = ?k" using enough by (simp add: idx_def)
  have "sorted_wrt (<) (filter (\<lambda>i. \<not> pat ! i) [0..<length pat])"
    by (intro sorted_wrt_filter) simp
  then have srt: "sorted_wrt (<) idx" unfolding idx_def by (rule sorted_wrt_take)
  have bound: "\<And>r. r \<in> set idx \<Longrightarrow> r < ?k + nParity rp"
    unfolding idx_def pat [symmetric] by (auto dest!: in_set_takeD)
  obtain im where im: "gf_invert_matrix lib (concat (map (matrix_row ?enc ?k) idx)) ?k = Some im"
    using lib(1) len srt bound unfolding isal_ok_def gf_cauchy_def Let_def enc [symmetric] by blast
  then have retry: "invert_retry lib ?enc b errs ne ns ?k m (concat (map (matrix_row ?enc ?k) idx)) l 0 = Some (l, im)"
    for b ne ns m l by (simp add: invert_retry.simps)
  have "idx \<noteq> []" using len lib(2) by auto
  then have "idx[?k - 1 := last idx] = idx"
    using len by (metis last_conv_nth list_update_id)
  then have "gf_gen_decode_matrix lib ?enc errs pat ne ns ?k (nParity rp + ?k) =
      Inr (Some (concat (map (decode_row lib ?enc im ?k errs ns) [0..<ne])
        @ replicate ((nParity rp + ?k) * ?k - ne * ?k) 0, idx))" for ne ns
    using bound by (auto simp: gf_gen_decode_matrix_def rows retry Let_def not_le add.commute)
  note gen = this
  have "\<not> (255 < length pat \<or> nParity rp < length errs)"
    using few lib(3) pat by (simp add: errs_def)
  then show thesis
    by (intro that [OF im])
      (simp add: fresh_table_def getCodingTable_def Let_def errs_def [symmetric] gen)
qed

text \<open>Row \<open>e\<close> of a matrix that is laid out row by row and padded at its end.\<close>

lemma padded_rows_nth:
  assumes rows: "\<And>e. e < n \<Longrightarrow> length (row e) = k" and "e < n" "j < k"
  shows "(concat (map row [0..<n]) @ zs) ! (k * e + j) = row e ! j"
proof -
  have "k * e + j < k * n"
    using assms(2,3) mult_le_mono2 [of "Suc e" n k] by simp
  moreover have "length (concat (map row [0..<n])) = k * n"
    using length_concat_rows [of "[0..<n]" row k] rows by simp
  moreover have "concat (map row [0..<n]) ! (k * e + j) = row ([0..<n] ! e) ! j"
    using assms by (intro concat_rows_nth) auto
  ultimately show ?thesis using assms(2) by (simp add: nth_append)
qed

text \<open>Encoding with the table of a padded matrix: every output is the product of a row with the sources.\<close>

lemma encode_padded_table:
  assumes "ec_encodes lib k" and L: "0 < L" and rows: "\<And>e. e < n \<Longrightarrow> length (row e) = k" and few: "n \<le> p"
    and src: "length src = k" "\<And>b. b \<in> set src \<Longrightarrow> length b = L"
  shows "ec_encode_data lib (int L) k n
      (ec_init_tables lib k n (concat (map row [0..<n]) @ replicate ((p + k) * k - n * k) 0) (replicate (k * p * 32) 0)) src =
    map (\<lambda>e. map (\<lambda>i. xor_sum k (\<lambda>j. gf_mul lib (row e ! j) (src ! j ! i))) [0..<L]) [0..<n]"
proof -
  let ?D = "concat (map row [0..<n]) @ replicate ((p + k) * k - n * k) 0"
  have "n * k \<le> (p + k) * k" using few by (intro mult_le_mono1) simp
  moreover have "length ?D = n * k + ((p + k) * k - n * k)"
    using length_concat_rows [of "[0..<n]" row k] rows by (simp add: mult.commute)
  moreover have "32 * k * n \<le> length (replicate (k * p * 32) (0 :: byte))" using few by simp
  moreover have "\<forall>b \<in> set src. int (length b) = int L" "0 < int L" using src(2) L by auto
  ultimately have "ec_encode_data lib (int L) k n (ec_init_tables lib k n ?D (replicate (k * p * 32) 0)) src =
    map (\<lambda>e. map (\<lambda>i. xor_sum k (\<lambda>j. gf_mul lib (?D ! (k * e + j)) (src ! j ! i))) [0..<nat (int L)]) [0..<n]"
    using assms(1) src(1) unfolding ec_encodes_def by simp
  also have "\<dots> = map (\<lambda>e. map (\<lambda>i. xor_sum k (\<lambda>j. gf_mul lib (row e ! j) (src ! j ! i))) [0..<L]) [0..<n]"
    using padded_rows_nth [OF rows] by (auto intro!: xor_sum_cong)
  finally show ?thesis .
qed

text \<open>The inverse that the library computes of the chosen rows of the encode matrix.\<close>

lemma inverse_of_rows:
  assumes lib: "isal_ok lib k m" "0 < k" and len: "length enc = m * k"
    and idx: "length idx = k" "\<And>r. r \<in> set idx \<Longrightarrow> r < m"
    and im: "gf_invert_matrix lib (concat (map (matrix_row enc k) idx)) k = Some im"
  shows "length im = k * k"
    and "\<And>i l. i < k \<Longrightarrow> l < k \<Longrightarrow> xor_sum k (\<lambda>j. gf_mul lib (im ! (k * i + j))
       (concat (map (matrix_row enc k) idx) ! (k * j + l))) = (if i = l then 1 else 0)"
proof -
  have "length (matrix_row enc k r) = k" if "r \<in> set idx" for r
    using matrix_row_nth(1) [OF _ lib(2)] row_end_le [OF idx(2) [OF that], of k] len by simp
  then have "length (concat (map (matrix_row enc k) idx)) = k * k"
    using length_concat_rows [of idx "matrix_row enc k" k] idx(1) by simp
  moreover have "gf_inverts lib k" using lib(1) by (simp add: isal_ok_def)
  ultimately show "length im = k * k"
    "\<And>i l. i < k \<Longrightarrow> l < k \<Longrightarrow> xor_sum k (\<lambda>j. gf_mul lib (im ! (k * i + j))
       (concat (map (matrix_row enc k) idx) ! (k * j + l))) = (if i = l then 1 else 0)"
    using im unfolding gf_inverts_def by blast+
qed

text \<open>The first healthy chunks of an erased stripe are chunks of the code word.\<close>

lemma healthy_sources:
  assumes ok: "rp_ok lib rp" and ds: "length ds = nData rp"
    and er: "erased s (encode lib rp ds)" and few: "length (filter missing s) \<le> nParity rp"
  defines "pat \<equiv> map missing s"
  defines "idx \<equiv> take (nData rp) (filter (\<lambda>i. \<not> pat ! i) [0..<length pat])"
  shows "length pat = nData rp + nParity rp" "length (filter (\<lambda>i. pat ! i) [0..<length pat]) \<le> nParity rp"
    "length idx = nData rp" "idx \<noteq> []"
    "\<And>r. r \<in> set idx \<Longrightarrow> r < nData rp + nParity rp"
    "\<And>r. r \<in> set idx \<Longrightarrow> s ! r = Some (encode lib rp ds ! r)"
proof -
  show n: "length pat = nData rp + nParity rp"
    using er length_encode [OF ok ds] by (simp add: pat_def erased_def)
  show few': "length (filter (\<lambda>i. pat ! i) [0..<length pat]) \<le> nParity rp"
    using few missing_count_map [of s] by (simp add: pat_def)
  have "nData rp \<le> length (filter (\<lambda>i. \<not> pat ! i) [0..<length pat])"
    using healthy_count [of pat] few' n by simp
  then show idx: "length idx = nData rp" by (simp add: idx_def)
  show "idx \<noteq> []" using idx ok by (auto simp: rp_ok_def)
  have lt: "r < length pat" "\<not> pat ! r" if "r \<in> set idx" for r
    using that unfolding idx_def by (auto dest!: in_set_takeD)
  then show "r < nData rp + nParity rp" if "r \<in> set idx" for r using that n by simp
  show "s ! r = Some (encode lib rp ds ! r)" if "r \<in> set idx" for r
    using er lt [OF that] by (auto simp: erased_def pat_def)
qed

text \<open>The chunks computed from the healthy ones are the erased chunks of the code word.\<close>

lemma computed_chunks:
  assumes ok: "rp_ok lib rp" and coding: "0 < nParity rp" "nData rp \<noteq> 1"
    and ds: "length ds = nData rp" "\<And>d. d \<in> set ds \<Longrightarrow> length d = L" "0 < L" "L < 2 ^ 31"
    and er: "erased s (encode lib rp ds)" and few: "length (filter missing s) \<le> nParity rp"
  defines "pat \<equiv> map missing s"
  shows "\<exists>dd. fresh_table lib rp pat = Inr dd \<and> blockIndices dd \<noteq> [] \<and>
    ec_encode_data lib (to_int32 (int (length (the (s ! hd (blockIndices dd)))))) (nData rp) (nErrors dd) (table dd)
      (map (\<lambda>i. bytes_of (the (s ! i))) (blockIndices dd)) =
    map (\<lambda>i. bytes_of (encode lib rp ds ! i)) (filter (\<lambda>i. pat ! i) [0..<length pat])"
proof -
  let ?k = "nData rp" let ?enc = "encode_matrix rp" let ?m = "nData rp + nParity rp"
  define errs where "errs = filter (\<lambda>i. pat ! i) [0..<length pat]"
  define idx where "idx = take ?k (filter (\<lambda>i. \<not> pat ! i) [0..<length pat])"
  let ?ns = "length (filter (\<lambda>i. i < ?k) errs)"
  have lib: "isal_ok lib ?k ?m" "0 < ?k" and enc: "?enc = gf_gen_cauchy1_matrix lib ?m ?k"
    using ok coding by (auto simp: rp_ok_def)
  note src = healthy_sources [OF ok ds(1) er few, folded pat_def, folded idx_def errs_def]
  obtain im where im: "gf_invert_matrix lib (concat (map (matrix_row ?enc ?k) idx)) ?k = Some im"
    and tab: "fresh_table lib rp pat = Inr
      \<lparr>table = ec_init_tables lib ?k (length errs)
        (concat (map (decode_row lib ?enc im ?k errs ?ns) [0..<length errs])
          @ replicate ((nParity rp + ?k) * ?k - length errs * ?k) 0) (replicate (?k * nParity rp * 32) 0),
       blockIndices = idx, nErrors = length errs\<rparr>"
    using fresh_table_ok [OF ok coding src(1) src(2) [unfolded errs_def]] unfolding idx_def errs_def by blast
  let ?row = "decode_row lib ?enc im ?k errs ?ns"
  let ?src = "map (\<lambda>i. bytes_of (the (s ! i))) idx"
  have ring: "gf_ring lib" and len: "length ?enc = ?m * ?k" and ec: "ec_encodes lib ?k"
    and unit: "\<And>i j. i < ?k \<Longrightarrow> j < ?k \<Longrightarrow> ?enc ! (?k * i + j) = (if i = j then 1 else 0)"
    using lib(1) enc by (simp_all add: isal_ok_def gf_cauchy_def Let_def)
  note im_ok = inverse_of_rows [OF lib len src(3,5) im]
  have cw: "encode lib rp ds ! i = string_of_bytes (code_row lib ?enc ?k ds i)" if "i < ?m" for i
    using coding that by (simp add: encode_def)
  have errs: "errs ! e < ?m" "e < ?ns \<longleftrightarrow> errs ! e < ?k" if "e < length errs" for e
    using that errors_split [of e pat "length pat" ?k] nth_mem [OF that] src(1) by (auto simp: errs_def)
  have rows: "length (?row e) = ?k" if "e < length errs" for e
    using row_end_le [of "errs ! e" ?k ?k] errs(2) [OF that] im_ok(1) matrix_row_nth(1) [OF _ lib(2)]
    by (simp add: decode_row_def)
  have chunk: "length (the (s ! r)) = L" if "r \<in> set idx" for r
    using src(5,6) [OF that] length_encode_chunk [OF ok ds(1,2)] length_encode [OF ok ds(1)] by simp
  have row: "map (\<lambda>i. xor_sum ?k (\<lambda>j. gf_mul lib (?row e ! j) (?src ! j ! i))) [0..<L] =
      bytes_of (encode lib rp ds ! (errs ! e))" if e: "e < length errs" for e
  proof -
    have "xor_sum ?k (\<lambda>j. gf_mul lib (?row e ! j) (?src ! j ! i)) = code_row lib ?enc ?k ds (errs ! e) ! i"
      if "i < L" for i
    proof -
      have "xor_sum ?k (\<lambda>j. gf_mul lib (?row e ! j) (?src ! j ! i)) =
        xor_sum ?k (\<lambda>j. gf_mul lib (?row e ! j) (code_row lib ?enc ?k ds (idx ! j) ! i))"
        by (rule xor_sum_cong) (simp add: src(3,5,6) cw)
      also have "\<dots> = code_row lib ?enc ?k ds (errs ! e) ! i"
        by (rule decode_row_recovers [OF ring lib(2) len im_ok(1) unit src(3,5) im_ok(2) ds(1,2) that errs [OF e]])
      finally show ?thesis .
    qed
    moreover have "length (hd ds) = L" using ds(1,2) lib(2) by (metis hd_in_set length_greater_0_conv)
    ultimately show ?thesis by (intro nth_equalityI) (auto simp: cw errs(1) [OF e])
  qed
  have sizes: "length ?src = ?k" "\<And>b. b \<in> set ?src \<Longrightarrow> length b = L"
    using src(3) chunk by auto
  have "ec_encode_data lib (int L) ?k (length errs) (table (projr (fresh_table lib rp pat))) ?src =
      map (\<lambda>e. map (\<lambda>i. xor_sum ?k (\<lambda>j. gf_mul lib (?row e ! j) (?src ! j ! i))) [0..<L]) [0..<length errs]"
    unfolding tab using encode_padded_table [where row = ?row, OF ec ds(3) rows src(2) sizes] by simp
  also have "\<dots> = map (\<lambda>i. bytes_of (encode lib rp ds ! i)) errs"
    by (intro nth_equalityI) (simp_all add: row)
  finally show ?thesis
    using tab src(4) chunk [of "hd idx"] ds(4) by (simp add: errs_def [symmetric] to_int32_id)
qed

lemma getErrorPattern_erased:
  assumes "rp_ok lib rp" and "length ds = nData rp" and "\<And>d. d \<in> set ds \<Longrightarrow> length d = L"
    and "erased s (encode lib rp ds)" and "length (filter missing s) \<le> nParity rp"
  shows "getErrorPattern rp s = Inr (map missing s)"
proof -
  have "same_sizes s"
    using erased_same_sizes [OF assms(4), of L] length_encode_chunk [OF assms(1-3)] by blast
  then show ?thesis
    using assms(4,5) length_encode [OF assms(1,2)] by (simp add: getErrorPattern_spec erased_def)
qed

lemma replication_erased:
  assumes "erased s (replicate n d)" and "length (filter missing s) < n"
  shows "first_valid (map missing s) < length s \<and> replication s (map missing s) = map Some (replicate n d)"
proof -
  have len: "length s = n" using assms(1) by (simp add: erased_def)
  have "filter (\<lambda>c. \<not> missing c) s \<noteq> []"
    using assms(2) len sum_length_filter_compl [of missing s] by fastforce
  then obtain c where "c \<in> set s" "\<not> missing c" by (auto simp: filter_empty_conv)
  then have "\<exists>i < length (map missing s). \<not> map missing s ! i"
    by (auto simp: in_set_conv_nth)
  then have fv: "first_valid (map missing s) < length s" "\<not> missing (s ! first_valid (map missing s))"
    using first_valid_healthy [of "map missing s"] by auto
  then have "s ! first_valid (map missing s) = Some d"
    using assms(1) len by (auto simp: erased_def)
  then have "replication s (map missing s) = map Some (replicate n d)"
    using assms(1) len by (intro nth_equalityI) (auto simp: replication_def Let_def erased_def)
  with fv show ?thesis by simp
qed

lemma compute_recovers:
  assumes ok: "rp_ok lib rp"
    and ds: "length ds = nData rp" "\<And>d. d \<in> set ds \<Longrightarrow> length d = L" "0 < L" "L < 2 ^ 31"
    and er: "erased s (encode lib rp ds)" and few: "length (filter missing s) \<le> nParity rp"
  shows "\<exists>c. compute lib rp s = (rp\<lparr>cache := c\<rparr>, Inr (map Some (encode lib rp ds))) \<and> rp_ok lib (rp\<lparr>cache := c\<rparr>)"
proof -
  note pat = getErrorPattern_erased [OF ok ds(1,2) er few]
  have same: "rp = rp\<lparr>cache := cache rp\<rparr>" by simp
  consider "nParity rp = 0" | "0 < nParity rp" "nData rp = 1" | "0 < nParity rp" "nData rp \<noteq> 1" by auto
  then show ?thesis
  proof cases
    case 1
    then have "\<not> missing (s ! i)" if "i < length s" for i
      using few that by (auto simp: filter_empty_conv)
    then have "s = map Some (encode lib rp ds)"
      using er by (intro nth_equalityI) (auto simp: erased_def)
    then show ?thesis
      using 1 pat ok same by (intro exI [of _ "cache rp"]) (simp add: compute_def)
  next
    case 2
    then have "encode lib rp ds = replicate (nData rp + nParity rp) (hd ds)" by (simp add: encode_def)
    then show ?thesis
      using replication_erased [of s "nData rp + nParity rp" "hd ds"] 2 few er pat ok same
      by (intro exI [of _ "cache rp"]) (simp add: compute_def)
  next
    case 3
    let ?pat = "map missing s"
    from computed_chunks [OF ok 3 ds er few] obtain dd where dd:
      "fresh_table lib rp ?pat = Inr dd" "blockIndices dd \<noteq> []"
      "ec_encode_data lib (to_int32 (int (length (the (s ! hd (blockIndices dd)))))) (nData rp) (nErrors dd) (table dd)
        (map (\<lambda>i. bytes_of (the (s ! i))) (blockIndices dd)) =
       map (\<lambda>i. bytes_of (encode lib rp ds ! i)) (filter (\<lambda>i. ?pat ! i) [0..<length ?pat])"
      by blast
    obtain rp' r where get: "getCodingTable lib rp ?pat = (rp', r)" by fastforce
    have "cache_ok lib rp" using ok by (simp add: rp_ok_def)
    from getCodingTable_transparent [OF this get] obtain c where
      c: "r = Inr dd" "rp' = rp\<lparr>cache := c\<rparr>" "cache_ok lib (rp\<lparr>cache := c\<rparr>)"
      using dd(1) by auto
    have len: "length s = length (encode lib rp ds)" using er by (simp add: erased_def)
    have "insert_computed s ?pat (map (nth (encode lib rp ds)) (filter (\<lambda>i. ?pat ! i) [0..<length s])) =
        map Some (encode lib rp ds)"
      using insert_computed_erased [OF len] er erased_selection [OF len] by (simp add: erased_def)
    then have "compute lib rp s = (rp\<lparr>cache := c\<rparr>, Inr (map Some (encode lib rp ds)))"
      using 3 pat get c(1,2) dd(2,3) by (simp add: compute_def Let_def comp_def)
    then show ?thesis using rp_ok_cache [OF ok c(3)] by blast
  qed
qed

section \<open>The interface of a redundancy provider\<close>

text \<open>What the stripe operations and the cluster rely on: a stripe has \<open>nD + nP\<close> chunks of one size,
  the first \<open>nD\<close> of them are the data, and a stripe with at most \<open>nP\<close> missing chunks is completed.\<close>

locale redundancy_code =
  fixes invar :: "'r \<Rightarrow> bool" and nD nP :: "'r \<Rightarrow> nat"
    and comp :: "'r \<Rightarrow> stripe \<Rightarrow> 'r \<times> stripe res"
    and code :: "'r \<Rightarrow> string list \<Rightarrow> string list"
  assumes data_pos: "invar r \<Longrightarrow> 0 < nD r"
    and code_length: "invar r \<Longrightarrow> length ds = nD r \<Longrightarrow> length (code r ds) = nD r + nP r"
    and code_data: "invar r \<Longrightarrow> length ds = nD r \<Longrightarrow> (\<And>d. d \<in> set ds \<Longrightarrow> length d = L) \<Longrightarrow>
      i < nD r \<Longrightarrow> code r ds ! i = ds ! i"
    and code_size: "invar r \<Longrightarrow> length ds = nD r \<Longrightarrow> (\<And>d. d \<in> set ds \<Longrightarrow> length d = L) \<Longrightarrow>
      c \<in> set (code r ds) \<Longrightarrow> length c = L"
    and recover: "invar r \<Longrightarrow> length ds = nD r \<Longrightarrow> (\<And>d. d \<in> set ds \<Longrightarrow> length d = L) \<Longrightarrow>
      0 < L \<Longrightarrow> L < 2 ^ 31 \<Longrightarrow> erased s (code r ds) \<Longrightarrow> length (filter missing s) \<le> nP r \<Longrightarrow>
      \<exists>r'. comp r s = (r', Inr (map Some (code r ds))) \<and> invar r' \<and> nD r' = nD r \<and> nP r' = nP r \<and> code r' = code r"
begin

lemma code_take:
  assumes "invar r" and "length ds = nD r" and "\<And>d. d \<in> set ds \<Longrightarrow> length d = L"
  shows "take (nD r) (code r ds) = ds"
  by (rule nth_equalityI) (use assms code_length [OF assms(1,2)] code_data [OF assms] in auto)

text \<open>Filling in the parity chunks of a fresh stripe.\<close>

lemma add_parity:
  assumes "invar r" and "length ds = nD r" and "\<And>d. d \<in> set ds \<Longrightarrow> length d = L" and "0 < L" and "L < 2 ^ 31"
  shows "\<exists>r'. comp r (map Some ds @ replicate (nP r) (Some [])) = (r', Inr (map Some (code r ds))) \<and>
    invar r' \<and> nD r' = nD r \<and> nP r' = nP r \<and> code r' = code r"
proof (rule recover [OF assms])
  let ?s = "map Some ds @ replicate (nP r) (Some [])"
  show "erased ?s (code r ds)"
    using assms(2) code_length [OF assms(1,2)] code_data [OF assms(1-3)]
    by (auto simp: erased_def nth_append)
  have "filter missing (map Some ds) = []"
    using assms(3,4) by (auto simp: filter_empty_conv missing_Some)
  then show "length (filter missing ?s) \<le> nP r" by simp
qed

text \<open>Erasing any chunks of a complete stripe and computing again changes nothing.\<close>

lemma erase_recover:
  assumes "invar r" and "length ds = nD r" and "\<And>d. d \<in> set ds \<Longrightarrow> length d = L" and "0 < L" and "L < 2 ^ 31"
    and "card I \<le> nP r" and "\<And>i. i \<in> I \<Longrightarrow> i < nD r + nP r"
  shows "\<exists>r'. comp r (map (\<lambda>i. if i \<in> I then None else Some (code r ds ! i)) [0..<nD r + nP r]) =
    (r', Inr (map Some (code r ds)))"
proof -
  let ?s = "map (\<lambda>i. if i \<in> I then None else Some (code r ds ! i)) [0..<nD r + nP r]"
  have "erased ?s (code r ds)"
    using code_length [OF assms(1,2)] by (auto simp: erased_def)
  moreover have "length (filter missing ?s) \<le> nP r"
  proof -
    have "code r ds ! i \<noteq> []" if "i < nD r + nP r" for i
      using code_size [OF assms(1-3)] code_length [OF assms(1,2)] that assms(4) by (metis list.size(3) nth_mem not_less0)
    then have "length (filter missing ?s) = length (filter (\<lambda>i. i \<in> I) [0..<nD r + nP r])"
      unfolding filter_map length_map
      by (intro arg_cong [where f = length] filter_cong) (auto simp: missing_Some)
    also have "\<dots> = card (set (filter (\<lambda>i. i \<in> I) [0..<nD r + nP r]))"
      by (intro distinct_card [symmetric] distinct_filter) simp
    also have "set (filter (\<lambda>i. i \<in> I) [0..<nD r + nP r]) = I" using assms(7) by auto
    finally show ?thesis using assms(6) by simp
  qed
  ultimately show ?thesis using recover [OF assms(1-5)] by blast
qed

end

interpretation rp: redundancy_code "rp_ok lib" nData nParity "compute lib" "encode lib" for lib
proof unfold_locales
  show "0 < nData r" if "rp_ok lib r" for r
    using that by (simp add: rp_ok_def)
  show "length (encode lib r ds) = nData r + nParity r" if "rp_ok lib r" "length ds = nData r" for r ds
    using that by (rule length_encode)
  show "encode lib r ds ! i = ds ! i"
    if "rp_ok lib r" "length ds = nData r" "\<And>d. d \<in> set ds \<Longrightarrow> length d = L" "i < nData r" for r ds L i
    using that by (rule encode_data)
  show "length c = L"
    if "rp_ok lib r" "length ds = nData r" "\<And>d. d \<in> set ds \<Longrightarrow> length d = L" "c \<in> set (encode lib r ds)" for r ds L c
    using that by (rule length_encode_chunk)
  show "\<exists>r'. compute lib r s = (r', Inr (map Some (encode lib r ds))) \<and> rp_ok lib r' \<and>
      nData r' = nData r \<and> nParity r' = nParity r \<and> encode lib r' = encode lib r"
    if "rp_ok lib r" "length ds = nData r" "\<And>d. d \<in> set ds \<Longrightarrow> length d = L" "0 < L" "L < 2 ^ 31"
      "erased s (encode lib r ds)" "length (filter missing s) \<le> nParity r" for r ds L s
    using compute_recovers [OF that] by auto
qed

section \<open>A concrete library\<close>

text \<open>An instance of the library parameter for two data chunks and one parity chunk: bytes form a
  ring under bitwise conjunction, transported along an involution that makes 1 its unit; the parity
  row is the sum of the data rows; two-by-two matrices are inverted by their adjugate.\<close>

definition unit_shift :: "byte \<Rightarrow> byte" where
  "unit_shift x = x XOR (if bit x 0 then mask 8 XOR 1 else 0)"

definition and_mul :: "byte \<Rightarrow> byte \<Rightarrow> byte" where
  "and_mul x y = unit_shift (unit_shift x AND unit_shift y)"

definition sum_lib :: isal where
  "sum_lib =
     \<lparr>gf_mul = and_mul,
      gf_invert_matrix = (\<lambda>b k.
        if and_mul (b ! 0) (b ! 3) XOR and_mul (b ! 1) (b ! 2) = 1
        then Some [b ! 3, b ! 1, b ! 2, b ! 0] else None),
      gf_gen_cauchy1_matrix = (\<lambda>m k. [1, 0, 0, 1, 1, 1]),
      ec_init_tables = (\<lambda>k rows a buf. a),
      ec_encode_data = (\<lambda>len k rows a src.
        map (\<lambda>r. map (\<lambda>i. xor_sum k (\<lambda>j. and_mul (a ! (k * r + j)) (src ! j ! i))) [0..<nat len]) [0..<rows])\<rparr>"

lemma bit_unit_shift: "bit (unit_shift x) i \<longleftrightarrow> i < 8 \<and> bit x i \<noteq> (0 < i \<and> bit x 0)"
  by (auto simp: unit_shift_def bit_xor_iff bit_mask_iff bit_1_iff dest: bit_imp_le_length)

lemma sum_lib_ring: "gf_ring sum_lib"
proof -
  have ext: "(\<And>i. i < 8 \<Longrightarrow> bit x i \<longleftrightarrow> bit y i) \<Longrightarrow> x = y" for x y :: byte
    by (rule bit_word_eqI) simp
  show ?thesis
    unfolding gf_ring_def
    by (intro conjI allI; rule ext)
      (auto simp: sum_lib_def and_mul_def bit_unit_shift bit_and_iff bit_xor_iff bit_1_iff)
qed

lemma xor_sum_2: "xor_sum 2 f = f 0 XOR f 1"
  by (simp add: numeral_2_eq_2)

lemma all_less_2: "(\<forall>i < (2::nat). P i) \<longleftrightarrow> P 0 \<and> P 1"
  by (auto simp: less_2_cases_iff)

lemma sum_lib_inverts: "gf_inverts sum_lib 2"
proof -
  note ring = sum_lib_ring
  have comm: "and_mul x y = and_mul y x" for x y
    using gf_mul_commute [OF ring, of x y] by (simp add: sum_lib_def)
  show ?thesis
    unfolding gf_inverts_def all_less_2 xor_sum_2
    by (auto simp: sum_lib_def comm xor.commute numeral_3_eq_3 split: if_splits)
qed

lemma sum_lib_ok: "isal_ok sum_lib 2 3"
proof -
  have zero: "and_mul x 0 = 0" "and_mul 0 x = 0" and one: "and_mul 1 x = x" "and_mul x 1 = x" for x
    using gf_mul_zero [OF sum_lib_ring, of x] gf_mul_zero_left [OF sum_lib_ring, of x]
      gf_mul_one [OF sum_lib_ring, of x] gf_mul_commute [OF sum_lib_ring, of x 1]
    by (simp_all add: sum_lib_def)
  have "gf_cauchy sum_lib 2 3"
    unfolding gf_cauchy_def Let_def all_less_2
  proof (intro conjI allI impI)
    fix rows :: "nat list"
    assume rows: "length rows = 2" "sorted_wrt (<) rows" "\<forall>r \<in> set rows. r < 3"
    then obtain a b where "rows = [a, b]" by (auto simp: length_Suc_conv numeral_2_eq_2)
    with rows consider "rows = [0, 1]" | "rows = [0, 2]" | "rows = [1, 2]"
      by (auto simp: numeral_3_eq_3 less_Suc_eq)
    then show "gf_invert_matrix sum_lib
        (concat (map (matrix_row (gf_gen_cauchy1_matrix sum_lib 3 2) 2) rows)) 2 \<noteq> None"
      by cases (simp_all add: sum_lib_def matrix_row_def zero one)
  qed (simp_all add: sum_lib_def)
  moreover have "ec_encodes sum_lib 2"
    by (simp add: ec_encodes_def sum_lib_def)
  ultimately show ?thesis
    using sum_lib_ring sum_lib_inverts by (simp add: isal_ok_def)
qed

lemma sum_lib_provider: "rp_ok sum_lib (RedundancyProvider_new sum_lib 2 1)"
  using sum_lib_ok by (simp add: rp_ok_def RedundancyProvider_new_def cache_ok_def)

section \<open>Properties\<close>

text \<open>C8: A stripe survives the loss of any set of at most \<open>nParity\<close> chunks: computing the redundancy
  of the stripe with those chunks missing yields the whole stripe again. This covers replication,
  erasure coding and plain striping, and it holds whatever coding tables are cached.\<close>

theorem compute_survives_losses:
  assumes "rp_ok lib rp" and "length ds = nData rp" and "\<And>d. d \<in> set ds \<Longrightarrow> length d = L"
    and "0 < L" and "L < 2 ^ 31" and "card I \<le> nParity rp" and "\<And>i. i \<in> I \<Longrightarrow> i < nData rp + nParity rp"
  shows "\<exists>rp'. compute lib rp
      (map (\<lambda>i. if i \<in> I then None else Some (encode lib rp ds ! i)) [0..<nData rp + nParity rp]) =
    (rp', Inr (map Some (encode lib rp ds)))"
  using assms by (rule rp.erase_recover)

theorem compute_survives_losses_witness:
  "\<exists>rp'. compute sum_lib (RedundancyProvider_new sum_lib 2 1)
      (map (\<lambda>i. if i \<in> {0} then None
                else Some (encode sum_lib (RedundancyProvider_new sum_lib 2 1) [''ab'', ''cd''] ! i)) [0..<2 + 1]) =
    (rp', Inr (map Some (encode sum_lib (RedundancyProvider_new sum_lib 2 1) [''ab'', ''cd''])))"
proof -
  let ?rp = "RedundancyProvider_new sum_lib 2 1"
  have n: "nData ?rp = 2" "nParity ?rp = 1" by (simp_all add: RedundancyProvider_new_def)
  have "\<exists>rp'. compute sum_lib ?rp
      (map (\<lambda>i. if i \<in> {0} then None else Some (encode sum_lib ?rp [''ab'', ''cd''] ! i)) [0..<nData ?rp + nParity ?rp]) =
    (rp', Inr (map Some (encode sum_lib ?rp [''ab'', ''cd''])))"
    by (rule compute_survives_losses [OF sum_lib_provider, where L = 2]) (auto simp: RedundancyProvider_new_def)
  then show ?thesis unfolding n .
qed

text \<open>Encoding is systematic: computing the parities of \<open>nData\<close> data chunks of equal size
  succeeds, gives \<open>nData + nParity\<close> chunks of that size and leaves the data chunks in front.\<close>

theorem compute_parity_systematic:
  assumes "rp_ok lib rp" and "length ds = nData rp" and "\<And>d. d \<in> set ds \<Longrightarrow> length d = L"
    and "0 < L" and "L < 2 ^ 31"
  shows "\<exists>rp' cw. compute lib rp (map Some ds @ replicate (nParity rp) (Some [])) = (rp', Inr (map Some cw)) \<and>
    take (nData rp) cw = ds \<and> length cw = rp_size rp \<and> (\<forall>c \<in> set cw. length c = L)"
proof -
  from rp.add_parity [OF assms] obtain rp' where
    "compute lib rp (map Some ds @ replicate (nParity rp) (Some [])) = (rp', Inr (map Some (encode lib rp ds)))"
    by blast
  then show ?thesis
    using rp.code_take [OF assms(1-3)] length_encode [OF assms(1,2)] length_encode_chunk [OF assms(1-3)]
    by (intro exI [of _ rp'] exI [of _ "encode lib rp ds"]) (simp add: rp_size_def)
qed

theorem compute_parity_systematic_witness:
  "\<exists>rp' cw. compute sum_lib (RedundancyProvider_new sum_lib 2 1) [Some ''ab'', Some ''cd'', Some []] =
      (rp', Inr (map Some cw)) \<and> take 2 cw = [''ab'', ''cd''] \<and> length cw = 3 \<and> (\<forall>c \<in> set cw. length c = 2)"
proof -
  let ?rp = "RedundancyProvider_new sum_lib 2 1"
  have n: "nData ?rp = 2" "nParity ?rp = 1" "rp_size ?rp = 3"
    by (simp_all add: RedundancyProvider_new_def rp_size_def)
  have "\<exists>rp' cw. compute sum_lib ?rp (map Some [''ab'', ''cd''] @ replicate (nParity ?rp) (Some [])) =
      (rp', Inr (map Some cw)) \<and> take (nData ?rp) cw = [''ab'', ''cd''] \<and> length cw = rp_size ?rp \<and>
      (\<forall>c \<in> set cw. length c = 2)"
    by (rule compute_parity_systematic [OF sum_lib_provider]) (auto simp: RedundancyProvider_new_def)
  then show ?thesis unfolding n by simp
qed

text \<open>Stripes that cannot be completed are refused: a wrong number of chunks, chunks of different
  sizes or more missing chunks than parities raise \<^verbatim>\<open>invalid_argument\<close> and leave the provider
  unchanged.\<close>

theorem compute_rejects:
  assumes "length s \<noteq> rp_size rp \<or> \<not> same_sizes s \<or> nParity rp < length (filter missing s)"
  shows "compute lib rp s = (rp, Inl Invalid_argument)"
proof -
  have "getErrorPattern rp s = Inl Invalid_argument"
    using assms unfolding getErrorPattern_spec rp_size_def by (auto simp: not_le)
  then show ?thesis by (simp add: compute_def)
qed

theorem compute_rejects_witness:
  "compute sum_lib (RedundancyProvider_new sum_lib 2 1) [Some ''ab'', None, Some []] =
     (RedundancyProvider_new sum_lib 2 1, Inl Invalid_argument)"
  by (rule compute_rejects) (simp add: RedundancyProvider_new_def missing_def)

text \<open>The cache of coding tables is invisible: with a cache filled by earlier computations the
  result is the one computed with an empty cache, and the cache stays coherent.\<close>

theorem compute_cache_transparent:
  assumes "cache_ok lib rp"
  shows "snd (compute lib rp s) = snd (compute lib (rp\<lparr>cache := (\<lambda>p. None)\<rparr>) s) \<and>
    cache_ok lib (fst (compute lib rp s))"
proof (cases "\<exists>pat. getErrorPattern rp s = Inr pat \<and> nParity rp \<noteq> 0 \<and> nData rp \<noteq> 1")
  case False
  then show ?thesis
    using assms by (auto simp: compute_def getErrorPattern_def split: sum.splits)
next
  case True
  then obtain pat where pat: "getErrorPattern rp s = Inr pat" "nParity rp \<noteq> 0" "nData rp \<noteq> 1" by blast
  let ?rp0 = "rp\<lparr>cache := (\<lambda>p. None)\<rparr>"
  have pat0: "getErrorPattern ?rp0 s = Inr pat"
    using pat(1) by (simp add: getErrorPattern_def split: if_splits)
  obtain r1 t1 r2 t2 where g: "getCodingTable lib rp pat = (r1, t1)" "getCodingTable lib ?rp0 pat = (r2, t2)"
    by fastforce
  have "cache_ok lib ?rp0" by (simp add: cache_ok_def)
  note t1 = getCodingTable_transparent [OF assms g(1)] and t2 = getCodingTable_transparent [OF this g(2)]
  have "t1 = t2" using t1(1) t2(1) by (simp add: fresh_table_cache)
  moreover obtain c1 c2 where "r1 = rp\<lparr>cache := c1\<rparr>" "r2 = rp\<lparr>cache := c2\<rparr>"
    using t1(2) t2(2) by auto
  ultimately show ?thesis
    using pat pat0 g t1(3) by (auto simp: compute_def Let_def split: sum.splits)
qed

theorem compute_cache_transparent_witness:
  "cache_ok sum_lib (fst (compute sum_lib (RedundancyProvider_new sum_lib 2 1) [Some ''ab'', Some ''cd'', Some []]))"
proof -
  have "cache_ok sum_lib (RedundancyProvider_new sum_lib 2 1)"
    by (simp add: cache_ok_def RedundancyProvider_new_def)
  from compute_cache_transparent [OF this] show ?thesis by blast
qed

end
