(* ===== verification/Drive_Env.thy ===== *)
theory Drive_Env
  imports Complex_Main Kinetic_Types
begin

text \<open>
  The world outside the library as the operations see it: the drives behind their connections, the
  clock, and the generator of unique ids. It is a record of functions over an arbitrary state type,
  an argument of every definition that talks to a drive. The state may hold anything, in particular
  the stores of the drives and whatever other clients do to them between two requests.

  A request issued on a connection ends in one of three ways before the operation's timeout: the
  connection is not available, an answer arrives, or none does; the boolean is the result of
  \<^verbatim>\<open>Run\<close>, which reports a broken connection.
\<close>

datatype 'a reply =
    NotConnected
  | Answered bool "kinetic_status + 'a"
  | Unanswered bool

record operation_statistic =
  stat_name :: string
  stat_count :: nat
  stat_bytes :: nat

record drive_log =
  limit_value_size :: nat
  limit_key_size :: nat
  limit_version_size :: nat
  nominal_capacity_in_bytes :: nat
  portion_full :: rat
  operation_statistics :: "operation_statistic list"

datatype log_type = LIMITS | CAPACITIES | STATISTICS

record 'w env =
  env_put :: "nat \<Rightarrow> nat \<Rightarrow> string \<Rightarrow> string \<Rightarrow> write_mode \<Rightarrow> kinetic_record \<Rightarrow> 'w \<Rightarrow> unit reply \<times> 'w"
  env_delete :: "nat \<Rightarrow> nat \<Rightarrow> string \<Rightarrow> string \<Rightarrow> write_mode \<Rightarrow> 'w \<Rightarrow> unit reply \<times> 'w"
  env_get :: "nat \<Rightarrow> nat \<Rightarrow> string \<Rightarrow> 'w \<Rightarrow> kinetic_record reply \<times> 'w"
  env_get_version :: "nat \<Rightarrow> nat \<Rightarrow> string \<Rightarrow> 'w \<Rightarrow> string reply \<times> 'w"
  env_range :: "nat \<Rightarrow> nat \<Rightarrow> string \<Rightarrow> string \<Rightarrow> bool \<Rightarrow> int \<Rightarrow> 'w \<Rightarrow> string list reply \<times> 'w"
  env_flush :: "nat \<Rightarrow> nat \<Rightarrow> 'w \<Rightarrow> unit reply \<times> 'w"
  env_log :: "nat \<Rightarrow> nat \<Rightarrow> log_type list \<Rightarrow> 'w \<Rightarrow> drive_log reply \<times> 'w"
  env_set_error :: "nat \<Rightarrow> 'w \<Rightarrow> 'w"
  env_now :: "'w \<Rightarrow> nat"
  env_sleep :: "nat \<Rightarrow> 'w \<Rightarrow> 'w"
  env_uuid :: "'w \<Rightarrow> string \<times> 'w"
  env_code :: "status_code \<Rightarrow> int"

text \<open>The first two arguments of a request are the index of the connection and the timeout in
  seconds; the clock and the sleep count microseconds.\<close>

end
