(* ===== verification/Callbacks.thy ===== *)
theory Callbacks
  imports Drive_Env
begin

text \<open>
  The callbacks of src/KineticCallbacks.cc and their synchronization object. A callback is a record
  with the fields of \<^verbatim>\<open>KineticCallback\<close> and, as a datatype, the payload of the derived class it is.
  The counter of \<^verbatim>\<open>CallbackSynchronization\<close> is passed along explicitly.
\<close>

section \<open>Model\<close>

record CallbackSynchronization =
  outstanding :: int

definition CallbackSynchronization_new :: CallbackSynchronization where
  "CallbackSynchronization_new = \<lparr>outstanding = 0\<rparr>"

text \<open>The condition of the waiting loop, and whether the wait is over at a given time.\<close>

definition wait_finished :: "CallbackSynchronization \<Rightarrow> nat \<Rightarrow> nat \<Rightarrow> bool" where
  "wait_finished sync now timeout_time \<longleftrightarrow> \<not> (outstanding sync \<noteq> 0 \<and> now < timeout_time)"

datatype callback_data =
    GetCallback "kinetic_record option"
  | GetVersionCallback string
  | GetLogCallback "drive_log option"
  | PutCallback
  | BasicCallback
  | RangeCallback "string list option"

record callback =
  cb_status :: kinetic_status
  cb_done :: bool
  cb_data :: callback_data

definition no_result :: kinetic_status where
  "no_result = mk_status CLIENT_INTERNAL_ERROR ''no result''"

definition KineticCallback_new ::
  "callback_data \<Rightarrow> CallbackSynchronization \<Rightarrow> callback \<times> CallbackSynchronization" where
  "KineticCallback_new d sync =
     (\<lparr>cb_status = no_result, cb_done = False, cb_data = d\<rparr>, sync\<lparr>outstanding := outstanding sync + 1\<rparr>)"

definition OnResult ::
  "kinetic_status \<Rightarrow> callback \<Rightarrow> CallbackSynchronization \<Rightarrow> callback \<times> CallbackSynchronization" where
  "OnResult result cb sync =
     (if cb_done cb then (cb, sync)
      else (cb\<lparr>cb_status := result, cb_done := True\<rparr>, sync\<lparr>outstanding := outstanding sync - 1\<rparr>))"

definition getResult :: "callback \<Rightarrow> kinetic_status" where
  "getResult cb = cb_status cb"

definition finished :: "callback \<Rightarrow> bool" where
  "finished cb = cb_done cb"

definition callback_reset ::
  "callback \<Rightarrow> CallbackSynchronization \<Rightarrow> callback \<times> CallbackSynchronization" where
  "callback_reset cb sync =
     (cb\<lparr>cb_done := False, cb_status := no_result\<rparr>, sync\<lparr>outstanding := outstanding sync + 1\<rparr>)"

text \<open>The \<^verbatim>\<open>Success\<close> methods store the payload and report OK, the \<^verbatim>\<open>Failure\<close> methods report the
  error.\<close>

abbreviation ok_status :: kinetic_status where
  "ok_status \<equiv> mk_status OK []"

definition GetCallback_Success ::
  "kinetic_record \<Rightarrow> callback \<Rightarrow> CallbackSynchronization \<Rightarrow> callback \<times> CallbackSynchronization" where
  "GetCallback_Success r cb sync = OnResult ok_status (cb\<lparr>cb_data := GetCallback (Some r)\<rparr>) sync"

definition GetVersionCallback_Success ::
  "string \<Rightarrow> callback \<Rightarrow> CallbackSynchronization \<Rightarrow> callback \<times> CallbackSynchronization" where
  "GetVersionCallback_Success v cb sync = OnResult ok_status (cb\<lparr>cb_data := GetVersionCallback v\<rparr>) sync"

definition GetLogCallback_Success ::
  "drive_log \<Rightarrow> callback \<Rightarrow> CallbackSynchronization \<Rightarrow> callback \<times> CallbackSynchronization" where
  "GetLogCallback_Success dlog cb sync = OnResult ok_status (cb\<lparr>cb_data := GetLogCallback (Some dlog)\<rparr>) sync"

definition PutCallback_Success ::
  "unit \<Rightarrow> callback \<Rightarrow> CallbackSynchronization \<Rightarrow> callback \<times> CallbackSynchronization" where
  "PutCallback_Success u cb sync = OnResult ok_status cb sync"

definition BasicCallback_Success ::
  "unit \<Rightarrow> callback \<Rightarrow> CallbackSynchronization \<Rightarrow> callback \<times> CallbackSynchronization" where
  "BasicCallback_Success u cb sync = OnResult ok_status cb sync"

definition RangeCallback_Success ::
  "string list \<Rightarrow> callback \<Rightarrow> CallbackSynchronization \<Rightarrow> callback \<times> CallbackSynchronization" where
  "RangeCallback_Success ks cb sync = OnResult ok_status (cb\<lparr>cb_data := RangeCallback (Some ks)\<rparr>) sync"

definition Callback_Failure ::
  "kinetic_status \<Rightarrow> callback \<Rightarrow> CallbackSynchronization \<Rightarrow> callback \<times> CallbackSynchronization" where
  "Callback_Failure error cb sync = OnResult error cb sync"

definition getRecord :: "callback \<Rightarrow> kinetic_record option" where
  "getRecord cb = (case cb_data cb of GetCallback r \<Rightarrow> r | _ \<Rightarrow> None)"

definition cb_getVersion :: "callback \<Rightarrow> string" where
  "cb_getVersion cb = (case cb_data cb of GetVersionCallback v \<Rightarrow> v | _ \<Rightarrow> [])"

definition getLog :: "callback \<Rightarrow> drive_log option" where
  "getLog cb = (case cb_data cb of GetLogCallback l \<Rightarrow> l | _ \<Rightarrow> None)"

definition cb_getKeys :: "callback \<Rightarrow> string list option" where
  "cb_getKeys cb = (case cb_data cb of RangeCallback ks \<Rightarrow> ks | _ \<Rightarrow> None)"

section \<open>Lemmas\<close>

lemmas success_defs = GetCallback_Success_def GetVersionCallback_Success_def GetLogCallback_Success_def
  PutCallback_Success_def BasicCallback_Success_def RangeCallback_Success_def Callback_Failure_def

text \<open>The number of callbacks still waiting is what the counter is meant to be.\<close>

definition pending :: "callback list \<Rightarrow> int" where
  "pending cbs = int (length (filter (\<lambda>cb. \<not> cb_done cb) cbs))"

lemma pending_simps [simp]:
  "pending [] = 0"
  "pending (cb # cbs) = (if cb_done cb then 0 else 1) + pending cbs"
  "pending (xs @ ys) = pending xs + pending ys"
  by (simp_all add: pending_def)

lemma pending_nonneg [simp]: "0 \<le> pending cbs"
  by (simp add: pending_def)

lemma pending_zero_iff: "pending cbs = 0 \<longleftrightarrow> (\<forall>cb \<in> set cbs. cb_done cb)"
  by (auto simp: pending_def filter_empty_conv)

lemma OnResult_done: "cb_done (fst (OnResult r cb sync))"
  by (simp add: OnResult_def)

lemma OnResult_outstanding:
  "outstanding (snd (OnResult r cb sync)) = outstanding sync - (if cb_done cb then 0 else 1)"
  by (simp add: OnResult_def)

lemma OnResult_first_wins: "cb_done cb \<Longrightarrow> OnResult r cb sync = (cb, sync)"
  by (simp add: OnResult_def)

text \<open>Every way a callback is called is a call of \<open>OnResult\<close> on a callback with the same flag.\<close>

lemma success_outstanding:
  "outstanding (snd (GetCallback_Success r cb sync)) = outstanding sync - (if cb_done cb then 0 else 1)"
  "outstanding (snd (GetVersionCallback_Success v cb sync)) = outstanding sync - (if cb_done cb then 0 else 1)"
  "outstanding (snd (GetLogCallback_Success l cb sync)) = outstanding sync - (if cb_done cb then 0 else 1)"
  "outstanding (snd (PutCallback_Success u cb sync)) = outstanding sync - (if cb_done cb then 0 else 1)"
  "outstanding (snd (BasicCallback_Success u cb sync)) = outstanding sync - (if cb_done cb then 0 else 1)"
  "outstanding (snd (RangeCallback_Success ks cb sync)) = outstanding sync - (if cb_done cb then 0 else 1)"
  "outstanding (snd (Callback_Failure e cb sync)) = outstanding sync - (if cb_done cb then 0 else 1)"
  by (simp_all add: success_defs OnResult_def)

end
