(* ===== verification/Drive_Simulation.thy ===== *)
theory Drive_Simulation
  imports Drive_Env "HOL-Library.AList"
begin

text \<open>
  A concrete instance of the drive environment, on which the witnesses of the development run: every
  drive is an association list of records that obeys the version rules of the kinetic protocol, a
  drive may be down, the clock advances when the caller sleeps, and unique ids are numbered.
\<close>

record sim =
  sim_store :: "nat \<Rightarrow> (string \<times> kinetic_record) list"
  sim_down :: "nat \<Rightarrow> bool"
  sim_clock :: nat
  sim_uuids :: nat

definition sim_version :: "sim \<Rightarrow> nat \<Rightarrow> string \<Rightarrow> string" where
  "sim_version w c k = (case map_of (sim_store w c) k of None \<Rightarrow> [] | Some r \<Rightarrow> rec_version r)"

definition sim_put ::
  "nat \<Rightarrow> nat \<Rightarrow> string \<Rightarrow> string \<Rightarrow> write_mode \<Rightarrow> kinetic_record \<Rightarrow> sim \<Rightarrow> unit reply \<times> sim" where
  "sim_put c t k v m r w =
     (if sim_down w c then (NotConnected, w)
      else if m = REQUIRE_SAME_VERSION \<and> sim_version w c k \<noteq> v
      then (Answered True (Inl (mk_status REMOTE_VERSION_MISMATCH [])), w)
      else (Answered True (Inr ()), w\<lparr>sim_store := (sim_store w)(c := AList.update k r (sim_store w c))\<rparr>))"

definition sim_delete :: "nat \<Rightarrow> nat \<Rightarrow> string \<Rightarrow> string \<Rightarrow> write_mode \<Rightarrow> sim \<Rightarrow> unit reply \<times> sim" where
  "sim_delete c t k v m w =
     (if sim_down w c then (NotConnected, w)
      else if map_of (sim_store w c) k = None
      then (Answered True (Inl (mk_status REMOTE_NOT_FOUND [])), w)
      else if m = REQUIRE_SAME_VERSION \<and> sim_version w c k \<noteq> v
      then (Answered True (Inl (mk_status REMOTE_VERSION_MISMATCH [])), w)
      else (Answered True (Inr ()), w\<lparr>sim_store := (sim_store w)(c := AList.delete k (sim_store w c))\<rparr>))"

definition sim_get :: "nat \<Rightarrow> nat \<Rightarrow> string \<Rightarrow> sim \<Rightarrow> kinetic_record reply \<times> sim" where
  "sim_get c t k w =
     (if sim_down w c then (NotConnected, w)
      else case map_of (sim_store w c) k of
             None \<Rightarrow> (Answered True (Inl (mk_status REMOTE_NOT_FOUND [])), w)
           | Some r \<Rightarrow> (Answered True (Inr r), w))"

definition sim_get_version :: "nat \<Rightarrow> nat \<Rightarrow> string \<Rightarrow> sim \<Rightarrow> string reply \<times> sim" where
  "sim_get_version c t k w =
     (if sim_down w c then (NotConnected, w)
      else case map_of (sim_store w c) k of
             None \<Rightarrow> (Answered True (Inl (mk_status REMOTE_NOT_FOUND [])), w)
           | Some r \<Rightarrow> (Answered True (Inr (rec_version r)), w))"

definition sim_range ::
  "nat \<Rightarrow> nat \<Rightarrow> string \<Rightarrow> string \<Rightarrow> bool \<Rightarrow> int \<Rightarrow> sim \<Rightarrow> string list reply \<times> sim" where
  "sim_range c t lo hi reverse mx w =
     (if sim_down w c then (NotConnected, w)
      else let ks = sort (filter (\<lambda>k. lo \<le> k \<and> k \<le> hi) (remdups (map fst (sim_store w c))))
           in (Answered True (Inr (take (nat mx) (if reverse then rev ks else ks))), w))"

definition sim_log :: "nat \<Rightarrow> nat \<Rightarrow> log_type list \<Rightarrow> sim \<Rightarrow> drive_log reply \<times> sim" where
  "sim_log c t ts w =
     (if sim_down w c then (NotConnected, w)
      else (Answered True (Inr \<lparr>limit_value_size = 1048576, limit_key_size = 4096, limit_version_size = 2048,
              nominal_capacity_in_bytes = 4000, portion_full = 1 / 4, operation_statistics = []\<rparr>), w))"

text \<open>A numbering of the status codes in which all codes are different.\<close>

fun sim_code :: "status_code \<Rightarrow> int" where
  "sim_code OK = 0"
| "sim_code CLIENT_IO_ERROR = 1"
| "sim_code CLIENT_SHUTDOWN = 2"
| "sim_code CLIENT_INTERNAL_ERROR = 3"
| "sim_code CLIENT_RESPONSE_HMAC_VERIFICATION_ERROR = 4"
| "sim_code REMOTE_HMAC_ERROR = 5"
| "sim_code REMOTE_NOT_AUTHORIZED = 6"
| "sim_code REMOTE_CLUSTER_VERSION_MISMATCH = 7"
| "sim_code REMOTE_NOT_FOUND = 8"
| "sim_code REMOTE_VERSION_MISMATCH = 9"
| "sim_code (OTHER_STATUS i) = (if 0 \<le> i then 10 + 2 * i else 11 - 2 * i)"

definition sim_env :: "sim env" where
  "sim_env =
     \<lparr>env_put = sim_put, env_delete = sim_delete, env_get = sim_get, env_get_version = sim_get_version,
      env_range = sim_range,
      env_flush = (\<lambda>c t w. (if sim_down w c then NotConnected else Answered True (Inr ()), w)),
      env_log = sim_log,
      env_set_error = (\<lambda>c w. w),
      env_now = sim_clock,
      env_sleep = (\<lambda>us w. w\<lparr>sim_clock := sim_clock w + us\<rparr>),
      env_uuid = (\<lambda>w. (take 36 (zpad 36 (dec (sim_uuids w))), w\<lparr>sim_uuids := sim_uuids w + 1\<rparr>)),
      env_code = sim_code\<rparr>"

definition sim_init :: "nat list \<Rightarrow> sim" where
  "sim_init downs = \<lparr>sim_store = (\<lambda>c. []), sim_down = (\<lambda>c. c \<in> set downs), sim_clock = 0, sim_uuids = 0\<rparr>"

end
