(* ===== verification/Cluster_Operation.thy ===== *)
theory Cluster_Operation
  imports Callbacks Drive_Simulation
begin

text \<open>
  \<^verbatim>\<open>KineticClusterOperation\<close> and the flush, log and range operations built on it
  (src/KineticClusterOperation.cc). An operation holds a vector of requests with their callbacks;
  executing it issues every request that is not finished, waits, and expires the ones without an
  answer. Connections are named by their index in the connection vector of the cluster. The bound
  kinetic function of an operation is the request it sends.
\<close>

section \<open>Model\<close>

datatype request =
    Req_Put string string write_mode kinetic_record
  | Req_Delete string string write_mode
  | Req_Get string
  | Req_GetVersion string
  | Req_Range string string bool int
  | Req_Flush
  | Req_GetLog "log_type list"

record KineticAsyncOperation =
  op_function :: "request option"
  op_callback :: "callback option"
  op_connection :: nat

record KineticClusterOperation =
  operations :: "KineticAsyncOperation list"
  op_sync :: CallbackSynchronization
  num_connections :: nat

definition KineticClusterOperation_new :: "nat \<Rightarrow> KineticClusterOperation" where
  "KineticClusterOperation_new n =
     \<lparr>operations = [], op_sync = CallbackSynchronization_new, num_connections = n\<rparr>"

definition empty_operation :: "nat \<Rightarrow> KineticAsyncOperation" where
  "empty_operation c = \<lparr>op_function = None, op_callback = None, op_connection = c\<rparr>"

definition expandOperationVector ::
  "nat \<Rightarrow> nat \<Rightarrow> KineticClusterOperation \<Rightarrow> KineticClusterOperation" where
  "expandOperationVector n offset op =
     op\<lparr>operations := operations op @
          map (\<lambda>i. empty_operation ((i + offset) mod num_connections op)) [0..<n]\<rparr>"

subsection \<open>The result map\<close>

definition CompareStatusCode_toInt :: "(status_code \<Rightarrow> int) \<Rightarrow> status_code \<Rightarrow> int" where
  "CompareStatusCode_toInt num code =
     (if code \<noteq> OK \<and> code \<noteq> REMOTE_NOT_FOUND \<and> code \<noteq> REMOTE_VERSION_MISMATCH
      then num code + 100 else num code)"

type_synonym result_map = "(status_code \<times> nat) list"

text \<open>\<^verbatim>\<open>std::map::operator[]\<close> inserts a zero entry for a new key; \<open>f\<close> is what happens to the
  referenced counter.\<close>

fun rmap_update :: "(status_code \<Rightarrow> int) \<Rightarrow> status_code \<Rightarrow> (nat \<Rightarrow> nat) \<Rightarrow> result_map \<Rightarrow> result_map" where
  "rmap_update num k f [] = [(k, f 0)]"
| "rmap_update num k f ((k', n) # m) =
     (if CompareStatusCode_toInt num k < CompareStatusCode_toInt num k' then (k, f 0) # (k', n) # m
      else if CompareStatusCode_toInt num k' < CompareStatusCode_toInt num k
      then (k', n) # rmap_update num k f m
      else (k', f n) # m)"

fun rmap_get :: "(status_code \<Rightarrow> int) \<Rightarrow> result_map \<Rightarrow> status_code \<Rightarrow> nat" where
  "rmap_get num [] k = 0"
| "rmap_get num ((k', n) # m) k =
     (if CompareStatusCode_toInt num k = CompareStatusCode_toInt num k' then n else rmap_get num m k)"

definition rmap_of :: "(status_code \<Rightarrow> int) \<Rightarrow> KineticAsyncOperation list \<Rightarrow> result_map" where
  "rmap_of num ops =
     foldl (\<lambda>m o'. rmap_update num (statusCode (getResult (the (op_callback o')))) Suc m) [] ops"

subsection \<open>Executing an operation vector\<close>

text \<open>The effect of a reply on the callback. The boolean is whether \<^verbatim>\<open>setError\<close> is called on the
  connection.\<close>

definition conclude ::
  "('a \<Rightarrow> callback \<Rightarrow> CallbackSynchronization \<Rightarrow> callback \<times> CallbackSynchronization) \<Rightarrow> 'a reply \<Rightarrow>
   callback \<Rightarrow> CallbackSynchronization \<Rightarrow> bool \<times> callback \<times> CallbackSynchronization" where
  "conclude success r cb sync =
     (case r of
        NotConnected \<Rightarrow>
          (False, OnResult (mk_status CLIENT_IO_ERROR ''Connection not available.'') cb sync)
      | Answered run a \<Rightarrow>
          let (cb, sync) = (case a of Inl e \<Rightarrow> Callback_Failure e cb sync | Inr p \<Rightarrow> success p cb sync)
          in if run then (False, cb, sync)
             else (True, OnResult (mk_status CLIENT_IO_ERROR ''Run returned false.'') cb sync)
      | Unanswered run \<Rightarrow>
          if run then (False, cb, sync)
          else (True, OnResult (mk_status CLIENT_IO_ERROR ''Run returned false.'') cb sync))"

definition send_request ::
  "'w env \<Rightarrow> nat \<Rightarrow> nat \<Rightarrow> request \<Rightarrow> callback \<Rightarrow> CallbackSynchronization \<Rightarrow> 'w \<Rightarrow>
   (bool \<times> callback \<times> CallbackSynchronization) \<times> 'w" where
  "send_request env timeout con req cb sync w =
     (case req of
        Req_Put k v m r \<Rightarrow> apfst (\<lambda>rep. conclude PutCallback_Success rep cb sync) (env_put env con timeout k v m r w)
      | Req_Delete k v m \<Rightarrow> apfst (\<lambda>rep. conclude BasicCallback_Success rep cb sync) (env_delete env con timeout k v m w)
      | Req_Get k \<Rightarrow> apfst (\<lambda>rep. conclude GetCallback_Success rep cb sync) (env_get env con timeout k w)
      | Req_GetVersion k \<Rightarrow>
          apfst (\<lambda>rep. conclude GetVersionCallback_Success rep cb sync) (env_get_version env con timeout k w)
      | Req_Range s e rv mx \<Rightarrow>
          apfst (\<lambda>rep. conclude RangeCallback_Success rep cb sync) (env_range env con timeout s e rv mx w)
      | Req_Flush \<Rightarrow> apfst (\<lambda>rep. conclude BasicCallback_Success rep cb sync) (env_flush env con timeout w)
      | Req_GetLog ts \<Rightarrow> apfst (\<lambda>rep. conclude GetLogCallback_Success rep cb sync) (env_log env con timeout ts w))"

text \<open>The first loop: call the functions on their connections, skipping finished operations.\<close>

fun issue_operations ::
  "'w env \<Rightarrow> nat \<Rightarrow> KineticAsyncOperation list \<Rightarrow> CallbackSynchronization \<Rightarrow> 'w \<Rightarrow>
   KineticAsyncOperation list \<times> CallbackSynchronization \<times> 'w" where
  "issue_operations env timeout [] sync w = ([], sync, w)"
| "issue_operations env timeout (o' # os) sync w =
     (let cb = the (op_callback o')
      in if finished cb then
           let (os, sync, w) = issue_operations env timeout os sync w in (o' # os, sync, w)
         else
           let ((err, cb, sync), w) =
                 send_request env timeout (op_connection o') (the (op_function o')) cb sync w;
               w = (if err then env_set_error env (op_connection o') w else w);
               (os, sync, w) = issue_operations env timeout os sync w
           in (o'\<lparr>op_callback := Some cb\<rparr> # os, sync, w))"

text \<open>The second loop: expire unfinished requests after the wait.\<close>

fun expire_operations ::
  "KineticAsyncOperation list \<Rightarrow> CallbackSynchronization \<Rightarrow> KineticAsyncOperation list \<times> CallbackSynchronization" where
  "expire_operations [] sync = ([], sync)"
| "expire_operations (o' # os) sync =
     (let cb = the (op_callback o')
      in if finished cb then let (os, sync) = expire_operations os sync in (o' # os, sync)
         else
           let (cb, sync) = OnResult (mk_status CLIENT_IO_ERROR ''Network timeout'') cb sync;
               (os, sync) = expire_operations os sync
           in (o'\<lparr>op_callback := Some cb\<rparr> # os, sync))"

definition executeOperationVector ::
  "'w env \<Rightarrow> nat \<Rightarrow> KineticClusterOperation \<Rightarrow> 'w \<Rightarrow> result_map \<times> KineticClusterOperation \<times> 'w" where
  "executeOperationVector env timeout op w =
     (let (ops, sync, w) = issue_operations env timeout (operations op) (op_sync op) w;
          (ops, sync) = expire_operations ops sync
      in (rmap_of (env_code env) ops, op\<lparr>operations := ops, op_sync := sync\<rparr>, w))"

subsection \<open>Setting up operations\<close>

text \<open>Binding a request and a new callback to one entry of the vector.\<close>

definition bind_operation ::
  "request \<Rightarrow> callback_data \<Rightarrow> nat \<Rightarrow> KineticClusterOperation \<Rightarrow> KineticClusterOperation" where
  "bind_operation req d i op =
     (let (cb, sync) = KineticCallback_new d (op_sync op)
      in op\<lparr>operations := (operations op)[i := (operations op ! i)
              \<lparr>op_function := Some req, op_callback := Some cb\<rparr>],
            op_sync := sync\<rparr>)"

definition bind_all :: "request \<Rightarrow> callback_data \<Rightarrow> KineticClusterOperation \<Rightarrow> KineticClusterOperation" where
  "bind_all req d op = fold (bind_operation req d) [0..<length (operations op)] op"

subsection \<open>Flush, log and range operations\<close>

definition ClusterFlushOp_new :: "nat \<Rightarrow> KineticClusterOperation" where
  "ClusterFlushOp_new n =
     bind_all Req_Flush BasicCallback (expandOperationVector n 0 (KineticClusterOperation_new n))"

text \<open>The first entry of the result map with enough votes decides.\<close>

definition quorum_status :: "result_map \<Rightarrow> nat \<Rightarrow> status_code option" where
  "quorum_status rmap quorum_size = map_option fst (List.find (\<lambda>e. quorum_size \<le> snd e) rmap)"

definition ClusterFlushOp_execute ::
  "'w env \<Rightarrow> nat \<Rightarrow> nat \<Rightarrow> KineticClusterOperation \<Rightarrow> 'w \<Rightarrow> kinetic_status \<times> KineticClusterOperation \<times> 'w" where
  "ClusterFlushOp_execute env timeout quorum_size op w =
     (let (rmap, op, w) = executeOperationVector env timeout op w
      in case quorum_status rmap quorum_size of
           Some code \<Rightarrow> (mk_status code [], op, w)
         | None \<Rightarrow> (mk_status CLIENT_IO_ERROR ''Flush request failed'', op, w))"

definition ClusterLogOp_new :: "log_type list \<Rightarrow> nat \<Rightarrow> nat \<Rightarrow> nat \<Rightarrow> KineticClusterOperation" where
  "ClusterLogOp_new types n sz offset =
     bind_all (Req_GetLog types) (GetLogCallback None)
       (expandOperationVector sz offset (KineticClusterOperation_new n))"

definition ClusterLogOp_execute ::
  "'w env \<Rightarrow> nat \<Rightarrow> KineticClusterOperation \<Rightarrow> 'w \<Rightarrow> callback list \<times> 'w" where
  "ClusterLogOp_execute env timeout op w =
     (let (rmap, op, w) = executeOperationVector env timeout op w
      in (map (\<lambda>o'. the (op_callback o')) (operations op), w))"

definition ClusterRangeOp_new :: "string \<Rightarrow> string \<Rightarrow> nat \<Rightarrow> nat \<Rightarrow> KineticClusterOperation" where
  "ClusterRangeOp_new start_key end_key maxRequestedPerDrive n =
     (let reverse = end_key < start_key;
          lo = (if reverse then end_key else start_key);
          hi = (if reverse then start_key else end_key)
      in bind_all (Req_Range lo hi reverse (to_int32 (int maxRequestedPerDrive))) (RangeCallback None)
           (expandOperationVector n 0 (KineticClusterOperation_new n)))"

definition ClusterRangeOp_execute ::
  "'w env \<Rightarrow> nat \<Rightarrow> nat \<Rightarrow> KineticClusterOperation \<Rightarrow> 'w \<Rightarrow> kinetic_status \<times> KineticClusterOperation \<times> 'w" where
  "ClusterRangeOp_execute env timeout quorum_size op w =
     (let (rmap, op, w) = executeOperationVector env timeout op w
      in case quorum_status rmap quorum_size of
           Some code \<Rightarrow> (mk_status code [], op, w)
         | None \<Rightarrow> (mk_status CLIENT_IO_ERROR ''Range Request failed'', op, w))"

text \<open>The keys of all drives are merged in an ordered set and cut.\<close>

definition ClusterRangeOp_getKeys :: "nat \<Rightarrow> KineticClusterOperation \<Rightarrow> string list" where
  "ClusterRangeOp_getKeys maxRequested op =
     (let ks = sort (remdups (concat (map (\<lambda>o'.
                 case cb_getKeys (the (op_callback o')) of None \<Rightarrow> [] | Some opkeys \<Rightarrow> opkeys) (operations op))))
      in if maxRequested < length ks then take maxRequested ks else ks)"

section \<open>Lemmas\<close>

subsection \<open>The result map counts\<close>

definition op_code :: "KineticAsyncOperation \<Rightarrow> status_code" where
  "op_code o' = statusCode (getResult (the (op_callback o')))"

definition rmap_total :: "result_map \<Rightarrow> nat" where
  "rmap_total m = sum_list (map snd m)"

definition rmap_sorted :: "(status_code \<Rightarrow> int) \<Rightarrow> result_map \<Rightarrow> bool" where
  "rmap_sorted num m \<longleftrightarrow> sorted_wrt (\<lambda>a b. CompareStatusCode_toInt num (fst a) < CompareStatusCode_toInt num (fst b)) m"

lemma rmap_update_keys:
  "fst ` set (rmap_update num k f m) \<subseteq> insert k (fst ` set m)"
  by (induction num k f m rule: rmap_update.induct) auto

lemma rmap_sorted_update: "rmap_sorted num m \<Longrightarrow> rmap_sorted num (rmap_update num k f m)"
proof (induction num k f m rule: rmap_update.induct)
  case (2 num k f k' n m)
  have "\<forall>e \<in> set (rmap_update num k f m). CompareStatusCode_toInt num k' < CompareStatusCode_toInt num (fst e)"
    if "CompareStatusCode_toInt num k' < CompareStatusCode_toInt num k"
    using rmap_update_keys [of num k f m] 2(2) that by (force simp: rmap_sorted_def)
  with 2 show ?case by (auto simp: rmap_sorted_def)
qed (simp add: rmap_sorted_def)

lemma rmap_get_update:
  "rmap_sorted num m \<Longrightarrow> rmap_get num (rmap_update num k f m) k' =
     (if CompareStatusCode_toInt num k' = CompareStatusCode_toInt num k then f (rmap_get num m k') else rmap_get num m k')"
proof (induction num k f m rule: rmap_update.induct)
  case (2 num k f k'' n m)
  have later: "rmap_get num m c = 0" if "CompareStatusCode_toInt num c \<le> CompareStatusCode_toInt num k''" for c
  proof -
    have "\<forall>e \<in> set m. CompareStatusCode_toInt num c < CompareStatusCode_toInt num (fst e)"
      using 2(2) that by (force simp: rmap_sorted_def)
    then show ?thesis by (induction m) auto
  qed
  show ?case
    using 2 later [of k'] later [of k] by (auto simp: rmap_sorted_def)
qed simp

lemma rmap_total_update: "rmap_total (rmap_update num k Suc m) = Suc (rmap_total m)"
  by (induction num k Suc m rule: rmap_update.induct) (auto simp: rmap_total_def)

lemma rmap_of_snoc: "rmap_of num (os @ [o']) = rmap_update num (op_code o') Suc (rmap_of num os)"
  by (simp add: rmap_of_def op_code_def)

lemma rmap_of_sorted: "rmap_sorted num (rmap_of num os)"
  by (induction os rule: rev_induct)
    (simp_all add: rmap_of_snoc rmap_sorted_update, simp add: rmap_of_def rmap_sorted_def)

lemma rmap_of_total: "rmap_total (rmap_of num os) = length os"
  by (induction os rule: rev_induct)
    (simp_all add: rmap_of_snoc rmap_total_update, simp add: rmap_of_def rmap_total_def)

lemma rmap_of_get:
  "rmap_get num (rmap_of num os) k =
     length (filter (\<lambda>o'. CompareStatusCode_toInt num (op_code o') = CompareStatusCode_toInt num k) os)"
proof (induction os rule: rev_induct)
  case Nil
  then show ?case by (simp add: rmap_of_def)
next
  case (snoc o' os)
  then show ?case
    by (auto simp: rmap_of_snoc rmap_get_update [OF rmap_of_sorted])
qed

lemma rmap_mem_get:
  assumes "rmap_sorted num m" and "(k, n) \<in> set m"
  shows "rmap_get num m k = n"
  using assms
proof (induction m)
  case (Cons e m)
  show ?case
  proof (cases "e = (k, n)")
    case False
    then have "CompareStatusCode_toInt num (fst e) < CompareStatusCode_toInt num k"
      using Cons.prems by (force simp: rmap_sorted_def)
    then show ?thesis using Cons False by (cases e) (auto simp: rmap_sorted_def)
  qed simp
qed simp

text \<open>The numbering of status codes keeps different codes apart and puts the regular results in
  front, as the enumeration of the client library does.\<close>

definition codes_ok :: "(status_code \<Rightarrow> int) \<Rightarrow> bool" where
  "codes_ok num \<longleftrightarrow> inj (CompareStatusCode_toInt num) \<and>
     (\<forall>c. c \<notin> {OK, REMOTE_NOT_FOUND, REMOTE_VERSION_MISMATCH} \<longrightarrow>
        num OK < num c + 100 \<and> num REMOTE_NOT_FOUND < num c + 100 \<and> num REMOTE_VERSION_MISMATCH < num c + 100)"

definition count_code :: "status_code \<Rightarrow> KineticAsyncOperation list \<Rightarrow> nat" where
  "count_code c os = length (filter (\<lambda>o'. op_code o' = c) os)"

lemma rmap_of_count: "codes_ok num \<Longrightarrow> rmap_get num (rmap_of num os) k = count_code k os"
  unfolding rmap_of_get count_code_def codes_ok_def
  by (intro arg_cong [where f = length] filter_cong) (auto dest: injD)

lemma rmap_of_mem_count: "codes_ok num \<Longrightarrow> (k, n) \<in> set (rmap_of num os) \<Longrightarrow> n = count_code k os"
  using rmap_mem_get [OF rmap_of_sorted] rmap_of_count by metis

lemma rmap_of_keys: "(k, n) \<in> set (rmap_of num os) \<Longrightarrow> \<exists>o' \<in> set os. op_code o' = k"
proof (induction os arbitrary: n rule: rev_induct)
  case Nil
  then show ?case by (simp add: rmap_of_def)
next
  case (snoc o' os)
  have "k = op_code o' \<or> k \<in> fst ` set (rmap_of num os)"
    using snoc.prems rmap_update_keys [of num "op_code o'" Suc "rmap_of num os"]
    by (force simp: rmap_of_snoc image_subset_iff)
  then show ?case using snoc.IH by fastforce
qed

subsection \<open>Executing settles every callback\<close>

definition op_callbacks :: "KineticAsyncOperation list \<Rightarrow> callback list" where
  "op_callbacks os = map (\<lambda>o'. the (op_callback o')) os"

definition op_wf :: "KineticClusterOperation \<Rightarrow> bool" where
  "op_wf op \<longleftrightarrow>
     (\<forall>o' \<in> set (operations op). op_callback o' \<noteq> None \<and> op_function o' \<noteq> None) \<and>
     outstanding (op_sync op) = pending (op_callbacks (operations op))"

lemma op_callbacks_simps [simp]:
  "op_callbacks [] = []" "op_callbacks (o' # os) = the (op_callback o') # op_callbacks os"
  "op_callbacks (xs @ ys) = op_callbacks xs @ op_callbacks ys"
  by (simp_all add: op_callbacks_def)

text \<open>A success method decrements the counter exactly when the callback was waiting, and then the
  callback is done.\<close>

definition settles ::
  "('a \<Rightarrow> callback \<Rightarrow> CallbackSynchronization \<Rightarrow> callback \<times> CallbackSynchronization) \<Rightarrow> bool" where
  "settles success \<longleftrightarrow> (\<forall>p cb sync. cb_done (fst (success p cb sync)) \<and>
     outstanding (snd (success p cb sync)) = outstanding sync - (if cb_done cb then 0 else 1))"

lemma settles_success:
  "settles PutCallback_Success" "settles BasicCallback_Success" "settles GetCallback_Success"
  "settles GetVersionCallback_Success" "settles RangeCallback_Success" "settles GetLogCallback_Success"
  "settles Callback_Failure" "settles OnResult"
  by (simp_all add: settles_def success_defs OnResult_def)

text \<open>The counter without the contribution of one callback.\<close>

definition slack :: "CallbackSynchronization \<Rightarrow> callback \<Rightarrow> int" where
  "slack sync cb = outstanding sync - (if cb_done cb then 0 else 1)"

lemma settles_slack:
  assumes "settles f" and "f p cb sync = (cb', sync')"
  shows "slack sync' cb' = slack sync cb"
proof -
  have "cb_done (fst (f p cb sync))" "outstanding (snd (f p cb sync)) = outstanding sync - (if cb_done cb then 0 else 1)"
    using assms(1) by (simp_all add: settles_def)
  then show ?thesis using assms(2) by (simp add: slack_def)
qed

lemma conclude_slack:
  assumes "settles success" and "conclude success r cb sync = (e, cb', sync')"
  shows "slack sync' cb' = slack sync cb"
proof (cases r)
  case NotConnected
  then show ?thesis
    using assms(2) by (auto simp: conclude_def intro: settles_slack [OF settles_success(8)])
next
  case (Answered run a)
  obtain c1 s1 where a: "(case a of Inl e \<Rightarrow> Callback_Failure e cb sync | Inr p \<Rightarrow> success p cb sync) = (c1, s1)"
    by fastforce
  then have "slack s1 c1 = slack sync cb"
    using settles_slack [OF settles_success(7)] settles_slack [OF assms(1)] by (cases a) auto
  moreover have "slack sync' cb' = slack s1 c1"
    using assms(2) Answered a
    by (cases run) (auto simp: conclude_def intro: settles_slack [OF settles_success(8)])
  ultimately show ?thesis by simp
next
  case (Unanswered run)
  then show ?thesis
    using assms(2) by (cases run) (auto simp: conclude_def intro: settles_slack [OF settles_success(8)])
qed

lemma send_request_slack:
  assumes "send_request env t c req cb sync w = ((e, cb', sync'), w')"
  shows "slack sync' cb' = slack sync cb"
  using assms
  by (cases req) (auto simp: send_request_def apfst_def map_prod_def split: prod.splits
      intro: conclude_slack [OF settles_success(1)] conclude_slack [OF settles_success(2)]
        conclude_slack [OF settles_success(3)] conclude_slack [OF settles_success(4)]
        conclude_slack [OF settles_success(5)] conclude_slack [OF settles_success(6)])

definition bound :: "KineticAsyncOperation list \<Rightarrow> bool" where
  "bound os \<longleftrightarrow> (\<forall>o' \<in> set os. op_callback o' \<noteq> None \<and> op_function o' \<noteq> None)"

lemma bound_simps [simp]:
  "bound []" "bound (o' # os) \<longleftrightarrow> op_callback o' \<noteq> None \<and> op_function o' \<noteq> None \<and> bound os"
  "bound (xs @ ys) \<longleftrightarrow> bound xs \<and> bound ys"
  by (auto simp: bound_def)

lemma issue_step:
  assumes "\<not> cb_done (the (op_callback o'))"
    and "send_request env t (op_connection o') (the (op_function o')) (the (op_callback o')) sync w = ((e, cb, sync1), w1)"
    and "issue_operations env t os sync1 (if e then env_set_error env (op_connection o') w1 else w1) = (os2, sync2, w2)"
  shows "issue_operations env t (o' # os) sync w = (o'\<lparr>op_callback := Some cb\<rparr> # os2, sync2, w2)"
  using assms by (simp add: Let_def finished_def)

lemma issue_skip:
  assumes "cb_done (the (op_callback o'))" and "issue_operations env t os sync w = (os2, sync2, w2)"
  shows "issue_operations env t (o' # os) sync w = (o' # os2, sync2, w2)"
  using assms by (simp add: finished_def)

lemma issue_operations_wf:
  assumes "issue_operations env t os sync w = (os', sync', w')" and "bound os"
  shows "outstanding sync' - pending (op_callbacks os') = outstanding sync - pending (op_callbacks os) \<and>
    bound os' \<and> map op_connection os' = map op_connection os \<and> map op_function os' = map op_function os"
  using assms
proof (induction os arbitrary: sync w os' sync' w')
  case Nil
  then show ?case by simp
next
  case (Cons o' os)
  show ?case
  proof (cases "cb_done (the (op_callback o'))")
    case True
    obtain os2 sync2 w2 where r: "issue_operations env t os sync w = (os2, sync2, w2)" by (metis prod_cases3)
    with Cons issue_skip [OF True r] show ?thesis by (auto simp: True)
  next
    case False
    obtain e cb sync1 w1 where s: "send_request env t (op_connection o') (the (op_function o'))
        (the (op_callback o')) sync w = ((e, cb, sync1), w1)" by (metis prod_cases3 surj_pair)
    obtain os2 sync2 w2 where r: "issue_operations env t os sync1
        (if e then env_set_error env (op_connection o') w1 else w1) = (os2, sync2, w2)" by (metis prod_cases3)
    have "bound os" using Cons.prems(2) by simp
    note IH = Cons.IH [OF r this]
    have "slack sync1 cb = slack sync (the (op_callback o'))"
      using send_request_slack [OF s] .
    with IH issue_step [OF False s r] Cons.prems show ?thesis
      by (auto simp: slack_def)
  qed
qed

lemma issue_operations_finished:
  "\<forall>cb \<in> set (op_callbacks os). cb_done cb \<Longrightarrow> issue_operations env t os sync w = (os, sync, w)"
  by (induction os arbitrary: sync w) (simp_all add: Let_def finished_def)

lemma expire_operations_wf:
  assumes "expire_operations os sync = (os', sync')" and "bound os"
  shows "outstanding sync' = outstanding sync - pending (op_callbacks os) \<and> bound os' \<and>
    (\<forall>cb \<in> set (op_callbacks os'). cb_done cb) \<and>
    map op_connection os' = map op_connection os \<and> map op_function os' = map op_function os"
  using assms
proof (induction os arbitrary: sync os' sync')
  case (Cons o' os)
  obtain cb s1 where r: "OnResult (mk_status CLIENT_IO_ERROR ''Network timeout'') (the (op_callback o')) sync = (cb, s1)"
    by fastforce
  obtain os2 s2 where e: "expire_operations os s1 = (os2, s2)" by fastforce
  show ?case
  proof (cases "cb_done (the (op_callback o'))")
    case True
    then have "s1 = sync" using r by (simp add: OnResult_def)
    with Cons True e show ?thesis by (auto simp: finished_def)
  next
    case False
    then have "cb_done cb" "outstanding s1 = outstanding sync - 1"
      using r by (auto simp: OnResult_def)
    with Cons.IH [OF e] Cons.prems False r e show ?thesis by (auto simp: finished_def)
  qed
qed simp

lemma expire_operations_finished:
  "\<forall>cb \<in> set (op_callbacks os). cb_done cb \<Longrightarrow> expire_operations os sync = (os, sync)"
  by (induction os arbitrary: sync) (simp_all add: Let_def finished_def)

lemma execute_wf:
  assumes "op_wf op" and "executeOperationVector env t op w = (rmap, op', w')"
  shows "op_wf op' \<and> (\<forall>cb \<in> set (op_callbacks (operations op')). cb_done cb) \<and> outstanding (op_sync op') = 0 \<and>
    map op_connection (operations op') = map op_connection (operations op) \<and>
    map op_function (operations op') = map op_function (operations op) \<and>
    num_connections op' = num_connections op \<and> rmap = rmap_of (env_code env) (operations op')"
proof -
  obtain os1 s1 w1 where i: "issue_operations env t (operations op) (op_sync op) w = (os1, s1, w1)"
    by (metis prod_cases3)
  obtain os2 s2 where e: "expire_operations os1 s1 = (os2, s2)" by fastforce
  have b: "bound (operations op)" "outstanding (op_sync op) = pending (op_callbacks (operations op))"
    using assms(1) by (auto simp: op_wf_def bound_def)
  note I = issue_operations_wf [OF i b(1)]
  note E = expire_operations_wf [OF e conjunct1 [OF conjunct2 [OF I]]]
  have "pending (op_callbacks os2) = 0" using E by (simp add: pending_zero_iff)
  moreover have "op' = op\<lparr>operations := os2, op_sync := s2\<rparr>" "rmap = rmap_of (env_code env) os2"
    using assms(2) i e by (auto simp: executeOperationVector_def)
  ultimately show ?thesis
    using I E b by (auto simp: op_wf_def bound_def)
qed

subsection \<open>What a callback holds\<close>

text \<open>The answer of a drive to a request, as the payload that the callback is to hold; a put, a remove
  and a flush answer without one, so that the callback keeps the payload \<open>d\<close> it was made with.\<close>

definition drive_answer ::
  "'w env \<Rightarrow> nat \<Rightarrow> nat \<Rightarrow> request \<Rightarrow> callback_data \<Rightarrow> 'w \<Rightarrow> callback_data reply \<times> 'w" where
  "drive_answer env timeout con req d w =
     (case req of
        Req_Put k v m r \<Rightarrow> apfst (map_reply (\<lambda>_. d)) (env_put env con timeout k v m r w)
      | Req_Delete k v m \<Rightarrow> apfst (map_reply (\<lambda>_. d)) (env_delete env con timeout k v m w)
      | Req_Get k \<Rightarrow> apfst (map_reply (\<lambda>r. GetCallback (Some r))) (env_get env con timeout k w)
      | Req_GetVersion k \<Rightarrow> apfst (map_reply GetVersionCallback) (env_get_version env con timeout k w)
      | Req_Range a b rv mx \<Rightarrow> apfst (map_reply (\<lambda>ks. RangeCallback (Some ks))) (env_range env con timeout a b rv mx w)
      | Req_Flush \<Rightarrow> apfst (map_reply (\<lambda>_. d)) (env_flush env con timeout w)
      | Req_GetLog ts \<Rightarrow> apfst (map_reply (\<lambda>l. GetLogCallback (Some l))) (env_log env con timeout ts w))"

text \<open>The status and payload that an answer leaves behind, and whether the connection is broken.\<close>

definition answer_status :: "callback_data reply \<Rightarrow> kinetic_status" where
  "answer_status a =
     (case a of
        NotConnected \<Rightarrow> mk_status CLIENT_IO_ERROR ''Connection not available.''
      | Answered run (Inl e) \<Rightarrow> e
      | Answered run (Inr p) \<Rightarrow> ok_status
      | Unanswered True \<Rightarrow> mk_status CLIENT_IO_ERROR ''Network timeout''
      | Unanswered False \<Rightarrow> mk_status CLIENT_IO_ERROR ''Run returned false.'')"

definition answer_data :: "callback_data \<Rightarrow> callback_data reply \<Rightarrow> callback_data" where
  "answer_data d a = (case a of Answered run (Inr p) \<Rightarrow> p | _ \<Rightarrow> d)"

definition connection_broken :: "'a reply \<Rightarrow> bool" where
  "connection_broken a = (case a of Answered run r \<Rightarrow> \<not> run | Unanswered run \<Rightarrow> \<not> run | NotConnected \<Rightarrow> False)"

definition answered_callback :: "callback_data \<Rightarrow> callback_data reply \<Rightarrow> callback" where
  "answered_callback d a = \<lparr>cb_status = answer_status a, cb_done = True, cb_data = answer_data d a\<rparr>"

text \<open>The part of an answer that has arrived before the wait.\<close>

definition issued_callback :: "callback \<Rightarrow> callback_data reply \<Rightarrow> callback" where
  "issued_callback cb a = (if a = Unanswered True then cb else answered_callback (cb_data cb) a)"

lemmas answer_defs = answered_callback_def answer_status_def answer_data_def connection_broken_def issued_callback_def

lemma conclude_answer:
  assumes "\<not> cb_done cb" and "\<And>p s. fst (success p cb s) = \<lparr>cb_status = ok_status, cb_done = True, cb_data = f p\<rparr>"
  shows "fst (conclude success r cb s) = connection_broken r"
    and "fst (snd (conclude success r cb s)) = issued_callback cb (map_reply f r)"
proof -
  show "fst (conclude success r cb s) = connection_broken r"
    by (cases r) (auto simp: conclude_def answer_defs Let_def split: prod.splits)
  show "fst (snd (conclude success r cb s)) = issued_callback cb (map_reply f r)"
  proof (cases r)
    case (Answered run a)
    then show ?thesis
    proof (cases a)
      case (Inl e)
      with Answered assms(1) show ?thesis
        by (cases cb) (auto simp: conclude_def answer_defs Callback_Failure_def OnResult_def)
    next
      case (Inr p)
      obtain c s' where c: "success p cb s = (c, s')" by fastforce
      with assms(2) [of p s] have "c = \<lparr>cb_status = ok_status, cb_done = True, cb_data = f p\<rparr>" by simp
      with Answered Inr c show ?thesis by (auto simp: conclude_def answer_defs OnResult_def)
    qed
  qed (use assms(1) in \<open>cases cb; auto simp: conclude_def answer_defs OnResult_def\<close>)+
qed

lemma connection_broken_map [simp]: "connection_broken (map_reply f r) = connection_broken r"
  by (cases r) (simp_all add: connection_broken_def)

lemma conclude_step:
  assumes "\<not> cb_done cb" and "apfst (\<lambda>rep. conclude success rep cb s) q = ((e, cb', s'), w')"
    and "\<And>p s. fst (success p cb s) = \<lparr>cb_status = ok_status, cb_done = True, cb_data = f p\<rparr>"
  shows "\<exists>a. apfst (map_reply f) q = (a, w') \<and> e = connection_broken a \<and> cb' = issued_callback cb a"
proof (cases q)
  case (Pair r w1)
  with assms(2) have "conclude success r cb s = (e, cb', s')" "w1 = w'" by simp_all
  with Pair conclude_answer [where success = success and f = f, OF assms(1,3), of r s] show ?thesis by simp
qed

lemma send_request_answer:
  assumes new: "\<not> cb_done cb" and send: "send_request env t c req cb s w = ((e, cb', s'), w')"
  shows "\<exists>a. drive_answer env t c req (cb_data cb) w = (a, w') \<and> e = connection_broken a \<and> cb' = issued_callback cb a"
proof -
  have "fst (OnResult ok_status (cb\<lparr>cb_data := d\<rparr>) s) = \<lparr>cb_status = ok_status, cb_done = True, cb_data = d\<rparr>" for d s
    using new by (cases cb) (simp add: OnResult_def)
  note success = this [of "cb_data cb", simplified] this
  show ?thesis
    using send
    by (induct req; unfold drive_answer_def send_request_def request.case)
      (erule conclude_step [OF new], simp add: success_defs success)+
qed

text \<open>Along the vector: \<open>ws\<close> are the worlds before and after every request.\<close>

definition executed_operation ::
  "'w env \<Rightarrow> nat \<Rightarrow> (callback \<Rightarrow> callback_data reply \<Rightarrow> callback) \<Rightarrow> KineticAsyncOperation \<Rightarrow> 'w \<Rightarrow>
   KineticAsyncOperation \<times> 'w" where
  "executed_operation env t settle o' w =
     (let cb = the (op_callback o')
      in if finished cb then (o', w)
         else let (a, w) = drive_answer env t (op_connection o') (the (op_function o')) (cb_data cb) w
              in (o'\<lparr>op_callback := Some (settle cb a)\<rparr>,
                  if connection_broken a then env_set_error env (op_connection o') w else w))"

lemma issue_answers:
  assumes "issue_operations env t os s w = (os', s', w')"
  shows "\<exists>ws. length ws = Suc (length os) \<and> hd ws = w \<and> last ws = w' \<and> length os' = length os \<and>
    (\<forall>i < length os. (os' ! i, ws ! Suc i) = executed_operation env t issued_callback (os ! i) (ws ! i))"
  using assms
proof (induction os arbitrary: s w os' s' w')
  case Nil
  then show ?case by (intro exI [of _ "[w]"]) simp
next
  case (Cons o' os)
  let ?cb = "the (op_callback o')"
  have "\<exists>o2 os2 s2 w2. os' = o2 # os2 \<and> (o2, w2) = executed_operation env t issued_callback o' w \<and>
      issue_operations env t os s2 w2 = (os2, s', w')"
  proof (cases "cb_done ?cb")
    case True
    obtain os2 s2 w2 where r: "issue_operations env t os s w = (os2, s2, w2)" by (metis prod_cases3)
    with Cons.prems issue_skip [OF True r] True show ?thesis by (auto simp: executed_operation_def finished_def)
  next
    case False
    obtain e cb s1 w1 where snd: "send_request env t (op_connection o') (the (op_function o')) ?cb s w = ((e, cb, s1), w1)"
      by (metis prod_cases3 surj_pair)
    obtain os2 s2 w2 where r: "issue_operations env t os s1 (if e then env_set_error env (op_connection o') w1 else w1) =
        (os2, s2, w2)" by (metis prod_cases3)
    from Cons.prems issue_step [OF False snd r] have eq: "os' = o'\<lparr>op_callback := Some cb\<rparr> # os2" "s2 = s'" "w2 = w'" by simp_all
    from send_request_answer [OF False snd] False
    have "executed_operation env t issued_callback o' w =
        (o'\<lparr>op_callback := Some cb\<rparr>, if e then env_set_error env (op_connection o') w1 else w1)"
      by (auto simp: executed_operation_def finished_def)
    with eq r show ?thesis by metis
  qed
  then obtain o2 os2 s2 w2 where o2: "os' = o2 # os2" "(o2, w2) = executed_operation env t issued_callback o' w"
    and r: "issue_operations env t os s2 w2 = (os2, s', w')" by blast
  from Cons.IH [OF r] obtain ws where ws: "length ws = Suc (length os)" "hd ws = w2" "last ws = w'" "length os2 = length os"
    "\<forall>i < length os. (os2 ! i, ws ! Suc i) = executed_operation env t issued_callback (os ! i) (ws ! i)" by blast
  then have "ws \<noteq> []" by auto
  with ws(2) have "ws ! 0 = w2" by (simp add: hd_conv_nth)
  with ws \<open>ws \<noteq> []\<close> o2 show ?case
    by (intro exI [of _ "w # ws"]) (auto simp: nth_Cons split: nat.splits)
qed

lemma expire_answers:
  assumes "expire_operations os s = (os', s')"
  shows "os' = map (\<lambda>o'. if finished (the (op_callback o')) then o'
    else o'\<lparr>op_callback := Some ((the (op_callback o'))\<lparr>cb_status := mk_status CLIENT_IO_ERROR ''Network timeout'', cb_done := True\<rparr>)\<rparr>) os"
  using assms
  by (induction os arbitrary: s os' s')
    (auto simp: Let_def OnResult_def finished_def split: prod.splits if_splits)

text \<open>What the wait adds: a request without an answer ends with a timeout.\<close>

lemma execute_answers:
  assumes "executeOperationVector env t op w = (rmap, op', w')"
  shows "\<exists>ws. length ws = Suc (length (operations op)) \<and> hd ws = w \<and> last ws = w' \<and>
    length (operations op') = length (operations op) \<and>
    (\<forall>i < length (operations op). (operations op' ! i, ws ! Suc i) =
       executed_operation env t (\<lambda>cb. answered_callback (cb_data cb)) (operations op ! i) (ws ! i))"
proof -
  obtain os1 s1 w1 where i: "issue_operations env t (operations op) (op_sync op) w = (os1, s1, w1)" by (metis prod_cases3)
  obtain os2 s2 where e: "expire_operations os1 s1 = (os2, s2)" by fastforce
  have op': "operations op' = os2" "w1 = w'" using assms i e by (auto simp: executeOperationVector_def)
  from issue_answers [OF i] obtain ws where ws: "length ws = Suc (length (operations op))" "hd ws = w" "last ws = w1"
    "length os1 = length (operations op)"
    "\<forall>i < length (operations op). (os1 ! i, ws ! Suc i) = executed_operation env t issued_callback (operations op ! i) (ws ! i)"
    by blast
  have "(os2 ! i, ws ! Suc i) = executed_operation env t (\<lambda>cb. answered_callback (cb_data cb)) (operations op ! i) (ws ! i)"
    if "i < length (operations op)" for i
    using ws(4) ws(5) [rule_format, OF that] that
    by (auto simp: expire_answers [OF e] executed_operation_def Let_def finished_def answer_defs split: prod.splits if_splits)
  with ws op' expire_answers [OF e] show ?thesis by (intro exI [of _ ws]) auto
qed

lemma execute_finished:
  assumes "\<forall>cb \<in> set (op_callbacks (operations op)). cb_done cb"
  shows "executeOperationVector env t op w = (rmap_of (env_code env) (operations op), op, w)"
  by (simp add: executeOperationVector_def issue_operations_finished [OF assms]
      expire_operations_finished [OF assms])

subsection \<open>Freshly bound operations\<close>

lemma bind_operation_proj:
  assumes "i < length (operations op)"
  shows "length (operations (bind_operation req d i op)) = length (operations op)"
    "map op_connection (operations (bind_operation req d i op)) = map op_connection (operations op)"
    "num_connections (bind_operation req d i op) = num_connections op"
    "operations (bind_operation req d i op) ! i =
       \<lparr>op_function = Some req, op_callback = Some (fst (KineticCallback_new d (op_sync op))),
        op_connection = op_connection (operations op ! i)\<rparr>"
    "j \<noteq> i \<Longrightarrow> operations (bind_operation req d i op) ! j = operations op ! j"
    "outstanding (op_sync (bind_operation req d i op)) = outstanding (op_sync op) + 1"
  using assms
  by (simp_all add: bind_operation_def KineticCallback_new_def list_update_same_conv map_update)

definition fresh_operation :: "request \<Rightarrow> callback_data \<Rightarrow> nat \<Rightarrow> KineticAsyncOperation" where
  "fresh_operation req d c =
     \<lparr>op_function = Some req,
      op_callback = Some \<lparr>cb_status = no_result, cb_done = False, cb_data = d\<rparr>, op_connection = c\<rparr>"

lemma rebind_fresh:
  "o'\<lparr>op_function := Some req, op_callback := Some \<lparr>cb_status = no_result, cb_done = False, cb_data = d\<rparr>\<rparr> =
     fresh_operation req d (op_connection o')"
  by (cases o') (simp add: fresh_operation_def)

lemma fold_bind_upto:
  "k \<le> length (operations op) \<Longrightarrow>
     fold (bind_operation req d) [0..<k] op =
       op\<lparr>operations := map (fresh_operation req d \<circ> op_connection) (take k (operations op)) @ drop k (operations op),
          op_sync := (op_sync op)\<lparr>outstanding := outstanding (op_sync op) + int k\<rparr>\<rparr>"
proof (induction k)
  case 0
  then show ?case by simp
next
  case (Suc k)
  let ?fresh = "\<lambda>k. map (fresh_operation req d \<circ> op_connection) (take k (operations op)) @ drop k (operations op)"
  have k: "k < length (operations op)" using Suc.prems by simp
  have IH: "fold (bind_operation req d) [0..<k] op = op\<lparr>operations := ?fresh k,
      op_sync := (op_sync op)\<lparr>outstanding := outstanding (op_sync op) + int k\<rparr>\<rparr>"
    using Suc by simp
  have nth: "?fresh k ! k = operations op ! k" using k by (simp add: nth_append)
  have upd: "(?fresh k)[k := fresh_operation req d (op_connection (operations op ! k))] = ?fresh (Suc k)"
    using k by (simp add: list_update_append take_Suc_conv_app_nth Cons_nth_drop_Suc [symmetric])
  have "fold (bind_operation req d) [0..<Suc k] op = bind_operation req d k (fold (bind_operation req d) [0..<k] op)"
    by simp
  also have "\<dots> = op\<lparr>operations := ?fresh (Suc k),
      op_sync := (op_sync op)\<lparr>outstanding := outstanding (op_sync op) + int (Suc k)\<rparr>\<rparr>"
    unfolding IH bind_operation_def KineticCallback_new_def
    using nth upd by (simp add: rebind_fresh algebra_simps del: list_update_append)
  finally show ?case .
qed

lemma bind_all_eq:
  "bind_all req d op =
     op\<lparr>operations := map (fresh_operation req d \<circ> op_connection) (operations op),
        op_sync := (op_sync op)\<lparr>outstanding := outstanding (op_sync op) + int (length (operations op))\<rparr>\<rparr>"
  by (simp add: bind_all_def fold_bind_upto)

lemma pending_fresh: "pending (op_callbacks (map (fresh_operation req d \<circ> op_connection) os)) = int (length os)"
  by (induction os) (simp_all add: fresh_operation_def)

lemma op_wf_bind_all: "outstanding (op_sync op) = 0 \<Longrightarrow> op_wf (bind_all req d op)"
  by (simp add: op_wf_def bind_all_eq pending_fresh) (simp add: fresh_operation_def)

lemma op_wf_constructors:
  "op_wf (ClusterFlushOp_new n)" "op_wf (ClusterLogOp_new ts n sz off)" "op_wf (ClusterRangeOp_new s e mx n)"
  by (simp_all add: ClusterFlushOp_new_def ClusterLogOp_new_def ClusterRangeOp_new_def Let_def op_wf_bind_all
      expandOperationVector_def KineticClusterOperation_new_def CallbackSynchronization_new_def)

subsection \<open>Merging key ranges\<close>

text \<open>Cutting every drive's sorted answer at \<open>m\<close> loses none of the first \<open>m\<close> keys of the union.\<close>

lemma sorted_take_drop:
  "sorted_wrt (<) xs \<Longrightarrow> x \<in> set (take m xs) \<Longrightarrow> y \<in> set (drop m xs) \<Longrightarrow> x < y"
  by (metis append_take_drop_id sorted_wrt_append)

lemma sorted_distinct_take_subset:
  fixes xs :: "'a::linorder list"
  assumes "sorted_wrt (<) xs" and "x \<in> set (take m xs)" and "y \<in> set xs" and "y < x"
  shows "y \<in> set (take m xs)"
proof (rule ccontr)
  assume "y \<notin> set (take m xs)"
  then have "y \<in> set (drop m xs)" using assms(3) by (metis append_take_drop_id Un_iff set_append)
  then have "x < y" using sorted_take_drop [OF assms(1,2)] by blast
  with assms(4) show False by simp
qed

lemma strict_sorted_unique_prefix:
  fixes xs ys :: "'a::linorder list"
  assumes "sorted_wrt (<) xs" and "sorted_wrt (<) ys" and "set ys \<subseteq> set xs"
    and "\<And>x. x \<in> set (take m xs) \<Longrightarrow> x \<in> set ys"
  shows "take m ys = take m xs"
  using assms
proof (induction m arbitrary: xs ys)
  case (Suc m)
  show ?case
  proof (cases xs)
    case Nil
    then show ?thesis using Suc.prems(3) by simp
  next
    case (Cons x xs')
    then have "x \<in> set ys" using Suc.prems(4) by simp
    then obtain y ys' where ys: "ys = y # ys'" by (cases ys) auto
    have "x = y"
    proof (rule ccontr)
      assume "x \<noteq> y"
      then have "x \<in> set ys'" "y \<in> set xs'" using \<open>x \<in> set ys\<close> Suc.prems(3) ys Cons by auto
      then show False using Suc.prems(1,2) ys Cons by fastforce
    qed
    have notin: "x \<notin> set xs'" "x \<notin> set ys'" using Suc.prems(1,2) ys Cons \<open>x = y\<close> by auto
    have "take m ys' = take m xs'"
    proof (rule Suc.IH)
      show "sorted_wrt (<) xs'" "sorted_wrt (<) ys'" using Suc.prems(1,2) ys Cons by simp_all
      show "set ys' \<subseteq> set xs'" using Suc.prems(3) ys Cons \<open>x = y\<close> notin by auto
      fix z assume "z \<in> set (take m xs')"
      then have "z \<noteq> x" "z \<in> set ys" using notin Suc.prems(4) [of z] Cons by (auto dest: in_set_takeD)
      then show "z \<in> set ys'" using ys \<open>x = y\<close> by simp
    qed
    then show ?thesis using ys Cons \<open>x = y\<close> by simp
  qed
qed simp

lemma strict_sorted_sort_remdups: "sorted_wrt (<) (sort (remdups xs))" for xs :: "'a::linorder list"
  by (simp add: strict_sorted_iff)

lemma merge_cut:
  fixes Ks :: "'a::linorder list list"
  assumes "\<And>K. K \<in> set Ks \<Longrightarrow> sorted_wrt (<) K"
  shows "take m (sort (remdups (concat (map (take m) Ks)))) = take m (sort (remdups (concat Ks)))"
proof (rule strict_sorted_unique_prefix)
  let ?all = "sort (remdups (concat Ks))" let ?cut = "sort (remdups (concat (map (take m) Ks)))"
  show "set ?cut \<subseteq> set ?all" by (auto dest: in_set_takeD)
  fix x assume x: "x \<in> set (take m ?all)"
  then obtain K where K: "K \<in> set Ks" "x \<in> set K" by (force dest: in_set_takeD)
  have "x \<in> set (take m K)"
  proof (rule ccontr)
    assume notin: "x \<notin> set (take m K)"
    have len: "m \<le> length K" using notin K(2) by (metis linorder_le_cases take_all)
    have "\<And>y. y \<in> set (take m K) \<Longrightarrow> y < x"
    proof -
      fix y assume "y \<in> set (take m K)"
      moreover have "x \<in> set (drop m K)" using notin K(2) by (metis append_take_drop_id Un_iff set_append)
      ultimately show "y < x" using sorted_take_drop [OF assms [OF K(1)]] by blast
    qed
    then have "set (take m K) \<subseteq> set (take m ?all) - {x}"
      using sorted_distinct_take_subset [OF strict_sorted_sort_remdups x] K(1) by (auto dest: in_set_takeD)
    then have "card (set (take m K)) \<le> card (set (take m ?all) - {x})" by (intro card_mono) auto
    moreover have "card (set (take m K)) = m"
      using assms [OF K(1)] len by (simp add: distinct_card strict_sorted_iff distinct_take)
    moreover have "card (set (take m ?all) - {x}) < m"
    proof -
      have "card (set (take m ?all)) \<le> m" using card_length [of "take m ?all"] by simp
      then show ?thesis using x by (metis List.finite_set card_Diff1_less less_le_trans)
    qed
    ultimately show False by simp
  qed
  then show "x \<in> set ?cut" using K(1) by auto
qed (rule strict_sorted_sort_remdups)+

section \<open>Properties\<close>

lemma sim_codes_ok: "codes_ok sim_code"
proof -
  have "inj (CompareStatusCode_toInt sim_code)"
  proof (rule injI)
    fix a b assume "CompareStatusCode_toInt sim_code a = CompareStatusCode_toInt sim_code b"
    moreover have "1 - 2 * x \<noteq> 2 * y" "2 * y \<noteq> 1 - 2 * x" for x y :: int by presburger+
    ultimately show "a = b"
      by (cases a; cases b) (auto simp: CompareStatusCode_toInt_def split: if_splits)
  qed
  moreover have "\<forall>c. c \<notin> {OK, REMOTE_NOT_FOUND, REMOTE_VERSION_MISMATCH} \<longrightarrow> 0 < sim_code c"
  proof (intro allI impI)
    fix c assume "c \<notin> {OK, REMOTE_NOT_FOUND, REMOTE_VERSION_MISMATCH}"
    then show "0 < sim_code c" by (cases c) auto
  qed
  ultimately show ?thesis by (fastforce simp: codes_ok_def)
qed

text \<open>C28: Executing an operation vector settles it: whatever the drives do, afterwards no callback is
  outstanding and every callback holds exactly what its drive answered. An operation that was
  finished before is not sent again and keeps its result; every other one was sent once, in the order of
  the vector, each in the world that the ones before it left, and its callback holds the payload and OK, the error
  of the drive, or the client error for a missing connection, a broken connection or an expired
  request; the connection is marked exactly when \<^verbatim>\<open>Run\<close> failed. Every operation is counted once in the
  result map, and the counter of a code is the number of callbacks that ended with it.\<close>

theorem execute_settles:
  assumes "op_wf op" and "codes_ok (env_code env)" and "executeOperationVector env t op w = (rmap, op', w')"
  shows "(\<forall>cb \<in> set (op_callbacks (operations op')). finished cb) \<and> outstanding (op_sync op') = 0 \<and>
    (\<exists>ws. length ws = Suc (length (operations op)) \<and> hd ws = w \<and> last ws = w' \<and>
      length (operations op') = length (operations op) \<and>
      (\<forall>i < length (operations op). (operations op' ! i, ws ! Suc i) =
         executed_operation env t (\<lambda>cb. answered_callback (cb_data cb)) (operations op ! i) (ws ! i))) \<and>
    rmap_total rmap = length (operations op) \<and>
    (\<forall>c. rmap_get (env_code env) rmap c = count_code c (operations op'))"
proof (intro conjI)
  note E = execute_wf [OF assms(1,3)]
  then have len: "length (operations op') = length (operations op)" by (metis length_map)
  show "\<forall>cb \<in> set (op_callbacks (operations op')). finished cb" using E by (simp add: finished_def)
  show "outstanding (op_sync op') = 0" using E by simp
  show "rmap_total rmap = length (operations op)" using E len by (simp add: rmap_of_total)
  show "\<forall>c. rmap_get (env_code env) rmap c = count_code c (operations op')"
    using E rmap_of_count [OF assms(2)] by simp
qed (rule execute_answers [OF assms(3)])

theorem execute_settles_witness:
  "outstanding (op_sync (fst (snd (executeOperationVector sim_env 10 (ClusterFlushOp_new 3) (sim_init [1]))))) = 0 \<and>
   map answer_status (map (\<lambda>c. fst (drive_answer sim_env 10 c Req_Flush BasicCallback (sim_init [1]))) [0, 1]) =
     [ok_status, mk_status CLIENT_IO_ERROR ''Connection not available.'']"
proof
  obtain rmap op' w' where r: "executeOperationVector sim_env 10 (ClusterFlushOp_new 3) (sim_init [1]) = (rmap, op', w')"
    by (metis prod_cases3)
  have "codes_ok (env_code sim_env)" using sim_codes_ok by (simp add: sim_env_def)
  from execute_settles [OF op_wf_constructors(1) this r] r
  show "outstanding (op_sync (fst (snd (executeOperationVector sim_env 10 (ClusterFlushOp_new 3) (sim_init [1]))))) = 0" by simp
qed (simp add: drive_answer_def answer_status_def sim_env_def sim_init_def)

text \<open>Results are never fetched twice: executing a settled vector again, at any later time,
  sends nothing to the drives and yields the same results. The second phase of a get relies on it.\<close>

theorem execute_again:
  assumes "op_wf op" and "executeOperationVector env t op w = (rmap, op', w')"
  shows "executeOperationVector env t2 op' w2 = (rmap, op', w2)"
proof -
  note E = execute_wf [OF assms]
  have "\<forall>cb \<in> set (op_callbacks (operations op')). cb_done cb" using E by blast
  from execute_finished [OF this] E show ?thesis by simp
qed

theorem execute_again_witness:
  "snd (snd (executeOperationVector sim_env 10
     (fst (snd (executeOperationVector sim_env 10 (ClusterFlushOp_new 2) (sim_init [])))) (sim_init [0]))) = sim_init [0]"
proof -
  obtain rmap op' w' where r: "executeOperationVector sim_env 10 (ClusterFlushOp_new 2) (sim_init []) = (rmap, op', w')"
    by (metis prod_cases3)
  from execute_again [OF op_wf_constructors(1) r] r show ?thesis by simp
qed

text \<open>A range request is answered with the first keys of the cluster: when every drive that
  answers returns the first \<open>m\<close> of its keys in ascending order, the merged and cut result is exactly
  the first \<open>m\<close> keys of the union, without duplicates.\<close>

theorem getKeys_first_keys:
  assumes "\<And>o'. o' \<in> set (operations op) \<Longrightarrow> sorted_wrt (<) (K o') \<and>
    cb_getKeys (the (op_callback o')) = Some (take m (K o'))"
  shows "ClusterRangeOp_getKeys m op = take m (sort (remdups (concat (map K (operations op)))))"
proof -
  let ?os = "operations op"
  have eq: "map (\<lambda>o'. case cb_getKeys (the (op_callback o')) of None \<Rightarrow> [] | Some opkeys \<Rightarrow> opkeys) ?os =
      map (take m) (map K ?os)"
    using assms by simp
  have cut: "(if m < length ks then take m ks else ks) = take m ks" for ks :: "string list"
    by simp
  show ?thesis
    unfolding ClusterRangeOp_getKeys_def eq Let_def cut
    by (rule merge_cut) (use assms in auto)
qed

theorem getKeys_first_keys_witness:
  "ClusterRangeOp_getKeys 2 \<lparr>operations =
     [(fresh_operation Req_Flush (RangeCallback (Some [''a'', ''c''])) 0),
      (fresh_operation Req_Flush (RangeCallback (Some [''b''])) 1)],
     op_sync = CallbackSynchronization_new, num_connections = 2\<rparr> = [''a'', ''b'']"
proof -
  let ?op = "\<lparr>operations =
     [(fresh_operation Req_Flush (RangeCallback (Some [''a'', ''c''])) 0),
      (fresh_operation Req_Flush (RangeCallback (Some [''b''])) 1)],
     op_sync = CallbackSynchronization_new, num_connections = 2\<rparr>"
  let ?K = "\<lambda>o'. if op_connection o' = 0 then [''a'', ''c'', ''d''] else [''b'']"
  have "ClusterRangeOp_getKeys 2 ?op = take 2 (sort (remdups (concat (map ?K (operations ?op)))))"
    by (rule getKeys_first_keys) (auto simp: fresh_operation_def cb_getKeys_def less_char_def)
  also have "\<dots> = [''a'', ''b'']" by code_simp
  finally show ?thesis .
qed

text \<open>A flush reports success only when at least the requested number of drives confirmed it.\<close>

theorem flush_quorum:
  assumes "op_wf op" and "codes_ok (env_code env)"
    and "ClusterFlushOp_execute env t q op w = (st, op', w')" and "status_ok st"
  shows "q \<le> count_code OK (operations op')"
proof -
  obtain rmap op1 w1 where r: "executeOperationVector env t op w = (rmap, op1, w1)" by (metis prod_cases3)
  with assms(3,4) have q: "quorum_status rmap q = Some OK" and op: "op' = op1"
    by (auto simp: ClusterFlushOp_execute_def split: option.splits)
  then obtain n where "(OK, n) \<in> set rmap" "q \<le> n"
    by (auto simp: quorum_status_def find_Some_iff) (metis nth_mem snd_conv)
  then show ?thesis
    using execute_wf [OF assms(1) r] rmap_of_mem_count [OF assms(2)] op by metis
qed

theorem flush_quorum_witness:
  "2 \<le> count_code OK (operations (fst (snd (ClusterFlushOp_execute sim_env 10 2 (ClusterFlushOp_new 3) (sim_init [1])))))"
proof -
  let ?r = "ClusterFlushOp_execute sim_env 10 2 (ClusterFlushOp_new 3) (sim_init [1])"
  have "codes_ok (env_code sim_env)" using sim_codes_ok by (simp add: sim_env_def)
  moreover have "status_ok (fst ?r)" by code_simp
  ultimately show ?thesis
    using flush_quorum [OF op_wf_constructors(1), of sim_env 10 2 3 "sim_init [1]" "fst ?r" "fst (snd ?r)" "snd (snd ?r)"]
    by simp
qed

text \<open>The merged keys are in ascending order even for a reverse range, whose contract is descending
  order. With a limit of one key per drive, the merged result of a reverse range over two drives is
  the smaller of the drives' last keys.\<close>

theorem reverse_range_ascending:
  "sorted (ClusterRangeOp_getKeys m op) \<and>
   (let w = (sim_init [])\<lparr>sim_store := (\<lambda>c. if c = 0 then [(''a'', r), (''c'', r)] else [(''b'', r)])\<rparr>;
        (st, op, w) = ClusterRangeOp_execute sim_env 10 2 (ClusterRangeOp_new ''z'' ''a'' 1 2) w
    in status_ok st \<and> ClusterRangeOp_getKeys 1 op = [''b''])"
proof
  show "sorted (ClusterRangeOp_getKeys m op)"
    by (simp add: ClusterRangeOp_getKeys_def Let_def sorted_wrt_take)
  show "let w = (sim_init [])\<lparr>sim_store := (\<lambda>c. if c = 0 then [(''a'', r), (''c'', r)] else [(''b'', r)])\<rparr>;
        (st, op, w) = ClusterRangeOp_execute sim_env 10 2 (ClusterRangeOp_new ''z'' ''a'' 1 2) w
    in status_ok st \<and> ClusterRangeOp_getKeys 1 op = [''b'']"
    by code_simp
qed

end
