(* ===== verification/Stripe_Operation.thy ===== *)
theory Stripe_Operation
  imports Cluster_Operation Redundancy_Provider Utility Murmur_Hash Crc32c
begin

text \<open>
  The stripe operations of src/KineticClusterStripeOperation.cc: placement of the chunks of a key on
  the drives, PUT and DEL with the resolution of partial writes, GET in its phases (data chunks,
  parity chunks, handoff chunks) with the reconstruction of the value, indicator and handoff keys.

  The redundancy provider is shared by all operations of a cluster and is passed along where a
  computation may extend its cache. Exceptions are values. Loops that wait for other clients are
  partial functions: \<open>None\<close> stands for a loop that never ends.
\<close>

section \<open>Model\<close>

subsection \<open>Common part of all stripe operations\<close>

record StripeOperation =
  so_op :: KineticClusterOperation
  so_key :: string
  need_indicator :: bool

definition KineticClusterStripeOperation_new :: "nat \<Rightarrow> string \<Rightarrow> StripeOperation" where
  "KineticClusterStripeOperation_new n key =
     \<lparr>so_op = KineticClusterOperation_new n, so_key = key, need_indicator = False\<rparr>"

text \<open>The connection indices: a 32-bit index that starts at the hash of the key plus the offset.\<close>

fun stripe_connections :: "nat \<Rightarrow> 32 word \<Rightarrow> nat \<Rightarrow> nat list" where
  "stripe_connections n index 0 = []"
| "stripe_connections n index (Suc sz) =
     (let index = word_of_nat (unat (index + 1) mod n) in unat index # stripe_connections n index sz)"

definition key_connections :: "nat \<Rightarrow> string \<Rightarrow> nat \<Rightarrow> nat \<Rightarrow> nat list" where
  "key_connections n key sz offset =
     stripe_connections n (MurmurHash3_x86_32 key 0 + word_of_nat offset) sz"

definition stripe_expandOperationVector :: "nat \<Rightarrow> nat \<Rightarrow> StripeOperation \<Rightarrow> StripeOperation" where
  "stripe_expandOperationVector sz offset so =
     so\<lparr>so_op := (so_op so)\<lparr>operations := operations (so_op so) @
          map empty_operation (key_connections (num_connections (so_op so)) (so_key so) sz offset)\<rparr>\<rparr>"

definition makeRecord :: "string \<Rightarrow> string \<Rightarrow> kinetic_record" where
  "makeRecord value version =
     \<lparr>rec_value = value, rec_version = version, rec_tag = dec (unat (crc32c 0 value))\<rparr>"

definition validStatusCode :: "status_code \<Rightarrow> bool" where
  "validStatusCode code \<longleftrightarrow> code = OK \<or> code = REMOTE_NOT_FOUND \<or> code = REMOTE_VERSION_MISMATCH"

text \<open>\<^verbatim>\<open>createSingleKey\<close>: one drive after the other until one gives a valid answer. One pass of the
  loop:\<close>

definition createSingleKey_step ::
  "'w env \<Rightarrow> string \<Rightarrow> kinetic_record \<Rightarrow> StripeOperation \<Rightarrow> 'w \<Rightarrow> kinetic_status \<times> StripeOperation \<times> 'w" where
  "createSingleKey_step env keyname record so w =
     (let so = stripe_expandOperationVector 1 (length (operations (so_op so))) so;
          last_op = length (operations (so_op so)) - 1;
          op = bind_operation (Req_Put keyname [] REQUIRE_SAME_VERSION record) PutCallback last_op (so_op so);
          (rmap, op, w) = executeOperationVector env 5 op w
      in (getResult (the (op_callback (last (operations op)))), so\<lparr>so_op := op\<rparr>, w))"

function createSingleKey_loop ::
  "'w env \<Rightarrow> string \<Rightarrow> kinetic_record \<Rightarrow> nat \<Rightarrow> nat \<Rightarrow> StripeOperation \<Rightarrow> 'w \<Rightarrow>
   kinetic_status \<times> StripeOperation \<times> 'w" where
  "createSingleKey_loop env keyname record n count so w =
     (let (st, so, w) = createSingleKey_step env keyname record so w
      in if \<not> validStatusCode (statusCode st) \<and> count + 1 < n
         then createSingleKey_loop env keyname record n (count + 1) so w else (st, so, w))"
  by auto
termination by (relation "measure (\<lambda>(env, k, r, n, count, so, w). n - count)") auto

declare createSingleKey_loop.simps [simp del]

definition createSingleKey ::
  "'w env \<Rightarrow> string \<Rightarrow> string \<Rightarrow> string \<Rightarrow> StripeOperation \<Rightarrow> 'w \<Rightarrow>
   kinetic_status \<times> StripeOperation \<times> 'w" where
  "createSingleKey env keyname keyversion keyvalue so w =
     createSingleKey_loop env keyname (makeRecord keyvalue keyversion) (num_connections (so_op so)) 0 so w"

definition putIndicatorKey :: "'w env \<Rightarrow> StripeOperation \<Rightarrow> 'w \<Rightarrow> StripeOperation \<times> 'w" where
  "putIndicatorKey env so w =
     (let (st, so, w) = createSingleKey env (makeIndicatorKey (so_key so)) ''indicator'' [] so w in (so, w))"

definition needsIndicator :: "StripeOperation \<Rightarrow> bool" where
  "needsIndicator so = need_indicator so"

subsection \<open>GET: versions and values of a stripe\<close>

record VersionCount =
  vc_version :: "string option"
  vc_frequency :: nat

record StripeOperation_GET =
  get_so :: StripeOperation
  skip_value :: bool
  get_version :: VersionCount
  get_value :: "string option"

definition get_request :: "bool \<Rightarrow> string \<Rightarrow> request" where
  "get_request skip key = (if skip then Req_GetVersion key else Req_Get key)"

definition get_callback :: "bool \<Rightarrow> callback_data" where
  "get_callback skip = (if skip then GetVersionCallback [] else GetCallback None)"

definition GET_fillOperation :: "nat \<Rightarrow> string \<Rightarrow> StripeOperation_GET \<Rightarrow> StripeOperation_GET" where
  "GET_fillOperation i key g =
     g\<lparr>get_so := (get_so g)\<lparr>so_op := bind_operation (get_request (skip_value g) key)
          (get_callback (skip_value g)) i (so_op (get_so g))\<rparr>\<rparr>"

definition GET_fillOperationVector :: "StripeOperation_GET \<Rightarrow> StripeOperation_GET" where
  "GET_fillOperationVector g =
     fold (\<lambda>i g. if op_callback (operations (so_op (get_so g)) ! i) = None
                 then GET_fillOperation i (so_key (get_so g)) g else g)
       [0..<length (operations (so_op (get_so g)))] g"

definition StripeOperation_GET_new ::
  "string \<Rightarrow> bool \<Rightarrow> nat \<Rightarrow> redundancy_provider \<Rightarrow> bool \<Rightarrow> StripeOperation_GET" where
  "StripeOperation_GET_new key skip n rp skip_partial_get =
     (let so = stripe_expandOperationVector (if skip_partial_get then rp_size rp else numData rp) 0
                 (KineticClusterStripeOperation_new n key)
      in GET_fillOperationVector
           \<lparr>get_so = so, skip_value = skip, get_version = \<lparr>vc_version = None, vc_frequency = 0\<rparr>,
            get_value = None\<rparr>)"

definition getVersionEqual :: "callback \<Rightarrow> callback \<Rightarrow> bool" where
  "getVersionEqual lhs rhs =
     (if \<not> status_ok (getResult lhs) \<or> \<not> status_ok (getResult rhs) then False
      else cb_getVersion lhs = cb_getVersion rhs)"

definition getRecordVersionEqual :: "callback \<Rightarrow> callback \<Rightarrow> bool" where
  "getRecordVersionEqual lhs rhs =
     (if \<not> status_ok (getResult lhs) \<or> \<not> status_ok (getResult rhs) then False
      else rec_version (the (getRecord lhs)) = rec_version (the (getRecord rhs)))"

definition version_equal :: "bool \<Rightarrow> callback \<Rightarrow> callback \<Rightarrow> bool" where
  "version_equal skip lhs rhs = (if skip then getVersionEqual lhs rhs else getRecordVersionEqual lhs rhs)"

text \<open>The double loop of \<^verbatim>\<open>mostFrequentVersion\<close>, which stops at an absolute majority.\<close>

fun most_frequent_loop ::
  "bool \<Rightarrow> callback list \<Rightarrow> callback list \<Rightarrow> nat \<Rightarrow> callback option \<Rightarrow> nat \<times> callback option" where
  "most_frequent_loop skip all [] best element = (best, element)"
| "most_frequent_loop skip all (o' # os) best element =
     (let frequency = length (filter (version_equal skip o') all);
          (best, element) = (if best < frequency then (frequency, Some o') else (best, element))
      in if length all div 2 < frequency then (best, element)
         else most_frequent_loop skip all os best element)"

definition mostFrequentVersion :: "StripeOperation_GET \<Rightarrow> VersionCount" where
  "mostFrequentVersion g =
     (let cbs = op_callbacks (operations (so_op (get_so g)));
          (frequency, element) = most_frequent_loop (skip_value g) cbs cbs 0 None
      in \<lparr>vc_version =
            (if frequency \<noteq> 0
             then Some (if skip_value g then cb_getVersion (the element)
                        else rec_version (the (getRecord (the element)))) else None),
          vc_frequency = frequency\<rparr>)"

definition getVersionAt :: "StripeOperation_GET \<Rightarrow> nat \<Rightarrow> string option" where
  "getVersionAt g index =
     (let cb = the (op_callback (operations (so_op (get_so g)) ! index))
      in if statusCode (getResult cb) = REMOTE_NOT_FOUND then Some []
         else if status_ok (getResult cb)
         then Some (if skip_value g then cb_getVersion cb else rec_version (the (getRecord cb)))
         else None)"

text \<open>\<^verbatim>\<open>insertHandoffChunks\<close>: every handoff key found on a drive redirects its chunk to that drive.
  A chunk number outside the operation vector would index it out of bounds.\<close>

definition handoff_chunk_number :: "string \<Rightarrow> int res" where
  "handoff_chunk_number opkey =
     res_bind (std_substr opkey (size_add (find_last_of opkey (CHR ''='')) 1) npos) (\<lambda>s. Inr (Convert_toInt [s]))"

definition insert_handoff_key ::
  "nat \<Rightarrow> string \<Rightarrow> StripeOperation_GET res \<Rightarrow> StripeOperation_GET res" where
  "insert_handoff_key i opkey r =
     res_bind r (\<lambda>g. res_bind (handoff_chunk_number opkey) (\<lambda>chunk_number.
       let ops = operations (so_op (get_so g)); c = nat chunk_number
       in if chunk_number < 0 \<or> length ops \<le> c then Inl Undefined_behaviour
          else Inr (GET_fillOperation c opkey
                 (g\<lparr>get_so := (get_so g)\<lparr>so_op := (so_op (get_so g))
                     \<lparr>operations := ops[c := (ops ! c)\<lparr>op_connection := i\<rparr>]\<rparr>\<rparr>\<rparr>))))"

definition insertHandoffChunks ::
  "'w env \<Rightarrow> StripeOperation_GET \<Rightarrow> 'w \<Rightarrow> (bool \<times> StripeOperation_GET) res \<times> 'w" where
  "insertHandoffChunks env g w =
     (case vc_version (get_version g) of
        None \<Rightarrow> (Inr (False, g), w)
      | Some v \<Rightarrow>
          let start_key = ''handoff='' @ so_key (get_so g) @ ''version='' @ v;
              end_key = ''handoff='' @ so_key (get_so g) @ ''version='' @ v @ ''~'';
              n = num_connections (so_op (get_so g));
              (rmap, range, w) = executeOperationVector env 5 (ClusterRangeOp_new start_key end_key 100 n) w;
              found = concat (map (\<lambda>i. case cb_getKeys (the (op_callback (operations range ! i))) of
                                         None \<Rightarrow> [] | Some opkeys \<Rightarrow> map (Pair i) opkeys)
                         [0..<length (operations range)])
          in (res_bind (fold (\<lambda>(i, opkey). insert_handoff_key i opkey) found (Inr g))
                (\<lambda>g. Inr (found \<noteq> [], g)), w))"

subsection \<open>Reconstructing the value\<close>

text \<open>Step 1 for one chunk: its place in the stripe, whether it is a zeroed data chunk, whether
  recovery is needed and whether an indicator is.\<close>

definition stripe_chunk :: "string \<Rightarrow> nat \<Rightarrow> nat \<Rightarrow> callback \<Rightarrow> string \<times> bool \<times> bool \<times> bool" where
  "stripe_chunk version nd i cb =
     (case getRecord cb of
        Some record \<Rightarrow>
          if rec_version record = version then
            let tag = Convert_toString [dec (unat (crc32c 0 (rec_value record)))]
            in if tag = rec_tag record
               then (rec_value record, length (rec_value record) = 0 \<and> i < nd, False, False)
               else ([], False, True, True)
          else ([], False, True, False)
      | None \<Rightarrow> ([], False, True, False))"

definition first_chunk_size :: "string list \<Rightarrow> nat" where
  "first_chunk_size stripe = (case List.find (\<lambda>c. length c \<noteq> 0) stripe of None \<Rightarrow> 0 | Some c \<Rightarrow> length c)"

text \<open>Step 2: append the chunks up to the size of the value.\<close>

fun merge_chunks :: "nat \<Rightarrow> string \<Rightarrow> string list \<Rightarrow> string" where
  "merge_chunks sz value [] = value"
| "merge_chunks sz value (c # cs) =
     (if length value + length c \<le> sz then merge_chunks sz (value @ c) cs
      else value @ take (sz - length value) c)"

definition reconstructValue ::
  "isal \<Rightarrow> redundancy_provider \<Rightarrow> StripeOperation_GET \<Rightarrow> redundancy_provider \<times> StripeOperation_GET \<times> unit res" where
  "reconstructValue lib rp g =
     (let g = g\<lparr>get_value := Some []\<rparr>
      in case uuidDecodeSize (vc_version (get_version g)) of
           Inl e \<Rightarrow> (rp, g, Inl e)
         | Inr sz \<Rightarrow>
             if sz = 0 then (rp, g, Inr ())
             else
               let version = the (vc_version (get_version g));
                   cbs = op_callbacks (operations (so_op (get_so g)));
                   chunks = map (\<lambda>(i, cb). stripe_chunk version (numData rp) i cb) (enumerate 0 cbs);
                   stripe = map fst chunks;
                   need_recovery = (\<exists>(c, z, r, ni) \<in> set chunks. r);
                   g = (if \<exists>(c, z, r, ni) \<in> set chunks. ni
                        then g\<lparr>get_so := (get_so g)\<lparr>need_indicator := True\<rparr>\<rparr> else g)
               in if need_recovery then
                    let zero = replicate (first_chunk_size stripe) (CHR 0x00);
                        stripe = map (\<lambda>(c, z, r, ni). if z then zero else c) chunks
                    in case compute lib rp (map Some stripe) of
                         (rp, Inl e) \<Rightarrow> (rp, g, Inl e)
                       | (rp, Inr stripe) \<Rightarrow>
                           (rp, g\<lparr>get_value := Some (merge_chunks sz [] (map the stripe))\<rparr>, Inr ())
                  else (rp, g\<lparr>get_value := Some (merge_chunks sz [] stripe)\<rparr>, Inr ()))"

text \<open>The loop over the result map in \<^verbatim>\<open>do_execute\<close>.\<close>

fun evaluate_results ::
  "isal \<Rightarrow> result_map \<Rightarrow> redundancy_provider \<Rightarrow> StripeOperation_GET \<Rightarrow>
   redundancy_provider \<times> StripeOperation_GET \<times> kinetic_status res" where
  "evaluate_results lib [] rp g = (rp, g, Inl Runtime_error)"
| "evaluate_results lib ((code, n) # rmap) rp g =
     (if numData rp \<le> n then
        let (rp, g, r) = (if code = OK \<and> \<not> skip_value g then reconstructValue lib rp g else (rp, g, Inr ()))
        in case r of
             Inl e \<Rightarrow> (rp, g, Inl e)
           | Inr _ \<Rightarrow>
               if validStatusCode code then (rp, g, Inr (mk_status code [])) else evaluate_results lib rmap rp g
      else evaluate_results lib rmap rp g)"

definition do_execute ::
  "'w env \<Rightarrow> isal \<Rightarrow> nat \<Rightarrow> redundancy_provider \<Rightarrow> StripeOperation_GET \<Rightarrow> 'w \<Rightarrow>
   redundancy_provider \<times> StripeOperation_GET \<times> kinetic_status res \<times> 'w" where
  "do_execute env lib timeout rp g w =
     (let num = env_code env;
          (rmap, op, w) = executeOperationVector env timeout (so_op (get_so g)) w;
          g = g\<lparr>get_so := (get_so g)\<lparr>so_op := op\<rparr>\<rparr>;
          version = mostFrequentVersion g;
          g = g\<lparr>get_version := version\<rparr>;
          misaligned = (vc_frequency version < rmap_get num rmap OK);
          rmap = rmap_update num OK (if misaligned then (\<lambda>_. vc_frequency version) else id) rmap;
          g = (if misaligned then g\<lparr>get_so := (get_so g)\<lparr>need_indicator := True\<rparr>\<rparr> else g);
          (rp, g, r) = evaluate_results lib rmap rp g
      in (rp, g, r, w))"

definition add_parities :: "redundancy_provider \<Rightarrow> StripeOperation_GET \<Rightarrow> StripeOperation_GET" where
  "add_parities rp g =
     (let sz = length (operations (so_op (get_so g)))
      in if sz = numData rp
         then GET_fillOperationVector
                (g\<lparr>get_so := stripe_expandOperationVector (numParity rp) sz (get_so g)\<rparr>)
         else g)"

text \<open>\<^verbatim>\<open>StripeOperation_GET::execute\<close>: every attempt runs in a handler for \<^verbatim>\<open>std::exception\<close>.
  Undefined behaviour (chunk numbers out of range) is not an exception and is passed on.\<close>

definition attempt_failed :: "kinetic_status res \<Rightarrow> bool" where
  "attempt_failed r = (case r of Inl e \<Rightarrow> e \<noteq> Undefined_behaviour | Inr _ \<Rightarrow> False)"

definition handoff_phase ::
  "'w env \<Rightarrow> isal \<Rightarrow> nat \<Rightarrow> redundancy_provider \<Rightarrow> StripeOperation_GET \<Rightarrow> 'w \<Rightarrow>
   redundancy_provider \<times> StripeOperation_GET \<times> kinetic_status res \<times> 'w" where
  "handoff_phase env lib timeout rp g w =
     (let failed = mk_status CLIENT_IO_ERROR (''Key '' @ so_key (get_so g) @ '' not accessible.'')
      in case insertHandoffChunks env g w of
           (Inl e, w) \<Rightarrow> (rp, g, Inl e, w)
         | (Inr (inserted, g), w) \<Rightarrow>
             if inserted then
               let (rp, g, r, w) = do_execute env lib timeout rp g w
               in if attempt_failed r then (rp, g, Inr failed, w) else (rp, g, r, w)
             else (rp, g, Inr failed, w))"

definition GET_execute ::
  "'w env \<Rightarrow> isal \<Rightarrow> nat \<Rightarrow> redundancy_provider \<Rightarrow> StripeOperation_GET \<Rightarrow> 'w \<Rightarrow>
   redundancy_provider \<times> StripeOperation_GET \<times> kinetic_status res \<times> 'w" where
  "GET_execute env lib timeout rp g w =
     (let (rp, g, r, w) = do_execute env lib timeout rp g w
      in if \<not> attempt_failed r then (rp, g, r, w)
         else
           let (rp, g, r, w) = do_execute env lib timeout rp (add_parities rp g) w
           in if \<not> attempt_failed r then (rp, g, r, w)
              else handoff_phase env lib timeout rp g w)"

subsection \<open>Writing: repair of partial writes\<close>

text \<open>How a write operation fills one entry of its vector; PUT and DEL override it.\<close>

type_synonym fill = "nat \<Rightarrow> string \<Rightarrow> write_mode \<Rightarrow> KineticClusterOperation \<Rightarrow> KineticClusterOperation"

definition attemptStripeRepair ::
  "'w env \<Rightarrow> fill \<Rightarrow> nat \<Rightarrow> StripeOperation_GET \<Rightarrow> KineticClusterOperation \<Rightarrow> 'w \<Rightarrow>
   bool \<times> KineticClusterOperation \<times> 'w" where
  "attemptStripeRepair env fill timeout drive_versions op w =
     (let op = fold (\<lambda>opnum op.
                 if statusCode (getResult (the (op_callback (operations op ! opnum)))) = REMOTE_VERSION_MISMATCH
                 then case getVersionAt drive_versions opnum of
                        Some drive_version \<Rightarrow> fill opnum drive_version REQUIRE_SAME_VERSION op
                      | None \<Rightarrow> op
                 else op) [0..<length (operations op)] op;
          (rmap, op, w) = executeOperationVector env timeout op w
      in (rmap_get (env_code env) rmap REMOTE_VERSION_MISMATCH = 0, op, w))"

text \<open>The versions currently on the drives, with \<^verbatim>\<open>REMOTE_NOT_FOUND\<close> counted as the empty version.\<close>

definition query_versions ::
  "'w env \<Rightarrow> nat \<Rightarrow> redundancy_provider \<Rightarrow> nat \<Rightarrow> string \<Rightarrow> 'w \<Rightarrow> VersionCount \<times> StripeOperation_GET \<times> 'w" where
  "query_versions env timeout rp n key w =
     (let g = StripeOperation_GET_new key True n rp True;
          (rmap, op, w) = executeOperationVector env timeout (so_op (get_so g)) w;
          g = g\<lparr>get_so := (get_so g)\<lparr>so_op := op\<rparr>\<rparr>;
          most_frequent = mostFrequentVersion g;
          absent = rmap_get (env_code env) rmap REMOTE_NOT_FOUND
      in (if vc_frequency most_frequent < absent then \<lparr>vc_version = Some [], vc_frequency = absent\<rparr> else most_frequent,
          g, w))"

text \<open>The position of the first chunk that carries the version.\<close>

definition version_position :: "string \<Rightarrow> StripeOperation_GET \<Rightarrow> nat \<Rightarrow> nat option" where
  "version_position version g sz =
     List.find (\<lambda>i. case getVersionAt g i of Some v \<Rightarrow> version = v | None \<Rightarrow> version = []) [0..<sz]"

text \<open>One pass of the loop body of \<^verbatim>\<open>resolvePartialWrite\<close> up to its decision. The most frequent
  version is dereferenced, which is undefined when no drive answered.\<close>

datatype resolve_step = Resolved | Overwritten | Wait nat

definition resolve_pass ::
  "'w env \<Rightarrow> fill \<Rightarrow> nat \<Rightarrow> redundancy_provider \<Rightarrow> string \<Rightarrow> string \<Rightarrow> KineticClusterOperation \<Rightarrow> 'w \<Rightarrow>
   resolve_step res \<times> KineticClusterOperation \<times> 'w" where
  "resolve_pass env fill timeout rp key version op w =
     (let (most_frequent, getVersions, w) = query_versions env timeout rp (num_connections op) key w
      in case vc_version most_frequent of
           None \<Rightarrow> (Inl Undefined_behaviour, op, w)
         | Some mf \<Rightarrow>
             let (repaired, op, w) =
                   (if version = mf then attemptStripeRepair env fill timeout getVersions op w else (False, op, w))
             in if repaired then (Inr Resolved, op, w)
                else case version_position version getVersions (rp_size rp) of
                       None \<Rightarrow> (Inr Overwritten, op, w)
                     | Some position \<Rightarrow> (Inr (Wait position), op, env_sleep env 100000 w))"

text \<open>The whole loop. \<open>start\<close> is the time at which it was entered, the timeout counts seconds.\<close>

definition crash_repair ::
  "'w env \<Rightarrow> fill \<Rightarrow> nat \<Rightarrow> redundancy_provider \<Rightarrow> string \<Rightarrow> KineticClusterOperation \<Rightarrow> 'w \<Rightarrow>
   KineticClusterOperation \<times> 'w" where
  "crash_repair env fill timeout rp key op w =
     (let (mf, getVersions, w) = query_versions env timeout rp (num_connections op) key w;
          (repaired, op, w) = attemptStripeRepair env fill timeout getVersions op w
      in (op, w))"

partial_function (option) resolve_loop ::
  "'w env \<Rightarrow> fill \<Rightarrow> nat \<Rightarrow> redundancy_provider \<Rightarrow> string \<Rightarrow> string \<Rightarrow> nat \<Rightarrow> KineticClusterOperation \<Rightarrow> 'w \<Rightarrow>
   (unit res \<times> KineticClusterOperation \<times> 'w) option" where
  "resolve_loop env fill timeout rp key version start op w =
     (case resolve_pass env fill timeout rp key version op w of
        (Inl e, op, w) \<Rightarrow> Some (Inl e, op, w)
      | (Inr Resolved, op, w) \<Rightarrow> Some (Inr (), op, w)
      | (Inr Overwritten, op, w) \<Rightarrow> Some (Inr (), op, w)
      | (Inr (Wait position), op, w) \<Rightarrow>
          if env_now env w < start + timeout * (position + 1) * 1000000
          then resolve_loop env fill timeout rp key version start op w
          else (case crash_repair env fill timeout rp key op w of (op, w) \<Rightarrow> Some (Inr (), op, w)))"

declare resolve_loop.simps [code]

definition resolvePartialWrite ::
  "'w env \<Rightarrow> fill \<Rightarrow> nat \<Rightarrow> redundancy_provider \<Rightarrow> string \<Rightarrow> string \<Rightarrow> KineticClusterOperation \<Rightarrow> 'w \<Rightarrow>
   (unit res \<times> KineticClusterOperation \<times> 'w) option" where
  "resolvePartialWrite env fill timeout rp key version op w =
     resolve_loop env fill timeout rp key version (env_now env w) op w"

subsection \<open>PUT\<close>

record StripeOperation_PUT =
  put_so :: StripeOperation
  put_version :: string
  put_values :: "string list"

definition PUT_fillOperation :: "string \<Rightarrow> string \<Rightarrow> string list \<Rightarrow> fill" where
  "PUT_fillOperation key version_new stripe index drive_version mode op =
     bind_operation (Req_Put key drive_version mode (makeRecord (stripe ! index) version_new)) PutCallback index op"

definition StripeOperation_PUT_new ::
  "string \<Rightarrow> string \<Rightarrow> string \<Rightarrow> string list \<Rightarrow> write_mode \<Rightarrow> nat \<Rightarrow> redundancy_provider \<Rightarrow> StripeOperation_PUT res" where
  "StripeOperation_PUT_new key version_new version_old stripe mode n rp =
     (if length stripe \<noteq> rp_size rp then Inl (System_error invalid_argument)
      else
        let so = stripe_expandOperationVector (length stripe) 0 (KineticClusterStripeOperation_new n key);
            op = fold (\<lambda>i. PUT_fillOperation key version_new stripe i version_old mode)
                   [0..<length (operations (so_op so))] (so_op so)
        in Inr \<lparr>put_so = so\<lparr>so_op := op\<rparr>, put_version = version_new, put_values = stripe\<rparr>)"

text \<open>The tests on the result map insert the codes they look at.\<close>

definition partial_put :: "(status_code \<Rightarrow> int) \<Rightarrow> result_map \<Rightarrow> bool \<times> result_map" where
  "partial_put num m =
     (let m = rmap_update num OK id m
      in if rmap_get num m OK = 0 then (False, m)
         else let m = rmap_update num REMOTE_VERSION_MISMATCH id m
              in if rmap_get num m REMOTE_VERSION_MISMATCH \<noteq> 0 then (True, m)
                 else let m = rmap_update num REMOTE_NOT_FOUND id m
                      in (rmap_get num m REMOTE_NOT_FOUND \<noteq> 0, m))"

definition PUT_status :: "redundancy_provider \<Rightarrow> string \<Rightarrow> result_map \<Rightarrow> kinetic_status \<times> bool" where
  "PUT_status rp key rmap =
     (case List.find (\<lambda>e. numData rp \<le> snd e) rmap of
        Some (code, n) \<Rightarrow> (mk_status code [], code = OK \<and> n < rp_size rp)
      | None \<Rightarrow> (mk_status CLIENT_IO_ERROR (''Key'' @ key @ ''not accessible.''), False))"

definition PUT_execute ::
  "'w env \<Rightarrow> nat \<Rightarrow> redundancy_provider \<Rightarrow> StripeOperation_PUT \<Rightarrow> 'w \<Rightarrow>
   (kinetic_status res \<times> StripeOperation_PUT \<times> 'w) option" where
  "PUT_execute env timeout rp p w =
     (let num = env_code env; so = put_so p; key = so_key so;
          (rmap, op, w) = executeOperationVector env timeout (so_op so) w;
          (partial, rmap) = partial_put num rmap;
          finish = (\<lambda>rmap op w.
            let (st, ind) = PUT_status rp key rmap
            in (Inr st, p\<lparr>put_so := so\<lparr>so_op := op, need_indicator := need_indicator so \<or> ind\<rparr>\<rparr>, w))
      in if partial then
           (case resolvePartialWrite env (PUT_fillOperation key (put_version p) (put_values p)) timeout rp key
                   (put_version p) op w of
              None \<Rightarrow> None
            | Some (Inl e, op, w) \<Rightarrow> Some (Inl e, p\<lparr>put_so := so\<lparr>so_op := op\<rparr>\<rparr>, w)
            | Some (Inr _, op, w) \<Rightarrow> Some (finish (rmap_of num (operations op)) op w))
         else Some (finish rmap op w))"

definition quick_repair_op :: "StripeOperation_PUT \<Rightarrow> StripeOperation_GET \<Rightarrow> nat \<Rightarrow> KineticClusterOperation \<Rightarrow> KineticClusterOperation" where
  "quick_repair_op p drive_versions opnum op =
     (let o' = operations op ! opnum;
          (cb, sync) = OnResult (mk_status OK []) (the (op_callback o')) (op_sync op);
          op = op\<lparr>operations := (operations op)[opnum := o'\<lparr>op_callback := Some cb\<rparr>], op_sync := sync\<rparr>
      in case getVersionAt drive_versions opnum of
           Some drive_version \<Rightarrow>
             if drive_version \<noteq> put_version p
             then PUT_fillOperation (so_key (put_so p)) (put_version p) (put_values p) opnum drive_version
                    REQUIRE_SAME_VERSION op
             else op
         | None \<Rightarrow> op)"

definition quick_repair ::
  "'w env \<Rightarrow> nat \<Rightarrow> StripeOperation_GET \<Rightarrow> StripeOperation_PUT \<Rightarrow> 'w \<Rightarrow> bool \<times> StripeOperation_PUT \<times> 'w" where
  "quick_repair env timeout drive_versions p w =
     (let op = so_op (put_so p);
          op = fold (quick_repair_op p drive_versions) [0..<length (operations op)] op;
          (rmap, op, w) = executeOperationVector env timeout op w
      in (rmap_get (env_code env) rmap OK = length (operations op), p\<lparr>put_so := (put_so p)\<lparr>so_op := op\<rparr>\<rparr>, w))"

definition handoff_key :: "string \<Rightarrow> string \<Rightarrow> nat \<Rightarrow> string" where
  "handoff_key key version opnum =
     Convert_toString [''handoff='', key, ''version='', version, ''chunk='', dec opnum]"

definition putHandoffKeys :: "'w env \<Rightarrow> StripeOperation_PUT \<Rightarrow> 'w \<Rightarrow> StripeOperation_PUT \<times> 'w" where
  "putHandoffKeys env p w =
     fold (\<lambda>opnum (p, w).
             let so = put_so p;
                 scode = statusCode (getResult (the (op_callback (operations (so_op so) ! opnum))))
             in if scode \<noteq> OK \<and> scode \<noteq> REMOTE_VERSION_MISMATCH then
                  let (st, so, w) = createSingleKey env (handoff_key (so_key so) (put_version p) opnum)
                                      (put_version p) (put_values p ! opnum) so w
                  in (p\<lparr>put_so := so\<rparr>, w)
                else (p, w))
       [0..<length (put_values p)] (p, w)"

subsection \<open>DEL\<close>

definition DEL_fillOperation :: "string \<Rightarrow> fill" where
  "DEL_fillOperation key index drive_version mode op =
     bind_operation (Req_Delete key drive_version mode) BasicCallback index op"

definition StripeOperation_DEL_new ::
  "string \<Rightarrow> string \<Rightarrow> write_mode \<Rightarrow> nat \<Rightarrow> nat \<Rightarrow> nat \<Rightarrow> StripeOperation" where
  "StripeOperation_DEL_new key version mode n sz offset =
     (let so = stripe_expandOperationVector sz offset (KineticClusterStripeOperation_new n key)
      in so\<lparr>so_op := fold (\<lambda>i. DEL_fillOperation key i version mode)
              [0..<length (operations (so_op so))] (so_op so)\<rparr>)"

definition partial_del :: "(status_code \<Rightarrow> int) \<Rightarrow> result_map \<Rightarrow> bool \<times> result_map" where
  "partial_del num m =
     (let m = rmap_update num OK id m
      in if rmap_get num m OK = 0 then (False, m)
         else let m = rmap_update num REMOTE_VERSION_MISMATCH id m
              in (rmap_get num m REMOTE_VERSION_MISMATCH \<noteq> 0, m))"

text \<open>A chunk that was not there counts as deleted.\<close>

definition del_absent :: "(status_code \<Rightarrow> int) \<Rightarrow> result_map \<Rightarrow> result_map" where
  "del_absent num m =
     (let m = rmap_update num OK id m
      in if rmap_get num m OK = 0 then m
         else let m = rmap_update num REMOTE_NOT_FOUND id m; absent = rmap_get num m REMOTE_NOT_FOUND
              in if absent = 0 then m
                 else rmap_update num REMOTE_NOT_FOUND (\<lambda>_. 0) (rmap_update num OK (\<lambda>n. n + absent) m))"

definition DEL_status :: "redundancy_provider \<Rightarrow> string \<Rightarrow> result_map \<Rightarrow> kinetic_status \<times> bool" where
  "DEL_status rp key rmap =
     (case List.find (\<lambda>e. numData rp \<le> snd e) rmap of
        Some (code, n) \<Rightarrow> (mk_status code [], n < rp_size rp)
      | None \<Rightarrow> (mk_status CLIENT_IO_ERROR (''Key '' @ key @ '' not accessible.''), False))"

definition DEL_execute ::
  "'w env \<Rightarrow> nat \<Rightarrow> redundancy_provider \<Rightarrow> StripeOperation \<Rightarrow> 'w \<Rightarrow>
   (kinetic_status res \<times> StripeOperation \<times> 'w) option" where
  "DEL_execute env timeout rp so w =
     (let num = env_code env; key = so_key so;
          (rmap, op, w) = executeOperationVector env timeout (so_op so) w;
          (partial, rmap) = partial_del num rmap;
          finish = (\<lambda>rmap op w.
            let (st, ind) = DEL_status rp key (del_absent num rmap)
            in (Inr st, so\<lparr>so_op := op, need_indicator := need_indicator so \<or> ind\<rparr>, w))
      in if partial then
           (case resolvePartialWrite env (DEL_fillOperation key) timeout rp key [] op w of
              None \<Rightarrow> None
            | Some (Inl e, op, w) \<Rightarrow> Some (Inl e, so\<lparr>so_op := op\<rparr>, w)
            | Some (Inr _, op, w) \<Rightarrow> Some (finish (rmap_of num (operations op)) op w))
         else Some (finish rmap op w))"

end
