(* ===== verification/Stripe_Placement.thy ===== *)
theory Stripe_Placement
  imports Stripe_Operation
begin

text \<open>
  Where the chunks of a key are stored: the connection indices computed by
  \<^verbatim>\<open>KineticClusterStripeOperation::expandOperationVector\<close>, in closed form, and how freshly built
  stripe operations look.
\<close>

section \<open>Connection indices\<close>

lemma unat_word_small: "x < 2 ^ 32 \<Longrightarrow> unat (word_of_nat x :: 32 word) = x"
  by (simp add: unsigned_of_nat take_bit_nat_eq_self)

lemma unat_word_mod:
  assumes "0 < n" and "n < 2 ^ 32"
  shows "unat (word_of_nat (x mod n) :: 32 word) = x mod n"
proof -
  have "x mod n < n" using assms(1) by simp
  then have "x mod n < 2 ^ 32" using assms(2) by linarith
  then show ?thesis by (rule unat_word_small)
qed

lemma stripe_connections_next:
  assumes "0 < n" and "n < 2 ^ 32"
  shows "stripe_connections n (word_of_nat (x mod n)) sz = map (\<lambda>i. (x + 1 + i) mod n) [0..<sz]"
proof (induction sz arbitrary: x)
  case 0
  then show ?case by simp
next
  case (Suc sz)
  have "x mod n < n" using assms(1) by simp
  then have "x mod n + 1 < 2 ^ 32" using assms(2) by linarith
  then have "unat (word_of_nat (x mod n) + 1 :: 32 word) = x mod n + 1"
    using unat_word_small [of "x mod n + 1"] by (simp add: add.commute)
  then have "unat (word_of_nat (x mod n) + 1 :: 32 word) mod n = (x + 1) mod n"
    by (simp add: mod_Suc_eq)
  then have "stripe_connections n (word_of_nat (x mod n)) (Suc sz) =
      (x + 1) mod n # stripe_connections n (word_of_nat ((x + 1) mod n)) sz"
    using unat_word_mod [OF assms] by (simp add: Let_def)
  also have "\<dots> = (x + 1) mod n # map (\<lambda>i. (x + 1 + 1 + i) mod n) [0..<sz]"
    by (simp only: Suc.IH)
  also have "\<dots> = map (\<lambda>i. (x + 1 + i) mod n) [0..<Suc sz]"
    by (simp add: map_upt_Suc del: upt_Suc)
  finally show ?case .
qed

text \<open>The first connection of a key and the ones that follow it in the ring of connections.\<close>

definition first_connection :: "nat \<Rightarrow> string \<Rightarrow> nat \<Rightarrow> nat" where
  "first_connection n key offset = unat (MurmurHash3_x86_32 key 0 + word_of_nat offset + 1) mod n"

lemma key_connections_ring:
  assumes "0 < n" and "n < 2 ^ 32"
  shows "key_connections n key sz offset = map (\<lambda>i. (first_connection n key offset + i) mod n) [0..<sz]"
proof (cases sz)
  case 0
  then show ?thesis by (simp add: key_connections_def)
next
  case (Suc m)
  let ?h = "MurmurHash3_x86_32 key 0 + word_of_nat offset :: 32 word"
  let ?x = "unat (?h + 1)"
  have "key_connections n key sz offset =
      ?x mod n # stripe_connections n (word_of_nat (?x mod n)) m"
    using unat_word_mod [OF assms] by (simp add: key_connections_def Suc Let_def)
  also have "\<dots> = ?x mod n # map (\<lambda>i. (?x + 1 + i) mod n) [0..<m]"
    by (simp only: stripe_connections_next [OF assms])
  also have "\<dots> = map (\<lambda>i. (?x mod n + i) mod n) [0..<sz]"
    by (simp add: Suc map_upt_Suc mod_add_left_eq del: upt_Suc)
  finally show ?thesis by (simp add: first_connection_def)
qed

lemma ring_distinct:
  assumes "sz \<le> n"
  shows "distinct (map (\<lambda>i. (a + i) mod n) [0..<sz])"
proof -
  have less: "(a + i) mod n \<noteq> (a + j) mod n" if "i < j" "j < sz" for i j
  proof
    assume "(a + i) mod n = (a + j) mod n"
    then have "n dvd (a + j) - (a + i)"
      using that by (metis mod_eq_dvd_iff_nat add_le_cancel_left less_imp_le)
    then show False using that assms by (auto dest!: dvd_imp_le)
  qed
  have "inj_on (\<lambda>i. (a + i) mod n) {0..<sz}"
    by (rule inj_onI) (metis atLeastLessThan_iff less linorder_neqE_nat)
  then show ?thesis by (simp add: distinct_map)
qed

lemma unat_hash_offset:
  "unat (h + word_of_nat a + 1 :: 32 word) = (unat h + a + 1) mod 2 ^ 32"
proof -
  have "h + word_of_nat a + 1 = (word_of_nat (unat h + a + 1) :: 32 word)" by simp
  then show ?thesis by (simp only: unsigned_of_nat take_bit_nat_def len_num1 len_bit0) simp
qed

text \<open>The index arithmetic does not wrap, or wrapping is harmless.\<close>

definition no_index_wrap :: "nat \<Rightarrow> string \<Rightarrow> nat \<Rightarrow> bool" where
  "no_index_wrap n key a \<longleftrightarrow> unat (MurmurHash3_x86_32 key 0) + a + 1 < 2 ^ 32 \<or> n dvd 2 ^ 32"

lemma first_connection_offset:
  assumes "no_index_wrap n key a"
  shows "first_connection n key a = (first_connection n key 0 + a) mod n"
proof -
  let ?h = "unat (MurmurHash3_x86_32 key 0)"
  have f: "first_connection n key b = (?h + b + 1) mod 2 ^ 32 mod n" for b
    unfolding first_connection_def unat_hash_offset ..
  show ?thesis
  proof (cases "n dvd 2 ^ 32")
    case True
    have "(?h + 1) mod 2 ^ 32 mod n = (?h + 1) mod n" "(?h + a + 1) mod 2 ^ 32 mod n = (?h + a + 1) mod n"
      using True by (simp_all only: mod_mod_cancel)
    then show ?thesis
      unfolding f by (simp only: add_0_right mod_add_left_eq) (simp add: ac_simps)
  next
    case False
    then have "?h + a + 1 < 2 ^ 32" using assms by (simp add: no_index_wrap_def)
    then have "(?h + a + 1) mod 2 ^ 32 = ?h + a + 1" "(?h + 0 + 1) mod 2 ^ 32 = ?h + 1" by simp_all
    then show ?thesis
      unfolding f by (simp only: mod_add_left_eq) (simp add: ac_simps)
  qed
qed

text \<open>Placing \<open>a\<close> chunks and then \<open>b\<close> more at offset \<open>a\<close> is placing \<open>a + b\<close> chunks.\<close>

lemma key_connections_append:
  assumes "0 < n" and "n < 2 ^ 32" and "no_index_wrap n key a"
  shows "key_connections n key (a + b) 0 = key_connections n key a 0 @ key_connections n key b a"
proof -
  have "[0..<a + b] = [0..<a] @ map (\<lambda>i. a + i) [0..<b]"
    using upt_add_eq_append [of 0 a b] map_add_upt [of a b] by (simp add: add.commute)
  moreover have "(first_connection n key 0 + (a + i)) mod n = (first_connection n key a + i) mod n" for i
    unfolding first_connection_offset [OF assms(3)] by (simp add: mod_simps ac_simps)
  ultimately show ?thesis
    by (simp add: key_connections_ring [OF assms(1,2)])
qed

lemma length_key_connections [simp]: "length (key_connections n key sz off) = sz"
proof -
  have "length (stripe_connections n i sz) = sz" for i
    by (induction sz arbitrary: i) (simp_all add: Let_def)
  then show ?thesis by (simp add: key_connections_def)
qed

section \<open>Freshly built operations\<close>

definition fill_empty :: "bool \<Rightarrow> string \<Rightarrow> KineticAsyncOperation \<Rightarrow> KineticAsyncOperation" where
  "fill_empty skip key o' =
     (if op_callback o' = None
      then fresh_operation (get_request skip key) (get_callback skip) (op_connection o') else o')"

definition empties :: "KineticAsyncOperation list \<Rightarrow> int" where
  "empties os = int (length (filter (\<lambda>o'. op_callback o' = None) os))"

lemma empties_simps [simp]:
  "empties [] = 0" "empties (o' # os) = (if op_callback o' = None then 1 else 0) + empties os"
  "empties (xs @ ys) = empties xs + empties ys"
  by (simp_all add: empties_def)

definition set_operations :: "KineticAsyncOperation list \<Rightarrow> int \<Rightarrow> StripeOperation_GET \<Rightarrow> StripeOperation_GET" where
  "set_operations os out g =
     g\<lparr>get_so := (get_so g)\<lparr>so_op := (so_op (get_so g))\<lparr>operations := os, op_sync := \<lparr>outstanding = out\<rparr>\<rparr>\<rparr>\<rparr>"

abbreviation get_ops :: "StripeOperation_GET \<Rightarrow> KineticAsyncOperation list" where
  "get_ops g \<equiv> operations (so_op (get_so g))"

abbreviation get_outstanding :: "StripeOperation_GET \<Rightarrow> int" where
  "get_outstanding g \<equiv> outstanding (op_sync (so_op (get_so g)))"

lemma set_operations_proj [simp]:
  "get_ops (set_operations os out g) = os" "get_outstanding (set_operations os out g) = out"
  "so_key (get_so (set_operations os out g)) = so_key (get_so g)"
  "skip_value (set_operations os out g) = skip_value g"
  "set_operations os' out' (set_operations os out g) = set_operations os' out' g"
  by (simp_all add: set_operations_def)

lemma set_operations_same: "set_operations (get_ops g) (get_outstanding g) g = g"
  by (cases g; cases "get_so g"; cases "so_op (get_so g)"; cases "op_sync (so_op (get_so g))")
    (simp add: set_operations_def)

lemma fillOperation_set:
  assumes "i < length (get_ops g)"
  shows "GET_fillOperation i key g =
    set_operations ((get_ops g)[i := fresh_operation (get_request (skip_value g) key) (get_callback (skip_value g))
      (op_connection (get_ops g ! i))]) (get_outstanding g + 1) g"
  by (simp add: GET_fillOperation_def bind_operation_def KineticCallback_new_def rebind_fresh set_operations_def)

lemma fillOperationVector_upto:
  assumes "k \<le> length (get_ops g)"
  shows "fold (\<lambda>i g. if op_callback (get_ops g ! i) = None then GET_fillOperation i (so_key (get_so g)) g else g) [0..<k] g =
    set_operations (map (fill_empty (skip_value g) (so_key (get_so g))) (take k (get_ops g)) @ drop k (get_ops g))
      (get_outstanding g + empties (take k (get_ops g))) g"
  using assms
proof (induction k)
  case 0
  then show ?case by (simp add: set_operations_same)
next
  case (Suc k)
  let ?f = "\<lambda>i g. if op_callback (get_ops g ! i) = None then GET_fillOperation i (so_key (get_so g)) g else g"
  let ?os = "get_ops g" let ?fill = "fill_empty (skip_value g) (so_key (get_so g))"
  let ?part = "\<lambda>k. map ?fill (take k ?os) @ drop k ?os"
  have k: "k < length ?os" using Suc.prems by simp
  have nth: "?part k ! k = ?os ! k" using k by (simp add: nth_append)
  have upd: "(?part k)[k := ?fill (?os ! k)] = ?part (Suc k)"
    using k by (simp add: list_update_append take_Suc_conv_app_nth Cons_nth_drop_Suc [symmetric])
  have IH: "fold ?f [0..<k] g = set_operations (?part k) (get_outstanding g + empties (take k ?os)) g"
    using Suc by simp
  have cnt: "empties (take (Suc k) ?os) = empties (take k ?os) + (if op_callback (?os ! k) = None then 1 else 0)"
    using k by (simp add: take_Suc_conv_app_nth)
  show ?case
  proof (cases "op_callback (?os ! k) = None")
    case True
    have "fold ?f [0..<Suc k] g = GET_fillOperation k (so_key (get_so g)) (fold ?f [0..<k] g)"
      using True nth by (simp add: IH)
    also have "\<dots> = set_operations ((?part k)[k := ?fill (?os ! k)]) (get_outstanding g + empties (take (Suc k) ?os)) g"
      using True nth k cnt unfolding IH by (subst fillOperation_set) (simp_all add: fill_empty_def add.assoc)
    finally show ?thesis by (simp only: upd)
  next
    case False
    then have "(?part k)[k := ?fill (?os ! k)] = ?part k"
      using nth by (metis fill_empty_def list_update_id)
    then have same: "?part (Suc k) = ?part k" using upd by simp
    have "fold ?f [0..<Suc k] g = fold ?f [0..<k] g"
      using False nth by (auto simp: IH)
    then show ?thesis unfolding same cnt using False IH by (simp only: if_False add_0_right)
  qed
qed

lemma GET_fillOperationVector_eq:
  "GET_fillOperationVector g =
     set_operations (map (fill_empty (skip_value g) (so_key (get_so g))) (get_ops g))
       (get_outstanding g + empties (get_ops g)) g"
  using fillOperationVector_upto [of "length (get_ops g)" g] by (simp add: GET_fillOperationVector_def)

definition fresh_get :: "bool \<Rightarrow> string \<Rightarrow> nat \<Rightarrow> KineticAsyncOperation" where
  "fresh_get skip key c = fresh_operation (get_request skip key) (get_callback skip) c"

lemma fill_empties: "map (fill_empty skip key) (map empty_operation cs) = map (fresh_get skip key) cs"
  by (induction cs) (simp_all add: fill_empty_def empty_operation_def fresh_get_def)

lemma fill_filled:
  "(\<And>o'. o' \<in> set os \<Longrightarrow> op_callback o' \<noteq> None) \<Longrightarrow> map (fill_empty skip key) os = os"
  by (rule map_idI) (simp only: fill_empty_def if_False)

lemma empties_empty_operations [simp]: "empties (map empty_operation cs) = int (length cs)"
  by (induction cs) (simp_all add: empty_operation_def)

lemma empties_filled: "(\<And>o'. o' \<in> set os \<Longrightarrow> op_callback o' \<noteq> None) \<Longrightarrow> empties os = 0"
  by (induction os) auto

lemma pending_fresh_get: "pending (op_callbacks (map (fresh_get skip key) cs)) = int (length cs)"
  by (induction cs) (simp_all add: fresh_get_def fresh_operation_def)

lemma bound_fresh_get: "bound (map (fresh_get skip key) cs)"
  by (induction cs) (simp_all add: fresh_get_def fresh_operation_def)

lemma op_wf_bound: "op_wf op \<longleftrightarrow> bound (operations op) \<and> outstanding (op_sync op) = pending (op_callbacks (operations op))"
  by (simp add: op_wf_def bound_def)

lemma StripeOperation_GET_new_proj:
  fixes key skip n rp all
  defines "g \<equiv> StripeOperation_GET_new key skip n rp all"
    and "cs \<equiv> key_connections n key (if all then rp_size rp else numData rp) 0"
  shows "get_ops g = map (fresh_get skip key) cs" and "op_wf (so_op (get_so g))"
    and "so_key (get_so g) = key" and "skip_value g = skip" and "num_connections (so_op (get_so g)) = n"
    and "need_indicator (get_so g) = False"
proof -
  have g: "g = set_operations (map (fresh_get skip key) cs) (int (length cs))
      \<lparr>get_so = stripe_expandOperationVector (if all then rp_size rp else numData rp) 0
                  (KineticClusterStripeOperation_new n key), skip_value = skip,
       get_version = \<lparr>vc_version = None, vc_frequency = 0\<rparr>, get_value = None\<rparr>"
    unfolding g_def cs_def StripeOperation_GET_new_def Let_def GET_fillOperationVector_eq
    by (simp add: stripe_expandOperationVector_def KineticClusterStripeOperation_new_def
        KineticClusterOperation_new_def CallbackSynchronization_new_def fill_empties del: map_map)
  show "get_ops g = map (fresh_get skip key) cs" "so_key (get_so g) = key" "skip_value g = skip"
    "num_connections (so_op (get_so g)) = n" "need_indicator (get_so g) = False"
    unfolding g by (simp_all add: set_operations_def stripe_expandOperationVector_def
        KineticClusterStripeOperation_new_def KineticClusterOperation_new_def)
  show "op_wf (so_op (get_so g))"
    unfolding g op_wf_bound by (simp add: bound_fresh_get pending_fresh_get)
qed

section \<open>Properties\<close>

text \<open>C26: The chunks of one stripe are stored on different drives: with at least as many connections as
  chunks, the connection indices chosen for a key are valid and pairwise different, so the loss of
  one drive loses at most one chunk of a stripe.\<close>

theorem stripe_on_distinct_drives:
  assumes "sz \<le> n" and "0 < n" and "n < 2 ^ 32"
  shows "distinct (key_connections n key sz offset) \<and> (\<forall>c \<in> set (key_connections n key sz offset). c < n)"
  using ring_distinct [OF assms(1)] assms(2) by (auto simp: key_connections_ring [OF assms(2,3)])

theorem stripe_on_distinct_drives_witness: "distinct (key_connections 5 ''key'' 3 0)"
  using stripe_on_distinct_drives [of 3 5 "''key''" 0] by simp

text \<open>C27: A get that fetches the data chunks first and the parity chunks later asks the same drives as
  the put that wrote the whole stripe at once, as long as the index of the first parity chunk does
  not overflow 32 bits or the number of connections divides two to the 32.\<close>

theorem two_phase_placement:
  assumes "0 < n" and "n < 2 ^ 32" and "no_index_wrap n key nD"
  shows "key_connections n key (nD + nP) 0 = key_connections n key nD 0 @ key_connections n key nP nD"
  using assms by (rule key_connections_append)

theorem two_phase_placement_witness:
  "key_connections 4 ''key'' (2 + 1) 0 = key_connections 4 ''key'' 2 0 @ key_connections 4 ''key'' 1 2"
  by (rule two_phase_placement) (simp_all add: no_index_wrap_def)

text \<open>When the 32-bit index does overflow between the phases, the parity chunk is looked for on the
  wrong drive: for this key on three drives the put stores its third chunk on drive 2, the get asks
  drive 1 for it.\<close>

theorem parity_index_overflow:
  "key_connections 3 ''achpr2hw'' 3 0 = [0, 1, 2] \<and> key_connections 3 ''achpr2hw'' 1 2 = [1]"
proof -
  have hash: "MurmurHash3_x86_32 ''achpr2hw'' 0 = 0xfffffffe" by code_simp
  have "first_connection 3 ''achpr2hw'' 0 = 0" "first_connection 3 ''achpr2hw'' 2 = 1"
    by (simp_all add: first_connection_def hash)
  then show ?thesis
    by (simp add: key_connections_ring upt_conv_Cons)
qed

end
