(* ===== verification/Stripe_Get.thy ===== *)
theory Stripe_Get
  imports Stripe_Placement
begin

text \<open>
  Reading a stripe from drives that answer truthfully: which callbacks an executed GET ends up with,
  how the result map is evaluated, and how the value is put together again.
\<close>

section \<open>Drives that answer get requests\<close>

text \<open>A reply that carries neither a record nor one of the regular results.\<close>

definition failing :: "'a reply \<Rightarrow> bool" where
  "failing r \<longleftrightarrow> r = NotConnected \<or> (\<exists>b. r = Unanswered b) \<or>
     (\<exists>b e. r = Answered b (Inl e) \<and> \<not> validStatusCode (statusCode e))"

definition same_drives ::
  "('w \<Rightarrow> nat \<Rightarrow> bool) \<Rightarrow> ('w \<Rightarrow> nat \<Rightarrow> string \<rightharpoonup> kinetic_record) \<Rightarrow> 'w \<Rightarrow> 'w \<Rightarrow> bool" where
  "same_drives up store w w' \<longleftrightarrow> up w' = up w \<and> store w' = store w"

lemma same_drives_refl [simp]: "same_drives up store w w"
  by (simp add: same_drives_def)

lemma same_drives_trans: "same_drives up store w w1 \<Longrightarrow> same_drives up store w1 w2 \<Longrightarrow> same_drives up store w w2"
  by (simp add: same_drives_def)

text \<open>Reads do not change the drives; a drive that is up returns what it stores; one that is not fails
  in some way.\<close>

definition honest_get ::
  "'w env \<Rightarrow> ('w \<Rightarrow> nat \<Rightarrow> bool) \<Rightarrow> ('w \<Rightarrow> nat \<Rightarrow> string \<rightharpoonup> kinetic_record) \<Rightarrow> bool" where
  "honest_get env up store \<longleftrightarrow>
     (\<forall>w c t k. same_drives up store w (snd (env_get env c t k w)) \<and>
        (if up w c
         then case store w c k of
                Some r \<Rightarrow> fst (env_get env c t k w) = Answered True (Inr r)
              | None \<Rightarrow> \<exists>m. fst (env_get env c t k w) = Answered True (Inl (mk_status REMOTE_NOT_FOUND m))
         else failing (fst (env_get env c t k w)))) \<and>
     (\<forall>w c. same_drives up store w (env_set_error env c w))"

lemma honest_getD:
  assumes "honest_get env up store" and "env_get env c t k w = (rep, w')"
  shows "same_drives up store w w'"
    "up w c \<Longrightarrow> store w c k = Some r \<Longrightarrow> rep = Answered True (Inr r)"
    "up w c \<Longrightarrow> store w c k = None \<Longrightarrow> \<exists>m. rep = Answered True (Inl (mk_status REMOTE_NOT_FOUND m))"
    "\<not> up w c \<Longrightarrow> failing rep" "same_drives up store w1 (env_set_error env c w1)"
proof -
  have "same_drives up store w (snd (env_get env c t k w)) \<and>
        (if up w c
         then case store w c k of
                Some r \<Rightarrow> fst (env_get env c t k w) = Answered True (Inr r)
              | None \<Rightarrow> \<exists>m. fst (env_get env c t k w) = Answered True (Inl (mk_status REMOTE_NOT_FOUND m))
         else failing (fst (env_get env c t k w)))"
    "same_drives up store w1 (env_set_error env c w1)"
    using assms(1) unfolding honest_get_def by blast+
  then show "same_drives up store w w'"
    "up w c \<Longrightarrow> store w c k = Some r \<Longrightarrow> rep = Answered True (Inr r)"
    "up w c \<Longrightarrow> store w c k = None \<Longrightarrow> \<exists>m. rep = Answered True (Inl (mk_status REMOTE_NOT_FOUND m))"
    "\<not> up w c \<Longrightarrow> failing rep" "same_drives up store w1 (env_set_error env c w1)"
    using assms(2) by auto
qed

text \<open>What a finished get callback says about the drive.\<close>

definition outcome ::
  "('w \<Rightarrow> nat \<Rightarrow> bool) \<Rightarrow> ('w \<Rightarrow> nat \<Rightarrow> string \<rightharpoonup> kinetic_record) \<Rightarrow> 'w \<Rightarrow> string \<Rightarrow> nat \<Rightarrow> callback \<Rightarrow> bool" where
  "outcome up store w key c cb \<longleftrightarrow> cb_done cb \<and>
     (if up w c
      then case store w c key of
             Some r \<Rightarrow> cb_status cb = ok_status \<and> cb_data cb = GetCallback (Some r)
           | None \<Rightarrow> statusCode (cb_status cb) = REMOTE_NOT_FOUND \<and> cb_data cb = GetCallback None
      else \<not> validStatusCode (statusCode (cb_status cb)) \<and> cb_data cb = GetCallback None)"

text \<open>Between issuing and expiring, a callback of a failing drive may still be waiting.\<close>

definition early_outcome ::
  "('w \<Rightarrow> nat \<Rightarrow> bool) \<Rightarrow> ('w \<Rightarrow> nat \<Rightarrow> string \<rightharpoonup> kinetic_record) \<Rightarrow> 'w \<Rightarrow> string \<Rightarrow> nat \<Rightarrow> callback \<Rightarrow> bool" where
  "early_outcome up store w key c cb \<longleftrightarrow> outcome up store w key c cb \<or>
     (\<not> cb_done cb \<and> \<not> up w c \<and> cb_data cb = GetCallback None)"

lemma not_valid_io_error [simp]: "\<not> validStatusCode CLIENT_IO_ERROR"
  by (simp add: validStatusCode_def)

lemma send_get_outcome:
  assumes honest: "honest_get env up store"
    and send: "send_request env t c (Req_Get key) \<lparr>cb_status = s, cb_done = False, cb_data = GetCallback None\<rparr> sync w = ((e, cb, sync'), w')"
  shows "early_outcome up store w key c cb" and "same_drives up store w w'"
proof -
  obtain rep where rep: "env_get env c t key w = (rep, w')"
    and con: "conclude GetCallback_Success rep \<lparr>cb_status = s, cb_done = False, cb_data = GetCallback None\<rparr> sync = (e, cb, sync')"
    using send by (cases "env_get env c t key w") (auto simp: send_request_def)
  note D = honest_getD [OF honest rep]
  show "same_drives up store w w'" by (rule D(1))
  show "early_outcome up store w key c cb"
  proof (cases "up w c")
    case True
    then show ?thesis
      using D(2,3) con by (cases "store w c key")
        (auto simp: early_outcome_def outcome_def conclude_def GetCallback_Success_def Callback_Failure_def OnResult_def)
  next
    case False
    from D(4) [OF this] show ?thesis
      using False con
      by (auto simp: failing_def early_outcome_def outcome_def conclude_def Callback_Failure_def OnResult_def
          split: if_splits)
  qed
qed

definition with_callback :: "string \<Rightarrow> nat \<Rightarrow> callback \<Rightarrow> KineticAsyncOperation" where
  "with_callback key c cb = (fresh_get False key c)\<lparr>op_callback := Some cb\<rparr>"

lemma fresh_get_False:
  "fresh_get False key c = \<lparr>op_function = Some (Req_Get key),
     op_callback = Some \<lparr>cb_status = no_result, cb_done = False, cb_data = GetCallback None\<rparr>, op_connection = c\<rparr>"
  by (simp add: fresh_get_def fresh_operation_def get_request_def get_callback_def)

lemma outcome_same: "same_drives up store w w' \<Longrightarrow> outcome up store w' key c cb = outcome up store w key c cb"
  by (simp add: same_drives_def outcome_def)

lemma early_outcome_same:
  "same_drives up store w w' \<Longrightarrow> early_outcome up store w' key c cb = early_outcome up store w key c cb"
  by (simp add: early_outcome_def outcome_def same_drives_def)

lemma issue_gets:
  assumes "honest_get env up store"
    and "issue_operations env t (map (fresh_get False key) cs) sync w = (os', sync', w')"
  shows "\<exists>cbs. os' = map2 (with_callback key) cs cbs \<and> list_all2 (early_outcome up store w key) cs cbs \<and>
    same_drives up store w w'"
  using assms(2)
proof (induction cs arbitrary: sync w os' sync' w')
  case Nil
  then show ?case by simp
next
  case (Cons c cs)
  let ?cb = "\<lparr>cb_status = no_result, cb_done = False, cb_data = GetCallback None\<rparr>"
  obtain e cb s1 w1 where s: "send_request env t c (Req_Get key) ?cb sync w = ((e, cb, s1), w1)"
    by (metis prod_cases3 surj_pair)
  note snd = send_get_outcome [OF assms(1) s]
  define w2 where "w2 = (if e then env_set_error env c w1 else w1)"
  have same: "same_drives up store w w2"
    using snd(2) honest_getD(5) [OF assms(1) surjective_pairing] same_drives_trans unfolding w2_def by (metis (full_types))
  obtain os2 s2 w3 where i: "issue_operations env t (map (fresh_get False key) cs) s1 w2 = (os2, s2, w3)"
    by (metis prod_cases3)
  from Cons.IH [OF i] obtain cbs where cbs: "os2 = map2 (with_callback key) cs cbs"
    "list_all2 (early_outcome up store w2 key) cs cbs" "same_drives up store w2 w3" by blast
  have os': "os' = with_callback key c cb # os2" "w' = w3"
  proof -
    have f: "op_connection (fresh_get False key c) = c" "the (op_function (fresh_get False key c)) = Req_Get key"
      "the (op_callback (fresh_get False key c)) = ?cb" by (simp_all add: fresh_get_False)
    from issue_step [of "fresh_get False key c" env t sync w e cb s1 w1, unfolded f, OF _ s i [unfolded w2_def]]
    show "os' = with_callback key c cb # os2" "w' = w3"
      using Cons.prems by (simp_all add: with_callback_def)
  qed
  have "early_outcome up store w2 key = early_outcome up store w key"
    using early_outcome_same [OF same] by blast
  then show ?case
    using os' cbs snd(1) same same_drives_trans by (intro exI [of _ "cb # cbs"]) auto
qed

lemma expire_gets:
  assumes "list_all2 (early_outcome up store w key) cs cbs"
    and "expire_operations (map2 (with_callback key) cs cbs) sync = (os', sync')"
  shows "\<exists>cbs'. os' = map2 (with_callback key) cs cbs' \<and> list_all2 (outcome up store w key) cs cbs'"
  using assms
proof (induction cs cbs arbitrary: sync os' sync' rule: list_all2_induct)
  case Nil
  then show ?case by simp
next
  case (Cons c cs cb cbs)
  obtain cb1 s1 where r: "OnResult (mk_status CLIENT_IO_ERROR ''Network timeout'') cb sync = (cb1, s1)"
    by fastforce
  have cb1: "outcome up store w key c cb1"
    using Cons.hyps(1) r by (auto simp: early_outcome_def OnResult_def outcome_def split: if_splits)
  obtain os2 s2 where e: "expire_operations (map2 (with_callback key) cs cbs) s1 = (os2, s2)" by fastforce
  from Cons.IH [OF e] obtain cbs' where cbs': "os2 = map2 (with_callback key) cs cbs'"
    "list_all2 (outcome up store w key) cs cbs'" by blast
  have "os' = with_callback key c cb1 # os2"
    using Cons.prems r e by (cases "cb_done cb") (auto simp: with_callback_def finished_def OnResult_def)
  then show ?case using cb1 cbs' by (intro exI [of _ "cb1 # cbs'"]) auto
qed

lemma issue_append_finished:
  assumes "\<forall>cb \<in> set (op_callbacks os). cb_done cb"
  shows "issue_operations env t (os @ os2) sync w =
    (case issue_operations env t os2 sync w of (r, s, w') \<Rightarrow> (os @ r, s, w'))"
  using assms by (induction os) (auto simp: Let_def finished_def split: prod.splits)

lemma expire_append_finished:
  assumes "\<forall>cb \<in> set (op_callbacks os). cb_done cb"
  shows "expire_operations (os @ os2) sync = (case expire_operations os2 sync of (r, s) \<Rightarrow> (os @ r, s))"
  using assms by (induction os) (auto simp: Let_def finished_def split: prod.splits)

lemma execute_gets:
  assumes "honest_get env up store" and "\<forall>cb \<in> set (op_callbacks os). cb_done cb"
    and "operations op = os @ map (fresh_get False key) cs"
    and "executeOperationVector env t op w = (rmap, op', w')"
  shows "\<exists>cbs. operations op' = os @ map2 (with_callback key) cs cbs \<and> list_all2 (outcome up store w key) cs cbs \<and>
    same_drives up store w w'"
proof -
  obtain os1 s1 w1 where i: "issue_operations env t (map (fresh_get False key) cs) (op_sync op) w = (os1, s1, w1)"
    by (metis prod_cases3)
  obtain os2 s2 where e: "expire_operations os1 s1 = (os2, s2)" by fastforce
  from issue_gets [OF assms(1) i] obtain cbs where cbs: "os1 = map2 (with_callback key) cs cbs"
    "list_all2 (early_outcome up store w key) cs cbs" "same_drives up store w w1" by blast
  from expire_gets [OF cbs(2) e [unfolded cbs(1)]] obtain cbs' where
    "os2 = map2 (with_callback key) cs cbs'" "list_all2 (outcome up store w key) cs cbs'" by blast
  moreover have "operations op' = os @ os2" "w' = w1"
    using assms(4) i e by (auto simp: executeOperationVector_def assms(3) issue_append_finished [OF assms(2)]
        expire_append_finished [OF assms(2)])
  ultimately show ?thesis using cbs(3) by auto
qed

section \<open>The most frequent version\<close>

definition version_of :: "bool \<Rightarrow> callback \<Rightarrow> string option" where
  "version_of skip cb =
     (if status_ok (getResult cb) then Some (if skip then cb_getVersion cb else rec_version (the (getRecord cb)))
      else None)"

definition version_count :: "bool \<Rightarrow> callback list \<Rightarrow> string \<Rightarrow> nat" where
  "version_count skip cbs v = length (filter (\<lambda>cb. version_of skip cb = Some v) cbs)"

lemma version_equal_iff:
  "version_equal skip a b \<longleftrightarrow> version_of skip a \<noteq> None \<and> version_of skip a = version_of skip b"
  by (auto simp: version_equal_def version_of_def getVersionEqual_def getRecordVersionEqual_def)

lemma frequency_eq:
  "length (filter (version_equal skip a) cbs) =
     (case version_of skip a of None \<Rightarrow> 0 | Some v \<Rightarrow> version_count skip cbs v)"
proof (cases "version_of skip a")
  case None
  then show ?thesis by (simp add: version_equal_iff)
next
  case (Some v)
  then have "version_equal skip a = (\<lambda>cb. version_of skip cb = Some v)"
    by (auto simp: version_equal_iff)
  then show ?thesis using Some by (simp add: version_count_def)
qed

lemma majority_is_max:
  assumes "length cbs div 2 < version_count skip cbs v"
  shows "version_count skip cbs x \<le> version_count skip cbs v"
proof (cases "x = v")
  case False
  have "version_count skip cbs x \<le> length (filter (\<lambda>cb. version_of skip cb \<noteq> Some v) cbs)"
    unfolding version_count_def using False
    by (induction cbs) auto
  moreover have "version_count skip cbs v + length (filter (\<lambda>cb. version_of skip cb \<noteq> Some v) cbs) = length cbs"
    unfolding version_count_def by (rule sum_length_filter_compl)
  ultimately show ?thesis using assms by linarith
qed simp

text \<open>The candidate kept by the loop: no version yet, or a version with its count.\<close>

definition candidate :: "bool \<Rightarrow> callback list \<Rightarrow> nat \<Rightarrow> callback option \<Rightarrow> bool" where
  "candidate skip cbs best el \<longleftrightarrow>
     (best = 0 \<and> el = None) \<or>
     (\<exists>e v. el = Some e \<and> version_of skip e = Some v \<and> best = version_count skip cbs v \<and> 0 < best)"

lemma most_frequent_loop_spec:
  assumes "set os \<subseteq> set cbs" and "candidate skip cbs best el"
    and "most_frequent_loop skip cbs os best el = (best', el')"
  shows "candidate skip cbs best' el' \<and> best \<le> best' \<and>
    (\<forall>cb \<in> set os. \<forall>v. version_of skip cb = Some v \<longrightarrow> version_count skip cbs v \<le> best')"
  using assms
proof (induction skip cbs os best el rule: most_frequent_loop.induct)
  case (1 skip cbs best el)
  then show ?case by simp
next
  case (2 skip cbs a os best el)
  define f where "f = (case version_of skip a of None \<Rightarrow> 0 | Some v \<Rightarrow> version_count skip cbs v)"
  have f: "length (filter (version_equal skip a) cbs) = f" by (simp add: frequency_eq f_def)
  define best1 el1 where "best1 = (if best < f then f else best)" and "el1 = (if best < f then Some a else el)"
  have cand: "candidate skip cbs best1 el1"
    using 2(3) unfolding best1_def el1_def f_def candidate_def by (auto split: option.splits)
  have le: "best \<le> best1" "f \<le> best1" by (auto simp: best1_def)
  have step: "most_frequent_loop skip cbs (a # os) best el =
      (if length cbs div 2 < f then (best1, el1) else most_frequent_loop skip cbs os best1 el1)"
    by (simp add: f Let_def best1_def el1_def)
  show ?case
  proof (cases "length cbs div 2 < f")
    case True
    then obtain v where v: "f = version_count skip cbs v" by (auto simp: f_def split: option.splits)
    have "version_count skip cbs x \<le> best1" for x
      using majority_is_max [of cbs skip v x] True v le(2) by simp
    then show ?thesis using 2(4) step True cand le(1) by auto
  next
    case False
    then have "most_frequent_loop skip cbs os best1 el1 = (best', el')" using 2(4) step by simp
    moreover have "set os \<subseteq> set cbs" using 2(2) by simp
    ultimately have IH: "candidate skip cbs best' el'" "best1 \<le> best'"
      "\<forall>cb \<in> set os. \<forall>v. version_of skip cb = Some v \<longrightarrow> version_count skip cbs v \<le> best'"
      using 2(1) [of f "(best1, el1)" best1 el1] False cand by (auto simp: f best1_def el1_def)
    have "version_count skip cbs v \<le> best'" if "version_of skip a = Some v" for v
      using that le(2) IH(2) by (simp add: f_def)
    then show ?thesis using IH le(1) by auto
  qed
qed

lemma mostFrequentVersion_spec:
  fixes g :: StripeOperation_GET
  defines "cbs \<equiv> op_callbacks (operations (so_op (get_so g)))"
  shows "\<And>v. version_count (skip_value g) cbs v \<le> vc_frequency (mostFrequentVersion g)"
    and "vc_frequency (mostFrequentVersion g) \<noteq> 0 \<Longrightarrow>
      \<exists>v. vc_version (mostFrequentVersion g) = Some v \<and> vc_frequency (mostFrequentVersion g) = version_count (skip_value g) cbs v"
    and "vc_frequency (mostFrequentVersion g) = 0 \<Longrightarrow> vc_version (mostFrequentVersion g) = None"
proof -
  obtain best el where loop: "most_frequent_loop (skip_value g) cbs cbs 0 None = (best, el)" by fastforce
  have spec: "candidate (skip_value g) cbs best el"
    "\<forall>cb \<in> set cbs. \<forall>v. version_of (skip_value g) cb = Some v \<longrightarrow> version_count (skip_value g) cbs v \<le> best"
    using most_frequent_loop_spec [OF subset_refl _ loop] by (auto simp: candidate_def)
  have freq: "vc_frequency (mostFrequentVersion g) = best"
    using loop by (simp add: mostFrequentVersion_def cbs_def Let_def)
  show "version_count (skip_value g) cbs v \<le> vc_frequency (mostFrequentVersion g)" for v
  proof (cases "version_count (skip_value g) cbs v = 0")
    case False
    then obtain cb where "cb \<in> set cbs" "version_of (skip_value g) cb = Some v"
      by (auto simp: version_count_def filter_empty_conv)
    then show ?thesis using spec(2) freq by simp
  qed simp
  show "\<exists>v. vc_version (mostFrequentVersion g) = Some v \<and> vc_frequency (mostFrequentVersion g) = version_count (skip_value g) cbs v"
    if "vc_frequency (mostFrequentVersion g) \<noteq> 0"
  proof -
    from that freq have "best \<noteq> 0" by simp
    with spec(1) obtain e v where e: "el = Some e" "version_of (skip_value g) e = Some v" "best = version_count (skip_value g) cbs v"
      by (auto simp: candidate_def)
    then have "vc_version (mostFrequentVersion g) = Some v"
      using loop \<open>best \<noteq> 0\<close> by (auto simp: mostFrequentVersion_def cbs_def Let_def version_of_def split: if_splits)
    then show ?thesis using e(3) freq by simp
  qed
  show "vc_version (mostFrequentVersion g) = None" if "vc_frequency (mostFrequentVersion g) = 0"
    using that loop freq by (simp add: mostFrequentVersion_def cbs_def Let_def)
qed

section \<open>Evaluating the results\<close>

lemma evaluate_fails:
  "(\<And>c n. (c, n) \<in> set rmap \<Longrightarrow> numData rp \<le> n \<Longrightarrow> \<not> validStatusCode c) \<Longrightarrow>
     evaluate_results lib rmap rp g = (rp, g, Inl Runtime_error)"
proof (induction rmap)
  case (Cons e rmap)
  obtain c n where e: "e = (c, n)" by (cases e)
  have "\<not> validStatusCode c" if "numData rp \<le> n"
    using Cons.prems [of c n] that e by simp
  moreover have "evaluate_results lib rmap rp g = (rp, g, Inl Runtime_error)"
    by (rule Cons.IH) (use Cons.prems in \<open>metis list.set_intros(2)\<close>)
  ultimately show ?case
    using e by (auto simp: Let_def validStatusCode_def)
qed simp

lemma evaluate_ok:
  assumes "\<And>c n. (c, n) \<in> set rmap \<Longrightarrow> numData rp \<le> n \<Longrightarrow> validStatusCode c \<Longrightarrow> c = OK"
    and "(OK, n) \<in> set rmap" and "numData rp \<le> n" and "\<not> skip_value g"
    and "reconstructValue lib rp g = (rp', g', Inr ())"
  shows "evaluate_results lib rmap rp g = (rp', g', Inr ok_status)"
  using assms(1,2)
proof (induction rmap)
  case (Cons e rmap)
  obtain c m where e: "e = (c, m)" by (cases e)
  have ok: "validStatusCode OK" by (simp add: validStatusCode_def)
  show ?case
  proof (cases "numData rp \<le> m \<and> c = OK")
    case True
    then show ?thesis using e assms(4,5) ok by (simp add: Let_def)
  next
    case False
    have c: "\<not> validStatusCode c" if "numData rp \<le> m"
      using Cons.prems(1) [of c m] False that e by auto
    have "(OK, n) \<in> set rmap" using Cons.prems(2) False e assms(3) by auto
    then have "evaluate_results lib rmap rp g = (rp', g', Inr ok_status)"
      by (intro Cons.IH) (use Cons.prems(1) in \<open>auto simp: validStatusCode_def\<close>)
    moreover have "c \<noteq> OK" if "numData rp \<le> m" using False that by auto
    ultimately show ?thesis using e c by (simp add: Let_def)
  qed
qed simp

lemma rmap_update_has_key:
  assumes "inj (CompareStatusCode_toInt num)"
  shows "\<exists>n. (k, n) \<in> set (rmap_update num k f m)"
proof (induction m)
  case (Cons e m)
  obtain k' n where e: "e = (k', n)" by (cases e)
  have "k' = k" if "CompareStatusCode_toInt num k' = CompareStatusCode_toInt num k"
    using assms that by (rule injD)
  then show ?case using Cons e by (auto simp: not_less_iff_gr_or_eq)
qed simp

lemma rmap_touch_count:
  assumes "codes_ok num" and "(c, n) \<in> set (rmap_update num k id (rmap_of num os))"
  shows "n = count_code c os"
proof -
  have "rmap_get num (rmap_update num k id (rmap_of num os)) c = n"
    using assms(2) by (intro rmap_mem_get rmap_sorted_update rmap_of_sorted)
  then show ?thesis
    using rmap_of_count [OF assms(1)] by (simp add: rmap_get_update rmap_of_sorted split: if_splits)
qed

definition cb_count :: "status_code \<Rightarrow> callback list \<Rightarrow> nat" where
  "cb_count c cbs = length (filter (\<lambda>cb. statusCode (getResult cb) = c) cbs)"

lemma count_code_cb: "count_code c os = cb_count c (op_callbacks os)"
  by (induction os) (simp_all add: count_code_def cb_count_def op_code_def)

text \<open>One attempt at reading, when every record found carries the same version.\<close>

lemma do_execute_aligned:
  assumes codes: "codes_ok (env_code env)"
    and exec: "executeOperationVector env t (so_op (get_so g)) w = (rmap, op, w')"
    and rmap: "rmap = rmap_of (env_code env) (operations op)"
    and vers: "\<And>cb. cb \<in> set (op_callbacks (operations op)) \<Longrightarrow> status_ok (getResult cb) \<Longrightarrow>
      rec_version (the (getRecord cb)) = v"
    and skip: "\<not> skip_value g"
  defines "cbs \<equiv> op_callbacks (operations op)"
    and "g1 \<equiv> g\<lparr>get_so := (get_so g)\<lparr>so_op := op\<rparr>,
      get_version := \<lparr>vc_version = (if cb_count OK (op_callbacks (operations op)) = 0 then None else Some v),
                      vc_frequency = cb_count OK (op_callbacks (operations op))\<rparr>\<rparr>"
  shows "do_execute env lib t rp g w =
    (case evaluate_results lib (rmap_update (env_code env) OK id rmap) rp g1 of (rp, g, r) \<Rightarrow> (rp, g, r, w'))"
proof -
  let ?g = "g\<lparr>get_so := (get_so g)\<lparr>so_op := op\<rparr>\<rparr>"
  have ver: "version_of False cb = (if status_ok (getResult cb) then Some v else None)" if "cb \<in> set cbs" for cb
    using vers that by (simp add: version_of_def cbs_def)
  have "version_count False cbs v = cb_count OK cbs"
    unfolding version_count_def cb_count_def
    by (intro arg_cong [where f = length] filter_cong) (auto simp: ver status_ok_def)
  moreover have other: "version_count False cbs x = 0" if "x \<noteq> v" for x
    using that ver by (auto simp: version_count_def filter_empty_conv)
  moreover note spec = mostFrequentVersion_spec [of ?g, simplified, folded cbs_def]
  have spec1: "version_count False cbs x \<le> vc_frequency (mostFrequentVersion ?g)" for x
    using spec(1) [of x] skip by simp
  have spec2: "\<exists>x. vc_version (mostFrequentVersion ?g) = Some x \<and>
      vc_frequency (mostFrequentVersion ?g) = version_count False cbs x"
    if "vc_frequency (mostFrequentVersion ?g) \<noteq> 0"
    using spec(2) that skip by simp
  have freq: "vc_frequency (mostFrequentVersion ?g) = cb_count OK cbs"
  proof (cases "vc_frequency (mostFrequentVersion ?g) = 0")
    case True
    then show ?thesis using spec1 [of v] \<open>version_count False cbs v = cb_count OK cbs\<close> by simp
  next
    case False
    then show ?thesis using spec2 other \<open>version_count False cbs v = cb_count OK cbs\<close> by metis
  qed
  have "vc_version (mostFrequentVersion ?g) = (if cb_count OK cbs = 0 then None else Some v)"
    using spec(3) spec2 other freq by (cases "cb_count OK cbs = 0") (simp, metis)
  then have mfv: "mostFrequentVersion ?g =
      \<lparr>vc_version = (if cb_count OK cbs = 0 then None else Some v), vc_frequency = cb_count OK cbs\<rparr>"
    using freq by simp
  have "rmap_get (env_code env) rmap OK = cb_count OK cbs"
    unfolding rmap rmap_of_count [OF codes] count_code_cb cbs_def ..
  then show ?thesis
    unfolding do_execute_def Let_def exec prod.case mfv g1_def cbs_def [symmetric] by simp
qed

section \<open>Putting the value together\<close>

lemma merge_chunks_take:
  "length v \<le> sz \<Longrightarrow> merge_chunks sz v cs = take sz (v @ concat cs)"
proof (induction cs arbitrary: v)
  case (Cons c cs)
  show ?case
  proof (cases "length v + length c \<le> sz")
    case True
    then show ?thesis using Cons.IH [of "v @ c"] by simp
  next
    case False
    then show ?thesis using Cons.prems by simp
  qed
qed simp

text \<open>The chunks stored for a non-empty value: \<open>ds\<close> are its padded data chunks of size \<open>L\<close>, of which
  those past the end of the value are not written.\<close>

definition used_chunks :: "nat \<Rightarrow> nat \<Rightarrow> nat" where
  "used_chunks len L = (len + L - 1) div L"

definition stripe_content ::
  "isal \<Rightarrow> redundancy_provider \<Rightarrow> nat \<Rightarrow> string list \<Rightarrow> string \<Rightarrow> string list \<Rightarrow> bool" where
  "stripe_content lib rp L ds value st \<longleftrightarrow>
     0 < L \<and> L < 2 ^ 31 \<and> 0 < length value \<and> length ds = nData rp \<and> (\<forall>d \<in> set ds. length d = L) \<and>
     length value \<le> nData rp * L \<and> take (length value) (concat ds) = value \<and>
     (\<forall>i. used_chunks (length value) L \<le> i \<longrightarrow> i < nData rp \<longrightarrow> ds ! i = replicate L (CHR 0x00)) \<and>
     st = map (\<lambda>i. if used_chunks (length value) L \<le> i \<and> i < nData rp then [] else encode lib rp ds ! i)
            [0..<nData rp + nParity rp]"

lemma used_chunks_bounds:
  assumes "0 < L" and "0 < len" and "len \<le> k * L"
  shows "0 < used_chunks len L" and "used_chunks len L \<le> k" and "len \<le> used_chunks len L * L"
proof -
  have "1 * L \<le> len + L - 1" using assms by simp
  then show "0 < used_chunks len L"
    using assms(1) by (simp add: used_chunks_def div_greater_zero_iff)
  have "len + L - 1 < (k + 1) * L" using assms by (simp add: algebra_simps)
  then show "used_chunks len L \<le> k"
    using assms(1) by (simp add: used_chunks_def div_less_iff_less_mult less_Suc_eq_le flip: less_Suc_eq_le)
  have "len + L - 1 < (len + L - 1) div L * L + L"
    using assms(1) by (metis add.commute dividend_less_div_times)
  then show "len \<le> used_chunks len L * L" unfolding used_chunks_def by linarith
qed

lemma length_concat_same: "(\<And>d. d \<in> set ds \<Longrightarrow> length d = L) \<Longrightarrow> length (concat ds) = length ds * L"
  by (induction ds) auto

lemma concat_used:
  assumes "u \<le> length ds"
  shows "concat (map (\<lambda>i. if u \<le> i then [] else ds ! i) [0..<length ds]) = concat (take u ds)"
proof -
  have "map (\<lambda>i. if u \<le> i then [] else ds ! i) [0..<length ds] = take u ds @ replicate (length ds - u) []"
    using assms by (intro nth_equalityI) (auto simp: nth_append)
  then show ?thesis by simp
qed

lemma stripe_content_data:
  assumes "rp_ok lib rp" and c: "stripe_content lib rp L ds value st"
  shows "take (length value) (concat (take (nData rp) st)) = value"
    and "take (length value) (concat (encode lib rp ds)) = value"
proof -
  let ?u = "used_chunks (length value) L"
  have L: "0 < L" "0 < length value" "length ds = nData rp" "\<And>d. d \<in> set ds \<Longrightarrow> length d = L"
    "length value \<le> nData rp * L" "take (length value) (concat ds) = value"
    and st: "st = map (\<lambda>i. if ?u \<le> i \<and> i < nData rp then [] else encode lib rp ds ! i) [0..<nData rp + nParity rp]"
    using c by (auto simp: stripe_content_def)
  note u = used_chunks_bounds [OF L(1,2,5)]
  have "take (nData rp) st = map (\<lambda>i. if ?u \<le> i then [] else ds ! i) [0..<length ds]"
    using L(3) encode_data [OF assms(1) L(3,4)] unfolding st by (intro nth_equalityI) auto
  then have "concat (take (nData rp) st) = concat (take ?u ds)"
    using concat_used [of ?u ds] u(2) L(3) by simp
  moreover have "concat ds = concat (take ?u ds) @ concat (drop ?u ds)"
    by (metis append_take_drop_id concat_append)
  moreover have "length (concat (take ?u ds)) = ?u * L"
  proof -
    have "\<And>d. d \<in> set (take ?u ds) \<Longrightarrow> length d = L" using L(4) by (blast dest: in_set_takeD)
    from length_concat_same [OF this] show ?thesis using L(3) u(2) by simp
  qed
  ultimately show "take (length value) (concat (take (nData rp) st)) = value"
    using L(6) u(3) by simp
  have "encode lib rp ds = ds @ drop (nData rp) (encode lib rp ds)"
    using append_take_drop_id [of "nData rp" "encode lib rp ds"] rp.code_take [OF assms(1) L(3,4)] by simp
  then have "concat (encode lib rp ds) = concat ds @ concat (drop (nData rp) (encode lib rp ds))"
    using concat_append [of ds "drop (nData rp) (encode lib rp ds)"] by (simp only:)
  moreover have "length value \<le> length (concat ds)"
    using length_concat_same [of ds L] L(3-5) by simp
  ultimately show "take (length value) (concat (encode lib rp ds)) = value"
    using L(6) by simp
qed

lemma stripe_chunk_found:
  assumes "getRecord cb = Some (makeRecord x v)"
  shows "stripe_chunk v nd i cb = (x, x = [] \<and> i < nd, False, False)"
  using assms by (simp add: stripe_chunk_def makeRecord_def Convert_toString_def Let_def)

lemma stripe_chunk_lost: "getRecord cb = None \<Longrightarrow> stripe_chunk v nd i cb = ([], False, True, False)"
  by (simp add: stripe_chunk_def)

text \<open>The chunks as the callbacks deliver them: found with the content of the stripe, or not at all.\<close>

definition delivered :: "string \<Rightarrow> string list \<Rightarrow> callback list \<Rightarrow> bool" where
  "delivered v st cbs \<longleftrightarrow>
     (\<forall>i < length cbs. getRecord (cbs ! i) = None \<or> getRecord (cbs ! i) = Some (makeRecord (st ! i) v))"

abbreviation lost_count :: "callback list \<Rightarrow> nat" where
  "lost_count cbs \<equiv> length (filter (\<lambda>cb. getRecord cb = None) cbs)"

definition chunks_of :: "string \<Rightarrow> nat \<Rightarrow> callback list \<Rightarrow> (string \<times> bool \<times> bool \<times> bool) list" where
  "chunks_of v nd cbs = map (\<lambda>(i, cb). stripe_chunk v nd i cb) (enumerate 0 cbs)"

lemma chunks_of_nth:
  assumes "delivered v st cbs" and "i < length cbs"
  shows "chunks_of v nd cbs ! i =
    (if getRecord (cbs ! i) = None then ([], False, True, False) else (st ! i, st ! i = [] \<and> i < nd, False, False))"
proof -
  have "chunks_of v nd cbs ! i = stripe_chunk v nd i (cbs ! i)"
    using assms(2) by (simp add: chunks_of_def nth_enumerate_eq)
  then show ?thesis
    using assms by (auto simp: delivered_def stripe_chunk_found stripe_chunk_lost)
qed

lemma length_chunks_of [simp]: "length (chunks_of v nd cbs) = length cbs"
  by (simp add: chunks_of_def)

lemma chunks_recovery:
  assumes "delivered v st cbs"
  shows "(\<exists>(c, z, r, ni) \<in> set (chunks_of v nd cbs). r) \<longleftrightarrow> lost_count cbs \<noteq> 0"
    and "\<not> (\<exists>(c, z, r, ni) \<in> set (chunks_of v nd cbs). ni)"
proof -
  have ex: "(\<exists>x \<in> set xs. P x) \<longleftrightarrow> (\<exists>i < length xs. P (xs ! i))" for P and xs :: "'x list"
    by (metis in_set_conv_nth)
  show "(\<exists>(c, z, r, ni) \<in> set (chunks_of v nd cbs). r) \<longleftrightarrow> lost_count cbs \<noteq> 0"
    unfolding ex length_chunks_of using chunks_of_nth [OF assms]
    by (auto simp: filter_empty_conv ex split: if_splits)
  show "\<not> (\<exists>(c, z, r, ni) \<in> set (chunks_of v nd cbs). ni)"
    unfolding ex length_chunks_of using chunks_of_nth [OF assms] by auto
qed

lemma reconstruct_unfold:
  assumes "vc_version (get_version g) = Some v" and "uuidDecodeSize (Some v) = Inr sz" and "sz \<noteq> 0"
    and "cbs = op_callbacks (get_ops g)" and "delivered v st cbs"
  shows "reconstructValue lib rp g =
    (if lost_count cbs \<noteq> 0 then
       case compute lib rp (map Some (map (\<lambda>(c, z, r, ni).
              if z then replicate (first_chunk_size (map fst (chunks_of v (nData rp) cbs))) (CHR 0x00) else c)
              (chunks_of v (nData rp) cbs))) of
         (rp, Inl e) \<Rightarrow> (rp, g\<lparr>get_value := Some []\<rparr>, Inl e)
       | (rp, Inr stripe) \<Rightarrow> (rp, g\<lparr>get_value := Some (merge_chunks sz [] (map the stripe))\<rparr>, Inr ())
     else (rp, g\<lparr>get_value := Some (merge_chunks sz [] (map fst (chunks_of v (nData rp) cbs)))\<rparr>, Inr ()))"
proof -
  define ch where "ch = chunks_of v (nData rp) cbs"
  have ch: "map (\<lambda>(i, cb). stripe_chunk v (nData rp) i cb) (enumerate 0 (op_callbacks (get_ops g))) = ch"
    by (simp add: ch_def chunks_of_def assms(4))
  have recov: "(\<exists>(c, z, r, ni) \<in> set ch. r) = (lost_count cbs \<noteq> 0)"
    and indic: "(\<exists>(c, z, r, ni) \<in> set ch. ni) = False"
    using chunks_recovery [OF assms(5), of "nData rp"] by (simp_all add: ch_def)
  have upd: "get_version (g\<lparr>get_value := x\<rparr>) = get_version g" "get_so (g\<lparr>get_value := x\<rparr>) = get_so g"
    "g\<lparr>get_value := x, get_value := y\<rparr> = g\<lparr>get_value := y\<rparr>" for x y
    by simp_all
  show ?thesis
    unfolding ch_def [symmetric]
    by (simp only: reconstructValue_def Let_def numData_def upd assms(1,2) sum.case
        option.sel assms(3) if_False ch recov indic)
qed

lemma reconstruct_empty:
  assumes "vc_version (get_version g) = Some v" and "uuidDecodeSize (Some v) = Inr 0"
  shows "reconstructValue lib rp g = (rp, g\<lparr>get_value := Some []\<rparr>, Inr ())"
  using assms by (simp add: reconstructValue_def)

lemma reconstruct_complete:
  assumes ok: "rp_ok lib rp" and v: "vc_version (get_version g) = Some v" "uuidDecodeSize (Some v) = Inr (length value)"
    and content: "stripe_content lib rp L ds value st"
    and cbs: "cbs = op_callbacks (get_ops g)" "delivered v st cbs" "lost_count cbs = 0" "length cbs = nData rp"
  shows "reconstructValue lib rp g = (rp, g\<lparr>get_value := Some value\<rparr>, Inr ())"
proof -
  have "0 < length value" "length st = nData rp + nParity rp"
    using content by (simp_all add: stripe_content_def)
  moreover have "map fst (chunks_of v (nData rp) cbs) = take (nData rp) st"
  proof (rule nth_equalityI)
    fix i assume "i < length (map fst (chunks_of v (nData rp) cbs))"
    then have i: "i < length cbs" by simp
    then have "getRecord (cbs ! i) \<noteq> None" using cbs(3) by (auto simp: filter_empty_conv)
    then show "map fst (chunks_of v (nData rp) cbs) ! i = take (nData rp) st ! i"
      using i chunks_of_nth [OF cbs(2) i] cbs(4) by auto
  qed (use cbs(4) \<open>length st = _\<close> in simp)
  ultimately show ?thesis
    using reconstruct_unfold [OF v _ cbs(1,2), of lib rp] cbs(3) stripe_content_data(1) [OF ok content]
    by (simp add: merge_chunks_take)
qed

lemma first_chunk_size_eq:
  assumes "\<And>c. c \<in> set stripe \<Longrightarrow> c \<noteq> [] \<Longrightarrow> length c = L" and "\<exists>c \<in> set stripe. c \<noteq> []"
  shows "first_chunk_size stripe = L"
proof -
  obtain c where "List.find (\<lambda>c. length c \<noteq> 0) stripe = Some c"
    using assms(2) by (cases "List.find (\<lambda>c. length c \<noteq> 0) stripe") (auto simp: find_None_iff)
  moreover from this have "c \<in> set stripe" "c \<noteq> []" by (auto simp: find_Some_iff)
  ultimately show ?thesis using assms(1) by (simp add: first_chunk_size_def)
qed

text \<open>The stored chunks: unwritten data chunks are empty, all others are chunks of the code word.\<close>

lemma stripe_content_nth:
  assumes ok: "rp_ok lib rp" and c: "stripe_content lib rp L ds value st" and i: "i < nData rp + nParity rp"
  shows "st ! i = (if used_chunks (length value) L \<le> i \<and> i < nData rp then [] else encode lib rp ds ! i)"
    and "length (encode lib rp ds ! i) = L" and "0 < L"
    and "used_chunks (length value) L \<le> i \<Longrightarrow> i < nData rp \<Longrightarrow> encode lib rp ds ! i = replicate L (CHR 0x00)"
proof -
  have L: "length ds = nData rp" "\<And>d. d \<in> set ds \<Longrightarrow> length d = L"
    using c by (simp_all add: stripe_content_def)
  show "0 < L" "st ! i = (if used_chunks (length value) L \<le> i \<and> i < nData rp then [] else encode lib rp ds ! i)"
    using c i by (simp_all add: stripe_content_def)
  show "length (encode lib rp ds ! i) = L"
    using length_encode_chunk [OF ok L] length_encode [OF ok L(1)] i by simp
  show "encode lib rp ds ! i = replicate L (CHR 0x00)" if "used_chunks (length value) L \<le> i" "i < nData rp"
    using encode_data [OF ok L that(2)] that c by (simp add: stripe_content_def)
qed

lemma some_chunk_found:
  assumes ok: "rp_ok lib rp" and content: "stripe_content lib rp L ds value st"
    and cbs: "length cbs = nData rp + nParity rp" "lost_count cbs \<le> nParity rp"
  obtains i where "i < length cbs" "getRecord (cbs ! i) \<noteq> None" "st ! i \<noteq> []"
proof -
  let ?u = "used_chunks (length value) L"
  let ?W = "{0..<?u} \<union> {nData rp..<nData rp + nParity rp}"
  have u: "0 < ?u" "?u \<le> nData rp"
    using content used_chunks_bounds [of L "length value" "nData rp"] by (auto simp: stripe_content_def)
  let ?lost = "set (filter (\<lambda>i. getRecord (cbs ! i) = None) [0..<length cbs])"
  have lost: "card ?lost \<le> nParity rp"
  proof -
    have "card ?lost \<le> length (filter (\<lambda>i. getRecord (cbs ! i) = None) [0..<length cbs])" by (rule card_length)
    also have "\<dots> = lost_count (map (nth cbs) [0..<length cbs])" by (simp add: filter_map comp_def)
    finally show ?thesis using cbs(2) by (simp add: map_nth)
  qed
  have "card ?W = ?u + nParity rp"
    using u by (subst card_Un_disjoint) auto
  then have "\<not> ?W \<subseteq> ?lost"
    using lost u(1) card_mono [of ?lost ?W] by fastforce
  then obtain i where i: "i \<in> ?W" "i \<notin> ?lost" by blast
  then have lt: "i < length cbs" using u cbs(1) by auto
  moreover have "getRecord (cbs ! i) \<noteq> None" using i(2) lt by auto
  moreover have "st ! i \<noteq> []"
    using i(1) stripe_content_nth [OF ok content, of i] lt cbs(1) by auto
  ultimately show thesis using that by blast
qed

lemma reconstruct_recover:
  assumes ok: "rp_ok lib rp" and v: "vc_version (get_version g) = Some v" "uuidDecodeSize (Some v) = Inr (length value)"
    and content: "stripe_content lib rp L ds value st"
    and cbs: "cbs = op_callbacks (get_ops g)" "delivered v st cbs" "lost_count cbs \<noteq> 0"
      "lost_count cbs \<le> nParity rp" "length cbs = nData rp + nParity rp"
  shows "\<exists>c. reconstructValue lib rp g = (rp\<lparr>cache := c\<rparr>, g\<lparr>get_value := Some value\<rparr>, Inr ()) \<and> rp_ok lib (rp\<lparr>cache := c\<rparr>)"
proof -
  let ?N = "nData rp + nParity rp" let ?cw = "encode lib rp ds"
  let ?ch = "chunks_of v (nData rp) cbs"
  have nth: "?ch ! i = (if getRecord (cbs ! i) = None then ([], False, True, False)
      else (st ! i, st ! i = [] \<and> i < nData rp, False, False))" if "i < ?N" for i
    using chunks_of_nth [OF cbs(2)] that cbs(5) by simp
  note st = stripe_content_nth [OF ok content]
  have size: "first_chunk_size (map fst ?ch) = L"
  proof (rule first_chunk_size_eq)
    fix c assume "c \<in> set (map fst ?ch)" "c \<noteq> []"
    then obtain i where i: "i < ?N" "c = fst (?ch ! i)" using cbs(5) by (auto simp: in_set_conv_nth)
    then have "c = st ! i" using nth [OF i(1)] \<open>c \<noteq> []\<close> by (auto split: if_splits)
    then show "length c = L" using st(1,2) [OF i(1)] \<open>c \<noteq> []\<close> by (auto split: if_splits)
  next
    obtain i where "i < length cbs" "getRecord (cbs ! i) \<noteq> None" "st ! i \<noteq> []"
      using some_chunk_found [OF ok content cbs(5,4)] by blast
    then show "\<exists>c \<in> set (map fst ?ch). c \<noteq> []"
      using nth [of i] cbs(5) nth_mem [of i ?ch] by force
  qed
  define s where "s = map (\<lambda>(c, z, r, ni). if z then replicate L (CHR 0x00) else c) ?ch"
  have snth: "s ! i = (if getRecord (cbs ! i) = None then [] else ?cw ! i)" if "i < ?N" for i
    using that nth [OF that] st [OF that] cbs(5) by (auto simp: s_def)
  have len: "length ds = nData rp" "\<And>d. d \<in> set ds \<Longrightarrow> length d = L" "0 < L" "L < 2 ^ 31"
    using content by (simp_all add: stripe_content_def)
  have er: "erased (map Some s) ?cw"
    unfolding erased_def using snth length_encode [OF ok len(1)] cbs(5) by (auto simp: s_def)
  have nonempty: "?cw ! i \<noteq> []" if "i < ?N" for i
    using st(2,3) [OF that] by auto
  have "filter missing (map Some s) = map Some (filter (\<lambda>c. c = []) s)"
    by (simp add: filter_map comp_def missing_Some)
  moreover have "s = map (\<lambda>i. if getRecord (cbs ! i) = None then [] else ?cw ! i) [0..<?N]"
    using snth cbs(5) by (intro nth_equalityI) (auto simp: s_def)
  moreover have "filter ((\<lambda>c. c = []) \<circ> (\<lambda>i. if getRecord (cbs ! i) = None then [] else ?cw ! i)) [0..<?N] =
      filter (\<lambda>i. getRecord (cbs ! i) = None) [0..<?N]"
    using nonempty by (intro filter_cong) auto
  ultimately have "length (filter missing (map Some s)) = length (filter (\<lambda>i. getRecord (cbs ! i) = None) [0..<?N])"
    by (simp add: filter_map)
  also have "\<dots> = lost_count (map (nth cbs) [0..<?N])" by (simp add: filter_map comp_def)
  finally have few: "length (filter missing (map Some s)) \<le> nParity rp"
    using cbs(4,5) by (metis map_nth)
  from compute_recovers [OF ok len er few] obtain c where
    c: "compute lib rp (map Some s) = (rp\<lparr>cache := c\<rparr>, Inr (map Some ?cw))" "rp_ok lib (rp\<lparr>cache := c\<rparr>)" by blast
  have "length value \<noteq> 0" using content by (simp add: stripe_content_def)
  then have "reconstructValue lib rp g = (rp\<lparr>cache := c\<rparr>, g\<lparr>get_value := Some (merge_chunks (length value) [] ?cw)\<rparr>, Inr ())"
    using cbs(3) c(1) unfolding reconstruct_unfold [OF v \<open>length value \<noteq> 0\<close> cbs(1,2)] size s_def [symmetric]
    by (simp add: comp_def)
  then show ?thesis
    using c(2) stripe_content_data(2) [OF ok content] by (auto simp: merge_chunks_take)
qed

section \<open>Reading a whole stripe\<close>

definition lost_drives ::
  "('w \<Rightarrow> nat \<Rightarrow> bool) \<Rightarrow> ('w \<Rightarrow> nat \<Rightarrow> string \<rightharpoonup> kinetic_record) \<Rightarrow> 'w \<Rightarrow> string \<Rightarrow> nat list \<Rightarrow> nat" where
  "lost_drives up store w key cs = length (filter (\<lambda>c. \<not> up w c \<or> store w c key = None) cs)"

definition absent_drives ::
  "('w \<Rightarrow> nat \<Rightarrow> bool) \<Rightarrow> ('w \<Rightarrow> nat \<Rightarrow> string \<rightharpoonup> kinetic_record) \<Rightarrow> 'w \<Rightarrow> string \<Rightarrow> nat list \<Rightarrow> nat" where
  "absent_drives up store w key cs = length (filter (\<lambda>c. up w c \<and> store w c key = None) cs)"

text \<open>Every drive of the stripe that is up and has the key holds its chunk of the stripe.\<close>

definition stripe_on_drives ::
  "('w \<Rightarrow> nat \<Rightarrow> bool) \<Rightarrow> ('w \<Rightarrow> nat \<Rightarrow> string \<rightharpoonup> kinetic_record) \<Rightarrow> 'w \<Rightarrow> string \<Rightarrow> string \<Rightarrow> string list \<Rightarrow>
   nat list \<Rightarrow> bool" where
  "stripe_on_drives up store w key v st cs \<longleftrightarrow>
     (\<forall>i < length cs. up w (cs ! i) \<longrightarrow> store w (cs ! i) key \<in> {None, Some (makeRecord (st ! i) v)})"

lemma drives_append:
  "lost_drives up store w key (xs @ ys) = lost_drives up store w key xs + lost_drives up store w key ys"
  "absent_drives up store w key (xs @ ys) = absent_drives up store w key xs + absent_drives up store w key ys"
  by (simp_all add: lost_drives_def absent_drives_def)

lemma stripe_on_drives_prefix:
  assumes "stripe_on_drives up store w key v st (xs @ ys)"
  shows "stripe_on_drives up store w key v st xs"
  unfolding stripe_on_drives_def
proof (intro allI impI)
  fix i
  assume "i < length xs" "up w (xs ! i)"
  then show "store w (xs ! i) key \<in> {None, Some (makeRecord (st ! i) v)}"
    using assms [unfolded stripe_on_drives_def, rule_format, of i] by (simp add: nth_append)
qed

lemma drives_same:
  assumes "same_drives up store w w'"
  shows "lost_drives up store w' key cs = lost_drives up store w key cs"
    "absent_drives up store w' key cs = absent_drives up store w key cs"
    "stripe_on_drives up store w' key v st cs = stripe_on_drives up store w key v st cs"
  using assms by (simp_all add: same_drives_def lost_drives_def absent_drives_def stripe_on_drives_def)

lemma outcome_counts:
  assumes "list_all2 (outcome up store w key) cs cbs"
  shows "lost_count cbs = lost_drives up store w key cs"
    "cb_count OK cbs + lost_drives up store w key cs = length cs"
    "cb_count REMOTE_NOT_FOUND cbs = absent_drives up store w key cs"
    "cb_count REMOTE_VERSION_MISMATCH cbs = 0"
    "\<forall>cb \<in> set cbs. cb_done cb"
  using assms
  by (induction cs cbs rule: list_all2_induct)
    (auto simp: outcome_def lost_drives_def absent_drives_def cb_count_def getRecord_def getResult_def
      validStatusCode_def split: if_splits option.splits)

lemma outcome_delivered:
  assumes "list_all2 (outcome up store w key) cs cbs" and "stripe_on_drives up store w key v st cs"
  shows "delivered v st cbs"
    and "\<And>cb. cb \<in> set cbs \<Longrightarrow> status_ok (getResult cb) \<Longrightarrow> rec_version (the (getRecord cb)) = v"
proof -
  have at: "getRecord (cbs ! i) = None \<and> \<not> status_ok (getResult (cbs ! i)) \<or>
      getRecord (cbs ! i) = Some (makeRecord (st ! i) v)" if "i < length cbs" for i
  proof -
    have "outcome up store w key (cs ! i) (cbs ! i)" "i < length cs"
      using assms(1) that by (auto simp: list_all2_conv_all_nth)
    then show ?thesis
      using assms(2)
      by (auto simp: outcome_def stripe_on_drives_def getRecord_def getResult_def status_ok_def validStatusCode_def
          split: if_splits option.splits)
  qed
  then show "delivered v st cbs" by (auto simp: delivered_def)
  fix cb assume "cb \<in> set cbs" "status_ok (getResult cb)"
  then show "rec_version (the (getRecord cb)) = v"
    using at by (fastforce simp: in_set_conv_nth makeRecord_def)
qed

lemma op_callbacks_map2:
  "length cs = length cbs \<Longrightarrow> op_callbacks (map2 (with_callback key) cs cbs) = cbs"
  by (induction cs cbs rule: list_induct2) (simp_all add: with_callback_def)

lemma execute_rmap:
  "executeOperationVector env t op w = (rmap, op', w') \<Longrightarrow>
     rmap = rmap_of (env_code env) (operations op') \<and> num_connections op' = num_connections op"
  by (auto simp: executeOperationVector_def split: prod.splits)

text \<open>An attempt whose operations are finished ones followed by fresh requests.\<close>

lemma attempt:
  assumes honest: "honest_get env up store" and codes: "codes_ok (env_code env)"
    and ops: "get_ops g = map2 (with_callback key) cs1 cbs1 @ map (fresh_get False key) cs2"
    and old: "list_all2 (outcome up store w key) cs1 cbs1"
    and drives: "stripe_on_drives up store w key v st (cs1 @ cs2)" and skip: "\<not> skip_value g"
  obtains op cbs2 w' g1 rmap where
    "list_all2 (outcome up store w key) cs2 cbs2" "same_drives up store w w'"
    "operations op = map2 (with_callback key) (cs1 @ cs2) (cbs1 @ cbs2)" "num_connections op = num_connections (so_op (get_so g))"
    "g1 = g\<lparr>get_so := (get_so g)\<lparr>so_op := op\<rparr>,
       get_version := \<lparr>vc_version = (if cb_count OK (cbs1 @ cbs2) = 0 then None else Some v),
                       vc_frequency = cb_count OK (cbs1 @ cbs2)\<rparr>\<rparr>"
    "op_callbacks (operations op) = cbs1 @ cbs2"
    "rmap = rmap_update (env_code env) OK id (rmap_of (env_code env) (operations op))"
    "do_execute env lib t rp g w = (case evaluate_results lib rmap rp g1 of (rp, g, r) \<Rightarrow> (rp, g, r, w'))"
proof -
  obtain rm op w' where ex: "executeOperationVector env t (so_op (get_so g)) w = (rm, op, w')" by (metis prod_cases3)
  have len1: "length cs1 = length cbs1" using old by (rule list_all2_lengthD)
  have "\<forall>cb \<in> set (op_callbacks (map2 (with_callback key) cs1 cbs1)). cb_done cb"
    using outcome_counts(5) [OF old] by (simp add: op_callbacks_map2 [OF len1])
  from execute_gets [OF honest this ops ex] obtain cbs2 where
    c2: "operations op = map2 (with_callback key) cs1 cbs1 @ map2 (with_callback key) cs2 cbs2"
    "list_all2 (outcome up store w key) cs2 cbs2" "same_drives up store w w'" by blast
  have len2: "length cs2 = length cbs2" using c2(2) by (rule list_all2_lengthD)
  have op: "operations op = map2 (with_callback key) (cs1 @ cs2) (cbs1 @ cbs2)"
    using c2(1) len1 by simp
  have cbs: "op_callbacks (operations op) = cbs1 @ cbs2"
    unfolding c2(1) by (simp add: op_callbacks_map2 len1 len2)
  have all: "list_all2 (outcome up store w key) (cs1 @ cs2) (cbs1 @ cbs2)"
    using old c2(2) by (rule list_all2_appendI)
  note rm = execute_rmap [OF ex]
  have exec: "do_execute env lib t rp g w =
    (case evaluate_results lib (rmap_update (env_code env) OK id rm) rp (g\<lparr>get_so := (get_so g)\<lparr>so_op := op\<rparr>,
       get_version := \<lparr>vc_version = (if cb_count OK (op_callbacks (operations op)) = 0 then None else Some v),
                       vc_frequency = cb_count OK (op_callbacks (operations op))\<rparr>\<rparr>) of (rp, g, r) \<Rightarrow> (rp, g, r, w'))"
    by (rule do_execute_aligned [OF codes ex conjunct1 [OF rm] _ skip])
      (use outcome_delivered(2) [OF all drives] cbs in auto)
  show thesis
    by (rule that [OF c2(2,3) op conjunct2 [OF rm] refl cbs refl])
      (use exec rm cbs in simp)
qed

text \<open>Which results of an attempt have enough votes.\<close>

lemma attempt_votes:
  assumes codes: "codes_ok (env_code env)" and cbs: "list_all2 (outcome up store w key) cs cbs" "op_callbacks os = cbs"
    and absent: "absent_drives up store w key cs < numData rp"
  defines "rmap \<equiv> rmap_update (env_code env) OK id (rmap_of (env_code env) os)"
  shows "\<And>c n. (c, n) \<in> set rmap \<Longrightarrow> numData rp \<le> n \<Longrightarrow> validStatusCode c \<Longrightarrow> c = OK"
    and "\<And>n. (OK, n) \<in> set rmap \<Longrightarrow> n = cb_count OK cbs" and "\<exists>n. (OK, n) \<in> set rmap"
proof -
  have n: "n = cb_count c cbs" if "(c, n) \<in> set rmap" for c n
    using rmap_touch_count [OF codes that [unfolded rmap_def]] by (simp add: count_code_cb cbs(2))
  note counts = outcome_counts [OF cbs(1)]
  show "c = OK" if "(c, n) \<in> set rmap" "numData rp \<le> n" "validStatusCode c" for c n
    using n [OF that(1)] that(2,3) counts(3,4) absent by (auto simp: validStatusCode_def)
  show "n = cb_count OK cbs" if "(OK, n) \<in> set rmap" for n by (rule n [OF that])
  show "\<exists>n. (OK, n) \<in> set rmap"
    unfolding rmap_def by (rule rmap_update_has_key) (use codes in \<open>simp add: codes_ok_def\<close>)
qed

lemma attempt_succeeds:
  assumes codes: "codes_ok (env_code env)" and cbs: "list_all2 (outcome up store w key) cs cbs" "op_callbacks os = cbs"
    and absent: "absent_drives up store w key cs < numData rp" and enough: "numData rp \<le> cb_count OK cbs"
    and skip: "\<not> skip_value g" and rec: "reconstructValue lib rp g = (rp', g', Inr ())"
  shows "evaluate_results lib (rmap_update (env_code env) OK id (rmap_of (env_code env) os)) rp g = (rp', g', Inr ok_status)"
proof -
  note votes = attempt_votes [OF codes cbs absent]
  obtain n where n: "(OK, n) \<in> set (rmap_update (env_code env) OK id (rmap_of (env_code env) os))"
    using votes(3) by blast
  show ?thesis
    by (rule evaluate_ok [OF votes(1) n _ skip rec]) (use votes(2) [OF n] enough in auto)
qed

lemma attempt_fails:
  assumes codes: "codes_ok (env_code env)" and cbs: "list_all2 (outcome up store w key) cs cbs" "op_callbacks os = cbs"
    and absent: "absent_drives up store w key cs < numData rp" and few: "cb_count OK cbs < numData rp"
  shows "evaluate_results lib (rmap_update (env_code env) OK id (rmap_of (env_code env) os)) rp g = (rp, g, Inl Runtime_error)"
proof (rule evaluate_fails)
  note votes = attempt_votes [OF codes cbs absent]
  fix c n
  assume m: "(c, n) \<in> set (rmap_update (env_code env) OK id (rmap_of (env_code env) os))" "numData rp \<le> n"
  show "\<not> validStatusCode c"
    using votes(1) [OF m] votes(2) [of n] m few by fastforce
qed

lemma add_parities_ops:
  assumes "length (get_ops g) = numData rp" and "\<And>o'. o' \<in> set (get_ops g) \<Longrightarrow> op_callback o' \<noteq> None"
    and "\<not> skip_value g"
  shows "get_ops (add_parities rp g) = get_ops g @ map (fresh_get False (so_key (get_so g)))
      (key_connections (num_connections (so_op (get_so g))) (so_key (get_so g)) (numParity rp) (numData rp))"
    and "so_key (get_so (add_parities rp g)) = so_key (get_so g)" and "skip_value (add_parities rp g) = skip_value g"
    and "need_indicator (get_so (add_parities rp g)) = need_indicator (get_so g)"
  using assms fill_filled [of "get_ops g" "False" "so_key (get_so g)"]
  unfolding add_parities_def Let_def GET_fillOperationVector_eq
  by (simp_all add: stripe_expandOperationVector_def fill_empties set_operations_def del: map_map)

text \<open>The value that a version announces, as stored on the drives.\<close>

definition stored_value ::
  "isal \<Rightarrow> redundancy_provider \<Rightarrow> string \<Rightarrow> string \<Rightarrow> string list \<Rightarrow> bool" where
  "stored_value lib rp v value st \<longleftrightarrow>
     uuidDecodeSize (Some v) = Inr (length value) \<and> (value = [] \<or> (\<exists>L ds. stripe_content lib rp L ds value st))"

lemma stored_value_complete:
  assumes "rp_ok lib rp" and "stored_value lib rp v value st" and "vc_version (get_version g) = Some v"
    and "cbs = op_callbacks (get_ops g)" "delivered v st cbs" "lost_count cbs = 0" "length cbs = nData rp"
  shows "reconstructValue lib rp g = (rp, g\<lparr>get_value := Some value\<rparr>, Inr ())"
proof (cases "value = []")
  case True
  then show ?thesis using assms(2,3) reconstruct_empty by (simp add: stored_value_def)
next
  case False
  then show ?thesis using assms reconstruct_complete unfolding stored_value_def by blast
qed

lemma stored_value_recover:
  assumes "rp_ok lib rp" and "stored_value lib rp v value st" and "vc_version (get_version g) = Some v"
    and "cbs = op_callbacks (get_ops g)" "delivered v st cbs" "lost_count cbs \<noteq> 0" "lost_count cbs \<le> nParity rp"
      "length cbs = nData rp + nParity rp"
  shows "\<exists>c. reconstructValue lib rp g = (rp\<lparr>cache := c\<rparr>, g\<lparr>get_value := Some value\<rparr>, Inr ()) \<and> rp_ok lib (rp\<lparr>cache := c\<rparr>)"
proof (cases "value = []")
  case True
  then have "reconstructValue lib rp g = (rp, g\<lparr>get_value := Some value\<rparr>, Inr ())"
    using assms(2,3) reconstruct_empty by (simp add: stored_value_def)
  then show ?thesis using assms(1) by (intro exI [of _ "cache rp"]) simp
next
  case False
  then show ?thesis using assms reconstruct_recover unfolding stored_value_def by blast
qed

text \<open>An attempt that reaches enough drives reconstructs the value: without coding where the data
  operations alone were all answered, otherwise from the stripe with its parities.\<close>

lemma attempt_recovers:
  assumes honest: "honest_get env up store" and codes: "codes_ok (env_code env)" and ok: "rp_ok lib rp"
    and val: "stored_value lib rp v value st"
    and ops: "get_ops g = map2 (with_callback key) cs1 cbs1 @ map (fresh_get False key) cs2"
    and old: "list_all2 (outcome up store w key) cs1 cbs1"
    and drives: "stripe_on_drives up store w key v st (cs1 @ cs2)" and skip: "\<not> skip_value g"
    and absent: "absent_drives up store w key (cs1 @ cs2) < nData rp"
    and enough: "length (cs1 @ cs2) = nData rp \<and> lost_drives up store w key (cs1 @ cs2) = 0 \<or>
      length (cs1 @ cs2) = nData rp + nParity rp \<and> 0 < lost_drives up store w key (cs1 @ cs2) \<and>
      lost_drives up store w key (cs1 @ cs2) \<le> nParity rp"
  shows "\<exists>c g' w'. do_execute env lib t rp g w = (rp\<lparr>cache := c\<rparr>, g', Inr ok_status, w') \<and>
      rp_ok lib (rp\<lparr>cache := c\<rparr>) \<and> get_value g' = Some value \<and> vc_version (get_version g') = Some v \<and>
      need_indicator (get_so g') = need_indicator (get_so g) \<and> same_drives up store w w'"
proof -
  obtain op cbs2 w' g1 rmap where
    p: "list_all2 (outcome up store w key) cs2 cbs2" "same_drives up store w w'"
      "g1 = g\<lparr>get_so := (get_so g)\<lparr>so_op := op\<rparr>,
         get_version := \<lparr>vc_version = (if cb_count OK (cbs1 @ cbs2) = 0 then None else Some v),
                         vc_frequency = cb_count OK (cbs1 @ cbs2)\<rparr>\<rparr>"
      "op_callbacks (operations op) = cbs1 @ cbs2"
      "rmap = rmap_update (env_code env) OK id (rmap_of (env_code env) (operations op))"
      "do_execute env lib t rp g w = (case evaluate_results lib rmap rp g1 of (rp, g, r) \<Rightarrow> (rp, g, r, w'))"
    by (rule attempt [OF honest codes ops old drives skip]) (rule that)
  have all: "list_all2 (outcome up store w key) (cs1 @ cs2) (cbs1 @ cbs2)"
    using old p(1) by (rule list_all2_appendI)
  note counts = outcome_counts [OF all] and len = list_all2_lengthD [OF all]
  have many: "numData rp \<le> cb_count OK (cbs1 @ cbs2)" "0 < nData rp"
    using enough counts(2) ok by (auto simp: numData_def rp_ok_def)
  have g1: "\<not> skip_value g1" "vc_version (get_version g1) = Some v" "cbs1 @ cbs2 = op_callbacks (get_ops g1)"
    using p(3,4) many skip by (simp_all add: numData_def)
  note got = outcome_delivered(1) [OF all drives]
  have "\<exists>c. reconstructValue lib rp g1 = (rp\<lparr>cache := c\<rparr>, g1\<lparr>get_value := Some value\<rparr>, Inr ()) \<and> rp_ok lib (rp\<lparr>cache := c\<rparr>)"
    using enough
  proof (elim disjE conjE)
    assume e: "length (cs1 @ cs2) = nData rp" "lost_drives up store w key (cs1 @ cs2) = 0"
    have "reconstructValue lib rp g1 = (rp, g1\<lparr>get_value := Some value\<rparr>, Inr ())"
      by (rule stored_value_complete [OF ok val g1(2,3) got]) (use e counts(1) len in simp_all)
    then show ?thesis using ok by (intro exI [of _ "cache rp"]) simp
  next
    assume "length (cs1 @ cs2) = nData rp + nParity rp" "0 < lost_drives up store w key (cs1 @ cs2)"
      "lost_drives up store w key (cs1 @ cs2) \<le> nParity rp"
    then have "lost_count (cbs1 @ cbs2) \<noteq> 0" "lost_count (cbs1 @ cbs2) \<le> nParity rp"
      "length (cbs1 @ cbs2) = nData rp + nParity rp" using counts(1) len by linarith+
    then show ?thesis by (rule stored_value_recover [OF ok val g1(2,3) got])
  qed
  then obtain c where rec: "reconstructValue lib rp g1 = (rp\<lparr>cache := c\<rparr>, g1\<lparr>get_value := Some value\<rparr>, Inr ())"
    "rp_ok lib (rp\<lparr>cache := c\<rparr>)" by blast
  have "evaluate_results lib rmap rp g1 = (rp\<lparr>cache := c\<rparr>, g1\<lparr>get_value := Some value\<rparr>, Inr ok_status)"
    unfolding p(5) by (rule attempt_succeeds [OF codes all p(4) _ many(1) g1(1) rec(1)]) (use absent in \<open>simp add: numData_def\<close>)
  then show ?thesis
    using p(2,6) rec(2) g1(2) p(3) by (intro exI [of _ c]) auto
qed

text \<open>A first attempt that misses data chunks fails, and the operations of the parities are added.\<close>

lemma attempt_misses:
  assumes honest: "honest_get env up store" and codes: "codes_ok (env_code env)"
    and ops: "get_ops g = map (fresh_get False (so_key (get_so g))) cs1" and len: "length cs1 = nData rp"
    and drives: "stripe_on_drives up store w (so_key (get_so g)) v st cs1" and skip: "\<not> skip_value g"
    and absent: "absent_drives up store w (so_key (get_so g)) cs1 < nData rp"
    and miss: "lost_drives up store w (so_key (get_so g)) cs1 \<noteq> 0"
  obtains g1 cbs1 w1 where "do_execute env lib t rp g w = (rp, g1, Inl Runtime_error, w1)"
    "list_all2 (outcome up store w (so_key (get_so g))) cs1 cbs1" "same_drives up store w w1"
    "get_ops (add_parities rp g1) = map2 (with_callback (so_key (get_so g))) cs1 cbs1 @ map (fresh_get False (so_key (get_so g)))
       (key_connections (num_connections (so_op (get_so g))) (so_key (get_so g)) (nParity rp) (nData rp))"
    "\<not> skip_value (add_parities rp g1)" "need_indicator (get_so (add_parities rp g1)) = need_indicator (get_so g)"
proof -
  let ?key = "so_key (get_so g)"
  have none: "get_ops g = map2 (with_callback ?key) [] [] @ map (fresh_get False ?key) cs1"
    "stripe_on_drives up store w ?key v st ([] @ cs1)" using ops drives by simp_all
  obtain op cbs1 w1 g1 rmap where
    p: "list_all2 (outcome up store w ?key) cs1 cbs1" "same_drives up store w w1"
      "operations op = map2 (with_callback ?key) cs1 cbs1" "num_connections op = num_connections (so_op (get_so g))"
      "g1 = g\<lparr>get_so := (get_so g)\<lparr>so_op := op\<rparr>,
         get_version := \<lparr>vc_version = (if cb_count OK cbs1 = 0 then None else Some v), vc_frequency = cb_count OK cbs1\<rparr>\<rparr>"
      "op_callbacks (operations op) = cbs1"
      "rmap = rmap_update (env_code env) OK id (rmap_of (env_code env) (operations op))"
      "do_execute env lib t rp g w = (case evaluate_results lib rmap rp g1 of (rp, g, r) \<Rightarrow> (rp, g, r, w1))"
    by (rule attempt [OF honest codes none(1) list_all2_Nil [THEN iffD2, OF refl] none(2) skip, unfolded append_Nil])
      (rule that)
  have few: "cb_count OK cbs1 < numData rp" "absent_drives up store w ?key cs1 < numData rp"
    using outcome_counts(2) [OF p(1)] miss len absent by (simp_all add: numData_def)
  have fail: "do_execute env lib t rp g w = (rp, g1, Inl Runtime_error, w1)"
    using p(8) attempt_fails [OF codes p(1,6) few(2,1)] unfolding p(7) by simp
  have g1: "get_ops g1 = map2 (with_callback ?key) cs1 cbs1" "so_key (get_so g1) = ?key" "\<not> skip_value g1"
    "num_connections (so_op (get_so g1)) = num_connections (so_op (get_so g))"
    "need_indicator (get_so g1) = need_indicator (get_so g)"
    using p(3,4,5) skip by simp_all
  have filled: "op_callback o' \<noteq> None" if "o' \<in> set (get_ops g1)" for o'
    using that unfolding g1(1) by (auto simp: with_callback_def)
  have "length (get_ops g1) = numData rp"
    unfolding g1(1) using list_all2_lengthD [OF p(1)] len by (simp add: numData_def)
  note parities = add_parities_ops [OF this filled g1(3)]
  show thesis
    by (rule that [OF fail p(1,2)])
      (use parities g1 in \<open>simp_all add: numParity_def numData_def\<close>)
qed

lemma GET_execute_recovers:
  assumes honest: "honest_get env up store" and codes: "codes_ok (env_code env)" and ok: "rp_ok lib rp"
    and n: "0 < n" "n < 2 ^ 32" "no_index_wrap n key (nData rp)"
    and val: "stored_value lib rp v value st"
    and drives: "stripe_on_drives up store w key v st (key_connections n key (rp_size rp) 0)"
    and lost: "lost_drives up store w key (key_connections n key (rp_size rp) 0) \<le> nParity rp"
    and absent: "absent_drives up store w key (key_connections n key (rp_size rp) 0) < nData rp"
  shows "\<exists>c g' w'. GET_execute env lib t rp (StripeOperation_GET_new key False n rp False) w =
      (rp\<lparr>cache := c\<rparr>, g', Inr ok_status, w') \<and> rp_ok lib (rp\<lparr>cache := c\<rparr>) \<and> get_value g' = Some value \<and>
      vc_version (get_version g') = Some v \<and> \<not> need_indicator (get_so g') \<and> same_drives up store w w'"
proof -
  let ?g = "StripeOperation_GET_new key False n rp False"
  define cs1 cs2 where "cs1 = key_connections n key (nData rp) 0" and "cs2 = key_connections n key (nParity rp) (nData rp)"
  have cs: "key_connections n key (rp_size rp) 0 = cs1 @ cs2" "length cs1 = nData rp" "length cs2 = nParity rp"
    unfolding cs1_def cs2_def rp_size_def using key_connections_append [OF n] by simp_all
  note g = StripeOperation_GET_new_proj [of key False n rp False, unfolded numData_def if_False, folded cs1_def]
  have skip: "\<not> skip_value ?g" using g(4) by simp
  have d1: "stripe_on_drives up store w key v st cs1"
    using drives unfolding cs(1) by (rule stripe_on_drives_prefix)
  have abs: "absent_drives up store w key cs1 < nData rp"
    using absent unfolding cs(1) drives_append by simp
  show ?thesis
  proof (cases "lost_drives up store w key cs1 = 0")
    case True
    have "get_ops ?g = map2 (with_callback key) [] [] @ map (fresh_get False key) cs1" using g(1) by simp
    from attempt_recovers [OF honest codes ok val this _ _ skip, of w t] True d1 abs cs(2)
    obtain c g' w' where "do_execute env lib t rp ?g w = (rp\<lparr>cache := c\<rparr>, g', Inr ok_status, w')"
      "rp_ok lib (rp\<lparr>cache := c\<rparr>)" "get_value g' = Some value" "vc_version (get_version g') = Some v"
      "need_indicator (get_so g') = need_indicator (get_so ?g)" "same_drives up store w w'" by auto
    then show ?thesis
      using g(6) by (intro exI [of _ c]) (simp add: GET_execute_def attempt_failed_def)
  next
    case False
    note misses = attempt_misses [OF honest codes, of ?g cs1 rp w v st lib t, unfolded g(3,5),
        OF g(1) cs(2) d1 skip abs False, folded cs2_def]
    obtain g1 cbs1 w1 where p: "do_execute env lib t rp ?g w = (rp, g1, Inl Runtime_error, w1)"
      "list_all2 (outcome up store w key) cs1 cbs1" "same_drives up store w w1"
      "get_ops (add_parities rp g1) = map2 (with_callback key) cs1 cbs1 @ map (fresh_get False key) cs2"
      "\<not> skip_value (add_parities rp g1)" "need_indicator (get_so (add_parities rp g1)) = need_indicator (get_so ?g)"
      by (rule misses) (rule that)
    have old: "list_all2 (outcome up store w1 key) cs1 cbs1"
      using p(2) outcome_same [OF p(3)] by (simp add: list_all2_conv_all_nth)
    have d2: "stripe_on_drives up store w1 key v st (cs1 @ cs2)" "absent_drives up store w1 key (cs1 @ cs2) < nData rp"
      using drives absent cs(1) drives_same [OF p(3)] by simp_all
    have few: "length (cs1 @ cs2) = nData rp + nParity rp" "0 < lost_drives up store w1 key (cs1 @ cs2)"
      "lost_drives up store w1 key (cs1 @ cs2) \<le> nParity rp"
      using lost False cs drives_same(1) [OF p(3)] by (simp_all add: drives_append)
    from attempt_recovers [OF honest codes ok val p(4) old d2(1) p(5) d2(2), of t] few
    obtain c g' w' where "do_execute env lib t rp (add_parities rp g1) w1 = (rp\<lparr>cache := c\<rparr>, g', Inr ok_status, w')"
      "rp_ok lib (rp\<lparr>cache := c\<rparr>)" "get_value g' = Some value" "vc_version (get_version g') = Some v"
      "need_indicator (get_so g') = need_indicator (get_so ?g)" "same_drives up store w1 w'" using p(6) by auto
    then show ?thesis
      using p(1) g(6) same_drives_trans [OF p(3)]
      by (intro exI [of _ c]) (auto simp: GET_execute_def attempt_failed_def)
  qed
qed

end
