(* ===== verification/Kinetic_Cluster.thy ===== *)
theory Kinetic_Cluster
  imports Stripe_Operation
begin

text \<open>
  \<^verbatim>\<open>KineticCluster\<close> (src/KineticCluster.cc): the client interface of a cluster on top of the stripe
  operations. Every operation takes the cluster and the world and returns both updated; the output
  parameters of the C++ methods are passed in and returned. A versioned pointer that may be null is
  a \<open>string option\<close>. Log output is left out. Operations that contain a waiting loop return an
  option, \<open>None\<close> meaning that the loop never ends. The text of a caught exception, which becomes
  the message of a status, is left empty.
\<close>

section \<open>Model\<close>

record ClusterLimits =
  max_key_size :: nat
  max_version_size :: nat
  max_value_size :: nat
  max_range_elements :: nat

record ClusterStatus =
  indicator_exist :: bool
  redundancy_factor :: nat
  drives_total :: nat
  drives_failed :: nat
  connected :: "bool list"
  location :: "string list"

record ClusterStats =
  bytes_total :: "64 word"
  bytes_free :: "64 word"
  read_ops_total :: "64 word"
  read_bytes_total :: "64 word"
  write_ops_total :: "64 word"
  write_bytes_total :: "64 word"
  io_start :: nat
  io_end :: nat
  read_ops_period :: "64 word"
  read_bytes_period :: "64 word"
  write_ops_period :: "64 word"
  write_bytes_period :: "64 word"
  health :: ClusterStatus

text \<open>\<open>cluster_limits = None\<close>: the limits were never assigned. \<open>destructed\<close> is the flag of the
  destruction mutex.\<close>

record KineticCluster =
  identity :: string
  instanceIdentity :: string
  chunkCapacity :: nat
  operation_timeout :: nat
  connections :: nat
  cluster_limits :: "ClusterLimits option"
  redundancy :: redundancy_provider
  statistics_scheduled :: nat
  statistics_snapshot :: ClusterStats
  destructed :: bool

subsection \<open>Construction\<close>

text \<open>The loop that asks one drive after the other for its limits.\<close>

fun obtain_limits ::
  "'w env \<Rightarrow> nat \<Rightarrow> nat \<Rightarrow> redundancy_provider \<Rightarrow> nat \<Rightarrow> nat list \<Rightarrow> 'w \<Rightarrow> ClusterLimits option res \<times> 'w" where
  "obtain_limits env timeout block_size rp n [] w = (Inr None, w)"
| "obtain_limits env timeout block_size rp n (off # offs) w =
     (let (cbs, w) = ClusterLogOp_execute env timeout (ClusterLogOp_new [LIMITS] n 1 off) w
      in if status_ok (getResult (hd cbs)) then
           let l = the (getLog (hd cbs))
           in if limit_value_size l < block_size then (Inl (System_error invalid_argument), w)
              else (Inr (Some \<lparr>max_key_size = limit_key_size l, max_version_size = limit_version_size l,
                       max_value_size = block_size * numData rp, max_range_elements = 100\<rparr>), w)
         else if off = n then (Inl (System_error io_error), w)
         else obtain_limits env timeout block_size rp n offs w)"

definition initial_statistics :: "nat \<Rightarrow> redundancy_provider \<Rightarrow> ClusterStats" where
  "initial_statistics n rp =
     \<lparr>bytes_total = 1, bytes_free = 0, read_ops_total = 0, read_bytes_total = 0, write_ops_total = 0,
      write_bytes_total = 0, io_start = 0, io_end = 0, read_ops_period = 0, read_bytes_period = 0,
      write_ops_period = 0, write_bytes_period = 0,
      health = \<lparr>indicator_exist = False, redundancy_factor = numParity rp, drives_total = n,
                drives_failed = 0, connected = [], location = []\<rparr>\<rparr>"

definition KineticCluster_new ::
  "'w env \<Rightarrow> string \<Rightarrow> nat \<Rightarrow> nat \<Rightarrow> nat \<Rightarrow> redundancy_provider \<Rightarrow> 'w \<Rightarrow> KineticCluster res \<times> 'w" where
  "KineticCluster_new env cid block_size op_timeout n rp w =
     (let (uuid, w) = env_uuid env w;
          (r, w) = obtain_limits env op_timeout block_size rp n [0..<n] w
      in (case r of
            Inl e \<Rightarrow> Inl e
          | Inr lms \<Rightarrow> Inr \<lparr>identity = cid, instanceIdentity = uuid, chunkCapacity = block_size,
              operation_timeout = op_timeout, connections = n, cluster_limits = lms, redundancy = rp,
              statistics_scheduled = 0, statistics_snapshot = initial_statistics n rp, destructed = False\<rparr>, w))"

definition KineticCluster_destroy :: "KineticCluster \<Rightarrow> KineticCluster" where
  "KineticCluster_destroy cl = cl\<lparr>destructed := True\<rparr>"

definition limits :: "KineticCluster \<Rightarrow> ClusterLimits option" where
  "limits cl = cluster_limits cl"

definition instanceId :: "KineticCluster \<Rightarrow> string" where
  "instanceId cl = instanceIdentity cl"

definition cluster_id :: "KineticCluster \<Rightarrow> string" where
  "cluster_id cl = identity cl"

text \<open>\<^verbatim>\<open>stats\<close>: the boolean is whether an update of the snapshot is handed to the thread pool.\<close>

definition cluster_stats :: "'w env \<Rightarrow> KineticCluster \<Rightarrow> 'w \<Rightarrow> ClusterStats \<times> bool \<times> KineticCluster" where
  "cluster_stats env cl w =
     (if 2 < (int (env_now env w) - int (statistics_scheduled cl)) div 1000000
      then (statistics_snapshot cl, True, cl\<lparr>statistics_scheduled := env_now env w\<rparr>)
      else (statistics_snapshot cl, False, cl))"

subsection \<open>Flush and range\<close>

definition cluster_quorum :: "KineticCluster \<Rightarrow> nat" where
  "cluster_quorum cl = size_sub (connections cl) (numParity (redundancy cl))"

definition cluster_flush :: "'w env \<Rightarrow> KineticCluster \<Rightarrow> 'w \<Rightarrow> kinetic_status \<times> 'w" where
  "cluster_flush env cl w =
     (let (st, op, w) = ClusterFlushOp_execute env (operation_timeout cl) (cluster_quorum cl)
                          (ClusterFlushOp_new (connections cl)) w
      in (st, w))"

definition cluster_range ::
  "'w env \<Rightarrow> KineticCluster \<Rightarrow> string option \<Rightarrow> string option \<Rightarrow> string list option \<Rightarrow> nat \<Rightarrow> 'w \<Rightarrow>
   kinetic_status \<times> string list option \<times> 'w" where
  "cluster_range env cl start_key end_key keys max_elements w =
     (case (start_key, end_key) of
        (Some s, Some e) \<Rightarrow>
          let m = (if max_elements = 0 then max_range_elements (the (cluster_limits cl)) else max_elements);
              (st, op, w) = ClusterRangeOp_execute env (operation_timeout cl) (cluster_quorum cl)
                              (ClusterRangeOp_new s e m (connections cl)) w
          in (st, if status_ok st then Some (ClusterRangeOp_getKeys m op) else keys, w)
      | _ \<Rightarrow> (mk_status CLIENT_INTERNAL_ERROR ''invalid input.'', keys, w))"

subsection \<open>Remove\<close>

definition do_remove ::
  "'w env \<Rightarrow> KineticCluster \<Rightarrow> string option \<Rightarrow> string option \<Rightarrow> write_mode \<Rightarrow> 'w \<Rightarrow>
   (kinetic_status res \<times> 'w) option" where
  "do_remove env cl key version wmode w =
     (case (key, version) of
        (Some k, Some v) \<Rightarrow>
          let rp = redundancy cl
          in (case DEL_execute env (operation_timeout cl) rp
                     (StripeOperation_DEL_new k v wmode (connections cl) (rp_size rp) 0) w of
                None \<Rightarrow> None
              | Some (Inl e, so, w) \<Rightarrow> Some (Inl e, w)
              | Some (Inr st, so, w) \<Rightarrow>
                  Some (Inr st, if needsIndicator so then snd (putIndicatorKey env so w) else w))
      | _ \<Rightarrow> Some (Inr (mk_status CLIENT_INTERNAL_ERROR ''invalid input.''), w))"

definition remove_forced :: "'w env \<Rightarrow> KineticCluster \<Rightarrow> string option \<Rightarrow> 'w \<Rightarrow> (kinetic_status res \<times> 'w) option" where
  "remove_forced env cl key w = do_remove env cl key (Some []) IGNORE_VERSION w"

definition remove_versioned ::
  "'w env \<Rightarrow> KineticCluster \<Rightarrow> string option \<Rightarrow> string option \<Rightarrow> 'w \<Rightarrow> (kinetic_status res \<times> 'w) option" where
  "remove_versioned env cl key version w = do_remove env cl key version REQUIRE_SAME_VERSION w"

subsection \<open>Put\<close>

text \<open>\<^verbatim>\<open>resize\<close> pads with zero bytes.\<close>

definition pad_chunk :: "nat \<Rightarrow> string \<Rightarrow> string" where
  "pad_chunk n c = take n c @ replicate (n - length c) (CHR 0x00)"

definition data_chunk :: "string \<Rightarrow> nat \<Rightarrow> nat \<Rightarrow> string" where
  "data_chunk value chunkSize i =
     (if i * chunkSize < length value then pad_chunk chunkSize (take chunkSize (drop (i * chunkSize) value))
      else replicate chunkSize (CHR 0x00))"

definition valueToStripe ::
  "isal \<Rightarrow> KineticCluster \<Rightarrow> string \<Rightarrow> string list res \<times> KineticCluster" where
  "valueToStripe lib cl value =
     (let rp = redundancy cl
      in if length value = 0 then (Inr (replicate (rp_size rp) []), cl)
         else
           let chunkSize = (if length value < chunkCapacity cl then length value else chunkCapacity cl);
               stripe = map (\<lambda>i. Some (data_chunk value chunkSize i)) [0..<numData rp]
                          @ replicate (numParity rp) (Some []);
               (rp, r) = compute lib rp stripe;
               cl = cl\<lparr>redundancy := rp\<rparr>
           in case r of
                Inl e \<Rightarrow> (Inl e, cl)
              | Inr stripe \<Rightarrow>
                  let used = (length value + chunkSize - 1) div chunkSize
                  in (Inr (map (\<lambda>i. if used \<le> i \<and> i < numData rp then [] else the (stripe ! i))
                             [0..<length stripe]), cl))"

definition do_put ::
  "'w env \<Rightarrow> isal \<Rightarrow> KineticCluster \<Rightarrow> string option \<Rightarrow> string option \<Rightarrow> string option \<Rightarrow> string option \<Rightarrow>
   write_mode \<Rightarrow> 'w \<Rightarrow> ((kinetic_status \<times> string option) res \<times> KineticCluster \<times> 'w) option" where
  "do_put env lib cl key version value version_out mode w =
     (case (key, version, value) of
        (Some k, Some v, Some x) \<Rightarrow>
          let (s, cl) = valueToStripe lib cl x
          in (case s of
                Inl e \<Rightarrow>
                  if e = Undefined_behaviour then Some (Inl e, cl, w)
                  else Some (Inr (mk_status CLIENT_INTERNAL_ERROR [], version_out), cl, w)
              | Inr stripe \<Rightarrow>
                  let (uuid, w) = env_uuid env w;
                      version_new = uuidGenerateEncodeSize uuid (length x)
                  in (case StripeOperation_PUT_new k version_new v stripe mode (connections cl) (redundancy cl) of
                        Inl e \<Rightarrow> Some (Inl e, cl, w)
                      | Inr putOp \<Rightarrow>
                          (case PUT_execute env (operation_timeout cl) (redundancy cl) putOp w of
                             None \<Rightarrow> None
                           | Some (Inl e, putOp, w) \<Rightarrow> Some (Inl e, cl, w)
                           | Some (Inr st, putOp, w) \<Rightarrow>
                               let w = (if needsIndicator (put_so putOp)
                                        then let (so, w) = putIndicatorKey env (put_so putOp) w
                                             in snd (putHandoffKeys env (putOp\<lparr>put_so := so\<rparr>) w)
                                        else w)
                               in Some (Inr (st, if status_ok st then Some version_new else version_out), cl, w))))
      | _ \<Rightarrow> Some (Inr (mk_status CLIENT_INTERNAL_ERROR ''invalid input.'', version_out), cl, w))"

definition put_forced ::
  "'w env \<Rightarrow> isal \<Rightarrow> KineticCluster \<Rightarrow> string option \<Rightarrow> string option \<Rightarrow> string option \<Rightarrow> 'w \<Rightarrow>
   ((kinetic_status \<times> string option) res \<times> KineticCluster \<times> 'w) option" where
  "put_forced env lib cl key value version_out w =
     do_put env lib cl key (Some []) value version_out IGNORE_VERSION w"

definition put_versioned ::
  "'w env \<Rightarrow> isal \<Rightarrow> KineticCluster \<Rightarrow> string option \<Rightarrow> string option \<Rightarrow> string option \<Rightarrow> string option \<Rightarrow> 'w \<Rightarrow>
   ((kinetic_status \<times> string option) res \<times> KineticCluster \<times> 'w) option" where
  "put_versioned env lib cl key version value version_out w =
     do_put env lib cl key (case version of Some v \<Rightarrow> Some v | None \<Rightarrow> Some []) value version_out
       REQUIRE_SAME_VERSION w"

subsection \<open>Get\<close>

definition VersionCount_eq :: "VersionCount \<Rightarrow> VersionCount \<Rightarrow> bool" where
  "VersionCount_eq lhs rhs =
     (if vc_frequency lhs \<noteq> vc_frequency rhs then False
      else if vc_frequency lhs = 0 \<and> vc_frequency rhs = 0 then True
      else if the (vc_version lhs) \<noteq> the (vc_version rhs) then False
      else True)"

text \<open>The polling loop of \<^verbatim>\<open>do_get\<close>: is another client changing the stripe?\<close>

partial_function (option) concurrency_check ::
  "'w env \<Rightarrow> isal \<Rightarrow> KineticCluster \<Rightarrow> string \<Rightarrow> bool \<Rightarrow> VersionCount \<Rightarrow> nat \<Rightarrow> 'w \<Rightarrow>
   (bool res \<times> KineticCluster \<times> 'w) option" where
  "concurrency_check env lib cl key skip observed start w =
     (case GET_execute env lib (operation_timeout cl) (redundancy cl)
             (StripeOperation_GET_new key skip (connections cl) (redundancy cl) False) (env_sleep env 200000 w) of
        (rp, g, r, w) \<Rightarrow>
          (case r of
             Inl e \<Rightarrow> Some (Inl e, cl\<lparr>redundancy := rp\<rparr>, w)
           | Inr st \<Rightarrow>
               if \<not> VersionCount_eq observed (mostFrequentVersion g)
               then Some (Inr True, cl\<lparr>redundancy := rp\<rparr>, w)
               else if env_now env w < start + operation_timeout cl * 1000000
               then concurrency_check env lib (cl\<lparr>redundancy := rp\<rparr>) key skip observed start w
               else Some (Inr False, cl\<lparr>redundancy := rp\<rparr>, w)))"

declare concurrency_check.simps [code]

definition get_finish ::
  "'w env \<Rightarrow> kinetic_status \<Rightarrow> StripeOperation_GET \<Rightarrow> string option \<Rightarrow> string option \<Rightarrow> 'w \<Rightarrow>
   (kinetic_status \<times> string option \<times> string option) \<times> 'w" where
  "get_finish env st g version value w =
     ((st, if status_ok st then vc_version (get_version g) else version,
       if status_ok st then get_value g else value),
      if needsIndicator (get_so g) then snd (putIndicatorKey env (get_so g) w) else w)"

partial_function (option) do_get ::
  "'w env \<Rightarrow> isal \<Rightarrow> KineticCluster \<Rightarrow> string option \<Rightarrow> string option \<Rightarrow> string option \<Rightarrow> bool \<Rightarrow> 'w \<Rightarrow>
   ((kinetic_status \<times> string option \<times> string option) res \<times> KineticCluster \<times> 'w) option" where
  "do_get env lib cl key version value skip w =
     (case key of
        None \<Rightarrow> Some (Inr (mk_status CLIENT_INTERNAL_ERROR ''invalid input, key has to be supplied.'',
                  version, value), cl, w)
      | Some k \<Rightarrow>
          (case GET_execute env lib (operation_timeout cl) (redundancy cl)
                  (StripeOperation_GET_new k skip (connections cl) (redundancy cl) False) w of
             (rp, g, r, w) \<Rightarrow>
               (case r of
                  Inl e \<Rightarrow> Some (Inl e, cl\<lparr>redundancy := rp\<rparr>, w)
                | Inr st \<Rightarrow>
                    if statusCode st = CLIENT_IO_ERROR \<and> vc_frequency (mostFrequentVersion g) \<noteq> 0
                    then (case concurrency_check env lib (cl\<lparr>redundancy := rp\<rparr>) k skip (mostFrequentVersion g)
                                 (env_now env w) w of
                            None \<Rightarrow> None
                          | Some (c, cl, w) \<Rightarrow>
                              (case c of
                                 Inl e \<Rightarrow> Some (Inl e, cl, w)
                               | Inr changed \<Rightarrow>
                                   if changed then do_get env lib cl key version value skip w
                                   else (case get_finish env st g version value w of
                                           (res, w) \<Rightarrow> Some (Inr res, cl, w))))
                    else (case get_finish env st g version value w of
                            (res, w) \<Rightarrow> Some (Inr res, cl\<lparr>redundancy := rp\<rparr>, w)))))"

declare do_get.simps [code]

definition get_version_only ::
  "'w env \<Rightarrow> isal \<Rightarrow> KineticCluster \<Rightarrow> string option \<Rightarrow> string option \<Rightarrow> 'w \<Rightarrow>
   ((kinetic_status \<times> string option) res \<times> KineticCluster \<times> 'w) option" where
  "get_version_only env lib cl key version w =
     map_option (\<lambda>(r, cl, w). (res_bind r (\<lambda>(st, version, value). Inr (st, version)), cl, w))
       (do_get env lib cl key version None True w)"

definition cluster_get ::
  "'w env \<Rightarrow> isal \<Rightarrow> KineticCluster \<Rightarrow> string option \<Rightarrow> string option \<Rightarrow> string option \<Rightarrow> 'w \<Rightarrow>
   ((kinetic_status \<times> string option \<times> string option) res \<times> KineticCluster \<times> 'w) option" where
  "cluster_get env lib cl key version value w = do_get env lib cl key version value False w"

subsection \<open>Statistics\<close>

definition indicator_present :: "'w env \<Rightarrow> KineticCluster \<Rightarrow> 'w \<Rightarrow> bool \<times> 'w" where
  "indicator_present env cl w =
     (let (st, op, w) = ClusterRangeOp_execute env (operation_timeout cl) (cluster_quorum cl)
                          (ClusterRangeOp_new (makeIndicatorKey (cluster_id cl))
                             (makeIndicatorKey (cluster_id cl @ ''~'')) 1 (connections cl)) w
      in (if status_ok st then 0 < length (ClusterRangeOp_getKeys 1 op) else False, w))"

record log_totals =
  num_failed :: nat
  sum_total :: "64 word"
  sum_free :: "64 word"
  sum_read_ops :: "64 word"
  sum_read_bytes :: "64 word"
  sum_write_ops :: "64 word"
  sum_write_bytes :: "64 word"

definition add_operation_statistic :: "operation_statistic \<Rightarrow> log_totals \<Rightarrow> log_totals" where
  "add_operation_statistic s t =
     (if stat_name s = ''GET_RESPONSE'' then
        t\<lparr>sum_read_ops := sum_read_ops t + word_of_nat (stat_count s),
          sum_read_bytes := sum_read_bytes t + word_of_nat (stat_bytes s)\<rparr>
      else if stat_name s = ''PUT'' then
        t\<lparr>sum_write_ops := sum_write_ops t + word_of_nat (stat_count s),
          sum_write_bytes := sum_write_bytes t + word_of_nat (stat_bytes s)\<rparr>
      else t)"

text \<open>The floating-point product of a capacity and the portion in use is the parameter \<open>fmul\<close>.\<close>

definition add_drive_log :: "(nat \<Rightarrow> rat \<Rightarrow> nat) \<Rightarrow> callback \<Rightarrow> log_totals \<Rightarrow> log_totals" where
  "add_drive_log fmul cb t =
     (if \<not> status_ok (getResult cb) then t\<lparr>num_failed := num_failed t + 1\<rparr>
      else
        let log = the (getLog cb);
            bytes_used = word_of_nat (fmul (nominal_capacity_in_bytes log) (portion_full log)) :: 64 word;
            nominal = word_of_nat (nominal_capacity_in_bytes log)
        in fold add_operation_statistic (operation_statistics log)
             (t\<lparr>sum_total := sum_total t + nominal, sum_free := sum_free t + (nominal - bytes_used)\<rparr>))"

definition apply_totals :: "bool \<Rightarrow> nat \<Rightarrow> log_totals \<Rightarrow> ClusterStats \<Rightarrow> ClusterStats" where
  "apply_totals indicator now t s =
     s\<lparr>io_start := io_end s, io_end := now,
       read_ops_period := sum_read_ops t - read_ops_total s,
       read_bytes_period := sum_read_bytes t - read_bytes_total s,
       write_ops_period := sum_write_ops t - write_ops_total s,
       write_bytes_period := sum_write_bytes t - write_bytes_total s,
       read_ops_total := sum_read_ops t, read_bytes_total := sum_read_bytes t,
       write_ops_total := sum_write_ops t, write_bytes_total := sum_write_bytes t,
       bytes_free := sum_free t, bytes_total := sum_total t,
       health := (health s)\<lparr>indicator_exist := indicator, drives_failed := num_failed t\<rparr>\<rparr>"

text \<open>What \<^verbatim>\<open>updateSnapshot\<close> does while it holds the lock.\<close>

definition refresh_snapshot ::
  "'w env \<Rightarrow> (nat \<Rightarrow> rat \<Rightarrow> nat) \<Rightarrow> KineticCluster \<Rightarrow> 'w \<Rightarrow> KineticCluster \<times> 'w" where
  "refresh_snapshot env fmul cl w =
     (let (indicator, w) = indicator_present env cl w;
          (cbs, w) = ClusterLogOp_execute env (operation_timeout cl)
                       (ClusterLogOp_new [CAPACITIES, STATISTICS] (connections cl) (connections cl) 0) w;
          t = fold (add_drive_log fmul) cbs
                \<lparr>num_failed = 0, sum_total = 0, sum_free = 0, sum_read_ops = 0, sum_read_bytes = 0,
                 sum_write_ops = 0, sum_write_bytes = 0\<rparr>
      in (cl\<lparr>statistics_snapshot := apply_totals indicator (env_now env w) t (statistics_snapshot cl)\<rparr>, w))"

definition updateSnapshot ::
  "'w env \<Rightarrow> (nat \<Rightarrow> rat \<Rightarrow> nat) \<Rightarrow> KineticCluster \<Rightarrow> 'w \<Rightarrow> KineticCluster res \<times> 'w" where
  "updateSnapshot env fmul cl w =
     (if destructed cl then (Inl Logic_error, w)
      else let (cl, w) = refresh_snapshot env fmul cl w in (Inr cl, w))"

end
