(* ===== verification/Stripe_Put.thy ===== *)
theory Stripe_Put
  imports Stripe_Get Kinetic_Cluster
begin

text \<open>
  Writing a stripe to drives that obey the version rules of the protocol: the stripe a value is cut
  into, the records the drives hold afterwards, the result of the write and the indicator and handoff
  keys that accompany it.
\<close>

section \<open>From a value to its stripe\<close>

lemma length_data_chunk [simp]: "length (data_chunk value n i) = n"
  by (simp add: data_chunk_def pad_chunk_def)

text \<open>The data chunks are the value, padded with zero bytes.\<close>

lemma data_chunk_eq:
  "data_chunk value n i = take n (drop (i * n) value) @ replicate (n - (length value - i * n)) (CHR 0x00)"
  by (auto simp: data_chunk_def pad_chunk_def min_def)

lemma concat_data_chunks:
  assumes "0 < n"
  shows "take (length value) (concat (map (data_chunk value n) [0..<k])) = take (k * n) value"
proof (induction k)
  case (Suc k)
  let ?c = "concat (map (data_chunk value n) [0..<k])"
  have len: "length ?c = k * n" by (induction k) (auto simp: add.commute)
  have "take (length value) (concat (map (data_chunk value n) [0..<Suc k])) =
      take (k * n) value @ take (length value - k * n) (data_chunk value n k)"
    using Suc.IH by (simp add: len)
  also have "take (length value - k * n) (data_chunk value n k) = take n (drop (k * n) value)"
    by (cases "n \<le> length value - k * n") (simp_all add: data_chunk_eq)
  also have "take (k * n) value @ take n (drop (k * n) value) = take (Suc k * n) value"
    by (simp add: take_add [symmetric] add.commute)
  finally show ?case .
qed simp

lemma data_chunk_unused:
  assumes "0 < n" and "used_chunks (length value) n \<le> i"
  shows "data_chunk value n i = replicate n (CHR 0x00)"
proof -
  have "length value + n - 1 < n * i + n"
    using assms by (metis used_chunks_def dividend_less_div_times add_less_le_mono mult_le_mono2 add.commute
        mult.commute order_less_le_trans add_le_mono1)
  then have "\<not> i * n < length value" using assms(1) by (simp add: mult.commute)
  then show ?thesis by (simp add: data_chunk_def)
qed

text \<open>The stripe of a value: the used data chunks, empty strings for the unused ones, the parities.\<close>

definition value_chunk_size :: "KineticCluster \<Rightarrow> string \<Rightarrow> nat" where
  "value_chunk_size cl value = (if length value < chunkCapacity cl then length value else chunkCapacity cl)"

definition value_stripe :: "isal \<Rightarrow> KineticCluster \<Rightarrow> string \<Rightarrow> string list" where
  "value_stripe lib cl value =
     (if value = [] then replicate (rp_size (redundancy cl)) []
      else let rp = redundancy cl; L = value_chunk_size cl value
           in map (\<lambda>i. if used_chunks (length value) L \<le> i \<and> i < nData rp then []
                       else encode lib rp (map (data_chunk value L) [0..<nData rp]) ! i) [0..<nData rp + nParity rp])"

lemma length_value_stripe [simp]: "length (value_stripe lib cl value) = rp_size (redundancy cl)"
  by (simp add: value_stripe_def Let_def rp_size_def)

lemma value_stripe_cache [simp]:
  "value_stripe lib (cl\<lparr>redundancy := (redundancy cl)\<lparr>cache := c\<rparr>\<rparr>) value = value_stripe lib cl value"
  by (simp add: value_stripe_def value_chunk_size_def Let_def rp_size_def)

lemma valueToStripe_eq:
  assumes ok: "rp_ok lib (redundancy cl)" and cap: "0 < chunkCapacity cl" "chunkCapacity cl < 2 ^ 31"
    and len: "length value \<le> nData (redundancy cl) * chunkCapacity cl"
  shows "\<exists>c. valueToStripe lib cl value =
      (Inr (value_stripe lib cl value), cl\<lparr>redundancy := (redundancy cl)\<lparr>cache := c\<rparr>\<rparr>) \<and>
    rp_ok lib ((redundancy cl)\<lparr>cache := c\<rparr>) \<and>
    (value = [] \<or> (\<exists>L ds. stripe_content lib (redundancy cl) L ds value (value_stripe lib cl value)))"
proof (cases "value = []")
  case True
  then show ?thesis
    using ok by (intro exI [of _ "cache (redundancy cl)"]) (simp add: valueToStripe_def value_stripe_def Let_def)
next
  case False
  let ?rp = "redundancy cl"
  define L where "L = (if length value < chunkCapacity cl then length value else chunkCapacity cl)"
  define ds where "ds = map (data_chunk value L) [0..<nData ?rp]"
  define s where "s = map Some ds @ replicate (nParity ?rp) (Some [])"
  have pos: "0 < nData ?rp" using ok by (simp add: rp_ok_def)
  have L: "0 < L" "L < 2 ^ 31" using False cap by (auto simp: L_def)
  have vlen: "length value \<le> nData ?rp * L" using len pos by (auto simp: L_def)
  have dsl: "length ds = nData ?rp" "\<And>d. d \<in> set ds \<Longrightarrow> length d = L" by (auto simp: ds_def)
  have er: "erased s (encode lib ?rp ds)"
    unfolding erased_def using length_encode [OF ok dsl(1)] encode_data [OF ok dsl] dsl(1)
    by (auto simp: s_def nth_append missing_def)
  have none: "filter missing (map Some ds) = []"
    using dsl(2) L(1) by (auto simp: filter_empty_conv missing_def)
  have few: "length (filter missing s) \<le> nParity ?rp"
    unfolding s_def filter_append none by (simp add: missing_def)
  from compute_recovers [OF ok dsl L er few] obtain c where
    c: "compute lib ?rp s = (?rp\<lparr>cache := c\<rparr>, Inr (map Some (encode lib ?rp ds)))" "rp_ok lib (?rp\<lparr>cache := c\<rparr>)" by blast
  define st where "st = map (\<lambda>i. if used_chunks (length value) L \<le> i \<and> i < nData ?rp then [] else encode lib ?rp ds ! i)
    [0..<nData ?rp + nParity ?rp]"
  have "s = map (\<lambda>i. Some (data_chunk value L i)) [0..<numData ?rp] @ replicate (numParity ?rp) (Some [])"
    by (simp add: s_def ds_def numData_def numParity_def comp_def)
  with c(1) have "valueToStripe lib cl value = (Inr (map (\<lambda>i. if used_chunks (length value) L \<le> i \<and> i < nData ?rp
      then [] else the (map Some (encode lib ?rp ds) ! i)) [0..<length (encode lib ?rp ds)]), cl\<lparr>redundancy := ?rp\<lparr>cache := c\<rparr>\<rparr>)"
    using False by (simp add: valueToStripe_def Let_def L_def [symmetric] used_chunks_def numData_def)
  also have "map (\<lambda>i. if used_chunks (length value) L \<le> i \<and> i < nData ?rp
      then [] else the (map Some (encode lib ?rp ds) ! i)) [0..<length (encode lib ?rp ds)] = st"
    using length_encode [OF ok dsl(1)] by (simp add: st_def)
  finally have "valueToStripe lib cl value = (Inr st, cl\<lparr>redundancy := ?rp\<lparr>cache := c\<rparr>\<rparr>)" .
  moreover have "stripe_content lib ?rp L ds value st"
  proof -
    have "ds ! i = replicate L (CHR 0x00)" if "used_chunks (length value) L \<le> i" "i < nData ?rp" for i
      using data_chunk_unused [OF L(1) that(1)] that(2) by (simp add: ds_def)
    moreover have "take (length value) (concat ds) = value"
      using concat_data_chunks [OF L(1), of "value" "nData ?rp"] vlen by (simp add: ds_def)
    ultimately show ?thesis
      unfolding stripe_content_def st_def using L vlen dsl False by blast
  qed
  moreover have "value_stripe lib cl value = st"
    using False by (simp add: value_stripe_def value_chunk_size_def st_def ds_def L_def [symmetric] Let_def)
  ultimately show ?thesis using c(2) by (intro exI [of _ c]) auto
qed

lemma valueToStripe_spec:
  assumes "rp_ok lib (redundancy cl)" and "0 < chunkCapacity cl" "chunkCapacity cl < 2 ^ 31"
    and "length value \<le> nData (redundancy cl) * chunkCapacity cl"
  shows "\<exists>c st. valueToStripe lib cl value = (Inr st, cl\<lparr>redundancy := (redundancy cl)\<lparr>cache := c\<rparr>\<rparr>) \<and>
    rp_ok lib ((redundancy cl)\<lparr>cache := c\<rparr>) \<and> length st = rp_size (redundancy cl) \<and>
    (value = [] \<or> (\<exists>L ds. stripe_content lib (redundancy cl) L ds value st))"
  using valueToStripe_eq [OF assms] length_value_stripe by blast

section \<open>Drives that accept writes\<close>

definition stored_version :: "kinetic_record option \<Rightarrow> string" where
  "stored_version r = (case r of None \<Rightarrow> [] | Some x \<Rightarrow> rec_version x)"

definition version_accepted :: "write_mode \<Rightarrow> string \<Rightarrow> kinetic_record option \<Rightarrow> bool" where
  "version_accepted mode v r \<longleftrightarrow> mode = IGNORE_VERSION \<or> stored_version r = v"

text \<open>A drive that is up stores a record when the version rule admits it and reports a mismatch
  otherwise; one that is down fails in some way and stores nothing. Nothing else changes.\<close>

definition honest_put ::
  "'w env \<Rightarrow> ('w \<Rightarrow> nat \<Rightarrow> bool) \<Rightarrow> ('w \<Rightarrow> nat \<Rightarrow> string \<rightharpoonup> kinetic_record) \<Rightarrow> bool" where
  "honest_put env up store \<longleftrightarrow>
     (\<forall>w c t k v m r rep w'. env_put env c t k v m r w = (rep, w') \<longrightarrow> up w' = up w \<and>
        (if up w c \<and> version_accepted m v (store w c k)
         then rep = Answered True (Inr ()) \<and> store w' = (store w)(c := (store w c)(k \<mapsto> r))
         else store w' = store w \<and>
           (if up w c then \<exists>msg. rep = Answered True (Inl (mk_status REMOTE_VERSION_MISMATCH msg)) else failing rep))) \<and>
     (\<forall>w c. same_drives up store w (env_set_error env c w))"

text \<open>The records of a key after some of the drives took a record.\<close>

definition written ::
  "('w \<Rightarrow> nat \<Rightarrow> bool) \<Rightarrow> ('w \<Rightarrow> nat \<Rightarrow> string \<rightharpoonup> kinetic_record) \<Rightarrow> string \<Rightarrow> (nat \<times> kinetic_record) list \<Rightarrow> 'w \<Rightarrow> 'w \<Rightarrow> bool" where
  "written up store key crs w w' \<longleftrightarrow> up w' = up w \<and>
     (\<forall>c. store w' c key = (if up w c \<and> c \<in> fst ` set crs then map_of crs c else store w c key))"

abbreviation key_kept ::
  "('w \<Rightarrow> nat \<Rightarrow> bool) \<Rightarrow> ('w \<Rightarrow> nat \<Rightarrow> string \<rightharpoonup> kinetic_record) \<Rightarrow> string \<Rightarrow> 'w \<Rightarrow> 'w \<Rightarrow> bool" where
  "key_kept up store key w w' \<equiv> up w' = up w \<and> (\<forall>c. store w' c key = store w c key)"

definition put_outcome :: "('w \<Rightarrow> nat \<Rightarrow> bool) \<Rightarrow> 'w \<Rightarrow> nat \<Rightarrow> callback \<Rightarrow> bool" where
  "put_outcome up w c cb \<longleftrightarrow> cb_done cb \<and>
     (if up w c then cb_status cb = ok_status else \<not> validStatusCode (statusCode (cb_status cb)))"

definition early_put_outcome :: "('w \<Rightarrow> nat \<Rightarrow> bool) \<Rightarrow> 'w \<Rightarrow> nat \<Rightarrow> callback \<Rightarrow> bool" where
  "early_put_outcome up w c cb \<longleftrightarrow> put_outcome up w c cb \<or> \<not> cb_done cb \<and> \<not> up w c"

definition fresh_put :: "string \<Rightarrow> string \<Rightarrow> write_mode \<Rightarrow> nat \<times> kinetic_record \<Rightarrow> KineticAsyncOperation" where
  "fresh_put key v m cr = fresh_operation (Req_Put key v m (snd cr)) PutCallback (fst cr)"

definition with_put_callback ::
  "string \<Rightarrow> string \<Rightarrow> write_mode \<Rightarrow> nat \<times> kinetic_record \<Rightarrow> callback \<Rightarrow> KineticAsyncOperation" where
  "with_put_callback key v m cr cb = (fresh_put key v m cr)\<lparr>op_callback := Some cb\<rparr>"

lemma send_put:
  assumes honest: "honest_put env up store"
    and send: "send_request env t c (Req_Put k v m r) cb0 sync w = ((e, cb, sync'), w')" and fresh: "\<not> cb_done cb0"
  shows "up w' = up w" and "key \<noteq> k \<Longrightarrow> store w' d key = store w d key"
    and "up w c \<longrightarrow> version_accepted m v (store w c k) \<Longrightarrow> early_put_outcome up w c cb"
    and "up w c \<longrightarrow> version_accepted m v (store w c k) \<Longrightarrow> store w' d k = (if up w c \<and> d = c then Some r else store w d k)"
proof -
  obtain rep where rep: "env_put env c t k v m r w = (rep, w')"
    and con: "conclude PutCallback_Success rep cb0 sync = (e, cb, sync')"
    using send by (cases "env_put env c t k v m r w") (auto simp: send_request_def)
  have D: "up w' = up w" "if up w c \<and> version_accepted m v (store w c k)
         then rep = Answered True (Inr ()) \<and> store w' = (store w)(c := (store w c)(k \<mapsto> r))
         else store w' = store w \<and>
           (if up w c then \<exists>msg. rep = Answered True (Inl (mk_status REMOTE_VERSION_MISMATCH msg)) else failing rep)"
    using honest rep unfolding honest_put_def by blast+
  show "up w' = up w" by (rule D(1))
  show "key \<noteq> k \<Longrightarrow> store w' d key = store w d key" using D(2) by (auto split: if_splits)
  assume acc: "up w c \<longrightarrow> version_accepted m v (store w c k)"
  then show "store w' d k = (if up w c \<and> d = c then Some r else store w d k)" using D(2) by (auto split: if_splits)
  show "early_put_outcome up w c cb"
    using D(2) acc con fresh
    by (cases "up w c") (auto simp: failing_def early_put_outcome_def put_outcome_def conclude_def PutCallback_Success_def
        Callback_Failure_def OnResult_def split: if_splits)
qed


lemma fresh_put_proj [simp]:
  "op_connection (fresh_put key v m cr) = fst cr" "op_function (fresh_put key v m cr) = Some (Req_Put key v m (snd cr))"
  "op_callback (fresh_put key v m cr) = Some \<lparr>cb_status = no_result, cb_done = False, cb_data = PutCallback\<rparr>"
  by (simp_all add: fresh_put_def fresh_operation_def)

lemma issue_puts:
  assumes honest: "honest_put env up store"
    and "issue_operations env t (map (fresh_put key v m) crs) sync w = (os', sync', w')"
    and "distinct (map fst crs)"
    and "\<forall>cr \<in> set crs. up w (fst cr) \<longrightarrow> version_accepted m v (store w (fst cr) key)"
  shows "\<exists>cbs. os' = map2 (with_put_callback key v m) crs cbs \<and>
    list_all2 (early_put_outcome up w) (map fst crs) cbs \<and> written up store key crs w w'"
  using assms(2-)
proof (induction crs arbitrary: sync w os' sync' w')
  case Nil
  then show ?case by (simp add: written_def)
next
  case (Cons cr crs)
  let ?cb = "\<lparr>cb_status = no_result, cb_done = False, cb_data = PutCallback\<rparr>" let ?c = "fst cr"
  obtain e cb s1 w1 where s: "send_request env t ?c (Req_Put key v m (snd cr)) ?cb sync w = ((e, cb, s1), w1)"
    by (metis prod_cases3 surj_pair)
  have acc: "up w ?c \<longrightarrow> version_accepted m v (store w ?c key)" using Cons.prems(3) by simp
  have P: "up w1 = up w" "early_put_outcome up w ?c cb"
    "\<And>d. store w1 d key = (if up w ?c \<and> d = ?c then Some (snd cr) else store w d key)"
    using send_put [OF honest s] acc by simp_all
  define w2 where "w2 = (if e then env_set_error env ?c w1 else w1)"
  have same: "same_drives up store w1 w2" using honest by (simp add: w2_def honest_put_def)
  then have w2: "up w2 = up w" "store w2 = store w1" using P(1) by (simp_all add: same_drives_def)
  obtain os2 s2 w3 where i: "issue_operations env t (map (fresh_put key v m) crs) s1 w2 = (os2, s2, w3)"
    by (metis prod_cases3)
  have acc2: "\<forall>cr \<in> set crs. up w2 (fst cr) \<longrightarrow> version_accepted m v (store w2 (fst cr) key)"
  proof (intro ballI impI)
    fix x assume x: "x \<in> set crs" "up w2 (fst x)"
    then have "fst x \<noteq> ?c" using Cons.prems(2) by (auto simp: image_iff)
    then show "version_accepted m v (store w2 (fst x) key)" using x w2 P(3) Cons.prems(3) by simp
  qed
  from Cons.IH [OF i _ acc2] Cons.prems(2) obtain cbs where cbs: "os2 = map2 (with_put_callback key v m) crs cbs"
    "list_all2 (early_put_outcome up w2) (map fst crs) cbs" "written up store key crs w2 w3" by auto
  have "os' = with_put_callback key v m cr cb # os2 \<and> w' = w3"
    using issue_step [of "fresh_put key v m cr" env t sync w e cb s1 w1, unfolded fresh_put_proj option.sel,
      OF _ s i [unfolded w2_def]] Cons.prems(1)
    by (simp add: with_put_callback_def)
  moreover have "early_put_outcome up w2 = early_put_outcome up w"
    by (simp add: early_put_outcome_def put_outcome_def fun_eq_iff w2(1))
  moreover have "written up store key (cr # crs) w w3"
    using cbs(3) w2 P(3) Cons.prems(2) by (cases cr) (auto simp: written_def)
  ultimately show ?case using cbs P(2) by (intro exI [of _ "cb # cbs"]) simp
qed

lemma expire_puts:
  assumes "list_all2 (early_put_outcome up w) (map fst crs) cbs"
    and "expire_operations (map2 (with_put_callback key v m) crs cbs) sync = (os', sync')"
  shows "\<exists>cbs'. os' = map2 (with_put_callback key v m) crs cbs' \<and> list_all2 (put_outcome up w) (map fst crs) cbs'"
  using assms
proof (induction crs arbitrary: cbs sync os' sync')
  case Nil
  then show ?case by simp
next
  case (Cons cr crs)
  obtain cb cbs1 where c: "cbs = cb # cbs1" "early_put_outcome up w (fst cr) cb"
    "list_all2 (early_put_outcome up w) (map fst crs) cbs1"
    using Cons.prems(1) by (auto simp: list_all2_Cons1)
  obtain cb1 s1 where r: "OnResult (mk_status CLIENT_IO_ERROR ''Network timeout'') cb sync = (cb1, s1)"
    by fastforce
  have cb1: "put_outcome up w (fst cr) cb1"
    using c(2) r by (auto simp: early_put_outcome_def OnResult_def put_outcome_def split: if_splits)
  obtain os2 s2 where e: "expire_operations (map2 (with_put_callback key v m) crs cbs1) s1 = (os2, s2)" by fastforce
  from Cons.IH [OF c(3) e] obtain cbs' where cbs': "os2 = map2 (with_put_callback key v m) crs cbs'"
    "list_all2 (put_outcome up w) (map fst crs) cbs'" by blast
  have "os' = with_put_callback key v m cr cb1 # os2"
    using Cons.prems(2) r e c(1) by (cases "cb_done cb") (auto simp: with_put_callback_def finished_def OnResult_def)
  then show ?case using cb1 cbs' by (intro exI [of _ "cb1 # cbs'"]) auto
qed

lemma execute_puts:
  assumes honest: "honest_put env up store" and ops: "operations op = map (fresh_put key v m) crs"
    and dist: "distinct (map fst crs)"
    and acc: "\<forall>cr \<in> set crs. up w (fst cr) \<longrightarrow> version_accepted m v (store w (fst cr) key)"
    and exec: "executeOperationVector env t op w = (rmap, op', w')"
  shows "\<exists>cbs. operations op' = map2 (with_put_callback key v m) crs cbs \<and>
    list_all2 (put_outcome up w) (map fst crs) cbs \<and> written up store key crs w w'"
proof -
  obtain os1 s1 w1 where i: "issue_operations env t (map (fresh_put key v m) crs) (op_sync op) w = (os1, s1, w1)"
    by (metis prod_cases3)
  obtain os2 s2 where e: "expire_operations os1 s1 = (os2, s2)" by fastforce
  from issue_puts [OF honest i dist acc] obtain cbs where cbs: "os1 = map2 (with_put_callback key v m) crs cbs"
    "list_all2 (early_put_outcome up w) (map fst crs) cbs" "written up store key crs w w1" by blast
  from expire_puts [OF cbs(2) e [unfolded cbs(1)]] show ?thesis
    using exec i e cbs(3) by (auto simp: executeOperationVector_def ops)
qed


section \<open>Executing a PUT\<close>

lemma fold_bind_indexed:
  "k \<le> length (operations op) \<Longrightarrow>
     fold (\<lambda>i. bind_operation (req i) d i) [0..<k] op =
       op\<lparr>operations := map (\<lambda>i. fresh_operation (req i) d (op_connection (operations op ! i))) [0..<k] @ drop k (operations op),
          op_sync := (op_sync op)\<lparr>outstanding := outstanding (op_sync op) + int k\<rparr>\<rparr>"
proof (induction k)
  case 0
  then show ?case by simp
next
  case (Suc k)
  let ?fresh = "\<lambda>k. map (\<lambda>i. fresh_operation (req i) d (op_connection (operations op ! i))) [0..<k] @ drop k (operations op)"
  have k: "k < length (operations op)" using Suc.prems by simp
  have IH: "fold (\<lambda>i. bind_operation (req i) d i) [0..<k] op = op\<lparr>operations := ?fresh k,
      op_sync := (op_sync op)\<lparr>outstanding := outstanding (op_sync op) + int k\<rparr>\<rparr>"
    using Suc by simp
  have nth: "?fresh k ! k = operations op ! k" using k by (simp add: nth_append)
  have upd: "(?fresh k)[k := fresh_operation (req k) d (op_connection (operations op ! k))] = ?fresh (Suc k)"
    using k by (simp add: list_update_append Cons_nth_drop_Suc [symmetric])
  have "fold (\<lambda>i. bind_operation (req i) d i) [0..<Suc k] op =
      bind_operation (req k) d k (fold (\<lambda>i. bind_operation (req i) d i) [0..<k] op)"
    by simp
  also have "\<dots> = op\<lparr>operations := ?fresh (Suc k),
      op_sync := (op_sync op)\<lparr>outstanding := outstanding (op_sync op) + int (Suc k)\<rparr>\<rparr>"
    unfolding IH bind_operation_def KineticCallback_new_def
    using nth upd by (simp add: rebind_fresh algebra_simps del: list_update_append)
  finally show ?case .
qed

text \<open>The drives of a key with the records they are to hold.\<close>

definition stripe_records :: "nat \<Rightarrow> string \<Rightarrow> string \<Rightarrow> string list \<Rightarrow> (nat \<times> kinetic_record) list" where
  "stripe_records n key v st = zip (key_connections n key (length st) 0) (map (\<lambda>x. makeRecord x v) st)"

lemma stripe_records_proj [simp]:
  "map fst (stripe_records n key v st) = key_connections n key (length st) 0"
  "length (stripe_records n key v st) = length st"
  by (simp_all add: stripe_records_def)

lemma PUT_new_proj:
  assumes "length st = rp_size rp"
  obtains p where "StripeOperation_PUT_new key v vold st mode n rp = Inr p"
    "operations (so_op (put_so p)) = map (fresh_put key vold mode) (stripe_records n key v st)"
    "so_key (put_so p) = key" "need_indicator (put_so p) = False" "put_version p = v" "put_values p = st"
    "num_connections (so_op (put_so p)) = n"
proof -
  define so where "so = stripe_expandOperationVector (length st) 0 (KineticClusterStripeOperation_new n key)"
  have so: "operations (so_op so) = map empty_operation (key_connections n key (length st) 0)"
    "so_key so = key" "need_indicator so = False" "num_connections (so_op so) = n"
    by (simp_all add: so_def stripe_expandOperationVector_def KineticClusterStripeOperation_new_def KineticClusterOperation_new_def)
  let ?op = "fold (\<lambda>i. PUT_fillOperation key v st i vold mode) [0..<length (operations (so_op so))] (so_op so)"
  have op: "?op = (so_op so)\<lparr>operations := map (\<lambda>i. fresh_operation (Req_Put key vold mode (makeRecord (st ! i) v)) PutCallback
        (op_connection (operations (so_op so) ! i))) [0..<length (operations (so_op so))] @ [],
      op_sync := (op_sync (so_op so))\<lparr>outstanding := outstanding (op_sync (so_op so)) + int (length (operations (so_op so)))\<rparr>\<rparr>"
    unfolding PUT_fillOperation_def
    using fold_bind_indexed [OF order_refl, of "\<lambda>i. Req_Put key vold mode (makeRecord (st ! i) v)" PutCallback "so_op so"] by simp
  have "map (\<lambda>i. fresh_operation (Req_Put key vold mode (makeRecord (st ! i) v)) PutCallback
        (op_connection (operations (so_op so) ! i))) [0..<length (operations (so_op so))] =
      map (fresh_put key vold mode) (stripe_records n key v st)"
    by (rule nth_equalityI) (simp_all add: so stripe_records_def fresh_put_def empty_operation_def)
  with op have ops: "operations ?op = map (fresh_put key vold mode) (stripe_records n key v st)"
    "num_connections ?op = n" using so(4) by simp_all
  have new: "StripeOperation_PUT_new key v vold st mode n rp =
      Inr \<lparr>put_so = so\<lparr>so_op := ?op\<rparr>, put_version = v, put_values = st\<rparr>"
    using assms unfolding StripeOperation_PUT_new_def Let_def so_def by simp
  show thesis
    by (rule that [OF new]) (use ops so in simp_all)
qed

definition down_drives :: "('w \<Rightarrow> nat \<Rightarrow> bool) \<Rightarrow> 'w \<Rightarrow> nat list \<Rightarrow> nat" where
  "down_drives up w cs = length (filter (\<lambda>c. \<not> up w c) cs)"

lemma put_outcome_counts:
  assumes "list_all2 (put_outcome up w) cs cbs"
  shows "cb_count OK cbs + down_drives up w cs = length cs"
    and "cb_count REMOTE_NOT_FOUND cbs = 0" and "cb_count REMOTE_VERSION_MISMATCH cbs = 0"
    and "\<forall>cb \<in> set cbs. cb_done cb"
  using assms
  by (induction cs cbs rule: list_all2_induct)
    (auto simp: put_outcome_def down_drives_def cb_count_def getResult_def validStatusCode_def split: if_splits)

lemma op_callbacks_puts:
  "length crs = length cbs \<Longrightarrow> op_callbacks (map2 (with_put_callback key v m) crs cbs) = cbs"
  by (induction crs cbs rule: list_induct2) (simp_all add: with_put_callback_def)

text \<open>Looking a code up, as \<^verbatim>\<open>operator[]\<close> does, changes no count.\<close>

lemma rmap_touch:
  "rmap_sorted num m \<Longrightarrow> rmap_get num (rmap_update num k id m) c = rmap_get num m c"
  by (simp add: rmap_get_update)

lemma rmap_get_mem: "inj (CompareStatusCode_toInt num) \<Longrightarrow> rmap_get num m k \<noteq> 0 \<Longrightarrow> (k, rmap_get num m k) \<in> set m"
  by (induction num m k rule: rmap_get.induct) (auto dest: injD split: if_splits)

lemma partial_put_spec:
  assumes "rmap_sorted num m" and "partial_put num m = (b, m')"
  shows "b \<longleftrightarrow> rmap_get num m OK \<noteq> 0 \<and>
      (rmap_get num m REMOTE_VERSION_MISMATCH \<noteq> 0 \<or> rmap_get num m REMOTE_NOT_FOUND \<noteq> 0)"
    and "rmap_sorted num m'" and "rmap_get num m' c = rmap_get num m c"
  using assms(2)
  by (auto simp: partial_put_def Let_def rmap_touch rmap_sorted_update assms(1) split: if_splits)

lemma find_first_code:
  assumes "rmap_sorted num m" and "(k, n) \<in> set m" and "q \<le> n"
    and "\<And>c j. (c, j) \<in> set m \<Longrightarrow> q \<le> j \<Longrightarrow> CompareStatusCode_toInt num k \<le> CompareStatusCode_toInt num c"
  shows "List.find (\<lambda>e. q \<le> snd e) m = Some (k, n)"
  using assms
proof (induction m)
  case (Cons e m)
  show ?case
  proof (cases "e = (k, n)")
    case False
    then have mem: "(k, n) \<in> set m" using Cons.prems(2) by simp
    then have "CompareStatusCode_toInt num (fst e) < CompareStatusCode_toInt num k"
      using Cons.prems(1) by (auto simp: rmap_sorted_def)
    then have "\<not> q \<le> snd e" using Cons.prems(4) [of "fst e" "snd e"] by auto
    moreover have "List.find (\<lambda>e. q \<le> snd e) m = Some (k, n)"
      by (rule Cons.IH [OF _ mem Cons.prems(3)]) (use Cons.prems(1,4) in \<open>auto simp: rmap_sorted_def\<close>)
    ultimately show ?thesis by simp
  qed (use Cons.prems(3) in simp)
qed simp

lemma PUT_status_ok:
  assumes codes: "codes_ok num" and m: "rmap_sorted num m" "0 < nData rp" "nData rp \<le> rmap_get num m OK"
    "rmap_get num m REMOTE_VERSION_MISMATCH = 0" "rmap_get num m REMOTE_NOT_FOUND = 0"
  shows "PUT_status rp key m = (ok_status, rmap_get num m OK < rp_size rp)"
proof -
  have "List.find (\<lambda>e. nData rp \<le> snd e) m = Some (OK, rmap_get num m OK)"
  proof (rule find_first_code [OF m(1) _ m(3)])
    show "(OK, rmap_get num m OK) \<in> set m"
      using rmap_get_mem [of num m OK] codes m(2,3) by (simp add: codes_ok_def)
    fix c k assume c: "(c, k) \<in> set m" "nData rp \<le> k"
    have "c \<notin> {REMOTE_VERSION_MISMATCH, REMOTE_NOT_FOUND}"
      using rmap_mem_get [OF m(1) c(1)] c(2) m(2,4,5) by auto
    then show "CompareStatusCode_toInt num OK \<le> CompareStatusCode_toInt num c"
      using codes by (cases "c = OK") (auto simp: codes_ok_def CompareStatusCode_toInt_def intro: less_imp_le)
  qed
  then show ?thesis by (simp add: PUT_status_def numData_def)
qed

lemma PUT_execute_accepted:
  assumes honest: "honest_put env up store" and codes: "codes_ok (env_code env)" and pos: "0 < nData rp"
    and p: "operations (so_op (put_so p)) = map (fresh_put key vold m) crs" "need_indicator (put_so p) = False"
    and crs: "distinct (map fst crs)" "length crs = rp_size rp"
      "\<forall>cr \<in> set crs. up w (fst cr) \<longrightarrow> version_accepted m vold (store w (fst cr) key)"
    and down: "down_drives up w (map fst crs) \<le> nParity rp"
  shows "\<exists>op w'. PUT_execute env t rp p w = Some (Inr ok_status,
      p\<lparr>put_so := (put_so p)\<lparr>so_op := op, need_indicator := 0 < down_drives up w (map fst crs)\<rparr>\<rparr>, w') \<and>
    written up store key crs w w' \<and> (\<forall>cb \<in> set (op_callbacks (operations op)). cb_done cb)"
proof -
  obtain rm op w' where ex: "executeOperationVector env t (so_op (put_so p)) w = (rm, op, w')" by (metis prod_cases3)
  from execute_puts [OF honest p(1) crs(1,3) ex] obtain cbs where
    o: "operations op = map2 (with_put_callback key vold m) crs cbs"
    "list_all2 (put_outcome up w) (map fst crs) cbs" "written up store key crs w w'" by blast
  have cbs: "op_callbacks (operations op) = cbs"
    unfolding o(1) using list_all2_lengthD [OF o(2)] by (simp add: op_callbacks_puts)
  note counts = put_outcome_counts [OF o(2)]
  have rm: "rm = rmap_of (env_code env) (operations op)" using execute_rmap [OF ex] by simp
  have get: "rmap_get (env_code env) rm c = cb_count c cbs" for c
    unfolding rm rmap_of_count [OF codes] count_code_cb cbs ..
  obtain b m' where b: "partial_put (env_code env) rm = (b, m')" by fastforce
  note B = partial_put_spec [OF rmap_of_sorted, of "env_code env" "operations op" b m', folded rm, OF b]
  have nb: "\<not> b" using B(1) get counts(2,3) by simp
  have ok: "PUT_status rp (so_key (put_so p)) m' = (ok_status, 0 < down_drives up w (map fst crs))"
  proof -
    have "nData rp \<le> cb_count OK cbs" "(cb_count OK cbs < rp_size rp) = (0 < down_drives up w (map fst crs))"
      using counts(1) down crs(2) by (auto simp: rp_size_def)
    then show ?thesis using PUT_status_ok [OF codes B(2) pos] B(3) get counts(2,3) by simp
  qed
  have "PUT_execute env t rp p w = Some (Inr ok_status,
      p\<lparr>put_so := (put_so p)\<lparr>so_op := op, need_indicator := 0 < down_drives up w (map fst crs)\<rparr>\<rparr>, w')"
    by (simp add: PUT_execute_def Let_def ex b nb ok p(2))
  then show ?thesis using o(3) counts(4) cbs by auto
qed

section \<open>Indicator and handoff keys\<close>

abbreviation so_callbacks :: "StripeOperation \<Rightarrow> callback list" where
  "so_callbacks so \<equiv> op_callbacks (operations (so_op so))"

text \<open>Writing some other key leaves the records of a key alone, whatever the drives answer.\<close>

lemma execute_single_put_frame:
  assumes honest: "honest_put env up store" and old: "\<forall>cb \<in> set (op_callbacks os). cb_done cb"
    and ops: "operations op = os @ [fresh_put k v m cr]" and neq: "key \<noteq> k"
    and exec: "executeOperationVector env t op w = (rmap, op', w')"
  shows "key_kept up store key w w'" and "\<forall>cb \<in> set (op_callbacks (operations op')). cb_done cb"
proof -
  let ?cb = "\<lparr>cb_status = no_result, cb_done = False, cb_data = PutCallback\<rparr>"
  obtain e cb s1 w1 where s: "send_request env t (fst cr) (Req_Put k v m (snd cr)) ?cb (op_sync op) w = ((e, cb, s1), w1)"
    by (metis prod_cases3 surj_pair)
  define w2 where "w2 = (if e then env_set_error env (fst cr) w1 else w1)"
  have "same_drives up store w1 w2" using honest by (simp add: w2_def honest_put_def)
  moreover have "key_kept up store key w w1" using send_put(1,2) [OF honest s _ ] neq by simp
  ultimately have kept: "key_kept up store key w w2" by (simp add: same_drives_def)
  obtain cb2 s2 where x: "expire_operations [(fresh_put k v m cr)\<lparr>op_callback := Some cb\<rparr>] s1 =
      ([(fresh_put k v m cr)\<lparr>op_callback := Some cb2\<rparr>], s2)" "cb_done cb2"
    by (cases "cb_done cb") (auto simp: finished_def Let_def OnResult_def)
  have i: "issue_operations env t [fresh_put k v m cr] (op_sync op) w =
      ([(fresh_put k v m cr)\<lparr>op_callback := Some cb\<rparr>], s1, w2)"
    using issue_step [of "fresh_put k v m cr" env t "op_sync op" w e cb s1 w1, unfolded fresh_put_proj option.sel, OF _ s]
    by (simp add: w2_def)
  have "executeOperationVector env t op w =
      (rmap_of (env_code env) (os @ [(fresh_put k v m cr)\<lparr>op_callback := Some cb2\<rparr>]),
       op\<lparr>operations := os @ [(fresh_put k v m cr)\<lparr>op_callback := Some cb2\<rparr>], op_sync := s2\<rparr>, w2)"
    unfolding executeOperationVector_def ops issue_append_finished [OF old] i prod.case Let_def
      expire_append_finished [OF old] x(1) ..
  then have r: "op' = op\<lparr>operations := os @ [(fresh_put k v m cr)\<lparr>op_callback := Some cb2\<rparr>], op_sync := s2\<rparr>" "w' = w2"
    using exec by simp_all
  show "key_kept up store key w w'" using kept r(2) by simp
  show "\<forall>cb \<in> set (op_callbacks (operations op')). cb_done cb" using r(1) old x(2) by simp
qed

lemma createSingleKey_step_frame:
  assumes honest: "honest_put env up store" and old: "\<forall>cb \<in> set (so_callbacks so). cb_done cb" and neq: "key \<noteq> k"
    and step: "createSingleKey_step env k rc so w = (st, so', w')"
  shows "key_kept up store key w w'" and "\<forall>cb \<in> set (so_callbacks so'). cb_done cb" and "so_key so' = so_key so"
proof -
  define so1 where "so1 = stripe_expandOperationVector 1 (length (operations (so_op so))) so"
  obtain c where c: "operations (so_op so1) = operations (so_op so) @ [empty_operation c]" "so_key so1 = so_key so"
    by (auto simp: so1_def stripe_expandOperationVector_def key_connections_def Let_def)
  define op where "op = bind_operation (Req_Put k [] REQUIRE_SAME_VERSION rc) PutCallback
    (length (operations (so_op so1)) - 1) (so_op so1)"
  have ops: "operations op = operations (so_op so) @ [fresh_put k [] REQUIRE_SAME_VERSION (c, rc)]"
    by (simp add: op_def bind_operation_def KineticCallback_new_def c(1) fresh_put_def rebind_fresh empty_operation_def)
      (simp add: fresh_operation_def)
  obtain rm op' w1 where ex: "executeOperationVector env 5 op w = (rm, op', w1)" by (metis prod_cases3)
  have "so' = so1\<lparr>so_op := op'\<rparr>" "w' = w1"
    using step ex unfolding createSingleKey_step_def Let_def so1_def [symmetric] op_def [symmetric] by simp_all
  then show "key_kept up store key w w'" "\<forall>cb \<in> set (so_callbacks so'). cb_done cb" "so_key so' = so_key so"
    using execute_single_put_frame [OF honest old ops neq ex] c(2) by simp_all
qed

lemma createSingleKey_loop_frame:
  assumes "honest_put env up store" and "key \<noteq> k"
    and "createSingleKey_loop env k rc n count so w = (st, so', w')" and "\<forall>cb \<in> set (so_callbacks so). cb_done cb"
  shows "key_kept up store key w w' \<and> (\<forall>cb \<in> set (so_callbacks so'). cb_done cb) \<and> so_key so' = so_key so"
  using assms
proof (induction env k rc n count so w rule: createSingleKey_loop.induct)
  case (1 env k rc n count so w)
  obtain st1 so1 w1 where s: "createSingleKey_step env k rc so w = (st1, so1, w1)" by (metis prod_cases3)
  note F = createSingleKey_step_frame [OF 1(2,5,3) s]
  show ?case
  proof (cases "\<not> validStatusCode (statusCode st1) \<and> count + 1 < n")
    case True
    then have "createSingleKey_loop env k rc n (count + 1) so1 w1 = (st, so', w')"
      using 1(4) s by (simp add: createSingleKey_loop.simps [of env k rc n count so w])
    from 1(1) [OF s [symmetric] refl refl True 1(2,3) this F(2)] F show ?thesis by simp
  next
    case False
    then have "(st, so', w') = (st1, so1, w1)"
      using 1(4) s by (auto simp: createSingleKey_loop.simps [of env k rc n count so w] split: if_splits)
    then show ?thesis using F by simp
  qed
qed


lemma putIndicatorKey_frame:
  assumes "honest_put env up store" and "\<forall>cb \<in> set (so_callbacks so). cb_done cb"
    and "putIndicatorKey env so w = (so', w')"
  shows "key_kept up store (so_key so) w w' \<and> (\<forall>cb \<in> set (so_callbacks so'). cb_done cb) \<and> so_key so' = so_key so"
proof -
  have "so_key so \<noteq> makeIndicatorKey (so_key so)"
    by (rule notI, drule arg_cong [where f = length]) (simp add: makeIndicatorKey_def)
  moreover obtain st where "createSingleKey env (makeIndicatorKey (so_key so)) ''indicator'' [] so w = (st, so', w')"
    using assms(3) by (auto simp: putIndicatorKey_def split: prod.splits)
  ultimately show ?thesis
    using createSingleKey_loop_frame [OF assms(1)] assms(2) unfolding createSingleKey_def by blast
qed

lemma handoff_key_neq: "key \<noteq> handoff_key key v i"
  by (rule notI, drule arg_cong [where f = length]) (simp add: handoff_key_def Convert_toString_def)

lemma putHandoffKeys_frame:
  assumes honest: "honest_put env up store" and "\<forall>cb \<in> set (so_callbacks (put_so p)). cb_done cb"
    and "putHandoffKeys env p w = (p', w')"
  shows "key_kept up store (so_key (put_so p)) w w'"
proof -
  let ?key = "so_key (put_so p)"
  let ?P = "\<lambda>(q, u). key_kept up store ?key w u \<and> (\<forall>cb \<in> set (so_callbacks (put_so q)). cb_done cb) \<and> so_key (put_so q) = ?key"
  have "?P (putHandoffKeys env p w)"
    unfolding putHandoffKeys_def
  proof (rule fold_invariant [where Q = "\<lambda>_. True"])
    show "?P (p, w)" using assms(2) by simp
    fix i and s :: "StripeOperation_PUT \<times> 'a"
    assume P: "?P s"
    obtain q u where s: "s = (q, u)" by (cases s)
    obtain st so u' where c: "createSingleKey env (handoff_key (so_key (put_so q)) (put_version q) i)
        (put_version q) (put_values q ! i) (put_so q) u = (st, so, u')"
      by (metis prod_cases3)
    have "key_kept up store ?key u u' \<and> (\<forall>cb \<in> set (so_callbacks so). cb_done cb) \<and> so_key so = ?key"
      using createSingleKey_loop_frame [OF honest handoff_key_neq c [unfolded createSingleKey_def]] P s by simp
    then show "?P (case s of (p, w) \<Rightarrow> let so = put_so p;
                 scode = statusCode (getResult (the (op_callback (operations (so_op so) ! i))))
             in if scode \<noteq> OK \<and> scode \<noteq> REMOTE_VERSION_MISMATCH then
                  let (st, so, w) = createSingleKey env (handoff_key (so_key so) (put_version p) i)
                                      (put_version p) (put_values p ! i) so w
                  in (p\<lparr>put_so := so\<rparr>, w)
                else (p, w))"
      using P s c by (simp add: Let_def)
  qed simp
  then show ?thesis using assms(3) by simp
qed

section \<open>The put of the cluster\<close>

definition honest_uuid ::
  "'w env \<Rightarrow> ('w \<Rightarrow> nat \<Rightarrow> bool) \<Rightarrow> ('w \<Rightarrow> nat \<Rightarrow> string \<rightharpoonup> kinetic_record) \<Rightarrow> bool" where
  "honest_uuid env up store \<longleftrightarrow>
     (\<forall>w. length (fst (env_uuid env w)) = 36 \<and> same_drives up store w (snd (env_uuid env w)))"

text \<open>A cluster whose parameters are sound: the redundancy provider is well formed, there are enough
  drives for a stripe, and chunks have a size that the library functions can handle.\<close>

definition cluster_ok :: "isal \<Rightarrow> KineticCluster \<Rightarrow> bool" where
  "cluster_ok lib cl \<longleftrightarrow> rp_ok lib (redundancy cl) \<and> rp_size (redundancy cl) \<le> connections cl \<and>
     connections cl < 2 ^ 32 \<and> 0 < chunkCapacity cl \<and> chunkCapacity cl < 2 ^ 31"

abbreviation stripe_drives :: "KineticCluster \<Rightarrow> string \<Rightarrow> nat list" where
  "stripe_drives cl key \<equiv> key_connections (connections cl) key (rp_size (redundancy cl)) 0"

lemma do_put_accepted:
  assumes honest: "honest_put env up store" "honest_uuid env up store" and codes: "codes_ok (env_code env)"
    and cl: "cluster_ok lib cl" and size: "length value \<le> nData (redundancy cl) * chunkCapacity cl" "length value \<le> 2147483647"
    and acc: "\<forall>c \<in> set (stripe_drives cl key). up w c \<longrightarrow> version_accepted mode version (store w c key)"
    and down: "down_drives up w (stripe_drives cl key) \<le> nParity (redundancy cl)"
  shows "\<exists>v st c w'. do_put env lib cl (Some key) (Some version) (Some value) version_out mode w =
      Some (Inr (ok_status, Some v), cl\<lparr>redundancy := (redundancy cl)\<lparr>cache := c\<rparr>\<rparr>, w') \<and>
    rp_ok lib ((redundancy cl)\<lparr>cache := c\<rparr>) \<and> stored_value lib (redundancy cl) v value st \<and>
    length st = rp_size (redundancy cl) \<and> written up store key (stripe_records (connections cl) key v st) w w'"
proof -
  let ?rp = "redundancy cl"
  have ok: "rp_ok lib ?rp" and pos: "0 < nData ?rp" using cl by (auto simp: cluster_ok_def rp_ok_def)
  obtain c st where st: "valueToStripe lib cl value = (Inr st, cl\<lparr>redundancy := ?rp\<lparr>cache := c\<rparr>\<rparr>)"
    "rp_ok lib (?rp\<lparr>cache := c\<rparr>)" "length st = rp_size ?rp"
    "value = [] \<or> (\<exists>L ds. stripe_content lib ?rp L ds value st)"
    using valueToStripe_spec [OF ok _ _ size(1)] cl by (auto simp: cluster_ok_def)
  let ?rp' = "?rp\<lparr>cache := c\<rparr>" let ?cl' = "cl\<lparr>redundancy := ?rp\<lparr>cache := c\<rparr>\<rparr>"
  obtain uuid w1 where u: "env_uuid env w = (uuid, w1)" by fastforce
  have u1: "length uuid = 36" "same_drives up store w w1" using honest(2) u by (metis honest_uuid_def fst_conv snd_conv)+
  define v where "v = uuidGenerateEncodeSize uuid (length value)"
  have len': "length st = rp_size ?rp'" using st(3) by (simp add: rp_size_def)
  obtain p where p: "StripeOperation_PUT_new key v version st mode (connections cl) ?rp' = Inr p"
    "operations (so_op (put_so p)) = map (fresh_put key version mode) (stripe_records (connections cl) key v st)"
    "so_key (put_so p) = key" "need_indicator (put_so p) = False"
    by (rule PUT_new_proj [OF len']) blast
  let ?crs = "stripe_records (connections cl) key v st"
  have fst: "map fst ?crs = stripe_drives cl key" using st(3) by simp
  have dist: "distinct (map fst ?crs)"
    unfolding fst using cl pos ring_distinct by (simp add: cluster_ok_def key_connections_ring rp_size_def)
  have acc': "\<forall>cr \<in> set ?crs. up w1 (fst cr) \<longrightarrow> version_accepted mode version (store w1 (fst cr) key)"
  proof
    fix cr assume "cr \<in> set ?crs"
    then have "fst cr \<in> set (map fst ?crs)" by (simp del: stripe_records_proj)
    then show "up w1 (fst cr) \<longrightarrow> version_accepted mode version (store w1 (fst cr) key)"
      using acc u1(2) unfolding fst by (simp add: same_drives_def)
  qed
  have down': "down_drives up w1 (map fst ?crs) \<le> nParity ?rp'"
    using down u1(2) unfolding fst by (simp add: down_drives_def same_drives_def)
  have pos': "0 < nData ?rp'" and lenc: "length ?crs = rp_size ?rp'" using pos len' by simp_all
  obtain op w2 where put: "PUT_execute env (operation_timeout cl) ?rp' p w1 = Some (Inr ok_status,
      p\<lparr>put_so := (put_so p)\<lparr>so_op := op, need_indicator := 0 < down_drives up w1 (map fst ?crs)\<rparr>\<rparr>, w2)"
    "written up store key ?crs w1 w2" "\<forall>cb \<in> set (op_callbacks (operations op)). cb_done cb"
    using PUT_execute_accepted [OF honest(1) codes pos' p(2,4) dist lenc acc' down', of "operation_timeout cl"] by blast
  define p2 where "p2 = p\<lparr>put_so := (put_so p)\<lparr>so_op := op, need_indicator := 0 < down_drives up w1 (map fst ?crs)\<rparr>\<rparr>"
  have p2: "so_key (put_so p2) = key" "so_callbacks (put_so p2) = op_callbacks (operations op)"
    by (simp_all add: p2_def p(3))
  define w3 where "w3 = (if needsIndicator (put_so p2)
     then let (so, w) = putIndicatorKey env (put_so p2) w2 in snd (putHandoffKeys env (p2\<lparr>put_so := so\<rparr>) w) else w2)"
  have kept: "key_kept up store key w2 w3"
  proof (cases "needsIndicator (put_so p2)")
    case True
    obtain so w4 where i: "putIndicatorKey env (put_so p2) w2 = (so, w4)" by fastforce
    obtain p3 w5 where h: "putHandoffKeys env (p2\<lparr>put_so := so\<rparr>) w4 = (p3, w5)" by fastforce
    have I: "key_kept up store key w2 w4" "\<forall>cb \<in> set (so_callbacks so). cb_done cb" "so_key so = key"
      using putIndicatorKey_frame [OF honest(1) _ i] put(3) p2 by simp_all
    have "key_kept up store key w4 w5" using putHandoffKeys_frame [OF honest(1) _ h] I(2,3) by simp
    then show ?thesis using I(1) True i h by (simp add: w3_def)
  qed (simp add: w3_def)
  have res: "do_put env lib cl (Some key) (Some version) (Some value) version_out mode w =
      Some (Inr (ok_status, Some v), ?cl', w3)"
    using st(1) u p(1) put(1) [folded p2_def] unfolding do_put_def w3_def by (simp add: Let_def v_def [symmetric])
  moreover have "stored_value lib ?rp v value st"
    using st(4) u1(1) size(2) unfolding stored_value_def v_def by (simp add: uuidDecodeSize_encode_size int_max_def)
  moreover have "written up store key ?crs w w3"
    using put(2) kept u1(2) by (simp add: written_def same_drives_def)
  ultimately show ?thesis using st(2,3) by blast
qed


end
