(* ===== verification/Cluster_Storage.thy ===== *)
theory Cluster_Storage
  imports Stripe_Put Drive_Simulation
begin

text \<open>
  What a cluster promises as a store: a value that was put comes back from a get although drives
  fail in between, and a key that was removed is gone. The drives are arbitrary functions that obey
  the protocol; the simulated drives are shown to be such drives, and the witnesses run on them.
\<close>

section \<open>Reading what was written\<close>

lemma written_stripe:
  assumes w: "written up store key (stripe_records n key v st) w w'" and dist: "distinct (key_connections n key (length st) 0)"
    and intact: "\<forall>c \<in> set (key_connections n key (length st) 0). up w2 c \<longrightarrow>
      store w2 c key = None \<or> up w c \<and> store w2 c key = store w' c key"
  shows "stripe_on_drives up store w2 key v st (key_connections n key (length st) 0)"
  unfolding stripe_on_drives_def
proof (intro allI impI)
  let ?cs = "key_connections n key (length st) 0"
  fix i assume i: "i < length ?cs" "up w2 (?cs ! i)"
  have "map_of (stripe_records n key v st) (?cs ! i) = Some (makeRecord (st ! i) v)"
    unfolding stripe_records_def using i(1) dist by (subst map_of_zip_nth) simp_all
  moreover have "?cs ! i \<in> fst ` set (stripe_records n key v st)"
    using i(1) nth_mem [of i ?cs] stripe_records_proj(1) [of n key v st] by (metis list.set_map)
  ultimately have "up w (?cs ! i) \<Longrightarrow> store w' (?cs ! i) key = Some (makeRecord (st ! i) v)"
    using w by (simp add: written_def)
  then show "store w2 (?cs ! i) key \<in> {None, Some (makeRecord (st ! i) v)}"
    using intact i nth_mem [of i ?cs] by auto
qed

lemma stored_value_cache: "stored_value lib (rp\<lparr>cache := c\<rparr>) v value st = stored_value lib rp v value st"
proof -
  have "nData (rp\<lparr>cache := c\<rparr>) = nData rp" "nParity (rp\<lparr>cache := c\<rparr>) = nParity rp" by simp_all
  then show ?thesis unfolding stored_value_def stripe_content_def encode_cache by (simp only:)
qed

lemma do_get_recovers:
  assumes honest: "honest_get env up store" and codes: "codes_ok (env_code env)" and cl: "cluster_ok lib cl"
    and wrap: "no_index_wrap (connections cl) key (nData (redundancy cl))"
    and val: "stored_value lib (redundancy cl) v value st"
    and drives: "stripe_on_drives up store w key v st (stripe_drives cl key)"
    and lost: "lost_drives up store w key (stripe_drives cl key) \<le> nParity (redundancy cl)"
    and absent: "absent_drives up store w key (stripe_drives cl key) < nData (redundancy cl)"
  shows "\<exists>c w'. do_get env lib cl (Some key) v0 x0 False w =
      Some (Inr (ok_status, Some v, Some value), cl\<lparr>redundancy := (redundancy cl)\<lparr>cache := c\<rparr>\<rparr>, w') \<and>
    cluster_ok lib (cl\<lparr>redundancy := (redundancy cl)\<lparr>cache := c\<rparr>\<rparr>) \<and> same_drives up store w w'"
proof -
  have ok: "rp_ok lib (redundancy cl)" and n: "0 < connections cl" "connections cl < 2 ^ 32"
    using cl by (auto simp: cluster_ok_def rp_ok_def rp_size_def)
  obtain c g w' where g: "GET_execute env lib (operation_timeout cl) (redundancy cl)
      (StripeOperation_GET_new key False (connections cl) (redundancy cl) False) w =
      ((redundancy cl)\<lparr>cache := c\<rparr>, g, Inr ok_status, w')" "rp_ok lib ((redundancy cl)\<lparr>cache := c\<rparr>)"
    "get_value g = Some value" "vc_version (get_version g) = Some v" "\<not> need_indicator (get_so g)" "same_drives up store w w'"
    using GET_execute_recovers [OF honest codes ok n wrap val drives lost absent] by blast
  have "do_get env lib cl (Some key) v0 x0 False w =
      Some (Inr (ok_status, Some v, Some value), cl\<lparr>redundancy := (redundancy cl)\<lparr>cache := c\<rparr>\<rparr>, w')"
    using g by (simp add: do_get.simps get_finish_def needsIndicator_def)
  moreover have "cluster_ok lib (cl\<lparr>redundancy := (redundancy cl)\<lparr>cache := c\<rparr>\<rparr>)"
    using cl g(2) by (simp add: cluster_ok_def rp_size_def)
  ultimately show ?thesis using g(6) by blast
qed

section \<open>The simulated drives obey the protocol\<close>

abbreviation sim_up :: "sim \<Rightarrow> nat \<Rightarrow> bool" where
  "sim_up w c \<equiv> \<not> sim_down w c"

abbreviation sim_records :: "sim \<Rightarrow> nat \<Rightarrow> string \<rightharpoonup> kinetic_record" where
  "sim_records w c \<equiv> map_of (sim_store w c)"

lemma sim_honest_get: "honest_get sim_env sim_up sim_records"
  by (auto simp: honest_get_def sim_env_def sim_get_def same_drives_def failing_def split: option.splits)

lemma sim_honest_put: "honest_put sim_env sim_up sim_records"
proof -
  have mode: "m = IGNORE_VERSION \<longleftrightarrow> m \<noteq> REQUIRE_SAME_VERSION" for m by (cases m) simp_all
  show ?thesis
    by (auto simp: honest_put_def sim_env_def sim_put_def same_drives_def failing_def version_accepted_def mode
      stored_version_def sim_version_def update_conv' fun_eq_iff split: option.splits if_splits)
qed

lemma sim_honest_uuid: "honest_uuid sim_env sim_up sim_records"
  by (simp add: honest_uuid_def sim_env_def same_drives_def zpad_def)

lemma sim_codes: "codes_ok (env_code sim_env)"
  using sim_codes_ok by (simp add: sim_env_def)

lemma accepted_put_readable:
  assumes "honest_get env up store" and "honest_put env up store" and "honest_uuid env up store"
    and "codes_ok (env_code env)" and "cluster_ok lib cl"
    and "no_index_wrap (connections cl) key (nData (redundancy cl))"
    and "length value \<le> nData (redundancy cl) * chunkCapacity cl" and "length value \<le> 2147483647"
    and "\<forall>c \<in> set (stripe_drives cl key). up w c \<longrightarrow> version_accepted mode version (store w c key)"
    and "down_drives up w (stripe_drives cl key) \<le> nParity (redundancy cl)"
  shows "\<exists>v cl' w'. do_put env lib cl (Some key) (Some version) (Some value) version_out mode w =
      Some (Inr (ok_status, Some v), cl', w') \<and> up w' = up w \<and>
    (\<forall>c \<in> set (stripe_drives cl key). up w c \<longrightarrow> store w' c key \<noteq> None) \<and>
    (\<forall>w2 v0 x0. (\<forall>c \<in> set (stripe_drives cl key). up w2 c \<longrightarrow>
          store w2 c key = None \<or> up w c \<and> store w2 c key = store w' c key) \<longrightarrow>
       lost_drives up store w2 key (stripe_drives cl key) \<le> nParity (redundancy cl) \<longrightarrow>
       absent_drives up store w2 key (stripe_drives cl key) < nData (redundancy cl) \<longrightarrow>
       (\<exists>cl2 w3. cluster_get env lib cl' (Some key) v0 x0 w2 = Some (Inr (ok_status, Some v, Some value), cl2, w3)))"
proof -
  let ?cs = "stripe_drives cl key"
  obtain v st c w' where put: "do_put env lib cl (Some key) (Some version) (Some value) version_out mode w =
      Some (Inr (ok_status, Some v), cl\<lparr>redundancy := (redundancy cl)\<lparr>cache := c\<rparr>\<rparr>, w')"
    "rp_ok lib ((redundancy cl)\<lparr>cache := c\<rparr>)" "stored_value lib (redundancy cl) v value st"
    "length st = rp_size (redundancy cl)" "written up store key (stripe_records (connections cl) key v st) w w'"
    using do_put_accepted [OF assms(2-5,7-10)] by blast
  let ?cl = "cl\<lparr>redundancy := (redundancy cl)\<lparr>cache := c\<rparr>\<rparr>"
  have cl: "cluster_ok lib ?cl" "stripe_drives ?cl key = ?cs"
    using assms(5) put(2) by (simp_all add: cluster_ok_def rp_size_def)
  have val: "stored_value lib (redundancy ?cl) v value st"
    using put(3) by (simp add: stored_value_cache)
  have dist: "distinct ?cs"
    using assms(5) ring_distinct by (auto simp: cluster_ok_def key_connections_ring rp_ok_def rp_size_def)
  have fst: "fst ` set (stripe_records (connections cl) key v st) = set ?cs"
    using stripe_records_proj(1) [of "connections cl" key v st] put(4) by (metis list.set_map)
  have kept: "store w' c key \<noteq> None" if "c \<in> set ?cs" "up w c" for c
    using put(5) that fst by (simp add: written_def map_of_eq_None_iff)
  show ?thesis
  proof (rule exI, rule exI, rule exI, intro conjI allI impI)
    show "do_put env lib cl (Some key) (Some version) (Some value) version_out mode w =
      Some (Inr (ok_status, Some v), ?cl, w')" by (rule put(1))
    show "up w' = up w" using put(5) by (simp add: written_def)
    show "\<forall>c \<in> set ?cs. up w c \<longrightarrow> store w' c key \<noteq> None" using kept by blast
    fix w2 v0 x0
    assume intact: "\<forall>c \<in> set ?cs. up w2 c \<longrightarrow> store w2 c key = None \<or> up w c \<and> store w2 c key = store w' c key"
      and few: "lost_drives up store w2 key ?cs \<le> nParity (redundancy cl)"
        "absent_drives up store w2 key ?cs < nData (redundancy cl)"
    have drives: "stripe_on_drives up store w2 key v st (stripe_drives ?cl key)"
      using written_stripe [OF put(5), of w2] dist intact put(4) cl(2) by simp
    have "\<exists>c2 w3. do_get env lib ?cl (Some key) v0 x0 False w2 =
        Some (Inr (ok_status, Some v, Some value), ?cl\<lparr>redundancy := (redundancy ?cl)\<lparr>cache := c2\<rparr>\<rparr>, w3) \<and>
      cluster_ok lib (?cl\<lparr>redundancy := (redundancy ?cl)\<lparr>cache := c2\<rparr>\<rparr>) \<and> same_drives up store w2 w3"
      by (rule do_get_recovers [OF assms(1,4) cl(1) _ val drives])
        (use assms(6) few cl(2) in simp_all)
    then show "\<exists>cl2 w3. cluster_get env lib ?cl (Some key) v0 x0 w2 =
        Some (Inr (ok_status, Some v, Some value), cl2, w3)"
      unfolding cluster_get_def by blast
  qed
qed

section \<open>Properties\<close>

text \<open>C1: A value survives the loss of drives. A put whose version condition holds on the drives that
  are reachable succeeds as long as at most as many drives of the stripe are down as the cluster has
  parities; it leaves its chunk on every reachable drive. Afterwards, in any state of the world where
  every reachable drive of the stripe holds what the put left there or has lost the key, and at most
  as many chunks are missing as there are parities (fewer than the number of data chunks because
  drives say that they have no such key), a get returns exactly the value and the version of the
  put.\<close>

theorem put_then_get:
  assumes "honest_get env up store" and "honest_put env up store" and "honest_uuid env up store"
    and "codes_ok (env_code env)" and "cluster_ok lib cl"
    and "no_index_wrap (connections cl) key (nData (redundancy cl))"
    and "length value \<le> nData (redundancy cl) * chunkCapacity cl" and "length value \<le> 2147483647"
    and "\<forall>c \<in> set (stripe_drives cl key). up w c \<longrightarrow> version_accepted mode version (store w c key)"
    and "down_drives up w (stripe_drives cl key) \<le> nParity (redundancy cl)"
  shows "\<exists>v cl' w'. do_put env lib cl (Some key) (Some version) (Some value) version_out mode w =
      Some (Inr (ok_status, Some v), cl', w') \<and> up w' = up w \<and>
    (\<forall>c \<in> set (stripe_drives cl key). up w c \<longrightarrow> store w' c key \<noteq> None) \<and>
    (\<forall>w2 v0 x0. (\<forall>c \<in> set (stripe_drives cl key). up w2 c \<longrightarrow>
          store w2 c key = None \<or> up w c \<and> store w2 c key = store w' c key) \<longrightarrow>
       lost_drives up store w2 key (stripe_drives cl key) \<le> nParity (redundancy cl) \<longrightarrow>
       absent_drives up store w2 key (stripe_drives cl key) < nData (redundancy cl) \<longrightarrow>
       (\<exists>cl2 w3. cluster_get env lib cl' (Some key) v0 x0 w2 = Some (Inr (ok_status, Some v, Some value), cl2, w3)))"
  using assms by (rule accepted_put_readable)

text \<open>A cluster of four simulated drives with two data chunks and one parity chunk.\<close>

definition demo_cluster :: KineticCluster where
  "demo_cluster =
     \<lparr>identity = ''demo'', instanceIdentity = [], chunkCapacity = 4, operation_timeout = 10, connections = 4,
      cluster_limits = None, redundancy = RedundancyProvider_new sum_lib 2 1, statistics_scheduled = 0,
      statistics_snapshot = initial_statistics 4 (RedundancyProvider_new sum_lib 2 1), destructed = False\<rparr>"

lemma demo_sizes [simp]:
  "connections demo_cluster = 4" "chunkCapacity demo_cluster = 4" "nData (redundancy demo_cluster) = 2"
  "nParity (redundancy demo_cluster) = 1" "rp_size (redundancy demo_cluster) = 3"
  by (simp_all add: demo_cluster_def rp_size_def RedundancyProvider_new_def)

lemma demo_cluster_ok: "cluster_ok sum_lib demo_cluster"
proof -
  have "rp_ok sum_lib (redundancy demo_cluster)"
    using sum_lib_provider by (simp only: demo_cluster_def KineticCluster.simps)
  then show ?thesis by (simp add: cluster_ok_def)
qed

lemma demo_drives: "key_connections 4 ''key'' 3 0 = [1, 2, 3]"
proof -
  have "MurmurHash3_x86_32 ''key'' 0 = 0xe29c6a44" by code_simp
  then have "first_connection 4 ''key'' 0 = 1" by (simp add: first_connection_def)
  then show ?thesis by (simp add: key_connections_ring upt_conv_Cons)
qed

text \<open>The value is put while all drives are up and read back with drive 2 gone.\<close>

theorem put_then_get_witness:
  "\<exists>v cl w. do_put sim_env sum_lib demo_cluster (Some ''key'') (Some []) (Some ''hello'') None REQUIRE_SAME_VERSION (sim_init []) =
      Some (Inr (ok_status, Some v), cl, w) \<and>
    (\<exists>cl2 w3. cluster_get sim_env sum_lib cl (Some ''key'') None None (w\<lparr>sim_down := (\<lambda>c. c = 2)\<rparr>) =
      Some (Inr (ok_status, Some v, Some ''hello''), cl2, w3))"
proof -
  have wrap: "no_index_wrap (connections demo_cluster) ''key'' (nData (redundancy demo_cluster))"
    by (simp add: no_index_wrap_def)
  have "\<exists>v cl w. do_put sim_env sum_lib demo_cluster (Some ''key'') (Some []) (Some ''hello'') None REQUIRE_SAME_VERSION (sim_init []) =
      Some (Inr (ok_status, Some v), cl, w) \<and> sim_up w = sim_up (sim_init []) \<and>
    (\<forall>c \<in> set (stripe_drives demo_cluster ''key''). sim_up (sim_init []) c \<longrightarrow> sim_records w c ''key'' \<noteq> None) \<and>
    (\<forall>w2 v0 x0. (\<forall>c \<in> set (stripe_drives demo_cluster ''key''). sim_up w2 c \<longrightarrow>
          sim_records w2 c ''key'' = None \<or> sim_up (sim_init []) c \<and> sim_records w2 c ''key'' = sim_records w c ''key'') \<longrightarrow>
       lost_drives sim_up sim_records w2 ''key'' (stripe_drives demo_cluster ''key'') \<le> nParity (redundancy demo_cluster) \<longrightarrow>
       absent_drives sim_up sim_records w2 ''key'' (stripe_drives demo_cluster ''key'') < nData (redundancy demo_cluster) \<longrightarrow>
       (\<exists>cl2 w3. cluster_get sim_env sum_lib cl (Some ''key'') v0 x0 w2 = Some (Inr (ok_status, Some v, Some ''hello''), cl2, w3)))"
    by (rule put_then_get [OF sim_honest_get sim_honest_put sim_honest_uuid sim_codes demo_cluster_ok wrap])
      (simp_all add: sim_init_def version_accepted_def stored_version_def down_drives_def)
  then obtain v cl w where r: "do_put sim_env sum_lib demo_cluster (Some ''key'') (Some []) (Some ''hello'') None REQUIRE_SAME_VERSION
      (sim_init []) = Some (Inr (ok_status, Some v), cl, w)"
    "\<forall>c \<in> {1, 2, 3}. sim_records w c ''key'' \<noteq> None"
    "\<And>w2 v0 x0. (\<forall>c \<in> {1, 2, 3}. sim_up w2 c \<longrightarrow> sim_records w2 c ''key'' = sim_records w c ''key'') \<Longrightarrow>
       lost_drives sim_up sim_records w2 ''key'' [1, 2, 3] \<le> 1 \<Longrightarrow> absent_drives sim_up sim_records w2 ''key'' [1, 2, 3] < 2 \<Longrightarrow>
       \<exists>cl2 w3. cluster_get sim_env sum_lib cl (Some ''key'') v0 x0 w2 = Some (Inr (ok_status, Some v, Some ''hello''), cl2, w3)"
    by (auto simp: demo_drives sim_init_def)
  have "\<exists>cl2 w3. cluster_get sim_env sum_lib cl (Some ''key'') None None (w\<lparr>sim_down := (\<lambda>c. c = 2)\<rparr>) =
      Some (Inr (ok_status, Some v, Some ''hello''), cl2, w3)"
    by (rule r(3)) (use r(2) in \<open>simp_all add: lost_drives_def absent_drives_def\<close>)
  with r(1) show ?thesis by blast
qed


end
