(* ===== verification/Cluster_Interface.thy ===== *)
theory Cluster_Interface
  imports Kinetic_Cluster
begin

text \<open>
  The abstract class \<^verbatim>\<open>ClusterInterface\<close> (include/ClusterInterface.hh) through which data blocks and
  files reach a cluster, and the programs that use it.

  A program that may throw and may fail to end is a function from a state to
  \<open>('a res \<times> 's) option\<close>: \<open>None\<close> when it does not end, \<open>Inl\<close> for an exception (the state changes
  made before the throw are kept, as in C++), \<open>Inr\<close> for a value.

  An object behind the interface is the record of its virtual functions. Output parameters of the
  C++ functions are passed in and returned. The identifiers and limits of a cluster are constant
  during its lifetime, as the class documents, so they are plain fields. \<open>KineticCluster_interface\<close>
  is the object that \<^verbatim>\<open>KineticCluster\<close> provides; the contract that the documentation of the class
  gives its clients is the locale \<open>cluster_contract\<close>, interpreted on it.
\<close>

section \<open>Programs with exceptions\<close>

type_synonym ('s, 'a) kio = "'s \<Rightarrow> ('a res \<times> 's) option"

definition ret :: "'a \<Rightarrow> ('s, 'a) kio" where
  "ret x s = Some (Inr x, s)"

definition throw :: "exn \<Rightarrow> ('s, 'a) kio" where
  "throw e s = Some (Inl e, s)"

definition bnd :: "('s, 'a) kio \<Rightarrow> ('a \<Rightarrow> ('s, 'b) kio) \<Rightarrow> ('s, 'b) kio" where
  "bnd m f s = Option.bind (m s) (\<lambda>(r, s'). case r of Inl e \<Rightarrow> Some (Inl e, s') | Inr x \<Rightarrow> f x s')"

definition seq :: "('s, 'a) kio \<Rightarrow> ('s, 'b) kio \<Rightarrow> ('s, 'b) kio" where
  "seq m n = bnd m (\<lambda>_. n)"

definition catch :: "('s, 'a) kio \<Rightarrow> (exn \<Rightarrow> ('s, 'a) kio) \<Rightarrow> ('s, 'a) kio" where
  "catch m h s = Option.bind (m s) (\<lambda>(r, s'). case r of Inl e \<Rightarrow> h e s' | Inr x \<Rightarrow> Some (Inr x, s'))"

definition asks :: "('s \<Rightarrow> 'a) \<Rightarrow> ('s, 'a) kio" where
  "asks f s = Some (Inr (f s), s)"

definition modify :: "('s \<Rightarrow> 's) \<Rightarrow> ('s, unit) kio" where
  "modify f s = Some (Inr (), f s)"

definition lift_res :: "'a res \<Rightarrow> ('s, 'a) kio" where
  "lift_res r s = Some (r, s)"

primrec for_each :: "('a \<Rightarrow> ('s, unit) kio) \<Rightarrow> 'a list \<Rightarrow> ('s, unit) kio" where
  "for_each f [] = ret ()"
| "for_each f (x # xs) = seq (f x) (for_each f xs)"

text \<open>Running a program on a part of a larger state.\<close>

definition zoom :: "('t \<Rightarrow> 's) \<Rightarrow> ('s \<Rightarrow> 't \<Rightarrow> 't) \<Rightarrow> ('s, 'a) kio \<Rightarrow> ('t, 'a) kio" where
  "zoom sel upd m t = map_option (\<lambda>(r, s). (r, upd s t)) (m (sel t))"

lemma bnd_mono [partial_function_mono]:
  assumes "mono_option (\<lambda>f. B f s)" and "\<And>y s'. mono_option (\<lambda>f. C y f s')"
  shows "mono_option (\<lambda>f. bnd (B f) (\<lambda>y. C y f) s)"
proof -
  have "mono_option (\<lambda>f. case x of (r, s') \<Rightarrow>
      (case r of Inl e \<Rightarrow> Some (Inl e, s') | Inr x \<Rightarrow> C x f s'))" for x
    by (cases x; cases "fst x") (use assms(2) in \<open>auto intro: option.const_mono\<close>)
  then show ?thesis
    unfolding bnd_def by (intro bind_mono assms(1))
qed

lemma seq_mono [partial_function_mono]:
  assumes "mono_option (\<lambda>f. B f s)" and "\<And>s'. mono_option (\<lambda>f. C f s')"
  shows "mono_option (\<lambda>f. seq (B f) (C f) s)"
  unfolding seq_def by (intro bnd_mono assms)

lemma if_app_mono [partial_function_mono]:
  assumes "mono_option (\<lambda>f. A f s)" and "mono_option (\<lambda>f. B f s)"
  shows "mono_option (\<lambda>f. (if c then A f else B f) s)"
  using assms by (cases c) simp_all

lemma bnd_simps [simp]:
  "bnd (ret x) f = f x"
  "bnd (throw e) f = throw e"
  "bnd (bnd m g) f = bnd m (\<lambda>x. bnd (g x) f)"
  by (auto simp: fun_eq_iff bnd_def ret_def throw_def split: sum.splits option.splits bind_splits prod.splits)

lemma bnd_Some [simp]:
  "m s = Some (Inr x, s') \<Longrightarrow> bnd m f s = f x s'"
  "m s = Some (Inl e, s') \<Longrightarrow> bnd m f s = Some (Inl e, s')"
  "m s = None \<Longrightarrow> bnd m f s = None"
  by (simp_all add: bnd_def)

lemma bnd_Some_bool [simp]:
  "m s = Some (Inr False, s') \<Longrightarrow> bnd m f s = f False s'"
  "m s = Some (Inr True, s') \<Longrightarrow> bnd m f s = f True s'"
  by (simp_all add: bnd_def)

lemma bnd_prim [simp]:
  "bnd (asks g) f s = f (g s) s"
  "bnd (modify h) k s = k () (h s)"
  "bnd (lift_res (Inr x)) f' s = f' x s"
  "bnd (lift_res (Inl e)) f' s = Some (Inl e, s)"
  by (simp_all add: bnd_def asks_def modify_def lift_res_def)

lemma seq_prim [simp]:
  "seq (modify h) m s = m (h s)"
  "seq (ret ()) m = m"
  "seq (throw e) m = throw e"
  "seq (bnd n f) m = bnd n (\<lambda>x. seq (f x) m)"
  by (simp_all add: seq_def)

lemma bnd_eq_SomeE:
  assumes "bnd m f s = Some (r, t)"
  obtains (normal) x s' where "m s = Some (Inr x, s')" "f x s' = Some (r, t)"
  | (exn) e where "m s = Some (Inl e, t)" "r = Inl e"
  using assms by (auto simp: bnd_def split: bind_splits prod.splits sum.splits)

lemma seq_eq_SomeE:
  assumes "seq m n s = Some (r, t)"
  obtains (normal) x s' where "m s = Some (Inr x, s')" "n s' = Some (r, t)"
  | (exn) e where "m s = Some (Inl e, t)" "r = Inl e"
  using assms by (auto simp: seq_def elim: bnd_eq_SomeE)

lemma seq_Some [simp]:
  "m s = Some (Inr x, s') \<Longrightarrow> seq m n s = n s'"
  "m s = Some (Inl e, s') \<Longrightarrow> seq m n s = Some (Inl e, s')"
  by (simp_all add: seq_def)

section \<open>Model\<close>

record 's ClusterInterface =
  ci_id :: string
  ci_instanceId :: string
  ci_limits :: ClusterLimits
  ci_stats :: "('s, ClusterStats) kio"
  ci_get :: "string option \<Rightarrow> string option \<Rightarrow> string option \<Rightarrow>
    ('s, kinetic_status \<times> string option \<times> string option) kio"
  ci_get_version :: "string option \<Rightarrow> string option \<Rightarrow> ('s, kinetic_status \<times> string option) kio"
  ci_put :: "string option \<Rightarrow> string option \<Rightarrow> string option \<Rightarrow> string option \<Rightarrow>
    ('s, kinetic_status \<times> string option) kio"
  ci_put_forced :: "string option \<Rightarrow> string option \<Rightarrow> string option \<Rightarrow>
    ('s, kinetic_status \<times> string option) kio"
  ci_remove :: "string option \<Rightarrow> string option \<Rightarrow> ('s, kinetic_status) kio"
  ci_remove_forced :: "string option \<Rightarrow> ('s, kinetic_status) kio"
  ci_flush :: "('s, kinetic_status) kio"
  ci_range :: "string option \<Rightarrow> string option \<Rightarrow> string list option \<Rightarrow> nat \<Rightarrow>
    ('s, kinetic_status \<times> string list option) kio"

text \<open>The object of class \<^verbatim>\<open>KineticCluster\<close>: its mutable members and the world are the state, and
  \<open>updates_pending\<close> counts the snapshot updates that \<^verbatim>\<open>stats\<close> handed to the thread pool and that
  have not run yet.\<close>

record 'w kinetic_state =
  kinetic_object :: KineticCluster
  kinetic_world :: 'w
  updates_pending :: nat

definition kc_stats :: "'w env \<Rightarrow> ('w kinetic_state, ClusterStats) kio" where
  "kc_stats env s =
     (case cluster_stats env (kinetic_object s) (kinetic_world s) of
        (st, scheduled, cl) \<Rightarrow>
          Some (Inr st, s\<lparr>kinetic_object := cl,
            updates_pending := (if scheduled then Suc (updates_pending s) else updates_pending s)\<rparr>))"

text \<open>The pool running one scheduled update.\<close>

definition kc_run_update :: "'w env \<Rightarrow> (nat \<Rightarrow> rat \<Rightarrow> nat) \<Rightarrow> ('w kinetic_state, unit) kio" where
  "kc_run_update env fmul s =
     (if updates_pending s = 0 then Some (Inr (), s)
      else let (r, w) = updateSnapshot env fmul (kinetic_object s) (kinetic_world s);
               s = s\<lparr>kinetic_world := w, updates_pending := updates_pending s - 1\<rparr>
           in case r of Inl e \<Rightarrow> Some (Inl e, s) | Inr cl \<Rightarrow> Some (Inr (), s\<lparr>kinetic_object := cl\<rparr>))"

definition kc_call ::
  "(KineticCluster \<Rightarrow> 'w \<Rightarrow> ('a res \<times> KineticCluster \<times> 'w) option) \<Rightarrow> ('w kinetic_state, 'a) kio" where
  "kc_call f s = map_option (\<lambda>(r, cl, w). (r, s\<lparr>kinetic_object := cl, kinetic_world := w\<rparr>))
     (f (kinetic_object s) (kinetic_world s))"

definition kc_call_const ::
  "(KineticCluster \<Rightarrow> 'w \<Rightarrow> ('a res \<times> 'w) option) \<Rightarrow> ('w kinetic_state, 'a) kio" where
  "kc_call_const f s = map_option (\<lambda>(r, w). (r, s\<lparr>kinetic_world := w\<rparr>))
     (f (kinetic_object s) (kinetic_world s))"

definition KineticCluster_interface ::
  "'w env \<Rightarrow> isal \<Rightarrow> KineticCluster \<Rightarrow> 'w kinetic_state ClusterInterface" where
  "KineticCluster_interface env lib cl0 =
     \<lparr>ci_id = cluster_id cl0,
      ci_instanceId = instanceId cl0,
      ci_limits = the (limits cl0),
      ci_stats = kc_stats env,
      ci_get = (\<lambda>k v x. kc_call (\<lambda>cl. cluster_get env lib cl k v x)),
      ci_get_version = (\<lambda>k v. kc_call (\<lambda>cl. get_version_only env lib cl k v)),
      ci_put = (\<lambda>k v x out. kc_call (\<lambda>cl. put_versioned env lib cl k v x out)),
      ci_put_forced = (\<lambda>k x out. kc_call (\<lambda>cl. put_forced env lib cl k x out)),
      ci_remove = (\<lambda>k v. kc_call_const (\<lambda>cl. remove_versioned env cl k v)),
      ci_remove_forced = (\<lambda>k. kc_call_const (\<lambda>cl. remove_forced env cl k)),
      ci_flush = kc_call_const (\<lambda>cl w. case cluster_flush env cl w of (st, w) \<Rightarrow> Some (Inr st, w)),
      ci_range = (\<lambda>a b ks m. kc_call_const (\<lambda>cl w.
        case cluster_range env cl a b ks m w of (st, ks, w) \<Rightarrow> Some (Inr (st, ks), w)))\<rparr>"

section \<open>The contract of a cluster\<close>

text \<open>What the documentation of the class promises about output parameters: a get that fails leaves
  them as they were, and a put that succeeds yields the new version and otherwise leaves it.\<close>

locale cluster_contract =
  fixes ci :: "'s ClusterInterface"
  assumes get_error: "ci_get ci k v x s = Some (Inr (st, v', x'), s') \<Longrightarrow> \<not> status_ok st \<Longrightarrow> v' = v \<and> x' = x"
    and get_version_error: "ci_get_version ci k v s = Some (Inr (st, v'), s') \<Longrightarrow> \<not> status_ok st \<Longrightarrow> v' = v"
    and put_error: "ci_put ci k v x out s = Some (Inr (st, out'), s') \<Longrightarrow> \<not> status_ok st \<Longrightarrow> out' = out"
    and put_ok: "ci_put ci k v x out s = Some (Inr (st, out'), s') \<Longrightarrow> status_ok st \<Longrightarrow> out' \<noteq> None"
    and put_forced_error:
      "ci_put_forced ci k x out s = Some (Inr (st, out'), s') \<Longrightarrow> \<not> status_ok st \<Longrightarrow> out' = out"


lemma get_finish_error:
  assumes "get_finish env st g version value w = ((st', v', x'), w')" and "\<not> status_ok st'"
  shows "v' = version \<and> x' = value"
  using assms by (auto simp: get_finish_def)

lemma do_get_error:
  assumes "do_get env lib cl key version value skip w = Some (Inr (st, v', x'), cl', w')"
    and "\<not> status_ok st"
  shows "v' = version \<and> x' = value"
proof -
  have "\<forall>st v' x' cl' w'. y = (Inr (st, v', x'), cl', w') \<longrightarrow> \<not> status_ok st \<longrightarrow> v' = version \<and> x' = value"
    if "do_get env lib cl key version value skip w = Some y" for y
    using that
  proof (induction rule: do_get.raw_induct [rotated, consumes 1, case_names step])
    case (step do_get env lib cl key version x0 skip w y)
    from step(2) show ?case
      by (auto split: option.splits prod.splits sum.splits if_splits
          dest!: step(1) get_finish_error)
  qed
  with assms show ?thesis by blast
qed

lemma do_put_out:
  assumes "do_put env lib cl key version value out mode w = Some (Inr (st, out'), cl', w')"
  shows "\<not> status_ok st \<Longrightarrow> out' = out" and "status_ok st \<Longrightarrow> out' \<noteq> None"
  using assms
  by (auto simp: do_put_def Let_def split: option.splits prod.splits sum.splits if_splits)


interpretation kc: cluster_contract "KineticCluster_interface env lib cl0"
  by unfold_locales
    (auto simp: KineticCluster_interface_def kc_call_def cluster_get_def get_version_only_def
      put_versioned_def put_forced_def res_bind_Inr_iff
      dest: do_get_error do_put_out)

end
