(* ===== verification/Cluster_Shape.thy ===== *)
theory Cluster_Shape
  imports Cluster_Interface
begin

text \<open>
  No operation of a cluster changes what the cluster is: its name, its parameters and the shape of its
  redundancy provider. Only the cache of coding tables and the statistics change.
\<close>

section \<open>Operations keep the shape of a cluster\<close>

definition rp_shape :: "redundancy_provider \<Rightarrow> redundancy_provider" where
  "rp_shape rp = rp\<lparr>cache := Map.empty\<rparr>"

definition cluster_shape :: "KineticCluster \<Rightarrow> KineticCluster" where
  "cluster_shape cl = cl\<lparr>redundancy := rp_shape (redundancy cl), statistics_scheduled := 0,
     statistics_snapshot := initial_statistics 0 (rp_shape (redundancy cl))\<rparr>"

lemma rp_shape_cache [simp]: "rp_shape (rp\<lparr>cache := c\<rparr>) = rp_shape rp"
  by (simp add: rp_shape_def)

lemma cluster_shape_updates [simp]:
  "rp_shape rp = rp_shape (redundancy cl) \<Longrightarrow> cluster_shape (cl\<lparr>redundancy := rp\<rparr>) = cluster_shape cl"
  "cluster_shape (cl\<lparr>statistics_scheduled := t\<rparr>) = cluster_shape cl"
  by (simp_all add: cluster_shape_def)

lemma compute_shape: "compute lib rp s = (rp', r) \<Longrightarrow> rp_shape rp' = rp_shape rp"
  by (auto simp: compute_def getCodingTable_def Let_def split: sum.splits if_splits option.splits prod.splits)

lemma reconstructValue_shape: "reconstructValue lib rp g = (rp', g', r) \<Longrightarrow> rp_shape rp' = rp_shape rp"
  by (auto simp: reconstructValue_def Let_def split: sum.splits if_splits prod.splits dest: compute_shape)

lemma evaluate_results_shape: "evaluate_results lib rmap rp g = (rp', g', r) \<Longrightarrow> rp_shape rp' = rp_shape rp"
proof (induction lib rmap rp g arbitrary: rp' g' r rule: evaluate_results.induct)
  case (2 lib code n rmap rp g)
  show ?case
  proof (cases "numData rp \<le> n")
    case True
    obtain rp1 g1 r1 where e: "(if code = OK \<and> \<not> skip_value g then reconstructValue lib rp g else (rp, g, Inr ())) = (rp1, g1, r1)"
      by (metis prod_cases3)
    then have "rp_shape rp1 = rp_shape rp" by (auto split: if_splits dest: reconstructValue_shape)
    with 2(1) [OF True e [symmetric] refl] 2(3) True show ?thesis
      by (cases r1) (auto simp: e Let_def split: if_splits)
  next
    case False
    with 2 show ?thesis by simp
  qed
qed simp

lemma do_execute_shape: "do_execute env lib t rp g w = (rp', g', r, w') \<Longrightarrow> rp_shape rp' = rp_shape rp"
  by (auto simp: do_execute_def Let_def split: if_splits prod.splits dest: evaluate_results_shape)

lemma handoff_phase_shape: "handoff_phase env lib t rp g w = (rp', g', r, w') \<Longrightarrow> rp_shape rp' = rp_shape rp"
  by (auto simp: handoff_phase_def Let_def split: sum.splits if_splits prod.splits dest: do_execute_shape)

lemma GET_execute_shape: "GET_execute env lib t rp g w = (rp', g', r, w') \<Longrightarrow> rp_shape rp' = rp_shape rp"
  by (auto simp: GET_execute_def Let_def split: if_splits prod.splits dest!: do_execute_shape handoff_phase_shape)

lemma valueToStripe_shape: "valueToStripe lib cl x = (r, cl') \<Longrightarrow> cluster_shape cl' = cluster_shape cl"
  by (auto simp: valueToStripe_def Let_def split: sum.splits if_splits prod.splits dest!: compute_shape)

lemma do_put_shape: "do_put env lib cl k v x out m w = Some (r, cl', w') \<Longrightarrow> cluster_shape cl' = cluster_shape cl"
  by (auto simp: do_put_def Let_def split: option.splits sum.splits if_splits prod.splits dest!: valueToStripe_shape)

lemma concurrency_check_shape:
  assumes "concurrency_check env lib cl key skip observed start w = Some (r, cl', w')"
  shows "cluster_shape cl' = cluster_shape cl"
proof -
  have "\<forall>r cl' w'. y = (r, cl', w') \<longrightarrow> cluster_shape cl' = cluster_shape cl"
    if "concurrency_check env lib cl key skip observed start w = Some y" for y
    using that
  proof (induction rule: concurrency_check.raw_induct [rotated, consumes 1, case_names step])
    case (step f env lib cl key skip observed start w y)
    from step(2) show ?case
      by (auto split: prod.splits sum.splits if_splits dest!: step(1) GET_execute_shape)
  qed
  with assms show ?thesis by blast
qed

lemma do_get_shape:
  assumes "do_get env lib cl key version value skip w = Some (r, cl', w')"
  shows "cluster_shape cl' = cluster_shape cl"
proof -
  have "\<forall>r cl' w'. y = (r, cl', w') \<longrightarrow> cluster_shape cl' = cluster_shape cl"
    if "do_get env lib cl key version value skip w = Some y" for y
    using that
  proof (induction rule: do_get.raw_induct [rotated, consumes 1, case_names step])
    case (step f env lib cl key version x0 skip w y)
    from step(2) show ?case
      by (auto split: option.splits prod.splits sum.splits if_splits dest!: step(1) GET_execute_shape concurrency_check_shape)
  qed
  with assms show ?thesis by blast
qed

section \<open>The object behind the interface\<close>

definition keeps_shape :: "('w kinetic_state, 'a) kio \<Rightarrow> bool" where
  "keeps_shape m \<longleftrightarrow> (\<forall>s r s'. m s = Some (r, s') \<longrightarrow> cluster_shape (kinetic_object s') = cluster_shape (kinetic_object s))"

lemma keeps_shape_call:
  "(\<And>cl w r cl' w'. f cl w = Some (r, cl', w') \<Longrightarrow> cluster_shape cl' = cluster_shape cl) \<Longrightarrow> keeps_shape (kc_call f)"
  "keeps_shape (kc_call_const g)"
  by (auto simp: keeps_shape_def kc_call_def kc_call_const_def)

lemma keeps_shape_interface:
  "keeps_shape (ci_stats (KineticCluster_interface env lib cl))"
  "keeps_shape (ci_get (KineticCluster_interface env lib cl) k v x)"
  "keeps_shape (ci_get_version (KineticCluster_interface env lib cl) k v)"
  "keeps_shape (ci_put (KineticCluster_interface env lib cl) k v x out)"
  "keeps_shape (ci_put_forced (KineticCluster_interface env lib cl) k x out)"
  "keeps_shape (ci_remove (KineticCluster_interface env lib cl) k v)"
  "keeps_shape (ci_remove_forced (KineticCluster_interface env lib cl) k)"
  "keeps_shape (ci_flush (KineticCluster_interface env lib cl))"
  "keeps_shape (ci_range (KineticCluster_interface env lib cl) a b ks m)"
proof -
  show "keeps_shape (ci_stats (KineticCluster_interface env lib cl))"
    by (auto simp: keeps_shape_def KineticCluster_interface_def kc_stats_def cluster_stats_def Let_def split: prod.splits if_splits)
qed (auto simp: KineticCluster_interface_def get_version_only_def cluster_get_def put_versioned_def put_forced_def
    intro!: keeps_shape_call dest: do_get_shape do_put_shape)

end
