(* ===== verification/Cluster_Liveness.thy ===== *)
theory Cluster_Liveness
  imports Cluster_Storage Cluster_Shape
begin

text \<open>
  The loops of the cluster that wait for other clients end: the repair of a partial write, and with it
  every put and remove, and the check for concurrent writes of a get, which waits no longer than the
  operation timeout. It is assumed that time does not run backwards and passes while the caller
  sleeps, and for the writes that the cluster is in working order and some drive of the stripe answers.
\<close>

section \<open>Time\<close>

definition later :: "'w env \<Rightarrow> 'w \<Rightarrow> 'w \<Rightarrow> bool" where
  "later env w w' \<longleftrightarrow> env_now env w \<le> env_now env w'"

definition clock_ok :: "'w env \<Rightarrow> bool" where
  "clock_ok env \<longleftrightarrow>
     (\<forall>w c t k v m r. later env w (snd (env_put env c t k v m r w))) \<and>
     (\<forall>w c t k v m. later env w (snd (env_delete env c t k v m w))) \<and>
     (\<forall>w c t k. later env w (snd (env_get env c t k w))) \<and>
     (\<forall>w c t k. later env w (snd (env_get_version env c t k w))) \<and>
     (\<forall>w c t a b r m. later env w (snd (env_range env c t a b r m w))) \<and>
     (\<forall>w c t. later env w (snd (env_flush env c t w))) \<and>
     (\<forall>w c t ls. later env w (snd (env_log env c t ls w))) \<and>
     (\<forall>w c. later env w (env_set_error env c w)) \<and>
     (\<forall>w. later env w (snd (env_uuid env w))) \<and>
     (\<forall>w us. env_now env w + us \<le> env_now env (env_sleep env us w))"

lemma later_refl [simp]: "later env w w"
  by (simp add: later_def)

lemma later_trans [trans]: "later env w w1 \<Longrightarrow> later env w1 w2 \<Longrightarrow> later env w w2"
  by (simp add: later_def)

lemma send_later:
  assumes "clock_ok env" and "send_request env t c req cb s w = (x, w')"
  shows "later env w w'"
proof -
  have "w' = snd (send_request env t c req cb s w)" using assms(2) by simp
  then show ?thesis using assms(1) by (cases req) (simp_all add: send_request_def clock_ok_def)
qed

lemma set_error_later: "clock_ok env \<Longrightarrow> later env w (env_set_error env c w)"
  by (simp add: clock_ok_def)

lemma issue_later:
  assumes "clock_ok env" and "issue_operations env t os s w = (os', s', w')"
  shows "later env w w'"
  using assms(2)
proof (induction os arbitrary: s w os' s' w')
  case (Cons o' os)
  show ?case
  proof (cases "cb_done (the (op_callback o'))")
    case True
    obtain os2 s2 w2 where i: "issue_operations env t os s w = (os2, s2, w2)" by (metis prod_cases3)
    then have "w' = w2" using issue_skip [OF True i] Cons.prems by simp
    then show ?thesis using Cons.IH [OF i] by simp
  next
    case False
    obtain e cb s1 w1 where s: "send_request env t (op_connection o') (the (op_function o')) (the (op_callback o')) s w =
        ((e, cb, s1), w1)"
      by (metis prod_cases3 surj_pair)
    define w2 where "w2 = (if e then env_set_error env (op_connection o') w1 else w1)"
    obtain os2 s2 w3 where i: "issue_operations env t os s1 w2 = (os2, s2, w3)" by (metis prod_cases3)
    have "w' = w3" using issue_step [OF False s i [unfolded w2_def]] Cons.prems by simp
    moreover have "later env w1 w2" using set_error_later [OF assms(1)] by (simp add: w2_def)
    ultimately show ?thesis using send_later [OF assms(1) s] Cons.IH [OF i] later_trans by metis
  qed
qed simp

lemma execute_later:
  "clock_ok env \<Longrightarrow> executeOperationVector env t op w = (rmap, op', w') \<Longrightarrow> later env w w'"
  using issue_later by (fastforce simp: executeOperationVector_def split: prod.splits)

section \<open>Repairing a partial write\<close>

lemma query_versions_later: "clock_ok env \<Longrightarrow> query_versions env t rp n key w = (m, g, w') \<Longrightarrow> later env w w'"
  using execute_later by (fastforce simp: query_versions_def Let_def split: prod.splits)

lemma attemptStripeRepair_later:
  "clock_ok env \<Longrightarrow> attemptStripeRepair env fill t g op w = (b, op', w') \<Longrightarrow> later env w w'"
  using execute_later by (fastforce simp: attemptStripeRepair_def Let_def split: prod.splits)

lemma resolve_pass_wait:
  assumes clock: "clock_ok env" and pass: "resolve_pass env fill t rp key version op w = (Inr (Wait pos), op', w')"
  shows "env_now env w + 100000 \<le> env_now env w'" and "pos < rp_size rp"
proof -
  obtain m g w1 where q: "query_versions env t rp (num_connections op) key w = (m, g, w1)" by (metis prod_cases3)
  obtain b op1 w2 where r: "(if version = the (vc_version m) then attemptStripeRepair env fill t g op w1 else (False, op, w1)) =
      (b, op1, w2)" by (metis prod_cases3)
  have p: "version_position version g (rp_size rp) = Some pos" "w' = env_sleep env 100000 w2"
    using pass q r by (auto simp: resolve_pass_def Let_def split: option.splits if_splits prod.splits)
  then show "pos < rp_size rp" by (auto simp: version_position_def find_Some_iff)
  have "later env w w1" using query_versions_later [OF clock q] .
  also have "later env w1 w2"
    using r attemptStripeRepair_later [OF clock] by (auto split: if_splits)
  finally have "env_now env w \<le> env_now env w2" by (simp add: later_def)
  moreover have "env_now env w2 + 100000 \<le> env_now env w'" using clock p(2) by (simp add: clock_ok_def)
  ultimately show "env_now env w + 100000 \<le> env_now env w'" by simp
qed

text \<open>A drive that is there: every request for the version of the key is answered, with a version or with
  the message that there is none, whatever else happens to the drive.\<close>

definition answers_version :: "'w env \<Rightarrow> string \<Rightarrow> nat \<Rightarrow> bool" where
  "answers_version env key c \<longleftrightarrow>
     (\<forall>t w. \<exists>run w'. (\<exists>v. env_get_version env c t key w = (Answered run (Inr v), w')) \<or>
       (\<exists>e. env_get_version env c t key w = (Answered run (Inl e), w') \<and> statusCode e = REMOTE_NOT_FOUND))"

lemma most_frequent_positive:
  assumes "o' \<in> set os" and "version_equal skip o' o'" and "set os \<subseteq> set all"
  shows "0 < fst (most_frequent_loop skip all os best element)"
proof -
  have mono: "best \<le> fst (most_frequent_loop skip all os best element)" for os best element
    by (induction os arbitrary: best element) (auto simp: Let_def intro: le_trans less_imp_le)
  have found: "0 < length (filter (version_equal skip o') all)" using assms by (auto simp: filter_empty_conv)
  show ?thesis
    using assms(1)
  proof (induction os arbitrary: best element)
    case (Cons a os)
    show ?case
    proof (cases "length all div 2 < length (filter (version_equal skip a) all)")
      case True
      then show ?thesis by (auto simp: Let_def)
    next
      case stay: False
      show ?thesis
      proof (cases "a = o'")
        case True
        have "0 < fst (most_frequent_loop skip all os b e)" if "0 < b" for b e using mono [of b os e] that by simp
        with True stay found show ?thesis by (auto simp: Let_def) (metis length_greater_0_conv less_le_trans not_less)
      next
        case False
        then have "0 < fst (most_frequent_loop skip all os b e)" for b e using Cons by simp
        with stay show ?thesis by (simp add: Let_def)
      qed
    qed
  qed simp
qed

text \<open>The version query of a stripe with such a drive finds a most frequent version.\<close>

lemma query_versions_some:
  assumes codes: "codes_ok (env_code env)" and c: "c \<in> set (key_connections n key (rp_size rp) 0)" "answers_version env key c"
    and q: "query_versions env t rp n key w = (m, g, w')"
  shows "vc_version m \<noteq> None"
proof -
  define g0 where "g0 = StripeOperation_GET_new key True n rp True"
  note g0 = StripeOperation_GET_new_proj [of key True n rp True, folded g0_def, unfolded if_True]
  obtain rmap op w1 where e: "executeOperationVector env t (so_op (get_so g0)) w = (rmap, op, w1)" by (metis prod_cases3)
  define g1 where "g1 = g0\<lparr>get_so := (get_so g0)\<lparr>so_op := op\<rparr>\<rparr>"
  have m: "m = (if vc_frequency (mostFrequentVersion g1) < rmap_get (env_code env) rmap REMOTE_NOT_FOUND
      then \<lparr>vc_version = Some [], vc_frequency = rmap_get (env_code env) rmap REMOTE_NOT_FOUND\<rparr> else mostFrequentVersion g1)"
    using q by (auto simp: query_versions_def Let_def g0_def [symmetric] e g1_def [symmetric] split: if_splits)
  obtain i where i: "i < length (get_ops g0)" "op_connection (get_ops g0 ! i) = c"
    using c(1) g0(1) by (auto simp: in_set_conv_nth fresh_get_def fresh_operation_def)
  from execute_answers [OF e] obtain ws where ws: "length (operations op) = length (get_ops g0)"
    "(operations op ! i, ws ! Suc i) =
      executed_operation env t (\<lambda>cb. answered_callback (cb_data cb)) (get_ops g0 ! i) (ws ! i)" using i(1) by blast
  have new: "get_ops g0 ! i = fresh_get True key c"
    using i g0(1) by (auto simp: fresh_get_def fresh_operation_def)
  let ?cb = "the (op_callback (operations op ! i))"
  obtain run w2 where "(\<exists>v. env_get_version env c t key (ws ! i) = (Answered run (Inr v), w2)) \<or>
      (\<exists>e. env_get_version env c t key (ws ! i) = (Answered run (Inl e), w2) \<and> statusCode e = REMOTE_NOT_FOUND)"
    using c(2) unfolding answers_version_def by blast
  then have cb: "cb_status ?cb = ok_status \<or> statusCode (cb_status ?cb) = REMOTE_NOT_FOUND"
    using ws(2) unfolding new
    by (auto simp: executed_operation_def fresh_get_def fresh_operation_def get_request_def finished_def drive_answer_def answer_defs)
  have mem: "operations op ! i \<in> set (operations op)" "?cb \<in> set (op_callbacks (operations op))"
    using i(1) ws(1) by (auto simp: op_callbacks_def)
  show ?thesis
  proof (cases "cb_status ?cb = ok_status")
    case True
    then have eq: "version_equal True ?cb ?cb" by (simp add: version_equal_def getVersionEqual_def getResult_def status_ok_def)
    have "skip_value g1" "get_ops g1 = operations op" using g0(4) by (simp_all add: g1_def)
    with most_frequent_positive [OF mem(2) eq subset_refl, of 0 None] have "vc_version (mostFrequentVersion g1) \<noteq> None"
      by (auto simp: mostFrequentVersion_def Let_def split: prod.splits)
    then show ?thesis using m by simp
  next
    case False
    with cb have "operations op ! i \<in> set (filter (\<lambda>o'. op_code o' = REMOTE_NOT_FOUND) (operations op))"
      using mem(1) by (simp add: op_code_def getResult_def)
    then have "0 < count_code REMOTE_NOT_FOUND (operations op)" unfolding count_code_def by (rule length_pos_if_in_set)
    then have "0 < rmap_get (env_code env) rmap REMOTE_NOT_FOUND"
      using execute_rmap [OF e] rmap_of_count [OF codes] by simp
    moreover have "vc_version (mostFrequentVersion g1) \<noteq> None" if "0 < vc_frequency (mostFrequentVersion g1)"
      using that by (auto simp: mostFrequentVersion_def Let_def split: prod.splits if_splits)
    ultimately show ?thesis using m by (auto split: if_splits)
  qed
qed

text \<open>A way of filling an operation that leaves the connections of the cluster alone, as put and remove do.\<close>

definition keeps_connections :: "fill \<Rightarrow> bool" where
  "keeps_connections fill \<longleftrightarrow> (\<forall>i v m op. num_connections (fill i v m op) = num_connections op)"

lemma keeps_connections_fill: "keeps_connections (PUT_fillOperation key v st)" "keeps_connections (DEL_fillOperation key)"
  by (simp_all add: keeps_connections_def PUT_fillOperation_def DEL_fillOperation_def bind_operation_def Let_def split: prod.split)

lemma attemptStripeRepair_connections:
  assumes "keeps_connections fill" and "attemptStripeRepair env fill t g op w = (b, op', w')"
  shows "num_connections op' = num_connections op"
proof -
  have "num_connections (fold (\<lambda>opnum op.
      if statusCode (getResult (the (op_callback (operations op ! opnum)))) = REMOTE_VERSION_MISMATCH
      then case getVersionAt g opnum of Some drive_version \<Rightarrow> fill opnum drive_version REQUIRE_SAME_VERSION op | None \<Rightarrow> op
      else op) is op) = num_connections op" for "is" op
    using assms(1) by (induction "is" arbitrary: op) (auto simp: keeps_connections_def split: option.split)
  then show ?thesis
    using assms(2) execute_rmap by (fastforce simp: attemptStripeRepair_def Let_def split: prod.splits)
qed

lemma resolve_pass_answered:
  assumes codes: "codes_ok (env_code env)" and fill: "keeps_connections fill"
    and c: "c \<in> set (key_connections (num_connections op) key (rp_size rp) 0)" "answers_version env key c"
    and pass: "resolve_pass env fill t rp key version op w = (s, op', w')"
  shows "(\<exists>x. s = Inr x) \<and> num_connections op' = num_connections op"
proof -
  obtain m g w1 where q: "query_versions env t rp (num_connections op) key w = (m, g, w1)" by (metis prod_cases3)
  obtain mf where mf: "vc_version m = Some mf" using query_versions_some [OF codes c q] by blast
  obtain b op1 w2 where r: "(if version = mf then attemptStripeRepair env fill t g op w1 else (False, op, w1)) = (b, op1, w2)"
    by (metis prod_cases3)
  have "num_connections op1 = num_connections op"
    using r attemptStripeRepair_connections [OF fill] by (auto split: if_splits)
  with pass q mf r show ?thesis
    by (auto simp: resolve_pass_def Let_def split: option.splits if_splits prod.splits)
qed

lemma resolve_loop_returns:
  assumes clock: "clock_ok env" and codes: "codes_ok (env_code env)" and fill: "keeps_connections fill"
    and c: "c \<in> set (key_connections (num_connections op) key (rp_size rp) 0)" "answers_version env key c"
  shows "\<exists>op' w'. resolve_loop env fill t rp key version start op w = Some (Inr (), op', w')"
  using c(1)
proof (induction "start + t * rp_size rp * 1000000 - env_now env w" arbitrary: op w rule: less_induct)
  case less
  obtain s op1 w1 where p: "resolve_pass env fill t rp key version op w = (s, op1, w1)" by (metis prod_cases3)
  note answered = resolve_pass_answered [OF codes fill less.prems c(2) p]
  show ?case
  proof (cases "\<exists>pos. s = Inr (Wait pos) \<and> env_now env w1 < start + t * (pos + 1) * 1000000")
    case True
    then obtain pos where pos: "s = Inr (Wait pos)" "env_now env w1 < start + t * (pos + 1) * 1000000" by blast
    note W = resolve_pass_wait [OF clock p [unfolded pos(1)]]
    have "t * (pos + 1) * 1000000 \<le> t * rp_size rp * 1000000"
      using W(2) by (intro mult_le_mono order_refl) simp
    then have "start + t * rp_size rp * 1000000 - env_now env w1 < start + t * rp_size rp * 1000000 - env_now env w"
      using W(1) pos(2) by linarith
    from less.hyps [OF this] answered less.prems show ?thesis
      using p pos by (simp add: resolve_loop.simps [of env fill t rp key version start op w])
  next
    case False
    then show ?thesis
      using p answered
      by (auto simp: resolve_loop.simps [of env fill t rp key version start op w] split: resolve_step.split prod.split)
  qed
qed

lemma resolvePartialWrite_returns:
  assumes "clock_ok env" and "codes_ok (env_code env)" and "keeps_connections fill"
    and "c \<in> set (key_connections (num_connections op) key (rp_size rp) 0)" "answers_version env key c"
  obtains op' w' where "resolvePartialWrite env fill t rp key version op w = Some (Inr (), op', w')"
  using resolve_loop_returns [OF assms] unfolding resolvePartialWrite_def by blast

lemma PUT_execute_returns:
  assumes "clock_ok env" and "codes_ok (env_code env)"
    and c: "c \<in> set (key_connections (num_connections (so_op (put_so p))) (so_key (put_so p)) (rp_size rp) 0)"
      "answers_version env (so_key (put_so p)) c"
  shows "\<exists>st p' w'. PUT_execute env t rp p w = Some (Inr st, p', w')"
proof -
  obtain rm op w1 where e: "executeOperationVector env t (so_op (put_so p)) w = (rm, op, w1)" by (metis prod_cases3)
  obtain b m where b: "partial_put (env_code env) rm = (b, m)" by fastforce
  have "c \<in> set (key_connections (num_connections op) (so_key (put_so p)) (rp_size rp) 0)"
    using c(1) execute_rmap [OF e] by simp
  then obtain op' w' where "resolvePartialWrite env (PUT_fillOperation (so_key (put_so p)) (put_version p) (put_values p)) t rp
      (so_key (put_so p)) (put_version p) op w1 = Some (Inr (), op', w')"
    by (rule resolvePartialWrite_returns [OF assms(1,2) keeps_connections_fill(1) _ c(2)])
  then show ?thesis by (simp add: PUT_execute_def Let_def e b split: prod.split)
qed

lemma DEL_execute_returns:
  assumes "clock_ok env" and "codes_ok (env_code env)"
    and c: "c \<in> set (key_connections (num_connections (so_op so)) (so_key so) (rp_size rp) 0)" "answers_version env (so_key so) c"
  shows "\<exists>st so' w'. DEL_execute env t rp so w = Some (Inr st, so', w')"
proof -
  obtain rm op w1 where e: "executeOperationVector env t (so_op so) w = (rm, op, w1)" by (metis prod_cases3)
  obtain b m where b: "partial_del (env_code env) rm = (b, m)" by fastforce
  have "c \<in> set (key_connections (num_connections op) (so_key so) (rp_size rp) 0)"
    using c(1) execute_rmap [OF e] by simp
  then obtain op' w' where "resolvePartialWrite env (DEL_fillOperation (so_key so)) t rp (so_key so) [] op w1 = Some (Inr (), op', w')"
    by (rule resolvePartialWrite_returns [OF assms(1,2) keeps_connections_fill(2) _ c(2)])
  then show ?thesis by (simp add: DEL_execute_def Let_def e b split: prod.split)
qed

lemma do_put_returns:
  assumes clock: "clock_ok env" and codes: "codes_ok (env_code env)" and cl: "cluster_ok lib cl"
    and len: "length x \<le> nData (redundancy cl) * chunkCapacity cl"
    and c: "c \<in> set (stripe_drives cl k)" "answers_version env k c"
  shows "\<exists>st out cl' w'. do_put env lib cl (Some k) (Some v) (Some x) version_out mode w = Some (Inr (st, out), cl', w')"
proof -
  have cap: "rp_ok lib (redundancy cl)" "0 < chunkCapacity cl" "chunkCapacity cl < 2 ^ 31"
    using cl by (simp_all add: cluster_ok_def)
  obtain ca st where s: "valueToStripe lib cl x = (Inr st, cl\<lparr>redundancy := (redundancy cl)\<lparr>cache := ca\<rparr>\<rparr>)"
    "length st = rp_size (redundancy cl)" using valueToStripe_spec [OF cap len] by blast
  define rp where "rp = (redundancy cl)\<lparr>cache := ca\<rparr>"
  obtain uuid w1 where u: "env_uuid env w = (uuid, w1)" by fastforce
  obtain p where p: "StripeOperation_PUT_new k (uuidGenerateEncodeSize uuid (length x)) v st mode (connections cl) rp = Inr p"
    "so_key (put_so p) = k" "num_connections (so_op (put_so p)) = connections cl"
    by (rule PUT_new_proj [of st rp]) (use s(2) in \<open>simp_all add: rp_def rp_size_def\<close>)
  have "c \<in> set (key_connections (num_connections (so_op (put_so p))) (so_key (put_so p)) (rp_size rp) 0)"
    "answers_version env (so_key (put_so p)) c" using c p(2,3) by (simp_all add: rp_def rp_size_def)
  from PUT_execute_returns [OF clock codes this] obtain r p' w2 where
    "PUT_execute env (operation_timeout cl) rp p w1 = Some (Inr r, p', w2)" by blast
  then show ?thesis using p(1) by (simp add: do_put_def s(1) u Let_def rp_def split: prod.split)
qed

lemma do_remove_returns:
  assumes clock: "clock_ok env" and codes: "codes_ok (env_code env)"
    and c: "c \<in> set (stripe_drives cl k)" "answers_version env k c"
  shows "\<exists>st w'. do_remove env cl (Some k) (Some v) mode w = Some (Inr st, w')"
proof -
  let ?so = "StripeOperation_DEL_new k v mode (connections cl) (rp_size (redundancy cl)) 0"
  have keep: "num_connections (fold (\<lambda>i. DEL_fillOperation k i v mode) is op) = num_connections op" for "is" op
    using keeps_connections_fill(2) by (induction "is" arbitrary: op) (simp_all add: keeps_connections_def)
  have "so_key ?so = k" "num_connections (so_op ?so) = connections cl"
    by (simp_all add: StripeOperation_DEL_new_def Let_def keep stripe_expandOperationVector_def
        KineticClusterStripeOperation_new_def KineticClusterOperation_new_def)
  with c have "c \<in> set (key_connections (num_connections (so_op ?so)) (so_key ?so) (rp_size (redundancy cl)) 0)"
    "answers_version env (so_key ?so) c" by simp_all
  from DEL_execute_returns [OF clock codes this] obtain st so w2 where
    "DEL_execute env (operation_timeout cl) (redundancy cl) ?so w = Some (Inr st, so, w2)" by blast
  then show ?thesis by (simp add: do_remove_def Let_def)
qed

section \<open>Waiting in a get\<close>

lemma do_execute_later: "clock_ok env \<Longrightarrow> do_execute env lib t rp g w = (rp', g', r, w') \<Longrightarrow> later env w w'"
  using execute_later by (fastforce simp: do_execute_def Let_def split: prod.splits)

lemma insertHandoffChunks_later: "clock_ok env \<Longrightarrow> insertHandoffChunks env g w = (r, w') \<Longrightarrow> later env w w'"
  using execute_later by (fastforce simp: insertHandoffChunks_def Let_def split: prod.splits option.splits)

lemma handoff_phase_later:
  assumes clock: "clock_ok env" and h: "handoff_phase env lib t rp g w = (rp', g', r, w')"
  shows "later env w w'"
proof -
  obtain i w1 where i: "insertHandoffChunks env g w = (i, w1)" by fastforce
  note L = insertHandoffChunks_later [OF clock i]
  consider "w' = w1" | g1 rp2 g2 r2 where "do_execute env lib t rp g1 w1 = (rp2, g2, r2, w')"
    using h i by (auto simp: handoff_phase_def Let_def split: sum.splits prod.splits if_splits)
  then show ?thesis
  proof cases
    case 2
    from L do_execute_later [OF clock this] show ?thesis by (rule later_trans)
  qed (use L in simp)
qed

lemma GET_execute_later:
  assumes clock: "clock_ok env" and g: "GET_execute env lib t rp g w = (rp', g', r, w')"
  shows "later env w w'"
proof -
  obtain rp1 g1 r1 w1 where 1: "do_execute env lib t rp g w = (rp1, g1, r1, w1)" by (metis prod_cases4)
  obtain rp2 g2 r2 w2 where 2: "do_execute env lib t rp1 (add_parities rp1 g1) w1 = (rp2, g2, r2, w2)" by (metis prod_cases4)
  obtain rp3 g3 r3 w3 where 3: "handoff_phase env lib t rp2 g2 w2 = (rp3, g3, r3, w3)" by (metis prod_cases4)
  have "later env w w1" by (rule do_execute_later [OF clock 1])
  moreover have "later env w1 w2" by (rule do_execute_later [OF clock 2])
  moreover have "later env w2 w3" by (rule handoff_phase_later [OF clock 3])
  moreover have "w' \<in> {w1, w2, w3}"
    using g 1 2 3 by (auto simp: GET_execute_def split: if_splits)
  ultimately show ?thesis by (auto simp: later_def)
qed

text \<open>One poll of the stripe, and how the polling ends: \<open>w0\<close> is the moment before the last poll, which
  is never after the deadline.\<close>

definition poll ::
  "'w env \<Rightarrow> isal \<Rightarrow> KineticCluster \<Rightarrow> string \<Rightarrow> bool \<Rightarrow> redundancy_provider \<Rightarrow> 'w \<Rightarrow>
   redundancy_provider \<times> StripeOperation_GET \<times> kinetic_status res \<times> 'w" where
  "poll env lib cl key skip rp w =
     GET_execute env lib (operation_timeout cl) rp (StripeOperation_GET_new key skip (connections cl) rp False)
       (env_sleep env 200000 w)"

lemma poll_redundancy [simp]: "poll env lib (cl\<lparr>redundancy := rp\<rparr>) = poll env lib cl"
  by (intro ext) (simp add: poll_def)

lemma redundancy_only:
  "redundancy (cl\<lparr>redundancy := rp\<rparr>) = rp"
  "operation_timeout (cl\<lparr>redundancy := rp\<rparr>) = operation_timeout cl"
  "cl\<lparr>redundancy := rp, redundancy := rp'\<rparr> = cl\<lparr>redundancy := rp'\<rparr>"
  by simp_all

lemma poll_later:
  assumes clock: "clock_ok env" and p: "poll env lib cl key skip rp w = (rp', g, r, w')"
  shows "env_now env w + 200000 \<le> env_now env w'"
proof -
  have "env_now env w + 200000 \<le> env_now env (env_sleep env 200000 w)" using clock by (simp add: clock_ok_def)
  also have "\<dots> \<le> env_now env w'" using GET_execute_later [OF clock p [unfolded poll_def]] by (simp add: later_def)
  finally show ?thesis .
qed

lemma concurrency_check_ends:
  assumes clock: "clock_ok env" and "env_now env w \<le> start + operation_timeout cl * 1000000"
  shows "\<exists>rp0 w0 rp g r w'. later env w w0 \<and> env_now env w0 \<le> start + operation_timeout cl * 1000000 \<and>
    rp_shape rp0 = rp_shape (redundancy cl) \<and> poll env lib cl key skip rp0 w0 = (rp, g, r, w') \<and>
    concurrency_check env lib cl key skip observed start w =
      Some (res_bind r (\<lambda>st. Inr (\<not> VersionCount_eq observed (mostFrequentVersion g))), cl\<lparr>redundancy := rp\<rparr>, w') \<and>
    ((\<exists>st. r = Inr st) \<and> VersionCount_eq observed (mostFrequentVersion g) \<longrightarrow>
      start + operation_timeout cl * 1000000 \<le> env_now env w')"
  using assms(2)
proof (induction "start + operation_timeout cl * 1000000 - env_now env w" arbitrary: cl w rule: less_induct)
  case less
  obtain rp g r w1 where e: "poll env lib cl key skip (redundancy cl) w = (rp, g, r, w1)"
    by (metis prod_cases4)
  note step = concurrency_check.simps [of env lib cl key skip observed start w, folded poll_def]
  show ?case
  proof (cases "(\<exists>st. r = Inr st) \<and> VersionCount_eq observed (mostFrequentVersion g) \<and>
      env_now env w1 < start + operation_timeout cl * 1000000")
    case True
    let ?cl = "cl\<lparr>redundancy := rp\<rparr>"
    have t: "env_now env w + 200000 \<le> env_now env w1" by (rule poll_later [OF clock e])
    have next_step: "concurrency_check env lib cl key skip observed start w = concurrency_check env lib ?cl key skip observed start w1"
      using True by (auto simp: step e)
    have "start + operation_timeout ?cl * 1000000 - env_now env w1 < start + operation_timeout cl * 1000000 - env_now env w"
      "env_now env w1 \<le> start + operation_timeout ?cl * 1000000" using t True by auto
    note IH = less.hyps [OF this]
    have "rp_shape rp = rp_shape (redundancy cl)" by (rule GET_execute_shape [OF e [unfolded poll_def]])
    with IH t show ?thesis
      unfolding next_step by (simp add: later_def) (meson le_trans nat_le_linear add_leE)
  next
    case False
    then have "concurrency_check env lib cl key skip observed start w =
        Some (res_bind r (\<lambda>st. Inr (\<not> VersionCount_eq observed (mostFrequentVersion g))), cl\<lparr>redundancy := rp\<rparr>, w1)"
      by (cases r) (auto simp: step e)
    with e False less.prems show ?thesis
      by (intro exI [of _ "redundancy cl"] exI [of _ w] exI [of _ rp] exI [of _ g] exI [of _ r] exI [of _ w1]) auto
  qed
qed

section \<open>Properties\<close>

text \<open>C9: A put and a remove return with a status. Whatever the drives answer to the writes and whatever
  other clients write meanwhile, the loop that repairs a partial write is left and the call ends
  neither in an exception nor in undefined behaviour, provided that the cluster is in working order (so that the code has
  at most 255 chunks), that the value fits into a stripe, that at least one drive of the stripe answers requests for
  the version of the key (without an answer the loop follows a null version), and that the clock does not run
  backwards and advances while the loop sleeps.\<close>

theorem writes_return:
  assumes "clock_ok env" and "codes_ok (env_code env)" and "cluster_ok lib cl"
    and "length value \<le> nData (redundancy cl) * chunkCapacity cl"
    and "c \<in> set (stripe_drives cl key)" and "answers_version env key c"
  shows "(\<exists>st out cl' w1. do_put env lib cl (Some key) (Some version) (Some value) version_out mode w = Some (Inr (st, out), cl', w1)) \<and>
    (\<exists>st w1. do_remove env cl (Some key) (Some version) mode w = Some (Inr st, w1))"
proof
  show "\<exists>st out cl' w1. do_put env lib cl (Some key) (Some version) (Some value) version_out mode w = Some (Inr (st, out), cl', w1)"
    by (rule do_put_returns [OF assms])
  show "\<exists>st w1. do_remove env cl (Some key) (Some version) mode w = Some (Inr st, w1)"
    by (rule do_remove_returns [OF assms(1,2,5,6)])
qed

lemma sim_clock_ok: "clock_ok sim_env"
  by (simp add: clock_ok_def later_def sim_env_def sim_put_def sim_delete_def sim_get_def sim_get_version_def
      sim_range_def sim_log_def Let_def split: option.split)

text \<open>Drive 1 holds the version of another client and rejects the put that the other drives accept.\<close>

definition contested_env :: "sim env" where
  "contested_env = sim_env\<lparr>env_get_version := (\<lambda>c t k w. if c = 1 then (Answered True (Inr ''other''), w) else sim_get_version c t k w),
     env_put := (\<lambda>c t k v m r w. if c = 1 then (Answered True (Inl (mk_status REMOTE_VERSION_MISMATCH [])), w) else sim_put c t k v m r w)\<rparr>"

theorem writes_return_witness:
  "\<exists>st out cl w. do_put contested_env sum_lib demo_cluster (Some ''key'') (Some []) (Some ''hello'') None REQUIRE_SAME_VERSION
     (sim_init []) = Some (Inr (st, out), cl, w)"
proof -
  have "clock_ok contested_env"
    using sim_clock_ok by (simp add: clock_ok_def later_def contested_env_def) (simp add: sim_env_def)
  moreover have "codes_ok (env_code contested_env)" using sim_codes by (simp add: contested_env_def)
  moreover have "answers_version contested_env ''key'' 1" by (auto simp: answers_version_def contested_env_def)
  moreover have "1 \<in> set (stripe_drives demo_cluster ''key'')" by (simp add: demo_drives)
  ultimately show ?thesis
    using writes_return [OF _ _ demo_cluster_ok, of contested_env "''hello''" 1 "''key''"] by simp
qed

text \<open>C10: A get that finds a stripe in an inconsistent state waits for other clients for at most the operation
  timeout. It polls the stripe, and no poll begins later than the timeout after the attempt that
  found the inconsistency. When the last poll shows other versions, the get starts over; when it shows
  the versions of the first attempt again, the timeout has passed and the get returns the
  error of its first attempt, with version and value of the caller untouched. An exception of the last
  poll is passed on.\<close>

theorem inconsistent_get_waits:
  assumes "clock_ok env"
    and "GET_execute env lib (operation_timeout cl) (redundancy cl)
           (StripeOperation_GET_new k skip (connections cl) (redundancy cl) False) w = (rp, g, Inr st, w1)"
    and "statusCode st = CLIENT_IO_ERROR" and "vc_frequency (mostFrequentVersion g) \<noteq> 0"
  shows "\<exists>rp0 w0 rp' g' r w2 w3.
    env_now env w1 \<le> env_now env w0 \<and> env_now env w0 \<le> env_now env w1 + operation_timeout cl * 1000000 \<and>
    rp_shape rp0 = rp_shape (redundancy cl) \<and>
    GET_execute env lib (operation_timeout cl) rp0 (StripeOperation_GET_new k skip (connections cl) rp0 False)
      (env_sleep env 200000 w0) = (rp', g', r, w2) \<and>
    (case r of
       Inl e \<Rightarrow> e \<noteq> Undefined_behaviour \<longrightarrow> do_get env lib cl (Some k) version value skip w = Some (Inl e, cl\<lparr>redundancy := rp'\<rparr>, w2)
     | Inr _ \<Rightarrow>
         if VersionCount_eq (mostFrequentVersion g) (mostFrequentVersion g')
         then env_now env w1 + operation_timeout cl * 1000000 \<le> env_now env w2 \<and>
              do_get env lib cl (Some k) version value skip w = Some (Inr (st, version, value), cl\<lparr>redundancy := rp'\<rparr>, w3)
         else do_get env lib cl (Some k) version value skip w =
              do_get env lib (cl\<lparr>redundancy := rp'\<rparr>) (Some k) version value skip w2)"
proof -
  let ?cl = "cl\<lparr>redundancy := rp\<rparr>" and ?obs = "mostFrequentVersion g"
  have "env_now env w1 \<le> env_now env w1 + operation_timeout ?cl * 1000000" by simp
  from concurrency_check_ends [OF assms(1) this, of lib k skip ?obs, unfolded poll_redundancy redundancy_only]
  obtain rp0 w0 rp' g' r w2 where p: "later env w1 w0" "env_now env w0 \<le> env_now env w1 + operation_timeout cl * 1000000"
    "poll env lib cl k skip rp0 w0 = (rp', g', r, w2)"
    "concurrency_check env lib ?cl k skip ?obs (env_now env w1) w1 =
      Some (res_bind r (\<lambda>st. Inr (\<not> VersionCount_eq ?obs (mostFrequentVersion g'))), cl\<lparr>redundancy := rp'\<rparr>, w2)"
    "(\<exists>st. r = Inr st) \<and> VersionCount_eq ?obs (mostFrequentVersion g') \<longrightarrow>
      env_now env w1 + operation_timeout cl * 1000000 \<le> env_now env w2" "rp_shape rp0 = rp_shape rp" by blast
  have shape: "rp_shape rp = rp_shape (redundancy cl)" by (rule GET_execute_shape [OF assms(2)])
  define w3 where "w3 = snd (get_finish env st g version value w2)"
  have fin: "get_finish env st g version value w2 = ((st, version, value), w3)"
    using assms(3) by (simp add: get_finish_def w3_def status_ok_def)
  show ?thesis
    by (rule exI [of _ rp0], rule exI [of _ w0], rule exI [of _ rp'], rule exI [of _ g'], rule exI [of _ r],
        rule exI [of _ w2], rule exI [of _ w3])
      (use p(1,2,5,6) p(3) [unfolded poll_def] fin shape in
        \<open>cases r; simp add: later_def do_get.simps [of env lib cl "Some k" version value skip w] assms(2-4) p(4)\<close>)
qed

subsection \<open>A stripe that stays torn\<close>

text \<open>Two drives of which one always answers the same version and the other is gone.\<close>

definition torn_env :: "nat env" where
  "torn_env =
     \<lparr>env_put = (\<lambda>c t k v m r w. (NotConnected, w)), env_delete = (\<lambda>c t k v m w. (NotConnected, w)),
      env_get = (\<lambda>c t k w. (NotConnected, w)),
      env_get_version = (\<lambda>c t k w. (if c = 0 then Answered True (Inr ''v'') else NotConnected, w)),
      env_range = (\<lambda>c t a b r m w. (NotConnected, w)), env_flush = (\<lambda>c t w. (NotConnected, w)),
      env_log = (\<lambda>c t ls w. (NotConnected, w)), env_set_error = (\<lambda>c w. w), env_now = (\<lambda>w. w),
      env_sleep = (\<lambda>us w. w + us), env_uuid = (\<lambda>w. ([], w)), env_code = sim_code\<rparr>"

definition torn_cluster :: KineticCluster where
  "torn_cluster = demo_cluster\<lparr>connections := 2, redundancy := \<lparr>nData = 2, nParity = 0, encode_matrix = [], cache = (\<lambda>p. None)\<rparr>\<rparr>"

lemma torn_drives: "key_connections 2 ''key'' 2 0 = [1, 0]"
proof -
  have "MurmurHash3_x86_32 ''key'' 0 = 0xe29c6a44" by code_simp
  then have "first_connection 2 ''key'' 0 = 1" by (simp add: first_connection_def)
  then show ?thesis by (simp add: key_connections_ring upt_conv_Cons)
qed


lemmas torn_simps = torn_env_def numData_def numParity_def executeOperationVector_def issue_operations.simps expire_operations.simps
  fresh_get_def fresh_operation_def get_request_def get_callback_def send_request_def conclude_def OnResult_def GetVersionCallback_Success_def
  finished_def rmap_of_def getResult_def CompareStatusCode_toInt_def Let_def

definition torn_op :: "nat \<Rightarrow> KineticAsyncOperation" where
  "torn_op c =
     \<lparr>op_function = Some (Req_GetVersion ''key''),
      op_callback = Some
        \<lparr>cb_status = (if c = 0 then ok_status else mk_status CLIENT_IO_ERROR ''Connection not available.''),
         cb_done = True, cb_data = GetVersionCallback (if c = 0 then ''v'' else [])\<rparr>,
      op_connection = c\<rparr>"

lemma torn_clock: "clock_ok torn_env"
  by (simp add: clock_ok_def later_def torn_env_def)

lemma torn_execute:
  assumes "operations op \<in> {map (fresh_get True ''key'') [1, 0], [torn_op 1, torn_op 0]}"
  shows "\<exists>s. executeOperationVector torn_env t op w = ([(OK, 1), (CLIENT_IO_ERROR, 1)],
      op\<lparr>operations := [torn_op 1, torn_op 0], op_sync := s\<rparr>, w)"
proof (cases "operations op = [torn_op 1, torn_op 0]")
  case True
  then have "executeOperationVector torn_env t op w = ([(OK, 1), (CLIENT_IO_ERROR, 1)], op, w)"
    by (subst execute_finished) (simp_all add: torn_op_def rmap_of_def torn_env_def getResult_def CompareStatusCode_toInt_def)
  with True show ?thesis by (intro exI [of _ "op_sync op"]) simp
qed (use assms in \<open>auto simp: torn_simps torn_op_def\<close>)

lemma torn_frequency: "get_ops g = [torn_op 1, torn_op 0] \<Longrightarrow> skip_value g \<Longrightarrow> mostFrequentVersion g = \<lparr>vc_version = Some ''v'', vc_frequency = 1\<rparr>"
  by (simp add: mostFrequentVersion_def torn_op_def op_callbacks_def version_equal_def getVersionEqual_def getResult_def status_ok_def cb_getVersion_def)

lemma torn_attempt:
  assumes "get_ops g \<in> {map (fresh_get True ''key'') [1, 0], [torn_op 1, torn_op 0]}" "skip_value g" "nData rp = 2"
  shows "\<exists>g'. do_execute torn_env lib t rp g w = (rp, g', Inl Runtime_error, w) \<and> get_ops g' = [torn_op 1, torn_op 0] \<and> skip_value g' \<and>
    vc_version (get_version g') = Some ''v'' \<and> num_connections (so_op (get_so g')) = num_connections (so_op (get_so g))"
proof -
  obtain s where e: "executeOperationVector torn_env t (so_op (get_so g)) w = ([(OK, 1), (CLIENT_IO_ERROR, 1)],
      (so_op (get_so g))\<lparr>operations := [torn_op 1, torn_op 0], op_sync := s\<rparr>, w)"
    using torn_execute [OF assms(1)] by blast
  show ?thesis
    using assms(2,3) by (simp add: do_execute_def e torn_frequency Let_def numData_def)
qed

lemma torn_get:
  assumes "nData rp = 2" "nParity rp = 0"
  shows "\<exists>g st. GET_execute torn_env lib t rp (StripeOperation_GET_new ''key'' True 2 rp False) w = (rp, g, Inr st, w) \<and>
    statusCode st = CLIENT_IO_ERROR \<and> mostFrequentVersion g = \<lparr>vc_version = Some ''v'', vc_frequency = 1\<rparr>"
proof -
  let ?g = "StripeOperation_GET_new ''key'' True 2 rp False"
  note g = StripeOperation_GET_new_proj [of "''key''" True 2 rp False, unfolded if_False numData_def assms(1) torn_drives]
  obtain g1 where g1: "do_execute torn_env lib t rp ?g w = (rp, g1, Inl Runtime_error, w)" "get_ops g1 = [torn_op 1, torn_op 0]" "skip_value g1"
    "num_connections (so_op (get_so g1)) = 2"
    using torn_attempt [of ?g rp lib t w] g assms(1) by auto
  have fill: "map (fill_empty True k) [torn_op 1, torn_op 0] = [torn_op 1, torn_op 0]" for k
    by (rule fill_filled) (auto simp: torn_op_def)
  have "get_ops (add_parities rp g1) = [torn_op 1, torn_op 0]" "skip_value (add_parities rp g1)"
    "num_connections (so_op (get_so (add_parities rp g1))) = 2"
    using g1(2-4) assms fill by (simp_all add: add_parities_def Let_def GET_fillOperationVector_eq stripe_expandOperationVector_def
      numData_def numParity_def set_operations_def key_connections_def)
  then obtain g2 where g2: "do_execute torn_env lib t rp (add_parities rp g1) w = (rp, g2, Inl Runtime_error, w)" "get_ops g2 = [torn_op 1, torn_op 0]" "skip_value g2"
    "vc_version (get_version g2) = Some ''v''" "num_connections (so_op (get_so g2)) = 2"
    using torn_attempt [of "add_parities rp g1" rp lib t w] assms(1) by auto
  have r: "\<exists>s. executeOperationVector torn_env 5 (ClusterRangeOp_new a b 100 2) w = ([(CLIENT_IO_ERROR, 2)], s, w) \<and> (\<forall>i < 2. cb_getKeys (the (op_callback (operations s ! i))) = None) \<and> length (operations s) = 2" for a b
    by (simp add: ClusterRangeOp_new_def bind_all_eq expandOperationVector_def KineticClusterOperation_new_def torn_simps
      RangeCallback_Success_def upt_rec cb_getKeys_def nth_Cons' numeral_2_eq_2)
  obtain s where s: "executeOperationVector torn_env 5 (ClusterRangeOp_new (''handoff='' @ so_key (get_so g2) @ ''version='' @ ''v'')
      (''handoff='' @ so_key (get_so g2) @ ''version='' @ ''v'' @ ''~'') 100 2) w = ([(CLIENT_IO_ERROR, 2)], s, w)"
    "\<forall>i < 2. cb_getKeys (the (op_callback (operations s ! i))) = None" "length (operations s) = 2" using r by blast
  have "insertHandoffChunks torn_env g2 w = (Inr (False, g2), w)"
    unfolding insertHandoffChunks_def g2(4,5) option.case Let_def s(1) prod.case using s(2,3) by (simp add: upt_rec)
  then have "\<exists>st. handoff_phase torn_env lib t rp g2 w = (rp, g2, Inr st, w) \<and> statusCode st = CLIENT_IO_ERROR"
    by (simp add: handoff_phase_def)
  then show ?thesis using torn_frequency [OF g2(2,3)]
    by (auto simp: GET_execute_def g1(1) g2(1) attempt_failed_def)
qed

text \<open>The get polls for ten seconds and gives up.\<close>

theorem inconsistent_get_waits_witness:
  "\<exists>st cl w. do_get torn_env sum_lib torn_cluster (Some ''key'') None None True 0 = Some (Inr (st, None, None), cl, w) \<and>
     statusCode st = CLIENT_IO_ERROR"
proof -
  let ?get = "\<lambda>rp. GET_execute torn_env sum_lib (operation_timeout torn_cluster) rp
    (StripeOperation_GET_new ''key'' True (connections torn_cluster) rp False)"
  have sizes: "connections torn_cluster = 2" "nData (redundancy torn_cluster) = 2" "nParity (redundancy torn_cluster) = 0"
    by (simp_all add: torn_cluster_def)
  obtain g st where g: "?get (redundancy torn_cluster) 0 = (redundancy torn_cluster, g, Inr st, 0)" "statusCode st = CLIENT_IO_ERROR"
    "mostFrequentVersion g = \<lparr>vc_version = Some ''v'', vc_frequency = 1\<rparr>"
    using torn_get [OF sizes(2,3), of sum_lib "operation_timeout torn_cluster" 0] unfolding sizes(1) by blast
  from inconsistent_get_waits [OF torn_clock g(1,2), of None None] g(3)
  obtain rp0 w0 rp' g' r w2 w3 where p: "rp_shape rp0 = rp_shape (redundancy torn_cluster)"
    "?get rp0 (env_sleep torn_env 200000 w0) = (rp', g', r, w2)"
    "case r of
       Inl e \<Rightarrow> e \<noteq> Undefined_behaviour \<longrightarrow> do_get torn_env sum_lib torn_cluster (Some ''key'') None None True 0 = Some (Inl e, torn_cluster\<lparr>redundancy := rp'\<rparr>, w2)
     | Inr _ \<Rightarrow>
         if VersionCount_eq (mostFrequentVersion g) (mostFrequentVersion g')
         then env_now torn_env 0 + operation_timeout torn_cluster * 1000000 \<le> env_now torn_env w2 \<and>
              do_get torn_env sum_lib torn_cluster (Some ''key'') None None True 0 =
                Some (Inr (st, None, None), torn_cluster\<lparr>redundancy := rp'\<rparr>, w3)
         else do_get torn_env sum_lib torn_cluster (Some ''key'') None None True 0 =
              do_get torn_env sum_lib (torn_cluster\<lparr>redundancy := rp'\<rparr>) (Some ''key'') None None True w2" by auto
  have "nData rp0 = 2" "nParity rp0 = 0"
    using arg_cong [OF p(1), of nData] arg_cong [OF p(1), of nParity] sizes by (simp_all add: rp_shape_def)
  from torn_get [OF this, of sum_lib "operation_timeout torn_cluster" "env_sleep torn_env 200000 w0"] p(2,3) g(2,3) sizes(1)
  show ?thesis by (auto simp: VersionCount_eq_def)
qed

end
