(* ===== verification/Data_Block.thy ===== *)
theory Data_Block
  imports Cluster_Interface
begin

text \<open>
  \<^verbatim>\<open>DataBlock\<close> (src/DataBlock.cc): one block of a file in memory. The state of an operation is the
  block together with the state of the cluster behind it. A block reads the value of its key lazily
  and trusts what it read for one second, collects writes and truncations in a local copy, and
  merges them into the remote value when a flush meets a newer version.

  The clock is a parameter that reads the time of the world in microseconds; the default time point
  is 0. A \<^verbatim>\<open>std::string\<close> member function called out of range throws \<open>Out_of_range\<close>, and following a
  null pointer is \<open>Undefined_behaviour\<close>. The mutex is dropped: an operation runs with the lock held
  from its first to its last statement, so the operations on one block are atomic with respect to each other.
\<close>

section \<open>Model\<close>

datatype Mode = STANDARD | CREATE

record 's DataBlock =
  mode :: Mode
  cluster :: "'s ClusterInterface option"
  key :: string
  version :: "string option"
  remote_value :: "string option"
  local_value :: "string option"
  value_size :: nat
  updates :: "(nat \<times> nat) list"
  timestamp :: nat

type_synonym 's block_state = "'s DataBlock \<times> 's"
type_synonym ('s, 'a) block_op = "('s block_state, 'a) kio"

text \<open>The expiration time, in milliseconds.\<close>

definition expiration_time :: int where
  "expiration_time = 1000"

subsection \<open>Access to the block, the clock and the cluster\<close>

definition block :: "('s, 's DataBlock) block_op" where
  "block = asks fst"

definition set_block :: "('s DataBlock \<Rightarrow> 's DataBlock) \<Rightarrow> ('s, unit) block_op" where
  "set_block f = modify (\<lambda>(b, s). (f b, s))"

definition clock :: "('s \<Rightarrow> nat) \<Rightarrow> ('s, nat) block_op" where
  "clock now = asks (\<lambda>(b, s). now s)"

definition deref :: "'a option \<Rightarrow> ('s, 'a) kio" where
  "deref p = (case p of None \<Rightarrow> throw Undefined_behaviour | Some x \<Rightarrow> ret x)"

definition invoke :: "('s ClusterInterface \<Rightarrow> ('s, 'a) kio) \<Rightarrow> ('s, 'a) block_op" where
  "invoke f = bnd block (\<lambda>b. bnd (deref (cluster b)) (\<lambda>ci. zoom snd (\<lambda>s (b, _). (b, s)) (f ci)))"

subsection \<open>Parts of std::string\<close>

text \<open>\<^verbatim>\<open>resize(n)\<close> pads with zero bytes. \<^verbatim>\<open>replace(pos, n, s)\<close> replaces at most \<open>n\<close> bytes
  from \<open>pos\<close>, and \<^verbatim>\<open>copy(buf, n, pos)\<close> delivers at most \<open>n\<close> bytes from \<open>pos\<close>; both throw when
  the position is past the end. A \<^verbatim>\<open>replace\<close> with a part of another string also checks that
  string's position.\<close>

definition std_resize :: "nat \<Rightarrow> string \<Rightarrow> string" where
  "std_resize n s = take n s @ replicate (n - length s) (CHR 0x00)"

definition std_replace :: "nat \<Rightarrow> nat \<Rightarrow> string \<Rightarrow> string \<Rightarrow> string res" where
  "std_replace pos n t s =
     (if length s < pos then Inl Out_of_range else Inr (take pos s @ t @ drop (pos + n) s))"

definition std_replace_part :: "nat \<Rightarrow> nat \<Rightarrow> string \<Rightarrow> nat \<Rightarrow> nat \<Rightarrow> string \<Rightarrow> string res" where
  "std_replace_part pos n t tpos tn s =
     (if length s < pos \<or> length t < tpos then Inl Out_of_range
      else std_replace pos n (take tn (drop tpos t)) s)"

definition std_copy :: "string \<Rightarrow> nat \<Rightarrow> nat \<Rightarrow> string res" where
  "std_copy s n pos = (if length s < pos then Inl Out_of_range else Inr (take n (drop pos s)))"

subsection \<open>Construction\<close>

definition DataBlock_new ::
  "('s \<Rightarrow> nat) \<Rightarrow> 's ClusterInterface option \<Rightarrow> string \<Rightarrow> Mode \<Rightarrow> 's \<Rightarrow> 's DataBlock res" where
  "DataBlock_new now c k m s =
     (case c of
        None \<Rightarrow> Inl (System_error io_error)
      | Some ci \<Rightarrow>
          Inr \<lparr>mode = m, cluster = c, key = k, version = None, remote_value = None, local_value = None,
               value_size = 0, updates = [], timestamp = (if m = CREATE then now s else 0)\<rparr>)"

definition capacity :: "('s, nat) block_op" where
  "capacity = bnd block (\<lambda>b. bnd (deref (cluster b)) (\<lambda>ci. ret (max_value_size (ci_limits ci))))"

text \<open>The check for a missing cluster reads the member, not the argument, and the remote value is
  not reset.\<close>

definition reassign :: "'s ClusterInterface option \<Rightarrow> string \<Rightarrow> Mode \<Rightarrow> ('s, unit) block_op" where
  "reassign c k m =
     bnd block (\<lambda>b.
       if cluster b = None then throw (System_error io_error)
       else
         seq (set_block (\<lambda>b. b\<lparr>key := k, mode := m, cluster := c, value_size := 0, version := None,
                updates := [], timestamp := 0\<rparr>))
         (if local_value b = None then ret ()
          else bnd capacity (\<lambda>n. set_block (\<lambda>b. b\<lparr>local_value := Some (replicate n (CHR ''0''))\<rparr>))))"

definition getIdentity :: "('s, string) block_op" where
  "getIdentity = bnd block (\<lambda>b. bnd (deref (cluster b)) (\<lambda>ci. ret (key b @ ci_instanceId ci)))"

subsection \<open>Reading from the cluster\<close>

text \<open>\<^verbatim>\<open>duration_cast<milliseconds>\<close> rounds towards zero.\<close>

definition not_expired :: "nat \<Rightarrow> nat \<Rightarrow> bool" where
  "not_expired t ts \<longleftrightarrow> (if t < ts then True else int ((t - ts) div 1000) < expiration_time)"

definition validateVersion :: "('s \<Rightarrow> nat) \<Rightarrow> ('s, bool) block_op" where
  "validateVersion now =
     bnd block (\<lambda>b. bnd (clock now) (\<lambda>t.
       if not_expired t (timestamp b) then ret True
       else if version b = None \<and> mode b = STANDARD then ret False
       else bnd (invoke (\<lambda>ci. ci_get_version ci (Some (key b)) None)) (\<lambda>(status, remote_version).
         if (version b = None \<and> statusCode status = REMOTE_NOT_FOUND) \<or>
            (status_ok status \<and> remote_version \<noteq> None \<and> version b \<noteq> None \<and> version b = remote_version)
         then bnd (clock now) (\<lambda>t. seq (set_block (\<lambda>b. b\<lparr>timestamp := t\<rparr>)) (ret True))
         else ret False)))"

text \<open>The loop that merges the updates into the freshly read value.\<close>

fun merge_updates :: "string option \<Rightarrow> (nat \<times> nat) list \<Rightarrow> nat \<Rightarrow> string \<Rightarrow> (nat \<times> string) res" where
  "merge_updates lv [] vs merged = Inr (vs, merged)"
| "merge_updates lv ((off, len) # us) vs merged =
     (if len = 0 then merge_updates lv us off merged
      else case lv of
        None \<Rightarrow> Inl Undefined_behaviour
      | Some l \<Rightarrow>
          res_bind (std_replace_part off len l off len merged)
            (merge_updates lv us (max (size_add off len) vs)))"

text \<open>What follows a successful request: the time is taken, and local updates are merged into the
  remote value.\<close>

definition merge_local :: "('s \<Rightarrow> nat) \<Rightarrow> ('s, unit) block_op" where
  "merge_local now =
     bnd (clock now) (\<lambda>t.
     seq (set_block (\<lambda>b. b\<lparr>timestamp := t\<rparr>))
     (bnd block (\<lambda>b.
      if updates b = [] then set_block (\<lambda>b. b\<lparr>local_value := None\<rparr>)
      else case remote_value b of
        None \<Rightarrow> ret ()
      | Some x \<Rightarrow>
          bnd capacity (\<lambda>cap.
          bnd (lift_res (merge_updates (local_value b) (updates b) (value_size b)
                 (if length x < cap then std_resize cap x else x))) (\<lambda>(vs, merged).
          set_block (\<lambda>b. b\<lparr>value_size := vs, remote_value := None, local_value := Some merged\<rparr>))))))"

definition getRemoteValue :: "('s \<Rightarrow> nat) \<Rightarrow> ('s, unit) block_op" where
  "getRemoteValue now =
     bnd block (\<lambda>b.
     bnd (invoke (\<lambda>ci. ci_get ci (Some (key b)) (version b) (remote_value b))) (\<lambda>(status, v, rv).
     seq (set_block (\<lambda>b. b\<lparr>version := v, remote_value := rv\<rparr>))
     (if \<not> status_ok status \<and> statusCode status \<noteq> REMOTE_NOT_FOUND then throw (System_error io_error)
      else
        seq (set_block (\<lambda>b.
               if statusCode status = REMOTE_NOT_FOUND then b\<lparr>version := None\<rparr>
               else b\<lparr>value_size := (case remote_value b of None \<Rightarrow> 0 | Some x \<Rightarrow> length x)\<rparr>))
        (merge_local now))))"

text \<open>The second half of a read: the bytes are copied from memory. The last argument is the content of the caller's buffer.\<close>

definition serve :: "nat \<Rightarrow> nat \<Rightarrow> string \<Rightarrow> ('s, string) block_op" where
  "serve off len buf = bnd block (\<lambda>b.
     let buf = (if value_size b < size_add off len then replicate len (CHR 0x00) @ drop len buf else buf)
     in if off < value_size b then
          let copy_length = min len (value_size b - off)
          in bnd (deref (case local_value b of Some l \<Rightarrow> Some l | None \<Rightarrow> remote_value b)) (\<lambda>v.
             bnd (lift_res (std_copy v copy_length off)) (\<lambda>bytes. ret (bytes @ drop (length bytes) buf)))
        else ret buf)"

text \<open>\<open>block_read\<close> gets the bytes that the buffer holds before the call and returns what it holds after
  it; \<open>None\<close> is a null buffer.\<close>

definition block_read :: "('s \<Rightarrow> nat) \<Rightarrow> string option \<Rightarrow> nat \<Rightarrow> nat \<Rightarrow> ('s, string) block_op" where
  "block_read now buffer off len =
     (case buffer of
        None \<Rightarrow> throw (System_error invalid_argument)
      | Some buf \<Rightarrow>
          bnd capacity (\<lambda>cap.
           if cap < size_add off len then throw (System_error invalid_argument)
           else
             bnd (validateVersion now) (\<lambda>valid.
             seq (if valid then ret () else getRemoteValue now)
             (serve off len buf))))"

subsection \<open>Changes in memory\<close>

text \<open>The string that a write goes to and what is left of the remote value.\<close>

definition write_target :: "nat \<Rightarrow> 's DataBlock \<Rightarrow> string \<times> string option" where
  "write_target cap b =
     (case local_value b of
        Some l \<Rightarrow> (l, remote_value b)
      | None \<Rightarrow> (case remote_value b of
           Some x \<Rightarrow> (x, None)
         | None \<Rightarrow> (replicate cap (CHR ''0''), None)))"

definition block_write :: "string option \<Rightarrow> nat \<Rightarrow> nat \<Rightarrow> ('s, unit) block_op" where
  "block_write buffer offset len =
     (case buffer of
        None \<Rightarrow> throw (System_error invalid_argument)
      | Some buf \<Rightarrow>
          bnd capacity (\<lambda>cap.
           if cap < size_add offset len then throw (System_error invalid_argument)
           else
             seq (set_block (\<lambda>b. b\<lparr>value_size := max (size_add offset len) (value_size b)\<rparr>))
             (bnd block (\<lambda>b.
              let (lv, rv) = write_target cap b;
                  lv = (if length lv < value_size b then std_resize cap lv else lv)
              in seq (set_block (\<lambda>b. b\<lparr>local_value := Some lv, remote_value := rv\<rparr>))
                 (bnd (lift_res (std_replace offset len (take len buf) lv)) (\<lambda>lv.
                  set_block (\<lambda>b. b\<lparr>local_value := Some lv, updates := updates b @ [(offset, len)]\<rparr>)))))))"

definition block_truncate :: "nat \<Rightarrow> ('s, unit) block_op" where
  "block_truncate offset =
     bnd capacity (\<lambda>cap.
       if cap < offset then throw (System_error invalid_argument)
       else set_block (\<lambda>b. b\<lparr>value_size := offset, updates := updates b @ [(offset, 0)]\<rparr>))"

subsection \<open>Flushing\<close>

text \<open>The body of the loop: refresh when needed, then put the local or the remote value.\<close>

definition flush_refresh :: "('s \<Rightarrow> nat) \<Rightarrow> status_code \<Rightarrow> ('s, unit) block_op" where
  "flush_refresh now status =
     bnd block (\<lambda>b.
       if status = REMOTE_VERSION_MISMATCH \<or> (version b = None \<and> mode b = STANDARD) then getRemoteValue now
       else ret ())"

definition flush_put :: "('s, kinetic_status) block_op" where
  "flush_put =
     bnd block (\<lambda>b.
     seq (case local_value b of
            Some l \<Rightarrow> set_block (\<lambda>b. b\<lparr>local_value := Some (if value_size b \<noteq> length l then std_resize (value_size b) l else l)\<rparr>)
          | None \<Rightarrow> set_block (\<lambda>b. b\<lparr>remote_value := (case remote_value b of None \<Rightarrow> Some [] | Some x \<Rightarrow> Some x)\<rparr>))
     (bnd block (\<lambda>b.
      bnd (invoke (\<lambda>ci. ci_put ci (Some (key b)) (version b)
             (case local_value b of Some l \<Rightarrow> Some l | None \<Rightarrow> remote_value b) (version b))) (\<lambda>(status, v).
      seq (set_block (\<lambda>b. b\<lparr>version := v\<rparr>)) (ret status)))))"

partial_function (option) flush_loop ::
  "('s \<Rightarrow> nat) \<Rightarrow> status_code \<Rightarrow> 's block_state \<Rightarrow> (kinetic_status res \<times> 's block_state) option" where
  "flush_loop now status s =
     bnd (seq (flush_refresh now status) flush_put) (\<lambda>st.
       if statusCode st = REMOTE_VERSION_MISMATCH then flush_loop now (statusCode st) else ret st) s"

declare flush_loop.simps [code]

definition block_flush :: "('s \<Rightarrow> nat) \<Rightarrow> ('s, unit) block_op" where
  "block_flush now =
     bnd (flush_loop now CLIENT_INTERNAL_ERROR) (\<lambda>status.
       if \<not> status_ok status then throw (System_error io_error)
       else bnd (clock now) (\<lambda>t. set_block (\<lambda>b. b\<lparr>updates := [], timestamp := t\<rparr>)))"

definition dirty :: "'s DataBlock \<Rightarrow> bool" where
  "dirty b =
     (if updates b \<noteq> [] then True
      else if version b = None \<and> mode b = CREATE then True
      else False)"

definition block_size :: "('s \<Rightarrow> nat) \<Rightarrow> ('s, nat) block_op" where
  "block_size now =
     bnd (validateVersion now) (\<lambda>valid.
     seq (if valid then ret () else getRemoteValue now) (bnd block (\<lambda>b. ret (value_size b))))"


section \<open>Lemmas\<close>

subsection \<open>Symbolic execution\<close>

lemma bnd_block [simp]: "bnd block f (b, s) = f b (b, s)"
  by (simp add: block_def)

lemma bnd_clock [simp]: "bnd (clock now) f (b, s) = f (now s) (b, s)"
  by (simp add: clock_def)

lemma set_block_apply [simp]: "set_block f (b, s) = Some (Inr (), f b, s)"
  by (simp add: set_block_def modify_def)

lemma bnd_deref [simp]:
  "bnd (deref (Some x)) f = f x"
  "bnd (deref None) f = throw Undefined_behaviour"
  by (simp_all add: deref_def)

lemma bnd_invoke:
  assumes "cluster b = Some ci"
  shows "bnd (invoke g) f (b, s) =
     (case g ci s of
        None \<Rightarrow> None
      | Some (Inl e, s') \<Rightarrow> Some (Inl e, b, s')
      | Some (Inr x, s') \<Rightarrow> f x (b, s'))"
  using assms
  by (auto simp: invoke_def bnd_def zoom_def ret_def block_def asks_def deref_def
      split: option.splits sum.splits)

lemma bnd_capacity:
  assumes "cluster b = Some ci"
  shows "bnd capacity f (b, s) = f (max_value_size (ci_limits ci)) (b, s)"
  using assms by (simp add: capacity_def)

lemma ret_apply [simp]: "ret x s = Some (Inr x, s)"
  by (simp add: ret_def)

lemma throw_apply [simp]: "throw e s = Some (Inl e, s)"
  by (simp add: throw_def)

subsection \<open>Strings\<close>

lemma length_std_resize [simp]: "length (std_resize n s) = n"
  by (simp add: std_resize_def)

lemma nth_std_resize:
  "i < n \<Longrightarrow> std_resize n s ! i = (if i < length s then s ! i else CHR 0x00)"
  by (auto simp: std_resize_def nth_append min_def)

lemma std_resize_shrink: "n \<le> length s \<Longrightarrow> std_resize n s = take n s"
  by (simp add: std_resize_def)

lemma std_replace_same_length:
  assumes "length t = n" and "pos + n \<le> length s"
  shows "std_replace pos n t s = Inr (take pos s @ t @ drop (pos + n) s)"
    and "length (take pos s @ t @ drop (pos + n) s) = length s"
  using assms by (auto simp: std_replace_def)

lemma nth_replaced:
  assumes "length t = n" and "pos + n \<le> length s" and "i < length s"
  shows "(take pos s @ t @ drop (pos + n) s) ! i = (if pos \<le> i \<and> i < pos + n then t ! (i - pos) else s ! i)"
  using assms by (auto simp: nth_append min_def)

subsection \<open>The bytes of a block\<close>

text \<open>What a reader of the block sees: the bytes of the local or else of the remote value up to the size of
  the block, and zero bytes after it.\<close>

definition buffer :: "'s DataBlock \<Rightarrow> string" where
  "buffer b = (case local_value b of Some l \<Rightarrow> l | None \<Rightarrow> (case remote_value b of Some x \<Rightarrow> x | None \<Rightarrow> []))"

definition block_byte :: "'s DataBlock \<Rightarrow> nat \<Rightarrow> char" where
  "block_byte b i = (if i < value_size b then buffer b ! i else CHR 0x00)"

definition block_inv :: "'s ClusterInterface \<Rightarrow> 's DataBlock \<Rightarrow> bool" where
  "block_inv ci b \<longleftrightarrow>
     cluster b = Some ci \<and> max_value_size (ci_limits ci) < 18446744073709551616 \<and>
     value_size b \<le> max_value_size (ci_limits ci) \<and>
     value_size b \<le> length (buffer b) \<and> length (buffer b) \<le> max_value_size (ci_limits ci)"

lemma write_target_size [simp]: "write_target cap (b\<lparr>value_size := n\<rparr>) = write_target cap b"
  by (simp add: write_target_def split: option.split)

lemma block_write_ok:
  assumes "block_inv ci b" and "off + len \<le> max_value_size (ci_limits ci)" and "len \<le> length buf"
  obtains b' where "block_write (Some buf) off len (b, s) = Some (Inr (), b', s)"
    and "block_inv ci b'"
    and "value_size b' = max (off + len) (value_size b)"
    and "updates b' = updates b @ [(off, len)]"
    and "\<And>i. off \<le> i \<Longrightarrow> i < off + len \<Longrightarrow> block_byte b' i = buf ! (i - off)"
    and "\<And>i. i < value_size b \<Longrightarrow> \<not> (off \<le> i \<and> i < off + len) \<Longrightarrow> block_byte b' i = block_byte b i"
    and "local_value b' \<noteq> None"
    and "b' = b\<lparr>value_size := value_size b', local_value := local_value b',
                remote_value := remote_value b', updates := updates b'\<rparr>"
proof -
  let ?cap = "max_value_size (ci_limits ci)"
  let ?vs = "max (off + len) (value_size b)"
  have cl: "cluster b = Some ci" and cap: "?cap < 18446744073709551616" and vs: "?vs \<le> ?cap"
    and small: "size_add off len = off + len"
    using assms(1,2) by (auto simp: block_inv_def size_add_def)
  obtain l0 rv where l0: "write_target ?cap b = (l0, rv)"
    and l0_buf: "\<And>i. i < value_size b \<Longrightarrow> l0 ! i = buffer b ! i"
    and l0_len: "value_size b \<le> length l0" "length l0 \<le> ?cap"
    using assms(1) that by (force simp: block_inv_def buffer_def write_target_def split: option.splits)
  define l1 where "l1 = (if length l0 < ?vs then std_resize ?cap l0 else l0)"
  have l1: "?vs \<le> length l1" "length l1 \<le> ?cap"
    using vs l0_len by (auto simp: l1_def)
  have l1_buf: "l1 ! i = buffer b ! i" if "i < value_size b" for i
    using that l0_buf [OF that] l0_len vs by (auto simp: l1_def nth_std_resize)
  define l2 where "l2 = take off l1 @ take len buf @ drop (off + len) l1"
  have tl: "length (take len buf) = len" "off + len \<le> length l1"
    using assms(3) l1 by auto
  note l2 = std_replace_same_length [OF tl, folded l2_def]
  define b' where "b' = b\<lparr>value_size := ?vs, local_value := Some l2, remote_value := rv,
      updates := updates b @ [(off, len)]\<rparr>"
  have b'_bytes: "block_byte b' i = (if off \<le> i \<and> i < off + len then buf ! (i - off) else l1 ! i)" if "i < ?vs" for i
    using that nth_replaced [OF tl, of i] l1(1)
    by (auto simp: block_byte_def buffer_def b'_def l2_def [symmetric])
  show ?thesis
  proof (rule that [of b'])
    show "block_write (Some buf) off len (b, s) = Some (Inr (), b', s)"
      using assms(2) cl small l0 l2(1)
      by (simp add: block_write_def bnd_capacity l1_def [symmetric] b'_def)
    show "block_inv ci b'"
      using vs cap cl l1 l2(2) by (simp add: block_inv_def b'_def buffer_def)
    show "block_byte b' i = buf ! (i - off)" if "off \<le> i" "i < off + len" for i
      using that b'_bytes [of i] by simp
    show "block_byte b' i = block_byte b i" if "i < value_size b" "\<not> (off \<le> i \<and> i < off + len)" for i
    proof -
      have "i < ?vs" using that(1) by simp
      then show ?thesis
        unfolding b'_bytes [OF \<open>i < ?vs\<close>] using that l1_buf [OF that(1)] by (auto simp: block_byte_def)
    qed
  qed (simp_all add: b'_def)
qed


lemma serve_ok:
  assumes "block_inv ci b" and "off + len \<le> max_value_size (ci_limits ci)"
  shows "serve off len buf (b, s) = Some (Inr (map (block_byte b) [off..<off + len] @ drop len buf), b, s)"
proof -
  have small: "size_add off len = off + len"
    using assms by (auto simp: block_inv_def size_add_def)
  have len_buf: "value_size b \<le> length (buffer b)"
    using assms by (simp add: block_inv_def)
  show ?thesis
  proof (cases "off < value_size b")
    case False
    then have "map (block_byte b) [off..<off + len] = replicate len (CHR 0x00)"
      by (intro nth_equalityI) (auto simp: block_byte_def)
    with False small show ?thesis
      by (cases "len = 0") (auto simp: serve_def)
  next
    case True
    then obtain v where v: "(case local_value b of Some l \<Rightarrow> Some l | None \<Rightarrow> remote_value b) = Some v"
      "buffer b = v"
      using len_buf by (auto simp: buffer_def split: option.splits)
    let ?n = "min len (value_size b - off)"
    have copy: "std_copy v ?n off = Inr (take ?n (drop off v))" "length (take ?n (drop off v)) = ?n"
      using True len_buf v(2) by (auto simp: std_copy_def)
    have bytes: "map (block_byte b) [off..<off + len] = take ?n (drop off v) @ replicate (len - ?n) (CHR 0x00)"
      using True len_buf v(2) by (intro nth_equalityI) (auto simp: block_byte_def nth_append)
    show ?thesis
      using True small copy v(1) unfolding bytes
      by (auto simp: serve_def min_def)
  qed
qed

lemma block_read_fresh:
  assumes "block_inv ci b" and "off + len \<le> max_value_size (ci_limits ci)"
    and "validateVersion now (b, s) = Some (Inr True, b', s')" and "block_inv ci b'"
  shows "block_read now (Some buf) off len (b, s) =
     Some (Inr (map (block_byte b') [off..<off + len] @ drop len buf), b', s')"
proof -
  have "cluster b = Some ci" "size_add off len = off + len"
    using assms(1,2) by (auto simp: block_inv_def size_add_def)
  with assms serve_ok [OF assms(4,2), of buf s'] show ?thesis
    by (simp add: block_read_def bnd_capacity)
qed

lemma validate_not_expired:
  assumes "not_expired (now s) (timestamp b)"
  shows "validateVersion now (b, s) = Some (Inr True, b, s)"
  using assms by (simp add: validateVersion_def)


subsection \<open>Merging\<close>

definition covered :: "(nat \<times> nat) list \<Rightarrow> nat \<Rightarrow> bool" where
  "covered us i \<longleftrightarrow> (\<exists>(off, len) \<in> set us. off \<le> i \<and> i < off + len)"

definition merged_size :: "(nat \<times> nat) list \<Rightarrow> nat \<Rightarrow> nat" where
  "merged_size us n = fold (\<lambda>(off, len) n. if len = 0 then off else max (off + len) n) us n"

definition updates_within :: "nat \<Rightarrow> (nat \<times> nat) list \<Rightarrow> bool" where
  "updates_within n us \<longleftrightarrow> (\<forall>(off, len) \<in> set us. off + len \<le> n)"

lemma covered_simps [simp]:
  "covered [] i = False"
  "covered ((off, len) # us) i \<longleftrightarrow> off \<le> i \<and> i < off + len \<or> covered us i"
  by (auto simp: covered_def)

lemma merged_size_simps [simp]:
  "merged_size [] n = n"
  "merged_size ((off, len) # us) n = merged_size us (if len = 0 then off else max (off + len) n)"
  by (simp_all add: merged_size_def)

lemma updates_within_simps [simp]:
  "updates_within n []"
  "updates_within n ((off, len) # us) \<longleftrightarrow> off + len \<le> n \<and> updates_within n us"
  by (simp_all add: updates_within_def)

lemma merged_size_le: "updates_within n us \<Longrightarrow> m \<le> n \<Longrightarrow> merged_size us m \<le> n"
  by (induction us arbitrary: m) auto

lemma merge_updates_ok:
  assumes "updates_within (length l) us" and "updates_within (length m) us"
    and "length m < 18446744073709551616"
  shows "merge_updates (Some l) us vs m =
     Inr (merged_size us vs, map (\<lambda>i. if covered us i then l ! i else m ! i) [0..<length m])"
  using assms
proof (induction us arbitrary: vs m)
  case Nil
  then show ?case by (simp add: map_nth)
next
  case (Cons u us)
  obtain off len where u: "u = (off, len)" by (cases u)
  show ?case
  proof (cases "len = 0")
    case True
    then show ?thesis
      using Cons.IH [of m off] Cons.prems u by auto
  next
    case False
    let ?t = "take len (drop off l)"
    let ?m = "take off m @ ?t @ drop (off + len) m"
    have t: "length ?t = len" "off + len \<le> length m"
      using Cons.prems u by auto
    have rep: "std_replace_part off len l off len m = Inr ?m"
      using Cons.prems u std_replace_same_length(1) [OF t] by (auto simp: std_replace_part_def)
    have len_m: "length ?m = length m"
      by (rule std_replace_same_length(2) [OF t])
    have "merge_updates (Some l) us (max (off + len) vs) ?m =
        Inr (merged_size us (max (off + len) vs), map (\<lambda>i. if covered us i then l ! i else ?m ! i) [0..<length m])"
      using Cons.IH [of ?m] Cons.prems u unfolding len_m by simp
    moreover have "map (\<lambda>i. if covered us i then l ! i else ?m ! i) [0..<length m] =
        map (\<lambda>i. if covered (u # us) i then l ! i else m ! i) [0..<length m]"
      using nth_replaced [OF t] Cons.prems(1) u by (auto simp: nth_append)
    moreover have "size_add off len = off + len"
      using t(2) Cons.prems(3) by (simp add: size_add_small)
    ultimately show ?thesis
      using False rep u by (simp del: append_assoc)
  qed
qed

lemma merge_truncations:
  assumes "\<forall>(off, len) \<in> set us. len = 0"
  shows "merge_updates lv us vs m = Inr (merged_size us vs, m)"
  using assms by (induction us arbitrary: vs) auto

lemma getRemoteValue_clean:
  assumes "cluster b = Some ci" and "updates b = []" and "status_ok st"
    and "ci_get ci (Some (key b)) (version b) (remote_value b) s = Some (Inr (st, v, Some x), s')"
  shows "getRemoteValue now (b, s) =
     Some (Inr (), b\<lparr>version := v, remote_value := Some x, value_size := length x,
                     timestamp := now s', local_value := None\<rparr>, s')"
proof -
  have "statusCode st \<noteq> REMOTE_NOT_FOUND"
    using assms(3) by (auto simp: status_ok_def)
  then show ?thesis
    using assms by (simp add: getRemoteValue_def merge_local_def bnd_invoke)
qed

lemma getRemoteValue_merge:
  assumes "block_inv ci b" and "local_value b = Some l" and "updates b \<noteq> []" and "status_ok st"
    and "ci_get ci (Some (key b)) (version b) (remote_value b) s = Some (Inr (st, v, Some x), s')"
    and "updates_within (length l) (updates b)" and "length x \<le> max_value_size (ci_limits ci)"
  shows "getRemoteValue now (b, s) =
     Some (Inr (), b\<lparr>version := v, remote_value := None, value_size := merged_size (updates b) (length x),
       timestamp := now s',
       local_value := Some (map (\<lambda>i. if covered (updates b) i then l ! i
                                  else if i < length x then x ! i else CHR 0x00)
                             [0..<max_value_size (ci_limits ci)])\<rparr>, s')"
proof -
  let ?cap = "max_value_size (ci_limits ci)"
  let ?x = "if length x < ?cap then std_resize ?cap x else x"
  have ci: "cluster b = Some ci" and len: "length l \<le> ?cap" "length ?x = ?cap" "?cap < 18446744073709551616"
    using assms by (auto simp: block_inv_def buffer_def)
  have nf: "statusCode st \<noteq> REMOTE_NOT_FOUND"
    using assms(4) by (auto simp: status_ok_def)
  have within: "updates_within (length ?x) (updates b)"
    using assms(6) len by (fastforce simp: updates_within_def)
  have eq: "map (\<lambda>i. if covered (updates b) i then l ! i else ?x ! i) [0..<length ?x] =
      map (\<lambda>i. if covered (updates b) i then l ! i else if i < length x then x ! i else CHR 0x00) [0..<?cap]"
    unfolding len(2) using assms(7) by (auto simp: nth_std_resize)
  have "merge_updates (Some l) (updates b) (length x) ?x = Inr (merged_size (updates b) (length x),
      map (\<lambda>i. if covered (updates b) i then l ! i else if i < length x then x ! i else CHR 0x00) [0..<?cap])"
    unfolding eq [symmetric] by (rule merge_updates_ok [OF assms(6) within]) (simp only: len)
  then show ?thesis
    using assms ci nf by (simp add: getRemoteValue_def merge_local_def bnd_invoke bnd_capacity)
qed


subsection \<open>Flushing\<close>

text \<open>The value that a block stands for.\<close>

definition block_bytes :: "'s DataBlock \<Rightarrow> string" where
  "block_bytes b = map (block_byte b) [0..<value_size b]"

lemma block_bytes_take:
  "block_inv ci b \<Longrightarrow> block_bytes b = take (value_size b) (buffer b)"
  by (rule nth_equalityI) (auto simp: block_bytes_def block_inv_def block_byte_def)

lemma flush_put_local:
  assumes "block_inv ci b" and "local_value b = Some l"
  shows "flush_put (b, s) =
     (case ci_put ci (Some (key b)) (version b) (Some (block_bytes b)) (version b) s of
        None \<Rightarrow> None
      | Some (Inl e, s') \<Rightarrow> Some (Inl e, b\<lparr>local_value := Some (block_bytes b)\<rparr>, s')
      | Some (Inr (st, v), s') \<Rightarrow> Some (Inr st, b\<lparr>local_value := Some (block_bytes b), version := v\<rparr>, s'))"
proof -
  have ci: "cluster b = Some ci" and size: "value_size b \<le> length l"
    using assms by (auto simp: block_inv_def buffer_def)
  have bytes: "block_bytes b = (if value_size b \<noteq> length l then std_resize (value_size b) l else l)"
    using block_bytes_take [OF assms(1)] assms(2) size by (auto simp: buffer_def std_resize_shrink)
  show ?thesis
    using assms(2) ci by (simp add: flush_put_def bnd_invoke bytes [symmetric] split: option.split sum.split)
qed

lemma flush_put_remote:
  assumes "cluster b = Some ci" and "local_value b = None"
  shows "flush_put (b, s) =
     (let x = (case remote_value b of None \<Rightarrow> [] | Some x \<Rightarrow> x)
      in case ci_put ci (Some (key b)) (version b) (Some x) (version b) s of
        None \<Rightarrow> None
      | Some (Inl e, s') \<Rightarrow> Some (Inl e, b\<lparr>remote_value := Some x\<rparr>, s')
      | Some (Inr (st, v), s') \<Rightarrow> Some (Inr st, b\<lparr>remote_value := Some x, version := v\<rparr>, s'))"
  using assms by (cases "remote_value b") (simp_all add: flush_put_def bnd_invoke split: option.split sum.split)

lemma flush_refresh_none:
  assumes "status \<noteq> REMOTE_VERSION_MISMATCH" and "version b \<noteq> None \<or> mode b = CREATE"
  shows "flush_refresh now status (b, s) = Some (Inr (), b, s)"
  using assms by (auto simp: flush_refresh_def)

lemma flush_refresh_mismatch:
  "flush_refresh now REMOTE_VERSION_MISMATCH (b, s) = getRemoteValue now (b, s)"
  by (simp add: flush_refresh_def)

lemma block_flush_accepted:
  assumes "block_inv ci b" and "local_value b = Some l" and "version b \<noteq> None \<or> mode b = CREATE"
    and "ci_put ci (Some (key b)) (version b) (Some (block_bytes b)) (version b) s = Some (Inr (st, v), s')"
    and "status_ok st"
  shows "block_flush now (b, s) =
     Some (Inr (), b\<lparr>local_value := Some (block_bytes b), version := v, updates := [], timestamp := now s'\<rparr>, s')"
proof -
  have "statusCode st \<noteq> REMOTE_VERSION_MISMATCH"
    using assms(5) by (auto simp: status_ok_def)
  moreover have "flush_refresh now CLIENT_INTERNAL_ERROR (b, s) = Some (Inr (), b, s)"
    using flush_refresh_none [OF _ assms(3)] by simp
  ultimately have "flush_loop now CLIENT_INTERNAL_ERROR (b, s) =
      Some (Inr st, b\<lparr>local_value := Some (block_bytes b), version := v\<rparr>, s')"
    using assms(4) flush_put_local [OF assms(1,2), of s] by (subst flush_loop.simps) simp
  then show ?thesis
    using assms(5) by (simp add: block_flush_def)
qed

lemma flush_loop_mismatch:
  assumes "flush_refresh now status (b, s) = Some (Inr (), b1, s1)"
    and "flush_put (b1, s1) = Some (Inr st, b2, s2)" and "statusCode st = REMOTE_VERSION_MISMATCH"
  shows "flush_loop now status (b, s) = flush_loop now REMOTE_VERSION_MISMATCH (b2, s2)"
  using assms by (subst flush_loop.simps) simp

lemma flush_loop_done:
  assumes "flush_refresh now status (b, s) = Some (Inr (), b1, s1)"
    and "flush_put (b1, s1) = Some (Inr st, b2, s2)" and "statusCode st \<noteq> REMOTE_VERSION_MISMATCH"
  shows "flush_loop now status (b, s) = Some (Inr st, b2, s2)"
  using assms by (subst flush_loop.simps) simp

end
