(* ===== verification/Block_Storage.thy ===== *)
theory Block_Storage
  imports Data_Block Cluster_Storage
begin

text \<open>
  Properties of data blocks: reads and writes in memory, the merge of concurrent writes on a flush,
  and three behaviours of truncated and removed blocks that the interface does
  not announce. The examples run on the cluster of four simulated drives.
\<close>

section \<open>An example cluster\<close>

definition demo_limits :: ClusterLimits where
  "demo_limits = \<lparr>max_key_size = 4096, max_version_size = 2048, max_value_size = 8, max_range_elements = 100\<rparr>"

definition demo_ci :: "sim kinetic_state ClusterInterface" where
  "demo_ci = KineticCluster_interface sim_env sum_lib (demo_cluster\<lparr>cluster_limits := Some demo_limits\<rparr>)"

definition demo_state :: "sim kinetic_state" where
  "demo_state = \<lparr>kinetic_object = demo_cluster\<lparr>cluster_limits := Some demo_limits\<rparr>,
     kinetic_world = sim_init [], updates_pending = 0\<rparr>"

definition demo_now :: "sim kinetic_state \<Rightarrow> nat" where
  "demo_now s = env_now sim_env (kinetic_world s)"

definition demo_block :: "sim kinetic_state DataBlock" where
  "demo_block = \<lparr>mode = CREATE, cluster = Some demo_ci, key = ''key'', version = None, remote_value = None,
     local_value = None, value_size = 0, updates = [], timestamp = 0\<rparr>"

lemma demo_ci_limits [simp]: "max_value_size (ci_limits demo_ci) = 8"
  by (simp add: demo_ci_def KineticCluster_interface_def limits_def demo_limits_def)

lemma demo_block_inv: "block_inv demo_ci demo_block"
  by (simp add: block_inv_def demo_block_def buffer_def)

section \<open>Properties\<close>

text \<open>C31: What is written to a block is what is read from it: within the expiration time, a read
  after a write returns the written bytes where the write went, the earlier bytes of the block
  elsewhere, and zero bytes past the end of the block.\<close>

theorem write_then_read:
  assumes "block_inv ci b" and "off + len \<le> max_value_size (ci_limits ci)" and "len \<le> length buf"
    and "off2 + len2 \<le> max_value_size (ci_limits ci)" and "len2 \<le> length out0"
    and "not_expired (now s) (timestamp b)"
  shows "\<exists>b' out. block_write (Some buf) off len (b, s) = Some (Inr (), b', s) \<and> block_inv ci b' \<and> dirty b' \<and>
    block_read now (Some out0) off2 len2 (b', s) = Some (Inr out, b', s) \<and> length out = length out0 \<and>
    (\<forall>i < len2. out ! i =
       (if off \<le> off2 + i \<and> off2 + i < off + len then buf ! (off2 + i - off)
        else if off2 + i < value_size b then block_byte b (off2 + i)
        else if max (off + len) (value_size b) \<le> off2 + i then CHR 0x00
        else out ! i))"
proof -
  obtain b' where b': "block_write (Some buf) off len (b, s) = Some (Inr (), b', s)" "block_inv ci b'"
    "value_size b' = max (off + len) (value_size b)" "updates b' = updates b @ [(off, len)]"
    "\<And>i. off \<le> i \<Longrightarrow> i < off + len \<Longrightarrow> block_byte b' i = buf ! (i - off)"
    "\<And>i. i < value_size b \<Longrightarrow> \<not> (off \<le> i \<and> i < off + len) \<Longrightarrow> block_byte b' i = block_byte b i"
    "local_value b' \<noteq> None"
    "b' = b\<lparr>value_size := value_size b', local_value := local_value b',
            remote_value := remote_value b', updates := updates b'\<rparr>"
    by (rule block_write_ok [OF assms(1-3), of s]) (rule that)
  let ?out = "map (block_byte b') [off2..<off2 + len2] @ drop len2 out0"
  have "timestamp b' = timestamp b"
    by (subst b'(8)) simp
  then have "validateVersion now (b', s) = Some (Inr True, b', s)"
    using assms(6) by (simp add: validate_not_expired)
  then have "block_read now (Some out0) off2 len2 (b', s) = Some (Inr ?out, b', s)"
    by (rule block_read_fresh [OF b'(2) assms(4) _ b'(2)])
  moreover have "?out ! i = (if off \<le> off2 + i \<and> off2 + i < off + len then buf ! (off2 + i - off)
      else if off2 + i < value_size b then block_byte b (off2 + i)
      else if max (off + len) (value_size b) \<le> off2 + i then CHR 0x00 else ?out ! i)" if "i < len2" for i
  proof -
    have "block_byte b' (off2 + i) = CHR 0x00" if "max (off + len) (value_size b) \<le> off2 + i"
      using that b'(3) by (auto simp: block_byte_def)
    with that b'(5,6) [of "off2 + i"] show ?thesis
      by (simp add: nth_append)
  qed
  moreover have "length ?out = length out0" "dirty b'"
    using assms(5) b'(4) by (simp_all add: dirty_def)
  ultimately show ?thesis
    using b'(1,2) by blast
qed

theorem write_then_read_witness:
  "\<exists>b out. block_write (Some ''hello'') 0 5 (demo_block, demo_state) = Some (Inr (), b, demo_state) \<and>
     block_read demo_now (Some ''........'') 1 7 (b, demo_state) = Some (Inr out, b, demo_state) \<and> take 4 out = ''ello'' \<and>
     out ! 6 = CHR 0x00"
proof -
  have fresh: "not_expired (demo_now demo_state) (timestamp demo_block)"
    by (simp add: not_expired_def demo_now_def demo_state_def demo_block_def sim_env_def sim_init_def expiration_time_def)
  obtain b out where r: "block_write (Some ''hello'') 0 5 (demo_block, demo_state) = Some (Inr (), b, demo_state)"
    "block_read demo_now (Some ''........'') 1 7 (b, demo_state) = Some (Inr out, b, demo_state)" "length out = 8"
    "\<forall>i < 7. out ! i = (if 0 \<le> 1 + i \<and> 1 + i < 0 + 5 then ''hello'' ! (1 + i - 0)
        else if 1 + i < value_size demo_block then block_byte demo_block (1 + i)
        else if max (0 + 5) (value_size demo_block) \<le> 1 + i then CHR 0x00 else out ! i)"
    using write_then_read [OF demo_block_inv, of 0 5 "''hello''" 1 7 "''........''" demo_now demo_state] fresh
    by auto
  have "out ! 0 = CHR ''e''" "out ! 1 = CHR ''l''" "out ! 2 = CHR ''l''" "out ! 3 = CHR ''o''" "out ! 6 = CHR 0x00"
    using r(4) [rule_format, of 0] r(4) [rule_format, of 1] r(4) [rule_format, of 2] r(4) [rule_format, of 3]
      r(4) [rule_format, of 6]
    by (simp_all add: demo_block_def)
  then have "out ! 6 = CHR 0x00" "take 4 out = ''ello''"
    using r(3) by (auto intro!: nth_equalityI simp: less_Suc_eq numeral_eq_Suc)
  with r(1,2) show ?thesis by blast
qed


section \<open>Lemmas on refreshing a block\<close>

lemma block_bytes_local:
  assumes "local_value b = Some l" and "length l = value_size b"
  shows "block_bytes b = l"
  using assms by (intro nth_equalityI) (auto simp: block_bytes_def block_byte_def buffer_def)

text \<open>A put that loses against a newer version, the read of that version, and the put of the merged value.\<close>

lemma flush_merges:
  assumes "block_inv ci b" and "local_value b = Some l" and "updates b \<noteq> []"
    and "updates_within (value_size b) (updates b)" and "version b = Some v"
    and "ci_put ci (Some (key b)) (Some v) (Some (block_bytes b)) (Some v) s = Some (Inr (st1, Some v), s1)"
    and "statusCode st1 = REMOTE_VERSION_MISMATCH"
    and "ci_get ci (Some (key b)) (Some v) (remote_value b) s1 = Some (Inr (st2, Some v2, Some x), s2)"
    and "status_ok st2" and "length x \<le> max_value_size (ci_limits ci)"
    and "merged = map (\<lambda>i. if covered (updates b) i then block_byte b i
                          else if i < length x then x ! i else CHR 0x00)
                      [0..<merged_size (updates b) (length x)]"
    and "ci_put ci (Some (key b)) (Some v2) (Some merged) (Some v2) s2 = Some (Inr (st3, Some v3), s3)"
    and "status_ok st3"
  shows "\<exists>b'. block_flush now (b, s) = Some (Inr (), b', s3) \<and> version b' = Some v3 \<and>
    block_bytes b' = merged \<and> \<not> dirty b'"
proof -
  let ?cap = "max_value_size (ci_limits ci)" and ?us = "updates b"
  let ?n = "merged_size ?us (length x)" and ?l = "block_bytes b"
  let ?m = "map (\<lambda>i. if covered ?us i then ?l ! i else if i < length x then x ! i else CHR 0x00) [0..<?cap]"
  define b1 where "b1 = b\<lparr>local_value := Some ?l, version := Some v\<rparr>"
  define b2 where "b2 = b1\<lparr>version := Some v2, remote_value := None, value_size := ?n, timestamp := now s2, local_value := Some ?m\<rparr>"
  have ci: "cluster b = Some ci" "?cap < 18446744073709551616" "value_size b \<le> ?cap"
    using assms(1) by (simp_all add: block_inv_def)
  have len_l: "length ?l = value_size b" by (simp add: block_bytes_def)
  have inv1: "block_inv ci b1"
    using ci len_l by (simp add: block_inv_def b1_def buffer_def)
  have "updates_within ?cap ?us"
    using assms(4) ci(3) by (fastforce simp: updates_within_def)
  then have n: "?n \<le> ?cap" using assms(10) by (rule merged_size_le)
  have inv2: "block_inv ci b2"
    using ci n by (simp add: block_inv_def b1_def b2_def buffer_def)
  have cov: "?l ! i = block_byte b i" if "covered ?us i" for i
  proof -
    have "i < value_size b"
      using that assms(4) by (fastforce simp: covered_def updates_within_def)
    then show ?thesis by (simp add: block_bytes_def)
  qed
  have "block_bytes b2 = take ?n ?m"
    unfolding b2_def using block_bytes_take [OF inv2] n by (simp add: b2_def buffer_def)
  also have "\<dots> = merged"
    unfolding assms(11) using n cov by (intro nth_equalityI) auto
  finally have bytes2: "block_bytes b2 = merged" .
  have put1: "flush_put (b, s) = Some (Inr st1, b1, s1)"
    using flush_put_local [OF assms(1,2), of s] assms(5,6) by (simp add: b1_def)
  have "getRemoteValue now (b1, s1) = Some (Inr (), b2, s2)"
    using getRemoteValue_merge [OF inv1 _ _ assms(9), of ?l s1 "Some v2" x s2 now] assms(3,4,8,10) len_l
    by (simp add: b1_def b2_def)
  then have refresh2: "flush_refresh now REMOTE_VERSION_MISMATCH (b1, s1) = Some (Inr (), b2, s2)"
    by (simp add: flush_refresh_mismatch)
  have put2: "flush_put (b2, s2) = Some (Inr st3, b2\<lparr>local_value := Some merged, version := Some v3\<rparr>, s3)"
    using flush_put_local [OF inv2, of ?m s2] assms(12) bytes2 by (simp add: b2_def b1_def)
  have "statusCode st3 \<noteq> REMOTE_VERSION_MISMATCH"
    using assms(13) by (auto simp: status_ok_def)
  then have "flush_loop now REMOTE_VERSION_MISMATCH (b1, s1) =
      Some (Inr st3, b2\<lparr>local_value := Some merged, version := Some v3\<rparr>, s3)"
    using flush_loop_done [OF refresh2 put2] by simp
  then have loop: "flush_loop now CLIENT_INTERNAL_ERROR (b, s) =
      Some (Inr st3, b2\<lparr>local_value := Some merged, version := Some v3\<rparr>, s3)"
    using flush_loop_mismatch [OF flush_refresh_none put1 assms(7), of CLIENT_INTERNAL_ERROR now] assms(5) by simp
  have len: "?n = length merged" by (simp add: assms(11))
  show ?thesis
    using assms(13) loop
    by (intro exI [of _ "b2\<lparr>local_value := Some merged, version := Some v3, updates := [], timestamp := now s3\<rparr>"])
      (auto simp: block_flush_def dirty_def b2_def b1_def block_bytes_def block_byte_def buffer_def len
        intro!: nth_equalityI)
qed

section \<open>Properties of flushing\<close>

text \<open>C6: A flush that meets a newer version merges: it reads the newer value, lays the bytes of
  every local write over it, and stores the result under the newer version. Bytes that the block did
  not write keep what the other client wrote; the size is the larger end, or what the last
  truncation said. Afterwards the block holds the merged value and is clean.\<close>

theorem flush_merges_concurrent_write:
  assumes "block_inv ci b" and "local_value b = Some l" and "updates b \<noteq> []"
    and "updates_within (value_size b) (updates b)" and "version b = Some v"
    and "ci_put ci (Some (key b)) (Some v) (Some (block_bytes b)) (Some v) s = Some (Inr (st1, Some v), s1)"
    and "statusCode st1 = REMOTE_VERSION_MISMATCH"
    and "ci_get ci (Some (key b)) (Some v) (remote_value b) s1 = Some (Inr (st2, Some v2, Some x), s2)"
    and "status_ok st2" and "length x \<le> max_value_size (ci_limits ci)"
    and "merged = map (\<lambda>i. if covered (updates b) i then block_byte b i
                          else if i < length x then x ! i else CHR 0x00)
                      [0..<merged_size (updates b) (length x)]"
    and "ci_put ci (Some (key b)) (Some v2) (Some merged) (Some v2) s2 = Some (Inr (st3, Some v3), s3)"
    and "status_ok st3"
  shows "\<exists>b'. block_flush now (b, s) = Some (Inr (), b', s3) \<and> version b' = Some v3 \<and>
    block_bytes b' = merged \<and> \<not> dirty b'"
  using assms by (rule flush_merges)


text \<open>A cluster with one key for the examples: the next \<open>n\<close> puts lose against another client, and
  \<open>gone\<close> says that the key was removed.\<close>

definition busy_ci :: "bool \<Rightarrow> nat ClusterInterface" where
  "busy_ci gone =
     \<lparr>ci_id = ''c'', ci_instanceId = ''i'', ci_limits = demo_limits,
      ci_stats = ret (initial_statistics 0 (RedundancyProvider_new sum_lib 1 0)),
      ci_get = (\<lambda>k v x. if gone then ret (mk_status REMOTE_NOT_FOUND [], v, x)
                       else ret (mk_status OK [], Some ''v2'', Some ''ABCDEFGH'')),
      ci_get_version = (\<lambda>k v. if gone then ret (mk_status REMOTE_NOT_FOUND [], v) else ret (mk_status OK [], Some ''v2'')),
      ci_put = (\<lambda>k v x out n. if n = 0 then Some (Inr (mk_status OK [], Some ''v3''), 0)
                            else Some (Inr (mk_status REMOTE_VERSION_MISMATCH [], out), n - 1)),
      ci_put_forced = (\<lambda>k x out. ret (mk_status OK [], Some ''v3'')),
      ci_remove = (\<lambda>k v. ret (mk_status OK [])),
      ci_remove_forced = (\<lambda>k. ret (mk_status OK [])),
      ci_flush = ret (mk_status OK []),
      ci_range = (\<lambda>a b ks m. ret (mk_status OK [], Some []))\<rparr>"

definition busy_block :: "bool \<Rightarrow> nat DataBlock" where
  "busy_block gone = \<lparr>mode = STANDARD, cluster = Some (busy_ci gone), key = ''key'', version = Some ''v1'', remote_value = None,
     local_value = Some ''hello'', value_size = 5, updates = [(2, 3)], timestamp = 0\<rparr>"

lemma busy_block_inv: "block_inv (busy_ci g) (busy_block g)"
  by (simp add: block_inv_def busy_block_def busy_ci_def buffer_def demo_limits_def)

theorem flush_merges_concurrent_write_witness:
  "\<exists>b. block_flush (\<lambda>s. 0) (busy_block False, 1) = Some (Inr (), b, 0) \<and> version b = Some ''v3'' \<and>
     block_bytes b = ''ABlloFGH'' \<and> \<not> dirty b"
  by (rule flush_merges_concurrent_write [OF busy_block_inv, where l = "''hello''" and v = "''v1''" and ?v2.0 = "''v2''" and
        x = "''ABCDEFGH''" and ?s1.0 = 0 and ?s2.0 = 0 and ?st1.0 = "mk_status REMOTE_VERSION_MISMATCH []" and
        ?st2.0 = "mk_status OK []" and ?st3.0 = "mk_status OK []"])
    (simp_all add: busy_block_def busy_ci_def block_bytes_def block_byte_def buffer_def upt_rec
      demo_limits_def)

section \<open>Properties of truncated and removed blocks\<close>

text \<open>A truncation of a block that was only read is not stored: the flush puts the whole remote
  value again, so that the cluster keeps the bytes past the new size, while the block itself
  reports the new size and is clean.\<close>

theorem flush_loses_truncation:
  assumes "cluster b = Some ci" and "local_value b = None" and "remote_value b = Some x" and "version b = Some v"
    and "n < length x" and "n \<le> max_value_size (ci_limits ci)"
    and "ci_put ci (Some (key b)) (Some v) (Some x) (Some v) s = Some (Inr (st, Some v'), s')" and "status_ok st"
  shows "\<exists>b'. seq (block_truncate n) (block_flush now) (b, s) = Some (Inr (), b', s') \<and>
    value_size b' = n \<and> remote_value b' = Some x \<and> version b' = Some v' \<and> \<not> dirty b'"
proof -
  let ?b = "b\<lparr>value_size := n, updates := updates b @ [(n, 0)]\<rparr>"
  have ok: "statusCode st \<noteq> REMOTE_VERSION_MISMATCH"
    using assms(8) by (auto simp: status_ok_def)
  have put: "flush_put (?b, s) = Some (Inr st, ?b\<lparr>remote_value := Some x, version := Some v'\<rparr>, s')"
    using flush_put_remote [of ?b ci s] assms by simp
  have "flush_loop now CLIENT_INTERNAL_ERROR (?b, s) = Some (Inr st, ?b\<lparr>remote_value := Some x, version := Some v'\<rparr>, s')"
    by (rule flush_loop_done [OF flush_refresh_none put ok]) (simp_all add: assms(4))
  then show ?thesis
    using assms(1,6,8)
    by (simp add: block_truncate_def bnd_capacity block_flush_def dirty_def seq_def)
qed

theorem flush_loses_truncation_witness:
  "\<exists>b. seq (block_truncate 2) (block_flush (\<lambda>s. 0))
       ((busy_block False)\<lparr>local_value := None, remote_value := Some ''hello'', updates := []\<rparr>, 0) = Some (Inr (), b, 0) \<and>
     value_size b = 2 \<and> remote_value b = Some ''hello'' \<and> version b = Some ''v3'' \<and> \<not> dirty b"
  by (rule flush_loses_truncation [where ci = "busy_ci False" and v = "''v1''"])
    (simp_all add: busy_ci_def busy_block_def demo_limits_def, simp_all)

text \<open>Reading a block whose key another client removed follows a null pointer: once the block
  expired, the refresh drops the local value of a block without pending updates but keeps its size,
  and the copy is taken from a remote value that is not there.\<close>

theorem read_removed_block:
  assumes "cluster b = Some ci" and "version b = Some v" and "updates b = []" and "remote_value b = None"
    and "off < value_size b" and "off + len \<le> max_value_size (ci_limits ci)"
    and "max_value_size (ci_limits ci) < 18446744073709551616"
    and "\<not> not_expired (now s) (timestamp b)"
    and "ci_get_version ci (Some (key b)) None s = Some (Inr (st1, v1), s1)" and "statusCode st1 = REMOTE_NOT_FOUND"
    and "ci_get ci (Some (key b)) (Some v) None s1 = Some (Inr (st2, Some v, None), s2)" and "statusCode st2 = REMOTE_NOT_FOUND"
  shows "\<exists>b'. block_read now (Some buf) off len (b, s) = Some (Inl Undefined_behaviour, b', s2)"
proof -
  have valid: "validateVersion now (b, s) = Some (Inr False, b, s1)"
    using assms(1,2,8-10) by (simp add: validateVersion_def bnd_invoke status_ok_def)
  let ?b = "b\<lparr>version := None, remote_value := None, timestamp := now s2, local_value := None\<rparr>"
  have get: "getRemoteValue now (b, s1) = Some (Inr (), ?b, s2)"
    using assms by (simp add: getRemoteValue_def merge_local_def bnd_invoke status_ok_def)
  have "size_add off len = off + len"
    using assms(6,7) by (simp add: size_add_def)
  then have "block_read now (Some buf) off len (b, s) = Some (Inl Undefined_behaviour, ?b, s2)"
    using assms(1,5,6) valid get by (simp add: block_read_def bnd_capacity serve_def)
  then show ?thesis by (rule exI)
qed

theorem read_removed_block_witness:
  "\<exists>b. block_read (\<lambda>s. 2000000) (Some ''.....'') 0 5 ((busy_block True)\<lparr>updates := []\<rparr>, 0) = Some (Inl Undefined_behaviour, b, 0)"
  by (rule read_removed_block [where ci = "busy_ci True" and v = "''v1''"])
    (simp_all add: busy_ci_def busy_block_def demo_limits_def not_expired_def expiration_time_def, simp_all)


section \<open>Blocks on a cluster that loses drives\<close>

text \<open>The block that a client holds after it read the value of its key, and the read itself.\<close>

definition loaded_block :: "('s \<Rightarrow> nat) \<Rightarrow> 's ClusterInterface \<Rightarrow> string \<Rightarrow> string option \<Rightarrow> string \<Rightarrow> 's \<Rightarrow> 's DataBlock" where
  "loaded_block now ci k v x s =
     \<lparr>mode = STANDARD, cluster = Some ci, key = k, version = v, remote_value = Some x,
      local_value = None, value_size = length x, updates = [], timestamp = now s\<rparr>"

lemma fresh_block_reads:
  assumes "block_inv ci b" and "off + len \<le> max_value_size (ci_limits ci)"
    and "rb = \<lparr>mode = STANDARD, cluster = Some ci, key = k, version = None, remote_value = None,
               local_value = None, value_size = 0, updates = [], timestamp = 0\<rparr>"
    and "1000000 \<le> now s" and "status_ok st"
    and "ci_get ci (Some k) None None s = Some (Inr (st, v, Some (block_bytes b)), s')"
  shows "block_read now (Some buf) off len (rb, s) =
    Some (Inr (map (block_byte b) [off..<off + len] @ drop len buf), loaded_block now ci k v (block_bytes b) s', s')"
proof -
  have cap: "max_value_size (ci_limits ci) < 18446744073709551616" "value_size b \<le> max_value_size (ci_limits ci)"
    and small: "size_add off len = off + len"
    using assms(1,2) by (auto simp: block_inv_def size_add_def)
  have "\<not> not_expired (now s) 0"
    using assms(4) by (simp add: not_expired_def expiration_time_def)
  then have valid: "validateVersion now (rb, s) = Some (Inr False, rb, s)"
    by (simp add: validateVersion_def assms(3))
  define rb' where "rb' = rb\<lparr>version := v, remote_value := Some (block_bytes b), value_size := length (block_bytes b),
      timestamp := now s', local_value := None\<rparr>"
  have get: "getRemoteValue now (rb, s) = Some (Inr (), rb', s')"
    unfolding rb'_def by (rule getRemoteValue_clean [where ci = ci and st = st]) (use assms in simp_all)
  have len: "length (block_bytes b) = value_size b"
    by (simp add: block_bytes_def)
  have inv: "block_inv ci rb'"
    using cap len by (simp add: block_inv_def rb'_def assms(3) buffer_def)
  have "block_byte rb' = block_byte b"
    by (rule ext) (simp add: block_byte_def rb'_def assms(3) buffer_def block_bytes_def)
  moreover have "rb' = loaded_block now ci k v (block_bytes b) s'"
    by (simp add: rb'_def loaded_block_def assms(3))
  ultimately show ?thesis
    using serve_ok [OF inv assms(2), of buf s'] valid get small assms(2) by (simp add: block_read_def bnd_capacity assms(3))
qed

text \<open>A flush that is accepted stores the bytes of the block, and a get delivers them although chunks are lost.\<close>

lemma flushed_block_readable:
  assumes "honest_get env up store" and "honest_put env up store" and "honest_uuid env up store"
    and "codes_ok (env_code env)" and "cluster_ok lib (kinetic_object s)"
    and "no_index_wrap (connections (kinetic_object s)) (key b) (nData (redundancy (kinetic_object s)))"
    and "ci = KineticCluster_interface env lib cl0"
    and "block_inv ci b" and "local_value b \<noteq> None" and "version b \<noteq> None \<or> mode b = CREATE"
    and "value_size b \<le> nData (redundancy (kinetic_object s)) * chunkCapacity (kinetic_object s)"
    and "value_size b \<le> 2147483647"
    and "\<forall>c \<in> set (stripe_drives (kinetic_object s) (key b)). up (kinetic_world s) c \<longrightarrow>
      version_accepted REQUIRE_SAME_VERSION (case version b of None \<Rightarrow> [] | Some v \<Rightarrow> v) (store (kinetic_world s) c (key b))"
    and "down_drives up (kinetic_world s) (stripe_drives (kinetic_object s) (key b)) \<le> nParity (redundancy (kinetic_object s))"
  obtains v cl' w' where
    "block_flush (\<lambda>s. env_now env (kinetic_world s)) (b, s) =
      Some (Inr (), b\<lparr>local_value := Some (block_bytes b), version := Some v, updates := [], timestamp := env_now env w'\<rparr>,
        s\<lparr>kinetic_object := cl', kinetic_world := w'\<rparr>)"
    "\<forall>c \<in> set (stripe_drives (kinetic_object s) (key b)). up (kinetic_world s) c \<longrightarrow> store w' c (key b) \<noteq> None"
    "\<And>w2. \<forall>c \<in> set (stripe_drives (kinetic_object s) (key b)). up w2 c \<longrightarrow>
          store w2 c (key b) = None \<or> up (kinetic_world s) c \<and> store w2 c (key b) = store w' c (key b) \<Longrightarrow>
       lost_drives up store w2 (key b) (stripe_drives (kinetic_object s) (key b)) \<le> nParity (redundancy (kinetic_object s)) \<Longrightarrow>
       absent_drives up store w2 (key b) (stripe_drives (kinetic_object s) (key b)) < nData (redundancy (kinetic_object s)) \<Longrightarrow>
       \<exists>cl2 w3. ci_get ci (Some (key b)) None None (s\<lparr>kinetic_object := cl', kinetic_world := w2\<rparr>) =
         Some (Inr (ok_status, Some v, Some (block_bytes b)), s\<lparr>kinetic_object := cl2, kinetic_world := w3\<rparr>)"
proof -
  let ?cl = "kinetic_object s" and ?w = "kinetic_world s" and ?now = "\<lambda>s. env_now env (kinetic_world s)"
  let ?ds = "stripe_drives ?cl (key b)" and ?v = "case version b of None \<Rightarrow> [] | Some v \<Rightarrow> v"
  have "length (block_bytes b) = value_size b"
    by (simp add: block_bytes_def)
  then have fits: "length (block_bytes b) \<le> nData (redundancy ?cl) * chunkCapacity ?cl" "length (block_bytes b) \<le> 2147483647"
    using assms(11,12) by simp_all
  obtain v cl' w' where put: "do_put env lib ?cl (Some (key b)) (Some ?v) (Some (block_bytes b)) (version b) REQUIRE_SAME_VERSION ?w =
      Some (Inr (ok_status, Some v), cl', w')"
    and kept: "\<forall>c \<in> set ?ds. up ?w c \<longrightarrow> store w' c (key b) \<noteq> None"
    and read: "\<And>w2 v0 x0. (\<forall>c \<in> set ?ds. up w2 c \<longrightarrow> store w2 c (key b) = None \<or> up ?w c \<and> store w2 c (key b) = store w' c (key b)) \<Longrightarrow>
       lost_drives up store w2 (key b) ?ds \<le> nParity (redundancy ?cl) \<Longrightarrow>
       absent_drives up store w2 (key b) ?ds < nData (redundancy ?cl) \<Longrightarrow>
       \<exists>cl2 w3. cluster_get env lib cl' (Some (key b)) v0 x0 w2 = Some (Inr (ok_status, Some v, Some (block_bytes b)), cl2, w3)"
    using accepted_put_readable [OF assms(1-6) fits assms(13,14), where version_out = "version b"]
    by (elim exE conjE, intro that) (assumption | blast)+
  obtain l where l: "local_value b = Some l"
    using assms(9) by blast
  let ?s' = "s\<lparr>kinetic_object := cl', kinetic_world := w'\<rparr>"
  have "ci_put ci (Some (key b)) (version b) (Some (block_bytes b)) (version b) s = Some (Inr (ok_status, Some v), ?s')"
    using put by (cases "version b") (simp_all add: assms(7) KineticCluster_interface_def kc_call_def put_versioned_def)
  then have flush: "block_flush ?now (b, s) =
      Some (Inr (), b\<lparr>local_value := Some (block_bytes b), version := Some v, updates := [], timestamp := env_now env w'\<rparr>, ?s')"
    using block_flush_accepted [OF assms(8) l assms(10), where now = ?now] by simp
  show ?thesis
  proof (rule that [OF flush kept])
    fix w2
    assume "\<forall>c \<in> set ?ds. up w2 c \<longrightarrow> store w2 c (key b) = None \<or> up ?w c \<and> store w2 c (key b) = store w' c (key b)"
      "lost_drives up store w2 (key b) ?ds \<le> nParity (redundancy ?cl)" "absent_drives up store w2 (key b) ?ds < nData (redundancy ?cl)"
    from read [OF this, of None None] show "\<exists>cl2 w3. ci_get ci (Some (key b)) None None (s\<lparr>kinetic_object := cl', kinetic_world := w2\<rparr>) =
        Some (Inr (ok_status, Some v, Some (block_bytes b)), s\<lparr>kinetic_object := cl2, kinetic_world := w3\<rparr>)"
      by (auto simp: assms(7) KineticCluster_interface_def kc_call_def)
  qed
qed

text \<open>C2: A flushed block survives the loss of drives. Flushing a written block succeeds when the
  version it knows is the one on the reachable drives and no more drives of its stripe are down than
  the cluster has parities. Afterwards, as long as no more chunks are lost than there are parities,
  any other client that opens the block reads back exactly its bytes, zeros past its end.\<close>

theorem block_survives_losses:
  assumes "honest_get env up store" and "honest_put env up store" and "honest_uuid env up store"
    and "codes_ok (env_code env)" and "cluster_ok lib (kinetic_object s)"
    and "no_index_wrap (connections (kinetic_object s)) (key b) (nData (redundancy (kinetic_object s)))"
    and "ci = KineticCluster_interface env lib cl0"
    and "block_inv ci b" and "local_value b \<noteq> None" and "version b \<noteq> None \<or> mode b = CREATE"
    and "value_size b \<le> nData (redundancy (kinetic_object s)) * chunkCapacity (kinetic_object s)"
    and "value_size b \<le> 2147483647"
    and "\<forall>c \<in> set (stripe_drives (kinetic_object s) (key b)). up (kinetic_world s) c \<longrightarrow>
      version_accepted REQUIRE_SAME_VERSION (case version b of None \<Rightarrow> [] | Some v \<Rightarrow> v) (store (kinetic_world s) c (key b))"
    and "down_drives up (kinetic_world s) (stripe_drives (kinetic_object s) (key b)) \<le> nParity (redundancy (kinetic_object s))"
  shows "\<exists>b' s'. block_flush (\<lambda>s. env_now env (kinetic_world s)) (b, s) = Some (Inr (), b', s') \<and> \<not> dirty b' \<and>
    (\<forall>c \<in> set (stripe_drives (kinetic_object s) (key b)). up (kinetic_world s) c \<longrightarrow> store (kinetic_world s') c (key b) \<noteq> None) \<and>
    (\<forall>w2 off len buf.
       (\<forall>c \<in> set (stripe_drives (kinetic_object s) (key b)). up w2 c \<longrightarrow>
          store w2 c (key b) = None \<or>
          up (kinetic_world s) c \<and> store w2 c (key b) = store (kinetic_world s') c (key b)) \<longrightarrow>
       lost_drives up store w2 (key b) (stripe_drives (kinetic_object s) (key b)) \<le> nParity (redundancy (kinetic_object s)) \<longrightarrow>
       absent_drives up store w2 (key b) (stripe_drives (kinetic_object s) (key b)) < nData (redundancy (kinetic_object s)) \<longrightarrow>
       1000000 \<le> env_now env w2 \<longrightarrow> off + len \<le> max_value_size (ci_limits ci) \<longrightarrow>
       (\<exists>rb' s3. block_read (\<lambda>s. env_now env (kinetic_world s)) (Some buf) off len
           (\<lparr>mode = STANDARD, cluster = Some ci, key = key b, version = None, remote_value = None, local_value = None,
             value_size = 0, updates = [], timestamp = 0\<rparr>, s'\<lparr>kinetic_world := w2\<rparr>) =
         Some (Inr (map (block_byte b) [off..<off + len] @ drop len buf), rb', s3)))"
proof -
  let ?now = "\<lambda>s. env_now env (kinetic_world s)"
  obtain v cl' w' where f: "block_flush ?now (b, s) =
      Some (Inr (), b\<lparr>local_value := Some (block_bytes b), version := Some v, updates := [], timestamp := env_now env w'\<rparr>,
        s\<lparr>kinetic_object := cl', kinetic_world := w'\<rparr>)"
    "\<forall>c \<in> set (stripe_drives (kinetic_object s) (key b)). up (kinetic_world s) c \<longrightarrow> store w' c (key b) \<noteq> None"
    "\<And>w2. \<forall>c \<in> set (stripe_drives (kinetic_object s) (key b)). up w2 c \<longrightarrow>
          store w2 c (key b) = None \<or> up (kinetic_world s) c \<and> store w2 c (key b) = store w' c (key b) \<Longrightarrow>
       lost_drives up store w2 (key b) (stripe_drives (kinetic_object s) (key b)) \<le> nParity (redundancy (kinetic_object s)) \<Longrightarrow>
       absent_drives up store w2 (key b) (stripe_drives (kinetic_object s) (key b)) < nData (redundancy (kinetic_object s)) \<Longrightarrow>
       \<exists>cl2 w3. ci_get ci (Some (key b)) None None (s\<lparr>kinetic_object := cl', kinetic_world := w2\<rparr>) =
         Some (Inr (ok_status, Some v, Some (block_bytes b)), s\<lparr>kinetic_object := cl2, kinetic_world := w3\<rparr>)"
    by (rule flushed_block_readable [OF assms]) (rule that)
  show ?thesis
  proof (rule exI, rule exI, intro conjI allI impI)
    show "block_flush ?now (b, s) =
      Some (Inr (), b\<lparr>local_value := Some (block_bytes b), version := Some v, updates := [], timestamp := env_now env w'\<rparr>,
        s\<lparr>kinetic_object := cl', kinetic_world := w'\<rparr>)"
      by (rule f(1))
    fix w2 off len buf
    assume "\<forall>c \<in> set (stripe_drives (kinetic_object s) (key b)). up w2 c \<longrightarrow> store w2 c (key b) = None \<or>
        up (kinetic_world s) c \<and> store w2 c (key b) = store (kinetic_world (s\<lparr>kinetic_object := cl', kinetic_world := w'\<rparr>)) c (key b)"
      and few: "lost_drives up store w2 (key b) (stripe_drives (kinetic_object s) (key b)) \<le> nParity (redundancy (kinetic_object s))"
        "absent_drives up store w2 (key b) (stripe_drives (kinetic_object s) (key b)) < nData (redundancy (kinetic_object s))"
      and late: "1000000 \<le> env_now env w2" and range: "off + len \<le> max_value_size (ci_limits ci)"
    then obtain cl2 w3 where "ci_get ci (Some (key b)) None None (s\<lparr>kinetic_object := cl', kinetic_world := w2\<rparr>) =
         Some (Inr (ok_status, Some v, Some (block_bytes b)), s\<lparr>kinetic_object := cl2, kinetic_world := w3\<rparr>)"
      using f(3) [OF _ few] by auto
    from fresh_block_reads [OF assms(8) range refl _ _ this, of ?now buf] late
    show "\<exists>rb' s3. block_read ?now (Some buf) off len
        (\<lparr>mode = STANDARD, cluster = Some ci, key = key b, version = None, remote_value = None, local_value = None,
          value_size = 0, updates = [], timestamp = 0\<rparr>, s\<lparr>kinetic_object := cl', kinetic_world := w'\<rparr>\<lparr>kinetic_world := w2\<rparr>) =
      Some (Inr (map (block_byte b) [off..<off + len] @ drop len buf), rb', s3)" by simp
  qed (use f(2) in \<open>simp_all add: dirty_def\<close>)
qed


text \<open>A block of five bytes, flushed to the four simulated drives and read back by another client
  with drive 2 gone.\<close>

theorem block_survives_losses_witness:
  "\<exists>b' s'. block_flush demo_now (demo_block\<lparr>local_value := Some ''hello'', value_size := 5, updates := [(0, 5)]\<rparr>, demo_state) =
       Some (Inr (), b', s') \<and> \<not> dirty b' \<and>
     (\<exists>rb s3. block_read demo_now (Some ''........'') 0 8
        (demo_block\<lparr>mode := STANDARD\<rparr>, s'\<lparr>kinetic_world := (kinetic_world s')\<lparr>sim_down := (\<lambda>c. c = 2), sim_clock := 2000000\<rparr>\<rparr>) =
      Some (Inr (''hello'' @ [CHR 0x00, CHR 0x00, CHR 0x00]), rb, s3))"
proof -
  let ?b = "demo_block\<lparr>local_value := Some ''hello'', value_size := 5, updates := [(0, 5)]\<rparr>"
  let ?cl = "demo_cluster\<lparr>cluster_limits := Some demo_limits\<rparr>"
  have cl: "cluster_ok sum_lib (kinetic_object demo_state)" "kinetic_world demo_state = sim_init []"
    "rp_size (redundancy (kinetic_object demo_state)) = 3" "nParity (redundancy (kinetic_object demo_state)) = 1"
    "nData (redundancy (kinetic_object demo_state)) = 2" "connections (kinetic_object demo_state) = 4"
    "chunkCapacity (kinetic_object demo_state) = 4"
    using demo_cluster_ok by (simp_all add: demo_state_def cluster_ok_def)
  have b: "key ?b = ''key''" "value_size ?b = 5" "version ?b = None" "mode ?b = CREATE" "local_value ?b = Some ''hello''"
    by (simp_all add: demo_block_def)
  have inv: "block_inv demo_ci ?b"
    by (simp add: block_inv_def demo_block_def buffer_def)
  have now: "demo_now = (\<lambda>s. env_now sim_env (kinetic_world s))"
    by (simp add: demo_now_def fun_eq_iff)
  have rb: "demo_block\<lparr>mode := STANDARD\<rparr> = \<lparr>mode = STANDARD, cluster = Some demo_ci, key = ''key'', version = None,
      remote_value = None, local_value = None, value_size = 0, updates = [], timestamp = 0\<rparr>"
    by (simp add: demo_block_def)
  have h: "no_index_wrap (connections (kinetic_object demo_state)) (key ?b) (nData (redundancy (kinetic_object demo_state)))"
    "local_value ?b \<noteq> None" "version ?b \<noteq> None \<or> mode ?b = CREATE"
    "value_size ?b \<le> nData (redundancy (kinetic_object demo_state)) * chunkCapacity (kinetic_object demo_state)"
    "value_size ?b \<le> 2147483647"
    "\<forall>c \<in> set (stripe_drives (kinetic_object demo_state) (key ?b)). sim_up (kinetic_world demo_state) c \<longrightarrow>
      version_accepted REQUIRE_SAME_VERSION (case version ?b of None \<Rightarrow> [] | Some v \<Rightarrow> v)
        (sim_records (kinetic_world demo_state) c (key ?b))"
    "down_drives sim_up (kinetic_world demo_state) (stripe_drives (kinetic_object demo_state) (key ?b)) \<le>
      nParity (redundancy (kinetic_object demo_state))"
    unfolding cl b demo_drives
    by (simp_all add: no_index_wrap_def version_accepted_def stored_version_def down_drives_def sim_init_def)
  obtain b' s' where flush: "block_flush demo_now (?b, demo_state) = Some (Inr (), b', s')" "\<not> dirty b'"
    and kept: "\<forall>c \<in> {1, 2, 3}. sim_records (kinetic_world s') c ''key'' \<noteq> None"
    and read: "\<And>w2 off len buf. (\<forall>c \<in> {1, 2, 3}. sim_up w2 c \<longrightarrow> sim_records w2 c ''key'' = sim_records (kinetic_world s') c ''key'') \<Longrightarrow>
       lost_drives sim_up sim_records w2 ''key'' [1, 2, 3] \<le> 1 \<Longrightarrow> absent_drives sim_up sim_records w2 ''key'' [1, 2, 3] < 2 \<Longrightarrow>
       1000000 \<le> env_now sim_env w2 \<Longrightarrow> off + len \<le> 8 \<Longrightarrow>
       \<exists>rb s3. block_read demo_now (Some buf) off len (demo_block\<lparr>mode := STANDARD\<rparr>, s'\<lparr>kinetic_world := w2\<rparr>) =
         Some (Inr (map (block_byte ?b) [off..<off + len] @ drop len buf), rb, s3)"
  proof -
    from block_survives_losses [OF sim_honest_get sim_honest_put sim_honest_uuid sim_codes cl(1) h(1) demo_ci_def inv h(2-7), unfolded cl b demo_drives, folded now rb]
    obtain b' s' where f: "block_flush demo_now (?b, demo_state) = Some (Inr (), b', s')" "\<not> dirty b'"
      "\<forall>c \<in> set [1, 2, 3]. sim_up (sim_init []) c \<longrightarrow> sim_records (kinetic_world s') c ''key'' \<noteq> None"
      "\<forall>w2 off len buf. (\<forall>c \<in> set [1, 2, 3]. sim_up w2 c \<longrightarrow> sim_records w2 c ''key'' = None \<or>
          sim_up (sim_init []) c \<and> sim_records w2 c ''key'' = sim_records (kinetic_world s') c ''key'') \<longrightarrow>
        lost_drives sim_up sim_records w2 ''key'' [1, 2, 3] \<le> 1 \<longrightarrow> absent_drives sim_up sim_records w2 ''key'' [1, 2, 3] < 2 \<longrightarrow>
        1000000 \<le> env_now sim_env w2 \<longrightarrow> off + len \<le> max_value_size (ci_limits demo_ci) \<longrightarrow>
        (\<exists>rb s3. block_read demo_now (Some buf) off len (demo_block\<lparr>mode := STANDARD\<rparr>, s'\<lparr>kinetic_world := w2\<rparr>) =
          Some (Inr (map (block_byte ?b) [off..<off + len] @ drop len buf), rb, s3))"
      by (elim exE conjE) (rule that)
    have up: "sim_up (sim_init []) c" for c by (simp add: sim_init_def)
    show ?thesis
      by (rule that [OF f(1,2)]) (use f(3,4) up in \<open>simp_all only: list.set insert_iff ball_simps, auto\<close>)
  qed
  let ?w2 = "(kinetic_world s')\<lparr>sim_down := (\<lambda>c. c = 2), sim_clock := 2000000\<rparr>"
  have "\<exists>rb s3. block_read demo_now (Some ''........'') 0 8 (demo_block\<lparr>mode := STANDARD\<rparr>, s'\<lparr>kinetic_world := ?w2\<rparr>) =
      Some (Inr (map (block_byte ?b) [0..<0 + 8] @ drop 8 ''........''), rb, s3)"
    by (rule read) (use kept in \<open>simp_all add: lost_drives_def absent_drives_def sim_env_def\<close>)
  moreover have "map (block_byte ?b) [0..<0 + 8] @ drop 8 ''........'' = ''hello'' @ [CHR 0x00, CHR 0x00, CHR 0x00]"
    by (simp add: upt_rec block_byte_def buffer_def demo_block_def)
  ultimately show ?thesis
    using flush by auto
qed


section \<open>Recycled blocks\<close>

text \<open>C39: A recycled block leaks the previous key's data: reassigning a block that had read a value keeps
  that value; truncating the block to \<open>n\<close> bytes and flushing it when its new key does not exist yet
  stores the first \<open>n\<close> bytes of the old value under the new key.\<close>

theorem recycled_block_leaks:
  assumes "cluster b \<noteq> None" and "local_value b = None" and "remote_value b = Some x"
    and "n \<le> length x" and "length x \<le> max_value_size (ci_limits ci)"
    and "max_value_size (ci_limits ci) < 18446744073709551616"
    and "ci_get ci (Some k) None (Some x) s = Some (Inr (st1, None, Some x), s1)"
    and "statusCode st1 = REMOTE_NOT_FOUND"
    and "ci_put ci (Some k) None (Some (take n x)) None s1 = Some (Inr (st2, Some v), s2)" and "status_ok st2"
  shows "\<exists>b'. seq (reassign (Some ci) k STANDARD) (seq (block_truncate n) (block_flush now)) (b, s) =
    Some (Inr (), b', s2) \<and> key b' = k \<and> block_bytes b' = take n x"
proof -
  let ?cap = "max_value_size (ci_limits ci)"
  let ?x = "if length x < ?cap then std_resize ?cap x else x"
  define b1 where "b1 = b\<lparr>key := k, mode := STANDARD, cluster := Some ci, value_size := n, version := None,
      updates := [(n, 0)], timestamp := 0\<rparr>"
  define b2 where "b2 = b1\<lparr>timestamp := now s1, remote_value := None, local_value := Some ?x\<rparr>"
  have not_ok: "\<not> status_ok st1" using assms(8) by (simp add: status_ok_def)
  have "getRemoteValue now (b1, s) = Some (Inr (), b2, s1)"
    using assms(2,3,7,8) not_ok
    by (simp add: getRemoteValue_def merge_local_def bnd_invoke bnd_capacity b1_def b2_def)
  then have refresh: "flush_refresh now CLIENT_INTERNAL_ERROR (b1, s) = Some (Inr (), b2, s1)"
    by (simp add: flush_refresh_def b1_def)
  have inv: "block_inv ci b2"
    using assms(4-6) by (simp add: block_inv_def b2_def b1_def buffer_def)
  have bytes: "block_bytes b2 = take n x"
    unfolding block_bytes_take [OF inv] using assms(4) by (simp add: b2_def b1_def buffer_def std_resize_def)
  have put: "flush_put (b2, s1) = Some (Inr st2, b2\<lparr>local_value := Some (take n x), version := Some v\<rparr>, s2)"
    using flush_put_local [OF inv, of ?x s1] assms(9) bytes by (simp add: b2_def b1_def)
  have "statusCode st2 \<noteq> REMOTE_VERSION_MISMATCH"
    using assms(10) by (auto simp: status_ok_def)
  then have "flush_loop now CLIENT_INTERNAL_ERROR (b1, s) =
      Some (Inr st2, b2\<lparr>local_value := Some (take n x), version := Some v\<rparr>, s2)"
    by (rule flush_loop_done [OF refresh put])
  then have flush: "block_flush now (b1, s) =
      Some (Inr (), b2\<lparr>local_value := Some (take n x), version := Some v, updates := [], timestamp := now s2\<rparr>, s2)"
    using assms(10) by (simp add: block_flush_def)
  have "seq (reassign (Some ci) k STANDARD) (seq (block_truncate n) (block_flush now)) (b, s) = block_flush now (b1, s)"
    using assms(1-5) by (cases b) (simp add: reassign_def block_truncate_def bnd_capacity b1_def seq_def)
  then show ?thesis
    unfolding flush using assms(4)
    by (intro exI conjI) (assumption, simp_all add: b2_def b1_def block_bytes_local)
qed

theorem recycled_block_leaks_witness:
  "\<exists>b. seq (reassign (Some (busy_ci True)) ''new'' STANDARD) (seq (block_truncate 3) (block_flush (\<lambda>s. 0)))
       ((busy_block True)\<lparr>local_value := None, remote_value := Some ''secret''\<rparr>, 0) = Some (Inr (), b, 0) \<and>
     key b = ''new'' \<and> block_bytes b = ''sec''"
proof -
  have "\<exists>b. seq (reassign (Some (busy_ci True)) ''new'' STANDARD) (seq (block_truncate 3) (block_flush (\<lambda>s. 0)))
       ((busy_block True)\<lparr>local_value := None, remote_value := Some ''secret''\<rparr>, 0) = Some (Inr (), b, 0) \<and>
     key b = ''new'' \<and> block_bytes b = take 3 ''secret''"
    by (rule recycled_block_leaks [where ?st1.0 = "mk_status REMOTE_NOT_FOUND []" and ?st2.0 = "mk_status OK []" and
          ?s1.0 = 0 and v = "''v3''"])
      (simp_all add: busy_ci_def busy_block_def demo_limits_def)
  then show ?thesis by simp
qed

end
