(* ===== verification/Flush_Conflict.thy ===== *)
theory Flush_Conflict
  imports Block_Storage
begin

text \<open>
  A flush against another client, end to end: the block knows an outdated version, the drives hold the
  value that another client put. The first put is rejected by every reachable drive and changes
  nothing, the refresh reads the newer value from the stripe, and the second put stores the merged
  value. Nothing is assumed of the puts and gets of the cluster; they are those of the model on drives
  that follow the protocol.
\<close>

section \<open>A put that every reachable drive rejects\<close>

definition put_rejected :: "('w \<Rightarrow> nat \<Rightarrow> bool) \<Rightarrow> 'w \<Rightarrow> nat \<Rightarrow> callback \<Rightarrow> bool" where
  "put_rejected up w c cb \<longleftrightarrow> cb_done cb \<and>
     (if up w c then statusCode (cb_status cb) = REMOTE_VERSION_MISMATCH
      else \<not> validStatusCode (statusCode (cb_status cb)))"

lemma rejected_put_step:
  assumes honest: "honest_put env up store" and same: "same_drives up store w u"
    and rej: "up w (fst cr) \<longrightarrow> \<not> version_accepted m v (store w (fst cr) k)"
    and step: "(o', u') = executed_operation env t (\<lambda>cb. answered_callback (cb_data cb)) (fresh_put k v m cr) u"
  shows "same_drives up store w u'" and "put_rejected up w (fst cr) (the (op_callback o'))"
proof -
  obtain rep u1 where rep: "env_put env (fst cr) t k v m (snd cr) u = (rep, u1)" by fastforce
  have u: "up u = up w" "store u = store w" using same by (simp_all add: same_drives_def)
  have D: "up u1 = up w" "store u1 = store w"
    "if up w (fst cr) then \<exists>msg. rep = Answered True (Inl (mk_status REMOTE_VERSION_MISMATCH msg)) else failing rep"
    using honest rep rej u unfolding honest_put_def by (metis (full_types))+
  let ?a = "map_reply (\<lambda>_. PutCallback) rep"
  have o': "the (op_callback o') = answered_callback PutCallback ?a"
    "u' = (if connection_broken ?a then env_set_error env (fst cr) u1 else u1)"
    using step by (simp_all add: executed_operation_def finished_def drive_answer_def rep)
  have "same_drives up store u1 (env_set_error env (fst cr) u1)"
    using honest by (simp add: honest_put_def)
  then show "same_drives up store w u'"
    using o'(2) D(1,2) by (simp add: same_drives_def)
  show "put_rejected up w (fst cr) (the (op_callback o'))"
    using D(3) unfolding o'(1) put_rejected_def
    by (auto simp: answer_defs failing_def validStatusCode_def split: if_splits bool.splits)
qed

lemma execute_rejected_puts:
  assumes honest: "honest_put env up store" and ops: "operations op = map (fresh_put k v m) crs"
    and rej: "\<forall>cr \<in> set crs. up w (fst cr) \<longrightarrow> \<not> version_accepted m v (store w (fst cr) k)"
    and exec: "executeOperationVector env t op w = (rmap, op', w')"
  shows "same_drives up store w w'"
    and "list_all2 (put_rejected up w) (map fst crs) (op_callbacks (operations op'))"
proof -
  from execute_answers [OF exec] obtain ws where ws: "length ws = Suc (length crs)" "hd ws = w" "last ws = w'"
    "length (operations op') = length crs"
    "\<forall>i < length crs. (operations op' ! i, ws ! Suc i) =
       executed_operation env t (\<lambda>cb. answered_callback (cb_data cb)) (fresh_put k v m (crs ! i)) (ws ! i)"
    by (auto simp: ops)
  have step: "same_drives up store w (ws ! Suc i) \<and> put_rejected up w (fst (crs ! i)) (the (op_callback (operations op' ! i)))"
    if "i < length crs" "same_drives up store w (ws ! i)" for i
    using rejected_put_step [OF honest that(2) _ ws(5) [rule_format, OF that(1)]] rej that(1) by simp
  have ne: "ws \<noteq> []" using ws(1) by auto
  have same: "same_drives up store w (ws ! i)" if "i \<le> length crs" for i
    using that
  proof (induction i)
    case 0
    then show ?case using ws(2) ne by (simp add: hd_conv_nth [symmetric])
  qed (use step in simp)
  show "same_drives up store w w'"
    using same [of "length crs"] ws(1,3) ne by (simp add: last_conv_nth)
  show "list_all2 (put_rejected up w) (map fst crs) (op_callbacks (operations op'))"
    using step same ws(4) by (auto simp: list_all2_conv_all_nth op_callbacks_def)
qed

lemma put_rejected_counts:
  assumes "list_all2 (put_rejected up w) cs cbs"
  shows "cb_count REMOTE_VERSION_MISMATCH cbs + down_drives up w cs = length cs"
    and "cb_count REMOTE_NOT_FOUND cbs = 0" and "cb_count OK cbs = 0"
  using assms
  by (induction cs cbs rule: list_all2_induct)
    (auto simp: put_rejected_def down_drives_def cb_count_def getResult_def validStatusCode_def split: if_splits)

lemma PUT_status_mismatch:
  assumes codes: "codes_ok num" and m: "rmap_sorted num m" "0 < nData rp" "nData rp \<le> rmap_get num m REMOTE_VERSION_MISMATCH"
    "rmap_get num m OK = 0" "rmap_get num m REMOTE_NOT_FOUND = 0"
  shows "PUT_status rp k m = (mk_status REMOTE_VERSION_MISMATCH [], False)"
proof -
  have "List.find (\<lambda>e. nData rp \<le> snd e) m = Some (REMOTE_VERSION_MISMATCH, rmap_get num m REMOTE_VERSION_MISMATCH)"
  proof (rule find_first_code [OF m(1) _ m(3)])
    show "(REMOTE_VERSION_MISMATCH, rmap_get num m REMOTE_VERSION_MISMATCH) \<in> set m"
      using rmap_get_mem [of num m REMOTE_VERSION_MISMATCH] codes m(2,3) by (simp add: codes_ok_def)
    fix c n assume c: "(c, n) \<in> set m" "nData rp \<le> n"
    have "c \<notin> {OK, REMOTE_NOT_FOUND}"
      using rmap_mem_get [OF m(1) c(1)] c(2) m(2,4,5) by auto
    then show "CompareStatusCode_toInt num REMOTE_VERSION_MISMATCH \<le> CompareStatusCode_toInt num c"
      using codes by (cases "c = REMOTE_VERSION_MISMATCH") (auto simp: codes_ok_def CompareStatusCode_toInt_def intro: less_imp_le)
  qed
  then show ?thesis by (simp add: PUT_status_def numData_def)
qed

lemma PUT_execute_rejected:
  assumes honest: "honest_put env up store" and codes: "codes_ok (env_code env)" and pos: "0 < nData rp"
    and p: "operations (so_op (put_so p)) = map (fresh_put k vold m) crs" "need_indicator (put_so p) = False"
    and crs: "length crs = rp_size rp"
      "\<forall>cr \<in> set crs. up w (fst cr) \<longrightarrow> \<not> version_accepted m vold (store w (fst cr) k)"
    and down: "down_drives up w (map fst crs) \<le> nParity rp"
  shows "\<exists>p' w'. PUT_execute env t rp p w = Some (Inr (mk_status REMOTE_VERSION_MISMATCH []), p', w') \<and>
    \<not> need_indicator (put_so p') \<and> same_drives up store w w'"
proof -
  obtain rm op w' where ex: "executeOperationVector env t (so_op (put_so p)) w = (rm, op, w')" by (metis prod_cases3)
  note o = execute_rejected_puts [OF honest p(1) crs(2) ex]
  note counts = put_rejected_counts [OF o(2)]
  have rm: "rm = rmap_of (env_code env) (operations op)" using execute_rmap [OF ex] by simp
  have get: "rmap_get (env_code env) rm c = cb_count c (op_callbacks (operations op))" for c
    unfolding rm rmap_of_count [OF codes] count_code_cb ..
  obtain b m' where b: "partial_put (env_code env) rm = (b, m')" by fastforce
  note B = partial_put_spec [OF rmap_of_sorted, of "env_code env" "operations op" b m', folded rm, OF b]
  have "\<not> b" using B(1) get counts(3) by simp
  moreover have "nData rp \<le> cb_count REMOTE_VERSION_MISMATCH (op_callbacks (operations op))"
    using counts(1) down crs(1) by (simp add: rp_size_def)
  then have "PUT_status rp (so_key (put_so p)) m' = (mk_status REMOTE_VERSION_MISMATCH [], False)"
    using PUT_status_mismatch [OF codes B(2) pos] B(3) get counts(2,3) by simp
  ultimately show ?thesis
    using o(1) by (simp add: PUT_execute_def Let_def ex b p(2))
qed

lemma do_put_rejected:
  assumes honest: "honest_put env up store" "honest_uuid env up store" and codes: "codes_ok (env_code env)"
    and cl: "cluster_ok lib cl" and size: "length value \<le> nData (redundancy cl) * chunkCapacity cl"
    and rej: "\<forall>c \<in> set (stripe_drives cl k). up w c \<longrightarrow> \<not> version_accepted m v (store w c k)"
    and down: "down_drives up w (stripe_drives cl k) \<le> nParity (redundancy cl)"
  shows "\<exists>c w'. do_put env lib cl (Some k) (Some v) (Some value) vout m w =
      Some (Inr (mk_status REMOTE_VERSION_MISMATCH [], vout), cl\<lparr>redundancy := (redundancy cl)\<lparr>cache := c\<rparr>\<rparr>, w') \<and>
    cluster_ok lib (cl\<lparr>redundancy := (redundancy cl)\<lparr>cache := c\<rparr>\<rparr>) \<and> same_drives up store w w'"
proof -
  let ?rp = "redundancy cl"
  have ok: "rp_ok lib ?rp" and pos: "0 < nData ?rp" using cl by (auto simp: cluster_ok_def rp_ok_def)
  obtain c st where st: "valueToStripe lib cl value = (Inr st, cl\<lparr>redundancy := ?rp\<lparr>cache := c\<rparr>\<rparr>)"
    "rp_ok lib (?rp\<lparr>cache := c\<rparr>)" "length st = rp_size ?rp"
    using valueToStripe_spec [OF ok _ _ size] cl by (auto simp: cluster_ok_def)
  let ?rp' = "?rp\<lparr>cache := c\<rparr>"
  obtain uuid w1 where u: "env_uuid env w = (uuid, w1)" by fastforce
  have u1: "same_drives up store w w1" using honest(2) u by (metis honest_uuid_def snd_conv)
  let ?v = "uuidGenerateEncodeSize uuid (length value)"
  have len': "length st = rp_size ?rp'" using st(3) by (simp add: rp_size_def)
  obtain p where p: "StripeOperation_PUT_new k ?v v st m (connections cl) ?rp' = Inr p"
    "operations (so_op (put_so p)) = map (fresh_put k v m) (stripe_records (connections cl) k ?v st)"
    "so_key (put_so p) = k" "need_indicator (put_so p) = False"
    by (rule PUT_new_proj [OF len']) blast
  let ?crs = "stripe_records (connections cl) k ?v st"
  have fst: "map fst ?crs = stripe_drives cl k" using st(3) by simp
  have rej': "up w1 (fst cr) \<longrightarrow> \<not> version_accepted m v (store w1 (fst cr) k)" if "cr \<in> set ?crs" for cr
  proof -
    have "fst cr \<in> set (map fst ?crs)" using that by (simp del: stripe_records_proj)
    then show ?thesis using rej u1 unfolding fst by (simp add: same_drives_def)
  qed
  have down': "down_drives up w1 (map fst ?crs) \<le> nParity ?rp'"
    using down u1 unfolding fst by (simp add: down_drives_def same_drives_def)
  have lenc: "length ?crs = rp_size ?rp'" and pos': "0 < nData ?rp'" using len' pos by simp_all
  obtain p' w2 where put: "PUT_execute env (operation_timeout cl) ?rp' p w1 =
      Some (Inr (mk_status REMOTE_VERSION_MISMATCH []), p', w2)" "\<not> need_indicator (put_so p')" "same_drives up store w1 w2"
    using PUT_execute_rejected [OF honest(1) codes pos' p(2,4) lenc _ down'] rej' by blast
  have "do_put env lib cl (Some k) (Some v) (Some value) vout m w =
      Some (Inr (mk_status REMOTE_VERSION_MISMATCH [], vout), cl\<lparr>redundancy := ?rp'\<rparr>, w2)"
    using st(1) u p(1) put(1,2) unfolding do_put_def by (simp add: Let_def needsIndicator_def)
  moreover have "cluster_ok lib (cl\<lparr>redundancy := ?rp'\<rparr>)"
    using cl st(2) by (simp add: cluster_ok_def rp_size_def)
  moreover have "same_drives up store w w2"
    using u1 put(3) by (simp add: same_drives_def)
  ultimately show ?thesis by blast
qed

text \<open>One round of the flush loop against a newer version: the put is rejected, the get that follows
  returns the newer value.\<close>

lemma conflict_round:
  assumes honest: "honest_get env up store" "honest_put env up store" "honest_uuid env up store"
    and codes: "codes_ok (env_code env)" and cl: "cluster_ok lib cl"
    and wrap: "no_index_wrap (connections cl) k (nData (redundancy cl))"
    and size: "length value \<le> nData (redundancy cl) * chunkCapacity cl"
    and down: "down_drives up w (stripe_drives cl k) \<le> nParity (redundancy cl)"
    and val: "stored_value lib (redundancy cl) v1 x st"
    and held: "\<forall>i < rp_size (redundancy cl). up w (stripe_drives cl k ! i) \<longrightarrow>
      store w (stripe_drives cl k ! i) k = Some (makeRecord (st ! i) v1)" and "v0 \<noteq> v1"
  obtains cl1 w1 cl2 w2 c where
    "do_put env lib cl (Some k) (Some v0) (Some value) vout REQUIRE_SAME_VERSION w =
      Some (Inr (mk_status REMOTE_VERSION_MISMATCH [], vout), cl1, w1)"
    "cluster_get env lib cl1 (Some k) vin xin w1 = Some (Inr (ok_status, Some v1, Some x), cl2, w2)"
    "cl2 = cl\<lparr>redundancy := (redundancy cl)\<lparr>cache := c\<rparr>\<rparr>" "cluster_ok lib cl2" "same_drives up store w w2"
    "\<forall>c \<in> set (stripe_drives cl k). up w c \<longrightarrow> stored_version (store w c k) = v1"
proof -
  let ?ds = "stripe_drives cl k"
  have kept: "\<exists>i < length ?ds. c = ?ds ! i \<and> store w c k = Some (makeRecord (st ! i) v1)" if "c \<in> set ?ds" "up w c" for c
    using held that by (auto simp: in_set_conv_nth)
  then have stored: "stored_version (store w c k) = v1" if "c \<in> set ?ds" "up w c" for c
    using that by (fastforce simp: stored_version_def makeRecord_def)
  then have "\<forall>c \<in> set ?ds. up w c \<longrightarrow> \<not> version_accepted REQUIRE_SAME_VERSION v0 (store w c k)"
    using \<open>v0 \<noteq> v1\<close> by (auto simp: version_accepted_def)
  with do_put_rejected [OF honest(2,3) codes cl size _ down] obtain c1 w1 where
    put: "do_put env lib cl (Some k) (Some v0) (Some value) vout REQUIRE_SAME_VERSION w =
      Some (Inr (mk_status REMOTE_VERSION_MISMATCH [], vout), cl\<lparr>redundancy := (redundancy cl)\<lparr>cache := c1\<rparr>\<rparr>, w1)"
    "cluster_ok lib (cl\<lparr>redundancy := (redundancy cl)\<lparr>cache := c1\<rparr>\<rparr>)" "same_drives up store w w1" by blast
  let ?cl1 = "cl\<lparr>redundancy := (redundancy cl)\<lparr>cache := c1\<rparr>\<rparr>"
  have ds: "stripe_drives ?cl1 k = ?ds" by (simp add: rp_size_def)
  have w1: "up w1 = up w" "store w1 = store w" using put(3) by (simp_all add: same_drives_def)
  have "filter (\<lambda>c. up w c \<and> store w c k = None) ?ds = []"
    "filter (\<lambda>c. \<not> up w c \<or> store w c k = None) ?ds = filter (\<lambda>c. \<not> up w c) ?ds"
    using kept by (fastforce simp: filter_empty_conv intro!: filter_cong)+
  then have few: "lost_drives up store w1 k ?ds \<le> nParity (redundancy cl)" "absent_drives up store w1 k ?ds = 0"
    using down by (simp_all add: lost_drives_def absent_drives_def down_drives_def w1)
  have "stripe_on_drives up store w1 k v1 st ?ds"
    using held by (simp add: stripe_on_drives_def w1)
  then obtain c2 w2 where "do_get env lib ?cl1 (Some k) vin xin False w1 =
      Some (Inr (ok_status, Some v1, Some x), ?cl1\<lparr>redundancy := (redundancy ?cl1)\<lparr>cache := c2\<rparr>\<rparr>, w2)"
    "cluster_ok lib (?cl1\<lparr>redundancy := (redundancy ?cl1)\<lparr>cache := c2\<rparr>\<rparr>)" "same_drives up store w1 w2"
    using do_get_recovers [OF honest(1) codes put(2), of k v1 x st w1 vin xin] wrap val few ds cl
    by (auto simp: stored_value_cache cluster_ok_def rp_ok_def)
  with put stored show thesis
    by (intro that [of ?cl1 w1 "cl\<lparr>redundancy := (redundancy cl)\<lparr>cache := c2\<rparr>\<rparr>" w2 c2])
      (simp_all add: cluster_get_def same_drives_def)
qed

section \<open>Property\<close>

text \<open>C12: A flush of an outdated block ends, and nothing is lost. When another client has put a newer
  version, and no more drives of the stripe are down than the cluster has parities, the flush returns
  successfully after it was rejected once: the block is clean and holds the value of the other client
  with the bytes of its own writes laid over it. That merged value is what the cluster stores: as long
  as no more of its chunks are lost than there are parities, a get returns it under the version that
  the block then knows.\<close>

theorem stale_flush_lands:
  assumes "honest_get env up store" and "honest_put env up store" and "honest_uuid env up store"
    and "codes_ok (env_code env)" and "cluster_ok lib (kinetic_object s)"
    and "no_index_wrap (connections (kinetic_object s)) (key b) (nData (redundancy (kinetic_object s)))"
    and "ci = KineticCluster_interface env lib cl0"
    and "block_inv ci b" and "local_value b \<noteq> None" and "updates b \<noteq> []"
    and "updates_within (value_size b) (updates b)" and "version b = Some v0"
    and "max_value_size (ci_limits ci) \<le> nData (redundancy (kinetic_object s)) * chunkCapacity (kinetic_object s)"
    and "max_value_size (ci_limits ci) \<le> 2147483647"
    and "down_drives up (kinetic_world s) (stripe_drives (kinetic_object s) (key b)) \<le> nParity (redundancy (kinetic_object s))"
    and "stored_value lib (redundancy (kinetic_object s)) v1 x st" and "length x \<le> max_value_size (ci_limits ci)"
    and "\<forall>i < rp_size (redundancy (kinetic_object s)).
      up (kinetic_world s) (stripe_drives (kinetic_object s) (key b) ! i) \<longrightarrow>
      store (kinetic_world s) (stripe_drives (kinetic_object s) (key b) ! i) (key b) = Some (makeRecord (st ! i) v1)"
    and "v0 \<noteq> v1"
    and "merged = map (\<lambda>i. if covered (updates b) i then block_byte b i
                          else if i < length x then x ! i else CHR 0x00)
                      [0..<merged_size (updates b) (length x)]"
  shows "\<exists>b' s' v2. block_flush (\<lambda>s. env_now env (kinetic_world s)) (b, s) = Some (Inr (), b', s') \<and>
    \<not> dirty b' \<and> block_bytes b' = merged \<and> version b' = Some v2 \<and>
    (\<forall>c \<in> set (stripe_drives (kinetic_object s) (key b)).
       up (kinetic_world s) c \<longrightarrow> store (kinetic_world s') c (key b) \<noteq> None) \<and>
    (\<forall>w. (\<forall>c \<in> set (stripe_drives (kinetic_object s) (key b)). up w c \<longrightarrow>
            store w c (key b) = None \<or>
            up (kinetic_world s) c \<and> store w c (key b) = store (kinetic_world s') c (key b)) \<longrightarrow>
         lost_drives up store w (key b) (stripe_drives (kinetic_object s) (key b)) \<le> nParity (redundancy (kinetic_object s)) \<longrightarrow>
         absent_drives up store w (key b) (stripe_drives (kinetic_object s) (key b)) < nData (redundancy (kinetic_object s)) \<longrightarrow>
         (\<exists>s3. ci_get ci (Some (key b)) None None (s'\<lparr>kinetic_world := w\<rparr>) = Some (Inr (ok_status, Some v2, Some merged), s3)))"
proof -
  let ?cl = "kinetic_object s" and ?w = "kinetic_world s" and ?k = "key b"
  let ?ds = "stripe_drives ?cl ?k" and ?cap = "max_value_size (ci_limits ci)"
  have inv: "value_size b \<le> ?cap" using assms(8) by (simp add: block_inv_def)
  then have "updates_within ?cap (updates b)"
    using assms(11) by (fastforce simp: updates_within_def)
  then have fits: "length merged \<le> nData (redundancy ?cl) * chunkCapacity ?cl" "length merged \<le> 2147483647"
    using merged_size_le [OF _ assms(17)] assms(13,14,20) by fastforce+
  have "length (block_bytes b) \<le> nData (redundancy ?cl) * chunkCapacity ?cl"
    using inv assms(13) by (simp add: block_bytes_def)
  then obtain cl1 w1 cl2 w2 c where
    put1: "do_put env lib ?cl (Some ?k) (Some v0) (Some (block_bytes b)) (Some v0) REQUIRE_SAME_VERSION ?w =
      Some (Inr (mk_status REMOTE_VERSION_MISMATCH [], Some v0), cl1, w1)"
    and get: "cluster_get env lib cl1 (Some ?k) (Some v0) (remote_value b) w1 = Some (Inr (ok_status, Some v1, Some x), cl2, w2)"
    and cl2: "cl2 = ?cl\<lparr>redundancy := (redundancy ?cl)\<lparr>cache := c\<rparr>\<rparr>" "cluster_ok lib cl2" and same: "same_drives up store ?w w2"
    and v1: "\<forall>c \<in> set ?ds. up ?w c \<longrightarrow> stored_version (store ?w c ?k) = v1"
    by (rule conflict_round [OF assms(1-6) _ assms(15,16,18,19)])
  have shape: "rp_size (redundancy cl2) = rp_size (redundancy ?cl)" "connections cl2 = connections ?cl" "chunkCapacity cl2 = chunkCapacity ?cl"
    "nData (redundancy cl2) = nData (redundancy ?cl)" "nParity (redundancy cl2) = nParity (redundancy ?cl)"
    using cl2(1) by (simp_all add: rp_size_def)
  have w2: "up w2 = up ?w" "store w2 = store ?w" using same by (simp_all add: same_drives_def)
  have acc: "\<forall>c \<in> set ?ds. up ?w c \<longrightarrow> version_accepted REQUIRE_SAME_VERSION v1 (store ?w c ?k)"
    using v1 by (simp add: version_accepted_def)
  have down: "down_drives up w2 ?ds \<le> nParity (redundancy ?cl)"
    using assms(15) by (simp add: down_drives_def w2)
  obtain v2 cl3 w3 where put2: "do_put env lib cl2 (Some ?k) (Some v1) (Some merged) (Some v1) REQUIRE_SAME_VERSION w2 =
      Some (Inr (ok_status, Some v2), cl3, w3)"
    and kept: "\<forall>c \<in> set ?ds. up ?w c \<longrightarrow> store w3 c ?k \<noteq> None"
    and read: "\<And>w. (\<forall>c \<in> set ?ds. up w c \<longrightarrow> store w c ?k = None \<or> up ?w c \<and> store w c ?k = store w3 c ?k) \<Longrightarrow>
       lost_drives up store w ?k ?ds \<le> nParity (redundancy ?cl) \<Longrightarrow>
       absent_drives up store w ?k ?ds < nData (redundancy ?cl) \<Longrightarrow>
       \<exists>cl4 w4. cluster_get env lib cl3 (Some ?k) None None w = Some (Inr (ok_status, Some v2, Some merged), cl4, w4)"
    using accepted_put_readable [OF assms(1-4) cl2(2), where w = w2 and key = ?k and mode = REQUIRE_SAME_VERSION and
        version_out = "Some v1", unfolded shape w2, OF assms(6) fits acc down]
    by auto
  let ?s = "\<lambda>cl w. s\<lparr>kinetic_object := cl, kinetic_world := w\<rparr>"
  have calls: "ci_put ci (Some ?k) (Some v0) (Some (block_bytes b)) (Some v0) s =
      Some (Inr (mk_status REMOTE_VERSION_MISMATCH [], Some v0), ?s cl1 w1)"
    "ci_get ci (Some ?k) (Some v0) (remote_value b) (?s cl1 w1) = Some (Inr (ok_status, Some v1, Some x), ?s cl2 w2)"
    "ci_put ci (Some ?k) (Some v1) (Some merged) (Some v1) (?s cl2 w2) = Some (Inr (ok_status, Some v2), ?s cl3 w3)"
    using put1 get put2 by (simp_all add: assms(7) KineticCluster_interface_def kc_call_def put_versioned_def)
  obtain l where "local_value b = Some l" using assms(9) by blast
  then obtain b' where flush: "block_flush (\<lambda>s. env_now env (kinetic_world s)) (b, s) = Some (Inr (), b', ?s cl3 w3)"
    "version b' = Some v2" "block_bytes b' = merged" "\<not> dirty b'"
    using flush_merges [OF assms(8) _ assms(10-12) calls(1) _ calls(2) _ assms(17,20) calls(3)] by auto
  have "\<exists>s3. ci_get ci (Some ?k) None None (?s cl3 w) = Some (Inr (ok_status, Some v2, Some merged), s3)"
    if "\<exists>cl4 w4. cluster_get env lib cl3 (Some ?k) None None w = Some (Inr (ok_status, Some v2, Some merged), cl4, w4)" for w
    using that by (auto simp: assms(7) KineticCluster_interface_def kc_call_def)
  with read kept flush show ?thesis
    by (intro exI [of _ b'] exI [of _ "?s cl3 w3"] exI [of _ v2]) simp
qed

text \<open>On the simulated drives: another client puts eight bytes, and a block that knows some other
  version is flushed with three bytes of its own.\<close>

definition stale_block :: "sim kinetic_state DataBlock" where
  "stale_block = demo_block\<lparr>mode := STANDARD, version := Some ''old'', local_value := Some ''hello'', value_size := 5,
     updates := [(2, 3)]\<rparr>"

theorem stale_flush_lands_witness:
  "\<exists>v cl w b' s'. do_put sim_env sum_lib (kinetic_object demo_state) (Some ''key'') (Some []) (Some ''ABCDEFGH'') None
       REQUIRE_SAME_VERSION (sim_init []) = Some (Inr (ok_status, Some v), cl, w) \<and>
     block_flush demo_now (stale_block, demo_state\<lparr>kinetic_object := cl, kinetic_world := w\<rparr>) = Some (Inr (), b', s') \<and>
     \<not> dirty b' \<and> block_bytes b' = ''ABlloFGH''"
proof -
  let ?cl = "kinetic_object demo_state"
  have cl: "cluster_ok sum_lib ?cl" "nData (redundancy ?cl) = 2" "nParity (redundancy ?cl) = 1"
    "rp_size (redundancy ?cl) = 3" "connections ?cl = 4" "chunkCapacity ?cl = 4"
    using demo_cluster_ok by (simp_all add: demo_state_def cluster_ok_def)
  have "\<exists>v st c w. do_put sim_env sum_lib ?cl (Some ''key'') (Some []) (Some ''ABCDEFGH'') None REQUIRE_SAME_VERSION (sim_init []) =
      Some (Inr (ok_status, Some v), ?cl\<lparr>redundancy := (redundancy ?cl)\<lparr>cache := c\<rparr>\<rparr>, w) \<and>
    rp_ok sum_lib ((redundancy ?cl)\<lparr>cache := c\<rparr>) \<and> stored_value sum_lib (redundancy ?cl) v ''ABCDEFGH'' st \<and>
    length st = rp_size (redundancy ?cl) \<and>
    written sim_up sim_records ''key'' (stripe_records (connections ?cl) ''key'' v st) (sim_init []) w"
    by (rule do_put_accepted [OF sim_honest_put sim_honest_uuid sim_codes cl(1)])
      (simp_all add: cl sim_init_def version_accepted_def stored_version_def down_drives_def)
  then obtain v st c w where put: "do_put sim_env sum_lib ?cl (Some ''key'') (Some []) (Some ''ABCDEFGH'') None REQUIRE_SAME_VERSION
      (sim_init []) = Some (Inr (ok_status, Some v), ?cl\<lparr>redundancy := (redundancy ?cl)\<lparr>cache := c\<rparr>\<rparr>, w)"
    "rp_ok sum_lib ((redundancy ?cl)\<lparr>cache := c\<rparr>)" "stored_value sum_lib (redundancy ?cl) v ''ABCDEFGH'' st" "length st = 3"
    "written sim_up sim_records ''key'' (stripe_records 4 ''key'' v st) (sim_init []) w"
    using cl by auto
  let ?s = "demo_state\<lparr>kinetic_object := ?cl\<lparr>redundancy := (redundancy ?cl)\<lparr>cache := c\<rparr>\<rparr>, kinetic_world := w\<rparr>"
  have "v \<noteq> ''old''"
    using put(3) by (auto simp: stored_value_def uuidDecodeSize_def)
  obtain x0 x1 x2 where st: "st = [x0, x1, x2]"
    using put(4) by (auto simp: length_Suc_conv numeral_eq_Suc)
  have "stripe_records 4 ''key'' v st = [(1, makeRecord x0 v), (2, makeRecord x1 v), (3, makeRecord x2 v)]"
    unfolding stripe_records_def put(4) demo_drives by (simp add: st)
  then have held: "\<And>c. \<not> sim_down w c" "\<forall>i < 3. sim_records w ([1, 2, 3] ! i) ''key'' = Some (makeRecord (st ! i) v)"
    using put(5) by (simp_all add: written_def sim_init_def fun_eq_iff st less_Suc_eq numeral_eq_Suc)
  have now: "demo_now = (\<lambda>s. env_now sim_env (kinetic_world s))"
    by (rule ext) (simp add: demo_now_def)
  have inv: "block_inv demo_ci stale_block"
    by (simp add: block_inv_def stale_block_def demo_block_def buffer_def)
  have s: "cluster_ok sum_lib (kinetic_object ?s)" "connections (kinetic_object ?s) = 4" "chunkCapacity (kinetic_object ?s) = 4"
    "rp_size (redundancy (kinetic_object ?s)) = 3" "nData (redundancy (kinetic_object ?s)) = 2"
    "nParity (redundancy (kinetic_object ?s)) = 1" "kinetic_world ?s = w"
    "stored_value sum_lib (redundancy (kinetic_object ?s)) v ''ABCDEFGH'' st"
    using cl put(2,3) by (simp_all add: cluster_ok_def rp_size_def stored_value_cache)
  have b: "local_value stale_block = Some ''hello''" "updates stale_block = [(2, 3)]" "value_size stale_block = 5"
    "version stale_block = Some ''old''" "key stale_block = ''key''"
    by (simp_all add: stale_block_def demo_block_def)
  have merged: "''ABlloFGH'' = map (\<lambda>i. if covered [(2, 3)] i then block_byte stale_block i
      else if i < length ''ABCDEFGH'' then ''ABCDEFGH'' ! i else CHR 0x00) [0..<merged_size [(2, 3)] (length ''ABCDEFGH'')]"
    by (simp add: block_byte_def buffer_def b upt_rec)
  have p: "no_index_wrap 4 ''key'' 2" "Some ''hello'' \<noteq> None" "[(2 :: nat, 3 :: nat)] \<noteq> []" "updates_within 5 [(2, 3)]"
    "max_value_size (ci_limits demo_ci) \<le> 2 * 4" "max_value_size (ci_limits demo_ci) \<le> 2147483647"
    "down_drives sim_up w [1, 2, 3] \<le> 1" "length ''ABCDEFGH'' \<le> max_value_size (ci_limits demo_ci)"
    "\<forall>i < 3. sim_up w ([1, 2, 3] ! i) \<longrightarrow> sim_records w ([1, 2, 3] ! i) ''key'' = Some (makeRecord (st ! i) v)"
    using held by (simp_all add: no_index_wrap_def down_drives_def updates_within_def)
  have "\<exists>b' s'. block_flush (\<lambda>s. env_now sim_env (kinetic_world s)) (stale_block, ?s) = Some (Inr (), b', s') \<and> \<not> dirty b' \<and>
      block_bytes b' = ''ABlloFGH''"
    using stale_flush_lands [OF sim_honest_get sim_honest_put sim_honest_uuid sim_codes s(1) _ demo_ci_def inv,
        unfolded b s(2-7) demo_drives, OF p(1-4) refl p(5-7) s(8) p(8,9) \<open>v \<noteq> ''old''\<close> [symmetric] merged]
    by blast
  with put(1) show ?thesis unfolding now by blast
qed

end
