(* ===== verification/Background_Handler.thy ===== *)
theory Background_Handler
  imports Kio_Prelude "HOL-Library.Multiset"
begin

text \<open>
  \<^verbatim>\<open>BackgroundOperationHandler\<close> (src/BackgroundOperationHandler.cc): the thread pool. With a queue
  capacity it keeps a bounded queue that worker threads empty; without one it starts a thread per
  function. The handler is a transition system: every step is what one thread does between two
  points where others may interfere (taking or releasing the queue mutex, changing an atomic).

  The state holds the members of the class, the position of every thread it started, the number of
  callers that wait in \<^verbatim>\<open>run\<close>, and the position of the destructor and of a running
  \<^verbatim>\<open>changeConfiguration\<close>. The fields \<open>pushed\<close>, \<open>taken\<close>, \<open>spawned\<close> and \<open>executed\<close> record the history for
  the statements of correctness; nothing depends on them. A caught exception of a function does not
  differ from a normal return.
\<close>

section \<open>Model\<close>

datatype 'f thread =
    Worker_starting
  | Worker_idle
  | Worker_busy 'f
  | Worker_leaving
  | Task_starting 'f
  | Task_busy 'f
  | Ended

datatype phase = Alive | Draining | Stopping | Destroyed

record 'f handler =
  q :: "'f list"
  queue_capacity :: nat
  thread_capacity :: nat
  numthreads :: nat
  shutdown :: bool
  threads :: "'f thread list"
  waiting :: nat
  phase :: phase
  reconfiguring :: "(nat \<times> nat) option"
  pushed :: "'f list"
  taken :: "'f list"
  spawned :: "'f list"
  executed :: "'f list"

definition handler_init :: "nat \<Rightarrow> nat \<Rightarrow> 'f handler" where
  "handler_init worker_threads queue_depth =
     \<lparr>q = [], queue_capacity = queue_depth, thread_capacity = worker_threads, numthreads = 0, shutdown = False,
      threads = [], waiting = 0, phase = Alive, reconfiguring = None, pushed = [], taken = [], spawned = [], executed = []\<rparr>"

definition BackgroundOperationHandler_new :: "nat \<Rightarrow> nat \<Rightarrow> 'f handler res" where
  "BackgroundOperationHandler_new worker_threads queue_depth =
     (if queue_depth \<noteq> 0 then
        if worker_threads = 0 then Inl (System_error invalid_argument)
        else Inr ((handler_init worker_threads queue_depth)\<lparr>threads := replicate worker_threads Worker_starting\<rparr>)
      else Inr (handler_init worker_threads queue_depth))"

subsection \<open>Submitting a function\<close>

definition push :: "'f \<Rightarrow> 'f handler \<Rightarrow> 'f handler" where
  "push f h = h\<lparr>q := q h @ [f], pushed := pushed h @ [f]\<rparr>"

definition try_run_noqueue :: "'f \<Rightarrow> 'f handler \<Rightarrow> bool \<times> 'f handler" where
  "try_run_noqueue f h =
     (if thread_capacity h \<le> numthreads h then (False, h)
      else (True, h\<lparr>threads := threads h @ [Task_starting f], spawned := spawned h @ [f]\<rparr>))"

text \<open>Without room for a thread the caller executes the function itself.\<close>

definition run_noqueue :: "'f \<Rightarrow> 'f handler \<Rightarrow> 'f handler" where
  "run_noqueue f h =
     (case try_run_noqueue f h of
        (ok, h) \<Rightarrow> if \<not> ok then h\<lparr>spawned := spawned h @ [f], executed := executed h @ [f]\<rparr> else h)"

text \<open>\<^verbatim>\<open>run\<close> in queue mode pushes and then waits until the queue is within its capacity; the second
  half is the step \<open>run_return\<close>.\<close>

definition run_submit :: "'f \<Rightarrow> 'f handler \<Rightarrow> 'f handler" where
  "run_submit f h =
     (if queue_capacity h = 0 then run_noqueue f h else (push f h)\<lparr>waiting := waiting h + 1\<rparr>)"

definition try_run :: "'f \<Rightarrow> 'f handler \<Rightarrow> bool \<times> 'f handler" where
  "try_run f h =
     (if queue_capacity h = 0 then try_run_noqueue f h
      else if queue_capacity h \<le> length (q h) then (False, h)
      else (True, push f h))"

subsection \<open>Threads\<close>

text \<open>One step of thread \<open>t\<close>; \<open>None\<close> when it has to wait or has ended.\<close>

definition thread_step :: "'f handler \<Rightarrow> 'f thread \<Rightarrow> ('f thread \<times> 'f handler) option" where
  "thread_step h t =
     (case t of
        Worker_starting \<Rightarrow> Some (Worker_idle, h\<lparr>numthreads := numthreads h + 1\<rparr>)
      | Worker_idle \<Rightarrow>
          if shutdown h then Some (Worker_leaving, h)
          else (case q h of
                  [] \<Rightarrow> None
                | f # fs \<Rightarrow> Some (Worker_busy f, h\<lparr>q := fs, taken := taken h @ [f]\<rparr>))
      | Worker_busy f \<Rightarrow> Some (Worker_idle, h\<lparr>executed := executed h @ [f]\<rparr>)
      | Worker_leaving \<Rightarrow> Some (Ended, h\<lparr>numthreads := numthreads h - 1\<rparr>)
      | Task_starting f \<Rightarrow> Some (Task_busy f, h\<lparr>numthreads := numthreads h + 1\<rparr>)
      | Task_busy f \<Rightarrow> Some (Ended, h\<lparr>executed := executed h @ [f], numthreads := numthreads h - 1\<rparr>)
      | Ended \<Rightarrow> None)"

subsection \<open>Configuration and destruction\<close>

definition apply_configuration :: "nat \<Rightarrow> nat \<Rightarrow> 'f handler \<Rightarrow> 'f handler" where
  "apply_configuration worker_threads queue_depth h =
     h\<lparr>threads := threads h @
         (if queue_depth \<noteq> 0
          then replicate (worker_threads - (if queue_capacity h \<noteq> 0 then numthreads h else 0)) Worker_starting else []),
       thread_capacity := worker_threads, queue_capacity := queue_depth\<rparr>"

definition changeConfiguration :: "nat \<Rightarrow> nat \<Rightarrow> 'f handler \<Rightarrow> 'f handler" where
  "changeConfiguration worker_threads queue_depth h =
     (if queue_capacity h \<noteq> 0 \<and> worker_threads < numthreads h
      then h\<lparr>shutdown := True, reconfiguring := Some (worker_threads, queue_depth)\<rparr>
      else apply_configuration worker_threads queue_depth h)"

inductive step :: "'f handler \<Rightarrow> 'f handler \<Rightarrow> bool" where
  submit: "phase h = Alive \<Longrightarrow> step h (run_submit f h)"
| run_return: "0 < waiting h \<Longrightarrow> length (q h) \<le> queue_capacity h \<Longrightarrow> step h (h\<lparr>waiting := waiting h - 1\<rparr>)"
| try_submit: "phase h = Alive \<Longrightarrow> step h (snd (try_run f h))"
| thread: "i < length (threads h) \<Longrightarrow> thread_step h (threads h ! i) = Some (t, h') \<Longrightarrow>
    step h (h'\<lparr>threads := (threads h')[i := t]\<rparr>)"
| configure: "phase h = Alive \<Longrightarrow> reconfiguring h = None \<Longrightarrow> step h (changeConfiguration worker_threads queue_depth h)"
| configured: "reconfiguring h = Some (worker_threads, queue_depth) \<Longrightarrow> numthreads h = 0 \<Longrightarrow>
    step h (apply_configuration worker_threads queue_depth (h\<lparr>shutdown := False, reconfiguring := None\<rparr>))"
| destroy: "phase h = Alive \<Longrightarrow> reconfiguring h = None \<Longrightarrow> step h (h\<lparr>phase := Draining\<rparr>)"
| drained: "phase h = Draining \<Longrightarrow> q h = [] \<Longrightarrow> step h (h\<lparr>phase := Stopping, shutdown := True\<rparr>)"
| stopped: "phase h = Stopping \<Longrightarrow> numthreads h = 0 \<Longrightarrow> step h (h\<lparr>phase := Destroyed\<rparr>)"

inductive reachable :: "'f handler \<Rightarrow> bool" where
  start: "BackgroundOperationHandler_new worker_threads queue_depth = Inr h \<Longrightarrow> reachable h"
| more: "reachable h \<Longrightarrow> step h h' \<Longrightarrow> reachable h'"

section \<open>Lemmas\<close>

fun task_of :: "'f thread \<Rightarrow> 'f multiset" where
  "task_of (Worker_busy f) = {#f#}"
| "task_of (Task_starting f) = {#f#}"
| "task_of (Task_busy f) = {#f#}"
| "task_of t = {#}"

fun counted :: "'f thread \<Rightarrow> bool" where
  "counted Worker_idle = True"
| "counted (Worker_busy f) = True"
| "counted Worker_leaving = True"
| "counted (Task_busy f) = True"
| "counted t = False"

definition in_flight :: "'f handler \<Rightarrow> 'f multiset" where
  "in_flight h = sum_list (map task_of (threads h))"

definition handler_inv :: "'f handler \<Rightarrow> bool" where
  "handler_inv h \<longleftrightarrow>
     pushed h = taken h @ q h \<and>
     mset (taken h) + mset (spawned h) = mset (executed h) + in_flight h \<and>
     numthreads h = length (filter counted (threads h)) \<and>
     (phase h \<in> {Stopping, Destroyed} \<longrightarrow> q h = [] \<and> shutdown h) \<and>
     (reconfiguring h \<noteq> None \<longrightarrow> phase h = Alive)"


lemma in_flight_update:
  assumes "i < length ts"
  shows "sum_list (map task_of (ts[i := t])) + task_of (ts ! i) = sum_list (map task_of ts) + task_of t"
proof -
  have "sum_list (map task_of ts) = sum_list (map task_of (take i ts @ ts ! i # drop (Suc i) ts))"
    using id_take_nth_drop [OF assms] by simp
  then show ?thesis
    using assms by (simp add: upd_conv_take_nth_drop del: append_take_drop_id)
qed

lemma counted_update:
  assumes "i < length ts"
  shows "length (filter counted (ts[i := t])) + (if counted (ts ! i) then 1 else 0) =
    length (filter counted ts) + (if counted t then 1 else 0)"
proof -
  have "length (filter counted ts) = length (filter counted (take i ts @ ts ! i # drop (Suc i) ts))"
    using id_take_nth_drop [OF assms] by simp
  then show ?thesis
    using assms by (simp add: upd_conv_take_nth_drop)
qed

lemma sum_list_replicate_empty [simp]: "sum_list (replicate n ({#} :: 'f multiset)) = {#}"
  by (induction n) simp_all

lemma filter_counted_starting [simp]: "filter counted (replicate n Worker_starting) = []"
  by (induction n) simp_all

lemma handler_inv_new:
  "BackgroundOperationHandler_new w d = Inr h \<Longrightarrow> handler_inv h"
  by (auto simp: BackgroundOperationHandler_new_def handler_inv_def handler_init_def in_flight_def
      split: if_splits)

lemma handler_inv_submit:
  "handler_inv h \<Longrightarrow> phase h = Alive \<Longrightarrow> handler_inv (run_submit f h)"
  "handler_inv h \<Longrightarrow> phase h = Alive \<Longrightarrow> handler_inv (snd (try_run f h))"
  by (auto simp: handler_inv_def run_submit_def run_noqueue_def try_run_def try_run_noqueue_def push_def in_flight_def)

lemma handler_inv_configuration:
  "handler_inv h \<Longrightarrow> handler_inv (apply_configuration w d h)"
  "handler_inv h \<Longrightarrow> phase h = Alive \<Longrightarrow> handler_inv (changeConfiguration w d h)"
  by (auto simp: handler_inv_def apply_configuration_def changeConfiguration_def in_flight_def)

lemma thread_step_keeps:
  assumes "thread_step h t0 = Some (t, h')"
  shows "threads h' = threads h" "phase h' = phase h" "reconfiguring h' = reconfiguring h" "shutdown h' = shutdown h"
    "pushed h' = pushed h" "spawned h' = spawned h" "taken h' @ q h' = taken h @ q h" "q h = [] \<Longrightarrow> q h' = []"
  using assms by (auto simp: thread_step_def split: thread.splits if_splits list.splits)

lemma thread_step_tasks:
  assumes "thread_step h t0 = Some (t, h')"
  shows "mset (taken h') + mset (executed h) + task_of t0 = mset (taken h) + mset (executed h') + task_of t"
  using assms by (auto simp: thread_step_def split: thread.splits if_splits list.splits)

lemma thread_step_count:
  assumes "thread_step h t0 = Some (t, h')" and "counted t0 \<Longrightarrow> 0 < numthreads h"
  shows "numthreads h' + (if counted t0 then 1 else 0) = numthreads h + (if counted t then 1 else 0)"
  using assms by (auto simp: thread_step_def split: thread.splits if_splits list.splits)

lemma mset_transfer:
  fixes T :: "'f multiset"
  assumes "T + S = E + F" and "T' + E + a = T + E' + b" and "F' + a = F + b"
  shows "T' + S = E' + F'"
proof -
  have "(T' + S) + (E + a) = (T + S) + (E' + b)"
    using arg_cong [OF assms(2), of "\<lambda>x. x + S"] by (simp add: ac_simps)
  also have "\<dots> = E' + (F + b) + E"
    using assms(1) by (simp add: ac_simps)
  also have "\<dots> = (E' + F') + (E + a)"
    unfolding assms(3) [symmetric] by (simp add: ac_simps)
  finally show ?thesis by (rule add_right_imp_eq)
qed

lemma handler_inv_thread:
  assumes "handler_inv h" and "i < length (threads h)" and "thread_step h (threads h ! i) = Some (t, h')"
  shows "handler_inv (h'\<lparr>threads := (threads h')[i := t]\<rparr>)"
proof -
  note keeps = thread_step_keeps [OF assms(3)]
  have inv: "pushed h = taken h @ q h" "mset (taken h) + mset (spawned h) = mset (executed h) + in_flight h"
    "numthreads h = length (filter counted (threads h))" "phase h \<in> {Stopping, Destroyed} \<longrightarrow> q h = [] \<and> shutdown h"
    "reconfiguring h \<noteq> None \<longrightarrow> phase h = Alive"
    using assms(1) by (simp_all add: handler_inv_def)
  have "0 < numthreads h" if "counted (threads h ! i)"
    using that assms(2) inv(3) by (auto simp: filter_empty_conv)
  then have count: "numthreads h' = length (filter counted ((threads h)[i := t]))"
    using thread_step_count [OF assms(3)] counted_update [OF assms(2), of t] inv(3) by (simp split: if_splits)
  have "mset (taken h') + mset (spawned h) = mset (executed h') + sum_list (map task_of ((threads h)[i := t]))"
    by (rule mset_transfer [OF inv(2) thread_step_tasks [OF assms(3)]])
      (simp only: in_flight_def in_flight_update [OF assms(2)])
  with count keeps inv(1,4,5) show ?thesis
    by (simp add: handler_inv_def in_flight_def)
qed

lemma handler_inv_step: "step h h' \<Longrightarrow> handler_inv h \<Longrightarrow> handler_inv h'"
proof (induction rule: step.induct)
  case (configured h w d)
  then have "handler_inv (h\<lparr>shutdown := False, reconfiguring := None\<rparr>)"
    by (auto simp: handler_inv_def in_flight_def)
  then show ?case by (rule handler_inv_configuration(1))
next
  case (thread i h t h')
  then show ?case by (intro handler_inv_thread)
qed (simp_all add: handler_inv_submit handler_inv_configuration, auto simp: handler_inv_def in_flight_def)

lemma handler_inv_reachable: "reachable h \<Longrightarrow> handler_inv h"
  by (induction rule: reachable.induct) (auto intro: handler_inv_new handler_inv_step)


lemma in_flight_uncounted:
  assumes "filter counted ts = []"
  shows "sum_list (map task_of ts) = mset (concat (map (\<lambda>t. case t of Task_starting f \<Rightarrow> [f] | _ \<Rightarrow> []) ts))"
  using assms
proof (induction ts)
  case (Cons t ts)
  then show ?case by (cases t) (auto split: if_splits)
qed simp

section \<open>Properties\<close>

text \<open>C5: Every function handed to the pool is executed exactly once, and queued functions are started in
  the order of submission: in every reachable state the submitted functions are those taken by
  workers, in order, followed by the queue; and the functions that were taken or given a thread of
  their own are, counted with multiplicity, those that ran and those a thread holds. When the
  destructor finds no running thread, all queued functions have been executed, and only threads that
  have not begun yet still hold one.\<close>

theorem every_function_runs_once:
  assumes "reachable h"
  shows "pushed h = taken h @ q h \<and> mset (taken h) + mset (spawned h) = mset (executed h) + in_flight h \<and>
    (phase h = Stopping \<and> numthreads h = 0 \<longrightarrow>
       mset (pushed h) + mset (spawned h) =
       mset (executed h) + mset (concat (map (\<lambda>t. case t of Task_starting f \<Rightarrow> [f] | _ \<Rightarrow> []) (threads h))))"
proof -
  note inv = handler_inv_reachable [OF assms, unfolded handler_inv_def]
  have "mset (pushed h) + mset (spawned h) =
      mset (executed h) + mset (concat (map (\<lambda>t. case t of Task_starting f \<Rightarrow> [f] | _ \<Rightarrow> []) (threads h)))"
    if "phase h = Stopping" "numthreads h = 0"
  proof -
    have "filter counted (threads h) = []" "q h = []"
      using that inv by auto
    with inv in_flight_uncounted show ?thesis
      by (simp add: in_flight_def)
  qed
  with inv show ?thesis by blast
qed

text \<open>A run with one worker: the function \<open>7\<close> is queued, taken and executed, and the handler is destroyed.\<close>

definition demo_run :: "nat handler" where
  "demo_run =
     \<lparr>q = [], queue_capacity = 1, thread_capacity = 1, numthreads = 0, shutdown = True, threads = [Ended],
      waiting = 0, phase = Stopping, reconfiguring = None, pushed = [7], taken = [7], spawned = [], executed = [7]\<rparr>"

lemma reachable_thread:
  assumes "reachable h" and "i < length (threads h)" and "thread_step h (threads h ! i) = Some (t, h')"
    and "h2 = h'\<lparr>threads := (threads h')[i := t]\<rparr>"
  shows "reachable h2"
  unfolding assms(4) by (rule reachable.more [OF assms(1) step.thread [OF assms(2,3)]])

lemma demo_run_reachable: "reachable demo_run"
proof -
  let ?h0 = "(handler_init 1 1)\<lparr>threads := [Worker_starting]\<rparr> :: nat handler"
  have 0: "reachable ?h0"
    by (rule reachable.start [of 1 1]) (simp add: BackgroundOperationHandler_new_def)
  let ?h1 = "snd (try_run 7 ?h0)"
  have 1: "reachable ?h1"
    by (rule reachable.more [OF 0 step.try_submit]) (simp add: handler_init_def)
  note defs = handler_init_def try_run_def push_def thread_step_def
  let ?h2 = "?h1\<lparr>numthreads := 1, threads := [Worker_idle]\<rparr>"
  have 2: "reachable ?h2"
    by (rule reachable_thread [OF 1, of 0]) (simp_all add: defs, (simp_all)?)
  let ?h3 = "?h2\<lparr>q := [], taken := [7], threads := [Worker_busy 7]\<rparr>"
  have 3: "reachable ?h3"
    by (rule reachable_thread [OF 2, of 0]) (simp_all add: defs, (simp_all)?)
  let ?h4 = "?h3\<lparr>executed := [7], threads := [Worker_idle]\<rparr>"
  have 4: "reachable ?h4"
    by (rule reachable_thread [OF 3, of 0]) (simp_all add: defs, (simp_all)?)
  have 5: "reachable (?h4\<lparr>phase := Draining\<rparr>)"
    by (rule reachable.more [OF 4 step.destroy]) (simp_all add: defs)
  have 6: "reachable (?h4\<lparr>phase := Draining, phase := Stopping, shutdown := True\<rparr>)"
    using reachable.more [OF 5 step.drained] by (simp add: defs)
  let ?h6 = "?h4\<lparr>phase := Stopping, shutdown := True\<rparr>"
  have 6: "reachable ?h6" using 6 by (simp add: defs)
  let ?h7 = "?h6\<lparr>threads := [Worker_leaving]\<rparr>"
  have 7: "reachable ?h7"
    by (rule reachable_thread [OF 6, of 0]) (simp_all add: defs, (simp_all)?)
  show ?thesis
    by (rule reachable_thread [OF 7, of 0]) (simp_all add: defs demo_run_def, (simp_all)?)
qed

theorem every_function_runs_once_witness:
  "reachable demo_run \<and> mset (pushed demo_run) + mset (spawned demo_run) = mset (executed demo_run)"
  using every_function_runs_once [OF demo_run_reachable] demo_run_reachable by (simp add: demo_run_def)

text \<open>A full queue is refused and an accepted function never exceeds the capacity: \<^verbatim>\<open>try_run\<close>
  leaves the handler as it was when it says no, and when it says yes in queue mode the queue holds at
  most its capacity, with the function at its end.\<close>

lemma try_run_bounded:
  assumes "try_run f h = (ok, h')"
  shows "(\<not> ok \<longrightarrow> h' = h) \<and>
    (ok \<and> queue_capacity h \<noteq> 0 \<longrightarrow> q h' = q h @ [f] \<and> length (q h') \<le> queue_capacity h') \<and>
    (ok \<and> queue_capacity h = 0 \<longrightarrow> numthreads h < thread_capacity h \<and> threads h' = threads h @ [Task_starting f])"
  using assms by (auto simp: try_run_def try_run_noqueue_def push_def split: if_splits)

lemma try_run_example:
  "q (snd (try_run (7::nat) (handler_init 1 1))) = [7] \<and>
   fst (try_run 8 (snd (try_run (7::nat) (handler_init 1 1)))) = False"
proof
  show "q (snd (try_run (7::nat) (handler_init 1 1))) = [7]"
    using try_run_bounded [of 7 "handler_init 1 1 :: nat handler" True "snd (try_run 7 (handler_init 1 1))"]
    by (simp add: try_run_def push_def handler_init_def)
  show "fst (try_run 8 (snd (try_run (7::nat) (handler_init 1 1)))) = False"
    by (simp add: try_run_def push_def handler_init_def)
qed

text \<open>C40: Threads that have not begun are invisible to the thread count. The destructor can finish while a
  worker thread that was started earlier has yet to touch the object, and without a queue more
  threads can run at once than the configured limit, because the limit is compared with a count that
  the new threads raise themselves.\<close>

theorem starting_threads_are_not_counted:
  "(\<exists>h :: nat handler. reachable h \<and> phase h = Destroyed \<and> Worker_starting \<in> set (threads h)) \<and>
   (\<exists>h :: nat handler. reachable h \<and> queue_capacity h = 0 \<and> thread_capacity h = 1 \<and> numthreads h = 2)"
proof
  let ?h0 = "(handler_init 1 1)\<lparr>threads := [Worker_starting]\<rparr> :: nat handler"
  have 0: "reachable ?h0"
    by (rule reachable.start [of 1 1]) (simp add: BackgroundOperationHandler_new_def)
  have 1: "reachable (?h0\<lparr>phase := Draining\<rparr>)"
    by (rule reachable.more [OF 0 step.destroy]) (simp_all add: handler_init_def)
  have 2: "reachable ((?h0\<lparr>phase := Draining\<rparr>)\<lparr>phase := Stopping, shutdown := True\<rparr>)"
    by (rule reachable.more [OF 1 step.drained]) (simp_all add: handler_init_def)
  have "reachable ((?h0\<lparr>phase := Draining\<rparr>)\<lparr>phase := Stopping, shutdown := True\<rparr>\<lparr>phase := Destroyed\<rparr>)"
    by (rule reachable.more [OF 2 step.stopped]) (simp_all add: handler_init_def)
  then show "\<exists>h :: nat handler. reachable h \<and> phase h = Destroyed \<and> Worker_starting \<in> set (threads h)"
    by (intro exI conjI) (assumption, simp_all)
next
  let ?g0 = "handler_init 1 0 :: nat handler"
  have 0: "reachable ?g0"
    by (rule reachable.start [of 1 0]) (simp add: BackgroundOperationHandler_new_def)
  let ?g2 = "snd (try_run 8 (snd (try_run 7 ?g0)))"
  have 1: "reachable (snd (try_run 7 ?g0))"
    by (rule reachable.more [OF 0 step.try_submit]) (simp add: handler_init_def)
  have 2: "reachable ?g2"
    by (rule reachable.more [OF 1 step.try_submit]) (simp add: handler_init_def try_run_def try_run_noqueue_def)
  note defs = handler_init_def try_run_def try_run_noqueue_def thread_step_def
  have 3: "reachable (?g2\<lparr>numthreads := 1, threads := [Task_busy 7, Task_starting 8]\<rparr>)"
    by (rule reachable_thread [OF 2, of 0]) (simp_all add: defs, (simp_all)?)
  have 4: "reachable (?g2\<lparr>numthreads := 2, threads := [Task_busy 7, Task_busy 8]\<rparr>)"
    by (rule reachable_thread [OF 3, of 1]) (simp_all add: defs, (simp_all)?)
  then show "\<exists>h :: nat handler. reachable h \<and> queue_capacity h = 0 \<and> thread_capacity h = 1 \<and> numthreads h = 2"
    by (intro exI conjI) (assumption, simp_all add: defs)
qed

end
