(* ===== verification/Data_Cache.thy ===== *)
theory Data_Cache
  imports Data_Block Background_Handler
begin

text \<open>
  \<^verbatim>\<open>DataCache\<close> (src/DataCache.cc): the cache of data blocks that all files share.

  Blocks live in a heap, because a block is shared by the cache, by the files that use it and by
  background tasks: an address stands for a \<^verbatim>\<open>shared_ptr<DataBlock>\<close>. A cache item is a node of a
  \<^verbatim>\<open>std::list\<close> that keeps its block for its whole life, so the address of the block also identifies
  the item and an iterator to it; \<open>lru\<close> and \<open>unused_items\<close> are the two lists. \<^verbatim>\<open>std::set<cache_iterator>\<close>
  is ordered by the address of the block. A file is known by the address of its \<^verbatim>\<open>FileIo\<close> object.

  \<^verbatim>\<open>data.unique()\<close> holds when nothing but the item refers to the block: no caller (\<open>held\<close>) and no
  task of the thread pool. Comparisons with \<^verbatim>\<open>double\<close> values are made exactly.
  A \<^verbatim>\<open>std::list\<close> iterator that is decremented after its node left the list has undefined behaviour.
\<close>

section \<open>Model\<close>

datatype task = Cache_flush nat | File_flush nat nat | Readahead nat

fun task_block :: "task \<Rightarrow> nat" where
  "task_block (Cache_flush a) = a"
| "task_block (File_flush f a) = a"
| "task_block (Readahead a) = a"

record 's kio_state =
  world :: 's
  blocks :: "nat \<Rightarrow> 's DataBlock"
  next_block :: nat
  held :: "nat list"
  pool :: "task handler"
  cache_capacity :: nat
  current_size :: nat
  unused_size :: nat
  lru :: "nat list"
  unused_items :: "nat list"
  item_owners :: "nat \<Rightarrow> nat set"
  last_access :: "nat \<Rightarrow> nat"
  lookup :: "string \<Rightarrow> nat option"
  owner_tables :: "nat \<Rightarrow> nat set option"

type_synonym ('s, 'a) kio_op = "('s kio_state, 'a) kio"

text \<open>The constructor of the cache on an empty heap.\<close>

definition DataCache_new :: "nat \<Rightarrow> task handler \<Rightarrow> 's DataBlock \<Rightarrow> 's \<Rightarrow> 's kio_state" where
  "DataCache_new cap p b0 s =
     \<lparr>world = s, blocks = (\<lambda>_. b0), next_block = 0, held = [], pool = p, cache_capacity = cap, current_size = 0,
      unused_size = 0, lru = [], unused_items = [], item_owners = (\<lambda>_. {}), last_access = (\<lambda>_. 0),
      lookup = (\<lambda>_. None), owner_tables = (\<lambda>_. None)\<rparr>"

definition cache_changeConfiguration :: "nat \<Rightarrow> ('s, unit) kio_op" where
  "cache_changeConfiguration cap = modify (\<lambda>st. st\<lparr>cache_capacity := cap\<rparr>)"

subsection \<open>Access\<close>

definition on_block :: "nat \<Rightarrow> ('s, 'a) block_op \<Rightarrow> ('s, 'a) kio_op" where
  "on_block a m st =
     map_option (\<lambda>(r, b, s). (r, st\<lparr>blocks := (blocks st)(a := b), world := s\<rparr>)) (m (blocks st a, world st))"

definition the_time :: "('s \<Rightarrow> nat) \<Rightarrow> ('s, nat) kio_op" where
  "the_time now = asks (\<lambda>st. now (world st))"

definition pool_tasks :: "task handler \<Rightarrow> task list" where
  "pool_tasks h = q h @ concat (map (\<lambda>t. case t of Worker_busy f \<Rightarrow> [f] | Task_starting f \<Rightarrow> [f]
     | Task_busy f \<Rightarrow> [f] | _ \<Rightarrow> []) (threads h))"

definition unique :: "'s kio_state \<Rightarrow> nat \<Rightarrow> bool" where
  "unique st a \<longleftrightarrow> a \<notin> set (held st) \<and> a \<notin> task_block ` set (pool_tasks (pool st))"

definition owner_set :: "nat set option \<Rightarrow> nat set" where
  "owner_set x = (case x of None \<Rightarrow> {} | Some xs \<Rightarrow> xs)"

subsection \<open>Removing an item\<close>

text \<open>\<^verbatim>\<open>owner_tables[*o].erase(it)\<close> creates an empty table for an owner that has none.\<close>

definition unlink_owners :: "nat \<Rightarrow> 's kio_state \<Rightarrow> 's kio_state" where
  "unlink_owners a st =
     st\<lparr>owner_tables := (\<lambda>f. if f \<in> item_owners st a then Some (owner_set (owner_tables st f) - {a})
                             else owner_tables st f)\<rparr>"

text \<open>The boolean says that the node was erased, rather than moved to the pool of unused items.\<close>

definition remove_item :: "nat \<Rightarrow> ('s, bool) kio_op" where
  "remove_item a =
     seq (modify (unlink_owners a))
     (bnd (on_block a getIdentity) (\<lambda>k.
      seq (modify (\<lambda>st. st\<lparr>lookup := (lookup st)(k := None)\<rparr>))
      (bnd (on_block a capacity) (\<lambda>cap.
       seq (modify (\<lambda>st. st\<lparr>current_size := size_sub (current_size st) cap, lru := remove1 a (lru st)\<rparr>))
       (bnd (asks (\<lambda>st. cache_capacity st < 10 * unused_size st)) (\<lambda>full.
        if full then ret True
        else seq (modify (\<lambda>st. st\<lparr>unused_size := size_add (unused_size st) cap, unused_items := a # unused_items st\<rparr>))
             (ret False)))))))"

subsection \<open>Drop and flush\<close>

definition drop_item :: "nat \<Rightarrow> bool \<Rightarrow> nat \<Rightarrow> ('s, unit) kio_op" where
  "drop_item owner force a =
     seq (modify (\<lambda>st. st\<lparr>item_owners := (item_owners st)(a := item_owners st a - {owner})\<rparr>))
     (if force then bnd (remove_item a) (\<lambda>_. ret ()) else ret ())"

definition cache_drop :: "nat \<Rightarrow> bool \<Rightarrow> ('s, unit) kio_op" where
  "cache_drop owner force =
     bnd (asks (\<lambda>st. sorted_list_of_set (owner_set (owner_tables st owner)))) (\<lambda>as.
     seq (for_each (drop_item owner force) as)
     (modify (\<lambda>st. st\<lparr>owner_tables := (owner_tables st)(owner := None)\<rparr>)))"

definition flush_if_dirty :: "('s \<Rightarrow> nat) \<Rightarrow> nat \<Rightarrow> ('s, unit) kio_op" where
  "flush_if_dirty now a =
     bnd (asks (\<lambda>st. dirty (blocks st a))) (\<lambda>d. if d then on_block a (block_flush now) else ret ())"

definition cache_flush :: "('s \<Rightarrow> nat) \<Rightarrow> nat \<Rightarrow> ('s, unit) kio_op" where
  "cache_flush now owner =
     bnd (asks (\<lambda>st. sorted_list_of_set (owner_set (owner_tables st owner)))) (\<lambda>as.
     for_each (flush_if_dirty now) as)"

subsection \<open>Shrinking\<close>

definition schedule :: "task \<Rightarrow> ('s, bool) kio_op" where
  "schedule t st = (case try_run t (pool st) of (ok, p) \<Rightarrow> Some (Inr ok, st\<lparr>pool := p\<rparr>))"

text \<open>The first loop visits the items from the back, at most \<open>num_items\<close> of them, and never the front. Its
  second argument holds the items in front of the iterator, nearest first.\<close>

definition shrink_visit :: "nat \<Rightarrow> nat \<Rightarrow> ('s, unit) kio_op" where
  "shrink_visit expired a =
     bnd (asks (\<lambda>st. (item_owners st a = {} \<or> last_access st a < expired) \<and> \<not> dirty (blocks st a) \<and> unique st a)) (\<lambda>unneeded.
       if unneeded then bnd (remove_item a) (\<lambda>_. ret ())
       else bnd (asks (\<lambda>st. dirty (blocks st a) \<and> last_access st a < expired)) (\<lambda>stale.
         if stale then bnd (schedule (Cache_flush a)) (\<lambda>_. ret ()) else ret ()))"

fun shrink_unneeded :: "nat \<Rightarrow> nat \<Rightarrow> nat list \<Rightarrow> nat \<Rightarrow> ('s, unit) kio_op" where
  "shrink_unneeded expired n (a # b # as) count_items =
     (if 10 * count_items < n then seq (shrink_visit expired a) (shrink_unneeded expired n (b # as) (Suc count_items))
      else ret ())"
| "shrink_unneeded expired n as count_items = ret ()"

text \<open>The loops that make room by force. They continue from the iterator of the item that they just
  removed.\<close>

fun shrink_clean :: "nat list \<Rightarrow> ('s, unit) kio_op" where
  "shrink_clean (a # b # as) =
     bnd (asks (\<lambda>st. cache_capacity st < current_size st)) (\<lambda>over.
       if over then
         bnd (asks (\<lambda>st. unique st a \<and> \<not> dirty (blocks st a))) (\<lambda>victim.
           if victim then seq (remove_item a) (throw Undefined_behaviour)
           else shrink_clean (b # as))
       else ret ())"
| "shrink_clean as = ret ()"

fun shrink_flushing :: "('s \<Rightarrow> nat) \<Rightarrow> nat list \<Rightarrow> ('s, unit) kio_op" where
  "shrink_flushing now (a # b # as) =
     bnd (asks (\<lambda>st. cache_capacity st < current_size st)) (\<lambda>over.
       if over then
         bnd (asks (\<lambda>st. unique st a)) (\<lambda>u.
           if u then
             bnd (catch (seq (flush_if_dirty now a) (ret True))
                    (\<lambda>e. if e = Undefined_behaviour then throw e else ret False)) (\<lambda>flushed.
               if flushed then seq (remove_item a) (throw Undefined_behaviour)
               else shrink_flushing now (b # as))
           else shrink_flushing now (b # as))
       else ret ())"
| "shrink_flushing now as = ret ()"

definition try_shrink :: "('s \<Rightarrow> nat) \<Rightarrow> ('s, unit) kio_op" where
  "try_shrink now =
     bnd (the_time now) (\<lambda>t.
     bnd (asks lru) (\<lambda>as.
     if as = [] then throw Undefined_behaviour
     else
       bnd (on_block (last as) capacity) (\<lambda>cap.
       if cap = 0 then throw Undefined_behaviour
       else
         bnd (asks (\<lambda>st. current_size st div cap)) (\<lambda>n.
         seq (shrink_unneeded (t - 5000000) n (rev as) 0)
         (bnd (asks (\<lambda>st. cache_capacity st < current_size st)) (\<lambda>over.
          if over then
            seq (bnd (asks lru) (\<lambda>as. shrink_clean (rev as))) (bnd (asks lru) (\<lambda>as. shrink_flushing now (rev as)))
          else ret ()))))))"

subsection \<open>Looking up a block\<close>

definition touch :: "('s \<Rightarrow> nat) \<Rightarrow> nat \<Rightarrow> nat \<Rightarrow> 's kio_state \<Rightarrow> 's kio_state" where
  "touch now owner a st =
     st\<lparr>lru := a # remove1 a (lru st),
        owner_tables := (owner_tables st)(owner := Some (insert a (owner_set (owner_tables st owner)))),
        item_owners := (item_owners st)(a := insert owner (item_owners st a)),
        last_access := (last_access st)(a := now (world st))\<rparr>"

text \<open>A reused item is spliced to the front of the cache; a new one is pushed there.\<close>

definition obtain_item ::
  "('s \<Rightarrow> nat) \<Rightarrow> nat \<Rightarrow> 's ClusterInterface \<Rightarrow> string \<Rightarrow> Mode \<Rightarrow> ('s, nat) kio_op" where
  "obtain_item now owner ci data_key m =
     bnd (asks unused_items) (\<lambda>us.
       case us of
         a # rest \<Rightarrow>
           bnd (on_block a capacity) (\<lambda>cap.
           seq (modify (\<lambda>st. st\<lparr>unused_size := size_sub (unused_size st) cap,
                  item_owners := (item_owners st)(a := {owner})\<rparr>))
           (seq (on_block a (reassign (Some ci) data_key m))
           (seq (modify (\<lambda>st. st\<lparr>last_access := (last_access st)(a := now (world st)),
                  unused_items := rest, lru := a # lru st\<rparr>))
            (ret a))))
       | [] \<Rightarrow>
           bnd (asks next_block) (\<lambda>a.
           bnd (asks (\<lambda>st. DataBlock_new now (Some ci) data_key m (world st))) (\<lambda>r.
           bnd (lift_res r) (\<lambda>b.
           seq (modify (\<lambda>st. st\<lparr>blocks := (blocks st)(a := b), next_block := Suc a,
                  item_owners := (item_owners st)(a := {owner}),
                  last_access := (last_access st)(a := now (world st)), lru := a # lru st\<rparr>))
           (ret a)))))"

definition getDataKey ::
  "('s \<Rightarrow> nat) \<Rightarrow> nat \<Rightarrow> 's ClusterInterface \<Rightarrow> string \<Rightarrow> int \<Rightarrow> Mode \<Rightarrow> ('s, nat) kio_op" where
  "getDataKey now owner ci path blocknumber m =
     (let data_key = makeDataKey (ci_id ci) path blocknumber;
          cache_key = data_key @ ci_instanceId ci
      in bnd (asks (\<lambda>st. lookup st cache_key)) (\<lambda>hit.
         case hit of
           Some a \<Rightarrow> seq (modify (touch now owner a)) (ret a)
         | None \<Rightarrow>
             seq (bnd (asks (\<lambda>st. 7 * cache_capacity st < 10 * current_size st)) (\<lambda>full.
                    if full then try_shrink now else ret ()))
             (bnd (obtain_item now owner ci data_key m) (\<lambda>a.
              bnd (on_block a capacity) (\<lambda>cap.
              seq (modify (\<lambda>st. st\<lparr>current_size := size_add (current_size st) cap,
                     lookup := (lookup st)(cache_key \<mapsto> a),
                     owner_tables := (owner_tables st)(owner := Some (insert a (owner_set (owner_tables st owner))))\<rparr>))
              (ret a))))))"

text \<open>\<^verbatim>\<open>utilization\<close>, as an exact quotient; the code divides two numbers as \<^verbatim>\<open>double\<close>.\<close>

definition utilization :: "'s kio_state \<Rightarrow> rat" where
  "utilization st = of_nat (current_size st) / of_nat (cache_capacity st)"


section \<open>Lemmas\<close>

subsection \<open>Operations on a block keep its name\<close>

definition keeps_identity :: "('s, 'a) block_op \<Rightarrow> bool" where
  "keeps_identity m \<longleftrightarrow> (\<forall>b s r b' s'. m (b, s) = Some (r, b', s') \<longrightarrow> key b' = key b \<and> cluster b' = cluster b)"

lemma keeps_identityD:
  "keeps_identity m \<Longrightarrow> m bs = Some (r, bs') \<Longrightarrow> key (fst bs') = key (fst bs) \<and> cluster (fst bs') = cluster (fst bs)"
  unfolding keeps_identity_def by (metis prod.collapse)

lemma keeps_bnd [intro]:
  assumes "keeps_identity m" and "\<And>x. keeps_identity (f x)"
  shows "keeps_identity (bnd m f)"
  unfolding keeps_identity_def
proof (intro allI impI)
  fix b s r b' s'
  assume "bnd m f (b, s) = Some (r, b', s')"
  then show "key b' = key b \<and> cluster b' = cluster b"
    using assms by (cases rule: bnd_eq_SomeE) (auto simp: keeps_identity_def, metis+)
qed

lemma keeps_seq [intro]: "keeps_identity m \<Longrightarrow> keeps_identity n \<Longrightarrow> keeps_identity (seq m n)"
  unfolding seq_def by blast

lemma keeps_basic [intro]:
  "keeps_identity (ret x)"
  "keeps_identity (throw e)"
  "keeps_identity block"
  "keeps_identity (clock now)"
  "keeps_identity (deref p)"
  "keeps_identity (lift_res r)"
  by (auto simp: keeps_identity_def block_def clock_def asks_def deref_def lift_res_def split: option.splits)

lemma keeps_capacity [intro]: "keeps_identity capacity"
  unfolding capacity_def by blast

lemma keeps_set_block [intro]:
  "(\<And>b. key (f b) = key b \<and> cluster (f b) = cluster b) \<Longrightarrow> keeps_identity (set_block f)"
  by (simp add: keeps_identity_def)

lemma keeps_zoom [intro]: "keeps_identity (zoom snd (\<lambda>s (b, _). (b, s)) m)"
  by (auto simp: keeps_identity_def zoom_def)

lemma keeps_invoke [intro]: "keeps_identity (invoke f)"
  unfolding invoke_def by blast

lemma keeps_cond [intro]:
  "keeps_identity m \<Longrightarrow> keeps_identity n \<Longrightarrow> keeps_identity (if c then m else n)"
  by simp

lemma keeps_option [intro]:
  "keeps_identity m \<Longrightarrow> (\<And>x. keeps_identity (f x)) \<Longrightarrow> keeps_identity (case_option m f p)"
  by (cases p) simp_all

lemma keeps_prod [intro]: "(\<And>x y. keeps_identity (f x y)) \<Longrightarrow> keeps_identity (case_prod f p)"
  by (cases p) simp

lemma keeps_getRemoteValue [intro]: "keeps_identity (getRemoteValue now)"
  unfolding getRemoteValue_def merge_local_def
  by (intro keeps_bnd keeps_seq keeps_basic keeps_invoke keeps_cond keeps_option keeps_prod keeps_set_block keeps_capacity) simp_all

lemma keeps_validateVersion [intro]: "keeps_identity (validateVersion now)"
  unfolding validateVersion_def
  by (intro keeps_bnd keeps_seq keeps_basic keeps_invoke keeps_cond keeps_prod keeps_set_block) simp_all

lemma keeps_flush_put: "keeps_identity flush_put"
  unfolding flush_put_def
  by (intro keeps_bnd keeps_seq keeps_basic keeps_invoke keeps_option keeps_prod keeps_set_block) simp_all

lemma keeps_flush_refresh: "keeps_identity (flush_refresh now status)"
  unfolding flush_refresh_def by (intro keeps_bnd keeps_basic keeps_cond keeps_getRemoteValue)

lemma keeps_flush_loop [intro]: "keeps_identity (flush_loop now status)"
proof -
  have "key (fst s') = key (fst bs) \<and> cluster (fst s') = cluster (fst bs)"
    if "flush_loop now status bs = Some (r, s')" for bs r s'
  proof -
    have "\<forall>r s'. y = (r, s') \<longrightarrow> key (fst s') = key (fst bs) \<and> cluster (fst s') = cluster (fst bs)"
      if "flush_loop now status bs = Some y" for y
      using that
    proof (induction rule: flush_loop.raw_induct [rotated, consumes 1, case_names step])
      case (step loop now status bs y)
      show ?case
      proof (intro allI impI)
        fix r s'
        assume y: "y = (r, s')"
        have keeps: "keeps_identity (seq (flush_refresh now status) flush_put)"
          by (intro keeps_seq keeps_flush_refresh keeps_flush_put)
        from step(2) [unfolded y] show "key (fst s') = key (fst bs) \<and> cluster (fst s') = cluster (fst bs)"
        proof (cases rule: bnd_eq_SomeE)
          case (normal x s1)
          then have "key (fst s1) = key (fst bs) \<and> cluster (fst s1) = cluster (fst bs)"
            using keeps_identityD [OF keeps] by blast
          moreover have "key (fst s') = key (fst s1) \<and> cluster (fst s') = cluster (fst s1)"
            using normal(2) step(1) [of now "statusCode x" s1 "(r, s')"]
            by (cases s'; cases "statusCode x = REMOTE_VERSION_MISMATCH") auto
          ultimately show ?thesis by simp
        next
          case (exn e)
          then show ?thesis
            using keeps_identityD [OF keeps] by blast
        qed
      qed
    qed
    with that show ?thesis by blast
  qed
  then show ?thesis by (auto simp: keeps_identity_def)
qed

lemma keeps_block_ops:
  "keeps_identity (block_read now buf off len)"
  "keeps_identity (block_write buf off len)"
  "keeps_identity (block_truncate n)"
  "keeps_identity (block_flush now)"
  "keeps_identity (block_size now)"
  unfolding block_read_def block_write_def block_truncate_def block_flush_def block_size_def serve_def Let_def
  by (intro keeps_bnd keeps_seq keeps_basic keeps_cond keeps_option keeps_prod keeps_set_block keeps_capacity
      keeps_validateVersion keeps_getRemoteValue keeps_flush_loop; simp)+


subsection \<open>The invariant of the cache\<close>

definition ident :: "'s DataBlock \<Rightarrow> string" where
  "ident b = key b @ (case cluster b of None \<Rightarrow> [] | Some ci \<Rightarrow> ci_instanceId ci)"

definition cap_of :: "'s DataBlock \<Rightarrow> nat" where
  "cap_of b = (case cluster b of None \<Rightarrow> 0 | Some ci \<Rightarrow> max_value_size (ci_limits ci))"

definition bytes_in :: "'s kio_state \<Rightarrow> nat list \<Rightarrow> nat" where
  "bytes_in st as = (\<Sum>a\<leftarrow>as. cap_of (blocks st a)) mod 18446744073709551616"

definition items_wf :: "'s kio_state \<Rightarrow> bool" where
  "items_wf st \<longleftrightarrow> distinct (lru st @ unused_items st) \<and>
     (\<forall>a \<in> set (lru st @ unused_items st). a < next_block st \<and> cluster (blocks st a) \<noteq> None)"

definition lookup_wf :: "'s kio_state \<Rightarrow> bool" where
  "lookup_wf st \<longleftrightarrow> (\<forall>k a. lookup st k = Some a \<longleftrightarrow> a \<in> set (lru st) \<and> ident (blocks st a) = k)"

definition owners_wf :: "nat set \<Rightarrow> 's kio_state \<Rightarrow> bool" where
  "owners_wf X st \<longleftrightarrow>
     (\<forall>f. f \<notin> X \<longrightarrow> owner_set (owner_tables st f) = {a \<in> set (lru st). f \<in> item_owners st a})"

definition sizes_wf :: "'s kio_state \<Rightarrow> bool" where
  "sizes_wf st \<longleftrightarrow> current_size st = bytes_in st (lru st) \<and> unused_size st = bytes_in st (unused_items st)"

text \<open>The lists share no item and hold blocks with a cluster; the lookup table finds exactly the items of
  the cache by their names; the table of every owner outside \<open>X\<close> lists exactly the items that name it
  as an owner; the two counters are the capacities of the items in the lists.\<close>

definition cache_wf :: "nat set \<Rightarrow> 's kio_state \<Rightarrow> bool" where
  "cache_wf X st \<longleftrightarrow> items_wf st \<and> lookup_wf st \<and> owners_wf X st \<and> sizes_wf st"

lemma kio_state_trivial [simp]: "st\<lparr>blocks := (blocks st)(a := blocks st a), world := world st\<rparr> = st"
  by (cases st) simp

lemma on_block_query [simp]:
  assumes "cluster (blocks st a) \<noteq> None"
  shows "bnd (on_block a getIdentity) f st = f (ident (blocks st a)) st"
    and "bnd (on_block a capacity) g st = g (cap_of (blocks st a)) st"
  using assms by (auto simp: on_block_def getIdentity_def capacity_def ident_def cap_of_def bnd_def ret_def
      block_def asks_def deref_def)

definition removed :: "nat \<Rightarrow> 's kio_state \<Rightarrow> 's kio_state" where
  "removed a st =
     (unlink_owners a st)\<lparr>lookup := (lookup st)(ident (blocks st a) := None),
       current_size := size_sub (current_size st) (cap_of (blocks st a)), lru := remove1 a (lru st),
       unused_size := (if cache_capacity st < 10 * unused_size st then unused_size st
                       else size_add (unused_size st) (cap_of (blocks st a))),
       unused_items := (if cache_capacity st < 10 * unused_size st then unused_items st else a # unused_items st)\<rparr>"

lemma remove_item_eq:
  assumes "cluster (blocks st a) \<noteq> None"
  shows "remove_item a st = Some (Inr (cache_capacity st < 10 * unused_size st), removed a st)"
  using assms by (simp add: remove_item_def removed_def unlink_owners_def)

lemma size_sub_mod:
  "size_sub ((x + c) mod 18446744073709551616) c = x mod 18446744073709551616"
proof -
  have "(int ((x + c) mod 18446744073709551616) - int c) mod 18446744073709551616 = int x mod 18446744073709551616"
    by (simp add: zmod_int mod_diff_left_eq)
  then show ?thesis
    by (simp add: size_sub_def nat_mod_distrib)
qed

lemma size_add_mod: "size_add (x mod 18446744073709551616) c = (c + x) mod 18446744073709551616"
  unfolding size_add_def by (simp only: add.commute [of c] mod_add_left_eq)

lemma sum_list_remove1:
  "a \<in> set as \<Longrightarrow> (\<Sum>x\<leftarrow>as. f x) = (\<Sum>x\<leftarrow>remove1 a as. f x) + (f a :: nat)"
  by (induction as) auto

lemma cache_wf_removed:
  assumes "cache_wf X st" and "a \<in> set (lru st)" and "\<forall>f \<in> X. f \<notin> item_owners st a"
  shows "cache_wf X (removed a st)"
proof -
  note wf = assms(1) [unfolded cache_wf_def]
  have dist: "distinct (lru st)" "set (remove1 a (lru st)) = set (lru st) - {a}"
    using wf by (simp_all add: items_wf_def)
  have items: "items_wf (removed a st)"
    using wf assms(2) by (auto simp: items_wf_def removed_def unlink_owners_def)
  have ident_inj: "ident (blocks st c) = ident (blocks st a) \<Longrightarrow> c \<in> set (lru st) \<Longrightarrow> c = a" for c
    using wf assms(2) unfolding lookup_wf_def by (metis option.inject)
  have lookup: "lookup_wf (removed a st)"
    unfolding lookup_wf_def
  proof (intro allI)
    fix k c
    have "lookup (removed a st) k = Some c \<longleftrightarrow> k \<noteq> ident (blocks st a) \<and> lookup st k = Some c"
      by (simp add: removed_def)
    also have "\<dots> \<longleftrightarrow> c \<in> set (lru st) \<and> c \<noteq> a \<and> ident (blocks st c) = k"
      using wf ident_inj unfolding lookup_wf_def by auto
    also have "\<dots> \<longleftrightarrow> c \<in> set (lru (removed a st)) \<and> ident (blocks (removed a st) c) = k"
      using dist by (auto simp: removed_def unlink_owners_def)
    finally show "lookup (removed a st) k = Some c \<longleftrightarrow>
        c \<in> set (lru (removed a st)) \<and> ident (blocks (removed a st) c) = k" .
  qed
  have owners: "owners_wf X (removed a st)"
    unfolding owners_wf_def
  proof (intro allI impI)
    fix f
    assume "f \<notin> X"
    then have "owner_set (owner_tables st f) = {a \<in> set (lru st). f \<in> item_owners st a}"
      using wf by (simp add: owners_wf_def)
    then show "owner_set (owner_tables (removed a st) f) = {c \<in> set (lru (removed a st)). f \<in> item_owners (removed a st) c}"
      using dist by (auto simp: removed_def unlink_owners_def owner_set_def split: option.splits if_splits)
  qed
  have "sizes_wf (removed a st)"
    using wf sum_list_remove1 [OF assms(2), of "\<lambda>a. cap_of (blocks st a)"]
    by (simp add: sizes_wf_def removed_def unlink_owners_def bytes_in_def size_sub_mod size_add_mod)
  with items lookup owners show ?thesis
    by (simp add: cache_wf_def)
qed


text \<open>Changes that do not concern the structure of the cache.\<close>

lemma cache_wf_on_block:
  assumes "keeps_identity m" and "on_block a m st = Some (r, st')"
  shows "cache_wf X st' \<longleftrightarrow> cache_wf X st"
    and "lru st' = lru st" "item_owners st' = item_owners st" "next_block st' = next_block st"
    and "ident (blocks st' c) = ident (blocks st c)" "cluster (blocks st' c) = cluster (blocks st c)"
proof -
  obtain b s where m: "m (blocks st a, world st) = Some (r, b, s)"
    and st': "st' = st\<lparr>blocks := (blocks st)(a := b), world := s\<rparr>"
    using assms(2) by (auto simp: on_block_def)
  have same: "key (blocks st' c) = key (blocks st c)" "cluster (blocks st' c) = cluster (blocks st c)" for c
    using keeps_identityD [OF assms(1) m] by (simp_all add: st')
  then have caps: "ident (blocks st' c) = ident (blocks st c)" "cap_of (blocks st' c) = cap_of (blocks st c)" for c
    by (simp_all add: ident_def cap_of_def)
  show "cache_wf X st' \<longleftrightarrow> cache_wf X st"
    using same(2) caps
    by (simp add: cache_wf_def items_wf_def lookup_wf_def owners_wf_def sizes_wf_def bytes_in_def) (simp add: st')
  show "lru st' = lru st" "item_owners st' = item_owners st" "next_block st' = next_block st"
    by (simp_all add: st')
  show "ident (blocks st' c) = ident (blocks st c)" "cluster (blocks st' c) = cluster (blocks st c)"
    by (rule caps(1), rule same(2))
qed

lemma cache_wf_pool [simp]:
  "cache_wf X (st\<lparr>pool := p\<rparr>) \<longleftrightarrow> cache_wf X st" "cache_wf X (st\<lparr>held := hs\<rparr>) \<longleftrightarrow> cache_wf X st"
  "cache_wf X (st\<lparr>cache_capacity := n\<rparr>) \<longleftrightarrow> cache_wf X st"
  by (simp_all add: cache_wf_def items_wf_def lookup_wf_def owners_wf_def sizes_wf_def bytes_in_def)

lemma flush_if_dirty_cases:
  assumes "flush_if_dirty now a st = Some (r, st')"
  shows "st' = st \<or> on_block a (block_flush now) st = Some (r, st')"
  using assms by (simp add: flush_if_dirty_def split: if_splits)

lemma cache_wf_flush_if_dirty:
  assumes "flush_if_dirty now a st = Some (r, st')"
  shows "(cache_wf X st' \<longleftrightarrow> cache_wf X st) \<and> lru st' = lru st"
  using flush_if_dirty_cases [OF assms]
proof
  assume "on_block a (block_flush now) st = Some (r, st')"
  from cache_wf_on_block(1,2) [OF keeps_block_ops(4) this] show ?thesis by blast
qed simp

lemma cache_wf_flush_all:
  assumes "for_each (flush_if_dirty now) as st = Some (r, st')"
  shows "cache_wf X st' \<longleftrightarrow> cache_wf X st"
  using assms
proof (induction as arbitrary: st)
  case (Cons a as)
  from Cons.prems have "seq (flush_if_dirty now a) (for_each (flush_if_dirty now) as) st = Some (r, st')" by simp
  then show ?case
    by (cases rule: seq_eq_SomeE) (use Cons.IH cache_wf_flush_if_dirty in blast)+
qed simp

lemma cache_wf_flush:
  "cache_flush now owner st = Some (r, st') \<Longrightarrow> cache_wf X st' \<longleftrightarrow> cache_wf X st"
  by (auto simp: cache_flush_def dest: cache_wf_flush_all)

subsection \<open>Dropping an owner\<close>

lemma cache_wf_disown:
  assumes "cache_wf {owner} st"
  shows "cache_wf {owner} (st\<lparr>item_owners := (item_owners st)(a := item_owners st a - {owner})\<rparr>)"
  using assms by (auto simp: cache_wf_def items_wf_def lookup_wf_def owners_wf_def sizes_wf_def bytes_in_def)

lemma drop_items:
  assumes "cache_wf {owner} st" and "set as \<subseteq> set (lru st)" and "distinct as"
    and "\<forall>a \<in> set (lru st). owner \<in> item_owners st a \<longrightarrow> a \<in> set as"
  obtains st' where "for_each (drop_item owner force) as st = Some (Inr (), st')" "cache_wf {owner} st'"
    "\<forall>a \<in> set (lru st'). owner \<notin> item_owners st' a" "set (lru st') \<subseteq> set (lru st)"
    "blocks st' = blocks st" "world st' = world st" "force \<longrightarrow> set (lru st') \<inter> set as = {}"
  using assms
proof (induction as arbitrary: st thesis)
  case Nil
  then show ?case by simp
next
  case (Cons a as)
  let ?st = "st\<lparr>item_owners := (item_owners st)(a := item_owners st a - {owner})\<rparr>"
  have wf: "cache_wf {owner} ?st"
    by (rule cache_wf_disown [OF Cons.prems(2)])
  have a: "a \<in> set (lru ?st)" "cluster (blocks ?st a) \<noteq> None"
    using Cons.prems by (auto simp: cache_wf_def items_wf_def)
  define st1 where "st1 = (if force then removed a ?st else ?st)"
  have step: "drop_item owner force a st = Some (Inr (), st1)"
    using remove_item_eq [OF a(2)] by (simp add: drop_item_def st1_def)
  have wf1: "cache_wf {owner} st1"
    using wf cache_wf_removed [OF wf a(1)] by (simp add: st1_def)
  have lru1: "set (lru st1) = (if force then set (lru st) - {a} else set (lru st))"
    "item_owners st1 = item_owners ?st" "blocks st1 = blocks st" "world st1 = world st"
    using Cons.prems(2) by (auto simp: st1_def removed_def unlink_owners_def cache_wf_def items_wf_def)
  obtain st' where st': "for_each (drop_item owner force) as st1 = Some (Inr (), st')" "cache_wf {owner} st'"
    "\<forall>a \<in> set (lru st'). owner \<notin> item_owners st' a" "set (lru st') \<subseteq> set (lru st1)"
    "blocks st' = blocks st1" "world st' = world st1" "force \<longrightarrow> set (lru st') \<inter> set as = {}"
  proof (rule Cons.IH [of st1])
    show "set as \<subseteq> set (lru st1)" "distinct as"
      using Cons.prems(3,4) lru1(1) by auto
    show "\<forall>a \<in> set (lru st1). owner \<in> item_owners st1 a \<longrightarrow> a \<in> set as"
      using Cons.prems(5) lru1(1,2) by (auto split: if_splits)
  qed (use wf1 in auto)
  show ?case
    by (rule Cons.prems(1) [of st']) (use st' step lru1 in \<open>auto split: if_splits\<close>)
qed

lemma cache_wf_finite_table:
  assumes "cache_wf {} st"
  shows "owner_set (owner_tables st f) = {a \<in> set (lru st). f \<in> item_owners st a}"
  using assms by (simp add: cache_wf_def owners_wf_def)

lemma cache_drop_wf:
  assumes "cache_wf {} st"
  obtains st' where "cache_drop owner force st = Some (Inr (), st')" "cache_wf {} st'" "set (lru st') \<subseteq> set (lru st)"
    "blocks st' = blocks st" "world st' = world st" "owner_tables st' owner = None"
    "force \<longrightarrow> (\<forall>a \<in> set (lru st). owner \<in> item_owners st a \<longrightarrow> a \<notin> set (lru st'))"
proof -
  let ?as = "sorted_list_of_set (owner_set (owner_tables st owner))"
  have fin: "finite (owner_set (owner_tables st owner))"
    using cache_wf_finite_table [OF assms] by simp
  have as: "set ?as = {a \<in> set (lru st). owner \<in> item_owners st a}" "distinct ?as"
    using cache_wf_finite_table [OF assms] fin by simp_all
  have "cache_wf {owner} st"
    using assms by (simp add: cache_wf_def owners_wf_def)
  then obtain st1 where st1: "for_each (drop_item owner force) ?as st = Some (Inr (), st1)" "cache_wf {owner} st1"
    "\<forall>a \<in> set (lru st1). owner \<notin> item_owners st1 a" "set (lru st1) \<subseteq> set (lru st)"
    "blocks st1 = blocks st" "world st1 = world st" "force \<longrightarrow> set (lru st1) \<inter> set ?as = {}"
    by (rule drop_items [where as = ?as and force = force]) (use as in auto)
  let ?st' = "st1\<lparr>owner_tables := (owner_tables st1)(owner := None)\<rparr>"
  have "cache_wf {} ?st'"
    using st1(2,3)
    by (auto simp: cache_wf_def items_wf_def lookup_wf_def owners_wf_def sizes_wf_def bytes_in_def owner_set_def)
  then show ?thesis
    by (intro that [of ?st']) (use st1 as in \<open>auto simp: cache_drop_def modify_def\<close>)
qed


subsection \<open>Shrinking\<close>

definition shrunk :: "'s kio_state \<Rightarrow> 's kio_state \<Rightarrow> bool" where
  "shrunk st st' \<longleftrightarrow> cache_wf {} st' \<and> set (lru st') \<subseteq> set (lru st) \<and> next_block st' = next_block st \<and>
     (\<forall>c. ident (blocks st' c) = ident (blocks st c))"

lemma shrunk_refl: "cache_wf {} st \<Longrightarrow> shrunk st st"
  by (simp add: shrunk_def)

lemma shrunk_trans: "shrunk st st1 \<Longrightarrow> shrunk st1 st2 \<Longrightarrow> shrunk st st2"
  by (auto simp: shrunk_def)

lemma shrunk_removed:
  assumes "cache_wf {} st" and "a \<in> set (lru st)"
  shows "shrunk st (removed a st)" and "set (lru st) - {a} \<subseteq> set (lru (removed a st))"
proof -
  have "distinct (lru st)"
    using assms(1) by (simp add: cache_wf_def items_wf_def)
  then show "shrunk st (removed a st)" and "set (lru st) - {a} \<subseteq> set (lru (removed a st))"
    using cache_wf_removed [OF assms] by (auto simp: shrunk_def removed_def unlink_owners_def)
qed

lemma shrink_visit_ok:
  assumes "cache_wf {} st" and "a \<in> set (lru st)"
  obtains st' where "shrink_visit expired a st = Some (Inr (), st')" "shrunk st st'" "set (lru st) - {a} \<subseteq> set (lru st')"
proof (cases "(item_owners st a = {} \<or> last_access st a < expired) \<and> \<not> dirty (blocks st a) \<and> unique st a")
  case True
  have "cluster (blocks st a) \<noteq> None"
    using assms by (simp add: cache_wf_def items_wf_def)
  then have "shrink_visit expired a st = Some (Inr (), removed a st)"
    unfolding shrink_visit_def bnd_prim(1) if_P [OF True] by (simp add: remove_item_eq)
  then show ?thesis by (rule that) (rule shrunk_removed [OF assms])+
next
  case False
  let ?p = "snd (try_run (Cache_flush a) (pool st))"
  let ?st' = "if dirty (blocks st a) \<and> last_access st a < expired then st\<lparr>pool := ?p\<rparr> else st"
  have "shrink_visit expired a st = Some (Inr (), ?st')"
    unfolding shrink_visit_def bnd_prim(1) if_not_P [OF False] by (simp add: schedule_def bnd_def case_prod_beta)
  moreover have "shrunk st ?st'" "set (lru st) - {a} \<subseteq> set (lru ?st')"
    using assms(1) by (auto simp: shrunk_def)
  ultimately show ?thesis by (rule that)
qed

lemma shrink_unneeded_ok:
  assumes "cache_wf {} st" and "distinct as" and "set as \<subseteq> set (lru st)"
  shows "\<exists>st'. shrink_unneeded expired n as i st = Some (Inr (), st') \<and> shrunk st st'"
  using assms
proof (induction expired n as i arbitrary: st rule: shrink_unneeded.induct)
  case (1 expired n a b as i)
  show ?case
  proof (cases "10 * i < n")
    case True
    obtain st1 where st1: "shrink_visit expired a st = Some (Inr (), st1)" "shrunk st st1" "set (lru st) - {a} \<subseteq> set (lru st1)"
      by (rule shrink_visit_ok [OF "1.prems"(1), of a]) (use "1.prems" in auto)
    have "cache_wf {} st1" "distinct (b # as)" "set (b # as) \<subseteq> set (lru st1)"
      using "1.prems"(2,3) st1(2,3) by (auto simp: shrunk_def)
    then obtain st2 where "shrink_unneeded expired n (b # as) (Suc i) st1 = Some (Inr (), st2)" "shrunk st1 st2"
      using "1.IH" [OF True] by blast
    then show ?thesis
      using True st1(1,2) shrunk_trans by (intro exI [of _ st2]) auto
  next
    case False
    then show ?thesis using shrunk_refl [OF "1.prems"(1)] by simp
  qed
qed (simp_all add: shrunk_refl)

lemma seq_throw: "seq m (throw e) st \<noteq> Some (Inr x, st')"
  by (auto elim: seq_eq_SomeE)

lemma shrink_clean_ok:
  "shrink_clean as st = Some (Inr (), st') \<Longrightarrow> st' = st"
proof (induction as arbitrary: st rule: shrink_clean.induct)
  case (1 a b as)
  show ?case
  proof (cases "cache_capacity st < current_size st")
    case True
    show ?thesis
    proof (cases "unique st a \<and> \<not> dirty (blocks st a)")
      case victim: True
      then show ?thesis using "1.prems" True by (simp add: seq_throw)
    next
      case False
      then have "shrink_clean (a # b # as) st = shrink_clean (b # as) st"
        using True by (simp only: shrink_clean.simps bnd_prim(1) if_True if_False)
      then show ?thesis using "1.prems" True False "1.IH" [of True False st] by simp
    qed
  next
    case False
    then show ?thesis using "1.prems" by simp
  qed
qed simp_all

lemma shrunk_on_block:
  assumes "cache_wf {} st" and "keeps_identity m" and "on_block a m st = Some (r, st')"
  shows "shrunk st st'"
  using cache_wf_on_block [OF assms(2,3)] assms(1) by (simp add: shrunk_def)

lemma shrunk_flush_if_dirty:
  "cache_wf {} st \<Longrightarrow> flush_if_dirty now a st = Some (r, st') \<Longrightarrow> shrunk st st'"
  using flush_if_dirty_cases shrunk_on_block keeps_block_ops(4) shrunk_refl by blast

lemma shrink_flushing_ok:
  assumes "cache_wf {} st" and "shrink_flushing now as st = Some (Inr (), st')"
  shows "shrunk st st'"
  using assms
proof (induction now as arbitrary: st rule: shrink_flushing.induct)
  case (1 now a b as)
  let ?c = "catch (seq (flush_if_dirty now a) (ret True)) (\<lambda>e. if e = Undefined_behaviour then throw e else ret False)"
  have catch: "shrunk st st1" if "?c st = Some (r, st1)" for r st1
    using that "1.prems"(1)
    by (auto simp: catch_def seq_def bnd_def ret_def throw_def intro: shrunk_flush_if_dirty
        split: bind_splits sum.splits if_splits)
  show ?case
  proof (cases "cache_capacity st < current_size st \<and> unique st a")
    case True
    then have "bnd ?c (\<lambda>flushed. if flushed then seq (remove_item a) (throw Undefined_behaviour)
        else shrink_flushing now (b # as)) st = Some (Inr (), st')"
      using "1.prems"(2) by simp
    then show ?thesis
    proof (cases rule: bnd_eq_SomeE)
      case (normal flushed st1)
      then have "shrunk st st1" "\<not> flushed"
        using catch by (auto simp: seq_def elim!: bnd_eq_SomeE)
      moreover have "cache_wf {} st1" using \<open>shrunk st st1\<close> by (simp add: shrunk_def)
      ultimately show ?thesis
        using "1.IH"(1) [of True True False st1] True normal(2) by (auto intro: shrunk_trans)
    qed simp
  next
    case False
    then show ?thesis
      using "1.prems" "1.IH"(2) [of True False st] by (auto intro: shrunk_refl split: if_splits)
  qed
qed (auto intro: shrunk_refl)


lemma try_shrink_ok:
  assumes "cache_wf {} st" and "try_shrink now st = Some (Inr (), st')"
  shows "shrunk st st'"
proof -
  have wf: "distinct (rev (lru st))" "set (rev (lru st)) \<subseteq> set (lru st)"
    using assms(1) by (simp_all add: cache_wf_def items_wf_def)
  have nonempty: "lru st \<noteq> []"
    using assms(2) by (auto simp: try_shrink_def the_time_def)
  then have "cluster (blocks st (last (lru st))) \<noteq> None"
    using assms(1) by (simp add: cache_wf_def items_wf_def)
  then obtain n where tail: "seq (shrink_unneeded (now (world st) - 5000000) n (rev (lru st)) 0)
      (bnd (asks (\<lambda>st. cache_capacity st < current_size st)) (\<lambda>over.
        if over then seq (bnd (asks lru) (\<lambda>as. shrink_clean (rev as))) (bnd (asks lru) (\<lambda>as. shrink_flushing now (rev as)))
        else ret ())) st = Some (Inr (), st')"
    using assms(2) nonempty by (auto simp: try_shrink_def the_time_def split: if_splits)
  obtain st1 where st1: "shrink_unneeded (now (world st) - 5000000) n (rev (lru st)) 0 st = Some (Inr (), st1)" "shrunk st st1"
    using shrink_unneeded_ok [OF assms(1) wf] by blast
  show ?thesis
  proof (cases "cache_capacity st1 < current_size st1")
    case True
    then have "seq (bnd (asks lru) (\<lambda>as. shrink_clean (rev as))) (bnd (asks lru) (\<lambda>as. shrink_flushing now (rev as))) st1 =
        Some (Inr (), st')"
      using tail st1(1) by simp
    then have "shrink_flushing now (rev (lru st1)) st1 = Some (Inr (), st')"
    proof (cases rule: seq_eq_SomeE)
      case (normal x st2)
      then have "st2 = st1"
        by (intro shrink_clean_ok [of "rev (lru st1)"]) simp
      with normal(2) show ?thesis by simp
    qed simp
    then show ?thesis
      using st1(2) shrink_flushing_ok shrunk_trans by (metis shrunk_def)
  next
    case False
    then show ?thesis using tail st1 by simp
  qed
qed

subsection \<open>Looking up\<close>

lemma reassign_ok:
  assumes "cluster b \<noteq> None"
  obtains b' where "reassign (Some ci) k m (b, s) = Some (Inr (), b', s)" "key b' = k" "cluster b' = Some ci" "mode b' = m"
    "version b' = None" "updates b' = []" "value_size b' = 0" "remote_value b' = remote_value b"
proof -
  let ?b = "b\<lparr>key := k, mode := m, cluster := Some ci, value_size := 0, version := None, updates := [], timestamp := 0\<rparr>"
  let ?b' = "if local_value b = None then ?b
    else ?b\<lparr>local_value := Some (replicate (max_value_size (ci_limits ci)) (CHR ''0''))\<rparr>"
  have "reassign (Some ci) k m (b, s) = Some (Inr (), ?b', s)"
    using assms by (auto simp: reassign_def seq_def bnd_capacity)
  then show ?thesis by (rule that) simp_all
qed

text \<open>A block that was just put at the front of the cache, before it is entered in the tables.\<close>

definition fresh_front :: "'s kio_state \<Rightarrow> 's kio_state \<Rightarrow> nat \<Rightarrow> nat \<Rightarrow> bool" where
  "fresh_front st st' owner a \<longleftrightarrow>
     lru st' = a # lru st \<and> a \<notin> set (lru st) \<and> items_wf st' \<and> item_owners st' a = {owner} \<and>
     (\<forall>c \<in> set (lru st). blocks st' c = blocks st c \<and> item_owners st' c = item_owners st c) \<and>
     lookup st' = lookup st \<and> owner_tables st' = owner_tables st \<and>
     current_size st' = current_size st \<and> unused_size st' = bytes_in st' (unused_items st')"

lemma obtain_item_ok:
  assumes "cache_wf {} st"
  obtains a st' where "obtain_item now owner ci k m st = Some (Inr a, st')" "fresh_front st st' owner a" "world st' = world st"
    "key (blocks st' a) = k" "cluster (blocks st' a) = Some ci" "mode (blocks st' a) = m"
    "version (blocks st' a) = None" "updates (blocks st' a) = []" "value_size (blocks st' a) = 0"
proof (cases "unused_items st")
  case Nil
  let ?b = "\<lparr>mode = m, cluster = Some ci, key = k, version = None, remote_value = None, local_value = None,
      value_size = 0, updates = [], timestamp = if m = CREATE then now (world st) else 0\<rparr>"
  let ?a = "next_block st"
  let ?st = "st\<lparr>blocks := (blocks st)(?a := ?b), next_block := Suc ?a, item_owners := (item_owners st)(?a := {owner}),
      last_access := (last_access st)(?a := now (world st)), lru := ?a # lru st\<rparr>"
  have "?a \<notin> set (lru st)"
    using assms by (auto simp: cache_wf_def items_wf_def)
  then have "fresh_front st ?st owner ?a"
    using assms Nil by (auto simp: fresh_front_def cache_wf_def items_wf_def sizes_wf_def bytes_in_def)
  then show ?thesis
    by (intro that [of ?a ?st]) (simp_all add: obtain_item_def Nil DataBlock_new_def)
next
  case (Cons a rest)
  have a: "cluster (blocks st a) \<noteq> None" "a \<notin> set (lru st)" "a \<notin> set rest"
    using assms Cons by (auto simp: cache_wf_def items_wf_def)
  obtain b' where b': "reassign (Some ci) k m (blocks st a, world st) = Some (Inr (), b', world st)" "key b' = k"
    "cluster b' = Some ci" "mode b' = m" "version b' = None" "updates b' = []" "value_size b' = 0"
    by (rule reassign_ok [OF a(1)])
  let ?st = "st\<lparr>unused_size := size_sub (unused_size st) (cap_of (blocks st a)), item_owners := (item_owners st)(a := {owner}),
      blocks := (blocks st)(a := b'), world := world st, last_access := (last_access st)(a := now (world st)),
      unused_items := rest, lru := a # lru st\<rparr>"
  have "unused_size st = (bytes_in st rest + cap_of (blocks st a)) mod 18446744073709551616"
    using assms Cons by (simp add: cache_wf_def sizes_wf_def bytes_in_def mod_add_right_eq add.commute)
  then have "size_sub (unused_size st) (cap_of (blocks st a)) = bytes_in st rest"
    by (simp add: size_sub_mod bytes_in_def)
  moreover have "map (\<lambda>x. cap_of (blocks ?st x)) rest = map (\<lambda>x. cap_of (blocks st x)) rest"
    using a(3) by auto
  ultimately have "size_sub (unused_size st) (cap_of (blocks st a)) = bytes_in ?st rest"
    by (simp only: bytes_in_def)
  then have "fresh_front st ?st owner a"
    using assms Cons a b'(3) by (auto simp: fresh_front_def cache_wf_def items_wf_def)
  moreover have "obtain_item now owner ci k m st = Some (Inr a, ?st)"
  proof -
    let ?st1 = "st\<lparr>unused_size := size_sub (unused_size st) (cap_of (blocks st a)), item_owners := (item_owners st)(a := {owner})\<rparr>"
    have "on_block a (reassign (Some ci) k m) ?st1 = Some (Inr (), ?st1\<lparr>blocks := (blocks st)(a := b'), world := world st\<rparr>)"
      using b'(1) by (simp add: on_block_def)
    then show ?thesis
      using Cons a(1) by (simp add: obtain_item_def)
  qed
  ultimately show ?thesis
    using b' by (intro that [of a ?st]) simp_all
qed


definition registered :: "nat \<Rightarrow> nat \<Rightarrow> 's kio_state \<Rightarrow> 's kio_state" where
  "registered owner a st =
     st\<lparr>current_size := size_add (current_size st) (cap_of (blocks st a)),
        lookup := (lookup st)(ident (blocks st a) \<mapsto> a),
        owner_tables := (owner_tables st)(owner := Some (insert a (owner_set (owner_tables st owner))))\<rparr>"

lemma cache_wf_registered:
  assumes "cache_wf {} st" and "fresh_front st st' owner a" and "lookup st (ident (blocks st' a)) = None"
  shows "cache_wf {} (registered owner a st')"
proof -
  let ?r = "registered owner a st'"
  have fr: "lru st' = a # lru st" "a \<notin> set (lru st)" "items_wf st'" "item_owners st' a = {owner}"
    "\<And>c. c \<in> set (lru st) \<Longrightarrow> blocks st' c = blocks st c \<and> item_owners st' c = item_owners st c"
    "lookup st' = lookup st" "owner_tables st' = owner_tables st" "current_size st' = current_size st"
    "unused_size st' = bytes_in st' (unused_items st')"
    using assms(2) by (auto simp: fresh_front_def)
  have lk: "lookup st k = Some c \<longleftrightarrow> c \<in> set (lru st) \<and> ident (blocks st c) = k" for k c
    using assms(1) by (simp add: cache_wf_def lookup_wf_def)
  have lookup: "lookup_wf ?r"
    unfolding lookup_wf_def
  proof (intro allI)
    fix k c
    have "lookup ?r k = Some c \<longleftrightarrow> (if k = ident (blocks st' a) then c = a else lookup st k = Some c)"
      by (auto simp: registered_def fr(6))
    also have "\<dots> \<longleftrightarrow> c \<in> set (a # lru st) \<and> ident (blocks st' c) = k"
      using lk [of k c] lk [of "ident (blocks st' a)" c] assms(3) fr(2) fr(5) [of c] by (auto split: if_splits)
    finally show "lookup ?r k = Some c \<longleftrightarrow> c \<in> set (lru ?r) \<and> ident (blocks ?r c) = k"
      by (simp add: registered_def fr(1))
  qed
  have owners: "owners_wf {} ?r"
    unfolding owners_wf_def
  proof (intro allI impI)
    fix f
    have "owner_set (owner_tables ?r f) = (if f = owner then {a} else {}) \<union> owner_set (owner_tables st f)"
      by (simp add: registered_def fr(7) owner_set_def)
    also have "owner_set (owner_tables st f) = {c \<in> set (lru st). f \<in> item_owners st c}"
      by (rule cache_wf_finite_table [OF assms(1)])
    finally show "owner_set (owner_tables ?r f) = {c \<in> set (lru ?r). f \<in> item_owners ?r c}"
      using fr(2,4,5) by (auto simp: registered_def fr(1) split: if_splits)
  qed
  have "map (\<lambda>c. cap_of (blocks st' c)) (lru st) = map (\<lambda>c. cap_of (blocks st c)) (lru st)"
    using fr(5) by auto
  then have "(\<Sum>c\<leftarrow>lru st. cap_of (blocks st' c)) = (\<Sum>c\<leftarrow>lru st. cap_of (blocks st c))"
    by (rule arg_cong)
  then have "bytes_in ?r (lru ?r) = size_add (current_size st) (cap_of (blocks st' a))"
    using assms(1) fr(1) by (simp add: cache_wf_def sizes_wf_def bytes_in_def registered_def size_add_mod)
  then have "sizes_wf ?r"
    using fr(8,9) by (simp add: sizes_wf_def registered_def bytes_in_def)
  moreover have "items_wf ?r"
    using fr(3) by (simp add: items_wf_def registered_def)
  ultimately show ?thesis
    using lookup owners by (simp add: cache_wf_def)
qed

lemma cache_wf_touch:
  assumes "cache_wf {} st" and "a \<in> set (lru st)"
  shows "cache_wf {} (touch now owner a st)"
proof -
  have "distinct (lru st)"
    using assms(1) by (simp add: cache_wf_def items_wf_def)
  then have set: "set (lru (touch now owner a st)) = set (lru st)" "distinct (lru (touch now owner a st))"
    using assms(2) by (auto simp: touch_def)
  have "(\<Sum>c\<leftarrow>lru (touch now owner a st). cap_of (blocks st c)) = (\<Sum>c\<leftarrow>lru st. cap_of (blocks st c))"
    using sum_list_remove1 [OF assms(2), of "\<lambda>c. cap_of (blocks st c)"] by (simp add: touch_def)
  moreover have "owners_wf {} (touch now owner a st)"
    using cache_wf_finite_table [OF assms(1)] set(1) assms(2)
    unfolding owners_wf_def by (auto simp: touch_def owner_set_def)
  ultimately show ?thesis
    using assms set
    by (auto simp: cache_wf_def items_wf_def lookup_wf_def sizes_wf_def bytes_in_def) (auto simp: touch_def)
qed

text \<open>A hit returns the cached block; a miss makes room if needed and puts a block without content at
  the front.\<close>

lemma getDataKey_hit:
  assumes "lookup st (makeDataKey (ci_id ci) path n @ ci_instanceId ci) = Some a"
  shows "getDataKey now owner ci path n m st = Some (Inr a, touch now owner a st)"
  using assms by (simp add: getDataKey_def Let_def)

lemma getDataKey_miss:
  assumes "cache_wf {} st" and "lookup st (makeDataKey (ci_id ci) path n @ ci_instanceId ci) = None"
    and "getDataKey now owner ci path n m st = Some (Inr a, st')"
  obtains st1 st2 where "shrunk st st1" "fresh_front st1 st2 owner a" "world st2 = world st1" "st' = registered owner a st2"
    "key (blocks st2 a) = makeDataKey (ci_id ci) path n" "cluster (blocks st2 a) = Some ci" "mode (blocks st2 a) = m"
    "version (blocks st2 a) = None" "updates (blocks st2 a) = []" "value_size (blocks st2 a) = 0"
    "lookup st1 (ident (blocks st2 a)) = None"
    "\<not> 7 * cache_capacity st < 10 * current_size st \<Longrightarrow> st1 = st"
proof -
  let ?k = "makeDataKey (ci_id ci) path n"
  let ?shrink = "bnd (asks (\<lambda>st. 7 * cache_capacity st < 10 * current_size st)) (\<lambda>full. if full then try_shrink now else ret ())"
  let ?rest = "bnd (obtain_item now owner ci ?k m) (\<lambda>a. bnd (on_block a capacity) (\<lambda>cap.
      seq (modify (\<lambda>st. st\<lparr>current_size := size_add (current_size st) cap, lookup := (lookup st)(?k @ ci_instanceId ci \<mapsto> a),
        owner_tables := (owner_tables st)(owner := Some (insert a (owner_set (owner_tables st owner))))\<rparr>)) (ret a)))"
  have "seq ?shrink ?rest st = Some (Inr a, st')"
    using assms(2,3) by (simp add: getDataKey_def Let_def)
  then obtain st1 where st1: "?shrink st = Some (Inr (), st1)" "?rest st1 = Some (Inr a, st')"
    by (cases rule: seq_eq_SomeE) (auto simp: unit_eq)
  have sh: "shrunk st st1" "\<not> 7 * cache_capacity st < 10 * current_size st \<Longrightarrow> st1 = st"
    using st1(1) try_shrink_ok [OF assms(1)] shrunk_refl [OF assms(1)] by (auto split: if_splits)
  have wf1: "cache_wf {} st1" using sh(1) by (simp add: shrunk_def)
  obtain c st2 where st2: "obtain_item now owner ci ?k m st1 = Some (Inr c, st2)" "fresh_front st1 st2 owner c"
    "world st2 = world st1" "key (blocks st2 c) = ?k" "cluster (blocks st2 c) = Some ci" "mode (blocks st2 c) = m"
    "version (blocks st2 c) = None" "updates (blocks st2 c) = []" "value_size (blocks st2 c) = 0"
    by (rule obtain_item_ok [OF wf1])
  have id: "ident (blocks st2 c) = ?k @ ci_instanceId ci" "cap_of (blocks st2 c) = max_value_size (ci_limits ci)"
    using st2(4,5) by (simp_all add: ident_def cap_of_def)
  have "?rest st1 = Some (Inr c, registered owner c st2)"
    using st2(1,5) by (simp add: registered_def id)
  then have eq: "c = a" "st' = registered owner c st2"
    using st1(2) by simp_all
  have "lookup st1 (?k @ ci_instanceId ci) = None"
  proof (rule ccontr)
    assume "\<not> ?thesis"
    then obtain d where "lookup st1 (?k @ ci_instanceId ci) = Some d" by auto
    then have "d \<in> set (lru st)" "ident (blocks st d) = ?k @ ci_instanceId ci"
      using wf1 sh(1) by (auto simp: shrunk_def cache_wf_def lookup_wf_def)
    then have "lookup st (?k @ ci_instanceId ci) = Some d"
      using assms(1) by (simp add: cache_wf_def lookup_wf_def)
    then show False
      using assms(2) by simp
  qed
  then show ?thesis
    by (intro that [of st1 st2]) (use sh st2 eq id in auto)
qed

lemma getDataKey_wf:
  assumes "cache_wf {} st" and "getDataKey now owner ci path n m st = Some (Inr a, st')"
  shows "cache_wf {} st' \<and> a = hd (lru st') \<and> a \<in> set (lru st') \<and> owner \<in> item_owners st' a \<and>
    ident (blocks st' a) = makeDataKey (ci_id ci) path n @ ci_instanceId ci"
proof (cases "lookup st (makeDataKey (ci_id ci) path n @ ci_instanceId ci)")
  case None
  obtain st1 st2 where r: "shrunk st st1" "fresh_front st1 st2 owner a" "world st2 = world st1" "st' = registered owner a st2"
    "key (blocks st2 a) = makeDataKey (ci_id ci) path n" "cluster (blocks st2 a) = Some ci" "mode (blocks st2 a) = m"
    "version (blocks st2 a) = None" "updates (blocks st2 a) = []" "value_size (blocks st2 a) = 0"
    "lookup st1 (ident (blocks st2 a)) = None"
    by (rule getDataKey_miss [OF assms(1) None assms(2)])
  have "cache_wf {} st1" using r(1) by (simp add: shrunk_def)
  then have "cache_wf {} st'"
    unfolding r(4) by (rule cache_wf_registered [OF _ r(2,11)])
  with r(2,5,6) show ?thesis
    by (simp add: r(4) registered_def fresh_front_def ident_def)
next
  case (Some c)
  then have c: "c \<in> set (lru st)" "ident (blocks st c) = makeDataKey (ci_id ci) path n @ ci_instanceId ci"
    using assms(1) by (auto simp: cache_wf_def lookup_wf_def)
  have "a = c" "st' = touch now owner c st"
    using getDataKey_hit [OF Some, of now owner m] assms(2) by auto
  with cache_wf_touch [OF assms(1) c(1)] c(2) show ?thesis
    by (simp add: touch_def)
qed


section \<open>Properties\<close>

text \<open>What can happen to a cache: the calls of its users, whatever they do with a block they were given, and
  changes of the outside world and of the thread pool. An operation that returns a value is used with its
  value discarded.\<close>

inductive cache_reachable :: "('s \<Rightarrow> nat) \<Rightarrow> 's kio_state \<Rightarrow> bool" for now where
  new: "cache_reachable now (DataCache_new cap p b0 s)"
| get: "cache_reachable now st \<Longrightarrow> getDataKey now owner ci path n m st = Some (Inr a, st') \<Longrightarrow> cache_reachable now st'"
| drop: "cache_reachable now st \<Longrightarrow> cache_drop owner force st = Some (r, st') \<Longrightarrow> cache_reachable now st'"
| flush: "cache_reachable now st \<Longrightarrow> cache_flush now owner st = Some (r, st') \<Longrightarrow> cache_reachable now st'"
| use: "cache_reachable now st \<Longrightarrow> keeps_identity (m :: ('s, unit) block_op) \<Longrightarrow> on_block a m st = Some (r, st') \<Longrightarrow>
    cache_reachable now st'"
| configure: "cache_reachable now st \<Longrightarrow> cache_changeConfiguration cap st = Some (r, st') \<Longrightarrow> cache_reachable now st'"
| outside: "cache_reachable now st \<Longrightarrow> cache_reachable now (st\<lparr>world := s, pool := p, held := hs\<rparr>)"

lemma cache_wf_new: "cache_wf {} (DataCache_new cap p b0 s)"
  by (simp add: cache_wf_def items_wf_def lookup_wf_def owners_wf_def sizes_wf_def bytes_in_def DataCache_new_def owner_set_def)

lemma cache_wf_world [simp]: "cache_wf X (st\<lparr>world := s\<rparr>) \<longleftrightarrow> cache_wf X st"
  by (simp add: cache_wf_def items_wf_def lookup_wf_def owners_wf_def sizes_wf_def bytes_in_def)

text \<open>C4: The cache stays consistent: after any sequence of lookups, drops, flushes, uses of blocks and
  changes of configuration, no item is in two places, the lookup table finds exactly the cached
  blocks by name, the table of every owner lists exactly its blocks, and the sizes are those of the
  items.\<close>

theorem cache_consistent:
  assumes "cache_reachable now st"
  shows "cache_wf {} st"
  using assms
proof induction
  case (get st owner ci path n m a st')
  then show ?case using getDataKey_wf by blast
next
  case (drop st owner force r st')
  obtain st2 where "cache_drop owner force st = Some (Inr (), st2)" "cache_wf {} st2"
    by (rule cache_drop_wf [OF drop.IH])
  with drop.hyps(2) show ?case by simp
next
  case (flush st owner r st')
  then show ?case using cache_wf_flush by blast
next
  case (use st m a r st')
  then show ?case using cache_wf_on_block(1) by blast
next
  case (configure st cap r st')
  then show ?case by (auto simp: cache_changeConfiguration_def modify_def)
qed (simp_all add: cache_wf_new)

text \<open>Everyone who asks for a block gets the same one: while it is cached, a second lookup of the same block of
  the same file, by any owner, returns the same object without input or output and without
  changing any block, and makes the caller an owner.\<close>

theorem getDataKey_shared:
  assumes "cache_wf {} st" and "getDataKey now owner1 ci path n m1 st = Some (Inr a, st1)"
  shows "\<exists>st2. getDataKey now owner2 ci path n m2 st1 = Some (Inr a, st2) \<and> cache_wf {} st2 \<and>
    blocks st2 = blocks st1 \<and> world st2 = world st1 \<and> {owner1, owner2} \<subseteq> item_owners st2 a \<and>
    lru st2 = lru st1 \<and> current_size st2 = current_size st1"
proof -
  let ?st2 = "touch now owner2 a st1"
  have wf1: "cache_wf {} st1" and front: "a = hd (lru st1)" "a \<in> set (lru st1)" and own: "owner1 \<in> item_owners st1 a"
    and name: "ident (blocks st1 a) = makeDataKey (ci_id ci) path n @ ci_instanceId ci"
    using getDataKey_wf [OF assms] by blast+
  have "lookup_wf st1" using wf1 by (simp add: cache_wf_def)
  then have "lookup st1 (makeDataKey (ci_id ci) path n @ ci_instanceId ci) = Some a"
    using front(2) name unfolding lookup_wf_def by blast
  then have get: "getDataKey now owner2 ci path n m2 st1 = Some (Inr a, ?st2)"
    by (rule getDataKey_hit)
  have wf2: "cache_wf {} ?st2"
    by (rule cache_wf_touch [OF wf1 front(2)])
  have "lru ?st2 = lru st1"
    using front by (cases "lru st1") (simp_all add: touch_def)
  moreover have "blocks ?st2 = blocks st1" "world ?st2 = world st1" "current_size ?st2 = current_size st1"
    "{owner1, owner2} \<subseteq> item_owners ?st2 a"
    using own by (simp_all add: touch_def)
  ultimately show ?thesis
    using get wf2 by blast
qed

text \<open>Making room by force is undefined: when the cache is over its capacity and the last item may be
  evicted, the loop removes it and then moves on from the removed item's iterator.\<close>

theorem forced_shrink_undefined:
  assumes "cache_wf {} st" and "lru st = as @ [a]" and "as \<noteq> []" and "cache_capacity st < current_size st"
    and "unique st a" and "\<not> dirty (blocks st a)"
  shows "shrink_clean (rev (lru st)) st = Some (Inl Undefined_behaviour, removed a st)"
proof -
  obtain b bs where rev: "rev as = b # bs"
    using assms(3) by (cases "rev as") auto
  have "cluster (blocks st a) \<noteq> None"
    using assms(1,2) by (simp add: cache_wf_def items_wf_def)
  with assms(4-6) rev show ?thesis
    by (simp add: assms(2) remove_item_eq)
qed


text \<open>A cache with room for one block of eight bytes, in which two files look up two blocks.\<close>

definition small_ci :: "unit ClusterInterface" where
  "small_ci =
     \<lparr>ci_id = ''c'', ci_instanceId = ''i'',
      ci_limits = \<lparr>max_key_size = 100, max_version_size = 100, max_value_size = 8, max_range_elements = 100\<rparr>,
      ci_stats = throw Logic_error, ci_get = (\<lambda>k v x. ret (mk_status REMOTE_NOT_FOUND [], v, x)),
      ci_get_version = (\<lambda>k v. ret (mk_status REMOTE_NOT_FOUND [], v)),
      ci_put = (\<lambda>k v x out. ret (mk_status OK [], Some ''v'')), ci_put_forced = (\<lambda>k x out. ret (mk_status OK [], Some ''v'')),
      ci_remove = (\<lambda>k v. ret (mk_status OK [])), ci_remove_forced = (\<lambda>k. ret (mk_status OK [])),
      ci_flush = ret (mk_status OK []), ci_range = (\<lambda>a b ks m. ret (mk_status OK [], Some []))\<rparr>"

definition small_block :: "unit DataBlock" where
  "small_block = \<lparr>mode = STANDARD, cluster = Some small_ci, key = [], version = None, remote_value = None,
     local_value = None, value_size = 0, updates = [], timestamp = 0\<rparr>"

definition small_cache :: "nat \<Rightarrow> unit kio_state" where
  "small_cache cap = DataCache_new cap (handler_init 1 1) small_block ()"

abbreviation small_get :: "nat \<Rightarrow> int \<Rightarrow> (unit, nat) kio_op" where
  "small_get owner n \<equiv> getDataKey (\<lambda>_. 0) owner small_ci ''f'' n STANDARD"

lemma small_first:
  obtains st where "small_get 1 0 (small_cache cap) = Some (Inr 0, st)" "lru st = [0]" "current_size st = 8"
    "cache_capacity st = cap" "blocks st 0 = small_block\<lparr>key := makeDataKey ''c'' ''f'' 0\<rparr>" "held st = []" "pool st = handler_init 1 1"
proof -
  show ?thesis
    by (rule that [of "snd (the (small_get 1 0 (small_cache cap)))"])
      (simp_all add: getDataKey_def Let_def small_cache_def DataCache_new_def obtain_item_def DataBlock_new_def
        cap_of_def small_ci_def small_block_def size_add_def)
qed

theorem cache_consistent_witness:
  "\<exists>st. small_get 1 0 (small_cache 100) = Some (Inr 0, st) \<and> cache_wf {} st"
proof -
  obtain st where st: "small_get 1 0 (small_cache 100) = Some (Inr 0, st)"
    by (rule small_first [of 100])
  have "cache_reachable (\<lambda>_. 0) st"
    by (rule cache_reachable.get [OF _ st]) (simp add: small_cache_def cache_reachable.new)
  from cache_consistent [OF this] st show ?thesis by blast
qed

theorem getDataKey_shared_witness:
  "\<exists>st1 st2. small_get 1 0 (small_cache 100) = Some (Inr 0, st1) \<and> small_get 2 0 st1 = Some (Inr 0, st2) \<and>
     {1, 2} \<subseteq> item_owners st2 0"
proof -
  obtain st where st: "small_get 1 0 (small_cache 100) = Some (Inr 0, st)"
    by (rule small_first [of 100])
  have "cache_wf {} (small_cache 100)"
    by (simp add: small_cache_def cache_wf_new)
  from getDataKey_shared [OF this st, of 2 STANDARD] st show ?thesis by blast
qed

definition two_blocks :: "unit kio_state" where
  "two_blocks = (small_cache 8)\<lparr>blocks := (\<lambda>a. small_block\<lparr>key := (if a = 0 then ''a'' else ''b'')\<rparr>),
     next_block := 2, lru := [1, 0], current_size := 16,
     lookup := (\<lambda>k. if k = ''bi'' then Some 1 else if k = ''ai'' then Some 0 else None)\<rparr>"

lemma two_blocks_wf: "cache_wf {} two_blocks"
  by (auto simp: cache_wf_def items_wf_def lookup_wf_def owners_wf_def sizes_wf_def bytes_in_def two_blocks_def
      small_cache_def DataCache_new_def owner_set_def small_block_def small_ci_def ident_def cap_of_def split: if_splits)

theorem forced_shrink_undefined_witness:
  "shrink_clean [0, 1] two_blocks = Some (Inl Undefined_behaviour, removed 0 two_blocks)"
proof -
  have "shrink_clean (rev (lru two_blocks)) two_blocks = Some (Inl Undefined_behaviour, removed 0 two_blocks)"
    by (rule forced_shrink_undefined [OF two_blocks_wf, of "[1]"])
      (simp_all add: two_blocks_def small_cache_def DataCache_new_def unique_def pool_tasks_def handler_init_def
        dirty_def small_block_def)
  then show ?thesis by (simp add: two_blocks_def)
qed

end
