(* ===== verification/File_Io.thy ===== *)
theory File_Io
  imports Data_Cache Prefetch_Oracle
begin

text \<open>
  \<^verbatim>\<open>FileIo\<close> (src/FileIo.cc): files on a cluster. A file is cut into blocks of the cluster's value size;
  the blocks are reached through the shared cache, full blocks are flushed and predicted blocks are
  read by background tasks. Attributes and the existence of a file are keys of their own.

  The state of an operation is the table of all \<^verbatim>\<open>FileIo\<close> objects, by address, together with the cache, its
  blocks and the world. Integers are the machine's: offsets are 64-bit, block numbers are \<^verbatim>\<open>int\<close>, and
  conversions wrap as they do in the code. The members for the end of the file, which the constructor
  leaves unset, start as 0; no operation reads them before \<^verbatim>\<open>Open\<close> set them. The arguments \<^verbatim>\<open>timeout\<close>,
  \<^verbatim>\<open>mode\<close> and \<^verbatim>\<open>opaque\<close>, which the code ignores, are left out.

  The record \<open>fio_env\<close> holds what the code reaches through the singleton or the language leaves
  open: the clock, the iteration order of the prefetch oracle, the readahead window, the cluster map,
  and the text of a quotient of \<^verbatim>\<open>double\<close> values.
\<close>

section \<open>Model\<close>

record 's FileIo =
  file_cluster :: "'s ClusterInterface"
  prefetchOracle :: prefetch_oracle
  eof_blocknumber :: int
  eof_verification_time :: nat
  exceptions :: "exn list"
  opened :: bool
  path :: string

type_synonym 's fio_state = "(nat \<Rightarrow> 's FileIo) \<times> 's kio_state"
type_synonym ('s, 'a) fio = "('s fio_state, 'a) kio"

record 's fio_env =
  fe_now :: "'s \<Rightarrow> nat"
  fe_order :: "distance_map \<Rightarrow> distance_map"
  fe_window :: nat
  fe_getCluster :: "string \<Rightarrow> ('s, 's ClusterInterface) kio"
  fe_quotient_text :: "nat \<Rightarrow> nat list \<Rightarrow> string"

datatype rw = READ | WRITE

subsection \<open>Access\<close>

definition this :: "nat \<Rightarrow> ('s, 's FileIo) fio" where
  "this self = asks (\<lambda>(fs, st). fs self)"

definition set_this :: "nat \<Rightarrow> ('s FileIo \<Rightarrow> 's FileIo) \<Rightarrow> ('s, unit) fio" where
  "set_this self g = modify (\<lambda>(fs, st). (fs(self := g (fs self)), st))"

definition on_cache :: "('s, 'a) kio_op \<Rightarrow> ('s, 'a) fio" where
  "on_cache m = zoom snd (\<lambda>st (fs, _). (fs, st)) m"

definition on_world :: "('s, 'a) kio \<Rightarrow> ('s, 'a) fio" where
  "on_world m = on_cache (zoom world (\<lambda>s st. st\<lparr>world := s\<rparr>) m)"

definition call :: "nat \<Rightarrow> ('s ClusterInterface \<Rightarrow> ('s, 'a) kio) \<Rightarrow> ('s, 'a) fio" where
  "call self g = bnd (this self) (\<lambda>f. on_world (g (file_cluster f)))"

definition file_time :: "'s fio_env \<Rightarrow> ('s, nat) fio" where
  "file_time env = asks (\<lambda>(fs, st). fe_now env (world st))"

definition file_block :: "'s fio_env \<Rightarrow> nat \<Rightarrow> int \<Rightarrow> Mode \<Rightarrow> ('s, nat) fio" where
  "file_block env self n m =
     bnd (this self) (\<lambda>f. on_cache (getDataKey (fe_now env) self (file_cluster f) (path f) n m))"

definition with_block :: "nat \<Rightarrow> ('s, 'a) block_op \<Rightarrow> ('s, 'a) fio" where
  "with_block a m = on_cache (on_block a m)"

text \<open>While a function keeps a block in a local variable, the block is not unique.\<close>

definition holding :: "nat \<Rightarrow> ('s, 'a) fio \<Rightarrow> ('s, 'a) fio" where
  "holding a m = (\<lambda>(fs, st).
     map_option (\<lambda>(r, fs, st). (r, fs, st\<lparr>held := remove1 a (held st)\<rparr>)) (m (fs, st\<lparr>held := a # held st\<rparr>)))"

subsection \<open>Construction, open and close\<close>

definition FileIo_new :: "'s fio_env \<Rightarrow> nat \<Rightarrow> string \<Rightarrow> ('s, unit) fio" where
  "FileIo_new env self url =
     (if take (length ''kinetic://'') url \<noteq> ''kinetic://'' then throw (System_error invalid_argument)
      else
        bnd (lift_res (urlToPath url)) (\<lambda>p.
        bnd (lift_res (urlToClusterId url)) (\<lambda>cid.
        bnd (on_world (fe_getCluster env cid)) (\<lambda>ci.
        set_this self (\<lambda>_. \<lparr>file_cluster = ci, prefetchOracle = PrefetchOracle_new (fe_window env), eof_blocknumber = 0,
          eof_verification_time = 0, exceptions = [], opened = False, path = p\<rparr>)))))"

definition FileIo_destroy :: "nat \<Rightarrow> ('s, unit) fio" where
  "FileIo_destroy self = on_cache (cache_drop self True)"

text \<open>The flag is \<^verbatim>\<open>flags & SFS_O_CREAT\<close>.\<close>

definition Open_create :: "'s fio_env \<Rightarrow> nat \<Rightarrow> string \<Rightarrow> ('s, kinetic_status) fio" where
  "Open_create env self mdkey =
     bnd (call self (\<lambda>ci. ci_put ci (Some mdkey) (Some []) (Some []) None)) (\<lambda>(status, v).
     if status_ok status then
       bnd (file_time env) (\<lambda>t. seq (set_this self (\<lambda>f. f\<lparr>eof_blocknumber := 0, eof_verification_time := t\<rparr>)) (ret status))
     else if statusCode status = REMOTE_VERSION_MISMATCH then throw (System_error file_exists)
     else ret status)"

definition Open_existing :: "nat \<Rightarrow> string \<Rightarrow> ('s, kinetic_status) fio" where
  "Open_existing self mdkey =
     bnd (call self (\<lambda>ci. ci_get_version ci (Some mdkey) None)) (\<lambda>(status, v).
     if status_ok status then
       seq (set_this self (\<lambda>f. f\<lparr>eof_blocknumber := 0, eof_verification_time := 0\<rparr>)) (ret status)
     else if statusCode status = REMOTE_NOT_FOUND then throw (System_error no_such_file_or_directory)
     else ret status)"

definition Open :: "'s fio_env \<Rightarrow> nat \<Rightarrow> bool \<Rightarrow> ('s, unit) fio" where
  "Open env self creat =
     bnd (this self) (\<lambda>f.
     let mdkey = makeMetadataKey (ci_id (file_cluster f)) (path f)
     in bnd (if creat then Open_create env self mdkey else Open_existing self mdkey) (\<lambda>status.
        if \<not> status_ok status then throw (System_error io_error)
        else set_this self (\<lambda>f. f\<lparr>opened := True\<rparr>)))"

definition Sync :: "'s fio_env \<Rightarrow> nat \<Rightarrow> ('s, unit) fio" where
  "Sync env self =
     seq (on_cache (cache_flush (fe_now env) self)) (bnd (call self ci_flush) (\<lambda>_. ret ()))"

definition Close :: "'s fio_env \<Rightarrow> nat \<Rightarrow> ('s, unit) fio" where
  "Close env self =
     seq (set_this self (\<lambda>f. f\<lparr>eof_blocknumber := 0, opened := False\<rparr>))
     (seq (Sync env self) (on_cache (cache_drop self False)))"

subsection \<open>Background work\<close>

definition do_readahead :: "'s fio_env \<Rightarrow> nat \<Rightarrow> ('s, unit) fio" where
  "do_readahead env a = bnd (with_block a (block_read (fe_now env) (Some [CHR 0x00]) 0 1)) (\<lambda>_. ret ())"

text \<open>The readahead shrinks with the utilization of the cache; the bounds are compared exactly. A cache of
  capacity 0 has an infinite utilization, or none when it is empty.\<close>

definition readahead_length :: "nat \<Rightarrow> 's kio_state \<Rightarrow> nat" where
  "readahead_length window st =
     (if cache_capacity st = 0 then (if current_size st = 0 then window else 0)
      else let u = utilization st
           in if 19 / 20 < u then 0
              else if 3 / 4 < u then nat \<lfloor>of_nat window * ((1 - u) / (1 / 4))\<rfloor>
              else window)"

definition readahead_block :: "'s fio_env \<Rightarrow> nat \<Rightarrow> int \<Rightarrow> ('s, unit) fio" where
  "readahead_block env self n =
     bnd (this self) (\<lambda>f.
       if n < eof_blocknumber f then
         bnd (file_block env self n STANDARD) (\<lambda>a. bnd (on_cache (schedule (Readahead a))) (\<lambda>_. ret ()))
       else ret ())"

definition scheduleReadahead :: "'s fio_env \<Rightarrow> nat \<Rightarrow> int \<Rightarrow> ('s, unit) fio" where
  "scheduleReadahead env self n =
     seq (set_this self (\<lambda>f. f\<lparr>prefetchOracle := PrefetchOracle_add n (prefetchOracle f)\<rparr>))
     (bnd (on_cache (asks (readahead_length (fe_window env)))) (\<lambda>len.
      if len = 0 then ret ()
      else
        bnd (this self) (\<lambda>f.
        case PrefetchOracle_predict (fe_order env) len CONTINUE (prefetchOracle f) of
          (prediction, po) \<Rightarrow>
            seq (set_this self (\<lambda>f. f\<lparr>prefetchOracle := po\<rparr>))
            (for_each (readahead_block env self) prediction))))"

text \<open>Only a \<^verbatim>\<open>system_error\<close> is kept for the next request.\<close>

definition doFlush :: "'s fio_env \<Rightarrow> nat \<Rightarrow> nat \<Rightarrow> ('s, unit) fio" where
  "doFlush env self a =
     bnd (on_cache (asks (\<lambda>st. dirty (blocks st a)))) (\<lambda>d.
       if d then
         catch (with_block a (block_flush (fe_now env)))
           (\<lambda>e. case e of System_error c \<Rightarrow> set_this self (\<lambda>f. f\<lparr>exceptions := exceptions f @ [e]\<rparr>) | _ \<Rightarrow> throw e)
       else ret ())"

text \<open>What a worker thread does with a task; it swallows exceptions.\<close>

definition run_task :: "'s fio_env \<Rightarrow> task \<Rightarrow> ('s, unit) fio" where
  "run_task env t =
     catch (case t of
              Cache_flush a \<Rightarrow> on_cache (flush_if_dirty (fe_now env) a)
            | File_flush self a \<Rightarrow> doFlush env self a
            | Readahead a \<Rightarrow> do_readahead env a)
       (\<lambda>e. if e = Undefined_behaviour then throw e else ret ())"

text \<open>\<^verbatim>\<open>run\<close> waits until the queue is within its capacity; meanwhile the workers take the tasks from its
  front. Without a queue and without a free thread the caller runs the task itself.\<close>

fun make_room :: "'s fio_env \<Rightarrow> task list \<Rightarrow> nat \<Rightarrow> ('s, unit) fio" where
  "make_room env [] cap = ret ()"
| "make_room env (t # ts) cap =
     (if cap < length (t # ts) then
        seq (on_cache (modify (\<lambda>st. st\<lparr>pool := (pool st)\<lparr>q := ts, taken := taken (pool st) @ [t], executed := executed (pool st) @ [t]\<rparr>\<rparr>)))
        (seq (run_task env t) (make_room env ts cap))
      else ret ())"

definition scheduleFlush :: "'s fio_env \<Rightarrow> nat \<Rightarrow> nat \<Rightarrow> ('s, unit) fio" where
  "scheduleFlush env self a =
     bnd (on_cache (asks pool)) (\<lambda>p.
       if queue_capacity p = 0 then
         seq (on_cache (modify (\<lambda>st. st\<lparr>pool := run_noqueue (File_flush self a) p\<rparr>)))
         (if fst (try_run_noqueue (File_flush self a) p) then ret () else doFlush env self a)
       else
         seq (on_cache (modify (\<lambda>st. st\<lparr>pool := push (File_flush self a) p\<rparr>)))
         (make_room env (q p @ [File_flush self a]) (queue_capacity p)))"


subsection \<open>The end of the file\<close>

definition get_eof_backend :: "nat \<Rightarrow> ('s, int) fio" where
  "get_eof_backend self =
     bnd (this self) (\<lambda>f.
     let cid = ci_id (file_cluster f);
         start_key = makeDataKey cid (path f) 999999999;
         end_key = makeDataKey cid (path f) 0
     in bnd (call self (\<lambda>ci. ci_range ci (Some start_key) (Some end_key) None 1)) (\<lambda>(status, keys).
        if \<not> status_ok status then throw (System_error io_error)
        else
          bnd (deref keys) (\<lambda>ks.
          if 0 < length ks then
            bnd (lift_res (std_substr (hd ks) (size_add (find_last_of (hd ks) (CHR ''_'')) 1) (length (hd ks)))) (\<lambda>number.
            lift_res (std_stoi number))
          else
            bnd (call self (\<lambda>ci. ci_get_version ci (Some (makeMetadataKey cid (path f))) None)) (\<lambda>(status, v).
            if status_ok status then ret 0
            else throw (System_error no_such_file_or_directory)))))"

definition verify_eof :: "'s fio_env \<Rightarrow> nat \<Rightarrow> ('s, unit) fio" where
  "verify_eof env self =
     bnd (file_time env) (\<lambda>t.
     bnd (this self) (\<lambda>f.
       if eof_verification_time f \<le> t \<and> expiration_time < int ((t - eof_verification_time f) div 1000) then
         bnd (file_time env) (\<lambda>t.
         seq (set_this self (\<lambda>f. f\<lparr>eof_verification_time := t\<rparr>))
         (bnd (get_eof_backend self) (\<lambda>backend.
          bnd (this self) (\<lambda>f.
          if eof_blocknumber f \<le> backend then set_this self (\<lambda>f. f\<lparr>eof_blocknumber := backend\<rparr>)
          else
            bnd (file_block env self (eof_blocknumber f) STANDARD) (\<lambda>last_block.
            bnd (on_cache (asks (\<lambda>st. dirty (blocks st last_block)))) (\<lambda>d.
            if d then ret ()
            else bnd (get_eof_backend self) (\<lambda>n. set_this self (\<lambda>f. f\<lparr>eof_blocknumber := n\<rparr>))))))))
       else ret ()))"

subsection \<open>Reading and writing\<close>

definition to_int64 :: "int \<Rightarrow> int" where
  "to_int64 k = sint (word_of_int k :: 64 word)"

text \<open>The position in the file, the block it falls into, and the offset and length within it, in the
  arithmetic of the code: an offset of type \<^verbatim>\<open>long long\<close> is added to a \<^verbatim>\<open>size_t\<close>, and the quotient is narrowed
  to \<^verbatim>\<open>int\<close>.\<close>

definition file_pos :: "int \<Rightarrow> nat \<Rightarrow> nat" where
  "file_pos off off_done = nat ((off + int off_done) mod 18446744073709551616)"

definition block_number :: "nat \<Rightarrow> int \<Rightarrow> nat \<Rightarrow> int" where
  "block_number cap off off_done = to_int32 (int (file_pos off off_done div cap))"

definition block_offset :: "nat \<Rightarrow> int \<Rightarrow> nat \<Rightarrow> nat" where
  "block_offset cap off off_done =
     nat ((int (file_pos off off_done) - block_number cap off off_done * int cap) mod 18446744073709551616)"

definition block_length :: "nat \<Rightarrow> int \<Rightarrow> nat \<Rightarrow> nat \<Rightarrow> nat" where
  "block_length cap off off_done todo = min todo (size_sub cap (block_offset cap off off_done))"

definition write_block :: "'s fio_env \<Rightarrow> nat \<Rightarrow> nat \<Rightarrow> nat \<Rightarrow> string \<Rightarrow> nat \<Rightarrow> nat \<Rightarrow> ('s, unit) fio" where
  "write_block env self a cap buf boff blen =
     seq (with_block a (block_write (Some buf) boff blen))
     (if size_add boff blen = cap then scheduleFlush env self a else ret ())"

text \<open>The end of a read in the last block: how much of the block exists, or that there are more blocks.\<close>

definition read_end :: "'s fio_env \<Rightarrow> nat \<Rightarrow> nat \<Rightarrow> int \<Rightarrow> nat \<Rightarrow> nat \<Rightarrow> nat \<Rightarrow> ('s, bool \<times> nat) fio" where
  "read_end env self a n boff blen todo =
     seq (verify_eof env self)
     (bnd (this self) (\<lambda>f.
      if n < eof_blocknumber f then ret (True, todo)
      else
        bnd (with_block a (block_size (fe_now env))) (\<lambda>sz.
        if boff < sz then
          bnd (with_block a (block_size (fe_now env))) (\<lambda>sz. ret (False, size_sub todo (min blen (size_sub sz boff))))
        else ret (False, todo))))"

text \<open>One pass of the loop. The result says whether to go on, and with which remaining length, progress and
  buffer.\<close>

definition rw_step ::
  "'s fio_env \<Rightarrow> nat \<Rightarrow> rw \<Rightarrow> nat \<Rightarrow> int \<Rightarrow> nat \<Rightarrow> nat \<Rightarrow> string \<Rightarrow> ('s, bool \<times> nat \<times> nat \<times> string) fio" where
  "rw_step env self dir cap off todo off_done buf =
     (let n = block_number cap off off_done;
          boff = block_offset cap off off_done;
          blen = block_length cap off off_done todo
      in bnd (this self) (\<lambda>f.
         let extend = (dir = WRITE \<and> eof_blocknumber f < n)
         in seq (if extend then set_this self (\<lambda>f. f\<lparr>eof_blocknumber := n\<rparr>) else ret ())
         (bnd (file_block env self n (if extend then CREATE else STANDARD)) (\<lambda>a.
          holding a
            (seq (scheduleReadahead env self n)
             (case dir of
                WRITE \<Rightarrow>
                  seq (write_block env self a cap (drop off_done buf) boff blen)
                  (ret (True, size_sub todo blen, size_add off_done blen, buf))
              | READ \<Rightarrow>
                  bnd (with_block a (block_read (fe_now env) (Some (drop off_done buf)) boff blen)) (\<lambda>out.
                  let buf = take off_done buf @ out
                  in bnd (this self) (\<lambda>f.
                     if eof_blocknumber f \<le> n then
                       bnd (read_end env self a n boff blen todo) (\<lambda>(more, todo). ret (more, todo, off_done, buf))
                     else ret (True, size_sub todo blen, size_add off_done blen, buf)))))))))"

partial_function (option) rw_loop ::
  "'s fio_env \<Rightarrow> nat \<Rightarrow> rw \<Rightarrow> nat \<Rightarrow> int \<Rightarrow> nat \<Rightarrow> nat \<Rightarrow> string \<Rightarrow> 's fio_state \<Rightarrow>
   ((nat \<times> string) res \<times> 's fio_state) option" where
  "rw_loop env self dir cap off todo off_done buf s =
     (if todo = 0 then ret (0, buf) s
      else
        bnd (rw_step env self dir cap off todo off_done buf) (\<lambda>r.
          if fst r then rw_loop env self dir cap off (fst (snd r)) (fst (snd (snd r))) (snd (snd (snd r)))
          else ret (fst (snd r), snd (snd (snd r)))) s)"

declare rw_loop.simps [code]

definition rethrow :: "nat \<Rightarrow> ('s, unit) fio" where
  "rethrow self =
     bnd (this self) (\<lambda>f.
       case exceptions f of
         [] \<Rightarrow> ret ()
       | e # es \<Rightarrow> seq (set_this self (\<lambda>f. f\<lparr>exceptions := es\<rparr>)) (throw e))"

text \<open>The result is the number of bytes and the content of the buffer.\<close>

definition ReadWrite ::
  "'s fio_env \<Rightarrow> nat \<Rightarrow> rw \<Rightarrow> int \<Rightarrow> string \<Rightarrow> int \<Rightarrow> ('s, int \<times> string) fio" where
  "ReadWrite env self dir off buf len =
     seq (rethrow self)
     (bnd (this self) (\<lambda>f.
      let cap = max_value_size (ci_limits (file_cluster f));
          todo = nat (len mod 18446744073709551616)
      in if cap = 0 \<and> todo \<noteq> 0 then throw Undefined_behaviour
         else bnd (rw_loop env self dir cap off todo 0 buf) (\<lambda>(todo, buf).
              ret (to_int64 (len - int todo), buf))))"

definition guard_opened :: "nat \<Rightarrow> ('s, 'a) fio \<Rightarrow> ('s, 'a) fio" where
  "guard_opened self m =
     bnd (this self) (\<lambda>f. if \<not> opened f then throw (System_error operation_not_permitted) else m)"

definition Read :: "'s fio_env \<Rightarrow> nat \<Rightarrow> int \<Rightarrow> string \<Rightarrow> int \<Rightarrow> ('s, int \<times> string) fio" where
  "Read env self off buf len = guard_opened self (ReadWrite env self READ off buf len)"

definition Write :: "'s fio_env \<Rightarrow> nat \<Rightarrow> int \<Rightarrow> string \<Rightarrow> int \<Rightarrow> ('s, int \<times> string) fio" where
  "Write env self off buf len = guard_opened self (ReadWrite env self WRITE off buf len)"


subsection \<open>Truncating and removing\<close>

definition remove_key :: "nat \<Rightarrow> string \<Rightarrow> ('s, unit) fio" where
  "remove_key self k =
     bnd (call self (\<lambda>ci. ci_remove_forced ci (Some k))) (\<lambda>status.
     if \<not> status_ok status \<and> statusCode status \<noteq> REMOTE_NOT_FOUND then throw (System_error io_error) else ret ())"

text \<open>One pass of the loop that deletes blocks: the result says whether the range was full.\<close>

definition truncate_round :: "nat \<Rightarrow> string \<Rightarrow> string \<Rightarrow> ('s, bool) fio" where
  "truncate_round self start_key end_key =
     bnd (call self (\<lambda>ci. ci_range ci (Some start_key) (Some end_key) None 0)) (\<lambda>(status, keys).
     if \<not> status_ok status then throw (System_error io_error)
     else
       bnd (deref keys) (\<lambda>ks.
       seq (for_each (remove_key self) ks)
       (bnd (this self) (\<lambda>f. ret (length ks = max_range_elements (ci_limits (file_cluster f)))))))"

partial_function (option) truncate_loop ::
  "nat \<Rightarrow> string \<Rightarrow> string \<Rightarrow> 's fio_state \<Rightarrow> (unit res \<times> 's fio_state) option" where
  "truncate_loop self start_key end_key s =
     bnd (truncate_round self start_key end_key) (\<lambda>more.
       if more then truncate_loop self start_key end_key else ret ()) s"

declare truncate_loop.simps [code]

definition Truncate :: "'s fio_env \<Rightarrow> nat \<Rightarrow> int \<Rightarrow> ('s, unit) fio" where
  "Truncate env self offset =
     guard_opened self
       (bnd (this self) (\<lambda>f.
        let cid = ci_id (file_cluster f);
            cap = max_value_size (ci_limits (file_cluster f));
            n = block_number cap offset 0;
            boff = block_offset cap offset 0
        in if cap = 0 then throw Undefined_behaviour
           else
             seq (if 0 < offset then
                    bnd (file_block env self n STANDARD) (\<lambda>a.
                    seq (with_block a (block_truncate boff)) (on_cache (cache_flush (fe_now env) self)))
                  else ret ())
             (seq (on_cache (cache_drop self True))
             (seq (truncate_loop self (makeDataKey cid (path f) (if offset \<noteq> 0 then to_int32 (n + 1) else 0))
                     (makeDataKey cid (path f) int_max))
              (set_this self (\<lambda>f. f\<lparr>eof_blocknumber := n\<rparr>))))))"

subsection \<open>Attributes\<close>

text \<open>One pass of the loop of \<^verbatim>\<open>attrList\<close>: the result says whether the range was full, where the next one
  starts, and the names so far.\<close>

primrec attribute_names :: "string \<Rightarrow> string \<Rightarrow> string list \<Rightarrow> string list res" where
  "attribute_names cid p [] = Inr []"
| "attribute_names cid p (k # ks) =
     res_bind (extractAttributeName cid p k) (\<lambda>n. res_bind (attribute_names cid p ks) (\<lambda>ns. Inr (n # ns)))"

definition attr_round ::
  "nat \<Rightarrow> string \<Rightarrow> string \<Rightarrow> string list \<Rightarrow> ('s, bool \<times> string \<times> string list) fio" where
  "attr_round self start_key end_key names =
     bnd (call self (\<lambda>ci. ci_range ci (Some start_key) (Some end_key) None 0)) (\<lambda>(status, keys).
     if \<not> status_ok status then throw (System_error io_error)
     else
       bnd (deref keys) (\<lambda>ks.
       bnd (this self) (\<lambda>f.
       bnd (lift_res (attribute_names (ci_id (file_cluster f)) (path f) ks)) (\<lambda>ns.
       ret (length ks = max_range_elements (ci_limits (file_cluster f)),
            if ks \<noteq> [] then last ks else start_key, names @ ns)))))"

partial_function (option) attr_loop ::
  "nat \<Rightarrow> string \<Rightarrow> string \<Rightarrow> string list \<Rightarrow> 's fio_state \<Rightarrow> (string list res \<times> 's fio_state) option" where
  "attr_loop self start_key end_key names s =
     bnd (attr_round self start_key end_key names) (\<lambda>r.
       if fst r then attr_loop self (fst (snd r)) end_key (snd (snd r)) else ret (snd (snd r))) s"

declare attr_loop.simps [code]

definition attrList :: "nat \<Rightarrow> ('s, string list) fio" where
  "attrList self =
     bnd (this self) (\<lambda>f.
     let cid = ci_id (file_cluster f)
     in attr_loop self (makeAttributeKey cid (path f) '' '') (makeAttributeKey cid (path f) ''~'') [])"

definition attribute_key :: "'s FileIo \<Rightarrow> string \<Rightarrow> string" where
  "attribute_key f name = makeAttributeKey (ci_id (file_cluster f)) (path f) name"

definition attrSet :: "nat \<Rightarrow> string \<Rightarrow> string \<Rightarrow> ('s, unit) fio" where
  "attrSet self name val =
     bnd (this self) (\<lambda>f.
     bnd (call self (\<lambda>ci. ci_put_forced ci (Some (attribute_key f name)) (Some val) (Some []))) (\<lambda>(status, v).
     if \<not> status_ok status then throw (System_error io_error) else ret ()))"

definition attrDelete :: "nat \<Rightarrow> string \<Rightarrow> ('s, unit) fio" where
  "attrDelete self name =
     bnd (this self) (\<lambda>f.
     bnd (call self (\<lambda>ci. ci_remove_forced ci (Some (attribute_key f name)))) (\<lambda>status.
     if \<not> status_ok status then throw (System_error io_error) else ret ()))"

text \<open>The statistics as text. The time is in seconds; \<open>[t, m]\<close> stands for dividing by \<open>t\<close> and then by \<open>m\<close>.\<close>

definition iostats_text :: "(nat \<Rightarrow> nat list \<Rightarrow> string) \<Rightarrow> ClusterStats \<Rightarrow> string" where
  "iostats_text quot s =
     (let t = (io_end s - io_start s) div 1000000; mb = 1024 * 1024
      in Convert_toString
        [''read-mb-total='', quot (unat (read_bytes_total s)) [mb],
         '',read-ops-total='', dec (unat (read_ops_total s)),
         '',write-mb-total='', quot (unat (write_bytes_total s)) [mb],
         '',write-ops-total='', dec (unat (write_ops_total s)),
         '',read-mb-second='', quot (unat (read_bytes_period s)) [t, mb],
         '',read-ops-second='', quot (unat (read_ops_period s)) [t],
         '',write-mb-second='', quot (unat (write_bytes_period s)) [t, mb],
         '',write-ops-second='', quot (unat (write_ops_period s)) [t]])"

text \<open>The counters of the health record are 32-bit.\<close>

definition health_text :: "ClusterStatus \<Rightarrow> string" where
  "health_text h =
     (let redundancies = to_int32 (int (redundancy_factor h) - int (drives_failed h));
          alive = nat ((int (drives_total h) - int (drives_failed h)) mod 4294967296)
      in Convert_toString
        [''indicator='', if indicator_exist h then ''1'' else ''0'', '','',
         ''drives_total='', dec (drives_total h), '','',
         ''drives_failed='', dec (drives_failed h), '','',
         ''redundancy_factor='', dec (redundancy_factor h), '','',
         ''summary='', if indicator_exist h then ''! '' else [], dec alive, ''/'', dec (drives_total h),
         '' ('', if redundancies < 0 then [] else ''+'', dec_int redundancies, '')''])"

definition attrGet :: "'s fio_env \<Rightarrow> nat \<Rightarrow> string \<Rightarrow> ('s, string) fio" where
  "attrGet env self name =
     (if name = ''sys.iostats'' then bnd (call self ci_stats) (\<lambda>s. ret (iostats_text (fe_quotient_text env) s))
      else if name = ''sys.health'' then bnd (call self ci_stats) (\<lambda>s. ret (health_text (health s)))
      else
        bnd (this self) (\<lambda>f.
        bnd (call self (\<lambda>ci. ci_get ci (Some (attribute_key f name)) None None)) (\<lambda>(status, v, x).
        if status_ok status then deref x
        else if statusCode status = REMOTE_NOT_FOUND then throw (System_error no_such_file_or_directory)
        else throw (System_error io_error))))"

definition remove_attribute :: "nat \<Rightarrow> string \<Rightarrow> ('s, unit) fio" where
  "remove_attribute self name =
     bnd (this self) (\<lambda>f.
     bnd (call self (\<lambda>ci. ci_remove_forced ci (Some (attribute_key f name)))) (\<lambda>status.
     if \<not> status_ok status then throw (System_error io_error) else ret ()))"

definition Remove :: "'s fio_env \<Rightarrow> nat \<Rightarrow> ('s, unit) fio" where
  "Remove env self =
     bnd (this self) (\<lambda>f.
     seq (if \<not> opened f then Open env self False else ret ())
     (bnd (attrList self) (\<lambda>attributes.
      seq (for_each (remove_attribute self) attributes)
      (seq (Truncate env self 0)
       (remove_key self (makeMetadataKey (ci_id (file_cluster f)) (path f)))))))"

subsection \<open>Information about files\<close>

record stat_buf =
  st_blksize :: int
  st_blocks :: int
  st_size :: int

definition Stat :: "'s fio_env \<Rightarrow> nat \<Rightarrow> ('s, stat_buf) fio" where
  "Stat env self =
     bnd (this self) (\<lambda>f.
     seq (if \<not> opened f then Open env self False else ret ())
     (seq (verify_eof env self)
     (bnd (this self) (\<lambda>f.
      bnd (file_block env self (eof_blocknumber f) STANDARD) (\<lambda>last_block.
      let cap = int (max_value_size (ci_limits (file_cluster f)))
      in holding last_block
           (bnd (with_block last_block (block_size (fe_now env))) (\<lambda>n.
            ret \<lparr>st_blksize = to_int64 cap, st_blocks = to_int32 (eof_blocknumber f + 1),
                 st_size = to_int64 (eof_blocknumber f * cap + int n)\<rparr>)))))))"

record statfs_buf =
  f_bsize :: nat
  f_blocks :: nat
  f_bavail :: nat
  f_bfree :: nat
  f_files :: nat
  f_ffree :: nat

definition Statfs :: "nat \<Rightarrow> ('s, statfs_buf) fio" where
  "Statfs self =
     bnd (call self ci_stats) (\<lambda>s.
     if bytes_total s = 0 then throw (System_error io_error)
     else
       let total = unat (bytes_total s) div 4096; free = unat (bytes_free s) div 4096
       in ret \<lparr>f_bsize = 4096, f_blocks = total, f_bavail = free, f_bfree = free, f_files = total, f_ffree = free\<rparr>)"

text \<open>\<^verbatim>\<open>subtree.find(path) == npos\<close>: the path does not occur in the subtree's url.\<close>

definition occurs_in :: "string \<Rightarrow> string \<Rightarrow> bool" where
  "occurs_in x s \<longleftrightarrow> (\<exists>i \<in> set [0..<length s + 1]. take (length x) (drop i s) = x)"

primrec metadata_urls :: "string list \<Rightarrow> string list res" where
  "metadata_urls [] = Inr []"
| "metadata_urls (k # ks) =
     res_bind (metadataToUrl k) (\<lambda>u. res_bind (metadata_urls ks) (\<lambda>us. Inr (u # us)))"

definition list_round ::
  "nat \<Rightarrow> string \<Rightarrow> string \<Rightarrow> nat \<Rightarrow> string list \<Rightarrow> ('s, bool \<times> string \<times> string list) fio" where
  "list_round self start_key end_key max_files names =
     bnd (call self (\<lambda>ci. ci_range ci (Some start_key) (Some end_key) None 0)) (\<lambda>(status, keys).
     if \<not> status_ok status then throw (System_error io_error)
     else
       bnd (deref keys) (\<lambda>ks.
       bnd (lift_res (metadata_urls (take (max_files - length names) ks))) (\<lambda>us.
       bnd (this self) (\<lambda>f.
       ret (length (names @ us) < max_files \<and> length ks = max_range_elements (ci_limits (file_cluster f)),
            if ks \<noteq> [] then last ks @ '' '' else start_key, names @ us)))))"

partial_function (option) list_loop ::
  "nat \<Rightarrow> string \<Rightarrow> string \<Rightarrow> nat \<Rightarrow> string list \<Rightarrow> 's fio_state \<Rightarrow> (string list res \<times> 's fio_state) option" where
  "list_loop self start_key end_key max_files names s =
     bnd (list_round self start_key end_key max_files names) (\<lambda>r.
       if fst r then list_loop self (fst (snd r)) end_key max_files (snd (snd r)) else ret (snd (snd r))) s"

declare list_loop.simps [code]

definition ListFiles :: "nat \<Rightarrow> string \<Rightarrow> nat \<Rightarrow> ('s, string list) fio" where
  "ListFiles self subtree max_files =
     bnd (this self) (\<lambda>f.
     if \<not> occurs_in (path f) subtree then throw (System_error invalid_argument)
     else
       bnd (lift_res (urlToPath subtree)) (\<lambda>subtree_base.
       let cid = ci_id (file_cluster f)
       in list_loop self (makeMetadataKey cid subtree_base) (makeMetadataKey cid ''~'') max_files []))"

end
