(* ===== verification/File_Storage.thy ===== *)
theory File_Storage
  imports File_Io Block_Storage
begin

text \<open>
  Properties of files: where the bytes of a file go, that what is appended can be read, how the end of a
  file is found on the cluster, and how attributes are listed.
\<close>

section \<open>Symbolic execution\<close>

lemma this_apply [simp]: "bnd (this self) g (fs, st) = g (fs self) (fs, st)"
  by (simp add: this_def)

lemma set_this_apply [simp]: "set_this self g (fs, st) = Some (Inr (), fs(self := g (fs self)), st)"
  by (simp add: set_this_def modify_def)

lemma file_time_apply [simp]: "bnd (file_time env) g (fs, st) = g (fe_now env (world st)) (fs, st)"
  by (simp add: file_time_def)

lemma on_cache_Some: "m st = Some (r, st') \<Longrightarrow> on_cache m (fs, st) = Some (r, fs, st')"
  by (simp add: on_cache_def zoom_def)

lemma on_cache_asks [simp]: "bnd (on_cache (asks g)) k (fs, st) = k (g st) (fs, st)"
  by (simp add: on_cache_def zoom_def asks_def bnd_def)

lemma with_block_Some:
  "m (blocks st a, world st) = Some (r, b, s) \<Longrightarrow>
   with_block a m (fs, st) = Some (r, fs, st\<lparr>blocks := (blocks st)(a := b), world := s\<rparr>)"
  by (simp add: with_block_def on_cache_def zoom_def on_block_def)

lemma call_apply:
  assumes "g (file_cluster (fs self)) (world st) = Some (r, s)"
  shows "call self g (fs, st) = Some (r, fs, st\<lparr>world := s\<rparr>)"
  using assms by (simp add: call_def on_world_def on_cache_def zoom_def)

lemma holding_Some:
  "m (fs, st\<lparr>held := a # held st\<rparr>) = Some (r, fs', st') \<Longrightarrow>
   holding a m (fs, st) = Some (r, fs', st'\<lparr>held := remove1 a (held st')\<rparr>)"
  by (simp add: holding_def)

section \<open>Where the bytes go\<close>

lemma file_pos_exact:
  assumes "0 \<le> off" and "off + int off_done < 18446744073709551616"
  shows "file_pos off off_done = nat off + off_done"
  using assms by (simp add: file_pos_def nat_add_distrib)

lemma block_number_exact:
  assumes "0 \<le> off" and "off + int off_done < 2147483648 * int cap" and "0 < cap" and "cap < 4294967296"
  shows "block_number cap off off_done = (off + int off_done) div int cap"
    and "block_offset cap off off_done = nat ((off + int off_done) mod int cap)"
proof -
  let ?p = "off + int off_done"
  have "2147483648 * int cap < 2147483648 * 4294967296"
    using assms(4) by simp
  then have pos: "file_pos off off_done = nat ?p"
    using assms(1,2) by (subst file_pos_exact) auto
  have "0 \<le> ?p div int cap"
    using assms(1,3) by (simp add: pos_imp_zdiv_nonneg_iff)
  moreover have "?p div int cap < 2147483648"
  proof (rule ccontr)
    assume "\<not> ?thesis"
    then have "2147483648 * int cap \<le> (?p div int cap) * int cap"
      by (intro mult_right_mono) simp_all
    also have "\<dots> \<le> ?p"
      using assms(3) by (simp add: minus_mod_eq_div_mult [symmetric])
    finally show False using assms(2) by simp
  qed
  ultimately have div: "0 \<le> ?p div int cap" "?p div int cap < 2147483648" .
  have n: "int (file_pos off off_done div cap) = ?p div int cap"
    using assms(1) unfolding pos by (simp add: zdiv_int)
  then show num: "block_number cap off off_done = ?p div int cap"
    using div by (simp add: block_number_def to_int32_id)
  have "int (file_pos off off_done) - block_number cap off off_done * int cap = ?p mod int cap"
    using assms(1) unfolding num pos by (simp add: minus_div_mult_eq_mod)
  moreover have "0 \<le> ?p mod int cap" "?p mod int cap < int cap"
    using assms(3) by simp_all
  ultimately show "block_offset cap off off_done = nat (?p mod int cap)"
    using assms(4) by (simp add: block_offset_def)
qed

lemma block_length_exact:
  assumes "block_offset cap off off_done < cap" and "cap < 4294967296"
  shows "block_length cap off off_done todo = min todo (cap - block_offset cap off off_done)"
  using assms by (simp add: block_length_def size_sub_le)

text \<open>Every byte of a file has one place: below two to the 31 blocks, the block number and the offset that the
  loop computes are the quotient and the remainder of the position by the block size, every pass
  handles at least one byte and stays within its block. One block further the number no longer fits
  an \<^verbatim>\<open>int\<close> and becomes negative.\<close>

theorem block_position:
  assumes "0 \<le> off" and "off + int off_done < 2147483648 * int cap" and "0 < cap" and "cap < 4294967296"
    and "0 < todo"
  shows "block_number cap off off_done = (off + int off_done) div int cap \<and>
    int (block_offset cap off off_done) = (off + int off_done) mod int cap \<and>
    0 < block_length cap off off_done todo \<and> block_length cap off off_done todo \<le> todo \<and>
    block_offset cap off off_done + block_length cap off off_done todo \<le> cap \<and>
    block_number cap (2147483648 * int cap) 0 = - 2147483648"
proof -
  note exact = block_number_exact [OF assms(1-4)]
  have mod: "0 \<le> (off + int off_done) mod int cap" "(off + int off_done) mod int cap < int cap"
    using assms(3) by simp_all
  have boff: "int (block_offset cap off off_done) = (off + int off_done) mod int cap"
    unfolding exact(2) using mod(1) by simp
  then have lt: "block_offset cap off off_done < cap"
    using mod(2) by linarith
  have "2147483648 * int cap < 2147483648 * 4294967296"
    using assms(4) by simp
  then have "file_pos (2147483648 * int cap) 0 = 2147483648 * cap"
    by (subst file_pos_exact) (simp_all add: nat_mult_distrib)
  then have "block_number cap (2147483648 * int cap) 0 = - 2147483648"
    using assms(3) by (simp add: block_number_def to_int32_def)
  with exact(1) boff lt block_length_exact [OF lt assms(4), of todo] assms(5) show ?thesis
    by auto
qed

theorem block_position_witness:
  "block_number 8 13 0 = 1 \<and> block_offset 8 13 0 = 5 \<and> block_length 8 13 0 100 = 3"
proof -
  have "block_number 8 13 0 = 1" "int (block_offset 8 13 0) = 5"
    using block_position [of 13 0 8 100] by simp_all
  then have "block_offset 8 13 0 = 5" by simp
  moreover have "block_length 8 13 0 100 = 3"
    using block_length_exact [of 8 13 0 100] \<open>block_offset 8 13 0 = 5\<close> by simp
  ultimately show ?thesis using \<open>block_number 8 13 0 = 1\<close> by blast
qed

section \<open>The end of a file\<close>

text \<open>The end of a file is read off the cluster: when the reverse range delivers the key of block \<open>n\<close>, the result
  is \<open>n\<close>; when there is no block, the result is 0 for a file that exists and an exception for one that
  does not.\<close>

theorem get_eof_backend_result:
  assumes "f = fs self" and "cid = ci_id (file_cluster f)"
    and "ci_range (file_cluster f) (Some (makeDataKey cid (path f) 999999999)) (Some (makeDataKey cid (path f) 0)) None 1 (world st) =
      Some (Inr (rst, Some ks), s1)"
    and "status_ok rst"
    and "ci_get_version (file_cluster f) (Some (makeMetadataKey cid (path f))) None s1 = Some (Inr (vst, v), s2)"
    and "length (makeDataKey cid (path f) n) < npos" and "0 \<le> n" and "n \<le> int_max"
  shows "(ks \<noteq> [] \<and> hd ks = makeDataKey cid (path f) n \<longrightarrow>
      get_eof_backend self (fs, st) = Some (Inr n, fs, st\<lparr>world := s1\<rparr>)) \<and>
    (ks = [] \<longrightarrow> get_eof_backend self (fs, st) =
      Some (if status_ok vst then Inr 0 else Inl (System_error no_such_file_or_directory), fs, st\<lparr>world := s2\<rparr>))"
proof -
  let ?ci = "file_cluster f"
  have range: "call self (\<lambda>ci. ci_range ci (Some (makeDataKey cid (path f) 999999999)) (Some (makeDataKey cid (path f) 0)) None 1) (fs, st) =
      Some (Inr (rst, Some ks), fs, st\<lparr>world := s1\<rparr>)"
    by (rule call_apply) (use assms in simp)
  have meta: "call self (\<lambda>ci. ci_get_version ci (Some (makeMetadataKey cid (path f))) None) (fs, st\<lparr>world := s1\<rparr>) =
      Some (Inr (vst, v), fs, st\<lparr>world := s2\<rparr>)"
    using call_apply [of "\<lambda>ci. ci_get_version ci (Some (makeMetadataKey cid (path f))) None" fs self "st\<lparr>world := s1\<rparr>"] assms(1,5)
    by simp
  have "get_eof_backend self (fs, st) = Some (Inr n, fs, st\<lparr>world := s1\<rparr>)"
    if "ks \<noteq> []" "hd ks = makeDataKey cid (path f) n"
  proof -
    define pre where "pre = cid @ '':data:'' @ path f"
    have n10: "nat n < 10 ^ 10" using assms(8) by (simp add: int_max_def)
    have key: "makeDataKey cid (path f) n = pre @ CHR ''_'' # fixdec 10 (nat n)"
      using makeDataKey_fixdec [OF assms(7,8)] by (simp add: pre_def)
    have "CHR ''_'' \<notin> set (fixdec 10 (nat n))"
      using set_fixdec [of "CHR ''_''" 10 "nat n"] by (auto simp: is_digit_def)
    then have last: "find_last_of (makeDataKey cid (path f) n) (CHR ''_'') = length pre"
      unfolding key by (rule find_last_of_segment)
    have len: "length (pre @ CHR ''_'' # fixdec 10 (nat n)) < npos"
      using assms(6) by (simp only: key)
    then have "size_add (length pre) 1 = length (pre @ ''_'')"
      by (simp add: size_add_def npos_def)
    then have "std_substr (makeDataKey cid (path f) n) (size_add (length pre) 1) (length (makeDataKey cid (path f) n)) =
        Inr (fixdec 10 (nat n))"
      unfolding key using std_substr_append [of "pre @ ''_''" "length (pre @ ''_'')" "fixdec 10 (nat n)"] by simp
    moreover have "std_stoi (fixdec 10 (nat n)) = Inr n"
      using std_stoi_fixdec [OF n10] assms(7,8) by simp
    ultimately show ?thesis
      using range assms(1,2,4) that last by (simp add: get_eof_backend_def Let_def lift_res_def)
  qed
  moreover have "get_eof_backend self (fs, st) =
      Some (if status_ok vst then Inr 0 else Inl (System_error no_such_file_or_directory), fs, st\<lparr>world := s2\<rparr>)" if "ks = []"
    using range meta assms(1,2,4) that by (simp add: get_eof_backend_def Let_def)
  ultimately show ?thesis by blast
qed


definition small_file :: "unit ClusterInterface \<Rightarrow> unit FileIo" where
  "small_file ci = \<lparr>file_cluster = ci, prefetchOracle = PrefetchOracle_new 0, eof_blocknumber = 0,
     eof_verification_time = 0, exceptions = [], opened = True, path = ''f''\<rparr>"

text \<open>The range delivers block 7.\<close>

theorem get_eof_backend_result_witness:
  "get_eof_backend 1 (\<lambda>_. small_file (small_ci\<lparr>ci_range := (\<lambda>a b ks m. ret (mk_status OK [], Some [makeDataKey ''c'' ''f'' 7]))\<rparr>),
     small_cache 100) =
   Some (Inr 7, \<lambda>_. small_file (small_ci\<lparr>ci_range := (\<lambda>a b ks m. ret (mk_status OK [], Some [makeDataKey ''c'' ''f'' 7]))\<rparr>), small_cache 100)"
proof -
  let ?ci = "small_ci\<lparr>ci_range := (\<lambda>a b ks m. ret (mk_status OK [], Some [makeDataKey ''c'' ''f'' 7]))\<rparr>"
  have triv: "(small_cache 100)\<lparr>world := ()\<rparr> = small_cache 100"
    by (simp add: small_cache_def DataCache_new_def)
  have len: "length (makeDataKey ''c'' ''f'' 7) < npos"
    by (simp add: makeDataKey_fixdec int_max_def npos_def)
  show ?thesis
    using get_eof_backend_result [where f = "small_file ?ci" and fs = "\<lambda>_. small_file ?ci" and self = 1 and cid = "''c''" and
        st = "small_cache 100" and rst = "mk_status OK []" and ks = "[makeDataKey ''c'' ''f'' 7]" and ?s1.0 = "()" and
        vst = "mk_status REMOTE_NOT_FOUND []" and v = None and ?s2.0 = "()" and n = 7] len
    by (simp add: small_file_def small_ci_def triv int_max_def)
qed

section \<open>Appending and reading\<close>

text \<open>A block that is not cached, in a cache with room and without recycled blocks.\<close>

definition new_block :: "('s \<Rightarrow> nat) \<Rightarrow> 's ClusterInterface \<Rightarrow> string \<Rightarrow> Mode \<Rightarrow> 's \<Rightarrow> 's DataBlock" where
  "new_block now ci k m s =
     \<lparr>mode = m, cluster = Some ci, key = k, version = None, remote_value = None, local_value = None,
      value_size = 0, updates = [], timestamp = (if m = CREATE then now s else 0)\<rparr>"

lemma new_block_simps [simp]:
  "cluster (new_block now ci k m s) = Some ci"
  "cap_of (new_block now ci k m s) = max_value_size (ci_limits ci)"
  by (simp_all add: new_block_def cap_of_def)

lemma getDataKey_new:
  assumes "cache_wf {} st" and "lookup st (makeDataKey (ci_id ci) p n @ ci_instanceId ci) = None"
    and "\<not> 7 * cache_capacity st < 10 * current_size st" and "unused_items st = []"
  obtains st' where "getDataKey now owner ci p n m st = Some (Inr (next_block st), st')"
    and "blocks st' = (blocks st)(next_block st := new_block now ci (makeDataKey (ci_id ci) p n) m (world st))"
    and "world st' = world st" and "cache_wf {} st'" and "held st' = held st" and "pool st' = pool st"
    and "owner_tables st' = (owner_tables st)(owner := Some (insert (next_block st) (owner_set (owner_tables st owner))))"
proof -
  let ?a = "next_block st" and ?b = "new_block now ci (makeDataKey (ci_id ci) p n) m (world st)"
  let ?k = "makeDataKey (ci_id ci) p n @ ci_instanceId ci"
  let ?st = "st\<lparr>blocks := (blocks st)(?a := ?b), next_block := Suc ?a, item_owners := (item_owners st)(?a := {owner}),
      last_access := (last_access st)(?a := now (world st)), lru := ?a # lru st\<rparr>"
  let ?st' = "?st\<lparr>current_size := size_add (current_size st) (max_value_size (ci_limits ci)), lookup := (lookup st)(?k \<mapsto> ?a),
      owner_tables := (owner_tables st)(owner := Some (insert ?a (owner_set (owner_tables st owner))))\<rparr>"
  have item: "obtain_item now owner ci (makeDataKey (ci_id ci) p n) m st = Some (Inr ?a, ?st)"
    using assms(4) by (simp add: obtain_item_def DataBlock_new_def new_block_def)
  have get: "getDataKey now owner ci p n m st = Some (Inr ?a, ?st')"
    using assms(2,3) item by (simp add: getDataKey_def Let_def)
  show ?thesis
  proof (rule that [OF get])
    show "cache_wf {} ?st'" using getDataKey_wf [OF assms(1) get] by blast
  qed simp_all
qed

lemma readahead_off:
  assumes "fe_window env = 0"
  shows "scheduleReadahead env self n (fs, st) =
    Some (Inr (), fs(self := (fs self)\<lparr>prefetchOracle := PrefetchOracle_add n (prefetchOracle (fs self))\<rparr>), st)"
proof -
  have "readahead_length 0 st = 0"
    by (simp add: readahead_length_def Let_def)
  then show ?thesis
    using assms by (simp add: scheduleReadahead_def)
qed

lemma new_block_inv:
  "max_value_size (ci_limits ci) < 18446744073709551616 \<Longrightarrow> block_inv ci (new_block now ci k m s)"
  by (simp add: block_inv_def new_block_def buffer_def)


lemma cached_lookup:
  assumes "cache_wf {} st" and "a \<in> set (lru st)"
  shows "lookup st (ident (blocks st a)) = Some a"
  using assms by (simp add: cache_wf_def lookup_wf_def)

lemma append_block:
  fixes off :: int and cap :: nat
  defines "n \<equiv> block_number cap off 0" and "boff \<equiv> block_offset cap off 0"
  assumes "cache_wf {} st" and "lookup st (makeDataKey (ci_id ci) (path f) n @ ci_instanceId ci) = None"
    and "\<not> 7 * cache_capacity st < 10 * current_size st" and "unused_items st = []"
    and "f = fs self" and "ci = file_cluster f" and "cap = max_value_size (ci_limits ci)" and "cap < 4294967296"
    and "fe_window env = 0" and "eof_blocknumber f < n" and "boff + todo < cap" and "todo \<le> length buf"
  obtains st' a b where
    "rw_step env self WRITE cap off todo 0 buf (fs, st) =
      Some (Inr (True, 0, todo, buf),
        fs(self := f\<lparr>eof_blocknumber := n, prefetchOracle := PrefetchOracle_add n (prefetchOracle f)\<rparr>), st')"
    "cache_wf {} st'" "lookup st' (makeDataKey (ci_id ci) (path f) n @ ci_instanceId ci) = Some a" "blocks st' a = b"
    "world st' = world st" "block_inv ci b" "value_size b = boff + todo" "timestamp b = fe_now env (world st)"
    "\<And>i. i < todo \<Longrightarrow> block_byte b (boff + i) = buf ! i"
    "key b = makeDataKey (ci_id ci) (path f) n" "mode b = CREATE" "version b = None" "local_value b \<noteq> None" "updates b \<noteq> []"
    "owner_tables st' = (owner_tables st)(self := Some (insert a (owner_set (owner_tables st self))))"
proof -
  let ?now = "fe_now env" and ?k = "makeDataKey (ci_id ci) (path f) n"
  let ?a = "next_block st" and ?b0 = "new_block ?now ci ?k CREATE (world st)"
  have blen: "block_length cap off 0 todo = todo"
    using assms(10,13) by (simp add: block_length_exact boff_def [symmetric])
  obtain st1 where st1: "getDataKey ?now self ci (path f) n CREATE st = Some (Inr ?a, st1)"
    "blocks st1 = (blocks st)(?a := ?b0)" "world st1 = world st" "cache_wf {} st1" "held st1 = held st" "pool st1 = pool st"
    "owner_tables st1 = (owner_tables st)(self := Some (insert ?a (owner_set (owner_tables st self))))"
    by (rule getDataKey_new [OF assms(3-6)])
  have inv0: "block_inv ci ?b0"
    by (rule new_block_inv) (use assms(9,10) in simp)
  have le: "boff + todo \<le> max_value_size (ci_limits ci)"
    using assms(9,13) by simp
  obtain b where b: "block_write (Some buf) boff todo (?b0, world st) = Some (Inr (), b, world st)" "block_inv ci b"
    "value_size b = max (boff + todo) (value_size ?b0)" "updates b = updates ?b0 @ [(boff, todo)]"
    "\<And>i. boff \<le> i \<Longrightarrow> i < boff + todo \<Longrightarrow> block_byte b i = buf ! (i - boff)"
    "\<And>i. i < value_size ?b0 \<Longrightarrow> \<not> (boff \<le> i \<and> i < boff + todo) \<Longrightarrow> block_byte b i = block_byte ?b0 i"
    "local_value b \<noteq> None"
    "b = ?b0\<lparr>value_size := value_size b, local_value := local_value b, remote_value := remote_value b, updates := updates b\<rparr>"
    by (rule block_write_ok [OF inv0 le assms(14), of "world st"]) (rule that)
  let ?h = "st1\<lparr>held := ?a # held st1\<rparr>"
  let ?w = "?h\<lparr>blocks := (blocks st1)(?a := b), world := world st\<rparr>"
  let ?st' = "?w\<lparr>held := remove1 ?a (held ?w)\<rparr>"
  let ?fs1 = "fs(self := f\<lparr>eof_blocknumber := n\<rparr>)"
  let ?fs' = "fs(self := f\<lparr>eof_blocknumber := n, prefetchOracle := PrefetchOracle_add n (prefetchOracle f)\<rparr>)"
  have wrt: "on_block ?a (block_write (Some buf) boff todo) ?h = Some (Inr (), ?w)"
    using b(1) st1(2,3) by (simp add: on_block_def)
  have front: "?a \<in> set (lru st1)" "ident (blocks st1 ?a) = ?k @ ci_instanceId ci"
    using getDataKey_wf [OF assms(3) st1(1)] by blast+
  note kept = cache_wf_on_block [OF keeps_block_ops(2) wrt]
  have wf': "cache_wf {} ?st'"
    by (simp only: cache_wf_pool(2) kept(1) st1(4))
  have "?a \<in> set (lru ?st')" "ident (blocks ?st' ?a) = ?k @ ci_instanceId ci"
    using kept(2) kept(5) [of ?a] front by simp_all
  then have lk: "lookup ?st' (?k @ ci_instanceId ci) = Some ?a"
    using cached_lookup [OF wf'] by metis
  have full: "size_add boff todo \<noteq> cap"
    using assms(10,13) by (simp add: size_add_def)
  have blk: "file_block env self n CREATE (?fs1, st) = Some (Inr ?a, ?fs1, st1)"
    using st1(1) assms(7,8) by (simp add: file_block_def on_cache_Some)
  have ra: "scheduleReadahead env self n (?fs1, ?h) = Some (Inr (), ?fs', ?h)"
    using readahead_off [OF assms(11), of self n ?fs1 ?h] by simp
  have wb: "write_block env self ?a cap buf boff todo (?fs', ?h) = Some (Inr (), ?fs', ?w)"
    using wrt full by (simp add: write_block_def with_block_def on_cache_Some)
  have "holding ?a (seq (scheduleReadahead env self n)
      (seq (write_block env self ?a cap buf boff todo) (ret (True, size_sub todo todo, size_add 0 todo, buf)))) (?fs1, st1) =
      Some (Inr (True, size_sub todo todo, size_add 0 todo, buf), ?fs', ?st')"
    by (rule holding_Some) (use ra wb in simp)
  moreover have "size_sub todo todo = 0" "size_add 0 todo = todo"
    using assms(10,13) by (simp_all add: size_sub_def size_add_def)
  ultimately have step: "rw_step env self WRITE cap off todo 0 buf (fs, st) = Some (Inr (True, 0, todo, buf), ?fs', ?st')"
    using blk assms(7,12) by (simp add: rw_step_def Let_def n_def [symmetric] boff_def [symmetric] blen)
  show ?thesis
  proof (rule that [OF step wf' lk, of b])
    show "timestamp b = ?now (world st)"
      by (subst b(8)) (simp add: new_block_def)
    show "value_size b = boff + todo"
      using b(3) by (simp add: new_block_def)
    show "block_byte b (boff + i) = buf ! i" if "i < todo" for i
      using b(5) [of "boff + i"] that by simp
    show "key b = ?k" "mode b = CREATE" "version b = None"
      by (subst b(8), simp add: new_block_def)+
    show "updates b \<noteq> []" using b(4) by simp
    show "owner_tables ?st' = (owner_tables st)(self := Some (insert ?a (owner_set (owner_tables st self))))"
      using st1(7) by simp
  qed (use b(2,7) in simp_all)
qed


lemma block_size_fresh:
  assumes "not_expired (now s) (timestamp b)"
  shows "block_size now (b, s) = Some (Inr (value_size b), b, s)"
  using validate_not_expired [of now s b] assms by (simp add: block_size_def)

lemma with_block_same:
  assumes "m (blocks st a, world st) = Some (r, blocks st a, world st)"
  shows "with_block a m (fs, st) = Some (r, fs, st)"
  using with_block_Some [of m st a r "blocks st a" "world st" fs] assms by simp

lemma verify_eof_fresh:
  assumes "fe_now env (world st) - eof_verification_time (fs self) \<le> 1000000"
  shows "verify_eof env self (fs, st) = Some (Inr (), fs, st)"
proof -
  have "(fe_now env (world st) - eof_verification_time (fs self)) div 1000 \<le> 1000"
    using div_le_mono [OF assms, of 1000] by simp
  then show ?thesis
    by (simp add: verify_eof_def expiration_time_def)
qed

lemma read_last_block:
  fixes off :: int and cap :: nat
  defines "n \<equiv> block_number cap off 0" and "boff \<equiv> block_offset cap off 0"
  assumes "lookup st (makeDataKey (ci_id ci) (path f) n @ ci_instanceId ci) = Some a"
    and "f = fs self" and "ci = file_cluster f" and "cap = max_value_size (ci_limits ci)" and "cap < 4294967296"
    and "fe_window env = 0" and "eof_blocknumber f = n" and "boff + todo < cap" and "0 < todo"
    and "fe_now env (world st) - eof_verification_time f \<le> 1000000"
    and "block_inv ci (blocks st a)" and "value_size (blocks st a) = boff + todo"
    and "timestamp (blocks st a) = fe_now env (world st)"
  shows "\<exists>fs' st'. rw_step env self READ cap off todo 0 buf (fs, st) =
      Some (Inr (False, 0, 0, map (block_byte (blocks st a)) [boff..<boff + todo] @ drop todo buf), fs', st') \<and>
    world st' = world st"
proof -
  let ?b = "blocks st a"
  have blen: "block_length cap off 0 todo = todo"
    using assms(7,10) by (simp add: block_length_exact boff_def [symmetric])
  let ?h = "(touch (fe_now env) self a st)\<lparr>held := a # held (touch (fe_now env) self a st)\<rparr>"
  let ?fs' = "fs(self := f\<lparr>prefetchOracle := PrefetchOracle_add n (prefetchOracle f)\<rparr>)"
  have h: "blocks ?h = blocks st" "world ?h = world st"
    by (simp_all add: touch_def)
  have fresh: "not_expired (fe_now env (world st)) (timestamp ?b)"
    by (simp add: assms(15) not_expired_def expiration_time_def)
  have valid: "validateVersion (fe_now env) (?b, world st) = Some (Inr True, ?b, world st)"
    by (rule validate_not_expired) (rule fresh)
  have le: "boff + todo \<le> max_value_size (ci_limits ci)"
    using assms(6,10) by simp
  have blk: "file_block env self n STANDARD (fs, st) = Some (Inr a, fs, touch (fe_now env) self a st)"
    using getDataKey_hit [OF assms(3)] assms(4,5) by (simp add: file_block_def on_cache_Some)
  have ra: "scheduleReadahead env self n (fs, ?h) = Some (Inr (), ?fs', ?h)"
    using readahead_off [OF assms(8), of self n fs ?h] assms(4) by simp
  have rd: "with_block a (block_read (fe_now env) (Some buf) boff todo) (?fs', ?h) =
      Some (Inr (map (block_byte ?b) [boff..<boff + todo] @ drop todo buf), ?fs', ?h)"
    by (rule with_block_same, unfold h)
      (rule block_read_fresh [OF assms(13) le valid assms(13)])
  have sz: "with_block a (block_size (fe_now env)) (?fs', ?h) = Some (Inr (boff + todo), ?fs', ?h)"
    by (rule with_block_same, unfold h) (use block_size_fresh [of "fe_now env" "world st" ?b] fresh assms(14) in simp)
  have "size_sub (boff + todo) boff = todo" "size_sub todo todo = 0"
    using assms(7,10) by (simp_all add: size_sub_le)
  then have "read_end env self a n boff todo todo (?fs', ?h) = Some (Inr (False, 0), ?fs', ?h)"
    using verify_eof_fresh [of env ?h ?fs' self] sz assms(9,11,12) h by (simp add: read_end_def)
  then have "holding a (seq (scheduleReadahead env self n)
      (bnd (with_block a (block_read (fe_now env) (Some buf) boff todo)) (\<lambda>out. bnd (this self) (\<lambda>f.
        if eof_blocknumber f \<le> n
        then bnd (read_end env self a n boff todo todo) (\<lambda>(more, todo). ret (more, todo, 0, out))
        else ret (True, size_sub todo todo, size_add 0 todo, out))))) (fs, touch (fe_now env) self a st) =
      Some (Inr (False, 0, 0, map (block_byte ?b) [boff..<boff + todo] @ drop todo buf), ?fs', ?h\<lparr>held := remove1 a (held ?h)\<rparr>)"
    by (intro holding_Some) (use ra rd assms(9) in simp)
  then have "rw_step env self READ cap off todo 0 buf (fs, st) =
      Some (Inr (False, 0, 0, map (block_byte ?b) [boff..<boff + todo] @ drop todo buf), ?fs', ?h\<lparr>held := remove1 a (held ?h)\<rparr>)"
    using blk by (simp add: rw_step_def Let_def n_def [symmetric] boff_def [symmetric] blen)
  then show ?thesis
    using h(2) by (intro exI conjI) (assumption, simp)
qed


lemma to_int64_small: "0 \<le> k \<Longrightarrow> k < 9223372036854775808 \<Longrightarrow> to_int64 k = k"
  by (simp add: to_int64_def signed_of_int signed_take_bit_int_eq_self)

lemma ReadWrite_steps:
  assumes "f = fs self" and "exceptions f = []" and "cap = max_value_size (ci_limits (file_cluster f))" and "0 < cap"
    and "0 < todo" and "todo < 4294967296"
    and "rw_step env self dir cap off todo 0 buf (fs, st) = Some (Inr (go, 0, done, buf'), s')"
  shows "ReadWrite env self dir off buf (int todo) (fs, st) = Some (Inr (int todo, buf'), s')"
proof -
  have "rw_loop env self dir cap off 0 done buf' s' = Some (Inr (0, buf'), s')"
    by (subst rw_loop.simps) simp
  then have "rw_loop env self dir cap off todo 0 buf (fs, st) = Some (Inr (0, buf'), s')"
    using assms(5,7) by (subst rw_loop.simps) (cases go; simp)
  moreover have "nat (int todo mod 18446744073709551616) = todo" "to_int64 (int todo) = int todo"
    using assms(6) by (simp_all add: to_int64_small nat_mod_distrib)
  ultimately show ?thesis
    using assms(1-4) by (simp add: ReadWrite_def rethrow_def Let_def)
qed

text \<open>C7: What is appended can be read: writing a stretch of a new block past the end of an open file, in a cache
  with room, and reading it back through the file within the expiration times returns the same number of
  bytes and the same bytes, without any request to the cluster.\<close>

theorem append_then_read:
  assumes "f = fs self" and "opened f" and "exceptions f = []" and "fe_window env = 0"
    and "ci = file_cluster f" and "cap = max_value_size (ci_limits ci)" and "cap < 4294967296"
    and "0 < len" and "block_offset cap off 0 + len < cap" and "length buf = len" and "length out0 = len"
    and "eof_blocknumber f < block_number cap off 0"
    and "cache_wf {} st" and "lookup st (makeDataKey (ci_id ci) (path f) (block_number cap off 0) @ ci_instanceId ci) = None"
    and "\<not> 7 * cache_capacity st < 10 * current_size st" and "unused_items st = []"
    and "fe_now env (world st) - eof_verification_time f \<le> 1000000"
  shows "\<exists>fs1 st1 fs2 st2. Write env self off buf (int len) (fs, st) = Some (Inr (int len, buf), fs1, st1) \<and>
    Read env self off out0 (int len) (fs1, st1) = Some (Inr (int len, buf), fs2, st2) \<and> world st2 = world st"
proof -
  let ?n = "block_number cap off 0" and ?boff = "block_offset cap off 0"
  let ?f1 = "f\<lparr>eof_blocknumber := ?n, prefetchOracle := PrefetchOracle_add ?n (prefetchOracle f)\<rparr>"
  let ?fs1 = "fs(self := ?f1)"
  have len: "0 < cap" "len < 4294967296" "len \<le> length buf"
    using assms(7,9,10) by auto
  obtain st1 a b where w: "rw_step env self WRITE cap off len 0 buf (fs, st) = Some (Inr (True, 0, len, buf), ?fs1, st1)"
    "cache_wf {} st1" "lookup st1 (makeDataKey (ci_id ci) (path f) ?n @ ci_instanceId ci) = Some a" "blocks st1 a = b"
    "world st1 = world st" "block_inv ci b" "value_size b = ?boff + len" "timestamp b = fe_now env (world st)"
    "\<And>i. i < len \<Longrightarrow> block_byte b (?boff + i) = buf ! i"
    by (rule append_block [where st = st and ci = ci and f = f and cap = cap and off = off and fs = fs and self = self and
          env = env and todo = len and buf = buf, OF assms(13-16,1,5-7,4,12,9) len(3)])
      (rule that)
  have wr: "Write env self off buf (int len) (fs, st) = Some (Inr (int len, buf), ?fs1, st1)"
    using ReadWrite_steps [OF assms(1,3) _ len(1) assms(8) len(2) w(1)] assms(1,2,5,6)
    by (simp add: Write_def guard_opened_def)
  obtain fs2 st2 where r: "rw_step env self READ cap off len 0 out0 (?fs1, st1) =
      Some (Inr (False, 0, 0, map (block_byte b) [?boff..<?boff + len] @ drop len out0), fs2, st2)" "world st2 = world st1"
    using read_last_block [of st1 ci ?f1 cap off a ?fs1 self env len out0] w assms(4-9,17) by auto
  have "map (block_byte b) [?boff..<?boff + len] @ drop len out0 = buf"
    using w(9) assms(10,11) by (intro nth_equalityI) auto
  with r have "ReadWrite env self READ off out0 (int len) (?fs1, st1) = Some (Inr (int len, buf), fs2, st2)"
    using ReadWrite_steps [of ?f1 ?fs1 self cap len env READ off out0 st1 False 0 buf "(fs2, st2)"] assms(3,5,6,8) len
    by simp
  then have "Read env self off out0 (int len) (?fs1, st1) = Some (Inr (int len, buf), fs2, st2)"
    using assms(2) by (simp add: Read_def guard_opened_def)
  with wr r(2) w(5) show ?thesis by auto
qed

definition small_env :: "unit fio_env" where
  "small_env = \<lparr>fe_now = (\<lambda>_. 0), fe_order = (\<lambda>d. d), fe_window = 0, fe_getCluster = (\<lambda>_. ret small_ci),
     fe_quotient_text = (\<lambda>x ds. dec x)\<rparr>"

theorem append_then_read_witness:
  "\<exists>fs1 st1 fs2 st2. Write small_env 1 10 ''hello'' (int 5) (\<lambda>_. small_file small_ci, small_cache 100) =
       Some (Inr (int 5, ''hello''), fs1, st1) \<and>
     Read small_env 1 10 ''.....'' (int 5) (fs1, st1) = Some (Inr (int 5, ''hello''), fs2, st2) \<and> world st2 = ()"
proof -
  have pos: "block_number 8 10 0 = 1" "block_offset 8 10 0 = 2"
    using block_number_exact [of 10 0 8] by simp_all
  have "\<exists>fs1 st1 fs2 st2. Write small_env 1 10 ''hello'' (int 5) (\<lambda>_. small_file small_ci, small_cache 100) =
       Some (Inr (int 5, ''hello''), fs1, st1) \<and>
     Read small_env 1 10 ''.....'' (int 5) (fs1, st1) = Some (Inr (int 5, ''hello''), fs2, st2) \<and>
     world st2 = world (small_cache 100)"
    by (rule append_then_read [where f = "small_file small_ci" and ci = small_ci and cap = 8])
      (simp_all add: pos small_file_def small_env_def small_cache_def cache_wf_new,
       simp_all add: small_ci_def DataCache_new_def)
  then show ?thesis by simp
qed


section \<open>Listing attributes\<close>

lemma attribute_names_ok:
  assumes "\<forall>x \<in> set names. length (makeAttributeKey cid p x) \<le> npos"
  shows "attribute_names cid p (map (makeAttributeKey cid p) names) = Inr names"
  using assms
proof (induction names)
  case (Cons x names)
  have "extractAttributeName cid p (makeAttributeKey cid p x) = Inr x"
    using Cons.prems by (simp add: extractAttributeName_segments)
  with Cons show ?case by simp
qed simp

lemma attr_round_ok:
  assumes "f = fs self" and "cid = ci_id (file_cluster f)"
    and "ci_range (file_cluster f) (Some a) (Some b) None 0 (world st) =
      Some (Inr (rst, Some (map (makeAttributeKey cid (path f)) xs)), s1)" and "status_ok rst"
    and "\<forall>x \<in> set xs. length (makeAttributeKey cid (path f) x) \<le> npos"
  shows "attr_round self a b names (fs, st) =
    Some (Inr (length xs = max_range_elements (ci_limits (file_cluster f)),
      if xs \<noteq> [] then makeAttributeKey cid (path f) (last xs) else a, names @ xs), fs, st\<lparr>world := s1\<rparr>)"
proof -
  have "call self (\<lambda>ci. ci_range ci (Some a) (Some b) None 0) (fs, st) =
      Some (Inr (rst, Some (map (makeAttributeKey cid (path f)) xs)), fs, st\<lparr>world := s1\<rparr>)"
    by (rule call_apply) (use assms(1,3) in simp)
  then show ?thesis
    using assms(1,2,4) attribute_names_ok [OF assms(5)] by (simp add: attr_round_def last_map)
qed

text \<open>C32: The attributes of a file are listed completely, but a full answer repeats its last name: with fewer
  attributes than the cluster delivers at once the result is exactly their names; when the first
  answer is full, the next request starts again at its last key, which therefore appears twice.\<close>

theorem attrList_result:
  assumes "f = fs self" and "cid = ci_id (file_cluster f)" and "names \<noteq> []"
    and "\<forall>x \<in> set names. length (makeAttributeKey cid (path f) x) \<le> npos"
    and "ci_range (file_cluster f) (Some (makeAttributeKey cid (path f) '' '')) (Some (makeAttributeKey cid (path f) ''~'')) None 0 (world st) =
      Some (Inr (st1, Some (map (makeAttributeKey cid (path f)) names)), s1)" and "status_ok st1"
    and "ci_range (file_cluster f) (Some (makeAttributeKey cid (path f) (last names))) (Some (makeAttributeKey cid (path f) ''~'')) None 0 s1 =
      Some (Inr (st2, Some [makeAttributeKey cid (path f) (last names)]), s2)" and "status_ok st2"
    and "1 < max_range_elements (ci_limits (file_cluster f))"
  shows "(length names < max_range_elements (ci_limits (file_cluster f)) \<longrightarrow>
      attrList self (fs, st) = Some (Inr names, fs, st\<lparr>world := s1\<rparr>)) \<and>
    (length names = max_range_elements (ci_limits (file_cluster f)) \<longrightarrow>
      attrList self (fs, st) = Some (Inr (names @ [last names]), fs, st\<lparr>world := s2\<rparr>))"
proof -
  let ?m = "max_range_elements (ci_limits (file_cluster f))" and ?k = "makeAttributeKey cid (path f)"
  have one: "attr_round self (?k '' '') (?k ''~'') [] (fs, st) = Some (Inr (length names = ?m, ?k (last names), names), fs, st\<lparr>world := s1\<rparr>)"
    using attr_round_ok [of f fs self cid "?k '' ''" "?k ''~''" st st1 names s1 "[]"] assms(1-6) by simp
  have list: "attrList self (fs, st) = attr_loop self (?k '' '') (?k ''~'') [] (fs, st)"
    using assms(1,2) by (simp add: attrList_def Let_def)
  have two: "attr_round self (?k (last names)) (?k ''~'') names (fs, st\<lparr>world := s1\<rparr>) =
      Some (Inr (1 = ?m, ?k (last names), names @ [last names]), fs, st\<lparr>world := s2\<rparr>)"
    using attr_round_ok [of f fs self cid "?k (last names)" "?k ''~''" "st\<lparr>world := s1\<rparr>" st2 "[last names]" s2 names] assms(1-4,7,8)
    by simp
  have three: "attr_loop self (?k (last names)) (?k ''~'') names (fs, st\<lparr>world := s1\<rparr>) =
      Some (Inr (names @ [last names]), fs, st\<lparr>world := s2\<rparr>)"
    using two assms(9) by (subst attr_loop.simps) simp
  have "attrList self (fs, st) = Some (Inr names, fs, st\<lparr>world := s1\<rparr>)" if "length names < ?m"
    unfolding list using one that by (subst attr_loop.simps) simp
  moreover have "attrList self (fs, st) = Some (Inr (names @ [last names]), fs, st\<lparr>world := s2\<rparr>)" if "length names = ?m"
    unfolding list using one three that by (subst attr_loop.simps) simp
  ultimately show ?thesis by blast
qed

text \<open>A cluster that delivers at most two keys at once, with the attributes \<open>x\<close> and \<open>y\<close>.\<close>

definition two_attributes :: "unit ClusterInterface" where
  "two_attributes = small_ci\<lparr>
     ci_limits := \<lparr>max_key_size = 100, max_version_size = 100, max_value_size = 8, max_range_elements = 2\<rparr>,
     ci_range := (\<lambda>a b ks m. ret (mk_status OK [],
       Some (if a = Some (makeAttributeKey ''c'' ''f'' ''y'') then [makeAttributeKey ''c'' ''f'' ''y'']
             else map (makeAttributeKey ''c'' ''f'') [''x'', ''y''])))\<rparr>"

theorem attrList_result_witness:
  "attrList 1 (\<lambda>_. small_file two_attributes, small_cache 100) =
     Some (Inr [''x'', ''y'', ''y''], \<lambda>_. small_file two_attributes, small_cache 100)"
proof -
  have triv: "(small_cache 100)\<lparr>world := ()\<rparr> = small_cache 100"
    by (simp add: small_cache_def DataCache_new_def)
  have neq: "makeAttributeKey ''c'' ''f'' '' '' \<noteq> makeAttributeKey ''c'' ''f'' ''y''"
    by (simp add: makeAttributeKey_def)
  have len: "\<forall>x \<in> set [''x'', ''y'']. length (makeAttributeKey ''c'' ''f'' x) \<le> npos"
    by (simp add: makeAttributeKey_def npos_def)
  have f: "file_cluster (small_file two_attributes) = two_attributes" "path (small_file two_attributes) = ''f''"
    by (simp_all add: small_file_def)
  have ci: "ci_id two_attributes = ''c''" "max_range_elements (ci_limits two_attributes) = 2"
    "ci_range two_attributes (Some (makeAttributeKey ''c'' ''f'' '' '')) b ks m s =
       Some (Inr (mk_status OK [], Some (map (makeAttributeKey ''c'' ''f'') [''x'', ''y''])), s)"
    "ci_range two_attributes (Some (makeAttributeKey ''c'' ''f'' ''y'')) b ks m s =
       Some (Inr (mk_status OK [], Some [makeAttributeKey ''c'' ''f'' ''y'']), s)" for b ks m s
    using neq by (simp_all add: two_attributes_def small_ci_def)
  show ?thesis
    using attrList_result [where f = "small_file two_attributes" and fs = "\<lambda>_. small_file two_attributes" and self = 1 and
        cid = "''c''" and names = "[''x'', ''y'']" and st = "small_cache 100" and ?st1.0 = "mk_status OK []" and
        ?st2.0 = "mk_status OK []" and ?s1.0 = "()" and ?s2.0 = "()", unfolded f ci triv, OF refl refl _ len]
    by (simp add: ci triv)
qed

end
