(* ===== verification/Admin_Cluster.thy ===== *)
theory Admin_Cluster
  imports Cluster_Interface Cluster_Storage
begin

text \<open>
  The key maintenance of src/KineticAdminCluster.cc: counting, scanning, repairing and resetting all
  keys of one kind. The main loop pages through the keys with range requests and hands every page to
  a pool of threads.

  The state holds the cluster object with its world, the counters, and the pages that were handed to
  the pool and have not been processed. The pool processes the pages one after the other in the order
  of submission; how many of them are done when \<^verbatim>\<open>run\<close> returns is a parameter \<open>sched\<close>, beyond the ones
  that \<^verbatim>\<open>run\<close> waits for. The counters are 32 bit integers. The progress callback is a function of the
  total. The benchmark and \<^verbatim>\<open>status\<close> are in \<^verbatim>\<open>Admin_Status\<close>.
\<close>

section \<open>Model\<close>

datatype Operation = COUNT | SCAN | REPAIR | RESET

datatype OperationTarget = DATA | METADATA | ATTRIBUTE | INDICATOR | INVALID

record KeyCounts =
  kc_total :: int
  kc_incomplete :: int
  kc_need_action :: int
  kc_repaired :: int
  kc_removed :: int
  kc_unrepairable :: int

definition KeyCountsInternal_new :: KeyCounts where
  "KeyCountsInternal_new =
     \<lparr>kc_total = 0, kc_incomplete = 0, kc_need_action = 0, kc_repaired = 0, kc_removed = 0, kc_unrepairable = 0\<rparr>"

record 'w admin_state =
  adm_cluster :: "'w kinetic_state"
  adm_counts :: KeyCounts
  adm_pages :: "string list list"

type_synonym ('w, 'a) admin = "('w admin_state, 'a) kio"

subsection \<open>Access to the state\<close>

definition int_inc :: "int \<Rightarrow> int" where
  "int_inc n = to_int32 (n + 1)"

definition tally :: "(KeyCounts \<Rightarrow> KeyCounts) \<Rightarrow> ('w, unit) admin" where
  "tally f = modify (\<lambda>s. s\<lparr>adm_counts := f (adm_counts s)\<rparr>)"

definition on_cluster :: "('w kinetic_state, 'a) kio \<Rightarrow> ('w, 'a) admin" where
  "on_cluster m = zoom adm_cluster (\<lambda>c s. s\<lparr>adm_cluster := c\<rparr>) m"

definition with_world :: "(KineticCluster \<Rightarrow> 'w \<Rightarrow> 'a \<times> 'w) \<Rightarrow> ('w, 'a) admin" where
  "with_world f = on_cluster (kc_call_const (\<lambda>cl w. case f cl w of (x, w) \<Rightarrow> Some (Inr x, w)))"

subsection \<open>Operations on one key\<close>

text \<open>Removing a key from all drives, whatever its version.\<close>

definition remove_everywhere :: "'w env \<Rightarrow> string \<Rightarrow> ('w, kinetic_status) admin" where
  "remove_everywhere env key = on_cluster (kc_call_const (\<lambda>cl w.
     map_option (\<lambda>(r, so, w). (r, w))
       (DEL_execute env (operation_timeout cl) (redundancy cl)
         (StripeOperation_DEL_new key [] IGNORE_VERSION (connections cl) (connections cl) 0) w)))"

definition handoff_range :: "'w env \<Rightarrow> string \<Rightarrow> ('w, kinetic_status \<times> KineticClusterOperation) admin" where
  "handoff_range env key = with_world (\<lambda>cl w.
     case ClusterRangeOp_execute env (operation_timeout cl) (size_sub (connections cl) (numData (redundancy cl)))
       (ClusterRangeOp_new (''handoff='' @ key) (''handoff='' @ key @ ''~'') 100 (connections cl)) w of
       (st, hofs, w) \<Rightarrow> ((st, hofs), w))"

definition removeIndicatorKey :: "'w env \<Rightarrow> string \<Rightarrow> ('w, bool) admin" where
  "removeIndicatorKey env key =
     bnd (handoff_range env key) (\<lambda>(status, hofs).
     seq (if status_ok status
          then for_each (\<lambda>k. seq (remove_everywhere env k) (ret ())) (ClusterRangeOp_getKeys 100 hofs)
          else ret ())
     (bnd (remove_everywhere env (makeIndicatorKey key)) (\<lambda>status. ret (status_ok status))))"

text \<open>The versions of all chunks of a key, with the result map.\<close>

definition stripe_versions :: "'w env \<Rightarrow> string \<Rightarrow> ('w, result_map \<times> StripeOperation_GET) admin" where
  "stripe_versions env key = with_world (\<lambda>cl w.
     let getV = StripeOperation_GET_new key True (connections cl) (redundancy cl) True
     in case executeOperationVector env (operation_timeout cl) (so_op (get_so getV)) w of
          (rmap, op, w) \<Rightarrow> ((rmap, getV\<lparr>get_so := (get_so getV)\<lparr>so_op := op\<rparr>\<rparr>), w))"

definition the_redundancy :: "('w, redundancy_provider) admin" where
  "the_redundancy = asks (\<lambda>s. redundancy (kinetic_object (adm_cluster s)))"

definition scanKey :: "'w env \<Rightarrow> string \<Rightarrow> ('w, bool) admin" where
  "scanKey env key =
     bnd (stripe_versions env key) (\<lambda>(rmap, getV).
     bnd the_redundancy (\<lambda>rp.
       let available = rmap_get (env_code env) rmap OK;
           missing = rmap_get (env_code env) rmap REMOTE_NOT_FOUND;
           valid_results = available + missing;
           target_version = mostFrequentVersion getV
       in seq (if valid_results < rp_size rp
               then tally (\<lambda>k. k\<lparr>kc_incomplete := int_inc (kc_incomplete k)\<rparr>) else ret ())
         (if vc_frequency target_version = valid_results \<and> numData rp \<le> valid_results then ret False
          else if numData rp \<le> vc_frequency target_version \<or> numData rp \<le> missing
          then seq (tally (\<lambda>k. k\<lparr>kc_need_action := int_inc (kc_need_action k)\<rparr>)) (ret True)
          else throw Runtime_error)))"

definition stripe_value :: "'w env \<Rightarrow> isal \<Rightarrow> string \<Rightarrow> ('w, kinetic_status \<times> StripeOperation_GET) admin" where
  "stripe_value env lib key = on_cluster (kc_call (\<lambda>cl w.
     case GET_execute env lib (operation_timeout cl) (redundancy cl)
            (StripeOperation_GET_new key False (connections cl) (redundancy cl) True) w of
       (rp, g, r, w) \<Rightarrow> Some (res_bind r (\<lambda>st. Inr (st, g)), cl\<lparr>redundancy := rp\<rparr>, w)))"

text \<open>Encoding the value again and writing the chunks whose version differs.\<close>

definition repair_chunks ::
  "'w env \<Rightarrow> isal \<Rightarrow> string \<Rightarrow> string \<Rightarrow> string \<Rightarrow> StripeOperation_GET \<Rightarrow> ('w, bool) admin" where
  "repair_chunks env lib key version value getOperation = on_cluster (kc_call (\<lambda>cl w.
     case valueToStripe lib cl value of
       (Inl e, cl) \<Rightarrow> Some (Inl e, cl, w)
     | (Inr stripe, cl) \<Rightarrow>
         (case StripeOperation_PUT_new key version version stripe REQUIRE_SAME_VERSION (connections cl) (redundancy cl) of
            Inl e \<Rightarrow> Some (Inl e, cl, w)
          | Inr putOperation \<Rightarrow>
              (case quick_repair env (operation_timeout cl) getOperation putOperation w of
                 (done, p, w) \<Rightarrow> Some (Inr done, cl, w)))))"

definition repairKey :: "'w env \<Rightarrow> isal \<Rightarrow> string \<Rightarrow> ('w, unit) admin" where
  "repairKey env lib key =
     bnd (stripe_value env lib key) (\<lambda>(getStatus, getOperation).
     if status_ok getStatus then
       case (get_value getOperation, vc_version (get_version getOperation)) of
         (Some value, Some version) \<Rightarrow>
           bnd (repair_chunks env lib key version value getOperation) (\<lambda>repaired.
           seq (if repaired then ret ()
                else bnd (on_cluster (kc_call (\<lambda>cl. put_versioned env lib cl (Some key) (Some version) (Some value) (Some version))))
                  (\<lambda>(putstatus, version). if status_ok putstatus then ret () else throw (System_error io_error)))
             (tally (\<lambda>k. k\<lparr>kc_repaired := int_inc (kc_repaired k)\<rparr>)))
       | _ \<Rightarrow> throw Undefined_behaviour
     else if statusCode getStatus = REMOTE_NOT_FOUND then
       bnd (on_cluster (kc_call_const (\<lambda>cl. remove_forced env cl (Some key)))) (\<lambda>rmstatus.
       if \<not> status_ok rmstatus \<and> statusCode rmstatus \<noteq> REMOTE_NOT_FOUND then throw (System_error io_error)
       else tally (\<lambda>k. k\<lparr>kc_removed := int_inc (kc_removed k)\<rparr>))
     else throw (System_error io_error))"

text \<open>The body of the loop over the keys. A key that fails is counted and the next one is taken; an
  indicator key that is too short to hold a key ends the whole page.\<close>

definition applyOperation_key ::
  "'w env \<Rightarrow> isal \<Rightarrow> Operation \<Rightarrow> OperationTarget \<Rightarrow> string \<Rightarrow> ('w, unit) admin" where
  "applyOperation_key env lib operation target key =
     (case operation of
        SCAN \<Rightarrow> seq (scanKey env key) (ret ())
      | REPAIR \<Rightarrow>
          bnd (scanKey env key) (\<lambda>action.
          if action \<or> target = INDICATOR
          then seq (repairKey env lib key) (seq (removeIndicatorKey env key) (ret ()))
          else ret ())
      | RESET \<Rightarrow>
          seq (if target = INDICATOR
               then bnd (removeIndicatorKey env key) (\<lambda>removed.
                 if removed then ret () else throw (System_error io_error))
               else bnd (on_cluster (kc_call_const (\<lambda>cl. remove_forced env cl (Some key)))) (\<lambda>rmstatus.
                 if status_ok rmstatus then ret () else throw (System_error io_error)))
            (tally (\<lambda>k. k\<lparr>kc_removed := int_inc (kc_removed k)\<rparr>))
      | COUNT \<Rightarrow> throw Runtime_error)"

definition applyOperation ::
  "'w env \<Rightarrow> isal \<Rightarrow> Operation \<Rightarrow> OperationTarget \<Rightarrow> string list \<Rightarrow> ('w, unit) admin" where
  "applyOperation env lib operation target = for_each (\<lambda>key.
     bnd (lift_res (if target = INDICATOR then indicatorToKey key else Inr key)) (\<lambda>key.
     catch (applyOperation_key env lib operation target key)
       (\<lambda>e. if e = Undefined_behaviour then throw e
             else tally (\<lambda>k. k\<lparr>kc_unrepairable := int_inc (kc_unrepairable k)\<rparr>))))"

subsection \<open>The main loop\<close>

definition initRangeKeys :: "string \<Rightarrow> OperationTarget \<Rightarrow> (string \<times> string) res" where
  "initRangeKeys cid t =
     (case t of
        METADATA \<Rightarrow> Inr (makeMetadataKey cid '' '', makeMetadataKey cid ''~'')
      | ATTRIBUTE \<Rightarrow> Inr (makeAttributeKey cid '' '' '' '', makeAttributeKey cid ''~'' ''~'')
      | DATA \<Rightarrow> Inr (makeDataKey cid '' '' 0, makeDataKey cid ''~'' 99999999)
      | INDICATOR \<Rightarrow> Inr (makeIndicatorKey cid, makeIndicatorKey (cid @ ''~''))
      | INVALID \<Rightarrow> Inl Logic_error)"

text \<open>A thread of the pool takes the first page; an exception ends the page and not the thread.\<close>

definition process_page :: "'w env \<Rightarrow> isal \<Rightarrow> Operation \<Rightarrow> OperationTarget \<Rightarrow> ('w, unit) admin" where
  "process_page env lib operation target =
     bnd (asks adm_pages) (\<lambda>pages.
     case pages of
       [] \<Rightarrow> ret ()
     | page # rest \<Rightarrow>
         seq (modify (\<lambda>s. s\<lparr>adm_pages := rest\<rparr>))
           (catch (applyOperation env lib operation target page)
             (\<lambda>e. if e = Undefined_behaviour then throw e else ret ())))"

primrec process_pages :: "'w env \<Rightarrow> isal \<Rightarrow> Operation \<Rightarrow> OperationTarget \<Rightarrow> nat \<Rightarrow> ('w, unit) admin" where
  "process_pages env lib operation target 0 = ret ()"
| "process_pages env lib operation target (Suc n) =
     seq (process_page env lib operation target) (process_pages env lib operation target n)"

text \<open>\<^verbatim>\<open>bg.run\<close>: without threads the caller does the work. Otherwise the page is queued, and the call
  returns when at most \<open>numthreads\<close> pages wait.\<close>

definition run_page ::
  "'w env \<Rightarrow> isal \<Rightarrow> ('w admin_state \<Rightarrow> nat) \<Rightarrow> nat \<Rightarrow> Operation \<Rightarrow> OperationTarget \<Rightarrow> string list \<Rightarrow> ('w, unit) admin" where
  "run_page env lib sched numthreads operation target page =
     (if numthreads = 0 then applyOperation env lib operation target page
      else seq (modify (\<lambda>s. s\<lparr>adm_pages := adm_pages s @ [page]\<rparr>))
        (bnd (asks (\<lambda>s. max (length (adm_pages s) - numthreads) (sched s)))
          (process_pages env lib operation target)))"

text \<open>One pass of the loop; the boolean is whether the loop goes on.\<close>

definition doOperation_pass ::
  "'w env \<Rightarrow> isal \<Rightarrow> ('w admin_state \<Rightarrow> nat) \<Rightarrow> Operation \<Rightarrow> OperationTarget \<Rightarrow> (int \<Rightarrow> bool) option \<Rightarrow> nat \<Rightarrow>
   string \<Rightarrow> string \<Rightarrow> string list option \<Rightarrow> ('w, bool \<times> string \<times> string list option) admin" where
  "doOperation_pass env lib sched operation target callback numthreads start_key end_key keys =
     bnd (with_world (\<lambda>cl w. case cluster_range env cl (Some start_key) (Some end_key) keys 0 w of
            (st, keys, w) \<Rightarrow> ((st, keys), w))) (\<lambda>(status, keys).
     if \<not> status_ok status then ret (False, start_key, keys)
     else
       let ks = (case keys of None \<Rightarrow> [] | Some ks \<Rightarrow> ks);
           start_key = (if ks = [] then start_key else last ks @ [CHR 0x00])
       in seq (if ks = [] then ret ()
               else seq (tally (\<lambda>k. k\<lparr>kc_total := to_int32 (kc_total k + int (length ks))\<rparr>))
                 (if operation \<noteq> COUNT then run_page env lib sched numthreads operation target ks else ret ()))
            (bnd (asks (\<lambda>s. kc_total (adm_counts s))) (\<lambda>total.
             if (case callback of None \<Rightarrow> False | Some f \<Rightarrow> \<not> f total) then ret (False, start_key, keys)
             else ret (ks \<noteq> [], start_key, keys))))"

partial_function (option) doOperation_loop ::
  "'w env \<Rightarrow> isal \<Rightarrow> ('w admin_state \<Rightarrow> nat) \<Rightarrow> Operation \<Rightarrow> OperationTarget \<Rightarrow> (int \<Rightarrow> bool) option \<Rightarrow> nat \<Rightarrow>
   string \<Rightarrow> string \<Rightarrow> string list option \<Rightarrow> 'w admin_state \<Rightarrow> (unit res \<times> 'w admin_state) option" where
  "doOperation_loop env lib sched operation target callback numthreads start_key end_key keys s =
     bnd (doOperation_pass env lib sched operation target callback numthreads start_key end_key keys) (\<lambda>r.
       if fst r then doOperation_loop env lib sched operation target callback numthreads (fst (snd r)) end_key (snd (snd r))
       else ret ()) s"

declare doOperation_loop.simps [code]

text \<open>Leaving the block waits for the pool to process what is queued.\<close>

definition doOperation ::
  "'w env \<Rightarrow> isal \<Rightarrow> ('w admin_state \<Rightarrow> nat) \<Rightarrow> Operation \<Rightarrow> OperationTarget \<Rightarrow> (int \<Rightarrow> bool) option \<Rightarrow> nat \<Rightarrow>
   ('w, KeyCounts) admin" where
  "doOperation env lib sched operation target callback numthreads =
     seq (modify (\<lambda>s. s\<lparr>adm_counts := KeyCountsInternal_new, adm_pages := []\<rparr>))
     (bnd (asks (\<lambda>s. cluster_id (kinetic_object (adm_cluster s)))) (\<lambda>cid.
      bnd (lift_res (initRangeKeys cid target)) (\<lambda>(start_key, end_key).
      seq (doOperation_loop env lib sched operation target callback numthreads start_key end_key None)
      (seq (bnd (asks (\<lambda>s. length (adm_pages s))) (process_pages env lib operation target))
       (asks adm_counts)))))"

definition admin_count :: "'w env \<Rightarrow> isal \<Rightarrow> OperationTarget \<Rightarrow> (int \<Rightarrow> bool) option \<Rightarrow> ('w, int) admin" where
  "admin_count env lib target callback =
     bnd (doOperation env lib (\<lambda>_. 0) COUNT target callback 0) (\<lambda>k. ret (kc_total k))"

definition admin_scan ::
  "'w env \<Rightarrow> isal \<Rightarrow> ('w admin_state \<Rightarrow> nat) \<Rightarrow> OperationTarget \<Rightarrow> (int \<Rightarrow> bool) option \<Rightarrow> nat \<Rightarrow> ('w, KeyCounts) admin" where
  "admin_scan env lib sched target callback numThreads = doOperation env lib sched SCAN target callback numThreads"

definition admin_repair ::
  "'w env \<Rightarrow> isal \<Rightarrow> ('w admin_state \<Rightarrow> nat) \<Rightarrow> OperationTarget \<Rightarrow> (int \<Rightarrow> bool) option \<Rightarrow> nat \<Rightarrow> ('w, KeyCounts) admin" where
  "admin_repair env lib sched target callback numThreads = doOperation env lib sched REPAIR target callback numThreads"

definition admin_reset ::
  "'w env \<Rightarrow> isal \<Rightarrow> ('w admin_state \<Rightarrow> nat) \<Rightarrow> OperationTarget \<Rightarrow> (int \<Rightarrow> bool) option \<Rightarrow> nat \<Rightarrow> ('w, KeyCounts) admin" where
  "admin_reset env lib sched target callback numThreads = doOperation env lib sched RESET target callback numThreads"

end
