(* ===== verification/Admin_Storage.thy ===== *)
theory Admin_Storage
  imports Admin_Cluster
begin

text \<open>
  What the key maintenance promises: counting visits every key once, a reset accounts for every key,
  a repair brings back the missing chunks of a key, and which keys are outside its ranges.
\<close>

section \<open>Requests that only read\<close>

text \<open>A request that is sent to a list of drives and leaves the drives as they are: \<open>answer w c cb\<close> is
  what the callback of drive \<open>c\<close> holds in the end when the drives are as in \<open>w\<close>.\<close>

definition timed_out :: "callback \<Rightarrow> callback" where
  "timed_out cb = cb\<lparr>cb_status := mk_status CLIENT_IO_ERROR ''Network timeout'', cb_done := True\<rparr>"

definition answered_operation :: "request \<Rightarrow> callback_data \<Rightarrow> nat \<Rightarrow> callback \<Rightarrow> KineticAsyncOperation" where
  "answered_operation req d c cb = (fresh_operation req d c)\<lparr>op_callback := Some cb\<rparr>"

lemma fresh_operation_proj [simp]:
  "op_connection (fresh_operation req d c) = c" "op_function (fresh_operation req d c) = Some req"
  "op_callback (fresh_operation req d c) = Some \<lparr>cb_status = no_result, cb_done = False, cb_data = d\<rparr>"
  by (simp_all add: fresh_operation_def)

locale drive_request =
  fixes env :: "'w env" and req :: request and d :: callback_data
    and same :: "'w \<Rightarrow> 'w \<Rightarrow> bool" and answer :: "'w \<Rightarrow> nat \<Rightarrow> callback \<Rightarrow> bool"
  assumes same_refl: "same w w"
    and same_trans: "same w w1 \<Longrightarrow> same w1 w2 \<Longrightarrow> same w w2"
    and same_error: "same w (env_set_error env c w)"
    and answer_same: "same w w1 \<Longrightarrow> answer w1 = answer w"
    and answer_done: "answer w c cb \<Longrightarrow> cb_done cb"
    and sent: "send_request env t c req \<lparr>cb_status = no_result, cb_done = False, cb_data = d\<rparr> sync w = ((e, cb, sync'), w')
      \<Longrightarrow> same w w' \<and> (answer w c cb \<or> \<not> cb_done cb \<and> answer w c (timed_out cb))"
begin

definition early :: "'w \<Rightarrow> nat \<Rightarrow> callback \<Rightarrow> bool" where
  "early w c cb \<longleftrightarrow> answer w c cb \<or> \<not> cb_done cb \<and> answer w c (timed_out cb)"

lemma issue_requests:
  assumes "issue_operations env t (map (fresh_operation req d) cs) sync w = (os', sync', w')"
  shows "\<exists>cbs. os' = map2 (answered_operation req d) cs cbs \<and> list_all2 (early w) cs cbs \<and> same w w'"
  using assms
proof (induction cs arbitrary: sync w os' sync' w')
  case Nil
  then show ?case using same_refl by simp
next
  case (Cons c cs)
  let ?cb = "\<lparr>cb_status = no_result, cb_done = False, cb_data = d\<rparr>"
  obtain e cb s1 w1 where s: "send_request env t c req ?cb sync w = ((e, cb, s1), w1)"
    by (metis prod_cases3 surj_pair)
  define w2 where "w2 = (if e then env_set_error env c w1 else w1)"
  have same: "same w w2" using sent [OF s] same_error same_trans unfolding w2_def by (metis (full_types))
  obtain os2 s2 w3 where i: "issue_operations env t (map (fresh_operation req d) cs) s1 w2 = (os2, s2, w3)"
    by (metis prod_cases3)
  from Cons.IH [OF i] obtain cbs where cbs: "os2 = map2 (answered_operation req d) cs cbs"
    "list_all2 (early w2) cs cbs" "same w2 w3" by blast
  have "issue_operations env t (fresh_operation req d c # map (fresh_operation req d) cs) sync w =
      ((fresh_operation req d c)\<lparr>op_callback := Some cb\<rparr> # os2, s2, w3)"
    by (rule issue_step [where e = e and ?sync1.0 = s1 and ?w1.0 = w1]) (use i in \<open>simp_all add: s w2_def split: if_splits\<close>)
  then have "os' = answered_operation req d c cb # os2" "w' = w3"
    using Cons.prems by (simp_all add: answered_operation_def)
  moreover have "early w2 = early w" using answer_same [OF same] by (simp add: early_def fun_eq_iff)
  moreover have "early w c cb" using sent [OF s] by (simp add: early_def)
  ultimately show ?case
    using cbs same same_trans by (intro exI [of _ "cb # cbs"]) auto
qed

lemma expire_requests:
  assumes "list_all2 (early w) cs cbs"
    and "expire_operations (map2 (answered_operation req d) cs cbs) sync = (os', sync')"
  shows "\<exists>cbs'. os' = map2 (answered_operation req d) cs cbs' \<and> list_all2 (answer w) cs cbs'"
  using assms
proof (induction cs cbs arbitrary: sync os' sync' rule: list_all2_induct)
  case Nil
  then show ?case by simp
next
  case (Cons c cs cb cbs)
  obtain cb1 s1 where r: "OnResult (mk_status CLIENT_IO_ERROR ''Network timeout'') cb sync = (cb1, s1)" by fastforce
  have cb1: "\<not> cb_done cb \<longrightarrow> cb1 = timed_out cb" "cb_done cb \<longrightarrow> cb1 = cb \<and> s1 = sync"
    using r by (auto simp: OnResult_def timed_out_def)
  have a: "answer w c cb1" using Cons.hyps(1) cb1 answer_done by (auto simp: early_def)
  obtain os2 s2 where e: "expire_operations (map2 (answered_operation req d) cs cbs) s1 = (os2, s2)" by fastforce
  from Cons.IH [OF e] obtain cbs' where cbs': "os2 = map2 (answered_operation req d) cs cbs'"
    "list_all2 (answer w) cs cbs'" by blast
  have "os' = answered_operation req d c cb1 # os2"
    using Cons.prems r e cb1 by (cases "cb_done cb") (auto simp: answered_operation_def finished_def)
  then show ?case using a cbs' by (intro exI [of _ "cb1 # cbs'"]) auto
qed

lemma execute_requests:
  assumes "operations op = map (fresh_operation req d) cs"
    and "executeOperationVector env t op w = (rmap, op', w')"
  obtains cbs where "operations op' = map2 (answered_operation req d) cs cbs" "list_all2 (answer w) cs cbs"
    "same w w'" "rmap = rmap_of (env_code env) (operations op')"
proof -
  obtain os1 s1 w1 where i: "issue_operations env t (map (fresh_operation req d) cs) (op_sync op) w = (os1, s1, w1)"
    by (metis prod_cases3)
  obtain os2 s2 where e: "expire_operations os1 s1 = (os2, s2)" by fastforce
  from issue_requests [OF i] obtain cbs where cbs: "os1 = map2 (answered_operation req d) cs cbs"
    "list_all2 (early w) cs cbs" "same w w1" by blast
  from expire_requests [OF cbs(2) e [unfolded cbs(1)]] obtain cbs' where
    "os2 = map2 (answered_operation req d) cs cbs'" "list_all2 (answer w) cs cbs'" by blast
  then show thesis
    using assms(2) i e cbs(3) by (intro that [of cbs']) (auto simp: executeOperationVector_def assms(1))
qed

end

lemma op_callbacks_answered:
  "length cs = length cbs \<Longrightarrow> op_callbacks (map2 (answered_operation req d) cs cbs) = cbs"
  by (induction cs cbs rule: list_induct2) (simp_all add: answered_operation_def)

section \<open>Range requests\<close>

text \<open>A drive that is up answers a range request with the first or the last of its keys between the
  bounds; \<open>keys w c\<close> are the keys on drive \<open>c\<close> in ascending order.\<close>

definition in_range :: "string \<Rightarrow> string \<Rightarrow> string \<Rightarrow> bool" where
  "in_range lo hi k \<longleftrightarrow> lo \<le> k \<and> k \<le> hi"

abbreviation same_keys :: "('w \<Rightarrow> nat \<Rightarrow> bool) \<Rightarrow> ('w \<Rightarrow> nat \<Rightarrow> string list) \<Rightarrow> 'w \<Rightarrow> 'w \<Rightarrow> bool" where
  "same_keys up keys w w' \<equiv> up w' = up w \<and> keys w' = keys w"

definition honest_range ::
  "'w env \<Rightarrow> ('w \<Rightarrow> nat \<Rightarrow> bool) \<Rightarrow> ('w \<Rightarrow> nat \<Rightarrow> string list) \<Rightarrow> bool" where
  "honest_range env up keys \<longleftrightarrow>
     (\<forall>w c. sorted_wrt (<) (keys w c)) \<and>
     (\<forall>w c t lo hi rv mx rep w'. env_range env c t lo hi rv mx w = (rep, w') \<longrightarrow> same_keys up keys w w' \<and>
        (if up w c
         then rep = Answered True (Inr (take (nat mx)
                (if rv then rev (filter (in_range lo hi) (keys w c)) else filter (in_range lo hi) (keys w c))))
         else failing rep)) \<and>
     (\<forall>w c. same_keys up keys w (env_set_error env c w))"

definition range_answer ::
  "('w \<Rightarrow> nat \<Rightarrow> bool) \<Rightarrow> ('w \<Rightarrow> nat \<Rightarrow> string list) \<Rightarrow> string \<Rightarrow> string \<Rightarrow> bool \<Rightarrow> int \<Rightarrow> 'w \<Rightarrow> nat \<Rightarrow> callback \<Rightarrow> bool" where
  "range_answer up keys lo hi rv mx w c cb \<longleftrightarrow> cb_done cb \<and>
     (if up w c
      then cb_status cb = ok_status \<and> cb_data cb = RangeCallback (Some (take (nat mx)
             (if rv then rev (filter (in_range lo hi) (keys w c)) else filter (in_range lo hi) (keys w c))))
      else \<not> validStatusCode (statusCode (cb_status cb)) \<and> cb_data cb = RangeCallback None)"

lemma send_range:
  assumes honest: "honest_range env up keys"
    and s: "send_request env t c (Req_Range lo hi rv mx) \<lparr>cb_status = no_result, cb_done = False, cb_data = RangeCallback None\<rparr>
      sync w = ((e, cb, sync'), w')"
  shows "same_keys up keys w w' \<and> (range_answer up keys lo hi rv mx w c cb \<or>
    \<not> cb_done cb \<and> range_answer up keys lo hi rv mx w c (timed_out cb))"
proof -
  obtain rep where rep: "env_range env c t lo hi rv mx w = (rep, w')"
    and con: "conclude RangeCallback_Success rep \<lparr>cb_status = no_result, cb_done = False, cb_data = RangeCallback None\<rparr> sync
      = (e, cb, sync')"
    using s by (cases "env_range env c t lo hi rv mx w") (auto simp: send_request_def)
  have h: "same_keys up keys w w'" "if up w c
         then rep = Answered True (Inr (take (nat mx)
                (if rv then rev (filter (in_range lo hi) (keys w c)) else filter (in_range lo hi) (keys w c))))
         else failing rep"
    using honest rep unfolding honest_range_def by blast+
  show ?thesis
  proof (cases "up w c")
    case True
    then show ?thesis
      using h con by (auto simp: conclude_def RangeCallback_Success_def OnResult_def range_answer_def)
  next
    case False
    then show ?thesis
      using h con by (auto simp: failing_def conclude_def Callback_Failure_def OnResult_def range_answer_def timed_out_def
          split: if_splits)
  qed
qed

lemma honest_range_error: "honest_range env up keys \<Longrightarrow> same_keys up keys w (env_set_error env c w)"
  by (simp add: honest_range_def)

interpretation ranges: drive_request env "Req_Range lo hi rv mx" "RangeCallback None"
  "\<lambda>w w'. honest_range env up keys \<longrightarrow> same_keys up keys w w'"
  "\<lambda>w c cb. cb_done cb \<and> (honest_range env up keys \<longrightarrow> range_answer up keys lo hi rv mx w c cb)"
proof
  fix t c sync w e cb sync' w'
  assume "send_request env t c (Req_Range lo hi rv mx) \<lparr>cb_status = no_result, cb_done = False, cb_data = RangeCallback None\<rparr>
    sync w = ((e, cb, sync'), w')"
  from send_range [OF _ this, of up keys] show "(honest_range env up keys \<longrightarrow> same_keys up keys w w') \<and>
    (cb_done cb \<and> (honest_range env up keys \<longrightarrow> range_answer up keys lo hi rv mx w c cb) \<or>
     \<not> cb_done cb \<and> cb_done (timed_out cb) \<and> (honest_range env up keys \<longrightarrow> range_answer up keys lo hi rv mx w c (timed_out cb)))"
    by (auto simp: range_answer_def timed_out_def)
qed (auto simp: honest_range_error range_answer_def fun_eq_iff)

text \<open>The keys of the drives that are up, in ascending order.\<close>

definition cluster_keys :: "nat \<Rightarrow> ('w \<Rightarrow> nat \<Rightarrow> bool) \<Rightarrow> ('w \<Rightarrow> nat \<Rightarrow> string list) \<Rightarrow> 'w \<Rightarrow> string list" where
  "cluster_keys n up keys w = sort (remdups (concat (map (\<lambda>c. if up w c then keys w c else []) [0..<n])))"

lemma filter_sort_remdups:
  "filter P (sort (remdups xs)) = sort (remdups (filter P xs))" for xs :: "'a::linorder list"
  by (simp add: filter_sort remdups_filter)

lemma range_ops: "operations (ClusterRangeOp_new s e mx n) =
  map (fresh_operation (Req_Range (if e < s then e else s) (if e < s then s else e) (e < s) (to_int32 (int mx))) (RangeCallback None)) [0..<n]"
  by (simp add: ClusterRangeOp_new_def Let_def bind_all_eq expandOperationVector_def KineticClusterOperation_new_def
      empty_operation_def)


lemma sorted_cluster_keys: "sorted_wrt (<) (cluster_keys n up keys w)"
  unfolding cluster_keys_def by (rule strict_sorted_sort_remdups)

lemma range_counts:
  assumes "list_all2 (range_answer up keys lo hi rv mx w) cs cbs"
  shows "cb_count OK cbs + down_drives up w cs = length cs"
    and "cb_count REMOTE_NOT_FOUND cbs = 0" and "cb_count REMOTE_VERSION_MISMATCH cbs = 0"
  using assms
  by (induction cs cbs rule: list_all2_induct)
    (auto simp: range_answer_def down_drives_def cb_count_def getResult_def validStatusCode_def split: if_splits)

lemma range_data:
  assumes "list_all2 (range_answer up keys lo hi rv mx w) cs cbs"
  shows "map (\<lambda>cb. case cb_getKeys cb of None \<Rightarrow> [] | Some ks \<Rightarrow> ks) cbs =
    map (\<lambda>c. take (nat mx) (if up w c then if rv then rev (filter (in_range lo hi) (keys w c))
                            else filter (in_range lo hi) (keys w c) else [])) cs"
  using assms by (induction cs cbs rule: list_all2_induct) (auto simp: range_answer_def cb_getKeys_def)

lemma quorum_ok:
  assumes codes: "codes_ok num" and q: "0 < q" "q \<le> count_code OK os"
    and none: "count_code REMOTE_NOT_FOUND os = 0" "count_code REMOTE_VERSION_MISMATCH os = 0"
  shows "quorum_status (rmap_of num os) q = Some OK"
proof -
  have get: "rmap_get num (rmap_of num os) c = count_code c os" for c using codes by (rule rmap_of_count)
  have inj: "inj (CompareStatusCode_toInt num)" using codes by (simp add: codes_ok_def)
  have "List.find (\<lambda>e. q \<le> snd e) (rmap_of num os) = Some (OK, count_code OK os)"
  proof (rule find_first_code [OF rmap_of_sorted])
    show "(OK, count_code OK os) \<in> set (rmap_of num os)" using rmap_get_mem [OF inj, of "rmap_of num os" OK] get q by simp
    show "q \<le> count_code OK os" by (rule q(2))
    fix c k assume c: "(c, k) \<in> set (rmap_of num os)" "q \<le> k"
    have "k = count_code c os" using rmap_of_mem_count [OF codes c(1)] .
    with c(2) q(1) none have "c \<noteq> REMOTE_NOT_FOUND" "c \<noteq> REMOTE_VERSION_MISMATCH" by auto
    then show "CompareStatusCode_toInt num OK \<le> CompareStatusCode_toInt num c"
      using codes by (auto simp: codes_ok_def CompareStatusCode_toInt_def validStatusCode_def less_imp_le)
  qed
  then show ?thesis by (simp add: quorum_status_def)
qed

text \<open>A cluster on which range requests work: limits are known, and a quorum of its drives is up.\<close>

definition range_ready :: "KineticCluster \<Rightarrow> ('w \<Rightarrow> nat \<Rightarrow> bool) \<Rightarrow> 'w \<Rightarrow> nat \<Rightarrow> bool" where
  "range_ready cl up w m \<longleftrightarrow>
     (\<exists>l. cluster_limits cl = Some l \<and> max_range_elements l = m) \<and> 0 < m \<and> m < 2 ^ 31 \<and>
     numParity (redundancy cl) < connections cl \<and> connections cl < 2 ^ 32 \<and>
     down_drives up w [0..<connections cl] \<le> numParity (redundancy cl)"

lemma same_keys_transfer:
  assumes "same_keys up keys w w'"
  shows "range_ready cl up w' m = range_ready cl up w m" "cluster_keys n up keys w' = cluster_keys n up keys w"
  using assms by (simp_all add: range_ready_def cluster_keys_def down_drives_def cong: if_cong)

lemma cluster_range_executes:
  assumes honest: "honest_range env up keys" and codes: "codes_ok (env_code env)" and ready: "range_ready cl up w m"
  obtains op w' cbs where "cluster_range env cl (Some s) (Some e) ks 0 w = (ok_status, Some (ClusterRangeOp_getKeys m op), w')"
    "same_keys up keys w w'" "op_callbacks (operations op) = cbs"
    "list_all2 (range_answer up keys (if e < s then e else s) (if e < s then s else e) (e < s) (int m) w) [0..<connections cl] cbs"
proof -
  let ?n = "connections cl"
  have m: "to_int32 (int m) = int m" using ready by (intro to_int32_id) (auto simp: range_ready_def)
  obtain rmap op w' where x: "executeOperationVector env (operation_timeout cl) (ClusterRangeOp_new s e m ?n) w = (rmap, op, w')"
    by (metis prod_cases3)
  let ?A = "range_answer up keys (if e < s then e else s) (if e < s then s else e) (e < s) (int m) w"
  obtain cbs where r: "operations op = map2 (answered_operation (Req_Range (if e < s then e else s) (if e < s then s else e) (e < s) (int m))
      (RangeCallback None)) [0..<?n] cbs" "list_all2 (\<lambda>c cb. cb_done cb \<and> (honest_range env up keys \<longrightarrow> ?A c cb)) [0..<?n] cbs"
    "honest_range env up keys \<longrightarrow> same_keys up keys w w'" "rmap = rmap_of (env_code env) (operations op)"
    using ranges.execute_requests [OF range_ops x, where up = up and keys = keys] unfolding m by blast
  have all: "list_all2 ?A [0..<?n] cbs" using r(2) honest by (auto elim: list_all2_mono)
  have cbs: "op_callbacks (operations op) = cbs"
    using list_all2_lengthD [OF all] by (simp add: r(1) op_callbacks_answered)
  have q: "cluster_quorum cl = ?n - numParity (redundancy cl)"
    using ready by (simp add: range_ready_def cluster_quorum_def size_sub_le)
  have "quorum_status rmap (cluster_quorum cl) = Some OK"
    unfolding r(4) by (rule quorum_ok [OF codes])
      (use ready range_counts [OF all] in \<open>auto simp: count_code_cb cbs q range_ready_def\<close>)
  then have "cluster_range env cl (Some s) (Some e) ks 0 w = (ok_status, Some (ClusterRangeOp_getKeys m op), w')"
    using ready x by (auto simp: cluster_range_def range_ready_def ClusterRangeOp_execute_def)
  then show thesis using r(3) all honest cbs that by blast
qed

lemma getKeys_callbacks:
  "ClusterRangeOp_getKeys m op = take m (sort (remdups (concat
     (map (\<lambda>cb. case cb_getKeys cb of None \<Rightarrow> [] | Some ks \<Rightarrow> ks) (op_callbacks (operations op))))))"
  by (simp add: ClusterRangeOp_getKeys_def Let_def op_callbacks_def comp_def)

text \<open>A forward range yields the first keys between the bounds; a reverse range finds a key that is
  between the bounds.\<close>

lemma cluster_range_forward:
  assumes honest: "honest_range env up keys" and codes: "codes_ok (env_code env)" and ready: "range_ready cl up w m"
    and le: "s \<le> e"
  shows "\<exists>w'. cluster_range env cl (Some s) (Some e) ks 0 w =
      (ok_status, Some (take m (filter (in_range s e) (cluster_keys (connections cl) up keys w))), w') \<and> same_keys up keys w w'"
proof -
  let ?K = "\<lambda>c. if up w c then filter (in_range s e) (keys w c) else []"
  obtain op w' cbs where r: "cluster_range env cl (Some s) (Some e) ks 0 w = (ok_status, Some (ClusterRangeOp_getKeys m op), w')"
    "same_keys up keys w w'" "op_callbacks (operations op) = cbs"
    "list_all2 (range_answer up keys s e False (int m) w) [0..<connections cl] cbs"
    using cluster_range_executes [OF honest codes ready, of s e ks] le unfolding not_less [symmetric]
    by (simp only: if_False) blast
  have "ClusterRangeOp_getKeys m op = take m (sort (remdups (concat (map (take m) (map ?K [0..<connections cl])))))"
    unfolding getKeys_callbacks r(3) range_data [OF r(4)] by (simp add: comp_def if_distrib cong: if_cong)
  also have "\<dots> = take m (sort (remdups (concat (map ?K [0..<connections cl]))))"
    by (rule merge_cut) (use honest in \<open>auto simp: honest_range_def sorted_wrt_filter\<close>)
  also have "concat (map ?K [0..<connections cl]) =
      filter (in_range s e) (concat (map (\<lambda>c. if up w c then keys w c else []) [0..<connections cl]))"
    by (simp add: filter_concat comp_def if_distrib cong: if_cong)
  finally show ?thesis using r(1,2) by (simp add: cluster_keys_def filter_sort_remdups)
qed

lemma sort_empty: "sort xs = [] \<longleftrightarrow> xs = []" for xs :: "'a::linorder list"
  by (metis length_0_conv length_sort)

lemma cluster_range_reverse:
  assumes honest: "honest_range env up keys" and codes: "codes_ok (env_code env)" and ready: "range_ready cl up w m"
    and less: "e < s" and mem: "e \<in> set (cluster_keys (connections cl) up keys w)"
  shows "\<exists>k rest w'. cluster_range env cl (Some s) (Some e) ks 0 w = (ok_status, Some (k # rest), w') \<and> same_keys up keys w w'"
proof -
  obtain op w' cbs where r: "cluster_range env cl (Some s) (Some e) ks 0 w = (ok_status, Some (ClusterRangeOp_getKeys m op), w')"
    "same_keys up keys w w'" "op_callbacks (operations op) = cbs"
    "list_all2 (range_answer up keys e s True (int m) w) [0..<connections cl] cbs"
    using cluster_range_executes [OF honest codes ready, of s e ks] less by (simp only: if_True) blast
  obtain c where c: "c < connections cl" "up w c" "e \<in> set (keys w c)"
    using mem by (auto simp: cluster_keys_def split: if_splits)
  then have "filter (in_range e s) (keys w c) \<noteq> []" using less by (auto simp: filter_empty_conv in_range_def)
  moreover have "0 < m" using ready by (simp add: range_ready_def)
  ultimately have "\<exists>c \<in> set [0..<connections cl]. take m (if up w c then rev (filter (in_range e s) (keys w c)) else []) \<noteq> []"
    using c by (intro bexI [of _ c]) auto
  then have "ClusterRangeOp_getKeys m op \<noteq> []"
    using \<open>0 < m\<close> unfolding getKeys_callbacks r(3) range_data [OF r(4)] by (auto simp: sort_empty split: if_splits)
  then show ?thesis using r(1,2) by (cases "ClusterRangeOp_getKeys m op") auto
qed

section \<open>Paging through the keys\<close>

text \<open>Appending a zero byte gives the next larger string.\<close>

lemma next_key: "k @ [CHR 0x00] \<le> k' \<longleftrightarrow> k < k'" for k k' :: string
proof (induction k arbitrary: k')
  case Nil
  have "CHR 0x00 \<noteq> a \<Longrightarrow> CHR 0x00 < a" for a
    using of_char_eq_iff [of a "CHR 0x00"] by (auto simp: less_char_def)
  then show ?case by (cases k') auto
next
  case (Cons x k)
  then show ?case by (cases k') auto
qed

lemma sorted_rest:
  fixes xs :: "string list"
  assumes "sorted_wrt (<) xs" and "take m xs \<noteq> []"
  shows "filter (\<lambda>k. last (take m xs) < k) xs = drop m xs"
proof -
  have mem: "last (take m xs) \<in> set (take m xs)" using assms(2) by (rule last_in_set)
  have "x \<le> last (take m xs)" if "x \<in> set (take m xs)" for x
    using that sorted_wrt_take [OF assms(1), of m] by (cases "take m xs" rule: rev_cases) (auto simp: sorted_wrt_append)
  then have "filter (\<lambda>k. last (take m xs) < k) (take m xs) = []" by (auto simp: filter_empty_conv not_less)
  moreover have "filter (\<lambda>k. last (take m xs) < k) (drop m xs) = drop m xs"
    using sorted_take_drop [OF assms(1) mem] by (simp add: filter_id_conv)
  ultimately show ?thesis by (metis append_take_drop_id filter_append self_append_conv2)
qed

lemma page_rest:
  fixes K :: "string list"
  defines "R \<equiv> \<lambda>s e. filter (in_range s e) K"
  assumes "sorted_wrt (<) K" and "take m (R s e) \<noteq> []"
  shows "R (last (take m (R s e)) @ [CHR 0x00]) e = drop m (R s e)"
proof -
  let ?l = "last (take m (R s e))"
  have "?l \<in> set (R s e)" using last_in_set [OF assms(3)] by (auto dest: in_set_takeD)
  then have "in_range (?l @ [CHR 0x00]) e = (\<lambda>k. in_range s e k \<and> ?l < k)"
    by (auto simp: R_def in_range_def next_key fun_eq_iff)
  then have "R (?l @ [CHR 0x00]) e = filter (\<lambda>k. ?l < k) (R s e)"
    by (simp add: R_def conj_commute)
  also have "\<dots> = drop m (R s e)"
    using assms by (intro sorted_rest) (simp_all add: R_def sorted_wrt_filter)
  finally show ?thesis .
qed

lemma to_int32_add: "to_int32 (to_int32 a + b) = to_int32 (a + b)"
  by (simp add: to_int32_def mod_simps)

lemma with_world_eq:
  "with_world f s = (let k = adm_cluster s; (x, w) = f (kinetic_object k) (kinetic_world k)
     in Some (Inr x, s\<lparr>adm_cluster := k\<lparr>kinetic_world := w\<rparr>\<rparr>))"
  by (simp add: with_world_def on_cluster_def kc_call_const_def zoom_def split: prod.splits)

text \<open>The state of a count: the cluster object stays, and the drives stay as they are.\<close>

definition count_state ::
  "('w \<Rightarrow> nat \<Rightarrow> bool) \<Rightarrow> ('w \<Rightarrow> nat \<Rightarrow> string list) \<Rightarrow> KineticCluster \<Rightarrow> 'w \<Rightarrow> 'w admin_state \<Rightarrow> bool" where
  "count_state up keys cl w s \<longleftrightarrow>
     kinetic_object (adm_cluster s) = cl \<and> same_keys up keys w (kinetic_world (adm_cluster s))"

text \<open>A progress callback that never asks to stop.\<close>

definition goes_on :: "(int \<Rightarrow> bool) option \<Rightarrow> bool" where
  "goes_on cb \<longleftrightarrow> (\<forall>n. case cb of None \<Rightarrow> True | Some f \<Rightarrow> f n)"

lemma goes_on_simps [simp]: "goes_on None" "goes_on (Some (\<lambda>_. True))"
  by (simp_all add: goes_on_def)

lemma count_pass:
  assumes cb: "goes_on cb" and s: "count_state up keys cl w s"
    and range: "cluster_range env cl (Some start) (Some e) ks0 0 (kinetic_world (adm_cluster s)) = (ok_status, Some ks, w1)"
      "same_keys up keys (kinetic_world (adm_cluster s)) w1"
  shows "\<exists>s'. doOperation_pass env lib sched COUNT t cb nt start e ks0 s =
      Some (Inr (ks \<noteq> [], if ks = [] then start else last ks @ [CHR 0x00], Some ks), s') \<and> count_state up keys cl w s' \<and>
    adm_pages s' = adm_pages s \<and>
    adm_counts s' = (adm_counts s)\<lparr>kc_total := if ks = [] then kc_total (adm_counts s)
                                     else to_int32 (kc_total (adm_counts s) + int (length ks))\<rparr>"
proof -
  let ?s1 = "s\<lparr>adm_cluster := (adm_cluster s)\<lparr>kinetic_world := w1\<rparr>\<rparr>"
  have "with_world (\<lambda>cl w. case cluster_range env cl (Some start) (Some e) ks0 0 w of (st, keys, w) \<Rightarrow> ((st, keys), w)) s =
      Some (Inr (ok_status, Some ks), ?s1)"
    using s range by (simp add: with_world_eq count_state_def)
  then show ?thesis
    using s range cb by (cases "ks = []"; cases cb) (simp_all add: goes_on_def doOperation_pass_def tally_def Let_def count_state_def ret_def seq_def)
qed

lemma count_loop:
  fixes K :: "string list"
  assumes honest: "honest_range env up keys" and codes: "codes_ok (env_code env)" and ready: "range_ready cl up w m"
    and K: "K = cluster_keys (connections cl) up keys w" "e \<notin> set K" and cb: "goes_on cb"
  shows "start \<le> e \<Longrightarrow> count_state up keys cl w s \<Longrightarrow> to_int32 (kc_total (adm_counts s)) = kc_total (adm_counts s) \<Longrightarrow>
    \<exists>s'. doOperation_loop env lib sched COUNT t cb nt start e ks0 s = Some (Inr (), s') \<and> count_state up keys cl w s' \<and>
      adm_pages s' = adm_pages s \<and>
      kc_total (adm_counts s') = to_int32 (kc_total (adm_counts s) + int (length (filter (in_range start e) K)))"
proof (induction "length (filter (in_range start e) K)" arbitrary: start s ks0 rule: less_induct)
  case less
  let ?R = "\<lambda>start. filter (in_range start e) K" let ?p = "take m (?R start)"
  let ?w = "kinetic_world (adm_cluster s)"
  have same: "same_keys up keys w ?w" using less.prems(2) by (simp add: count_state_def)
  have "range_ready cl up ?w m" "cluster_keys (connections cl) up keys ?w = K"
    using ready K(1) by (simp_all only: same_keys_transfer [OF same])
  with cluster_range_forward [OF honest codes _ less.prems(1)] obtain w1 where
    range: "cluster_range env cl (Some start) (Some e) ks0 0 ?w = (ok_status, Some ?p, w1)" "same_keys up keys ?w w1"
    by metis
  from count_pass [OF cb less.prems(2) range] obtain s1 where
    pass: "doOperation_pass env lib sched COUNT t cb nt start e ks0 s =
      Some (Inr (?p \<noteq> [], if ?p = [] then start else last ?p @ [CHR 0x00], Some ?p), s1)"
    and s1: "count_state up keys cl w s1" "adm_pages s1 = adm_pages s"
      "adm_counts s1 = (adm_counts s)\<lparr>kc_total := if ?p = [] then kc_total (adm_counts s)
                                     else to_int32 (kc_total (adm_counts s) + int (length ?p))\<rparr>" by blast
  have m: "0 < m" using ready by (simp add: range_ready_def)
  show ?case
  proof (cases "?p = []")
    case True
    then have "?R start = []" using m by (metis less_irrefl take_eq_Nil)
    then show ?thesis using pass s1 less.prems(3) True by (subst doOperation_loop.simps) (simp add: ret_def)
  next
    case False
    let ?n = "last ?p @ [CHR 0x00]"
    have rest: "?R ?n = drop m (?R start)"
      by (rule page_rest [OF _ False]) (simp add: K(1) sorted_cluster_keys)
    have "last ?p \<in> set (?R start)" using last_in_set [OF False] by (auto dest: in_set_takeD)
    then have "last ?p \<le> e" "last ?p \<noteq> e" using K(2) by (auto simp: in_range_def)
    then have n: "?n \<le> e" unfolding next_key by (rule order.not_eq_order_implies_strict [rotated])
    have "length (?R ?n) < length (?R start)" using False m unfolding rest by auto
    from less.hyps [OF this n s1(1), of "Some ?p"] s1(3) False obtain s2 where
      s2: "doOperation_loop env lib sched COUNT t cb nt ?n e (Some ?p) s1 = Some (Inr (), s2)" "count_state up keys cl w s2" "adm_pages s2 = adm_pages s1"
        "kc_total (adm_counts s2) = to_int32 (kc_total (adm_counts s1) + int (length (?R ?n)))"
      by (auto simp: to_int32_add [of _ 0, simplified])
    have "kc_total (adm_counts s2) = to_int32 (kc_total (adm_counts s) + int (length (?R start)))"
    proof -
      have "length ?p + length (?R ?n) = length (?R start)" unfolding rest by simp
      then show ?thesis
        using s2(4) s1(3) False by (simp add: to_int32_add add.assoc flip: of_nat_add)
    qed
    then show ?thesis
      using pass s2 s1(2) False by (subst doOperation_loop.simps) simp
  qed
qed

text \<open>A key that equals the end of the range is found again and again.\<close>

lemma count_pass_again:
  assumes honest: "honest_range env up keys" and codes: "codes_ok (env_code env)" and ready: "range_ready cl up w m"
    and e: "e \<in> set (cluster_keys (connections cl) up keys w)" and s: "count_state up keys cl w s"
  shows "\<exists>start' ks s'. doOperation_pass env lib sched COUNT t None nt start e ks0 s = Some (Inr (True, start', ks), s') \<and>
    count_state up keys cl w s'"
proof -
  let ?w = "kinetic_world (adm_cluster s)"
  have same: "same_keys up keys w ?w" using s by (simp add: count_state_def)
  have r: "range_ready cl up ?w m" "cluster_keys (connections cl) up keys ?w = cluster_keys (connections cl) up keys w"
    using ready by (simp_all only: same_keys_transfer [OF same])
  have "\<exists>k rest w'. cluster_range env cl (Some start) (Some e) ks0 0 ?w = (ok_status, Some (k # rest), w') \<and> same_keys up keys ?w w'"
  proof (cases "start \<le> e")
    case True
    have "filter (in_range start e) (cluster_keys (connections cl) up keys w) \<noteq> []"
      using e True by (auto simp: in_range_def filter_empty_conv)
    then obtain k rest where "take m (filter (in_range start e) (cluster_keys (connections cl) up keys w)) = k # rest"
      using ready by (cases "take m (filter (in_range start e) (cluster_keys (connections cl) up keys w))") (auto simp: range_ready_def)
    then show ?thesis using cluster_range_forward [OF honest codes r(1) True, of ks0] r(2) by auto
  next
    case False
    then show ?thesis using cluster_range_reverse [OF honest codes r(1)] e r(2) by simp
  qed
  then obtain k rest w' where "cluster_range env cl (Some start) (Some e) ks0 0 ?w = (ok_status, Some (k # rest), w')"
    "same_keys up keys ?w w'" by blast
  from count_pass [OF _ s this, of None lib sched t nt] show ?thesis by auto
qed

lemma count_loop_diverges:
  assumes honest: "honest_range env up keys" and codes: "codes_ok (env_code env)" and ready: "range_ready cl up w m"
    and e: "e \<in> set (cluster_keys (connections cl) up keys w)" and s: "count_state up keys cl w s"
  shows "doOperation_loop env lib sched COUNT t None nt start e ks0 s = None"
proof -
  have "False" if "doOperation_loop env' lib sched op t cb nt start e' ks0 s = Some y"
    and "env' = env" "op = COUNT" "cb = None" "e' = e" "count_state up keys cl w s"
    for env' lib sched op t cb nt start e' ks0 s y
    using that
  proof (induction rule: doOperation_loop.raw_induct [rotated, consumes 1, case_names step])
    case (step loop env' lib sched op t cb nt start e' ks0 s y)
    obtain start' ks s' where "doOperation_pass env lib sched COUNT t None nt start e ks0 s = Some (Inr (True, start', ks), s')"
      and s': "count_state up keys cl w s'"
      using count_pass_again [OF honest codes ready e step.prems(5)] by blast
    then have "loop env lib sched COUNT t None nt start' e ks s' = Some y" using step.hyps step.prems by simp
    then show ?case by (rule step.IH) (simp_all add: s')
  qed
  with s show ?thesis by (metis not_Some_eq)
qed

lemma le_append_prefix: "x @ y \<le> x @ z \<longleftrightarrow> y \<le> z" for x y z :: string
  by (induction x) auto

lemma initRangeKeys_ascending:
  assumes "initRangeKeys cid t = Inr (a, b)"
  shows "a \<le> b"
proof -
  have first: "'' '' @ y \<le> ''~'' @ z" for y z :: string by (simp add: less_char_def)
  have one: "'' '' \<le> ''~''" by (simp add: less_char_def)
  have "makeIndicatorKey cid \<le> makeIndicatorKey (cid @ ''~'')"
    using le_append_prefix [of "''indicator:'' @ cid" "[]" "''~''"] by (simp add: makeIndicatorKey_def)
  moreover have "makeMetadataKey cid '' '' \<le> makeMetadataKey cid ''~''"
    "makeAttributeKey cid '' '' '' '' \<le> makeAttributeKey cid ''~'' ''~''"
    "makeDataKey cid '' '' 0 \<le> makeDataKey cid ''~'' 99999999"
    unfolding makeMetadataKey_def makeAttributeKey_def makeDataKey_def
    by (simp_all only: le_append_prefix append.assoc first one)
  ultimately show ?thesis using assms by (cases t) (auto simp: initRangeKeys_def)
qed


section \<open>Examples\<close>

definition sim_keys :: "sim \<Rightarrow> nat \<Rightarrow> string list" where
  "sim_keys w c = sort (remdups (map fst (sim_store w c)))"

lemma sim_honest_range: "honest_range sim_env sim_up sim_keys"
proof -
  have "sort (filter P (remdups ks)) = filter P (sort (remdups ks))" for P and ks :: "string list"
    by (simp add: filter_sort)
  moreover have "in_range lo hi = (\<lambda>k. lo \<le> k \<and> k \<le> hi)" for lo hi by (simp add: in_range_def fun_eq_iff)
  ultimately show ?thesis
    by (auto simp: honest_range_def sim_env_def sim_range_def sim_keys_def failing_def Let_def
        strict_sorted_sort_remdups split: if_splits)
qed

definition admin_demo_cluster :: KineticCluster where
  "admin_demo_cluster = demo_cluster\<lparr>cluster_limits :=
     Some \<lparr>max_key_size = 4096, max_version_size = 2048, max_value_size = 8, max_range_elements = 2\<rparr>\<rparr>"

text \<open>Keys on the first drive, the last drive is down.\<close>

definition admin_demo_state :: "string list \<Rightarrow> sim admin_state" where
  "admin_demo_state ks =
     \<lparr>adm_cluster = \<lparr>kinetic_object = admin_demo_cluster,
        kinetic_world = (sim_init [3])\<lparr>sim_store := (\<lambda>c. if c = 0 then map (\<lambda>k. (k, makeRecord [] [])) ks else [])\<rparr>,
        updates_pending = 0\<rparr>,
      adm_counts = KeyCountsInternal_new, adm_pages = []\<rparr>"

lemma admin_demo_ready: "range_ready admin_demo_cluster sim_up (kinetic_world (adm_cluster (admin_demo_state ks))) 2"
  by (simp add: range_ready_def admin_demo_cluster_def admin_demo_state_def sim_init_def down_drives_def
      RedundancyProvider_new_def demo_cluster_def numParity_def upt_conv_Cons)

lemma admin_demo_keys:
  "cluster_keys (connections admin_demo_cluster) sim_up sim_keys (kinetic_world (adm_cluster (admin_demo_state ks))) = sort (remdups ks)"
  by (simp add: cluster_keys_def admin_demo_cluster_def admin_demo_state_def sim_init_def sim_keys_def upt_conv_Cons comp_def
      sorted_sort_id distinct_remdups_id)

lemma admin_count_result:
  assumes "honest_range env up keys" and "codes_ok (env_code env)" and "range_ready cl up w m"
    and "initRangeKeys (identity cl) t = Inr (a, b)" and "b \<notin> set (cluster_keys (connections cl) up keys w)"
    and "count_state up keys cl w s" and "goes_on cb"
  shows "\<exists>s'. admin_count env lib t cb s =
    Some (Inr (to_int32 (int (length (filter (in_range a b) (cluster_keys (connections cl) up keys w))))), s') \<and>
    count_state up keys cl w s'"
proof -
  let ?s = "s\<lparr>adm_counts := KeyCountsInternal_new, adm_pages := []\<rparr>"
  have s: "count_state up keys cl w ?s" using assms(6) by (simp add: count_state_def)
  have z: "to_int32 (kc_total (adm_counts ?s)) = kc_total (adm_counts ?s)" by (simp add: KeyCountsInternal_new_def to_int32_def)
  obtain s' where s': "doOperation_loop env lib (\<lambda>_. 0) COUNT t cb 0 a b None ?s = Some (Inr (), s')" "count_state up keys cl w s'"
    "adm_pages s' = []"
    "kc_total (adm_counts s') = to_int32 (int (length (filter (in_range a b) (cluster_keys (connections cl) up keys w))))"
    using count_loop [OF assms(1-3) refl assms(5,7) initRangeKeys_ascending [OF assms(4)] s z, of lib "\<lambda>_. 0" t 0 None]
    by (auto simp: KeyCountsInternal_new_def)
  moreover have "identity (kinetic_object (adm_cluster s)) = identity cl" using assms(6) by (simp add: count_state_def)
  ultimately show ?thesis
    using assms(4) by (simp add: admin_count_def doOperation_def cluster_id_def ret_def seq_def)
qed

section \<open>Properties of counting\<close>

text \<open>C13: Counting visits every key once. On a cluster whose drives answer range requests from their
  sorted keys, with at most as many drives down as there are parities, a count ends, and its result is
  the number of different keys between the bounds on the drives that are up (as a 32 bit integer),
  whatever the limit of one range request, if no key is equal to the upper bound.\<close>

theorem count_exact:
  assumes "honest_range env up keys" and "codes_ok (env_code env)" and "range_ready cl up w m"
    and "initRangeKeys (identity cl) t = Inr (a, b)" and "b \<notin> set (cluster_keys (connections cl) up keys w)"
    and "kinetic_object (adm_cluster s) = cl" and "kinetic_world (adm_cluster s) = w"
  shows "\<exists>s'. admin_count env lib t None s =
    Some (Inr (to_int32 (int (length (filter (in_range a b) (cluster_keys (connections cl) up keys w))))), s')"
proof -
  have "count_state up keys cl w s" using assms(6,7) by (simp add: count_state_def)
  from admin_count_result [OF assms(1-5) this goes_on_simps(1)] show ?thesis by auto
qed

theorem count_exact_witness:
  "\<exists>s'. admin_count sim_env sum_lib METADATA None
     (admin_demo_state [''demo:metadata:a'', ''demo:data:a'', ''demo:metadata:c'', ''demo:metadata:b'']) = Some (Inr 3, s')"
proof -
  let ?s = "admin_demo_state [''demo:metadata:a'', ''demo:data:a'', ''demo:metadata:c'', ''demo:metadata:b'']"
  have ks: "cluster_keys (connections admin_demo_cluster) sim_up sim_keys (kinetic_world (adm_cluster ?s)) =
      [''demo:data:a'', ''demo:metadata:a'', ''demo:metadata:b'', ''demo:metadata:c'']"
    unfolding admin_demo_keys by code_simp
  have r: "initRangeKeys (identity admin_demo_cluster) METADATA = Inr (''demo:metadata: '', ''demo:metadata:~'')"
    by code_simp
  have f: "to_int32 (int (length (filter (in_range ''demo:metadata: '' ''demo:metadata:~'')
      [''demo:data:a'', ''demo:metadata:a'', ''demo:metadata:b'', ''demo:metadata:c'']))) = 3" by code_simp
  have o: "kinetic_object (adm_cluster ?s) = admin_demo_cluster" by (simp add: admin_demo_state_def)
  have "\<exists>s'. admin_count sim_env sum_lib METADATA None ?s = Some (Inr (to_int32 (int (length (filter
      (in_range ''demo:metadata: '' ''demo:metadata:~'')
      (cluster_keys (connections admin_demo_cluster) sim_up sim_keys (kinetic_world (adm_cluster ?s))))))), s')"
    by (rule count_exact [OF sim_honest_range sim_codes admin_demo_ready r _ o refl]) (simp add: ks)
  then show ?thesis unfolding ks f .
qed

text \<open>C37: A count never ends when a key is equal to the upper bound of its range, as the metadata key of
  a file named with a tilde is: the next start key is behind the end key, so the range request is
  reversed and finds the key again.\<close>

theorem count_never_ends:
  assumes "honest_range env up keys" and "codes_ok (env_code env)" and "range_ready cl up w m"
    and "initRangeKeys (identity cl) t = Inr (a, b)" and "b \<in> set (cluster_keys (connections cl) up keys w)"
    and "kinetic_object (adm_cluster s) = cl" and "kinetic_world (adm_cluster s) = w"
  shows "admin_count env lib t None s = None"
proof -
  let ?s = "s\<lparr>adm_counts := KeyCountsInternal_new, adm_pages := []\<rparr>"
  have s: "count_state up keys cl w ?s" using assms(6,7) by (simp add: count_state_def)
  show ?thesis
    using count_loop_diverges [OF assms(1-3,5) s] assms(4,6) by (simp add: admin_count_def doOperation_def cluster_id_def seq_def)
qed

theorem count_never_ends_witness:
  "admin_count sim_env sum_lib METADATA None (admin_demo_state [''demo:metadata:a'', makeMetadataKey ''demo'' ''~'']) = None"
proof -
  let ?s = "admin_demo_state [''demo:metadata:a'', makeMetadataKey ''demo'' ''~'']"
  have r: "initRangeKeys (identity admin_demo_cluster) METADATA = Inr (makeMetadataKey ''demo'' '' '', makeMetadataKey ''demo'' ''~'')"
    by code_simp
  show ?thesis
    by (rule count_never_ends [OF sim_honest_range sim_codes admin_demo_ready r])
      (simp_all add: admin_demo_keys, simp_all add: admin_demo_state_def)
qed

lemma cons_range:
  "CHR '' '' < x \<Longrightarrow> x < CHR ''~'' \<Longrightarrow> '' '' @ y \<le> (x # q) @ z \<and> (x # q) @ z \<le> ''~'' @ v"
  "CHR ''~'' < x \<Longrightarrow> \<not> (x # q) @ z \<le> ''~'' @ v" for x :: char and q y z v :: string
  by (auto dest: less_trans)

text \<open>C38: The files that maintenance reaches. All keys of a file whose path starts with a character
  strictly between the blank and the tilde are inside the ranges of their kind; no key of a file whose
  path starts with a byte above the tilde is, as for every path that starts with a character outside
  ASCII: these files are never counted, scanned or repaired.\<close>

theorem maintenance_range:
  assumes "initRangeKeys cid METADATA = Inr (ma, mb)" and "initRangeKeys cid ATTRIBUTE = Inr (aa, ab)"
    and "initRangeKeys cid DATA = Inr (da, db)"
  shows "(CHR '' '' < x \<and> x < CHR ''~'' \<longrightarrow> in_range ma mb (makeMetadataKey cid (x # path)) \<and>
      in_range aa ab (makeAttributeKey cid (x # path) name) \<and> in_range da db (makeDataKey cid (x # path) block)) \<and>
    (CHR ''~'' < x \<longrightarrow> \<not> in_range ma mb (makeMetadataKey cid (x # path)) \<and>
      \<not> in_range aa ab (makeAttributeKey cid (x # path) name) \<and> \<not> in_range da db (makeDataKey cid (x # path) block))"
proof -
  have nil: "'' '' = '' '' @ []" "''~'' = ''~'' @ []" "x # path = (x # path) @ []" by simp_all
  have keys: "ma = cid @ '':metadata:'' @ '' '' @ []" "mb = cid @ '':metadata:'' @ ''~'' @ []"
    "aa = cid @ '':attribute:'' @ '' '' @ '': ''" "ab = cid @ '':attribute:'' @ ''~'' @ '':~''"
    "da = cid @ '':data:'' @ '' '' @ ''_'' @ zpad 10 (dec_int 0)" "db = cid @ '':data:'' @ ''~'' @ ''_'' @ zpad 10 (dec_int 99999999)"
    using assms by (simp_all add: initRangeKeys_def makeMetadataKey_def makeAttributeKey_def makeDataKey_def)
  have "makeMetadataKey cid (x # path) = cid @ '':metadata:'' @ (x # path) @ []"
    "makeAttributeKey cid (x # path) name = cid @ '':attribute:'' @ (x # path) @ '':'' @ name"
    "makeDataKey cid (x # path) block = cid @ '':data:'' @ (x # path) @ ''_'' @ zpad 10 (dec_int block)"
    by (simp_all add: makeMetadataKey_def makeAttributeKey_def makeDataKey_def)
  then show ?thesis
    unfolding keys in_range_def by (simp only: le_append_prefix) (use cons_range in blast)
qed

theorem maintenance_range_witness:
  "in_range ''c:metadata: '' ''c:metadata:~'' (makeMetadataKey ''c'' ''file'')"
  using maintenance_range [of "''c''" "''c:metadata: ''" "''c:metadata:~''" _ _ _ _ "CHR ''f''" "''ile''"]
  by (simp add: initRangeKeys_def makeMetadataKey_def less_char_def)

end
