(* ===== verification/File_Durability.thy ===== *)
theory File_Durability
  imports File_Storage Admin_Storage
begin

text \<open>
  The whole way of a file's data: written through a file, flushed through the cache by \<^verbatim>\<open>Sync\<close>, stored as a
  stripe on the drives of the cluster, and read back through another file although drives were lost.
\<close>

section \<open>Flush requests\<close>

text \<open>A drive may answer a flush request as it likes, but keeps its records.\<close>

definition honest_flush ::
  "'w env \<Rightarrow> ('w \<Rightarrow> nat \<Rightarrow> bool) \<Rightarrow> ('w \<Rightarrow> nat \<Rightarrow> string \<rightharpoonup> kinetic_record) \<Rightarrow> bool" where
  "honest_flush env up store \<longleftrightarrow>
     (\<forall>w c t. same_drives up store w (snd (env_flush env c t w))) \<and>
     (\<forall>w c. same_drives up store w (env_set_error env c w))"

interpretation flushes: drive_request env Req_Flush BasicCallback
  "\<lambda>w w'. honest_flush env up store \<longrightarrow> same_drives up store w w'" "\<lambda>w c cb. cb_done cb"
proof
  fix t c sync w e cb sync' w'
  assume "send_request env t c Req_Flush \<lparr>cb_status = no_result, cb_done = False, cb_data = BasicCallback\<rparr> sync w = ((e, cb, sync'), w')"
  then have "w' = snd (env_flush env c t w)" by (auto simp: send_request_def apfst_def map_prod_def split: prod.splits)
  then show "(honest_flush env up store \<longrightarrow> same_drives up store w w') \<and> (cb_done cb \<or> \<not> cb_done cb \<and> cb_done (timed_out cb))"
    by (auto simp: honest_flush_def timed_out_def)
qed (auto simp: honest_flush_def same_drives_def)

lemma flush_ops: "operations (ClusterFlushOp_new n) = map (fresh_operation Req_Flush BasicCallback) [0..<n]"
  by (simp add: ClusterFlushOp_new_def bind_all_eq expandOperationVector_def KineticClusterOperation_new_def empty_operation_def)

lemma flush_keeps_records:
  assumes "honest_flush env up store" and "cluster_flush env cl w = (st, w')"
  shows "same_drives up store w w'"
proof -
  obtain rmap op' w1 where x: "executeOperationVector env (operation_timeout cl) (ClusterFlushOp_new (connections cl)) w = (rmap, op', w1)"
    by (metis prod_cases3)
  then have "same_drives up store w w1"
    using assms(1) by (rule_tac flushes.execute_requests [OF flush_ops x, where up = up and store = store]) blast
  moreover have "w' = w1"
    using assms(2) x by (auto simp: cluster_flush_def ClusterFlushOp_execute_def split: option.splits)
  ultimately show ?thesis by simp
qed


section \<open>Flushing a file\<close>

lemma cache_flush_one:
  assumes "owner_set (owner_tables st self) = {a}" and "dirty (blocks st a)"
    and "block_flush now (blocks st a, world st) = Some (Inr (), b', s')"
  shows "cache_flush now self st = Some (Inr (), st\<lparr>blocks := (blocks st)(a := b'), world := s'\<rparr>)"
  using assms by (simp add: cache_flush_def flush_if_dirty_def on_block_def)

lemma Sync_one:
  assumes "file_cluster (fs self) = KineticCluster_interface denv lib cl0"
    and "owner_set (owner_tables st self) = {a}" and "dirty (blocks st a)"
    and "block_flush (fe_now env) (blocks st a, world st) = Some (Inr (), b', s')"
    and "cluster_flush denv (kinetic_object s') (kinetic_world s') = (status, w')"
  shows "Sync env self (fs, st) =
    Some (Inr (), fs, st\<lparr>blocks := (blocks st)(a := b'), world := s'\<lparr>kinetic_world := w'\<rparr>\<rparr>)"
proof -
  let ?st = "st\<lparr>blocks := (blocks st)(a := b'), world := s'\<rparr>"
  have "call self ci_flush (fs, ?st) = Some (Inr status, fs, ?st\<lparr>world := s'\<lparr>kinetic_world := w'\<rparr>\<rparr>)"
    using assms(1,5) by (simp add: call_def on_world_def on_cache_def zoom_def KineticCluster_interface_def kc_call_const_def)
  moreover have "on_cache (cache_flush (fe_now env) self) (fs, st) = Some (Inr (), fs, ?st)"
    by (rule on_cache_Some) (rule cache_flush_one [OF assms(2-4)])
  ultimately show ?thesis by (simp add: Sync_def)
qed

section \<open>Reading a block that is not cached\<close>

lemma read_uncached_block:
  fixes off :: int and cap :: nat
  defines "n \<equiv> block_number cap off 0" and "boff \<equiv> block_offset cap off 0"
  assumes "cache_wf {} st" and "lookup st (makeDataKey (ci_id ci) (path f) n @ ci_instanceId ci) = None"
    and "\<not> 7 * cache_capacity st < 10 * current_size st" and "unused_items st = []"
    and "f = fs self" and "ci = file_cluster f" and "cap = max_value_size (ci_limits ci)" and "cap < 4294967296"
    and "fe_window env = 0" and "boff + todo < cap" and "0 < todo"
    and "block_inv ci b" and "value_size b = boff + todo" and "1000000 \<le> fe_now env (world st)" and "status_ok status"
    and "ci_get ci (Some (makeDataKey (ci_id ci) (path f) n)) None None (world st) = Some (Inr (status, v, Some (block_bytes b)), s3)"
    and "n < eof_blocknumber f \<or> eof_blocknumber f = n \<and> fe_now env s3 - eof_verification_time f \<le> 1000000"
  shows "\<exists>go d s'. rw_step env self READ cap off todo 0 buf (fs, st) =
      Some (Inr (go, 0, d, map (block_byte b) [boff..<boff + todo] @ drop todo buf), s')"
proof -
  let ?now = "fe_now env" and ?k = "makeDataKey (ci_id ci) (path f) n" and ?a = "next_block st"
  let ?out = "map (block_byte b) [boff..<boff + todo] @ drop todo buf" and ?lb = "loaded_block (fe_now env) ci (makeDataKey (ci_id ci) (path f) n) v (block_bytes b) s3"
  have blen: "block_length cap off 0 todo = todo"
    using assms(10,12) by (simp add: block_length_exact boff_def [symmetric])
  obtain st1 where st1: "getDataKey ?now self ci (path f) n STANDARD st = Some (Inr ?a, st1)"
    "blocks st1 = (blocks st)(?a := new_block ?now ci ?k STANDARD (world st))" "world st1 = world st"
    by (rule getDataKey_new [OF assms(3-6)])
  let ?h = "st1\<lparr>held := ?a # held st1\<rparr>" let ?h' = "?h\<lparr>blocks := (blocks st1)(?a := ?lb), world := s3\<rparr>"
  let ?fs' = "fs(self := f\<lparr>prefetchOracle := PrefetchOracle_add n (prefetchOracle f)\<rparr>)"
  have le: "boff + todo \<le> max_value_size (ci_limits ci)" using assms(9,12) by simp
  have blk: "file_block env self n STANDARD (fs, st) = Some (Inr ?a, fs, st1)"
    using st1(1) assms(7,8) by (simp add: file_block_def on_cache_Some)
  have ra: "scheduleReadahead env self n (fs, ?h) = Some (Inr (), ?fs', ?h)"
    using readahead_off [OF assms(11), of self n fs ?h] assms(7) by simp
  have "block_read ?now (Some buf) boff todo (new_block ?now ci ?k STANDARD (world st), world st) = Some (Inr ?out, ?lb, s3)"
    using fresh_block_reads [where now = ?now and s = "world st", OF assms(14) le refl assms(16,17,18)] by (simp add: new_block_def)
  then have rd: "with_block ?a (block_read ?now (Some buf) boff todo) (?fs', ?h) = Some (Inr ?out, ?fs', ?h')"
    using with_block_Some [of "block_read ?now (Some buf) boff todo" ?h ?a "Inr ?out" ?lb s3 ?fs'] st1(2,3) by simp
  have sizes: "size_sub (boff + todo) boff = todo" "size_sub todo todo = 0" "size_add 0 todo = todo"
    using assms(10,12) by (simp_all add: size_sub_le size_add_def)
  have sz: "with_block ?a (block_size ?now) (?fs', ?h') = Some (Inr (boff + todo), ?fs', ?h')"
    by (rule with_block_same) (use block_size_fresh [of ?now s3 ?lb] assms(15) in
        \<open>simp add: loaded_block_def not_expired_def expiration_time_def block_bytes_def\<close>)
  have "bnd (this self) (\<lambda>f. if eof_blocknumber f \<le> n
        then bnd (read_end env self ?a n boff todo todo) (\<lambda>(more, todo). ret (more, todo, 0, ?out))
        else ret (True, size_sub todo todo, size_add 0 todo, ?out)) (?fs', ?h') =
      Some (Inr (if n < eof_blocknumber f then (True, 0, todo, ?out) else (False, 0, 0, ?out)), ?fs', ?h')"
    using assms(13,19) verify_eof_fresh [of env ?h' ?fs' self] sz sizes by (auto simp: read_end_def)
  then have "holding ?a (seq (scheduleReadahead env self n)
      (bnd (with_block ?a (block_read ?now (Some buf) boff todo)) (\<lambda>out. bnd (this self) (\<lambda>f.
        if eof_blocknumber f \<le> n
        then bnd (read_end env self ?a n boff todo todo) (\<lambda>(more, todo). ret (more, todo, 0, out))
        else ret (True, size_sub todo todo, size_add 0 todo, out))))) (fs, st1) =
      Some (Inr (if n < eof_blocknumber f then (True, 0, todo, ?out) else (False, 0, 0, ?out)), ?fs',
        ?h'\<lparr>held := remove1 ?a (held ?h')\<rparr>)"
    by (intro holding_Some) (use ra rd in simp)
  then show ?thesis
    using blk by (cases "n < eof_blocknumber f") (auto simp: rw_step_def Let_def n_def [symmetric] boff_def [symmetric] blen)
qed


section \<open>Property\<close>

text \<open>A file that is open on a cluster under a path, and a cache that has room for a block of it and does not
  hold the block.\<close>

definition usable_file :: "'s ClusterInterface \<Rightarrow> string \<Rightarrow> 's FileIo \<Rightarrow> bool" where
  "usable_file ci p f \<longleftrightarrow> file_cluster f = ci \<and> path f = p \<and> opened f \<and> exceptions f = []"

definition room_for :: "'s ClusterInterface \<Rightarrow> string \<Rightarrow> 's kio_state \<Rightarrow> bool" where
  "room_for ci k st \<longleftrightarrow> cache_wf {} st \<and> lookup st (k @ ci_instanceId ci) = None \<and>
     \<not> 7 * cache_capacity st < 10 * current_size st \<and> unused_items st = []"

lemma written_bytes:
  "(\<And>i. i < len \<Longrightarrow> block_byte b (boff + i) = buf ! i) \<Longrightarrow> length buf = len \<Longrightarrow> length out = len \<Longrightarrow>
   map (block_byte b) [boff..<boff + len] @ drop len out = buf"
  by (intro nth_equalityI) auto

lemma write_new_block:
  assumes "usable_file ci p (fs self)" and "room_for ci k st" and "k = makeDataKey (ci_id ci) p n"
    and "cap = max_value_size (ci_limits ci)" and "cap < 4294967296" and "fe_window env = 0"
    and "n = block_number cap off 0" and "boff = block_offset cap off 0" and "0 < len" and "boff + len < cap" and "length buf = len"
    and "eof_blocknumber (fs self) < n" and "owner_set (owner_tables st self) = {}"
  obtains fs1 st1 a b where "Write env self off buf (int len) (fs, st) = Some (Inr (int len, buf), fs1, st1)"
    "file_cluster (fs1 self) = ci" "blocks st1 a = b" "world st1 = world st" "block_inv ci b" "value_size b = boff + len"
    "\<And>i. i < len \<Longrightarrow> block_byte b (boff + i) = buf ! i"
    "key b = k" "mode b = CREATE" "version b = None" "local_value b \<noteq> None" "updates b \<noteq> []"
    "owner_set (owner_tables st1 self) = {a}"
proof -
  let ?f = "fs self"
  let ?fs1 = "fs(self := ?f\<lparr>eof_blocknumber := n, prefetchOracle := PrefetchOracle_add n (prefetchOracle ?f)\<rparr>)"
  have f: "ci = file_cluster ?f" "path ?f = p" "opened ?f" "exceptions ?f = []" using assms(1) by (simp_all add: usable_file_def)
  have cap: "0 < cap" "len < 4294967296" using assms(5,10) by simp_all
  have room: "cache_wf {} st" "lookup st (makeDataKey (ci_id ci) (path ?f) (block_number cap off 0) @ ci_instanceId ci) = None"
    "\<not> 7 * cache_capacity st < 10 * current_size st" "unused_items st = []"
    using assms(2) by (simp_all add: room_for_def assms(3,7) f(2))
  obtain st1 a b where wr: "rw_step env self WRITE cap off len 0 buf (fs, st) = Some (Inr (True, 0, len, buf), ?fs1, st1)"
    and b: "blocks st1 a = b" "world st1 = world st" "block_inv ci b" "value_size b = boff + len"
      "\<And>i. i < len \<Longrightarrow> block_byte b (boff + i) = buf ! i"
      "key b = k" "mode b = CREATE" "version b = None" "local_value b \<noteq> None" "updates b \<noteq> []"
      "owner_set (owner_tables st1 self) = {a}"
    by (rule append_block [where f = ?f and self = self and fs = fs, OF room refl f(1) assms(4,5,6),
            folded assms(7,8), OF assms(12,10), of buf])
      (use assms(3,11,13) f(2) in \<open>auto simp: owner_set_def\<close>)
  have "Write env self off buf (int len) (fs, st) = Some (Inr (int len, buf), ?fs1, st1)"
    using ReadWrite_steps [OF refl f(4) _ cap(1) assms(9) cap(2) wr] assms(4) f(1,3) by (simp add: Write_def guard_opened_def)
  then show ?thesis by (rule that) (use f(1) b in simp_all)
qed

lemma read_uncached:
  assumes "usable_file ci p (fs self)" and "room_for ci k st" and "k = makeDataKey (ci_id ci) p n"
    and "cap = max_value_size (ci_limits ci)" and "cap < 4294967296" and "fe_window env = 0"
    and "n = block_number cap off 0" and "boff = block_offset cap off 0" and "0 < len" and "boff + len < cap" and "length buf = len"
    and "length out = len" and "block_inv ci b" and "value_size b = boff + len" and "\<And>i. i < len \<Longrightarrow> block_byte b (boff + i) = buf ! i"
    and "1000000 \<le> fe_now env (world st)"
    and "ci_get ci (Some k) None None (world st) = Some (Inr (ok_status, v, Some (block_bytes b)), s3)"
    and "n < eof_blocknumber (fs self) \<or>
      eof_blocknumber (fs self) = n \<and> fe_now env s3 - eof_verification_time (fs self) \<le> 1000000"
  shows "\<exists>s'. Read env self off out (int len) (fs, st) = Some (Inr (int len, buf), s')"
proof -
  let ?f = "fs self"
  have f: "ci = file_cluster ?f" "path ?f = p" "opened ?f" "exceptions ?f = []" using assms(1) by (simp_all add: usable_file_def)
  have cap: "0 < cap" "len < 4294967296" using assms(5,10) by simp_all
  have room: "cache_wf {} st" "lookup st (makeDataKey (ci_id ci) (path ?f) (block_number cap off 0) @ ci_instanceId ci) = None"
    "\<not> 7 * cache_capacity st < 10 * current_size st" "unused_items st = []"
    using assms(2) by (simp_all add: room_for_def assms(3,7) f(2))
  obtain go d s' where "rw_step env self READ cap off len 0 out (fs, st) =
      Some (Inr (go, 0, d, map (block_byte b) [boff..<boff + len] @ drop len out), s')"
    using read_uncached_block [where f = ?f and self = self and fs = fs, OF room refl f(1) assms(4,5,6),
        folded assms(7,8), OF assms(10,9,13,14,16), where status = ok_status and v = v and buf = out] assms(3,17,18) f(2) by auto
  then have "rw_step env self READ cap off len 0 out (fs, st) = Some (Inr (go, 0, d, buf), s')"
    using written_bytes [OF assms(15,11,12)] by simp
  from ReadWrite_steps [OF refl f(4) _ cap(1) assms(9) cap(2) this] assms(4) f(1,3)
  show ?thesis by (simp add: Read_def guard_opened_def)
qed

text \<open>C11: The data of a file survives the loss of drives. A stretch written into a new block of an open file is
  stored by \<^verbatim>\<open>Sync\<close> when no more drives of its stripe are down than the cluster has parities. Later any
  file object for the same path, with a cache that does not hold the block, reads back the same number
  of bytes and the same bytes, as long as no more chunks are lost than there are parities, unless its
  knowledge of the end of the file ends before the block or has expired when the block arrives.\<close>

theorem file_survives_losses:
  fixes st :: "'w kinetic_state kio_state"
  defines "w \<equiv> kinetic_world (world st)" and "cl \<equiv> kinetic_object (world st)"
  assumes "honest_get denv up store" and "honest_put denv up store" and "honest_uuid denv up store" and "honest_flush denv up store"
    and "codes_ok (env_code denv)" and "cluster_ok lib cl" and "ci = KineticCluster_interface denv lib cl0"
    and "cap = max_value_size (ci_limits ci)" and "cap \<le> nData (redundancy cl) * chunkCapacity cl" and "cap \<le> 2147483647"
    and "fe_now env = (\<lambda>s. env_now denv (kinetic_world s))" and "fe_window env = 0"
    and "n = block_number cap off 0" and "boff = block_offset cap off 0" and "0 < len" and "boff + len < cap" and "length buf = len"
    and "k = makeDataKey (ci_id ci) p n" and "ds = stripe_drives cl k" and "no_index_wrap (connections cl) k (nData (redundancy cl))"
    and "usable_file ci p (fs self)" and "eof_blocknumber (fs self) < n" and "owner_set (owner_tables st self) = {}" and "room_for ci k st"
    and "\<forall>c \<in> set ds. up w c \<longrightarrow> store w c k = None" and "down_drives up w ds \<le> nParity (redundancy cl)"
  shows "\<exists>fs1 st1 st2. Write env self off buf (int len) (fs, st) = Some (Inr (int len, buf), fs1, st1) \<and>
    Sync env self (fs1, st1) = Some (Inr (), fs1, st2) \<and>
    (\<forall>c \<in> set ds. up w c \<longrightarrow> store (kinetic_world (world st2)) c k \<noteq> None) \<and>
    (\<forall>reader fs3 st3 w3 out.
       usable_file ci p (fs3 reader) \<longrightarrow> room_for ci k st3 \<longrightarrow> world st3 = (world st2)\<lparr>kinetic_world := w3\<rparr> \<longrightarrow>
       (\<forall>c \<in> set ds. up w3 c \<longrightarrow> store w3 c k = None \<or> up w c \<and> store w3 c k = store (kinetic_world (world st2)) c k) \<longrightarrow>
       lost_drives up store w3 k ds \<le> nParity (redundancy cl) \<longrightarrow> absent_drives up store w3 k ds < nData (redundancy cl) \<longrightarrow>
       1000000 \<le> env_now denv w3 \<longrightarrow> length out = len \<longrightarrow>
       (\<exists>v x s4. ci_get ci (Some k) None None (world st3) = Some (Inr (ok_status, v, x), s4) \<and>
          (n < eof_blocknumber (fs3 reader) \<or>
             eof_blocknumber (fs3 reader) = n \<and> env_now denv (kinetic_world s4) - eof_verification_time (fs3 reader) \<le> 1000000 \<longrightarrow>
           (\<exists>s'. Read env reader off out (int len) (fs3, st3) = Some (Inr (int len, buf), s')))))"
proof -
  have cap: "cap < 4294967296" using assms(12) by simp
  obtain fs1 st1 a b where wrote: "Write env self off buf (int len) (fs, st) = Some (Inr (int len, buf), fs1, st1)"
      "file_cluster (fs1 self) = ci"
    and b: "blocks st1 a = b" "world st1 = world st" "block_inv ci b" "value_size b = boff + len"
      "\<And>i. i < len \<Longrightarrow> block_byte b (boff + i) = buf ! i"
      "key b = k" "mode b = CREATE" "version b = None" "local_value b \<noteq> None" "updates b \<noteq> []"
      "owner_set (owner_tables st1 self) = {a}"
    by (rule write_new_block [where fs = fs and self = self and st = st and env = env, OF assms(23,26,20,10) cap assms(14-19,24,25)])
      (rule that)
  have vs: "value_size b \<le> nData (redundancy cl) * chunkCapacity cl" "value_size b \<le> 2147483647"
    using b(4) assms(11,12,18) by simp_all
  have acc: "\<forall>c \<in> set ds. up w c \<longrightarrow> version_accepted REQUIRE_SAME_VERSION (case version b of None \<Rightarrow> [] | Some v \<Rightarrow> v) (store w c (key b))"
    using assms(27) by (auto simp: b(6,8) version_accepted_def stored_version_def)
  obtain v cl' w' where fl: "block_flush (fe_now env) (b, world st1) =
      Some (Inr (), b\<lparr>local_value := Some (block_bytes b), version := Some v, updates := [], timestamp := env_now denv w'\<rparr>,
        (world st)\<lparr>kinetic_object := cl', kinetic_world := w'\<rparr>)"
    and kept: "\<forall>c \<in> set ds. up w c \<longrightarrow> store w' c k \<noteq> None"
    and get: "\<And>w2. \<forall>c \<in> set ds. up w2 c \<longrightarrow> store w2 c k = None \<or> up w c \<and> store w2 c k = store w' c k \<Longrightarrow>
       lost_drives up store w2 k ds \<le> nParity (redundancy cl) \<Longrightarrow> absent_drives up store w2 k ds < nData (redundancy cl) \<Longrightarrow>
       \<exists>cl2 w3. ci_get ci (Some k) None None ((world st)\<lparr>kinetic_object := cl', kinetic_world := w2\<rparr>) =
         Some (Inr (ok_status, Some v, Some (block_bytes b)), (world st)\<lparr>kinetic_object := cl2, kinetic_world := w3\<rparr>)"
    by (rule flushed_block_readable [where s = "world st" and b = b and up = up and store = store,
            OF assms(3-5,7) assms(8) [unfolded cl_def] _ assms(9) b(3,9) disjI2 [OF b(7)]])
      (use assms(13,21,22,28) vs acc b(2,6) in \<open>simp_all add: w_def cl_def\<close>)
  obtain status w2 where cf: "cluster_flush denv cl' w' = (status, w2)" by fastforce
  have same: "store w2 = store w'" using flush_keeps_records [OF assms(6) cf] by (simp add: same_drives_def)
  let ?st2 = "st1\<lparr>blocks := (blocks st1)(a := b\<lparr>local_value := Some (block_bytes b), version := Some v, updates := [],
      timestamp := env_now denv w'\<rparr>), world := (world st)\<lparr>kinetic_object := cl', kinetic_world := w2\<rparr>\<rparr>"
  have sync: "Sync env self (fs1, st1) = Some (Inr (), fs1, ?st2)"
    using Sync_one [of fs1 self denv lib cl0 st1 a env] wrote(2) assms(9) b(1,2,10,11) fl cf by (simp add: dirty_def)
  show ?thesis
  proof (rule exI, rule exI, rule exI, intro conjI allI impI)
    fix reader :: nat and fs3 st3 w3 and out :: string
    assume r: "usable_file ci p (fs3 reader)" "room_for ci k st3" and ws: "world st3 = (world ?st2)\<lparr>kinetic_world := w3\<rparr>"
      and intact: "\<forall>c \<in> set ds. up w3 c \<longrightarrow> store w3 c k = None \<or> up w c \<and> store w3 c k = store (kinetic_world (world ?st2)) c k"
      and few: "lost_drives up store w3 k ds \<le> nParity (redundancy cl)" "absent_drives up store w3 k ds < nData (redundancy cl)"
      and late: "1000000 \<le> env_now denv w3" and out: "length out = len"
    obtain cl2 w4 where got: "ci_get ci (Some k) None None (world st3) =
        Some (Inr (ok_status, Some v, Some (block_bytes b)), (world st)\<lparr>kinetic_object := cl2, kinetic_world := w4\<rparr>)"
      using get [OF _ few] intact same ws by auto
    have "1000000 \<le> fe_now env (world st3)" using late ws assms(13) by simp
    note read = read_uncached [where fs = fs3 and self = reader and st = st3 and env = env, OF r assms(20,10) cap assms(14-19) out b(3,4,5) this got]
    show "\<exists>v x s4. ci_get ci (Some k) None None (world st3) = Some (Inr (ok_status, v, x), s4) \<and>
          (n < eof_blocknumber (fs3 reader) \<or>
             eof_blocknumber (fs3 reader) = n \<and> env_now denv (kinetic_world s4) - eof_verification_time (fs3 reader) \<le> 1000000 \<longrightarrow>
           (\<exists>s'. Read env reader off out (int len) (fs3, st3) = Some (Inr (int len, buf), s')))"
      by (rule exI, rule exI, rule exI, rule conjI [OF got]) (use read in \<open>simp add: assms(13)\<close>)
  qed (use wrote sync kept same in simp_all)
qed

definition durable_env :: "sim kinetic_state fio_env" where
  "durable_env = \<lparr>fe_now = demo_now, fe_order = (\<lambda>d. d), fe_window = 0, fe_getCluster = (\<lambda>_. ret demo_ci),
     fe_quotient_text = (\<lambda>x ds. dec x)\<rparr>"

definition durable_file :: "int \<Rightarrow> sim kinetic_state FileIo" where
  "durable_file eof = \<lparr>file_cluster = demo_ci, prefetchOracle = PrefetchOracle_new 0, eof_blocknumber = eof,
     eof_verification_time = 0, exceptions = [], opened = True, path = ''f''\<rparr>"

abbreviation durable_cache :: "sim kinetic_state \<Rightarrow> sim kinetic_state kio_state" where
  "durable_cache \<equiv> DataCache_new 100 (handler_init 1 1) demo_block"

abbreviation durable_key :: string where
  "durable_key \<equiv> ''demo:data:f_0000000001''"

lemma durable_drives: "key_connections 4 durable_key 3 0 = [3, 0, 1]"
proof -
  have "MurmurHash3_x86_32 durable_key 0 = 0x290585ce" by code_simp
  then have "first_connection 4 durable_key 0 = 3" by (simp add: first_connection_def)
  then show ?thesis by (simp add: key_connections_ring upt_conv_Cons)
qed

lemma durable_keys: "makeDataKey ''demo'' ''f'' 1 = durable_key"
  by code_simp

lemma sim_honest_flush: "honest_flush sim_env sim_up sim_records"
  by (simp add: honest_flush_def same_drives_def sim_env_def)

lemma durable_usable: "usable_file demo_ci ''f'' (durable_file n)"
  by (simp add: usable_file_def durable_file_def)

lemma durable_room: "room_for ci k (durable_cache s)"
  by (simp add: room_for_def cache_wf_new) (simp add: DataCache_new_def)


text \<open>\<^verbatim>\<open>hello\<close> is written at offset 10, so into block 1; another file object reads it with drive 0 of the stripe
  gone.\<close>

theorem file_survives_losses_witness:
  "\<exists>fs1 st1 st2 s'. Write durable_env 1 10 ''hello'' (int 5) (\<lambda>_. durable_file 0, durable_cache demo_state) =
       Some (Inr (int 5, ''hello''), fs1, st1) \<and> Sync durable_env 1 (fs1, st1) = Some (Inr (), fs1, st2) \<and>
     Read durable_env 2 10 ''.....'' (int 5) (\<lambda>_. durable_file 2, durable_cache ((world st2)
         \<lparr>kinetic_world := (kinetic_world (world st2))\<lparr>sim_down := (\<lambda>c. c = 0), sim_clock := 2000000\<rparr>\<rparr>)) =
       Some (Inr (int 5, ''hello''), s')"
proof -
  let ?st = "durable_cache demo_state"
  have st: "world ?st = demo_state" "owner_set (owner_tables ?st self) = {}" for self
    by (simp_all add: DataCache_new_def owner_set_def)
  have w: "world (durable_cache s) = s" for s by (simp add: DataCache_new_def)
  have cl: "cluster_ok sum_lib (kinetic_object (world ?st))" "kinetic_world (world ?st) = sim_init []"
    "rp_size (redundancy (kinetic_object (world ?st))) = 3" "nParity (redundancy (kinetic_object (world ?st))) = 1"
    "nData (redundancy (kinetic_object (world ?st))) = 2" "connections (kinetic_object (world ?st)) = 4"
    "chunkCapacity (kinetic_object (world ?st)) = 4"
    unfolding st using demo_cluster_ok by (simp_all add: demo_state_def cluster_ok_def)
  have pos: "1 = block_number 8 10 0" "2 = block_offset 8 10 0"
    using block_number_exact [of 10 0 8] by simp_all
  have k: "durable_key = makeDataKey (ci_id demo_ci) ''f'' 1"
    by (simp add: durable_keys demo_ci_def KineticCluster_interface_def cluster_id_def demo_cluster_def)
  have env: "fe_now durable_env = (\<lambda>s. env_now sim_env (kinetic_world s))" "fe_window durable_env = 0"
    by (simp_all add: durable_env_def demo_now_def fun_eq_iff)
  have up: "sim_up (sim_init []) c" for c by (simp add: sim_init_def)
  have ds: "[3, 0, 1] = stripe_drives (kinetic_object (world ?st)) durable_key"
    unfolding cl(3,6) durable_drives ..
  have h: "8 = max_value_size (ci_limits demo_ci)" "8 \<le> nData (redundancy (kinetic_object (world ?st))) * chunkCapacity (kinetic_object (world ?st))"
    "(8 :: nat) \<le> 2147483647" "(0 :: nat) < 5" "2 + 5 < (8 :: nat)" "length ''hello'' = 5"
    "no_index_wrap (connections (kinetic_object (world ?st))) durable_key (nData (redundancy (kinetic_object (world ?st))))"
    "eof_blocknumber (durable_file 0) < 1"
    "\<forall>c \<in> set [3, 0, 1]. sim_up (kinetic_world (world ?st)) c \<longrightarrow> sim_records (kinetic_world (world ?st)) c durable_key = None"
    "down_drives sim_up (kinetic_world (world ?st)) [3, 0, 1] \<le> nParity (redundancy (kinetic_object (world ?st)))"
    unfolding cl by (simp_all add: no_index_wrap_def durable_file_def down_drives_def sim_init_def)
  from file_survives_losses [where env = durable_env and self = 1 and fs = "\<lambda>_. durable_file 0" and st = ?st,
      OF sim_honest_get sim_honest_put sim_honest_uuid sim_honest_flush sim_codes cl(1) demo_ci_def h(1-3)
      env pos h(4-6) k ds h(7) durable_usable h(8) st(2) durable_room h(9,10)]
  obtain fs1 st1 st2 where wr: "Write durable_env 1 10 ''hello'' (int 5) (\<lambda>_. durable_file 0, ?st) = Some (Inr (int 5, ''hello''), fs1, st1)"
    "Sync durable_env 1 (fs1, st1) = Some (Inr (), fs1, st2)"
    and kept: "\<forall>c \<in> set [3, 0, 1]. sim_up (sim_init []) c \<longrightarrow> sim_records (kinetic_world (world st2)) c durable_key \<noteq> None"
    and read: "\<forall>reader fs3 st3 w3 out.
       usable_file demo_ci ''f'' (fs3 reader) \<longrightarrow> room_for demo_ci durable_key st3 \<longrightarrow> world st3 = (world st2)\<lparr>kinetic_world := w3\<rparr> \<longrightarrow>
       (\<forall>c \<in> set [3, 0, 1]. sim_up w3 c \<longrightarrow> sim_records w3 c durable_key = None \<or>
          sim_up (sim_init []) c \<and> sim_records w3 c durable_key = sim_records (kinetic_world (world st2)) c durable_key) \<longrightarrow>
       lost_drives sim_up sim_records w3 durable_key [3, 0, 1] \<le> 1 \<longrightarrow> absent_drives sim_up sim_records w3 durable_key [3, 0, 1] < 2 \<longrightarrow>
       1000000 \<le> env_now sim_env w3 \<longrightarrow> length out = 5 \<longrightarrow>
       (\<exists>v x s4. ci_get demo_ci (Some durable_key) None None (world st3) = Some (Inr (ok_status, v, x), s4) \<and>
          (1 < eof_blocknumber (fs3 reader) \<or>
             eof_blocknumber (fs3 reader) = 1 \<and> env_now sim_env (kinetic_world s4) - eof_verification_time (fs3 reader) \<le> 1000000 \<longrightarrow>
           (\<exists>s'. Read durable_env reader 10 out (int 5) (fs3, st3) = Some (Inr (int 5, ''hello''), s'))))"
    unfolding cl by (elim exE conjE) (rule that)
  let ?w3 = "(kinetic_world (world st2))\<lparr>sim_down := (\<lambda>c. c = 0), sim_clock := 2000000\<rparr>"
  have e: "1 < eof_blocknumber (durable_file 2)" "1000000 \<le> env_now sim_env ?w3" "length ''.....'' = 5"
    by (simp_all add: durable_file_def sim_env_def)
  have l: "lost_drives sim_up sim_records ?w3 durable_key [3, 0, 1] \<le> 1" "absent_drives sim_up sim_records ?w3 durable_key [3, 0, 1] < 2"
    "\<forall>c \<in> set [3, 0, 1]. sim_up ?w3 c \<longrightarrow> sim_records ?w3 c durable_key = None \<or>
       sim_up (sim_init []) c \<and> sim_records ?w3 c durable_key = sim_records (kinetic_world (world st2)) c durable_key"
    using kept up by (simp_all add: lost_drives_def absent_drives_def)
  from read [THEN spec [where x = 2], THEN spec [where x = "\<lambda>_. durable_file 2"],
      THEN spec [where x = "durable_cache ((world st2)\<lparr>kinetic_world := ?w3\<rparr>)"], THEN spec [where x = ?w3],
      THEN spec [where x = "''.....''"], THEN mp [OF _ durable_usable], THEN mp [OF _ durable_room], THEN mp [OF _ w],
      THEN mp [OF _ l(3)], THEN mp [OF _ l(1)], THEN mp [OF _ l(2)], THEN mp [OF _ e(2)], THEN mp [OF _ e(3)]] e(1)
  show ?thesis using wr by blast
qed

end
