(* ===== verification/Admin_Repair.thy ===== *)
theory Admin_Repair
  imports Admin_Storage
begin

text \<open>
  Repairing a key: the value is read from the chunks that are left, encoded again, and the missing
  chunks are written back to their drives with the version that they had.
\<close>

section \<open>Reading all chunks at once\<close>

lemma reconstruct_all:
  assumes ok: "rp_ok lib rp" and val: "stored_value lib rp v value st" and v: "vc_version (get_version g) = Some v"
    and cbs: "cbs = op_callbacks (get_ops g)" "delivered v st cbs" "lost_count cbs = 0" "length cbs = length st"
      "nData rp \<le> length st"
  shows "reconstructValue lib rp g = (rp, g\<lparr>get_value := Some value\<rparr>, Inr ())"
proof (cases "value = []")
  case True
  then show ?thesis using val v reconstruct_empty by (simp add: stored_value_def)
next
  case False
  then obtain L ds where content: "stripe_content lib rp L ds value st" and sz: "uuidDecodeSize (Some v) = Inr (length value)"
    using val by (auto simp: stored_value_def)
  have "map fst (chunks_of v (nData rp) cbs) = st"
  proof (rule nth_equalityI)
    fix i assume "i < length (map fst (chunks_of v (nData rp) cbs))"
    then have i: "i < length cbs" by simp
    then have "getRecord (cbs ! i) \<noteq> None" using cbs(3) by (auto simp: filter_empty_conv)
    then show "map fst (chunks_of v (nData rp) cbs) ! i = st ! i" using i chunks_of_nth [OF cbs(2) i] by auto
  qed (use cbs(4) in simp)
  moreover have "take (length value) (concat st) = value"
  proof -
    have split: "concat st = concat (take (nData rp) st) @ concat (drop (nData rp) st)"
      by (metis append_take_drop_id concat_append)
    have "take (length value) (concat (take (nData rp) st)) = value" by (rule stripe_content_data(1) [OF ok content])
    moreover from this have "length value \<le> length (concat (take (nData rp) st))" by (metis length_take min.cobounded1)
    ultimately show ?thesis unfolding split by simp
  qed
  ultimately show ?thesis
    using reconstruct_unfold [OF v sz _ cbs(1,2), of lib rp] cbs(3) False by (simp add: merge_chunks_take)
qed

text \<open>The versions that the drives report, for the repair.\<close>

definition reported_version ::
  "('w \<Rightarrow> nat \<Rightarrow> bool) \<Rightarrow> ('w \<Rightarrow> nat \<Rightarrow> string \<rightharpoonup> kinetic_record) \<Rightarrow> 'w \<Rightarrow> string \<Rightarrow> nat \<Rightarrow> string option" where
  "reported_version up store w key c = (if up w c then Some (stored_version (store w c key)) else None)"

lemma GET_all_recovers:
  assumes honest: "honest_get env up store" and codes: "codes_ok (env_code env)" and ok: "rp_ok lib rp"
    and val: "stored_value lib rp v value st" and st: "length st = rp_size rp"
    and drives: "stripe_on_drives up store w key v st (key_connections n key (rp_size rp) 0)"
    and lost: "lost_drives up store w key (key_connections n key (rp_size rp) 0) \<le> nParity rp"
    and absent: "absent_drives up store w key (key_connections n key (rp_size rp) 0) < nData rp"
  shows "\<exists>c g' w'. GET_execute env lib t rp (StripeOperation_GET_new key False n rp True) w =
      (rp\<lparr>cache := c\<rparr>, g', Inr ok_status, w') \<and> rp_ok lib (rp\<lparr>cache := c\<rparr>) \<and> get_value g' = Some value \<and>
      vc_version (get_version g') = Some v \<and> same_drives up store w w' \<and>
      (\<forall>i < rp_size rp. getVersionAt g' i = reported_version up store w key (key_connections n key (rp_size rp) 0 ! i))"
proof -
  let ?g = "StripeOperation_GET_new key False n rp True" let ?cs = "key_connections n key (rp_size rp) 0"
  note g = StripeOperation_GET_new_proj [of key False n rp True, unfolded if_True]
  have pos: "0 < nData rp" using ok by (simp add: rp_ok_def)
  have ops: "get_ops ?g = map2 (with_callback key) [] [] @ map (fresh_get False key) ?cs" using g(1) by simp
  have skip: "\<not> skip_value ?g" using g(4) by simp
  have d: "stripe_on_drives up store w key v st ([] @ ?cs)" using drives by simp
  obtain op cbs w1 g1 rmap where
    p: "list_all2 (outcome up store w key) ?cs cbs" "same_drives up store w w1"
      "operations op = map2 (with_callback key) ?cs cbs"
      "g1 = ?g\<lparr>get_so := (get_so ?g)\<lparr>so_op := op\<rparr>,
         get_version := \<lparr>vc_version = (if cb_count OK cbs = 0 then None else Some v), vc_frequency = cb_count OK cbs\<rparr>\<rparr>"
      "op_callbacks (operations op) = cbs"
      "rmap = rmap_update (env_code env) OK id (rmap_of (env_code env) (operations op))"
      "do_execute env lib t rp ?g w = (case evaluate_results lib rmap rp g1 of (rp, g, r) \<Rightarrow> (rp, g, r, w1))"
    by (rule attempt [OF honest codes ops list_all2_Nil [THEN iffD2, OF refl] d skip, unfolded append_Nil g(5)])
      (rule that)
  note counts = outcome_counts [OF p(1)]
  have len: "length cbs = rp_size rp" using list_all2_lengthD [OF p(1)] by simp
  have enough: "nData rp \<le> cb_count OK cbs" using counts(2) lost by (simp add: rp_size_def)
  have g1: "skip_value g1 = False" "get_ops g1 = operations op" "vc_version (get_version g1) = Some v"
    using p(4) g(4) enough pos by simp_all
  have dl: "delivered v st cbs" by (rule outcome_delivered(1) [OF p(1) drives])
  have cbs: "cbs = op_callbacks (get_ops g1)" using g1(2) p(5) by simp
  have "\<exists>c. reconstructValue lib rp g1 = (rp\<lparr>cache := c\<rparr>, g1\<lparr>get_value := Some value\<rparr>, Inr ()) \<and> rp_ok lib (rp\<lparr>cache := c\<rparr>)"
  proof (cases "lost_count cbs = 0")
    case True
    from reconstruct_all [OF ok val g1(3) cbs dl True] ok show ?thesis
      using len st by (intro exI [of _ "cache rp"]) (simp add: rp_size_def)
  next
    case False
    from stored_value_recover [OF ok val g1(3) cbs dl False] show ?thesis
      using counts(1) lost len by (simp add: rp_size_def)
  qed
  then obtain c where c: "reconstructValue lib rp g1 = (rp\<lparr>cache := c\<rparr>, g1\<lparr>get_value := Some value\<rparr>, Inr ())"
    "rp_ok lib (rp\<lparr>cache := c\<rparr>)" by blast
  let ?g' = "g1\<lparr>get_value := Some value\<rparr>"
  have "evaluate_results lib rmap rp g1 = (rp\<lparr>cache := c\<rparr>, ?g', Inr ok_status)"
    unfolding p(6) using attempt_succeeds [OF codes p(1,5)] absent enough g1(1) c(1) by (simp add: numData_def)
  then have x: "GET_execute env lib t rp ?g w = (rp\<lparr>cache := c\<rparr>, ?g', Inr ok_status, w1)"
    using p(7) by (simp add: GET_execute_def attempt_failed_def)
  have "getVersionAt ?g' i = reported_version up store w key (?cs ! i)" if i: "i < rp_size rp" for i
  proof -
    have "outcome up store w key (?cs ! i) (cbs ! i)" using p(1) i len by (simp add: list_all2_conv_all_nth)
    moreover have "the (op_callback (get_ops ?g' ! i)) = cbs ! i" using i len p(3) g1(2) by (simp add: with_callback_def)
    ultimately show ?thesis
      using g1(1) by (auto simp: getVersionAt_def outcome_def reported_version_def stored_version_def getResult_def getRecord_def
          validStatusCode_def status_ok_def Let_def split: if_splits option.splits)
  qed
  with x c(2) g1(3) p(2) show ?thesis by (intro exI [of _ c] exI [of _ ?g'] exI [of _ w1]) simp
qed

section \<open>Writing the missing chunks\<close>

text \<open>The entries of the operation vector of a repair: a chunk that is missing is written on condition
  that the drive has no such key, all other entries count as done.\<close>

definition settled_put :: callback where
  "settled_put = \<lparr>cb_status = ok_status, cb_done = True, cb_data = PutCallback\<rparr>"

definition repair_entry :: "string \<Rightarrow> string \<Rightarrow> (nat \<times> kinetic_record) \<times> bool \<Rightarrow> KineticAsyncOperation" where
  "repair_entry key v e =
     (if snd e then fresh_put key [] REQUIRE_SAME_VERSION (fst e)
      else with_put_callback key v REQUIRE_SAME_VERSION (fst e) settled_put)"

lemma quick_repair_entries:
  fixes p :: StripeOperation_PUT
  assumes ops: "operations op = map (fresh_put key v REQUIRE_SAME_VERSION) crs" "so_key (put_so p) = key" "put_version p = v"
    and vals: "\<And>i. i < length crs \<Longrightarrow> snd (crs ! i) = makeRecord (put_values p ! i) v"
    and vers: "\<And>i. i < length crs \<Longrightarrow> getVersionAt g i = (if need i then Some [] else if low i then None else Some v)" and v: "v \<noteq> []"
  shows "k \<le> length crs \<Longrightarrow> operations (fold (quick_repair_op p g) [0..<k] op) =
    map (\<lambda>i. repair_entry key v (crs ! i, need i)) [0..<k] @ drop k (operations op)"
proof (induction k)
  case 0
  then show ?case by simp
next
  case (Suc k)
  define op1 where "op1 = fold (quick_repair_op p g) [0..<k] op"
  have k: "k < length crs" using Suc.prems by simp
  have op1: "operations op1 = map (\<lambda>i. repair_entry key v (crs ! i, need i)) [0..<k] @ drop k (operations op)"
    using Suc by (simp add: op1_def)
  have at: "operations op1 ! k = fresh_put key v REQUIRE_SAME_VERSION (crs ! k)"
    using k by (simp add: op1 nth_append ops(1))
  have len: "k < length (operations op1)" using k by (simp add: op1 ops(1))
  have "operations (quick_repair_op p g k op1) = (operations op1)[k := repair_entry key v (crs ! k, need k)]"
    using vers [OF k] v vals [OF k] ops(2,3) len
    by (auto simp: quick_repair_op_def Let_def at OnResult_def repair_entry_def with_put_callback_def settled_put_def
        PUT_fillOperation_def bind_operation_def KineticCallback_new_def fresh_put_def fresh_operation_def)
  moreover have "(operations op1)[k := repair_entry key v (crs ! k, need k)] =
      map (\<lambda>i. repair_entry key v (crs ! i, need i)) [0..<Suc k] @ drop (Suc k) (operations op)"
    using k by (simp add: op1 ops(1) list_update_append Cons_nth_drop_Suc [symmetric])
  moreover have "fold (quick_repair_op p g) [0..<Suc k] op = quick_repair_op p g k op1" by (simp add: op1_def)
  ultimately show ?case by (simp only:)
qed

lemma issue_repairs:
  assumes honest: "honest_put env up store"
    and "issue_operations env t (map (repair_entry key v) es) sync w = (os', sync', w')"
    and "distinct (map (fst \<circ> fst) es)"
    and "\<forall>e \<in> set es. snd e \<longrightarrow> up w (fst (fst e)) \<and> store w (fst (fst e)) key = None"
  shows "length os' = length es \<and> (\<forall>cb \<in> set (op_callbacks os'). cb_done cb \<and> cb_status cb = ok_status) \<and>
    written up store key (map fst (filter snd es)) w w'"
  using assms(2-)
proof (induction es arbitrary: sync w os' sync' w')
  case Nil
  then show ?case by (simp add: written_def)
next
  case (Cons e es)
  obtain cr need where e: "e = (cr, need)" by (cases e)
  show ?case
  proof (cases need)
    case False
    then have "cb_done (the (op_callback (repair_entry key v e)))"
      by (simp add: e repair_entry_def with_put_callback_def settled_put_def)
    then show ?thesis
      using Cons False by (auto simp: e finished_def repair_entry_def with_put_callback_def settled_put_def Let_def split: prod.splits)
  next
    case True
    let ?cb = "\<lparr>cb_status = no_result, cb_done = False, cb_data = PutCallback\<rparr>" let ?c = "fst cr"
    have entry: "repair_entry key v e = fresh_put key [] REQUIRE_SAME_VERSION cr" using True by (simp add: e repair_entry_def)
    have up: "up w ?c" "store w ?c key = None" using Cons.prems(3) True e by auto
    obtain er cb s1 w1 where s: "send_request env t ?c (Req_Put key [] REQUIRE_SAME_VERSION (snd cr)) ?cb sync w = ((er, cb, s1), w1)"
      by (metis prod_cases3 surj_pair)
    have acc: "up w ?c \<longrightarrow> version_accepted REQUIRE_SAME_VERSION [] (store w ?c key)"
      using up by (simp add: version_accepted_def stored_version_def)
    have P: "up w1 = up w" "cb_done cb \<and> cb_status cb = ok_status"
      "\<And>d. store w1 d key = (if d = ?c then Some (snd cr) else store w d key)"
      using send_put [OF honest s] acc up by (simp_all add: early_put_outcome_def put_outcome_def)
    define w2 where "w2 = (if er then env_set_error env ?c w1 else w1)"
    have "same_drives up store w1 w2" using honest by (simp add: w2_def honest_put_def)
    then have w2: "up w2 = up w" "store w2 = store w1" using P(1) by (simp_all add: same_drives_def)
    obtain os2 s2 w3 where i: "issue_operations env t (map (repair_entry key v) es) s1 w2 = (os2, s2, w3)"
      by (metis prod_cases3)
    have "\<forall>x \<in> set es. snd x \<longrightarrow> up w2 (fst (fst x)) \<and> store w2 (fst (fst x)) key = None"
    proof (intro ballI impI)
      fix x assume x: "x \<in> set es" "snd x"
      then have "fst (fst x) \<noteq> ?c" using Cons.prems(2) e by (auto simp: image_iff)
      then show "up w2 (fst (fst x)) \<and> store w2 (fst (fst x)) key = None" using x w2 P(3) Cons.prems(3) by simp
    qed
    with Cons.IH [OF i] Cons.prems(2) have IH: "length os2 = length es"
      "\<forall>cb \<in> set (op_callbacks os2). cb_done cb \<and> cb_status cb = ok_status"
      "written up store key (map fst (filter snd es)) w2 w3" by simp_all
    have "os' = with_put_callback key [] REQUIRE_SAME_VERSION cr cb # os2 \<and> w' = w3"
      using issue_step [of "fresh_put key [] REQUIRE_SAME_VERSION cr" env t sync w er cb s1 w1, unfolded fresh_put_proj option.sel,
        OF _ s i [unfolded w2_def]] Cons.prems(1) entry by (simp add: with_put_callback_def)
    moreover have "written up store key (map fst (filter snd (e # es))) w w3"
    proof -
      have notin: "?c \<notin> fst ` set (map fst (filter snd es))" using Cons.prems(2) e by force
      then show ?thesis
        using IH(3) w2 P(3) up True e unfolding written_def by (cases cr) (simp del: set_map, blast)
    qed
    ultimately show ?thesis using IH P(2) by (simp add: with_put_callback_def)
  qed
qed

lemma quick_repair_writes:
  assumes honest: "honest_put env up store" and codes: "codes_ok (env_code env)" and v: "v \<noteq> []"
    and p: "operations (so_op (put_so p)) = map (fresh_put key v REQUIRE_SAME_VERSION) crs" "so_key (put_so p) = key"
      "put_version p = v" "\<And>i. i < length crs \<Longrightarrow> snd (crs ! i) = makeRecord (put_values p ! i) v"
    and dist: "distinct (map fst crs)"
    and vers: "\<And>i. i < length crs \<Longrightarrow> getVersionAt g i = reported_version up store w key (fst (crs ! i))"
    and drives: "\<And>i. i < length crs \<Longrightarrow> up w (fst (crs ! i)) \<Longrightarrow> store w (fst (crs ! i)) key \<in> {None, Some (snd (crs ! i))}"
  shows "\<exists>p' w'. quick_repair env t g p w = (True, p', w') \<and> up w' = up w \<and>
    (\<forall>i < length crs. up w (fst (crs ! i)) \<longrightarrow> store w' (fst (crs ! i)) key = Some (snd (crs ! i)))"
proof -
  let ?op = "so_op (put_so p)"
  define need where "need i \<longleftrightarrow> up w (fst (crs ! i)) \<and> store w (fst (crs ! i)) key = None" for i
  define low where "low i \<longleftrightarrow> \<not> up w (fst (crs ! i))" for i
  define es where "es = map (\<lambda>i. (crs ! i, need i)) [0..<length crs]"
  have vers': "getVersionAt g i = (if need i then Some [] else if low i then None else Some v)" if "i < length crs" for i
    using vers [OF that] drives [OF that] p(4) [OF that]
    by (auto simp: reported_version_def need_def low_def stored_version_def makeRecord_def)
  define op where "op = fold (quick_repair_op p g) [0..<length (operations ?op)] ?op"
  have ops: "operations op = map (repair_entry key v) es"
    using quick_repair_entries [OF p(1-4) vers' v order_refl] by (simp add: op_def p(1) es_def comp_def)
  obtain os1 s1 w1 where i: "issue_operations env t (operations op) (op_sync op) w = (os1, s1, w1)" by (metis prod_cases3)
  have fsts: "map (fst \<circ> fst) es = map fst crs" by (rule nth_equalityI) (simp_all add: es_def)
  have "\<forall>e \<in> set es. snd e \<longrightarrow> up w (fst (fst e)) \<and> store w (fst (fst e)) key = None"
    by (auto simp: es_def need_def)
  with issue_repairs [OF honest i [unfolded ops]] fsts dist have I: "length os1 = length es"
    "\<forall>cb \<in> set (op_callbacks os1). cb_done cb \<and> cb_status cb = ok_status"
    "written up store key (map fst (filter snd es)) w w1" by simp_all
  have x: "executeOperationVector env t op w = (rmap_of (env_code env) os1, op\<lparr>operations := os1, op_sync := s1\<rparr>, w1)"
    using i expire_operations_finished [of os1 s1] I(2) by (simp add: executeOperationVector_def)
  have "count_code OK os1 = length os1"
    unfolding count_code_cb cb_count_def using I(2) by (subst filter_True) (auto simp: getResult_def op_callbacks_def)
  then have q: "quick_repair env t g p w = (True, p\<lparr>put_so := (put_so p)\<lparr>so_op := op\<lparr>operations := os1, op_sync := s1\<rparr>\<rparr>\<rparr>, w1)"
    by (simp add: quick_repair_def Let_def op_def [symmetric] x rmap_of_count [OF codes])
  have "store w1 (fst (crs ! i)) key = Some (snd (crs ! i))" if i: "i < length crs" and u: "up w (fst (crs ! i))" for i
  proof (cases "need i")
    case True
    have sub: "distinct (map fst (map fst (filter snd es)))"
      using dist unfolding fsts [symmetric] by (simp add: distinct_map_filter comp_def)
    have "(crs ! i, True) \<in> set es" using i True by (force simp: es_def)
    then have "crs ! i \<in> set (map fst (filter snd es))" by force
    then have "map_of (map fst (filter snd es)) (fst (crs ! i)) = Some (snd (crs ! i))" "fst (crs ! i) \<in> fst ` set (map fst (filter snd es))"
      using map_of_is_SomeI [OF sub] by (metis prod.collapse, blast)
    then show ?thesis using I(3) u by (simp add: written_def)
  next
    case False
    have "fst (crs ! i) \<notin> fst ` set (map fst (filter snd es))"
    proof
      assume "fst (crs ! i) \<in> fst ` set (map fst (filter snd es))"
      then obtain j where j: "j < length crs" "need j" "fst (crs ! i) = fst (crs ! j)" by (auto simp: es_def)
      then have "i = j" using dist i by (simp add: distinct_conv_nth) (metis nth_map length_map)
      with j(2) False show False by simp
    qed
    then have "store w1 (fst (crs ! i)) key = store w (fst (crs ! i)) key" using I(3) by (simp add: written_def)
    then show ?thesis using drives [OF i u] False u by (auto simp: need_def)
  qed
  with q I(3) show ?thesis by (auto simp: written_def)
qed

lemma version_nonempty: "uuidDecodeSize (Some v) = Inr n \<Longrightarrow> v \<noteq> []"
  by (auto simp: uuidDecodeSize_def split: if_splits)

lemma on_cluster_call:
  "f (kinetic_object (adm_cluster s)) (kinetic_world (adm_cluster s)) = Some (r, cl, w) \<Longrightarrow>
     on_cluster (kc_call f) s = Some (r, s\<lparr>adm_cluster := (adm_cluster s)\<lparr>kinetic_object := cl, kinetic_world := w\<rparr>\<rparr>)"
  by (simp add: on_cluster_def kc_call_def zoom_def)

text \<open>A key of which enough chunks are left.\<close>

definition repairable ::
  "isal \<Rightarrow> ('w \<Rightarrow> nat \<Rightarrow> bool) \<Rightarrow> ('w \<Rightarrow> nat \<Rightarrow> string \<rightharpoonup> kinetic_record) \<Rightarrow> KineticCluster \<Rightarrow> 'w \<Rightarrow> string \<Rightarrow> string \<Rightarrow> string \<Rightarrow> bool" where
  "repairable lib up store cl w key v value \<longleftrightarrow>
     length value \<le> nData (redundancy cl) * chunkCapacity cl \<and> uuidDecodeSize (Some v) = Inr (length value) \<and>
     stripe_on_drives up store w key v (value_stripe lib cl value) (stripe_drives cl key) \<and>
     lost_drives up store w key (stripe_drives cl key) \<le> nParity (redundancy cl) \<and>
     absent_drives up store w key (stripe_drives cl key) < nData (redundancy cl)"

lemma repairKey_writes:
  assumes honest: "honest_get env up store" "honest_put env up store" and codes: "codes_ok (env_code env)"
    and cl: "cluster_ok lib cl" and rep: "repairable lib up store cl w key v value"
    and s: "kinetic_object (adm_cluster s) = cl" "kinetic_world (adm_cluster s) = w"
  shows "\<exists>c w' s'. repairKey env lib key s = Some (Inr (), s') \<and> kinetic_object (adm_cluster s') = cl\<lparr>redundancy := (redundancy cl)\<lparr>cache := c\<rparr>\<rparr> \<and>
    cluster_ok lib (kinetic_object (adm_cluster s')) \<and>
    kinetic_world (adm_cluster s') = w' \<and> adm_counts s' = (adm_counts s)\<lparr>kc_repaired := int_inc (kc_repaired (adm_counts s))\<rparr> \<and>
    adm_pages s' = adm_pages s \<and> up w' = up w \<and>
    (\<forall>i < rp_size (redundancy cl). up w (stripe_drives cl key ! i) \<longrightarrow>
       store w' (stripe_drives cl key ! i) key = Some (makeRecord (value_stripe lib cl value ! i) v))"
proof -
  let ?rp = "redundancy cl" let ?cs = "stripe_drives cl key" let ?st = "value_stripe lib cl value"
  have ok: "rp_ok lib ?rp" and cap: "0 < chunkCapacity cl" "chunkCapacity cl < 2 ^ 31"
    and dist: "distinct ?cs"
    using cl ring_distinct by (auto simp: cluster_ok_def key_connections_ring rp_ok_def rp_size_def)
  have r: "length value \<le> nData ?rp * chunkCapacity cl" "uuidDecodeSize (Some v) = Inr (length value)"
    "stripe_on_drives up store w key v ?st ?cs" "lost_drives up store w key ?cs \<le> nParity ?rp"
    "absent_drives up store w key ?cs < nData ?rp"
    using rep by (simp_all add: repairable_def)
  have val: "stored_value lib ?rp v value ?st"
    using valueToStripe_eq [OF ok cap r(1)] r(2) by (auto simp: stored_value_def)
  obtain c g w1 where g: "GET_execute env lib (operation_timeout cl) ?rp (StripeOperation_GET_new key False (connections cl) ?rp True) w =
      (?rp\<lparr>cache := c\<rparr>, g, Inr ok_status, w1)" "rp_ok lib (?rp\<lparr>cache := c\<rparr>)" "get_value g = Some value"
      "vc_version (get_version g) = Some v" "same_drives up store w w1"
      "\<And>i. i < rp_size ?rp \<Longrightarrow> getVersionAt g i = reported_version up store w key (?cs ! i)"
    using GET_all_recovers [OF honest(1) codes ok val length_value_stripe r(3-5), of "operation_timeout cl"] by blast
  let ?cl = "cl\<lparr>redundancy := ?rp\<lparr>cache := c\<rparr>\<rparr>"
  obtain c2 where c2: "valueToStripe lib ?cl value = (Inr ?st, ?cl\<lparr>redundancy := (redundancy ?cl)\<lparr>cache := c2\<rparr>\<rparr>)"
    "rp_ok lib ((redundancy ?cl)\<lparr>cache := c2\<rparr>)"
    using valueToStripe_eq [of lib ?cl "value"] g(2) cap r(1) by auto
  let ?cl2 = "cl\<lparr>redundancy := ?rp\<lparr>cache := c2\<rparr>\<rparr>"
  have cl2: "?cl\<lparr>redundancy := (redundancy ?cl)\<lparr>cache := c2\<rparr>\<rparr> = ?cl2" by simp
  obtain p where p: "StripeOperation_PUT_new key v v ?st REQUIRE_SAME_VERSION (connections cl) (?rp\<lparr>cache := c2\<rparr>) = Inr p"
    "operations (so_op (put_so p)) = map (fresh_put key v REQUIRE_SAME_VERSION) (stripe_records (connections cl) key v ?st)"
    "so_key (put_so p) = key" "put_version p = v" "put_values p = ?st"
    by (rule PUT_new_proj [of ?st "?rp\<lparr>cache := c2\<rparr>" key v v REQUIRE_SAME_VERSION "connections cl"]) (simp_all add: rp_size_def)
  have crs: "fst (stripe_records (connections cl) key v ?st ! i) = ?cs ! i"
    "snd (stripe_records (connections cl) key v ?st ! i) = makeRecord (?st ! i) v" if "i < rp_size ?rp" for i
    using that by (simp_all add: stripe_records_def)
  have w1: "up w1 = up w" "store w1 = store w" using g(5) by (simp_all add: same_drives_def)
  have "\<exists>p' w'. quick_repair env (operation_timeout cl) g p w1 = (True, p', w') \<and> up w' = up w1 \<and>
    (\<forall>i < length (stripe_records (connections cl) key v ?st). up w1 (fst (stripe_records (connections cl) key v ?st ! i)) \<longrightarrow>
       store w' (fst (stripe_records (connections cl) key v ?st ! i)) key = Some (snd (stripe_records (connections cl) key v ?st ! i)))"
  proof (rule quick_repair_writes [OF honest(2) codes version_nonempty [OF r(2)] p(2-4)])
    show "distinct (map fst (stripe_records (connections cl) key v ?st))" using dist by simp
  qed (use crs p(5) g(6) w1 r(3) in \<open>auto simp: reported_version_def stripe_on_drives_def\<close>)
  then obtain p' w' where q: "quick_repair env (operation_timeout cl) g p w1 = (True, p', w')" "up w' = up w"
    "\<And>i. i < rp_size ?rp \<Longrightarrow> up w (?cs ! i) \<Longrightarrow> store w' (?cs ! i) key = Some (makeRecord (?st ! i) v)"
    using crs w1 by auto
  let ?s1 = "s\<lparr>adm_cluster := (adm_cluster s)\<lparr>kinetic_object := ?cl, kinetic_world := w1\<rparr>\<rparr>"
  let ?s2 = "s\<lparr>adm_cluster := (adm_cluster s)\<lparr>kinetic_object := ?cl2, kinetic_world := w'\<rparr>\<rparr>"
  have e1: "stripe_value env lib key s = Some (Inr (ok_status, g), ?s1)"
    unfolding stripe_value_def by (rule on_cluster_call) (simp add: s g(1))
  have "repair_chunks env lib key v value g ?s1 =
      Some (Inr True, ?s1\<lparr>adm_cluster := (adm_cluster ?s1)\<lparr>kinetic_object := ?cl2, kinetic_world := w'\<rparr>\<rparr>)"
    unfolding repair_chunks_def by (rule on_cluster_call) (use c2(1) p(1) q(1) in \<open>simp add: cl2\<close>)
  then have e2: "repair_chunks env lib key v value g ?s1 = Some (Inr True, ?s2)" by simp
  have "repairKey env lib key s =
      Some (Inr (), ?s2\<lparr>adm_counts := (adm_counts s)\<lparr>kc_repaired := int_inc (kc_repaired (adm_counts s))\<rparr>\<rparr>)"
    by (simp add: repairKey_def e1 e2 g(3,4) tally_def modify_def)
  moreover have "cluster_ok lib ?cl2" using cl c2(2) by (simp add: cluster_ok_def rp_size_def)
  ultimately show ?thesis using q(2,3) by (intro exI [of _ c2] exI [of _ w'] exI) (auto simp: s(1))
qed

section \<open>Scanning a key\<close>

text \<open>Requests for versions, as \<open>honest_get\<close> has it for records.\<close>

definition honest_version ::
  "'w env \<Rightarrow> ('w \<Rightarrow> nat \<Rightarrow> bool) \<Rightarrow> ('w \<Rightarrow> nat \<Rightarrow> string \<rightharpoonup> kinetic_record) \<Rightarrow> bool" where
  "honest_version env up store \<longleftrightarrow>
     (\<forall>w c t k rep w'. env_get_version env c t k w = (rep, w') \<longrightarrow> same_drives up store w w' \<and>
        (if up w c
         then case store w c k of
                Some r \<Rightarrow> rep = Answered True (Inr (rec_version r))
              | None \<Rightarrow> \<exists>m. rep = Answered True (Inl (mk_status REMOTE_NOT_FOUND m))
         else failing rep)) \<and>
     (\<forall>w c. same_drives up store w (env_set_error env c w))"

definition version_answer ::
  "('w \<Rightarrow> nat \<Rightarrow> bool) \<Rightarrow> ('w \<Rightarrow> nat \<Rightarrow> string \<rightharpoonup> kinetic_record) \<Rightarrow> string \<Rightarrow> 'w \<Rightarrow> nat \<Rightarrow> callback \<Rightarrow> bool" where
  "version_answer up store key w c cb \<longleftrightarrow> cb_done cb \<and>
     (if up w c
      then case store w c key of
             Some r \<Rightarrow> cb_status cb = ok_status \<and> cb_data cb = GetVersionCallback (rec_version r)
           | None \<Rightarrow> statusCode (cb_status cb) = REMOTE_NOT_FOUND
      else \<not> validStatusCode (statusCode (cb_status cb)))"

lemma send_version:
  assumes honest: "honest_version env up store"
    and s: "send_request env t c (Req_GetVersion key) \<lparr>cb_status = no_result, cb_done = False, cb_data = GetVersionCallback []\<rparr>
      sync w = ((e, cb, sync'), w')"
  shows "same_drives up store w w' \<and> (version_answer up store key w c cb \<or>
    \<not> cb_done cb \<and> version_answer up store key w c (timed_out cb))"
proof -
  obtain rep where rep: "env_get_version env c t key w = (rep, w')"
    and con: "conclude GetVersionCallback_Success rep \<lparr>cb_status = no_result, cb_done = False, cb_data = GetVersionCallback []\<rparr> sync
      = (e, cb, sync')"
    using s by (cases "env_get_version env c t key w") (auto simp: send_request_def)
  have h: "same_drives up store w w'" "if up w c
         then case store w c key of
                Some r \<Rightarrow> rep = Answered True (Inr (rec_version r))
              | None \<Rightarrow> \<exists>m. rep = Answered True (Inl (mk_status REMOTE_NOT_FOUND m))
         else failing rep"
    using honest rep unfolding honest_version_def by blast+
  show ?thesis
  proof (cases "up w c")
    case True
    then show ?thesis
      using h con by (cases "store w c key") (auto simp: conclude_def GetVersionCallback_Success_def Callback_Failure_def
          OnResult_def version_answer_def)
  next
    case False
    then show ?thesis
      using h con by (auto simp: failing_def conclude_def Callback_Failure_def OnResult_def version_answer_def timed_out_def
          split: if_splits)
  qed
qed

lemma honest_version_error: "honest_version env up store \<Longrightarrow> same_drives up store w (env_set_error env c w)"
  by (simp add: honest_version_def)

lemma version_answer_same: "same_drives up store w w1 \<Longrightarrow> version_answer up store key w1 = version_answer up store key w"
  by (simp add: version_answer_def same_drives_def fun_eq_iff)

interpretation versions: drive_request env "Req_GetVersion key" "GetVersionCallback []"
  "\<lambda>w w'. honest_version env up store \<longrightarrow> same_drives up store w w'"
  "\<lambda>w c cb. cb_done cb \<and> (honest_version env up store \<longrightarrow> version_answer up store key w c cb)"
proof
  fix t c sync w e cb sync' w'
  assume "send_request env t c (Req_GetVersion key) \<lparr>cb_status = no_result, cb_done = False, cb_data = GetVersionCallback []\<rparr>
    sync w = ((e, cb, sync'), w')"
  from send_version [OF _ this, of up store] show "(honest_version env up store \<longrightarrow> same_drives up store w w') \<and>
    (cb_done cb \<and> (honest_version env up store \<longrightarrow> version_answer up store key w c cb) \<or>
     \<not> cb_done cb \<and> cb_done (timed_out cb) \<and> (honest_version env up store \<longrightarrow> version_answer up store key w c (timed_out cb)))"
    by (auto simp: version_answer_def timed_out_def)
next
  fix w w1 w2
  show "honest_version env up store \<longrightarrow> same_drives up store w w1 \<Longrightarrow> honest_version env up store \<longrightarrow> same_drives up store w1 w2
    \<Longrightarrow> honest_version env up store \<longrightarrow> same_drives up store w w2"
    by (simp add: same_drives_def)
next
  fix w w1
  assume "honest_version env up store \<longrightarrow> same_drives up store w w1"
  then show "(\<lambda>c cb. cb_done cb \<and> (honest_version env up store \<longrightarrow> version_answer up store key w1 c cb)) =
      (\<lambda>c cb. cb_done cb \<and> (honest_version env up store \<longrightarrow> version_answer up store key w c cb))"
    using version_answer_same [of up store w w1 key] by (cases "honest_version env up store") simp_all
qed (simp_all add: honest_version_error)

text \<open>What one answer says, when all stored chunks have the same version.\<close>

lemma version_answer_facts:
  assumes "version_answer up store key w c cb" and "\<And>r. up w c \<Longrightarrow> store w c key = Some r \<Longrightarrow> rec_version r = v"
  shows "statusCode (getResult cb) = OK \<longleftrightarrow> up w c \<and> store w c key \<noteq> None"
    "statusCode (getResult cb) = REMOTE_NOT_FOUND \<longleftrightarrow> up w c \<and> store w c key = None"
    "version_of True cb = (if up w c \<and> store w c key \<noteq> None then Some v else None)"
  using assms
  by (auto simp: version_answer_def getResult_def validStatusCode_def version_of_def status_ok_def cb_getVersion_def
      split: if_splits option.splits)

lemma version_counts:
  assumes "list_all2 (version_answer up store key w) cs cbs"
    and "\<And>c r. c \<in> set cs \<Longrightarrow> up w c \<Longrightarrow> store w c key = Some r \<Longrightarrow> rec_version r = v"
  shows "cb_count OK cbs + lost_drives up store w key cs = length cs \<and>
    cb_count REMOTE_NOT_FOUND cbs = absent_drives up store w key cs \<and>
    version_count True cbs v = cb_count OK cbs \<and> (\<forall>x. x \<noteq> v \<longrightarrow> version_count True cbs x = 0)"
  using assms
proof (induction cs cbs rule: list_all2_induct)
  case Nil
  then show ?case by (simp add: cb_count_def lost_drives_def absent_drives_def version_count_def)
next
  case (Cons c cs cb cbs)
  have "rec_version r = v" if "up w c" "store w c key = Some r" for r using Cons.prems [of c r] that by simp
  note F = version_answer_facts [OF Cons.hyps(1) this]
  have "rec_version r = v" if "c' \<in> set cs" "up w c'" "store w c' key = Some r" for c' r
    using Cons.prems [of c' r] that by simp
  note IH = Cons.IH [OF this]
  show ?case
    using IH by (simp add: cb_count_def lost_drives_def absent_drives_def version_count_def F)
qed

lemma lost_split: "lost_drives up store w key cs = down_drives up w cs + absent_drives up store w key cs"
  by (induction cs) (simp_all add: lost_drives_def down_drives_def absent_drives_def)

lemma scanKey_verdict:
  assumes honest: "honest_version env up store" and codes: "codes_ok (env_code env)" and cl: "cluster_ok lib cl"
    and drives: "stripe_on_drives up store w key v st (stripe_drives cl key)"
    and lost: "lost_drives up store w key (stripe_drives cl key) \<le> nParity (redundancy cl)"
    and s: "kinetic_object (adm_cluster s) = cl" "kinetic_world (adm_cluster s) = w"
  shows "\<exists>w'. same_drives up store w w' \<and> scanKey env key s =
    Some (Inr (0 < absent_drives up store w key (stripe_drives cl key)),
      s\<lparr>adm_cluster := (adm_cluster s)\<lparr>kinetic_world := w'\<rparr>,
        adm_counts := (adm_counts s)
          \<lparr>kc_incomplete := if 0 < down_drives up w (stripe_drives cl key) then int_inc (kc_incomplete (adm_counts s))
              else kc_incomplete (adm_counts s),
           kc_need_action := if 0 < absent_drives up store w key (stripe_drives cl key)
              then int_inc (kc_need_action (adm_counts s)) else kc_need_action (adm_counts s)\<rparr>\<rparr>)"
proof -
  let ?cs = "stripe_drives cl key" let ?rp = "redundancy cl"
  let ?g = "StripeOperation_GET_new key True (connections cl) ?rp True"
  note g = StripeOperation_GET_new_proj [of key True "connections cl" ?rp True, unfolded if_True]
  obtain rmap op w' where x: "executeOperationVector env (operation_timeout cl) (so_op (get_so ?g)) w = (rmap, op, w')"
    by (metis prod_cases3)
  have fresh: "get_ops ?g = map (fresh_operation (Req_GetVersion key) (GetVersionCallback [])) ?cs"
    using g(1) by (simp add: fresh_get_def get_request_def get_callback_def)
  obtain cbs where c: "operations op = map2 (answered_operation (Req_GetVersion key) (GetVersionCallback [])) ?cs cbs"
    "list_all2 (\<lambda>c cb. cb_done cb \<and> (honest_version env up store \<longrightarrow> version_answer up store key w c cb)) ?cs cbs"
    "honest_version env up store \<longrightarrow> same_drives up store w w'" "rmap = rmap_of (env_code env) (operations op)"
    using versions.execute_requests [OF fresh x, where up = up and store = store] by blast
  have all: "list_all2 (version_answer up store key w) ?cs cbs" using c(2) honest by (auto elim: list_all2_mono)
  have cbs: "op_callbacks (operations op) = cbs"
    using list_all2_lengthD [OF all] by (simp add: c(1) op_callbacks_answered)
  have "rec_version r = v" if c: "c \<in> set ?cs" "up w c" "store w c key = Some r" for c r
  proof -
    obtain i where "i < length ?cs" "?cs ! i = c" using c(1) by (meson in_set_conv_nth)
    with drives c(2,3) show ?thesis unfolding stripe_on_drives_def by (force simp: makeRecord_def)
  qed
  from version_counts [OF all this] have counts: "cb_count OK cbs + lost_drives up store w key ?cs = length ?cs"
    "cb_count REMOTE_NOT_FOUND cbs = absent_drives up store w key ?cs" "version_count True cbs v = cb_count OK cbs"
    "\<And>x. x \<noteq> v \<Longrightarrow> version_count True cbs x = 0" by simp_all
  define getV where "getV = ?g\<lparr>get_so := (get_so ?g)\<lparr>so_op := op\<rparr>\<rparr>"
  have getV: "skip_value getV" "op_callbacks (get_ops getV) = cbs" using g(4) cbs by (simp_all add: getV_def)
  have ok: "0 < nData ?rp" "nData ?rp \<le> cb_count OK cbs"
    using cl counts(1) lost by (simp_all add: cluster_ok_def rp_ok_def rp_size_def)
  have freq: "vc_frequency (mostFrequentVersion getV) = cb_count OK cbs"
    using mostFrequentVersion_spec(1) [of getV v] mostFrequentVersion_spec(2) [of getV] counts(3,4) ok getV by fastforce
  have maps: "rmap_get (env_code env) rmap OK = cb_count OK cbs"
    "rmap_get (env_code env) rmap REMOTE_NOT_FOUND = absent_drives up store w key ?cs"
    using rmap_of_count [OF codes] counts(2) by (simp_all add: c(4) count_code_cb cbs)
  have valid: "cb_count OK cbs + absent_drives up store w key ?cs < rp_size ?rp \<longleftrightarrow> 0 < down_drives up w ?cs"
    using counts(1) lost_split [of up store w key ?cs] by simp linarith
  let ?s1 = "s\<lparr>adm_cluster := (adm_cluster s)\<lparr>kinetic_world := w'\<rparr>\<rparr>"
  have "stripe_versions env key s = Some (Inr (rmap, getV), ?s1)"
    using s x by (simp add: stripe_versions_def with_world_eq getV_def Let_def)
  then have "scanKey env key s = Some (Inr (0 < absent_drives up store w key ?cs),
      s\<lparr>adm_cluster := (adm_cluster s)\<lparr>kinetic_world := w'\<rparr>,
        adm_counts := (adm_counts s)
          \<lparr>kc_incomplete := if 0 < down_drives up w ?cs then int_inc (kc_incomplete (adm_counts s)) else kc_incomplete (adm_counts s),
           kc_need_action := if 0 < absent_drives up store w key ?cs
              then int_inc (kc_need_action (adm_counts s)) else kc_need_action (adm_counts s)\<rparr>\<rparr>)"
    using s ok by (simp add: scanKey_def the_redundancy_def Let_def maps freq valid numData_def tally_def ret_def)
  then show ?thesis using c(3) honest by blast
qed

section \<open>Property\<close>

text \<open>C3: Repairing restores a key. When the drives of a key that are up hold their chunk of the value
  or have lost it, and enough chunks are left, a scan asks for action exactly when a drive that is up has
  no chunk, and counts the key as incomplete exactly when a drive is down. The repair then succeeds: it
  is counted once, every drive that is up holds its chunk with the old version again, and a second scan
  asks for nothing and finds no key that cannot be repaired.\<close>

theorem repair_restores:
  assumes "honest_get env up store" and "honest_put env up store" and "honest_version env up store"
    and "codes_ok (env_code env)" and "cluster_ok lib cl" and "repairable lib up store cl w key v value"
    and "kinetic_object (adm_cluster s) = cl" and "kinetic_world (adm_cluster s) = w"
  shows "\<exists>s1 s2 s3. scanKey env key s = Some (Inr (0 < absent_drives up store w key (stripe_drives cl key)), s1) \<and>
    (kc_incomplete (adm_counts s1) = (if 0 < down_drives up w (stripe_drives cl key)
       then int_inc (kc_incomplete (adm_counts s)) else kc_incomplete (adm_counts s))) \<and>
    repairKey env lib key s1 = Some (Inr (), s2) \<and>
    (\<forall>i < rp_size (redundancy cl). up w (stripe_drives cl key ! i) \<longrightarrow>
       store (kinetic_world (adm_cluster s2)) (stripe_drives cl key ! i) key = Some (makeRecord (value_stripe lib cl value ! i) v)) \<and>
    scanKey env key s2 = Some (Inr False, s3) \<and>
    kc_repaired (adm_counts s3) = int_inc (kc_repaired (adm_counts s)) \<and>
    kc_unrepairable (adm_counts s3) = kc_unrepairable (adm_counts s)"
proof -
  let ?cs = "stripe_drives cl key" let ?st = "value_stripe lib cl value"
  have r: "stripe_on_drives up store w key v ?st ?cs" "lost_drives up store w key ?cs \<le> nParity (redundancy cl)"
    using assms(6) by (simp_all add: repairable_def)
  obtain w1 s1 where s1: "same_drives up store w w1" "scanKey env key s = Some (Inr (0 < absent_drives up store w key ?cs), s1)"
    "kinetic_object (adm_cluster s1) = cl" "kinetic_world (adm_cluster s1) = w1"
    "kc_incomplete (adm_counts s1) = (if 0 < down_drives up w ?cs then int_inc (kc_incomplete (adm_counts s)) else kc_incomplete (adm_counts s))"
    "kc_repaired (adm_counts s1) = kc_repaired (adm_counts s)" "kc_unrepairable (adm_counts s1) = kc_unrepairable (adm_counts s)"
    using scanKey_verdict [OF assms(3-5) r assms(7,8)] assms(7) by fastforce
  have "repairable lib up store cl w1 key v value"
    using assms(6) by (simp add: repairable_def drives_same [OF s1(1)])
  from repairKey_writes [OF assms(1,2,4,5) this s1(3,4)] obtain c w2 s2 where
    s2: "repairKey env lib key s1 = Some (Inr (), s2)" "kinetic_object (adm_cluster s2) = cl\<lparr>redundancy := (redundancy cl)\<lparr>cache := c\<rparr>\<rparr>"
    "cluster_ok lib (kinetic_object (adm_cluster s2))" "kinetic_world (adm_cluster s2) = w2" "up w2 = up w"
    "adm_counts s2 = (adm_counts s1)\<lparr>kc_repaired := int_inc (kc_repaired (adm_counts s1))\<rparr>"
    "\<And>i. i < rp_size (redundancy cl) \<Longrightarrow> up w (?cs ! i) \<Longrightarrow> store w2 (?cs ! i) key = Some (makeRecord (?st ! i) v)"
    using s1(1) by (auto simp: same_drives_def)
  let ?cl = "kinetic_object (adm_cluster s2)"
  have cs: "stripe_drives ?cl key = ?cs" "nParity (redundancy ?cl) = nParity (redundancy cl)" by (simp_all add: s2(2) rp_size_def)
  have on: "stripe_on_drives up store w2 key v ?st ?cs" using s2(5,7) by (auto simp: stripe_on_drives_def)
  have none: "absent_drives up store w2 key ?cs = 0"
    using s2(5,7) by (auto simp: absent_drives_def filter_empty_conv in_set_conv_nth)
  have "down_drives up w2 ?cs = down_drives up w ?cs" by (simp add: down_drives_def s2(5))
  then have "lost_drives up store w2 key ?cs \<le> nParity (redundancy cl)"
    using r(2) none unfolding lost_split by simp
  with scanKey_verdict [OF assms(3,4) s2(3), of w2 key v ?st s2] on none cs s2(4) obtain s3 where
    s3: "scanKey env key s2 = Some (Inr False, s3)" "kc_repaired (adm_counts s3) = kc_repaired (adm_counts s2)"
      "kc_unrepairable (adm_counts s3) = kc_unrepairable (adm_counts s2)" by fastforce
  show ?thesis
    by (rule exI [of _ s1], rule exI [of _ s2], rule exI [of _ s3])
      (use s1 s2 s3 in simp)
qed

lemma sim_honest_version: "honest_version sim_env sim_up sim_records"
  by (auto simp: honest_version_def sim_env_def sim_get_version_def same_drives_def failing_def split: option.splits if_splits)

text \<open>The second of three chunks is lost.\<close>

definition repair_demo_version :: string where
  "repair_demo_version = uuidGenerateEncodeSize (replicate 36 (CHR ''u'')) 5"

definition repair_demo_stripe :: "string list" where
  "repair_demo_stripe = value_stripe sum_lib demo_cluster ''hello''"

definition repair_demo_state :: "sim admin_state" where
  "repair_demo_state =
     \<lparr>adm_cluster = \<lparr>kinetic_object = demo_cluster,
        kinetic_world = (sim_init [])\<lparr>sim_store := (\<lambda>c. if c = 1 \<or> c = 3
          then [(''key'', makeRecord (repair_demo_stripe ! (c - 1)) repair_demo_version)] else [])\<rparr>,
        updates_pending = 0\<rparr>,
      adm_counts = KeyCountsInternal_new, adm_pages = []\<rparr>"

lemma repair_demo_repairable:
  "repairable sum_lib sim_up sim_records demo_cluster (kinetic_world (adm_cluster repair_demo_state)) ''key''
     repair_demo_version ''hello''"
proof -
  have "uuidDecodeSize (Some repair_demo_version) = Inr (length ''hello'')"
    unfolding repair_demo_version_def by code_simp
  moreover have "stripe_on_drives sim_up sim_records (kinetic_world (adm_cluster repair_demo_state)) ''key'' repair_demo_version
      repair_demo_stripe [1, 2, 3]"
    by (simp add: stripe_on_drives_def repair_demo_state_def sim_init_def less_Suc_eq numeral_3_eq_3)
  ultimately show ?thesis
    by (simp add: repairable_def demo_drives repair_demo_stripe_def [symmetric])
      (simp add: lost_drives_def absent_drives_def repair_demo_state_def sim_init_def)
qed

theorem repair_restores_witness:
  "\<exists>s1 s2. scanKey sim_env ''key'' repair_demo_state = Some (Inr True, s1) \<and> repairKey sim_env sum_lib ''key'' s1 = Some (Inr (), s2) \<and>
     sim_records (kinetic_world (adm_cluster s2)) 2 ''key'' = Some (makeRecord (repair_demo_stripe ! 1) repair_demo_version)"
proof -
  let ?w = "kinetic_world (adm_cluster repair_demo_state)"
  have up: "sim_up ?w c" for c by (simp add: repair_demo_state_def sim_init_def)
  have a: "absent_drives sim_up sim_records ?w ''key'' (stripe_drives demo_cluster ''key'') = 1"
    by (simp add: demo_drives) (simp add: absent_drives_def repair_demo_state_def sim_init_def)
  obtain s1 s2 where "scanKey sim_env ''key'' repair_demo_state =
      Some (Inr (0 < absent_drives sim_up sim_records ?w ''key'' (stripe_drives demo_cluster ''key'')), s1)"
    "repairKey sim_env sum_lib ''key'' s1 = Some (Inr (), s2)"
    "\<And>i. i < rp_size (redundancy demo_cluster) \<Longrightarrow> sim_up ?w (stripe_drives demo_cluster ''key'' ! i) \<Longrightarrow>
       sim_records (kinetic_world (adm_cluster s2)) (stripe_drives demo_cluster ''key'' ! i) ''key'' =
         Some (makeRecord (value_stripe sum_lib demo_cluster ''hello'' ! i) repair_demo_version)"
    using repair_restores [OF sim_honest_get sim_honest_put sim_honest_version sim_codes demo_cluster_ok repair_demo_repairable, of repair_demo_state]
    by (auto simp: repair_demo_state_def)
  from this(1,2) this(3) [of 1] show ?thesis
    using up a by (auto simp: demo_drives repair_demo_stripe_def)
qed

end
