(* ===== verification/Admin_Accounting.thy ===== *)
theory Admin_Accounting
  imports Admin_Storage
begin

text \<open>
  The counters of a reset: every key of every page is counted once, as removed or as not repairable,
  whichever thread processes the page.
\<close>

section \<open>Relations between the states before and after\<close>

text \<open>A program satisfies a relation when every run that ends relates the states before and after and
  the result.\<close>

definition runs :: "('s, 'a) kio \<Rightarrow> ('s \<Rightarrow> 'a res \<Rightarrow> 's \<Rightarrow> bool) \<Rightarrow> bool" where
  "runs m R \<longleftrightarrow> (\<forall>s r s'. m s = Some (r, s') \<longrightarrow> R s r s')"

definition same_counts :: "'w admin_state \<Rightarrow> 'a res \<Rightarrow> 'w admin_state \<Rightarrow> bool" where
  "same_counts s r s' \<longleftrightarrow> adm_counts s' = adm_counts s \<and> adm_pages s' = adm_pages s"

lemma runsI: "(\<And>s r s'. m s = Some (r, s') \<Longrightarrow> R s r s') \<Longrightarrow> runs m R"
  by (simp add: runs_def)

lemma runsD: "runs m R \<Longrightarrow> m s = Some (r, s') \<Longrightarrow> R s r s'"
  by (simp add: runs_def)

lemma runs_bnd_same:
  assumes "runs m same_counts" and "\<And>x. runs (f x) same_counts"
  shows "runs (bnd m f) same_counts"
proof (rule runsI, erule bnd_eq_SomeE)
  fix s r s' x s1 assume "m s = Some (Inr x, s1)" "f x s1 = Some (r, s')"
  then show "same_counts s r s'" using runsD [OF assms(1)] runsD [OF assms(2)] by (fastforce simp: same_counts_def)
next
  fix s r s' e assume "m s = Some (Inl e, s')" "r = Inl e"
  then show "same_counts s r s'" using runsD [OF assms(1)] by (fastforce simp: same_counts_def)
qed

lemma runs_seq_same: "runs m same_counts \<Longrightarrow> runs n same_counts \<Longrightarrow> runs (seq m n) same_counts"
  unfolding seq_def by (rule runs_bnd_same)

lemma runs_prim_same [simp]:
  "runs (ret x) same_counts" "runs (throw e) same_counts" "runs (asks f) same_counts" "runs (on_cluster m) same_counts"
  "runs (with_world g) same_counts"
  by (auto simp: runs_def same_counts_def ret_def throw_def asks_def on_cluster_def with_world_def zoom_def)

lemma runs_for_each_same: "(\<And>x. runs (f x) same_counts) \<Longrightarrow> runs (for_each f xs) same_counts"
  by (induction xs) (simp_all add: runs_seq_same)

lemma removeIndicatorKey_same: "runs (removeIndicatorKey env key) same_counts"
  by (auto simp: removeIndicatorKey_def handoff_range_def remove_everywhere_def
      intro!: runs_bnd_same runs_seq_same runs_for_each_same)

section \<open>Counting the keys of a page\<close>

text \<open>\<open>settled n\<close>: the sum of removed and not repairable keys has grown by \<open>n\<close>, as 32 bit integers, and
  nothing else has changed.\<close>

definition settled_keys :: "KeyCounts \<Rightarrow> 32 word" where
  "settled_keys k = word_of_int (kc_removed k + kc_unrepairable k)"

definition idle_counts :: "KeyCounts \<Rightarrow> int \<times> int \<times> int" where
  "idle_counts k = (kc_incomplete k, kc_need_action k, kc_repaired k)"

definition grown :: "nat \<Rightarrow> 'w admin_state \<Rightarrow> 'w admin_state \<Rightarrow> bool" where
  "grown n s s' \<longleftrightarrow> settled_keys (adm_counts s') = settled_keys (adm_counts s) + of_nat n \<and>
     idle_counts (adm_counts s') = idle_counts (adm_counts s) \<and> kc_total (adm_counts s') = kc_total (adm_counts s)"

lemma grown_trans: "grown m s s1 \<Longrightarrow> grown n s1 s2 \<Longrightarrow> grown (m + n) s s2"
  by (simp add: grown_def add.assoc)

lemma grown_tally:
  "grown 1 s (s\<lparr>adm_counts := (adm_counts s)\<lparr>kc_removed := int_inc (kc_removed (adm_counts s))\<rparr>\<rparr>)"
  "grown 1 s (s\<lparr>adm_counts := (adm_counts s)\<lparr>kc_unrepairable := int_inc (kc_unrepairable (adm_counts s))\<rparr>\<rparr>)"
  by (simp_all add: grown_def settled_keys_def idle_counts_def int_inc_def to_int32_def algebra_simps)

lemma reset_key:
  "runs (applyOperation_key env lib RESET t key)
     (\<lambda>s r s'. adm_pages s' = adm_pages s \<and> (case r of Inl e \<Rightarrow> adm_counts s' = adm_counts s | Inr _ \<Rightarrow> grown 1 s s'))"
proof -
  let ?m = "if t = INDICATOR
               then bnd (removeIndicatorKey env key) (\<lambda>removed.
                 if removed then ret () else throw (System_error io_error))
               else bnd (on_cluster (kc_call_const (\<lambda>cl. remove_forced env cl (Some key)))) (\<lambda>rmstatus.
                 if status_ok rmstatus then ret () else throw (System_error io_error))"
  have m: "runs ?m same_counts" by (auto intro!: runs_bnd_same removeIndicatorKey_same)
  show ?thesis
  proof (rule runsI)
    fix s r s' assume "applyOperation_key env lib RESET t key s = Some (r, s')"
    then have "seq ?m (tally (\<lambda>k. k\<lparr>kc_removed := int_inc (kc_removed k)\<rparr>)) s = Some (r, s')"
      by (simp add: applyOperation_key_def)
    then show "adm_pages s' = adm_pages s \<and> (case r of Inl e \<Rightarrow> adm_counts s' = adm_counts s | Inr _ \<Rightarrow> grown 1 s s')"
    proof (cases rule: seq_eq_SomeE)
      case (normal x s1)
      have "adm_counts s1 = adm_counts s" "adm_pages s1 = adm_pages s"
        using runsD [OF m normal(1)] by (simp_all add: same_counts_def)
      with normal(2) grown_tally(1) [of s1] show ?thesis
        by (auto simp: tally_def modify_def grown_def)
    next
      case (exn e)
      then show ?thesis using runsD [OF m exn(1)] by (simp add: same_counts_def)
    qed
  qed
qed

lemma reset_key_caught:
  assumes "catch (applyOperation_key env lib RESET t key)
    (\<lambda>e. if e = Undefined_behaviour then throw e
          else tally (\<lambda>k. k\<lparr>kc_unrepairable := int_inc (kc_unrepairable k)\<rparr>)) s = Some (x, s1)"
  shows "adm_pages s1 = adm_pages s \<and> (case x of Inl e \<Rightarrow> e = Undefined_behaviour | Inr _ \<Rightarrow> grown 1 s s1)"
proof -
  obtain r s2 where k: "applyOperation_key env lib RESET t key s = Some (r, s2)"
    using assms by (auto simp: catch_def bind_eq_Some_conv)
  note R = runsD [OF reset_key k]
  show ?thesis
  proof (cases r)
    case (Inr u)
    then show ?thesis using assms k R by (auto simp: catch_def)
  next
    case (Inl e)
    then have "adm_counts s2 = adm_counts s" using R by simp
    then have "grown 1 s (s2\<lparr>adm_counts := (adm_counts s2)\<lparr>kc_unrepairable := int_inc (kc_unrepairable (adm_counts s2))\<rparr>\<rparr>)"
      using grown_tally(2) [of s2] by (simp add: grown_def)
    then show ?thesis using assms k R Inl by (auto simp: catch_def throw_def tally_def modify_def split: if_splits)
  qed
qed

lemma reset_page:
  assumes "t \<noteq> INDICATOR" and "applyOperation env lib RESET t keys s = Some (r, s')"
  shows "adm_pages s' = adm_pages s \<and> (case r of Inl e \<Rightarrow> e = Undefined_behaviour | Inr _ \<Rightarrow> grown (length keys) s s')"
  using assms(2)
proof (induction keys arbitrary: s)
  case Nil
  then show ?case by (auto simp: applyOperation_def ret_def grown_def)
next
  case (Cons key keys)
  let ?h = "\<lambda>e. if e = Undefined_behaviour then throw e else tally (\<lambda>k. k\<lparr>kc_unrepairable := int_inc (kc_unrepairable k)\<rparr>)"
  have "seq (catch (applyOperation_key env lib RESET t key) ?h) (applyOperation env lib RESET t keys) s = Some (r, s')"
    using Cons.prems assms(1) by (simp add: applyOperation_def lift_res_def seq_def bnd_def fun_eq_iff)
  then show ?case
  proof (cases rule: seq_eq_SomeE)
    case (normal x s1)
    then have "adm_pages s1 = adm_pages s" "grown 1 s s1" using reset_key_caught [of env lib t key s "Inr x" s1] by auto
    with Cons.IH [OF normal(2)] grown_trans [of 1 s s1 "length keys" s'] show ?thesis by (auto split: sum.splits)
  next
    case (exn e)
    then show ?thesis using reset_key_caught [of env lib t key s "Inl e" s'] by auto
  qed
qed

section \<open>The pages in the queue\<close>

definition queued_keys :: "'w admin_state \<Rightarrow> nat" where
  "queued_keys s = sum_list (map length (adm_pages s))"

text \<open>Every key that was counted is settled, or waits in the queue, or is one of the \<open>n\<close> keys at hand.\<close>

definition owing :: "nat \<Rightarrow> 'w admin_state \<Rightarrow> bool" where
  "owing n s \<longleftrightarrow> settled_keys (adm_counts s) + of_nat (queued_keys s) + of_nat n = word_of_int (kc_total (adm_counts s)) \<and>
     to_int32 (kc_total (adm_counts s)) = kc_total (adm_counts s) \<and> idle_counts (adm_counts s) = (0, 0, 0)"

lemma owing_page:
  assumes "t \<noteq> INDICATOR" and "applyOperation env lib RESET t keys s = Some (Inr u, s')" and "owing (length keys + n) s"
  shows "owing n s'"
  using reset_page [OF assms(1,2)] assms(3) by (simp add: owing_def grown_def queued_keys_def add_ac)

lemma process_page_owing:
  assumes "t \<noteq> INDICATOR" and "process_page env lib RESET t s = Some (Inr u, s')" and "owing n s"
  shows "owing n s' \<and> adm_pages s' = tl (adm_pages s)"
proof (cases "adm_pages s")
  case Nil
  then show ?thesis using assms(2,3) by (simp add: process_page_def ret_def)
next
  case (Cons page rest)
  let ?s = "s\<lparr>adm_pages := rest\<rparr>"
  have c: "catch (applyOperation env lib RESET t page) (\<lambda>e. if e = Undefined_behaviour then throw e else ret ()) ?s = Some (Inr u, s')"
    using assms(2) Cons by (simp add: process_page_def)
  then obtain r s1 where a: "applyOperation env lib RESET t page ?s = Some (r, s1)"
    by (auto simp: catch_def bind_eq_Some_conv)
  note P = reset_page [OF assms(1) a]
  obtain v where r: "r = Inr v" using P c a by (cases r) (auto simp: catch_def throw_def)
  have "s' = s1" using c a r by (simp add: catch_def)
  moreover have "owing (length page + n) ?s" using assms(3) Cons by (simp add: owing_def queued_keys_def add_ac)
  ultimately show ?thesis using owing_page [OF assms(1)] a r P Cons by auto
qed

lemma process_pages_owing:
  assumes "t \<noteq> INDICATOR" and "process_pages env lib RESET t k s = Some (Inr u, s')" and "owing n s"
  shows "owing n s' \<and> adm_pages s' = drop k (adm_pages s)"
  using assms(2,3)
proof (induction k arbitrary: s)
  case (Suc k)
  from Suc.prems(1) have "seq (process_page env lib RESET t) (process_pages env lib RESET t k) s = Some (Inr u, s')" by simp
  then obtain x s1 where "process_page env lib RESET t s = Some (Inr x, s1)" "process_pages env lib RESET t k s1 = Some (Inr u, s')"
    by (cases rule: seq_eq_SomeE) auto
  then show ?case using Suc process_page_owing [OF assms(1)] by (metis drop_Suc)
qed (simp add: ret_def)

lemma run_page_owing:
  assumes "t \<noteq> INDICATOR" and "run_page env lib sched nt RESET t page s = Some (Inr u, s')" and "owing (length page) s"
  shows "owing 0 s'"
proof (cases "nt = 0")
  case True
  then show ?thesis using assms owing_page [of t env lib page s u s' 0] by (simp add: run_page_def)
next
  case False
  let ?s = "s\<lparr>adm_pages := adm_pages s @ [page]\<rparr>"
  have "owing 0 ?s" using assms(3) by (simp add: owing_def queued_keys_def add_ac)
  then show ?thesis
    using assms(2) False by (simp add: run_page_def) (metis process_pages_owing [OF assms(1)])
qed

lemma pass_owing:
  assumes "t \<noteq> INDICATOR" and "doOperation_pass env lib sched RESET t cb nt start e ks s = Some (Inr r, s')" and "owing 0 s"
  shows "owing 0 s'"
proof -
  obtain st keys s1 where w: "with_world (\<lambda>cl w. case cluster_range env cl (Some start) (Some e) ks 0 w of (st, keys, w) \<Rightarrow> ((st, keys), w)) s =
      Some (Inr (st, keys), s1)"
    by (cases "cluster_range env (kinetic_object (adm_cluster s)) (Some start) (Some e) ks 0 (kinetic_world (adm_cluster s))")
      (simp add: with_world_def on_cluster_def zoom_def kc_call_const_def)
  have s1: "owing 0 s1"
    using runsD [OF runs_prim_same(5) w] assms(3) by (simp add: same_counts_def owing_def queued_keys_def)
  define page where "page = (case keys of None \<Rightarrow> [] | Some ks \<Rightarrow> ks)"
  show ?thesis
  proof (cases "status_ok st \<and> page \<noteq> []")
    case False
    then show ?thesis
      using assms(2) s1 w by (auto simp: doOperation_pass_def page_def [symmetric] Let_def ret_def split: if_splits)
  next
    case True
    let ?s2 = "s1\<lparr>adm_counts := (adm_counts s1)\<lparr>kc_total := to_int32 (kc_total (adm_counts s1) + int (length page))\<rparr>\<rparr>"
    have keys: "keys = Some page" using True by (auto simp: page_def split: option.splits)
    have s2: "owing (length page) ?s2"
      using s1 by (simp add: owing_def queued_keys_def settled_keys_def idle_counts_def to_int32_def algebra_simps)
    let ?k = "bnd (asks (\<lambda>s. kc_total (adm_counts s))) (\<lambda>total.
        if (case cb of None \<Rightarrow> False | Some f \<Rightarrow> \<not> f total) then ret (False, last page @ [CHR 0x00], keys)
        else ret (True, last page @ [CHR 0x00], keys))"
    have "seq (run_page env lib sched nt RESET t page) ?k ?s2 = Some (Inr r, s')"
      using assms(2) True w keys by (simp add: doOperation_pass_def Let_def tally_def seq_def cong: if_cong)
    then obtain x s3 where "run_page env lib sched nt RESET t page ?s2 = Some (Inr x, s3)" "?k s3 = Some (Inr r, s')"
      by (cases rule: seq_eq_SomeE) auto
    then show ?thesis using run_page_owing [OF assms(1) _ s2] by (auto simp: ret_def split: if_splits)
  qed
qed

lemma loop_owing:
  assumes "t \<noteq> INDICATOR" and "doOperation_loop env lib sched RESET t cb nt start e ks s = Some (Inr u, s')" and "owing 0 s"
  shows "owing 0 s'"
proof -
  have "owing 0 (snd y)" if "doOperation_loop env lib sched op t' cb nt start e ks s = Some y"
    and "op = RESET" "t' = t" "fst y = Inr ()" "owing 0 s" for env lib sched op t' cb nt start e ks s y
    using that
  proof (induction rule: doOperation_loop.raw_induct [rotated, consumes 1, case_names step])
    case (step loop env lib sched op t' cb nt start e ks s y)
    from step.hyps step.prems obtain r s1 where
      p: "doOperation_pass env lib sched RESET t cb nt start e ks s = Some (Inr r, s1)"
      and k: "(if fst r then loop env lib sched RESET t cb nt (fst (snd r)) e (snd (snd r)) s1 else ret () s1) = Some y"
      by (cases y) (auto elim!: bnd_eq_SomeE split: if_splits)
    have "owing 0 s1" by (rule pass_owing [OF assms(1) p step.prems(4)])
    with k step.IH step.prems show ?case by (cases "fst r") (auto simp: ret_def)
  qed
  from this [OF assms(2) refl refl] assms(3) show ?thesis by simp
qed

section \<open>Example\<close>

text \<open>Drives that answer range requests and are gone when a key is deleted.\<close>

definition gone_env :: "sim env" where
  "gone_env = sim_env\<lparr>env_delete := (\<lambda>c t k v m w. (NotConnected, w))\<rparr>"

lemma gone_honest_range: "honest_range gone_env sim_up sim_keys"
proof -
  have e: "env_range gone_env = env_range sim_env" "env_set_error gone_env = env_set_error sim_env" by (simp_all add: gone_env_def)
  show ?thesis unfolding honest_range_def e by (rule sim_honest_range [unfolded honest_range_def])
qed

lemma gone_codes: "codes_ok (env_code gone_env)"
  using sim_codes by (simp add: gone_env_def)

lemma gone_delete:
  "drive_request gone_env (Req_Delete k v m) BasicCallback (=) (\<lambda>w c cb. cb_done cb \<and> statusCode (cb_status cb) = CLIENT_IO_ERROR)"
  by unfold_locales (auto simp: gone_env_def sim_env_def send_request_def conclude_def OnResult_def)

lemma gone_remove: "\<exists>st w'. remove_forced gone_env cl (Some key) w = Some (Inr st, w')"
proof -
  let ?so = "StripeOperation_DEL_new key [] IGNORE_VERSION (connections cl) (rp_size (redundancy cl)) 0"
  have ops: "operations (so_op ?so) = map (fresh_operation (Req_Delete key [] IGNORE_VERSION) BasicCallback) (stripe_drives cl key)"
  proof -
    let ?e = "stripe_expandOperationVector (rp_size (redundancy cl)) 0 (KineticClusterStripeOperation_new (connections cl) key)"
    have "operations (so_op ?e) = map empty_operation (stripe_drives cl key)"
      by (simp add: stripe_expandOperationVector_def KineticClusterStripeOperation_new_def KineticClusterOperation_new_def)
    moreover have "(\<lambda>i. DEL_fillOperation key i [] IGNORE_VERSION) = bind_operation (Req_Delete key [] IGNORE_VERSION) BasicCallback"
      by (simp add: fun_eq_iff DEL_fillOperation_def)
    ultimately show ?thesis
      using fold_bind_upto [OF order_refl, of "Req_Delete key [] IGNORE_VERSION" BasicCallback "so_op ?e"]
      by (simp add: StripeOperation_DEL_new_def Let_def empty_operation_def comp_def)
  qed
  obtain rmap op w' where x: "executeOperationVector gone_env (operation_timeout cl) (so_op ?so) w = (rmap, op, w')"
    by (metis prod_cases3)
  obtain cbs where c: "operations op = map2 (answered_operation (Req_Delete key [] IGNORE_VERSION) BasicCallback) (stripe_drives cl key) cbs"
    "list_all2 (\<lambda>c cb. cb_done cb \<and> statusCode (cb_status cb) = CLIENT_IO_ERROR) (stripe_drives cl key) cbs"
    "rmap = rmap_of (env_code gone_env) (operations op)"
    by (rule drive_request.execute_requests [OF gone_delete ops x]) (rule that)
  have "op_callbacks (operations op) = cbs"
    using list_all2_lengthD [OF c(2)] by (simp add: c(1) op_callbacks_answered)
  moreover have "\<forall>cb \<in> set cbs. statusCode (cb_status cb) = CLIENT_IO_ERROR"
    using c(2) by (auto simp: list_all2_conv_all_nth in_set_conv_nth)
  ultimately have "rmap_get (env_code gone_env) rmap OK = 0"
    by (simp add: c(3) rmap_of_count [OF gone_codes] count_code_cb cb_count_def getResult_def filter_empty_conv)
  then have "\<not> fst (partial_del (env_code gone_env) rmap)"
    using rmap_touch [OF rmap_of_sorted, of "env_code gone_env" OK "operations op" OK] by (simp add: partial_del_def Let_def c(3))
  then obtain rmap1 where p: "partial_del (env_code gone_env) rmap = (False, rmap1)" by (metis eq_fst_iff)
  obtain st ind where st: "DEL_status (redundancy cl) (so_key ?so) (del_absent (env_code gone_env) rmap1) = (st, ind)" by fastforce
  have "\<exists>so. DEL_execute gone_env (operation_timeout cl) (redundancy cl) ?so w = Some (Inr st, so, w')"
    by (simp add: DEL_execute_def Let_def x p st)
  then show ?thesis by (auto simp: remove_forced_def do_remove_def Let_def)
qed

text \<open>A reset of one key by a pool of one thread: the page is processed when the pool is shut down.\<close>

abbreviation reset_demo_state :: "sim admin_state" where
  "reset_demo_state \<equiv> admin_demo_state [''demo:metadata:a'']"

lemma gone_range:
  assumes "kinetic_object (adm_cluster s) = admin_demo_cluster"
    and "same_keys sim_up sim_keys (kinetic_world (adm_cluster reset_demo_state)) (kinetic_world (adm_cluster s))"
    and "start \<le> ''demo:metadata:~''"
  shows "\<exists>s1. with_world (\<lambda>cl w. case cluster_range gone_env cl (Some start) (Some ''demo:metadata:~'') ks 0 w of (st, keys, w) \<Rightarrow> ((st, keys), w)) s =
      Some (Inr (ok_status, Some (filter (in_range start ''demo:metadata:~'') [''demo:metadata:a''])), s1) \<and>
    kinetic_object (adm_cluster s1) = admin_demo_cluster \<and> adm_pages s1 = adm_pages s \<and> adm_counts s1 = adm_counts s \<and>
    same_keys sim_up sim_keys (kinetic_world (adm_cluster reset_demo_state)) (kinetic_world (adm_cluster s1))"
proof -
  let ?w = "kinetic_world (adm_cluster s)"
  note same = same_keys_transfer [where up = sim_up and keys = sim_keys and w' = ?w, OF assms(2)]
  have ready: "range_ready admin_demo_cluster sim_up ?w 2"
    using admin_demo_ready [of "[''demo:metadata:a'']"] unfolding same(1) .
  have "cluster_keys (connections admin_demo_cluster) sim_up sim_keys ?w = [''demo:metadata:a'']"
    using admin_demo_keys [of "[''demo:metadata:a'']"] unfolding same(2) by simp
  then obtain w1 where "cluster_range gone_env admin_demo_cluster (Some start) (Some ''demo:metadata:~'') ks 0 ?w =
      (ok_status, Some (take 2 (filter (in_range start ''demo:metadata:~'') [''demo:metadata:a''])), w1)" "same_keys sim_up sim_keys ?w w1"
    using cluster_range_forward [OF gone_honest_range gone_codes ready assms(3), of ks] by auto
  then show ?thesis using assms(1,2) by (simp add: with_world_eq)
qed

lemma gone_reset:
  "\<exists>k s'. admin_reset gone_env sum_lib (\<lambda>_. 0) METADATA None 1 reset_demo_state = Some (Inr k, s') \<and> kc_total k = 1"
proof -
  let ?s = "reset_demo_state\<lparr>adm_counts := KeyCountsInternal_new, adm_pages := []\<rparr>" let ?e = "''demo:metadata:~''"
  let ?loop = "doOperation_loop gone_env sum_lib (\<lambda>_. 0) RESET METADATA None 1"
  let ?a = "''demo:metadata:a'' @ [CHR 0x00]"
  have o: "kinetic_object (adm_cluster ?s) = admin_demo_cluster" by (simp add: admin_demo_state_def)
  have le: "''demo:metadata: '' \<le> ?e" "?a \<le> ?e" by code_simp+
  have f: "filter (in_range ''demo:metadata: '' ?e) [''demo:metadata:a''] = [''demo:metadata:a'']"
    "filter (in_range ?a ?e) [''demo:metadata:a''] = []" by code_simp+
  have r: "initRangeKeys (identity admin_demo_cluster) METADATA = Inr (''demo:metadata: '', ?e)" by code_simp
  obtain s1 where s1: "with_world (\<lambda>cl w. case cluster_range gone_env cl (Some ''demo:metadata: '') (Some ?e) None 0 w of
      (st, keys, w) \<Rightarrow> ((st, keys), w)) ?s = Some (Inr (ok_status, Some [''demo:metadata:a'']), s1)"
    "kinetic_object (adm_cluster s1) = admin_demo_cluster" "adm_pages s1 = []" "adm_counts s1 = KeyCountsInternal_new"
    "same_keys sim_up sim_keys (kinetic_world (adm_cluster reset_demo_state)) (kinetic_world (adm_cluster s1))"
    using gone_range [OF o _ le(1), of None] f(1) by auto
  define s2 where "s2 = s1\<lparr>adm_counts := KeyCountsInternal_new\<lparr>kc_total := 1\<rparr>, adm_pages := [[''demo:metadata:a'']]\<rparr>"
  have p1: "doOperation_pass gone_env sum_lib (\<lambda>_. 0) RESET METADATA None 1 ''demo:metadata: '' ?e None ?s =
      Some (Inr (True, ?a, Some [''demo:metadata:a'']), s2)"
    using s1 by (simp add: doOperation_pass_def Let_def tally_def run_page_def s2_def KeyCountsInternal_new_def to_int32_def ret_def seq_def)
  have "kinetic_object (adm_cluster s2) = admin_demo_cluster" "same_keys sim_up sim_keys (kinetic_world (adm_cluster reset_demo_state)) (kinetic_world (adm_cluster s2))"
    using s1 by (simp_all add: s2_def)
  from gone_range [OF this le(2), of "Some [''demo:metadata:a'']"] f(2) obtain s3 where
    s3: "with_world (\<lambda>cl w. case cluster_range gone_env cl (Some ?a) (Some ?e) (Some [''demo:metadata:a'']) 0 w of
      (st, keys, w) \<Rightarrow> ((st, keys), w)) s2 = Some (Inr (ok_status, Some []), s3)"
    "adm_pages s3 = [[''demo:metadata:a'']]" "kc_total (adm_counts s3) = 1"
    by (auto simp: s2_def)
  have p2: "doOperation_pass gone_env sum_lib (\<lambda>_. 0) RESET METADATA None 1 ?a ?e (Some [''demo:metadata:a'']) s2 =
      Some (Inr (False, ?a, Some []), s3)"
    using s3 by (simp add: doOperation_pass_def Let_def ret_def seq_def)
  have l: "?loop ''demo:metadata: '' ?e None ?s = Some (Inr (), s3)"
    using p1 p2 by (simp add: doOperation_loop.simps ret_def)
  obtain st w' where rm: "remove_forced gone_env (kinetic_object (adm_cluster s3)) (Some ''demo:metadata:a'') (kinetic_world (adm_cluster s3)) =
      Some (Inr st, w')" using gone_remove by blast
  obtain x s4 where k: "applyOperation gone_env sum_lib RESET METADATA [''demo:metadata:a''] (s3\<lparr>adm_pages := []\<rparr>) = Some (Inr x, s4)"
    using rm by (cases "status_ok st") (auto simp: applyOperation_def applyOperation_key_def lift_res_def catch_def on_cluster_def kc_call_const_def zoom_def
        throw_def tally_def modify_def ret_def seq_def bnd_def split: if_splits)
  have "kc_total (adm_counts s4) = 1" using reset_page [OF _ k] s3(3) by (simp add: grown_def)
  moreover have "process_pages gone_env sum_lib RESET METADATA 1 s3 = Some (Inr (), s4)"
    using k s3(2) by (simp add: process_page_def catch_def ret_def seq_def bnd_def asks_def modify_def)
  ultimately show ?thesis
    using l r o s3(2) by (simp add: admin_reset_def doOperation_def cluster_id_def asks_def)
qed

section \<open>Property\<close>

text \<open>C14: A reset accounts for every key. Whatever the drives answer and however the pages are spread
  over the threads of the pool, when a reset of data, metadata or attribute keys returns, the numbers of
  removed and of not repairable keys add up to the total (as 32 bit integers), and the other counters
  are zero.\<close>

theorem reset_accounts:
  assumes "t \<noteq> INDICATOR" and "admin_reset env lib sched t callback numthreads s = Some (Inr k, s')"
  shows "to_int32 (kc_removed k + kc_unrepairable k) = kc_total k \<and>
    kc_incomplete k = 0 \<and> kc_need_action k = 0 \<and> kc_repaired k = 0"
proof -
  let ?s = "s\<lparr>adm_counts := KeyCountsInternal_new, adm_pages := []\<rparr>"
  have s: "owing 0 ?s" by (simp add: owing_def queued_keys_def settled_keys_def idle_counts_def KeyCountsInternal_new_def to_int32_def)
  obtain a b where r: "initRangeKeys (cluster_id (kinetic_object (adm_cluster s))) t = Inr (a, b)"
    using assms(2) by (cases "initRangeKeys (cluster_id (kinetic_object (adm_cluster s))) t")
      (auto simp: admin_reset_def doOperation_def)
  let ?d = "seq (bnd (asks (\<lambda>s. length (adm_pages s))) (process_pages env lib RESET t)) (asks adm_counts)"
  have "seq (doOperation_loop env lib sched RESET t callback numthreads a b None) ?d ?s = Some (Inr k, s')"
    using assms(2) r by (simp add: admin_reset_def doOperation_def)
  then obtain u s1 where l: "doOperation_loop env lib sched RESET t callback numthreads a b None ?s = Some (Inr u, s1)"
    and d: "?d s1 = Some (Inr k, s')" by (cases rule: seq_eq_SomeE) auto
  obtain s2 where s2: "process_pages env lib RESET t (length (adm_pages s1)) s1 = Some (Inr (), s2)" "k = adm_counts s2"
    using d by (cases rule: seq_eq_SomeE) (auto simp: asks_def)
  have "owing 0 s2 \<and> adm_pages s2 = drop (length (adm_pages s1)) (adm_pages s1)"
    by (rule process_pages_owing [OF assms(1) s2(1) loop_owing [OF assms(1) l s]])
  then have o: "owing 0 s2" "adm_pages s2 = []" by simp_all
  then have "word_of_int (kc_removed k + kc_unrepairable k) = (word_of_int (kc_total k) :: 32 word)"
    "to_int32 (kc_total k) = kc_total k" "idle_counts k = (0, 0, 0)"
    using o by (simp_all add: owing_def queued_keys_def settled_keys_def s2(2) o(2))
  then show ?thesis by (simp add: to_int32_def idle_counts_def)
qed

theorem reset_accounts_witness:
  "\<exists>k s'. admin_reset gone_env sum_lib (\<lambda>_. 0) METADATA None 1 (admin_demo_state [''demo:metadata:a'']) = Some (Inr k, s') \<and>
     to_int32 (kc_removed k + kc_unrepairable k) = 1"
  using gone_reset reset_accounts [of METADATA gone_env sum_lib "\<lambda>_. 0" None 1] by fastforce

end
