(* ===== verification/Auto_Connection.thy ===== *)
theory Auto_Connection
  imports Cluster_Interface Background_Handler
begin

text \<open>
  \<^verbatim>\<open>KineticAutoConnection\<close> (src/KineticAutoConnection.cc): the connection to one drive, which connects
  when it is first used and is re-established in the background, at a limited rate, after an error;
  and the registration of its socket with \<^verbatim>\<open>SocketListener\<close> (src/SocketListener.cc).

  The socket, the connection objects of the kinetic client library, the random number generator and
  the clock (in microseconds) are a record of functions over an arbitrary world, an argument of the
  definitions. A connection object is a number. The pool that runs a reconnect is the handler of
  \<open>Background_Handler\<close> with one thread and no queue; its functions are all \<^verbatim>\<open>connect\<close>, so they carry no
  data. What different threads do between two points where others may interfere is one step of the
  relation \<open>conn_step\<close>. The fields \<open>con_finished\<close> and \<open>reconnects\<close> record the history for that relation and
  for the statements; the functions of the class do not depend on them.
\<close>

section \<open>Model\<close>

text \<open>\<^verbatim>\<open>kinetic::ConnectionOptions\<close>, a structure of the client library.\<close>

record ConnectionOptions =
  opt_host :: string
  opt_port :: int
  opt_use_ssl :: bool
  opt_user_id :: int
  opt_hmac_key :: string

text \<open>The factory, \<^verbatim>\<open>NoOp\<close> with a fresh callback, the state of a callback (\<open>None\<close> while it is not done,
  otherwise whether it succeeded), \<^verbatim>\<open>Run\<close> with its result and the value it stores for the descriptor,
  \<^verbatim>\<open>select\<close>, and \<^verbatim>\<open>epoll_ctl\<close> with the error it may report.\<close>

record 'w dialer =
  dial_new :: "ConnectionOptions \<Rightarrow> 'w \<Rightarrow> nat option \<times> 'w"
  dial_noop :: "nat \<Rightarrow> 'w \<Rightarrow> nat \<times> 'w"
  dial_callback :: "nat \<Rightarrow> 'w \<Rightarrow> bool option"
  dial_run :: "nat \<Rightarrow> 'w \<Rightarrow> (bool \<times> int option) \<times> 'w"
  dial_select :: "int \<Rightarrow> 'w \<Rightarrow> int \<times> 'w"
  dial_epoll_add :: "int \<Rightarrow> 'w \<Rightarrow> errc option \<times> 'w"
  dial_random :: "'w \<Rightarrow> nat \<times> 'w"
  dial_now :: "'w \<Rightarrow> nat"

record 'w auto_connection =
  con_options :: "ConnectionOptions \<times> ConnectionOptions"
  ratelimit :: int
  connection :: "nat option"
  healthy :: bool
  con_fd :: int
  con_timestamp :: nat
  initial_connect :: bool
  bg :: "unit handler"
  watched :: "int set"
  con_world :: 'w
  con_finished :: "nat set"
  reconnects :: "nat list"

type_synonym ('w, 'a) con_op = "('w auto_connection, 'a) kio"

definition KineticAutoConnection_new ::
  "'w dialer \<Rightarrow> ConnectionOptions \<times> ConnectionOptions \<Rightarrow> int \<Rightarrow> 'w \<Rightarrow> 'w auto_connection" where
  "KineticAutoConnection_new dial opts r w =
     \<lparr>con_options = opts, ratelimit = r, connection = None, healthy = False, con_fd = 0,
      con_timestamp = dial_now dial w, initial_connect = False, bg = handler_init 1 0, watched = {},
      con_world = w, con_finished = {}, reconnects = []\<rparr>"

definition getName :: "'w auto_connection \<Rightarrow> string" where
  "getName c = Convert_toString
     [''('', opt_host (fst (con_options c)), '':'', dec_int (opt_port (fst (con_options c))), '' / '',
      opt_host (snd (con_options c)), '':'', dec_int (opt_port (snd (con_options c))), '')'']"

subsection \<open>The socket listener\<close>

definition subscribe :: "'w dialer \<Rightarrow> int \<Rightarrow> ('w, unit) con_op" where
  "subscribe dial fd c =
     (case dial_epoll_add dial fd (con_world c) of
        (Some e, w) \<Rightarrow> Some (Inl (System_error e), c\<lparr>con_world := w\<rparr>)
      | (None, w) \<Rightarrow> Some (Inr (), c\<lparr>con_world := w, watched := insert fd (watched c)\<rparr>))"

definition unsubscribe :: "int \<Rightarrow> 'w auto_connection \<Rightarrow> 'w auto_connection" where
  "unsubscribe fd c = c\<lparr>watched := watched c - {fd}\<rparr>"

definition KineticAutoConnection_destroy :: "'w auto_connection \<Rightarrow> 'w auto_connection" where
  "KineticAutoConnection_destroy c = (if con_fd c \<noteq> 0 then unsubscribe (con_fd c) c else c)"

subsection \<open>Errors\<close>

definition setError :: "nat option \<Rightarrow> 'w auto_connection \<Rightarrow> 'w auto_connection" where
  "setError errorConnection c =
     (if \<not> healthy c then c
      else if connection c \<noteq> errorConnection then c
      else let c = (if con_fd c \<noteq> 0 then (unsubscribe (con_fd c) c)\<lparr>con_fd := 0\<rparr> else c)
           in c\<lparr>healthy := False\<rparr>)"

subsection \<open>Connecting\<close>

text \<open>The class \<^verbatim>\<open>ConnectCallback\<close>.\<close>

definition cb_done :: "bool option \<Rightarrow> bool" where
  "cb_done r \<longleftrightarrow> r \<noteq> None"

definition cb_ok :: "bool option \<Rightarrow> bool" where
  "cb_ok r \<longleftrightarrow> r = Some True"

text \<open>The two loops of \<^verbatim>\<open>connect\<close>: no-operation requests until a descriptor is known, then waiting for
  the answer to the last one.\<close>

partial_function (option) noop_loop ::
  "'w dialer \<Rightarrow> nat \<Rightarrow> int \<Rightarrow> 'w \<Rightarrow> (nat \<times> int \<times> 'w) option" where
  "noop_loop dial con tmpfd w =
     (let (cb, w) = dial_noop dial con w;
          ((running, fd), w) = dial_run dial con w;
          tmpfd = (case fd of None \<Rightarrow> tmpfd | Some n \<Rightarrow> n)
      in if running \<and> tmpfd = 0 then noop_loop dial con tmpfd w else Some (cb, tmpfd, w))"

partial_function (option) answer_loop :: "'w dialer \<Rightarrow> nat \<Rightarrow> nat \<Rightarrow> int \<Rightarrow> 'w \<Rightarrow> 'w option" where
  "answer_loop dial con cb tmpfd w =
     (let ((running, _), w) = dial_run dial con w
      in if running \<and> \<not> cb_done (dial_callback dial cb w)
         then let (n, w) = dial_select dial tmpfd w
              in if n \<le> 0 then Some w else answer_loop dial con cb tmpfd w
         else Some w)"

text \<open>The part of \<^verbatim>\<open>connect\<close> in front of its critical section: a descriptor plus one, or 0 when no usable
  connection was made.\<close>

definition make_connection ::
  "'w dialer \<Rightarrow> ConnectionOptions \<Rightarrow> ConnectionOptions \<Rightarrow> 'w \<Rightarrow> nat option \<times> 'w" where
  "make_connection dial primary secondary w =
     (case dial_new dial primary w of
        (Some con, w) \<Rightarrow> (Some con, w)
      | (None, w) \<Rightarrow> dial_new dial secondary w)"

definition attempt ::
  "'w dialer \<Rightarrow> ConnectionOptions \<times> ConnectionOptions \<Rightarrow> 'w \<Rightarrow> (int \<times> nat option \<times> 'w) option" where
  "attempt dial opts w =
     (let (r, w) = dial_random dial w;
          primary = (if r mod 2 \<noteq> 0 then fst opts else snd opts);
          secondary = (if r mod 2 \<noteq> 0 then snd opts else fst opts)
      in case make_connection dial primary secondary w of
           (None, w) \<Rightarrow> Some (0, None, w)
         | (Some con, w) \<Rightarrow>
             Option.bind (noop_loop dial con 0 w) (\<lambda>(cb, tmpfd, w).
             Option.bind (answer_loop dial con cb tmpfd w) (\<lambda>w.
             Some (if cb_ok (dial_callback dial cb w) then tmpfd else 0, Some con, w))))"

definition connect_finish :: "'w dialer \<Rightarrow> int \<Rightarrow> nat option \<Rightarrow> ('w, unit) con_op" where
  "connect_finish dial tmpfd tmpcon =
     (if tmpfd \<noteq> 0 then
        let tmpfd = tmpfd - 1
        in seq (subscribe dial tmpfd)
          (modify (\<lambda>c. c\<lparr>con_fd := tmpfd, connection := tmpcon, healthy := True,
             con_timestamp := dial_now dial (con_world c)\<rparr>))
      else ret ())"

definition connect :: "'w dialer \<Rightarrow> ('w, unit) con_op" where
  "connect dial c =
     Option.bind (attempt dial (con_options c) (con_world c)) (\<lambda>(tmpfd, tmpcon, w).
       connect_finish dial tmpfd tmpcon (c\<lparr>con_world := w\<rparr>))"

subsection \<open>Obtaining the connection\<close>

text \<open>\<^verbatim>\<open>duration_cast<seconds>\<close> truncates toward zero. The clock is read once for the comparison and for the
  time stamp, where the code reads it twice under the same lock.\<close>

definition whole_seconds :: "int \<Rightarrow> int" where
  "whole_seconds us = (if us < 0 then - ((- us) div 1000000) else us div 1000000)"

definition schedule_reconnect :: "'w dialer \<Rightarrow> 'w auto_connection \<Rightarrow> 'w auto_connection" where
  "schedule_reconnect dial c =
     (let time = dial_now dial (con_world c);
          duration = whole_seconds (int time - int (con_timestamp c))
      in if ratelimit c < duration then
           case try_run () (bg c) of
             (True, h) \<Rightarrow> c\<lparr>bg := h, con_timestamp := time, reconnects := reconnects c @ [time]\<rparr>
           | (False, h) \<Rightarrow> c\<lparr>bg := h\<rparr>
         else c)"

definition get_locked :: "'w dialer \<Rightarrow> ('w, nat option) con_op" where
  "get_locked dial c =
     (if healthy c then Some (Inr (connection c), c)
      else Some (Inl (System_error not_connected), schedule_reconnect dial c))"

definition auto_get :: "'w dialer \<Rightarrow> ('w, nat option) con_op" where
  "auto_get dial =
     bnd (asks initial_connect) (\<lambda>connected.
     seq (if connected then ret ()
          else seq (connect dial) (modify (\<lambda>c. c\<lparr>initial_connect := True\<rparr>)))
     (get_locked dial))"

subsection \<open>The threads\<close>

text \<open>Clients obtain the connection and report errors, the threads of the pool begin, run the critical
  section of \<^verbatim>\<open>connect\<close> once and end, and the world moves on while the clock does not go back. Before the
  first \<^verbatim>\<open>get\<close> has completed the others wait for it, so it is a single step.\<close>

inductive conn_step :: "'w dialer \<Rightarrow> 'w auto_connection \<Rightarrow> 'w auto_connection \<Rightarrow> bool" for dial where
  client_get: "auto_get dial c = Some (r, c') \<Longrightarrow> conn_step dial c c'"
| client_error: "conn_step dial c (setError con c)"
| world: "dial_now dial (con_world c) \<le> dial_now dial w \<Longrightarrow> conn_step dial c (c\<lparr>con_world := w\<rparr>)"
| bg_connect: "i < length (threads (bg c)) \<Longrightarrow> threads (bg c) ! i = Task_busy () \<Longrightarrow> i \<notin> con_finished c \<Longrightarrow>
    connect dial c = Some (r, c') \<Longrightarrow> conn_step dial c (c'\<lparr>con_finished := insert i (con_finished c')\<rparr>)"
| bg_thread: "i < length (threads (bg c)) \<Longrightarrow> (threads (bg c) ! i = Task_busy () \<Longrightarrow> i \<in> con_finished c) \<Longrightarrow>
    thread_step (bg c) (threads (bg c) ! i) = Some (t, h) \<Longrightarrow>
    conn_step dial c (c\<lparr>bg := h\<lparr>threads := (threads h)[i := t]\<rparr>\<rparr>)"

inductive conn_reachable :: "'w dialer \<Rightarrow> 'w auto_connection \<Rightarrow> bool" for dial where
  created: "conn_reachable dial (KineticAutoConnection_new dial opts r w)"
| further: "conn_reachable dial c \<Longrightarrow> conn_step dial c c' \<Longrightarrow> conn_reachable dial c'"


section \<open>Lemmas\<close>

text \<open>The clock does not go back while an operation of the world runs.\<close>

definition steady :: "'w dialer \<Rightarrow> bool" where
  "steady dial \<longleftrightarrow>
     (\<forall>w. dial_now dial w \<le> dial_now dial (snd (dial_random dial w)) \<and>
       (\<forall>opts. dial_now dial w \<le> dial_now dial (snd (dial_new dial opts w))) \<and>
       (\<forall>con. dial_now dial w \<le> dial_now dial (snd (dial_noop dial con w))) \<and>
       (\<forall>con. dial_now dial w \<le> dial_now dial (snd (dial_run dial con w))) \<and>
       (\<forall>fd. dial_now dial w \<le> dial_now dial (snd (dial_select dial fd w))) \<and>
       (\<forall>fd. dial_now dial w \<le> dial_now dial (snd (dial_epoll_add dial fd w))))"

lemma steadyD:
  assumes "steady dial"
  shows "dial_random dial w = (n, w') \<Longrightarrow> dial_now dial w \<le> dial_now dial w'"
    and "dial_new dial opts w = (con', w') \<Longrightarrow> dial_now dial w \<le> dial_now dial w'"
    and "dial_noop dial con w = (cb, w') \<Longrightarrow> dial_now dial w \<le> dial_now dial w'"
    and "dial_run dial con w = (b, w') \<Longrightarrow> dial_now dial w \<le> dial_now dial w'"
    and "dial_select dial fd w = (k, w') \<Longrightarrow> dial_now dial w \<le> dial_now dial w'"
    and "dial_epoll_add dial fd w = (e, w') \<Longrightarrow> dial_now dial w \<le> dial_now dial w'"
  using assms unfolding steady_def by (metis snd_conv)+

lemma noop_loop_steady:
  assumes "steady dial" and "noop_loop dial con fd w = Some (cb, fd', w')"
  shows "dial_now dial w \<le> dial_now dial w'"
proof -
  have "steady dial \<Longrightarrow> dial_now dial w \<le> dial_now dial (snd (snd y))" if "noop_loop dial con fd w = Some y" for y
    using that
  proof (induction rule: noop_loop.raw_induct [rotated, consumes 1, case_names step])
    case (step loop dial con fd w y)
    obtain cb w1 b fd1 w2 where run: "dial_noop dial con w = (cb, w1)" "dial_run dial con w1 = ((b, fd1), w2)"
      by (metis surj_pair)
    have "dial_now dial w \<le> dial_now dial w2"
      using steadyD(3) [OF step.prems run(1)] steadyD(4) [OF step.prems run(2)] by simp
    then show ?case
      using step.hyps step.IH [OF _ step.prems] run
      by (cases y) (auto simp: Let_def split: if_splits intro: le_trans)
  qed
  with assms show ?thesis by fastforce
qed

lemma answer_loop_steady:
  assumes "steady dial" and "answer_loop dial con cb fd w = Some w'"
  shows "dial_now dial w \<le> dial_now dial w'"
proof -
  have "steady dial \<Longrightarrow> dial_now dial w \<le> dial_now dial w'"
    using assms(2)
  proof (induction rule: answer_loop.raw_induct [rotated, consumes 1, case_names step])
    case (step loop dial con cb fd w y)
    obtain b w1 n w2 where run: "dial_run dial con w = (b, w1)" "dial_select dial fd w1 = (n, w2)"
      by (metis surj_pair)
    have "dial_now dial w \<le> dial_now dial w1" "dial_now dial w1 \<le> dial_now dial w2"
      using steadyD(4) [OF step.prems run(1)] steadyD(5) [OF step.prems run(2)] .
    then show ?case
      using step.hyps step.IH [OF _ step.prems] run
      by (cases b) (auto simp: Let_def split: if_splits, meson le_trans)
  qed
  then show ?thesis using assms(1) by simp
qed

lemma attempt_steady:
  assumes "steady dial" and "attempt dial opts w = Some (fd, con, w')"
  shows "dial_now dial w \<le> dial_now dial w'"
proof -
  obtain r w1 where r: "dial_random dial w = (r, w1)" by fastforce
  let ?p = "if r mod 2 \<noteq> 0 then fst opts else snd opts" and ?s = "if r mod 2 \<noteq> 0 then snd opts else fst opts"
  obtain k w2 where k: "make_connection dial ?p ?s w1 = (k, w2)" by fastforce
  have "dial_now dial w1 \<le> dial_now dial w2"
    using k steadyD(2) [OF assms(1)] unfolding make_connection_def
    by (auto split: prod.splits option.splits) (meson le_trans)+
  moreover have "dial_now dial w2 \<le> dial_now dial w'"
    using assms(2) r k noop_loop_steady [OF assms(1)] answer_loop_steady [OF assms(1)]
    by (auto simp: attempt_def Let_def split: option.splits bind_splits prod.splits) (meson le_trans)+
  ultimately show ?thesis using steadyD(1) [OF assms(1) r] by simp
qed

lemma attempt_connection:
  "attempt dial opts w = Some (fd, con, w') \<Longrightarrow> fd \<noteq> 0 \<Longrightarrow> con \<noteq> None"
  by (auto simp: attempt_def Let_def split: option.splits bind_splits prod.splits if_splits)


text \<open>What \<^verbatim>\<open>connect\<close> changes: nothing, or a new connection is installed and its descriptor is watched.\<close>

lemma connect_cases:
  assumes "steady dial" and "connect dial c = Some (r, c')"
  obtains (failed) w where "c' = c\<lparr>con_world := w\<rparr>" "dial_now dial (con_world c) \<le> dial_now dial w"
  | (installed) w fd con where "r = Inr ()"
      "c' = c\<lparr>con_world := w, watched := insert fd (watched c), con_fd := fd, connection := Some con,
         healthy := True, con_timestamp := dial_now dial w\<rparr>"
      "dial_now dial (con_world c) \<le> dial_now dial w"
proof -
  from assms(2) obtain tmpfd tmpcon w1 where
    a: "attempt dial (con_options c) (con_world c) = Some (tmpfd, tmpcon, w1)"
    and f: "connect_finish dial tmpfd tmpcon (c\<lparr>con_world := w1\<rparr>) = Some (r, c')"
    by (auto simp: connect_def split: bind_splits)
  note t1 = attempt_steady [OF assms(1) a]
  show ?thesis
  proof (cases "tmpfd = 0")
    case True
    with f t1 show ?thesis by (intro failed [of w1]) (simp_all add: connect_finish_def ret_def)
  next
    case False
    obtain e w2 where e: "dial_epoll_add dial (tmpfd - 1) w1 = (e, w2)" by fastforce
    have t2: "dial_now dial (con_world c) \<le> dial_now dial w2"
      using t1 steadyD(6) [OF assms(1) e] by simp
    from attempt_connection [OF a False] obtain con where con: "tmpcon = Some con" by blast
    show ?thesis
    proof (cases e)
      case None
      then show ?thesis
        using f False e con t2
        by (intro installed [where w = w2 and fd = "tmpfd - 1" and con = con]) (auto simp: connect_finish_def Let_def subscribe_def modify_def seq_def bnd_def)
    next
      case (Some x)
      then show ?thesis
        using f False e t2
        by (intro failed [of w2]) (auto simp: connect_finish_def Let_def subscribe_def seq_def bnd_def)
    qed
  qed
qed

definition spaced :: "int \<Rightarrow> nat list \<Rightarrow> bool" where
  "spaced gap ts \<longleftrightarrow> successively (\<lambda>a b. gap \<le> int b - int a) ts"

lemma spaced_snoc: "spaced gap (ts @ [t]) \<longleftrightarrow> spaced gap ts \<and> (ts = [] \<or> gap \<le> int t - int (last ts))"
  by (auto simp: spaced_def successively_append_iff)

lemma spaced_nth:
  "spaced gap ts \<Longrightarrow> i + k < length ts \<Longrightarrow> int k * gap \<le> int (ts ! (i + k)) - int (ts ! i)"
proof (induction k)
  case 0
  then show ?case by simp
next
  case (Suc k)
  have "gap \<le> int (ts ! Suc (i + k)) - int (ts ! (i + k))"
    using Suc.prems by (auto simp: spaced_def successively_conv_nth)
  with Suc show ?case by (simp add: algebra_simps)
qed

definition conn_inv :: "'w dialer \<Rightarrow> 'w auto_connection \<Rightarrow> bool" where
  "conn_inv dial c \<longleftrightarrow>
     (healthy c \<longrightarrow> connection c \<noteq> None \<and> con_fd c \<in> watched c) \<and>
     con_timestamp c \<le> dial_now dial (con_world c) \<and>
     spaced ((ratelimit c + 1) * 1000000) (reconnects c) \<and>
     (reconnects c \<noteq> [] \<longrightarrow> last (reconnects c) \<le> con_timestamp c)"

lemma whole_seconds_gap:
  assumes "r < whole_seconds d" and "0 \<le> d"
  shows "(r + 1) * 1000000 \<le> d"
proof -
  have "r + 1 \<le> d div 1000000" using assms by (simp add: whole_seconds_def split: if_splits)
  then have "(r + 1) * 1000000 \<le> d div 1000000 * 1000000" by (rule mult_right_mono) simp
  also have "\<dots> \<le> d" by simp
  finally show ?thesis .
qed

lemma connect_inv: "steady dial \<Longrightarrow> conn_inv dial c \<Longrightarrow> connect dial c = Some (r, c') \<Longrightarrow> conn_inv dial c'"
  by (erule (1) connect_cases) (auto simp: conn_inv_def)

lemma schedule_reconnect_inv:
  assumes "conn_inv dial c" and "\<not> healthy c"
  shows "conn_inv dial (schedule_reconnect dial c)"
proof -
  define t where "t = dial_now dial (con_world c)"
  have "spaced ((ratelimit c + 1) * 1000000) (reconnects c @ [t])"
    if "ratelimit c < whole_seconds (int t - int (con_timestamp c))"
  proof -
    have ts: "con_timestamp c \<le> t" using assms(1) by (simp add: conn_inv_def t_def)
    have "(ratelimit c + 1) * 1000000 \<le> int t - int (con_timestamp c)"
      by (rule whole_seconds_gap [OF that]) (use ts in simp)
    moreover have "int t - int (con_timestamp c) \<le> int t - int (last (reconnects c))" if "reconnects c \<noteq> []"
      using assms(1) that by (simp add: conn_inv_def)
    ultimately have "reconnects c \<noteq> [] \<longrightarrow> (ratelimit c + 1) * 1000000 \<le> int t - int (last (reconnects c))"
      by (meson order_trans)
    then show ?thesis using assms(1) by (auto simp: conn_inv_def spaced_snoc)
  qed
  then show ?thesis
    using assms by (auto simp: conn_inv_def schedule_reconnect_def Let_def t_def [symmetric] split: prod.splits bool.splits)
qed

lemma auto_get_cases:
  assumes "auto_get dial c = Some (r, c')"
  obtains (later) "initial_connect c" "get_locked dial c = Some (r, c')"
  | (first) d where "\<not> initial_connect c" "connect dial c = Some (Inr (), d)"
      "get_locked dial (d\<lparr>initial_connect := True\<rparr>) = Some (r, c')"
  | (failed) e where "\<not> initial_connect c" "connect dial c = Some (Inl e, c')" "r = Inl e"
proof (cases "initial_connect c")
  case True
  with assms show ?thesis by (intro later) (simp_all add: auto_get_def)
next
  case False
  then have "seq (seq (connect dial) (modify (\<lambda>c. c\<lparr>initial_connect := True\<rparr>))) (get_locked dial) c = Some (r, c')"
    using assms by (simp add: auto_get_def)
  then show ?thesis
    using first [OF False] failed [OF False] by (auto simp: modify_def elim!: seq_eq_SomeE)
qed

lemma get_locked_inv: "conn_inv dial c \<Longrightarrow> get_locked dial c = Some (r, c') \<Longrightarrow> conn_inv dial c'"
  using schedule_reconnect_inv by (auto simp: get_locked_def split: if_splits)

lemma auto_get_inv:
  assumes "steady dial" and "conn_inv dial c" and "auto_get dial c = Some (r, c')"
  shows "conn_inv dial c'"
  using assms(3)
proof (cases rule: auto_get_cases)
  case (first d)
  have "conn_inv dial d" by (rule connect_inv [OF assms(1,2) first(2)])
  then have "conn_inv dial (d\<lparr>initial_connect := True\<rparr>)" by (simp add: conn_inv_def)
  with first(3) show ?thesis by (metis get_locked_inv)
qed (use assms connect_inv get_locked_inv in blast)+

lemma conn_step_inv: "conn_step dial c c' \<Longrightarrow> steady dial \<Longrightarrow> conn_inv dial c \<Longrightarrow> conn_inv dial c'"
proof (induction rule: conn_step.induct)
  case (client_get c r c')
  then show ?case by (metis auto_get_inv)
next
  case (client_error c con)
  then show ?case by (auto simp: setError_def unsubscribe_def conn_inv_def)
next
  case (bg_connect i c r c')
  then have "conn_inv dial c'" by (metis connect_inv)
  then show ?case by (simp add: conn_inv_def)
qed (auto simp: conn_inv_def)

lemma conn_reachable_inv: "conn_reachable dial c \<Longrightarrow> steady dial \<Longrightarrow> conn_inv dial c"
  by (induction rule: conn_reachable.induct)
    (simp add: conn_inv_def KineticAutoConnection_new_def spaced_def, metis conn_step_inv)


subsection \<open>The pool of a connection\<close>

definition pool_inv :: "'w auto_connection \<Rightarrow> bool" where
  "pool_inv c \<longleftrightarrow> queue_capacity (bg c) = 0 \<and> thread_capacity (bg c) = 1 \<and> con_finished c \<subseteq> {..<length (threads (bg c))}"

lemma thread_step_frame:
  "thread_step h t = Some (t', h') \<Longrightarrow>
     queue_capacity h' = queue_capacity h \<and> thread_capacity h' = thread_capacity h \<and> threads h' = threads h"
  by (auto simp: thread_step_def split: thread.splits if_splits list.splits)

lemma schedule_reconnect_pool: "pool_inv c \<Longrightarrow> pool_inv (schedule_reconnect dial c)"
  by (auto simp: pool_inv_def schedule_reconnect_def Let_def try_run_def try_run_noqueue_def split: prod.splits bool.splits if_splits)

lemma connect_pool: "connect dial c = Some (r, c') \<Longrightarrow> bg c' = bg c \<and> con_finished c' = con_finished c"
  by (auto simp: connect_def connect_finish_def subscribe_def modify_def ret_def Let_def
      elim!: seq_eq_SomeE split: bind_splits if_splits prod.splits option.splits)

lemma get_locked_pool: "pool_inv c \<Longrightarrow> get_locked dial c = Some (r, c') \<Longrightarrow> pool_inv c'"
  using schedule_reconnect_pool by (auto simp: get_locked_def split: if_splits)

lemma auto_get_pool:
  assumes "pool_inv c" and "auto_get dial c = Some (r, c')"
  shows "pool_inv c'"
  using assms(2)
proof (cases rule: auto_get_cases)
  case (first d)
  with assms(1) have "pool_inv (d\<lparr>initial_connect := True\<rparr>)" by (auto simp: pool_inv_def dest!: connect_pool)
  with first(3) show ?thesis by (metis get_locked_pool)
next
  case (failed e)
  with assms(1) show ?thesis by (auto simp: pool_inv_def dest!: connect_pool)
qed (use assms get_locked_pool in blast)

lemma conn_reachable_pool: "conn_reachable dial c \<Longrightarrow> pool_inv c"
proof (induction rule: conn_reachable.induct)
  case (created opts r w)
  show ?case by (simp add: pool_inv_def KineticAutoConnection_new_def handler_init_def)
next
  case (further c c')
  from further.hyps(2) further.IH show ?case
  proof (cases rule: conn_step.cases)
    case (client_get r)
    with further.IH show ?thesis by (metis auto_get_pool)
  next
    case (client_error con)
    with further.IH show ?thesis by (auto simp: pool_inv_def setError_def unsubscribe_def Let_def)
  next
    case (bg_connect i r c1)
    with further.IH show ?thesis by (auto simp: pool_inv_def dest!: connect_pool)
  next
    case (bg_thread i t h)
    with further.IH show ?thesis by (auto simp: pool_inv_def dest!: thread_step_frame)
  qed (simp add: pool_inv_def)
qed

subsection \<open>A scheduled reconnect\<close>

text \<open>A drive that can be reached whenever a connection is attempted.\<close>

definition drive_up :: "'w dialer \<Rightarrow> ConnectionOptions \<times> ConnectionOptions \<Rightarrow> bool" where
  "drive_up dial opts \<longleftrightarrow>
     (\<forall>w. \<exists>fd con w1 w2. attempt dial opts w = Some (fd, Some con, w1) \<and> fd \<noteq> 0 \<and>
        dial_epoll_add dial (fd - 1) w1 = (None, w2))"

text \<open>A step of one thread of the pool, and the steps that do not report an error of the connection in use.\<close>

definition thread_turn :: "'w dialer \<Rightarrow> nat \<Rightarrow> 'w auto_connection \<Rightarrow> 'w auto_connection \<Rightarrow> bool" where
  "thread_turn dial i a b \<longleftrightarrow>
     i < length (threads (bg a)) \<and>
     (if threads (bg a) ! i = Task_busy () \<and> i \<notin> con_finished a
      then \<exists>r c. connect dial a = Some (r, c) \<and> b = c\<lparr>con_finished := insert i (con_finished c)\<rparr>
      else \<exists>t h. thread_step (bg a) (threads (bg a) ! i) = Some (t, h) \<and> b = a\<lparr>bg := h\<lparr>threads := (threads h)[i := t]\<rparr>\<rparr>)"

definition undisturbed :: "'w dialer \<Rightarrow> 'w auto_connection \<Rightarrow> 'w auto_connection \<Rightarrow> bool" where
  "undisturbed dial a b \<longleftrightarrow> conn_step dial a b \<and> \<not> (healthy a \<and> b = setError (connection a) a)"

lemma thread_turn_step: "thread_turn dial i a b \<Longrightarrow> conn_step dial a b"
  unfolding thread_turn_def
  by (auto split: if_splits intro: conn_step.bg_connect conn_step.bg_thread)

lemma connect_frame:
  "connect dial c = Some (r, c') \<Longrightarrow>
     bg c' = bg c \<and> con_finished c' = con_finished c \<and> con_options c' = con_options c \<and> initial_connect c' = initial_connect c \<and>
     (healthy c \<longrightarrow> healthy c')"
  by (auto simp: connect_def connect_finish_def subscribe_def modify_def ret_def Let_def
      elim!: seq_eq_SomeE split: bind_splits if_splits prod.splits option.splits)

lemma connect_up:
  assumes "drive_up dial (con_options c)"
  obtains c' where "connect dial c = Some (Inr (), c')" "healthy c'"
proof -
  obtain fd con w1 w2 where "attempt dial (con_options c) (con_world c) = Some (fd, Some con, w1)" "fd \<noteq> 0"
    "dial_epoll_add dial (fd - 1) w1 = (None, w2)" using assms unfolding drive_up_def by blast
  then have "connect dial c = Some (Inr (), c\<lparr>con_world := w2, watched := insert (fd - 1) (watched c), con_fd := fd - 1,
      connection := Some con, healthy := True, con_timestamp := dial_now dial w2\<rparr>)"
    by (simp add: connect_def connect_finish_def Let_def subscribe_def seq_def bnd_def modify_def)
  then show ?thesis by (rule that) simp
qed

text \<open>Thread \<open>i\<close> of the pool is to reconnect, and until it has done so nothing takes its turn away.\<close>

definition reconnecting :: "ConnectionOptions \<times> ConnectionOptions \<Rightarrow> nat \<Rightarrow> 'w auto_connection \<Rightarrow> bool" where
  "reconnecting opts i c \<longleftrightarrow> con_options c = opts \<and> initial_connect c \<and> i < length (threads (bg c)) \<and>
     (i \<notin> con_finished c \<longrightarrow> threads (bg c) ! i \<in> {Task_starting (), Task_busy ()})"

lemma schedule_reconnect_frame:
  "\<exists>ts. threads (bg (schedule_reconnect dial c)) = threads (bg c) @ ts"
  "con_finished (schedule_reconnect dial c) = con_finished c" "con_options (schedule_reconnect dial c) = con_options c"
  "initial_connect (schedule_reconnect dial c) = initial_connect c" "healthy (schedule_reconnect dial c) = healthy c"
  by (auto simp: schedule_reconnect_def Let_def try_run_def try_run_noqueue_def push_def split: prod.splits bool.splits if_splits)

lemma get_reconnecting:
  assumes "reconnecting opts i a" and "auto_get dial a = Some (r, b)"
  shows "reconnecting opts i b" and "con_finished b = con_finished a" and "healthy b = healthy a"
proof -
  have "get_locked dial a = Some (r, b)"
    using assms(2) by (cases rule: auto_get_cases) (use assms(1) in \<open>simp_all add: reconnecting_def\<close>)
  then have b: "b = a \<or> b = schedule_reconnect dial a" by (auto simp: get_locked_def split: if_splits)
  obtain ts where "threads (bg (schedule_reconnect dial a)) = threads (bg a) @ ts" using schedule_reconnect_frame(1) by blast
  with assms(1) b show "reconnecting opts i b"
    by (auto simp: reconnecting_def schedule_reconnect_frame nth_append)
  from b show "con_finished b = con_finished a" "healthy b = healthy a" by (auto simp: schedule_reconnect_frame)
qed

lemma conn_step_reconnecting:
  assumes "conn_step dial a b" and r: "reconnecting opts i a"
  shows "reconnecting opts i b"
  using assms(1)
proof (cases rule: conn_step.cases)
  case (client_get x)
  then show ?thesis by (metis get_reconnecting(1) r)
next
  case (client_error con)
  with r show ?thesis by (auto simp: reconnecting_def setError_def unsubscribe_def Let_def)
next
  case (bg_connect j x c')
  with r connect_frame [OF bg_connect(5)] show ?thesis by (auto simp: reconnecting_def)
next
  case (bg_thread j t h)
  have h: "threads h = threads (bg a)" using thread_step_frame [OF bg_thread(4)] by simp
  show ?thesis
  proof (cases "j = i")
    case True
    with bg_thread r show ?thesis
      by (auto simp: reconnecting_def h thread_step_def split: thread.splits)
  qed (use bg_thread(1) r in \<open>auto simp: reconnecting_def h\<close>)
qed (use r in \<open>simp add: reconnecting_def\<close>)

lemma undisturbed_healthy:
  assumes "undisturbed dial a b" and r: "reconnecting opts i a" and up: "drive_up dial opts"
    and ok: "i \<in> con_finished a \<longrightarrow> healthy a"
  shows "i \<in> con_finished b \<longrightarrow> healthy b"
proof -
  have "conn_step dial a b" using assms(1) by (simp add: undisturbed_def)
  then show ?thesis
  proof (cases rule: conn_step.cases)
    case (client_get x)
    with get_reconnecting(2,3) [OF r] ok show ?thesis by metis
  next
    case (client_error con)
    show ?thesis
    proof (cases "healthy a \<and> connection a = con")
      case True
      with assms(1) client_error show ?thesis by (simp add: undisturbed_def)
    next
      case False
      then have "b = a" using client_error by (auto simp: setError_def)
      with ok show ?thesis by simp
    qed
  next
    case (bg_connect j x c')
    obtain c2 where "connect dial a = Some (Inr (), c2)" "healthy c2"
      using connect_up [of dial a] r up by (auto simp: reconnecting_def)
    with bg_connect show ?thesis by simp
  qed (use ok in simp_all)
qed

text \<open>From every such state the thread ends its reconnect by its own steps.\<close>

lemma reconnecting_turns:
  assumes r: "reconnecting opts i a" and up: "drive_up dial opts" and todo: "i \<notin> con_finished a"
  shows "\<exists>b. (thread_turn dial i)\<^sup>*\<^sup>* a b \<and> i \<in> con_finished b"
proof -
  have busy: "\<exists>b. thread_turn dial i a b \<and> i \<in> con_finished b"
    if a: "reconnecting opts i a" "i \<notin> con_finished a" "threads (bg a) ! i = Task_busy ()" for a
  proof -
    obtain c where "connect dial a = Some (Inr (), c)"
      using connect_up [of dial a] a(1) up by (auto simp: reconnecting_def)
    with that have "thread_turn dial i a (c\<lparr>con_finished := insert i (con_finished c)\<rparr>)"
      by (auto simp: thread_turn_def reconnecting_def)
    moreover have "i \<in> con_finished (c\<lparr>con_finished := insert i (con_finished c)\<rparr>)" by simp
    ultimately show ?thesis by blast
  qed
  from r todo consider "threads (bg a) ! i = Task_busy ()" | "threads (bg a) ! i = Task_starting ()"
    by (auto simp: reconnecting_def)
  then show ?thesis
  proof cases
    case 1
    with busy [OF r todo] show ?thesis by blast
  next
    case 2
    define h where "h = (bg a)\<lparr>numthreads := numthreads (bg a) + 1\<rparr>"
    define b where "b = a\<lparr>bg := h\<lparr>threads := (threads h)[i := Task_busy ()]\<rparr>\<rparr>"
    have i: "i < length (threads (bg a))" using r by (simp add: reconnecting_def)
    have turn: "thread_turn dial i a b"
      unfolding thread_turn_def b_def using 2 i by (simp add: thread_step_def h_def)
    have b: "reconnecting opts i b" "i \<notin> con_finished b" "threads (bg b) ! i = Task_busy ()"
      using conn_step_reconnecting [OF thread_turn_step [OF turn] r] todo i by (simp_all add: b_def h_def)
    from busy [OF b] turn show ?thesis by (meson converse_rtranclp_into_rtranclp r_into_rtranclp)
  qed
qed

lemma run_reconnecting: "(conn_step dial)\<^sup>*\<^sup>* a b \<Longrightarrow> reconnecting opts i a \<Longrightarrow> reconnecting opts i b"
  by (induction rule: rtranclp_induct) (auto intro: conn_step_reconnecting)

lemma undisturbed_run: "(undisturbed dial)\<^sup>*\<^sup>* a b \<Longrightarrow> (conn_step dial)\<^sup>*\<^sup>* a b"
  by (induction rule: rtranclp_induct) (auto simp: undisturbed_def)

lemma run_healthy:
  assumes "(undisturbed dial)\<^sup>*\<^sup>* a b" and "reconnecting opts i a" and "drive_up dial opts" and "i \<notin> con_finished a"
  shows "i \<in> con_finished b \<longrightarrow> healthy b"
  using assms(1)
proof (induction rule: rtranclp_induct)
  case base
  with assms(4) show ?case by simp
next
  case (step b c)
  from step.hyps(1) have "reconnecting opts i b" by (rule run_reconnecting [OF undisturbed_run assms(2)])
  from undisturbed_healthy [OF step.hyps(2) this assms(3) step.IH] show ?case .
qed

section \<open>Properties\<close>

text \<open>C15: Whatever the clients and the background threads do in whatever order, a \<^verbatim>\<open>get\<close> that returns
  delivers an existing connection whose socket is registered with the listener, and reconnects are
  scheduled at a limited rate: between any two of them more than the configured number of seconds pass
  for every reconnect in between, provided that the clock does not go back.\<close>

theorem connection_available_and_rate_limited:
  assumes "conn_reachable dial c" and "steady dial"
  shows "(\<forall>x c'. auto_get dial c = Some (Inr x, c') \<longrightarrow>
            (\<exists>con. x = Some con \<and> connection c' = Some con \<and> con_fd c' \<in> watched c')) \<and>
         (\<forall>i k. i + k < length (reconnects c) \<longrightarrow>
            int k * ((ratelimit c + 1) * 1000000) \<le> int (reconnects c ! (i + k)) - int (reconnects c ! i))"
proof -
  have inv: "conn_inv dial c" by (rule conn_reachable_inv [OF assms])
  have "(\<exists>con. x = Some con \<and> connection c' = Some con \<and> con_fd c' \<in> watched c')"
    if "auto_get dial c = Some (Inr x, c')" for x c'
  proof -
    have "conn_inv dial c'" by (rule auto_get_inv [OF assms(2) inv that])
    moreover from that obtain d where "get_locked dial d = Some (Inr x, c')"
      by (auto simp: auto_get_def elim!: seq_eq_SomeE)
    then have "healthy c'" "x = connection c'" by (auto simp: get_locked_def split: if_splits)
    ultimately show ?thesis by (auto simp: conn_inv_def)
  qed
  moreover have "spaced ((ratelimit c + 1) * 1000000) (reconnects c)" using inv by (simp add: conn_inv_def)
  ultimately show ?thesis using spaced_nth by blast
qed


subsection \<open>A drive that always answers\<close>

definition demo_dial :: "nat dialer" where
  "demo_dial =
     \<lparr>dial_new = (\<lambda>opts w. (Some 7, w)), dial_noop = (\<lambda>con w. (0, w)), dial_callback = (\<lambda>cb w. Some True),
      dial_run = (\<lambda>con w. ((True, Some 5), w)), dial_select = (\<lambda>fd w. (1, w)), dial_epoll_add = (\<lambda>fd w. (None, w)),
      dial_random = (\<lambda>w. (0, w)), dial_now = (\<lambda>w. w)\<rparr>"

definition demo_options :: ConnectionOptions where
  "demo_options = \<lparr>opt_host = ''drive'', opt_port = 8123, opt_use_ssl = False, opt_user_id = 1, opt_hmac_key = ''key''\<rparr>"

text \<open>Connected at the first use, then the connection fails, and ten seconds pass.\<close>

definition demo_lost :: "nat auto_connection" where
  "demo_lost =
     (setError (Some 7) (snd (the (auto_get demo_dial
        (KineticAutoConnection_new demo_dial (demo_options, demo_options) 2 0)))))\<lparr>con_world := 10000000\<rparr>"

lemma demo_now [simp]: "dial_now demo_dial w = w"
  by (simp add: demo_dial_def)

lemma demo_steady: "steady demo_dial"
  by (simp add: steady_def demo_dial_def)

lemma reachable_get:
  "conn_reachable dial c \<Longrightarrow> auto_get dial c \<noteq> None \<Longrightarrow> conn_reachable dial (snd (the (auto_get dial c)))"
  by (erule conn_reachable.further) (cases "the (auto_get dial c)", auto intro: conn_step.client_get)

lemma reachable_wait:
  "conn_reachable dial c \<Longrightarrow> dial_now dial (con_world c) \<le> dial_now dial w \<Longrightarrow>
     conn_reachable dial (c\<lparr>con_world := w\<rparr>)"
  by (erule conn_reachable.further) (rule conn_step.world)

lemma demo_attempt: "attempt demo_dial (demo_options, demo_options) w = Some (5, Some 7, w)"
proof -
  have n: "noop_loop demo_dial 7 0 w = Some (0, 5, w)"
    by (subst noop_loop.simps) (simp add: demo_dial_def)
  have a: "answer_loop demo_dial 7 0 5 w = Some w"
    by (subst answer_loop.simps) (simp add: demo_dial_def cb_done_def)
  show ?thesis
    using n a by (simp add: attempt_def make_connection_def cb_ok_def demo_dial_def)
qed

abbreviation demo_new :: "nat auto_connection" where
  "demo_new \<equiv> KineticAutoConnection_new demo_dial (demo_options, demo_options) 2 0"

lemma demo_first_get:
  "auto_get demo_dial demo_new = Some (Inr (Some 7),
     demo_new\<lparr>watched := {4}, con_fd := 4, connection := Some 7, healthy := True, initial_connect := True\<rparr>)"
proof -
  have w: "con_options demo_new = (demo_options, demo_options)" "con_world demo_new = 0"
    by (simp_all add: KineticAutoConnection_new_def)
  have "connect demo_dial demo_new = Some (Inr (), demo_new\<lparr>watched := {4}, con_fd := 4, connection := Some 7, healthy := True\<rparr>)"
    by (simp add: connect_def w demo_attempt connect_finish_def subscribe_def seq_def bnd_def)
      (simp add: demo_dial_def modify_def KineticAutoConnection_new_def)
  then show ?thesis
    by (simp add: auto_get_def seq_def get_locked_def modify_def KineticAutoConnection_new_def)
qed

lemma demo_lost_eq:
  "demo_lost = demo_new\<lparr>connection := Some 7, con_fd := 0, initial_connect := True, con_world := 10000000\<rparr>"
  unfolding demo_lost_def demo_first_get
  by (simp add: setError_def unsubscribe_def KineticAutoConnection_new_def)

lemma demo_lost_reachable: "conn_reachable demo_dial demo_lost"
proof -
  have "conn_reachable demo_dial demo_new" by (rule conn_reachable.created)
  then have "conn_reachable demo_dial (snd (the (auto_get demo_dial demo_new)))"
    by (rule reachable_get) (simp add: demo_first_get)
  then have "conn_reachable demo_dial (setError (Some 7) (snd (the (auto_get demo_dial demo_new))))"
    by (rule conn_reachable.further) (rule conn_step.client_error)
  then show ?thesis
    unfolding demo_lost_def by (rule reachable_wait) (simp add: demo_first_get, simp add: setError_def unsubscribe_def KineticAutoConnection_new_def)
qed

text \<open>Two further uses, ten seconds apart, schedule two reconnects.\<close>

definition demo_twice :: "nat auto_connection" where
  "demo_twice = snd (the (auto_get demo_dial
     ((snd (the (auto_get demo_dial demo_lost)))\<lparr>con_world := 20000000\<rparr>)))"

lemma demo_get_lost:
  "auto_get demo_dial demo_lost = Some (Inl (System_error not_connected),
     demo_lost\<lparr>bg := (handler_init 1 0)\<lparr>threads := [Task_starting ()], spawned := [()]\<rparr>,
       con_timestamp := 10000000, reconnects := [10000000]\<rparr>)"
  by (simp add: auto_get_def get_locked_def schedule_reconnect_def whole_seconds_def try_run_def try_run_noqueue_def
      demo_lost_eq KineticAutoConnection_new_def handler_init_def)

lemma demo_twice_eq: "reconnects demo_twice = [10000000, 20000000] \<and> ratelimit demo_twice = 2"
  unfolding demo_twice_def demo_get_lost
  by (simp add: auto_get_def get_locked_def schedule_reconnect_def whole_seconds_def try_run_def try_run_noqueue_def
      demo_lost_eq KineticAutoConnection_new_def handler_init_def)

lemma demo_twice_reachable: "conn_reachable demo_dial demo_twice"
proof -
  have "conn_reachable demo_dial ((snd (the (auto_get demo_dial demo_lost)))\<lparr>con_world := 20000000\<rparr>)"
    by (rule reachable_wait [OF reachable_get [OF demo_lost_reachable]]) (simp_all add: demo_get_lost, simp add: demo_lost_eq)
  then show ?thesis
    unfolding demo_twice_def
    by (rule reachable_get) (simp add: demo_get_lost, simp add: auto_get_def get_locked_def demo_lost_eq KineticAutoConnection_new_def)
qed

theorem connection_available_and_rate_limited_witness:
  "1 * ((2 + 1) * 1000000) \<le> int (reconnects demo_twice ! (0 + 1)) - int (reconnects demo_twice ! 0) \<and>
   reconnects demo_twice = [10000000, 20000000]"
proof -
  have "0 + 1 < length (reconnects demo_twice)" by (simp add: demo_twice_eq)
  moreover have "int 1 * ((ratelimit demo_twice + 1) * 1000000) \<le>
      int (reconnects demo_twice ! (0 + 1)) - int (reconnects demo_twice ! 0)"
    using connection_available_and_rate_limited [OF demo_twice_reachable demo_steady] calculation by blast
  ultimately show ?thesis by (simp add: demo_twice_eq)
qed

text \<open>C24: A lost connection comes back. When the interval of the rate limit has passed and no background
  thread is counted as running, a use of the connection fails but starts a thread that reconnects. If the drive
  can be reached, then in every run from there, whatever clients, other threads and the world do meanwhile, that thread
  completes its reconnect by its own steps alone; and in every run during which no error of the connection in
  use is reported, from the moment the thread has reconnected every use obtains a connection.\<close>

theorem connection_recovers:
  assumes "conn_reachable dial c" and "steady dial" and "initial_connect c" and "\<not> healthy c" and "numthreads (bg c) = 0"
    and "ratelimit c < whole_seconds (int (dial_now dial (con_world c)) - int (con_timestamp c))"
    and "drive_up dial (con_options c)"
  shows "\<exists>c1. auto_get dial c = Some (Inl (System_error not_connected), c1) \<and>
    threads (bg c1) = threads (bg c) @ [Task_starting ()] \<and>
    (\<forall>c2. (conn_step dial)\<^sup>*\<^sup>* c1 c2 \<and> length (threads (bg c)) \<notin> con_finished c2 \<longrightarrow>
       (\<exists>c3. (thread_turn dial (length (threads (bg c))))\<^sup>*\<^sup>* c2 c3 \<and> length (threads (bg c)) \<in> con_finished c3)) \<and>
    (\<forall>c2. (undisturbed dial)\<^sup>*\<^sup>* c1 c2 \<and> length (threads (bg c)) \<in> con_finished c2 \<longrightarrow>
       (\<exists>con. auto_get dial c2 = Some (Inr (Some con), c2)))"
proof -
  let ?n = "length (threads (bg c))"
  define h where "h = (bg c)\<lparr>threads := threads (bg c) @ [Task_starting ()], spawned := spawned (bg c) @ [()]\<rparr>"
  define t where "t = dial_now dial (con_world c)"
  define c1 where "c1 = c\<lparr>bg := h, con_timestamp := t, reconnects := reconnects c @ [t]\<rparr>"
  have pool: "queue_capacity (bg c) = 0" "thread_capacity (bg c) = 1" "?n \<notin> con_finished c"
    using conn_reachable_pool [OF assms(1)] by (auto simp: pool_inv_def)
  have get: "auto_get dial c = Some (Inl (System_error not_connected), c1)"
    using assms(3-6) pool
    by (simp add: auto_get_def get_locked_def schedule_reconnect_def Let_def try_run_def try_run_noqueue_def c1_def h_def t_def)
  have c1: "reconnecting (con_options c) ?n c1" "?n \<notin> con_finished c1" "threads (bg c1) = threads (bg c) @ [Task_starting ()]"
    using assms(3) pool(3) by (simp_all add: reconnecting_def c1_def h_def)
  have reach: "conn_reachable dial c1"
    by (rule conn_reachable.further [OF assms(1) conn_step.client_get [OF get]])
  have "\<exists>con. auto_get dial c2 = Some (Inr (Some con), c2)" if run: "(undisturbed dial)\<^sup>*\<^sup>* c1 c2" and "?n \<in> con_finished c2" for c2
  proof -
    have "healthy c2" using run_healthy [OF run c1(1) assms(7) c1(2)] that(2) by simp
    moreover have "conn_reachable dial c2"
      using undisturbed_run [OF run] reach by (induction rule: rtranclp_induct) (auto intro: conn_reachable.further)
    then have "conn_inv dial c2" by (rule conn_reachable_inv [OF _ assms(2)])
    moreover have "initial_connect c2"
      using run_reconnecting [OF undisturbed_run [OF run] c1(1)] by (simp add: reconnecting_def)
    ultimately show ?thesis by (auto simp: auto_get_def get_locked_def conn_inv_def)
  qed
  moreover have "\<exists>c3. (thread_turn dial ?n)\<^sup>*\<^sup>* c2 c3 \<and> ?n \<in> con_finished c3"
    if "(conn_step dial)\<^sup>*\<^sup>* c1 c2" "?n \<notin> con_finished c2" for c2
    by (rule reconnecting_turns [OF run_reconnecting [OF that(1) c1(1)] assms(7) that(2)])
  ultimately show ?thesis using get c1(3) by blast
qed

lemma demo_up: "drive_up demo_dial (demo_options, demo_options)"
  unfolding drive_up_def by (simp add: demo_attempt) (simp add: demo_dial_def)

text \<open>The lost connection: after both turns of the thread every use succeeds.\<close>

theorem connection_recovers_witness:
  "\<exists>c1 c2. auto_get demo_dial demo_lost = Some (Inl (System_error not_connected), c1) \<and>
     (thread_turn demo_dial 0)\<^sup>*\<^sup>* c1 c2 \<and> 0 \<in> con_finished c2"
proof -
  have "threads (bg demo_lost) = []" "con_finished demo_lost = {}"
    by (simp_all add: demo_lost_eq KineticAutoConnection_new_def handler_init_def)
  moreover have "\<exists>c1. auto_get demo_dial demo_lost = Some (Inl (System_error not_connected), c1) \<and>
    threads (bg c1) = threads (bg demo_lost) @ [Task_starting ()] \<and>
    (\<forall>c2. (conn_step demo_dial)\<^sup>*\<^sup>* c1 c2 \<and> length (threads (bg demo_lost)) \<notin> con_finished c2 \<longrightarrow>
       (\<exists>c3. (thread_turn demo_dial (length (threads (bg demo_lost))))\<^sup>*\<^sup>* c2 c3 \<and> length (threads (bg demo_lost)) \<in> con_finished c3)) \<and>
    (\<forall>c2. (undisturbed demo_dial)\<^sup>*\<^sup>* c1 c2 \<and> length (threads (bg demo_lost)) \<in> con_finished c2 \<longrightarrow>
       (\<exists>con. auto_get demo_dial c2 = Some (Inr (Some con), c2)))"
    by (rule connection_recovers [OF demo_lost_reachable demo_steady])
      (simp_all add: demo_lost_eq KineticAutoConnection_new_def handler_init_def whole_seconds_def demo_up)
  ultimately show ?thesis by (metis list.size(3) rtranclp.rtrancl_refl)
qed

end
