(* ===== verification/Cluster_Map.thy ===== *)
theory Cluster_Map
  imports Auto_Connection Drive_Simulation "HOL-Library.Sublist"
begin

text \<open>
  \<^verbatim>\<open>ClusterMap\<close> (src/ClusterMap.cc): the clusters by name. A cluster object is built from the configuration
  when it is first asked for and is shared by all users of its name until the configuration is
  replaced; redundancy providers of the same shape are shared by all clusters.

  Shared objects live in two heaps, which are lists indexed by addresses; an object that no map
  refers to any more stays in its heap, as it does in the program while a client still holds it.
  The outside world of a cluster depends on its connections, so the environment of the cluster
  operations is a function \<open>env_of\<close> of them. A cluster's record holds the value of its provider;
  that the coding tables in a provider do not influence any result is shown in \<open>Redundancy_Provider\<close>.
  A negative timeout acts like none and becomes 0.
\<close>

section \<open>Model\<close>

record ClusterInformation =
  info_numData :: nat
  info_numParity :: nat
  info_blockSize :: nat
  info_min_reconnect_interval :: int
  info_operation_timeout :: int
  info_drives :: "string list"

type_synonym drive_info = "ConnectionOptions \<times> ConnectionOptions"

record 'w cluster_object =
  obj_cluster :: KineticCluster
  obj_connections :: "'w auto_connection list"
  obj_redundancy :: nat

record 'w cluster_map =
  clusterInfoMap :: "string \<rightharpoonup> ClusterInformation"
  driveInfoMap :: "string \<rightharpoonup> drive_info"
  clusterCache :: "string \<rightharpoonup> nat"
  rpCache :: "string \<rightharpoonup> nat"
  cluster_heap :: "'w cluster_object list"
  provider_heap :: "redundancy_provider list"
  map_world :: 'w

definition ClusterMap_new :: "'w \<Rightarrow> 'w cluster_map" where
  "ClusterMap_new w =
     \<lparr>clusterInfoMap = Map.empty, driveInfoMap = Map.empty, clusterCache = Map.empty, rpCache = Map.empty,
      cluster_heap = [], provider_heap = [], map_world = w\<rparr>"

definition map_reset ::
  "(string \<rightharpoonup> ClusterInformation) \<Rightarrow> (string \<rightharpoonup> drive_info) \<Rightarrow> 'w cluster_map \<Rightarrow> 'w cluster_map" where
  "map_reset clusterInfo driveInfo m =
     m\<lparr>clusterInfoMap := clusterInfo, driveInfoMap := driveInfo, clusterCache := Map.empty\<rparr>"

text \<open>The loop over the drives of a cluster.\<close>

fun make_connections ::
  "'w dialer \<Rightarrow> (string \<rightharpoonup> drive_info) \<Rightarrow> int \<Rightarrow> 'w \<Rightarrow> string list \<Rightarrow> 'w auto_connection list res" where
  "make_connections dial drives interval w [] = Inr []"
| "make_connections dial drives interval w (wwn # wwns) =
     (case drives wwn of
        None \<Rightarrow> Inl (System_error no_such_device)
      | Some opts \<Rightarrow> res_bind (make_connections dial drives interval w wwns)
          (\<lambda>cons. Inr (KineticAutoConnection_new dial opts interval w # cons)))"

definition rpName :: "nat \<Rightarrow> nat \<Rightarrow> string" where
  "rpName nd np = Convert_toString [dec nd, ''-'', dec np]"

definition provide :: "isal \<Rightarrow> nat \<Rightarrow> nat \<Rightarrow> 'w cluster_map \<Rightarrow> 'w cluster_map" where
  "provide lib nd np m =
     (if rpCache m (rpName nd np) = None
      then m\<lparr>rpCache := (rpCache m)(rpName nd np \<mapsto> length (provider_heap m)),
             provider_heap := provider_heap m @ [RedundancyProvider_new lib nd np]\<rparr>
      else m)"

definition build_cluster ::
  "('w auto_connection list \<Rightarrow> 'w env) \<Rightarrow> string \<Rightarrow> ClusterInformation \<Rightarrow> 'w auto_connection list \<Rightarrow>
   ('w cluster_map, nat) kio" where
  "build_cluster env_of cid ki cons m =
     (let rp = the (rpCache m (rpName (info_numData ki) (info_numParity ki)));
          (r, w) = KineticCluster_new (env_of cons) cid (info_blockSize ki) (nat (info_operation_timeout ki))
                     (length cons) (provider_heap m ! rp) (map_world m);
          m = m\<lparr>map_world := w\<rparr>
      in case r of
           Inl e \<Rightarrow> Some (Inl e, m)
         | Inr cl \<Rightarrow> Some (Inr (length (cluster_heap m)),
             m\<lparr>clusterCache := (clusterCache m)(cid \<mapsto> length (cluster_heap m)),
               cluster_heap := cluster_heap m @ [\<lparr>obj_cluster = cl, obj_connections = cons, obj_redundancy = rp\<rparr>]\<rparr>))"

definition getCluster ::
  "'w dialer \<Rightarrow> ('w auto_connection list \<Rightarrow> 'w env) \<Rightarrow> isal \<Rightarrow> string \<Rightarrow> ('w cluster_map, nat) kio" where
  "getCluster dial env_of lib cid m =
     (case clusterCache m cid of
        Some a \<Rightarrow> Some (Inr a, m)
      | None \<Rightarrow>
          (case clusterInfoMap m cid of
             None \<Rightarrow> Some (Inl (System_error no_such_device), m)
           | Some ki \<Rightarrow>
               (case make_connections dial (driveInfoMap m) (info_min_reconnect_interval ki) (map_world m) (info_drives ki) of
                  Inl e \<Rightarrow> Some (Inl e, m)
                | Inr cons \<Rightarrow>
                    if info_numData ki \<le> info_numParity ki then Some (Inl (System_error invalid_argument), m)
                    else build_cluster env_of cid ki cons (provide lib (info_numData ki) (info_numParity ki) m))))"

text \<open>\<^verbatim>\<open>getAdminCluster\<close> looks the object up again after \<^verbatim>\<open>getCluster\<close> has released the mutex; what other
  threads do in between is the function \<open>others\<close>.\<close>

definition getAdminCluster ::
  "'w dialer \<Rightarrow> ('w auto_connection list \<Rightarrow> 'w env) \<Rightarrow> isal \<Rightarrow> ('w cluster_map \<Rightarrow> 'w cluster_map) \<Rightarrow> string \<Rightarrow>
   ('w cluster_map, nat) kio" where
  "getAdminCluster dial env_of lib others cid =
     seq (getCluster dial env_of lib cid) (seq (modify others)
       (\<lambda>m. case clusterCache m cid of None \<Rightarrow> Some (Inl Out_of_range, m) | Some a \<Rightarrow> Some (Inr a, m)))"

inductive map_reachable ::
  "'w dialer \<Rightarrow> ('w auto_connection list \<Rightarrow> 'w env) \<Rightarrow> isal \<Rightarrow> 'w cluster_map \<Rightarrow> bool" for dial env_of lib where
  map_start: "map_reachable dial env_of lib (ClusterMap_new w)"
| map_load: "map_reachable dial env_of lib m \<Longrightarrow> map_reachable dial env_of lib (map_reset infos drives m)"
| map_lookup: "map_reachable dial env_of lib m \<Longrightarrow> getCluster dial env_of lib cid m = Some (r, m') \<Longrightarrow>
    map_reachable dial env_of lib m'"
| map_moves: "map_reachable dial env_of lib m \<Longrightarrow> map_reachable dial env_of lib (m\<lparr>map_world := w\<rparr>)"

section \<open>Lemmas\<close>

lemma rpName_inject: "rpName a b = rpName c d \<longleftrightarrow> a = c \<and> b = d"
proof
  assume eq: "rpName a b = rpName c d"
  have "CHR ''-'' \<notin> set (dec n)" for n using set_dec is_digit_not_sign by blast
  then have "takeWhile (\<lambda>x. x \<noteq> CHR ''-'') (rpName n k) = dec n" for n k
    unfolding rpName_def Convert_toString_def by (subst concat.simps, subst takeWhile_append2) auto
  with eq have "dec a = dec c" by metis
  with eq show "a = c \<and> b = d" by (simp add: rpName_def Convert_toString_def dec_inject)
qed simp

lemma make_connections_Inr:
  "make_connections dial drives interval w wwns = Inr cons \<longleftrightarrow>
     (\<forall>wwn \<in> set wwns. drives wwn \<noteq> None) \<and>
     cons = map (\<lambda>wwn. KineticAutoConnection_new dial (the (drives wwn)) interval w) wwns"
  by (induction wwns arbitrary: cons) (auto simp: res_bind_Inr_iff split: option.splits)

lemma KineticCluster_new_fields:
  "KineticCluster_new env cid bs t n rp w = (Inr cl, w') \<Longrightarrow>
     identity cl = cid \<and> chunkCapacity cl = bs \<and> operation_timeout cl = t \<and> connections cl = n \<and> redundancy cl = rp"
  by (auto simp: KineticCluster_new_def Let_def split: prod.splits sum.splits)

text \<open>An object was built for the name and the configuration it is found under.\<close>

definition built :: "'w cluster_map \<Rightarrow> string \<Rightarrow> ClusterInformation \<Rightarrow> 'w cluster_object \<Rightarrow> bool" where
  "built m cid ki ob \<longleftrightarrow>
     (let cl = obj_cluster ob; cons = obj_connections ob
      in identity cl = cid \<and> chunkCapacity cl = info_blockSize ki \<and>
         operation_timeout cl = nat (info_operation_timeout ki) \<and> connections cl = length cons \<and>
         map (Some \<circ> con_options) cons = map (driveInfoMap m) (info_drives ki) \<and>
         (\<forall>con \<in> set cons. ratelimit con = info_min_reconnect_interval ki) \<and>
         nData (redundancy cl) = info_numData ki \<and> nParity (redundancy cl) = info_numParity ki \<and>
         info_numParity ki < info_numData ki \<and>
         rpCache m (rpName (info_numData ki) (info_numParity ki)) = Some (obj_redundancy ob))"

definition map_inv :: "'w cluster_map \<Rightarrow> bool" where
  "map_inv m \<longleftrightarrow>
     (\<forall>cid a. clusterCache m cid = Some a \<longrightarrow> a < length (cluster_heap m) \<and>
        (\<exists>ki. clusterInfoMap m cid = Some ki \<and> built m cid ki (cluster_heap m ! a))) \<and>
     (\<forall>n a. rpCache m n = Some a \<longrightarrow> a < length (provider_heap m) \<and>
        n = rpName (nData (provider_heap m ! a)) (nParity (provider_heap m ! a)))"


lemma map_invD:
  assumes "map_inv m"
  shows "clusterCache m cid = Some a \<Longrightarrow> a < length (cluster_heap m)"
    and "clusterCache m cid = Some a \<Longrightarrow> \<exists>ki. clusterInfoMap m cid = Some ki \<and> built m cid ki (cluster_heap m ! a)"
    and "rpCache m n = Some p \<Longrightarrow> p < length (provider_heap m)"
    and "rpCache m n = Some p \<Longrightarrow> n = rpName (nData (provider_heap m ! p)) (nParity (provider_heap m ! p))"
  using assms by (simp_all add: map_inv_def)

lemma provide_frame [simp]:
  "clusterCache (provide lib nd np m) = clusterCache m"
  "clusterInfoMap (provide lib nd np m) = clusterInfoMap m"
  "driveInfoMap (provide lib nd np m) = driveInfoMap m"
  "cluster_heap (provide lib nd np m) = cluster_heap m"
  "map_world (provide lib nd np m) = map_world m"
  by (simp_all add: provide_def)

lemma provide_keeps: "rpCache m n = Some p \<Longrightarrow> rpCache (provide lib nd np m) n = Some p"
  by (auto simp: provide_def)

lemma provide_inv:
  assumes "map_inv m"
  shows "map_inv (provide lib nd np m)"
    and "\<exists>p. rpCache (provide lib nd np m) (rpName nd np) = Some p \<and>
           nData (provider_heap (provide lib nd np m) ! p) = nd \<and> nParity (provider_heap (provide lib nd np m) ! p) = np"
proof -
  let ?m = "provide lib nd np m"
  have "built ?m cid ki ob" if "built m cid ki ob" for cid ki ob
    using that provide_keeps by (auto simp: built_def Let_def)
  moreover have "p < length (provider_heap ?m) \<and> n = rpName (nData (provider_heap ?m ! p)) (nParity (provider_heap ?m ! p))"
    if "rpCache ?m n = Some p" for n p
    using that map_invD(3,4) [OF assms]
    by (auto simp: provide_def nth_append RedundancyProvider_new_def less_Suc_eq split: if_splits)
  ultimately show inv: "map_inv ?m"
    using map_invD(1,2) [OF assms] unfolding map_inv_def by (metis provide_frame(1,2,4))
  obtain p where "rpCache ?m (rpName nd np) = Some p" by (cases "rpCache m (rpName nd np)") (auto simp: provide_def)
  with map_invD(4) [OF inv this] show "\<exists>p. rpCache ?m (rpName nd np) = Some p \<and>
      nData (provider_heap ?m ! p) = nd \<and> nParity (provider_heap ?m ! p) = np"
    by (metis rpName_inject)
qed

text \<open>A successful build appends an object that fits and registers it.\<close>

lemma build_cluster_cases:
  assumes "build_cluster env_of cid ki cons m = Some (r, m')"
  obtains (refused) e w where "r = Inl e" "m' = m\<lparr>map_world := w\<rparr>"
  | (success) ob w where "r = Inr (length (cluster_heap m))"
      "m' = m\<lparr>map_world := w, clusterCache := (clusterCache m)(cid \<mapsto> length (cluster_heap m)),
              cluster_heap := cluster_heap m @ [ob]\<rparr>"
      "identity (obj_cluster ob) = cid" "chunkCapacity (obj_cluster ob) = info_blockSize ki"
      "operation_timeout (obj_cluster ob) = nat (info_operation_timeout ki)" "connections (obj_cluster ob) = length cons"
      "obj_connections ob = cons" "obj_redundancy ob = the (rpCache m (rpName (info_numData ki) (info_numParity ki)))"
      "redundancy (obj_cluster ob) = provider_heap m ! obj_redundancy ob"
proof -
  let ?rp = "the (rpCache m (rpName (info_numData ki) (info_numParity ki)))"
  obtain q w where n: "KineticCluster_new (env_of cons) cid (info_blockSize ki) (nat (info_operation_timeout ki))
      (length cons) (provider_heap m ! ?rp) (map_world m) = (q, w)" by fastforce
  show ?thesis
  proof (cases q)
    case (Inl e)
    with n assms show ?thesis by (intro refused) (auto simp: build_cluster_def)
  next
    case (Inr cl)
    have new: "identity cl = cid" "chunkCapacity cl = info_blockSize ki"
      "operation_timeout cl = nat (info_operation_timeout ki)" "connections cl = length cons"
      "redundancy cl = provider_heap m ! ?rp"
      using KineticCluster_new_fields [OF n [unfolded Inr]] by simp_all
    let ?ob = "\<lparr>obj_cluster = cl, obj_connections = cons, obj_redundancy = ?rp\<rparr>"
    have "r = Inr (length (cluster_heap m)) \<and>
        m' = m\<lparr>map_world := w, clusterCache := (clusterCache m)(cid \<mapsto> length (cluster_heap m)),
              cluster_heap := cluster_heap m @ [?ob]\<rparr>"
      using assms unfolding build_cluster_def n Inr Let_def prod.case sum.case by simp
    then show ?thesis
      by (intro success [of ?ob]) (simp_all add: new)
  qed
qed

lemma getCluster_cases:
  assumes "getCluster dial env_of lib cid m = Some (r, m')" and "map_inv m"
  obtains (cached) a where "clusterCache m cid = Some a" "r = Inr a" "m' = m"
  | (failed) e where "clusterCache m cid = None" "r = Inl e"
      "m' = m \<or> (\<exists>nd np w. m' = (provide lib nd np m)\<lparr>map_world := w\<rparr>)"
  | (fresh) ki ob w where "clusterCache m cid = None" "clusterInfoMap m cid = Some ki" "r = Inr (length (cluster_heap m))"
      "m' = (provide lib (info_numData ki) (info_numParity ki) m)\<lparr>map_world := w,
              clusterCache := (clusterCache m)(cid \<mapsto> length (cluster_heap m)), cluster_heap := cluster_heap m @ [ob]\<rparr>"
      "built m' cid ki ob"
proof (cases "clusterCache m cid")
  case (Some a)
  with assms(1) show ?thesis by (intro cached [of a]) (auto simp: getCluster_def)
next
  case None
  show ?thesis
  proof (cases r)
    case (Inl e)
    with None assms(1) show ?thesis
      by (intro failed [of e])
        (auto simp: getCluster_def split: option.splits sum.splits if_splits elim!: build_cluster_cases)
  next
    case (Inr a)
    with None assms(1) obtain ki cons where ki: "clusterInfoMap m cid = Some ki" "info_numParity ki < info_numData ki"
      and cons: "make_connections dial (driveInfoMap m) (info_min_reconnect_interval ki) (map_world m) (info_drives ki) = Inr cons"
      and b: "build_cluster env_of cid ki cons (provide lib (info_numData ki) (info_numParity ki) m) = Some (Inr a, m')"
      by (auto simp: getCluster_def split: option.splits sum.splits if_splits)
    from provide_inv(2) [OF assms(2), of lib "info_numData ki" "info_numParity ki"] obtain p where
      p: "rpCache (provide lib (info_numData ki) (info_numParity ki) m) (rpName (info_numData ki) (info_numParity ki)) = Some p"
        "nData (provider_heap (provide lib (info_numData ki) (info_numParity ki) m) ! p) = info_numData ki"
        "nParity (provider_heap (provide lib (info_numData ki) (info_numParity ki) m) ! p) = info_numParity ki" by blast
    have c: "map (Some \<circ> con_options) cons = map (driveInfoMap m) (info_drives ki)"
      "\<forall>con \<in> set cons. ratelimit con = info_min_reconnect_interval ki"
      using cons by (auto simp: make_connections_Inr KineticAutoConnection_new_def)
    from b show ?thesis
    proof (cases rule: build_cluster_cases)
      case (success ob w)
      then show ?thesis
        using None ki p c Inr by (intro fresh [where ki = ki and ob = ob and w = w]) (auto simp: built_def Let_def)
    qed simp
  qed
qed


lemma built_later:
  "built m cid ki ob \<Longrightarrow> driveInfoMap m' = driveInfoMap m \<Longrightarrow>
     (\<And>n p. rpCache m n = Some p \<Longrightarrow> rpCache m' n = Some p) \<Longrightarrow> built m' cid ki ob"
  by (simp add: built_def Let_def)

lemma map_inv_world [simp]: "map_inv (m\<lparr>map_world := w\<rparr>) = map_inv m"
  by (simp add: map_inv_def built_def Let_def)

lemma map_inv_reset: "map_inv m \<Longrightarrow> map_inv (map_reset infos drives m)"
  by (simp add: map_inv_def map_reset_def)

lemma getCluster_inv:
  assumes "map_inv m" and "getCluster dial env_of lib cid m = Some (r, m')"
  shows "map_inv m'"
  using assms(2,1)
proof (cases rule: getCluster_cases)
  case (fresh ki ob w)
  let ?p = "provide lib (info_numData ki) (info_numParity ki) m"
  have p: "map_inv ?p" by (rule provide_inv(1) [OF assms(1)])
  have old: "built m' c k x" if "built ?p c k x" for c k x
    using that fresh(4) by (simp add: built_def Let_def)
  have "a < length (cluster_heap m') \<and> (\<exists>ki. clusterInfoMap m' c = Some ki \<and> built m' c ki (cluster_heap m' ! a))"
    if a: "clusterCache m' c = Some a" for c a
  proof (cases "c = cid")
    case True
    with a fresh show ?thesis by (simp add: nth_append)
  next
    case False
    with a fresh(4) have "clusterCache ?p c = Some a" by simp
    from map_invD(1,2) [OF p this] old fresh(4) show ?thesis by (auto simp: nth_append)
  qed
  moreover have "\<forall>n q. rpCache m' n = Some q \<longrightarrow> q < length (provider_heap m') \<and>
      n = rpName (nData (provider_heap m' ! q)) (nParity (provider_heap m' ! q))"
    using p fresh(4) by (simp add: map_inv_def)
  ultimately show ?thesis unfolding map_inv_def by blast
qed (auto simp: assms(1) provide_inv(1))

lemma map_reachable_inv: "map_reachable dial env_of lib m \<Longrightarrow> map_inv m"
proof (induction rule: map_reachable.induct)
  case (map_start w)
  show ?case by (simp add: map_inv_def ClusterMap_new_def)
qed (simp_all add: map_inv_reset getCluster_inv)

lemma getCluster_heap:
  "map_inv m \<Longrightarrow> getCluster dial env_of lib cid m = Some (r, m') \<Longrightarrow> prefix (cluster_heap m) (cluster_heap m')"
  by (erule getCluster_cases) auto

section \<open>Properties\<close>

text \<open>C16: In every reachable state of the cluster map, an object obtained for a name was built from the
  configuration in force for that name: block size, timeout, one connection per configured drive with
  that drive's options and the reconnect interval, and a redundancy provider of the configured shape,
  which is the one shared under that shape's name. Further lookups of the name by anybody return the
  same object and change nothing, and different names never share an object.\<close>

theorem clusters_match_configuration:
  assumes "map_reachable dial env_of lib m" and "getCluster dial env_of lib cid m = Some (Inr a, m')"
  shows "(\<exists>ki. clusterInfoMap m' cid = Some ki \<and> built m' cid ki (cluster_heap m' ! a)) \<and> a < length (cluster_heap m') \<and>
         (\<forall>dial' env_of' lib'. getCluster dial' env_of' lib' cid m' = Some (Inr a, m')) \<and>
         (\<forall>cid'. clusterCache m' cid' = Some a \<longrightarrow> cid' = cid)"
proof -
  have inv: "map_inv m" by (rule map_reachable_inv [OF assms(1)])
  have inv': "map_inv m'" by (rule getCluster_inv [OF inv assms(2)])
  from assms(2) inv have c: "clusterCache m' cid = Some a" by (cases rule: getCluster_cases) auto
  have "cid' = cid" if "clusterCache m' cid' = Some a" for cid'
    using map_invD(2) [OF inv' that] map_invD(2) [OF inv' c] by (auto simp: built_def Let_def)
  moreover have "getCluster dial' env_of' lib' cid m' = Some (Inr a, m')" for dial' env_of' lib'
    using c by (simp add: getCluster_def)
  ultimately show ?thesis using map_invD(1,2) [OF inv' c] by blast
qed

text \<open>C35: Replacing the configuration separates old and new users: a lookup after the replacement builds
  a new object and leaves every object that was obtained before untouched. A lookup of the
  administrative interface, which consults the map a second time without its mutex, returns the same
  object as a lookup of the cluster, but fails with an out-of-range exception when the configuration
  is replaced between its two steps.\<close>

theorem reload_during_lookup:
  assumes "map_reachable dial env_of lib m" and "getCluster dial env_of lib cid m = Some (Inr a, m1)"
  shows "getAdminCluster dial env_of lib (\<lambda>m. m) cid m = Some (Inr a, m1) \<and>
         getAdminCluster dial env_of lib (map_reset infos drives) cid m = Some (Inl Out_of_range, map_reset infos drives m1) \<and>
         (\<forall>a' m2. getCluster dial env_of lib cid (map_reset infos drives m1) = Some (Inr a', m2) \<longrightarrow>
            a' \<noteq> a \<and> cluster_heap m2 ! a = cluster_heap m1 ! a)"
proof -
  have inv: "map_inv m" by (rule map_reachable_inv [OF assms(1)])
  have inv1: "map_inv m1" by (rule getCluster_inv [OF inv assms(2)])
  from assms(2) inv have c: "clusterCache m1 cid = Some a" by (cases rule: getCluster_cases) auto
  have admin: "getAdminCluster dial env_of lib (\<lambda>m. m) cid m = Some (Inr a, m1)"
    "getAdminCluster dial env_of lib (map_reset infos drives) cid m = Some (Inl Out_of_range, map_reset infos drives m1)"
    using assms(2) c by (simp_all add: getAdminCluster_def map_reset_def)
  have bound: "a < length (cluster_heap m1)" by (rule map_invD(1) [OF inv1 c])
  have "a' \<noteq> a \<and> cluster_heap m2 ! a = cluster_heap m1 ! a"
    if new: "getCluster dial env_of lib cid (map_reset infos drives m1) = Some (Inr a', m2)" for a' m2
  proof -
    from new map_inv_reset [OF inv1] have "a' = length (cluster_heap m1)"
      by (cases rule: getCluster_cases) (simp_all add: map_reset_def)
    moreover have "prefix (cluster_heap m1) (cluster_heap m2)"
      using getCluster_heap [OF map_inv_reset [OF inv1] new] by (simp add: map_reset_def)
    ultimately show ?thesis using bound by (auto simp: prefix_def nth_append)
  qed
  with admin show ?thesis by blast
qed


subsection \<open>Example\<close>

definition quiet_dial :: "'w dialer" where
  "quiet_dial =
     \<lparr>dial_new = (\<lambda>opts w. (None, w)), dial_noop = (\<lambda>con w. (0, w)), dial_callback = (\<lambda>cb w. None),
      dial_run = (\<lambda>con w. ((False, None), w)), dial_select = (\<lambda>fd w. (0, w)), dial_epoll_add = (\<lambda>fd w. (None, w)),
      dial_random = (\<lambda>w. (0, w)), dial_now = (\<lambda>w. 0)\<rparr>"

definition demo_info :: ClusterInformation where
  "demo_info = \<lparr>info_numData = 2, info_numParity = 1, info_blockSize = 4, info_min_reconnect_interval = 2,
     info_operation_timeout = 5, info_drives = [''d1'', ''d2'', ''d3'']\<rparr>"

definition demo_drives :: "string \<rightharpoonup> drive_info" where
  "demo_drives = [''d1'' \<mapsto> (demo_options, demo_options), ''d2'' \<mapsto> (demo_options, demo_options),
     ''d3'' \<mapsto> (demo_options, demo_options)]"

text \<open>The first drive is down when the cluster is built.\<close>

definition demo_map :: "sim cluster_map" where
  "demo_map = map_reset [''c'' \<mapsto> demo_info] demo_drives (ClusterMap_new (sim_init [0]))"

definition demo_env :: "sim env" where
  "demo_env = sim_env\<lparr>env_log := (\<lambda>c t ts w. (if sim_down w c then NotConnected else
     Answered True (Inr \<lparr>limit_value_size = 8, limit_key_size = 8, limit_version_size = 8,
       nominal_capacity_in_bytes = 8, portion_full = 0, operation_statistics = []\<rparr>), w))\<rparr>"

lemma demo_map_reachable: "map_reachable dial env_of lib demo_map"
  unfolding demo_map_def by (intro map_reachable.intros)

lemma demo_lookup: "\<exists>m. getCluster quiet_dial (\<lambda>cons. demo_env) sum_lib ''c'' demo_map = Some (Inr 0, m)"
proof -
  have "map_option fst (getCluster quiet_dial (\<lambda>cons. demo_env) sum_lib ''c'' demo_map) = Some (Inr 0)" by code_simp
  then show ?thesis by auto
qed


theorem clusters_match_configuration_witness:
  "\<exists>m. getCluster quiet_dial (\<lambda>cons. demo_env) sum_lib ''c'' demo_map = Some (Inr 0, m) \<and>
     (\<exists>ki. clusterInfoMap m ''c'' = Some ki \<and> built m ''c'' ki (cluster_heap m ! 0)) \<and>
     getCluster quiet_dial (\<lambda>cons. demo_env) sum_lib ''c'' m = Some (Inr 0, m)"
proof -
  obtain m where m: "getCluster quiet_dial (\<lambda>cons. demo_env) sum_lib ''c'' demo_map = Some (Inr 0, m)"
    using demo_lookup by blast
  from clusters_match_configuration [OF demo_map_reachable m] m show ?thesis by blast
qed

theorem reload_during_lookup_witness:
  "\<exists>m. getAdminCluster quiet_dial (\<lambda>cons. demo_env) sum_lib (\<lambda>m. m) ''c'' demo_map = Some (Inr 0, m) \<and>
     getAdminCluster quiet_dial (\<lambda>cons. demo_env) sum_lib (map_reset Map.empty Map.empty) ''c'' demo_map =
       Some (Inl Out_of_range, map_reset Map.empty Map.empty m)"
proof -
  obtain m where m: "getCluster quiet_dial (\<lambda>cons. demo_env) sum_lib ''c'' demo_map = Some (Inr 0, m)"
    using demo_lookup by blast
  from reload_during_lookup [OF demo_map_reachable m, of Map.empty Map.empty] show ?thesis by blast
qed

end
