(* ===== verification/Io_Configuration.thy ===== *)
theory Io_Configuration
  imports Cluster_Map Data_Cache
begin

text \<open>
  \<^verbatim>\<open>KineticIoSingleton\<close> (src/KineticIoSingleton.cc): the configuration of the library, read from three
  environment variables that hold JSON text or the path of a file with it, and installed in the cluster
  map, the data cache and the thread pool.

  The JSON library json-c is a parameter: a record of the functions the code calls over an arbitrary
  type of pointers. The environment variables are a function \<open>getenv\<close>, and the contents of the files
  a function \<open>files\<close>, empty for a file that cannot be read. \<open>dflt\<close> is the connection options as the
  client library constructs them. Constructing a \<^verbatim>\<open>std::string\<close> from a null pointer is undefined.
  Where \<^verbatim>\<open>changeConfiguration\<close> waits for the threads of the pool the handler is left in its state of
  reconfiguration, which the steps of \<open>Background_Handler\<close> complete.
\<close>

section \<open>Model\<close>

record 'j json_lib =
  json_tokener_parse :: "string \<Rightarrow> 'j"
  json_is_null :: "'j \<Rightarrow> bool"
  json_object_get_ex :: "'j \<Rightarrow> string \<Rightarrow> 'j option"
  json_array_length :: "'j \<Rightarrow> int"
  json_array_get_idx :: "'j \<Rightarrow> int \<Rightarrow> 'j"
  json_get_string :: "'j \<Rightarrow> string option"
  json_get_int :: "'j \<Rightarrow> int"

record Configuration =
  stripecache_capacity :: nat
  readahead_window_size :: nat
  background_io_threads :: int
  background_io_queue_capacity :: int

record ('w, 's) singleton =
  configuration :: Configuration
  clusterMap :: "'w cluster_map"
  dataCache :: "'s kio_state"

type_synonym ('w, 's, 'a) singleton_op = "(('w, 's) singleton, 'a) kio"

text \<open>Conversion to the 64 bit unsigned \<^verbatim>\<open>size_t\<close>, and its product.\<close>

definition to_size :: "int \<Rightarrow> nat" where
  "to_size k = nat (k mod 18446744073709551616)"

definition size_mult :: "nat \<Rightarrow> nat \<Rightarrow> nat" where
  "size_mult a b = (a * b) mod 18446744073709551616"

subsection \<open>Reading entries\<close>

definition readfile :: "(string \<Rightarrow> string) \<Rightarrow> string \<Rightarrow> string res" where
  "readfile files path = (if files path = [] then Inl (System_error io_error) else Inr (files path))"

definition json_member :: "'j json_lib \<Rightarrow> 'j \<Rightarrow> string \<Rightarrow> 'j res" where
  "json_member jl obj k =
     (case json_object_get_ex jl obj k of None \<Rightarrow> Inl (System_error invalid_argument) | Some tmp \<Rightarrow> Inr tmp)"

definition json_string_of :: "'j json_lib \<Rightarrow> 'j \<Rightarrow> string res" where
  "json_string_of jl j = (case json_get_string jl j of None \<Rightarrow> Inl Undefined_behaviour | Some s \<Rightarrow> Inr s)"

definition loadJsonStringEntry :: "'j json_lib \<Rightarrow> 'j \<Rightarrow> string \<Rightarrow> string res" where
  "loadJsonStringEntry jl obj k = res_bind (json_member jl obj k) (json_string_of jl)"

definition loadJsonIntEntry :: "'j json_lib \<Rightarrow> 'j \<Rightarrow> string \<Rightarrow> int res" where
  "loadJsonIntEntry jl obj k = res_bind (json_member jl obj k) (\<lambda>tmp. Inr (json_get_int jl tmp))"

text \<open>The entries of an array in order, with a result that each entry extends or refuses.\<close>

fun json_fold :: "('j \<Rightarrow> 'a \<Rightarrow> 'a res) \<Rightarrow> 'j list \<Rightarrow> 'a \<Rightarrow> 'a res" where
  "json_fold f [] x = Inr x"
| "json_fold f (j # js) x = res_bind (f j x) (json_fold f js)"

definition json_entries :: "'j json_lib \<Rightarrow> 'j \<Rightarrow> 'j list" where
  "json_entries jl arr = map (\<lambda>i. json_array_get_idx jl arr (int i)) [0..<nat (json_array_length jl arr)]"

text \<open>\<^verbatim>\<open>unordered_map::insert\<close> keeps an entry that exists.\<close>

definition map_insert :: "'k \<Rightarrow> 'v \<Rightarrow> ('k \<rightharpoonup> 'v) \<Rightarrow> ('k \<rightharpoonup> 'v)" where
  "map_insert k v m = (if m k = None then m(k \<mapsto> v) else m)"

subsection \<open>Drives\<close>

definition parse_location ::
  "'j json_lib \<Rightarrow> ConnectionOptions \<Rightarrow> 'j \<Rightarrow> (string \<rightharpoonup> drive_info) \<Rightarrow> (string \<rightharpoonup> drive_info) res" where
  "parse_location jl dflt drive driveInfo =
     res_bind (loadJsonStringEntry jl drive ''wwn'') (\<lambda>wwn.
     res_bind (json_member jl drive ''inet4'') (\<lambda>inet4.
     let host = json_array_get_idx jl inet4 0
     in if json_is_null jl host then Inl (System_error invalid_argument) else
        res_bind (json_string_of jl host) (\<lambda>first.
        let host = json_array_get_idx jl inet4 1
        in res_bind (if \<not> json_is_null jl host then json_string_of jl host else Inr first) (\<lambda>second.
           res_bind (loadJsonIntEntry jl drive ''port'') (\<lambda>port.
           Inr (map_insert wwn
             (dflt\<lparr>opt_host := first, opt_port := port, opt_use_ssl := False\<rparr>,
              dflt\<lparr>opt_host := second, opt_port := port, opt_use_ssl := False\<rparr>) driveInfo))))))"

definition parse_security ::
  "'j json_lib \<Rightarrow> 'j \<Rightarrow> (string \<rightharpoonup> drive_info) \<Rightarrow> (string \<rightharpoonup> drive_info) res" where
  "parse_security jl drive driveInfo =
     res_bind (loadJsonStringEntry jl drive ''wwn'') (\<lambda>wwn.
     case driveInfo wwn of
       None \<Rightarrow> Inl (System_error invalid_argument)
     | Some (first, second) \<Rightarrow>
         res_bind (loadJsonIntEntry jl drive ''userId'') (\<lambda>user.
         res_bind (loadJsonStringEntry jl drive ''key'') (\<lambda>hmac.
         Inr (driveInfo(wwn \<mapsto> (first\<lparr>opt_user_id := user, opt_hmac_key := hmac\<rparr>,
                                second\<lparr>opt_user_id := user, opt_hmac_key := hmac\<rparr>))))))"

definition parseDrives :: "'j json_lib \<Rightarrow> ConnectionOptions \<Rightarrow> 'j \<Rightarrow> 'j \<Rightarrow> (string \<rightharpoonup> drive_info) res" where
  "parseDrives jl dflt locations security =
     res_bind (json_fold (parse_location jl dflt) (json_entries jl locations) Map.empty)
       (json_fold (parse_security jl) (json_entries jl security))"

subsection \<open>Clusters\<close>

definition parse_cluster_drives :: "'j json_lib \<Rightarrow> 'j \<Rightarrow> string list res" where
  "parse_cluster_drives jl list =
     json_fold (\<lambda>drive wwns. res_bind (loadJsonStringEntry jl drive ''wwn'') (\<lambda>wwn. Inr (wwns @ [wwn])))
       (json_entries jl list) []"

definition parse_cluster ::
  "'j json_lib \<Rightarrow> 'j \<Rightarrow> (string \<rightharpoonup> ClusterInformation) \<Rightarrow> (string \<rightharpoonup> ClusterInformation) res" where
  "parse_cluster jl entry clusterInfo =
     res_bind (loadJsonStringEntry jl entry ''clusterID'') (\<lambda>cid.
     res_bind (loadJsonIntEntry jl entry ''numData'') (\<lambda>nd.
     res_bind (loadJsonIntEntry jl entry ''numParity'') (\<lambda>np.
     res_bind (loadJsonIntEntry jl entry ''chunkSizeKB'') (\<lambda>kb.
     res_bind (loadJsonIntEntry jl entry ''minReconnectInterval'') (\<lambda>interval.
     res_bind (loadJsonIntEntry jl entry ''timeout'') (\<lambda>timeout.
     res_bind (json_member jl entry ''drives'') (\<lambda>list.
     res_bind (parse_cluster_drives jl list) (\<lambda>wwns.
     Inr (map_insert cid
       \<lparr>info_numData = to_size nd, info_numParity = to_size np, info_blockSize = size_mult (to_size kb) 1024,
        info_min_reconnect_interval = interval, info_operation_timeout = timeout, info_drives = wwns\<rparr> clusterInfo)))))))))"

definition parseClusters :: "'j json_lib \<Rightarrow> 'j \<Rightarrow> (string \<rightharpoonup> ClusterInformation) res" where
  "parseClusters jl clusters = json_fold (parse_cluster jl) (json_entries jl clusters) Map.empty"

subsection \<open>The library\<close>

text \<open>\<^verbatim>\<open>parseConfiguration\<close> assigns the members one after the other.\<close>

definition configure :: "(Configuration \<Rightarrow> Configuration) \<Rightarrow> ('w, 's, unit) singleton_op" where
  "configure f = modify (\<lambda>s. s\<lparr>configuration := f (configuration s)\<rparr>)"

definition parseConfiguration :: "'j json_lib \<Rightarrow> 'j \<Rightarrow> ('w, 's, unit) singleton_op" where
  "parseConfiguration jl config =
     bnd (lift_res (loadJsonIntEntry jl config ''cacheCapacityMB'')) (\<lambda>mb.
     seq (configure (\<lambda>c. c\<lparr>stripecache_capacity := size_mult (to_size mb) 1048576\<rparr>))
     (bnd (lift_res (loadJsonIntEntry jl config ''maxReadaheadWindow'')) (\<lambda>window.
     seq (configure (\<lambda>c. c\<lparr>readahead_window_size := to_size window\<rparr>))
     (bnd (lift_res (loadJsonIntEntry jl config ''maxBackgroundIoThreads'')) (\<lambda>n.
     seq (configure (\<lambda>c. c\<lparr>background_io_threads := n\<rparr>))
     (bnd (lift_res (loadJsonIntEntry jl config ''maxBackgroundIoQueue'')) (\<lambda>n.
     configure (\<lambda>c. c\<lparr>background_io_queue_capacity := n\<rparr>))))))))"

text \<open>A variable that starts with a slash or a dot names a file.\<close>

definition config_text :: "(string \<Rightarrow> string) \<Rightarrow> string \<Rightarrow> string res" where
  "config_text files v =
     (case v of c # _ \<Rightarrow> if c = CHR ''/'' \<or> c = CHR ''.'' then readfile files v else Inr v | [] \<Rightarrow> Inr v)"

definition env_variable :: "(string \<rightharpoonup> string) \<Rightarrow> string \<Rightarrow> string res" where
  "env_variable getenv name = (case getenv name of None \<Rightarrow> Inl (System_error invalid_argument) | Some v \<Rightarrow> Inr v)"

definition json_root :: "'j json_lib \<Rightarrow> string \<Rightarrow> 'j res" where
  "json_root jl data =
     (let root = json_tokener_parse jl data
      in if json_is_null jl root then Inl (System_error executable_format_error) else Inr root)"

definition json_sources :: "'j json_lib \<Rightarrow> (string \<rightharpoonup> string) \<Rightarrow> (string \<Rightarrow> string) \<Rightarrow> ('j \<times> 'j \<times> 'j) res" where
  "json_sources jl getenv files =
     res_bind (env_variable getenv ''KINETIC_DRIVE_LOCATION'') (\<lambda>location.
     res_bind (env_variable getenv ''KINETIC_DRIVE_SECURITY'') (\<lambda>security.
     res_bind (env_variable getenv ''KINETIC_CLUSTER_DEFINITION'') (\<lambda>clusters.
     res_bind (config_text files location) (\<lambda>location_data.
     res_bind (config_text files security) (\<lambda>security_data.
     res_bind (config_text files clusters) (\<lambda>cluster_data.
     res_bind (json_root jl location_data) (\<lambda>location_root.
     res_bind (json_root jl security_data) (\<lambda>security_root.
     res_bind (json_root jl cluster_data) (\<lambda>cluster_root.
     Inr (location_root, security_root, cluster_root))))))))))"

definition install ::
  "(string \<rightharpoonup> ClusterInformation) \<Rightarrow> (string \<rightharpoonup> drive_info) \<Rightarrow> ('w, 's) singleton \<Rightarrow> ('w, 's) singleton" where
  "install clusterInfo driveInfo s =
     (let c = configuration s
      in s\<lparr>clusterMap := map_reset clusterInfo driveInfo (clusterMap s),
           dataCache := (dataCache s)\<lparr>cache_capacity := stripecache_capacity c,
             pool := changeConfiguration (to_size (background_io_threads c)) (to_size (background_io_queue_capacity c))
                       (pool (dataCache s))\<rparr>\<rparr>)"

definition loadConfiguration ::
  "'j json_lib \<Rightarrow> ConnectionOptions \<Rightarrow> (string \<rightharpoonup> string) \<Rightarrow> (string \<Rightarrow> string) \<Rightarrow> ('w, 's, unit) singleton_op" where
  "loadConfiguration jl dflt getenv files =
     bnd (lift_res (json_sources jl getenv files)) (\<lambda>(location_root, security_root, cluster_root).
     bnd (lift_res (json_member jl location_root ''location'')) (\<lambda>o1.
     bnd (lift_res (json_member jl security_root ''security'')) (\<lambda>o2.
     bnd (lift_res (parseDrives jl dflt o1 o2)) (\<lambda>driveInfo.
     bnd (lift_res (json_member jl cluster_root ''cluster'')) (\<lambda>o1.
     bnd (lift_res (parseClusters jl o1)) (\<lambda>clusterInfo.
     bnd (lift_res (json_member jl cluster_root ''configuration'')) (\<lambda>o1.
     seq (parseConfiguration jl o1) (modify (install clusterInfo driveInfo)))))))))"

text \<open>The constructor; an exception while loading is only logged. The members of the configuration that
  it does not initialise are not read before they are assigned.\<close>

definition KineticIoSingleton_new ::
  "'j json_lib \<Rightarrow> ConnectionOptions \<Rightarrow> (string \<rightharpoonup> string) \<Rightarrow> (string \<Rightarrow> string) \<Rightarrow> 'w \<Rightarrow> 's DataBlock \<Rightarrow> 's \<Rightarrow>
   (unit res \<times> ('w, 's) singleton) option" where
  "KineticIoSingleton_new jl dflt getenv files w b0 s =
     catch (loadConfiguration jl dflt getenv files) (\<lambda>e. ret ())
       \<lparr>configuration = \<lparr>stripecache_capacity = 0, readahead_window_size = 0, background_io_threads = 0,
          background_io_queue_capacity = 0\<rparr>,
        clusterMap = ClusterMap_new w, dataCache = DataCache_new 0 (handler_init 0 0) b0 s\<rparr>"

definition readaheadWindowSize :: "('w, 's) singleton \<Rightarrow> nat" where
  "readaheadWindowSize s = readahead_window_size (configuration s)"


section \<open>JSON documents\<close>

text \<open>
  What the code relies on of the JSON library: a pointer denotes a document when the access functions
  return the parts of that document. The functions of json-c are documented to behave so on the
  pointer that the parser returns for a text of the document.
\<close>

datatype json = JInt int | JString string | JArray "json list" | JObject "(string \<times> json) list"

inductive denotes :: "'j json_lib \<Rightarrow> 'j \<Rightarrow> json \<Rightarrow> bool" for jl where
  d_int: "\<not> json_is_null jl j \<Longrightarrow> json_get_int jl j = k \<Longrightarrow> denotes jl j (JInt k)"
| d_string: "\<not> json_is_null jl j \<Longrightarrow> json_get_string jl j = Some s \<Longrightarrow> denotes jl j (JString s)"
| d_array: "\<not> json_is_null jl j \<Longrightarrow> json_array_length jl j = int (length ts) \<Longrightarrow>
    (\<forall>i < length ts. denotes jl (json_array_get_idx jl j (int i)) (ts ! i)) \<Longrightarrow>
    (\<forall>i \<ge> length ts. json_is_null jl (json_array_get_idx jl j (int i))) \<Longrightarrow> denotes jl j (JArray ts)"
| d_object: "\<not> json_is_null jl j \<Longrightarrow> (\<forall>k. rel_option (denotes jl) (json_object_get_ex jl j k) (map_of fs k)) \<Longrightarrow>
    denotes jl j (JObject fs)"

inductive_simps denotes_int [simp]: "denotes jl j (JInt k)"
inductive_simps denotes_string [simp]: "denotes jl j (JString s)"
inductive_simps denotes_array: "denotes jl j (JArray ts)"
inductive_simps denotes_object: "denotes jl j (JObject fs)"

lemma denotes_not_null: "denotes jl j t \<Longrightarrow> \<not> json_is_null jl j"
  by (cases rule: denotes.cases) auto

lemma member_denotes:
  assumes "denotes jl j (JObject fs)" and "map_of fs k = Some t"
  obtains j' where "json_member jl j k = Inr j'" and "denotes jl j' t"
proof -
  have "rel_option (denotes jl) (json_object_get_ex jl j k) (Some t)"
    using assms by (auto simp: denotes_object) (metis assms(2))
  then show ?thesis by (cases "json_object_get_ex jl j k") (auto simp: json_member_def intro: that)
qed

lemma string_entry:
  "denotes jl j (JObject fs) \<Longrightarrow> map_of fs k = Some (JString s) \<Longrightarrow> loadJsonStringEntry jl j k = Inr s"
  by (erule (1) member_denotes) (simp add: loadJsonStringEntry_def json_string_of_def)

lemma int_entry:
  "denotes jl j (JObject fs) \<Longrightarrow> map_of fs k = Some (JInt n) \<Longrightarrow> loadJsonIntEntry jl j k = Inr n"
  by (erule (1) member_denotes) (simp add: loadJsonIntEntry_def)

lemma entries_denote: "denotes jl j (JArray ts) \<Longrightarrow> list_all2 (denotes jl) (json_entries jl j) ts"
  by (simp add: denotes_array json_entries_def list_all2_conv_all_nth)

subsection \<open>The documents of a configuration\<close>

record drive_description =
  dd_wwn :: string
  dd_first :: string
  dd_second :: string
  dd_port :: int
  dd_user :: int
  dd_key :: string

definition location_json :: "drive_description \<Rightarrow> json" where
  "location_json d = JObject [(''wwn'', JString (dd_wwn d)),
     (''inet4'', JArray [JString (dd_first d), JString (dd_second d)]), (''port'', JInt (dd_port d))]"

definition security_json :: "drive_description \<Rightarrow> json" where
  "security_json d = JObject [(''wwn'', JString (dd_wwn d)), (''userId'', JInt (dd_user d)), (''key'', JString (dd_key d))]"

definition cluster_json :: "string \<times> ClusterInformation \<Rightarrow> json" where
  "cluster_json c = (case c of (cid, ki) \<Rightarrow> JObject
     [(''clusterID'', JString cid), (''numData'', JInt (int (info_numData ki))),
      (''numParity'', JInt (int (info_numParity ki))), (''chunkSizeKB'', JInt (int (info_blockSize ki div 1024))),
      (''minReconnectInterval'', JInt (info_min_reconnect_interval ki)), (''timeout'', JInt (info_operation_timeout ki)),
      (''drives'', JArray (map (\<lambda>wwn. JObject [(''wwn'', JString wwn)]) (info_drives ki)))])"

definition configuration_json :: "Configuration \<Rightarrow> json" where
  "configuration_json c = JObject
     [(''cacheCapacityMB'', JInt (int (stripecache_capacity c div 1048576))),
      (''maxReadaheadWindow'', JInt (int (readahead_window_size c))),
      (''maxBackgroundIoThreads'', JInt (background_io_threads c)),
      (''maxBackgroundIoQueue'', JInt (background_io_queue_capacity c))]"

definition location_options :: "ConnectionOptions \<Rightarrow> drive_description \<Rightarrow> drive_info" where
  "location_options dflt d =
     (dflt\<lparr>opt_host := dd_first d, opt_port := dd_port d, opt_use_ssl := False\<rparr>,
      dflt\<lparr>opt_host := dd_second d, opt_port := dd_port d, opt_use_ssl := False\<rparr>)"

definition drive_options :: "ConnectionOptions \<Rightarrow> drive_description \<Rightarrow> drive_info" where
  "drive_options dflt d = (case location_options dflt d of (a, b) \<Rightarrow>
     (a\<lparr>opt_user_id := dd_user d, opt_hmac_key := dd_key d\<rparr>, b\<lparr>opt_user_id := dd_user d, opt_hmac_key := dd_key d\<rparr>))"

text \<open>The numbers of a configuration fit their fields in the document.\<close>

definition info_fits :: "ClusterInformation \<Rightarrow> bool" where
  "info_fits ki \<longleftrightarrow> info_numData ki < 2147483648 \<and> info_numParity ki < 2147483648 \<and>
     1024 dvd info_blockSize ki \<and> info_blockSize ki div 1024 < 2147483648"

lemma to_size_int [simp]: "n < 18446744073709551616 \<Longrightarrow> to_size (int n) = n"
  by (simp add: to_size_def)

lemma size_mult_small: "a * b < 18446744073709551616 \<Longrightarrow> size_mult a b = a * b"
  by (simp add: size_mult_def)


subsection \<open>Reading the documents\<close>

lemma json_fold_map_add:
  assumes "list_all2 (denotes jl) js (map enc xs)" and "distinct (map name xs)"
    and "\<And>j x m. x \<in> set xs \<Longrightarrow> denotes jl j (enc x) \<Longrightarrow> ready x m \<Longrightarrow> f j m = Inr (m(name x \<mapsto> v x))"
    and "\<And>x y m. x \<in> set xs \<Longrightarrow> y \<in> set xs \<Longrightarrow> name x \<noteq> name y \<Longrightarrow> ready y m \<Longrightarrow> ready y (m(name x \<mapsto> v x))"
    and "\<And>x. x \<in> set xs \<Longrightarrow> ready x m"
  shows "json_fold f js m = Inr (m ++ map_of (map (\<lambda>x. (name x, v x)) xs))"
  using assms
proof (induction xs arbitrary: js m)
  case Nil
  then show ?case by simp
next
  case (Cons x xs)
  then obtain j js' where js: "js = j # js'" "denotes jl j (enc x)" "list_all2 (denotes jl) js' (map enc xs)"
    by (auto simp: list_all2_Cons2)
  have step: "f j m = Inr (m(name x \<mapsto> v x))" by (rule Cons.prems(3) [OF _ js(2) Cons.prems(5)]) simp_all
  have "json_fold f js' (m(name x \<mapsto> v x)) = Inr (m(name x \<mapsto> v x) ++ map_of (map (\<lambda>x. (name x, v x)) xs))"
  proof (rule Cons.IH [OF js(3)])
    fix y assume y: "y \<in> set xs"
    then have "name x \<noteq> name y" using Cons.prems(2) by auto
    then show "ready y (m(name x \<mapsto> v x))" using y by (intro Cons.prems(4,5)) simp_all
  qed (use Cons.prems(2-4) in auto)
  moreover have "name x \<notin> dom (map_of (map (\<lambda>x. (name x, v x)) xs))"
    using Cons.prems(2) by (auto simp: dom_map_of_conv_image_fst image_iff)
  ultimately show ?case by (simp add: js(1) step map_add_upd_left) (auto simp: fun_eq_iff map_add_def)
qed

lemma parse_location_denotes:
  assumes "denotes jl j (location_json d)" and "m (dd_wwn d) = None"
  shows "parse_location jl dflt j m = Inr (m(dd_wwn d \<mapsto> location_options dflt d))"
proof -
  note obj = assms(1) [unfolded location_json_def]
  obtain inet4 where inet4: "json_member jl j ''inet4'' = Inr inet4"
    "denotes jl inet4 (JArray [JString (dd_first d), JString (dd_second d)])"
    by (rule member_denotes [OF obj, of "''inet4''"]) (simp_all split del: if_split)
  from inet4(2) have "denotes jl (json_array_get_idx jl inet4 (int 0)) (JString (dd_first d))"
    "denotes jl (json_array_get_idx jl inet4 (int 1)) (JString (dd_second d))"
    unfolding denotes_array by (metis length_Cons nth_Cons_0 nth_Cons_Suc zero_less_Suc One_nat_def Suc_less_eq)+
  then show ?thesis
    using string_entry [OF obj, of "''wwn''"] int_entry [OF obj, of "''port''"] inet4(1) assms(2)
    by (simp add: parse_location_def json_string_of_def location_options_def map_insert_def)
qed

lemma parse_security_denotes:
  assumes "denotes jl j (security_json d)" and "m (dd_wwn d) = Some (location_options dflt d)"
  shows "parse_security jl j m = Inr (m(dd_wwn d \<mapsto> drive_options dflt d))"
proof -
  note obj = assms(1) [unfolded security_json_def]
  show ?thesis
    using string_entry [OF obj, of "''wwn''"] int_entry [OF obj, of "''userId''"] string_entry [OF obj, of "''key''"] assms(2)
    by (simp add: parse_security_def drive_options_def split: prod.splits)
qed

lemma map_add_same_dom: "dom m \<subseteq> dom n \<Longrightarrow> m ++ n = n"
  by (rule ext) (auto simp: map_add_def split: option.splits)

lemma parseDrives_denotes:
  assumes "denotes jl l (JArray (map location_json ds))" and "denotes jl s (JArray (map security_json ds))"
    and "distinct (map dd_wwn ds)"
  shows "parseDrives jl dflt l s = Inr (map_of (map (\<lambda>d. (dd_wwn d, drive_options dflt d)) ds))"
proof -
  let ?loc = "map_of (map (\<lambda>d. (dd_wwn d, location_options dflt d)) ds)"
  let ?full = "map_of (map (\<lambda>d. (dd_wwn d, drive_options dflt d)) ds)"
  have "json_fold (parse_location jl dflt) (json_entries jl l) Map.empty = Inr (Map.empty ++ ?loc)"
    by (rule json_fold_map_add [OF entries_denote [OF assms(1)] assms(3), where ready = "\<lambda>d m. m (dd_wwn d) = None"])
      (simp_all add: parse_location_denotes)
  moreover have "json_fold (parse_security jl) (json_entries jl s) ?loc = Inr (?loc ++ ?full)"
  proof (rule json_fold_map_add [OF entries_denote [OF assms(2)] assms(3),
        where ready = "\<lambda>d m. m (dd_wwn d) = Some (location_options dflt d)"])
    fix d assume "d \<in> set ds"
    then show "?loc (dd_wwn d) = Some (location_options dflt d)"
      using assms(3) by (intro map_of_is_SomeI) (auto simp: comp_def)
  qed (simp_all add: parse_security_denotes)
  moreover have "?loc ++ ?full = ?full"
    by (rule map_add_same_dom) (auto simp: dom_map_of_conv_image_fst image_image)
  ultimately show ?thesis by (simp add: parseDrives_def)
qed

lemma parse_cluster_drives_denotes:
  assumes "denotes jl j (JArray (map (\<lambda>wwn. JObject [(''wwn'', JString wwn)]) wwns))"
  shows "parse_cluster_drives jl j = Inr wwns"
proof -
  have "json_fold (\<lambda>drive wwns. res_bind (loadJsonStringEntry jl drive ''wwn'') (\<lambda>wwn. Inr (wwns @ [wwn]))) js acc =
      Inr (acc @ wwns)"
    if "list_all2 (denotes jl) js (map (\<lambda>wwn. JObject [(''wwn'', JString wwn)]) wwns)" for js acc wwns
    using that
  proof (induction wwns arbitrary: js acc)
    case (Cons wwn wwns)
    then obtain j js' where js: "js = j # js'" "denotes jl j (JObject [(''wwn'', JString wwn)])"
      "list_all2 (denotes jl) js' (map (\<lambda>wwn. JObject [(''wwn'', JString wwn)]) wwns)"
      by (auto simp: list_all2_Cons2)
    with Cons.IH [OF js(3)] string_entry [OF js(2), of "''wwn''"] show ?case by simp
  qed simp
  from this [OF entries_denote [OF assms], of "[]"] show ?thesis by (simp add: parse_cluster_drives_def)
qed

lemma parse_cluster_denotes:
  assumes "denotes jl j (cluster_json (cid, ki))" and "info_fits ki" and "m cid = None"
  shows "parse_cluster jl j m = Inr (m(cid \<mapsto> ki))"
proof -
  note obj = assms(1) [unfolded cluster_json_def prod.case]
  obtain l where l: "json_member jl j ''drives'' = Inr l"
    "denotes jl l (JArray (map (\<lambda>wwn. JObject [(''wwn'', JString wwn)]) (info_drives ki)))"
    by (rule member_denotes [OF obj, of "''drives''"]) (simp_all split del: if_split)
  have "size_mult (to_size (int (info_blockSize ki div 1024))) 1024 = info_blockSize ki"
    using assms(2) by (subst size_mult_small) (auto simp: info_fits_def)
  then show ?thesis
    using string_entry [OF obj, of "''clusterID''"] int_entry [OF obj, of "''numData''"] int_entry [OF obj, of "''numParity''"]
      int_entry [OF obj, of "''chunkSizeKB''"] int_entry [OF obj, of "''minReconnectInterval''"]
      int_entry [OF obj, of "''timeout''"] l(1) parse_cluster_drives_denotes [OF l(2)] assms(2,3)
    by (cases ki) (simp add: parse_cluster_def map_insert_def info_fits_def)
qed

lemma parseClusters_denotes:
  assumes "denotes jl j (JArray (map cluster_json cs))" and "distinct (map fst cs)" and "\<And>c. c \<in> set cs \<Longrightarrow> info_fits (snd c)"
  shows "parseClusters jl j = Inr (map_of cs)"
proof -
  have "json_fold (parse_cluster jl) (json_entries jl j) Map.empty = Inr (Map.empty ++ map_of (map (\<lambda>c. (fst c, snd c)) cs))"
    by (rule json_fold_map_add [OF entries_denote [OF assms(1)] assms(2), where ready = "\<lambda>c m. m (fst c) = None"])
      (simp_all add: parse_cluster_denotes assms(3) split_paired_all)
  then show ?thesis by (simp add: parseClusters_def)
qed


lemma seq_configure [simp]: "seq (configure f) m s = m (s\<lparr>configuration := f (configuration s)\<rparr>)"
  by (simp add: configure_def)

definition configuration_fits :: "Configuration \<Rightarrow> bool" where
  "configuration_fits c \<longleftrightarrow> 1048576 dvd stripecache_capacity c \<and> stripecache_capacity c div 1048576 < 2147483648 \<and>
     readahead_window_size c < 2147483648"

lemma parseConfiguration_denotes:
  assumes "denotes jl j (configuration_json c)" and "configuration_fits c"
  shows "parseConfiguration jl j s = Some (Inr (), s\<lparr>configuration := c\<rparr>)"
proof -
  note obj = assms(1) [unfolded configuration_json_def]
  have "size_mult (to_size (int (stripecache_capacity c div 1048576))) 1048576 = stripecache_capacity c"
    using assms(2) by (subst size_mult_small) (auto simp: configuration_fits_def)
  then show ?thesis
    using int_entry [OF obj, of "''cacheCapacityMB''"] int_entry [OF obj, of "''maxReadaheadWindow''"]
      int_entry [OF obj, of "''maxBackgroundIoThreads''"] int_entry [OF obj, of "''maxBackgroundIoQueue''"] assms(2)
    by (cases c) (simp add: parseConfiguration_def configuration_fits_def configure_def modify_def)
qed

lemma json_sources_eq:
  assumes "getenv ''KINETIC_DRIVE_LOCATION'' = Some lv" and "getenv ''KINETIC_DRIVE_SECURITY'' = Some sv"
    and "getenv ''KINETIC_CLUSTER_DEFINITION'' = Some cv"
    and "config_text files lv = Inr lt" and "config_text files sv = Inr st" and "config_text files cv = Inr ct"
    and "\<not> json_is_null jl (json_tokener_parse jl lt)" and "\<not> json_is_null jl (json_tokener_parse jl st)"
    and "\<not> json_is_null jl (json_tokener_parse jl ct)"
  shows "json_sources jl getenv files = Inr (json_tokener_parse jl lt, json_tokener_parse jl st, json_tokener_parse jl ct)"
  using assms by (simp add: json_sources_def env_variable_def json_root_def Let_def)

lemma loadConfiguration_denotes:
  assumes "getenv ''KINETIC_DRIVE_LOCATION'' = Some lv" and "getenv ''KINETIC_DRIVE_SECURITY'' = Some sv"
    and "getenv ''KINETIC_CLUSTER_DEFINITION'' = Some cv"
    and "config_text files lv = Inr lt" and "config_text files sv = Inr st" and "config_text files cv = Inr ct"
    and "denotes jl (json_tokener_parse jl lt) (JObject [(''location'', JArray (map location_json ds))])"
    and "denotes jl (json_tokener_parse jl st) (JObject [(''security'', JArray (map security_json ds))])"
    and "denotes jl (json_tokener_parse jl ct)
           (JObject [(''cluster'', JArray (map cluster_json cs)), (''configuration'', configuration_json c)])"
    and "distinct (map dd_wwn ds)" and "distinct (map fst cs)" and "\<And>x. x \<in> set cs \<Longrightarrow> info_fits (snd x)"
    and "configuration_fits c"
  shows "loadConfiguration jl dflt getenv files s =
    Some (Inr (), install (map_of cs) (map_of (map (\<lambda>d. (dd_wwn d, drive_options dflt d)) ds)) (s\<lparr>configuration := c\<rparr>))"
proof -
  note roots = json_sources_eq [OF assms(1-6) denotes_not_null [OF assms(7)] denotes_not_null [OF assms(8)]
      denotes_not_null [OF assms(9)]]
  obtain l where l: "json_member jl (json_tokener_parse jl lt) ''location'' = Inr l" "denotes jl l (JArray (map location_json ds))"
    by (rule member_denotes [OF assms(7), of "''location''"]) (simp_all split del: if_split)
  obtain k where k: "json_member jl (json_tokener_parse jl st) ''security'' = Inr k" "denotes jl k (JArray (map security_json ds))"
    by (rule member_denotes [OF assms(8), of "''security''"]) (simp_all split del: if_split)
  obtain cl where cl: "json_member jl (json_tokener_parse jl ct) ''cluster'' = Inr cl" "denotes jl cl (JArray (map cluster_json cs))"
    by (rule member_denotes [OF assms(9), of "''cluster''"]) (simp_all split del: if_split)
  obtain cf where cf: "json_member jl (json_tokener_parse jl ct) ''configuration'' = Inr cf" "denotes jl cf (configuration_json c)"
    by (rule member_denotes [OF assms(9), of "''configuration''"]) (simp_all split del: if_split)
  let ?drives = "map_of (map (\<lambda>d. (dd_wwn d, drive_options dflt d)) ds)"
  show ?thesis
    using roots l k cl cf parseDrives_denotes [OF l(2) k(2) assms(10)] parseClusters_denotes [OF cl(2) assms(11,12)]
      parseConfiguration_denotes [OF cf(2) assms(13), of s]
    by (simp add: loadConfiguration_def modify_def)
qed

section \<open>Properties\<close>

text \<open>C19: A configuration that is written as JSON documents and loaded arrives unchanged. With documents for
  drives with different names and clusters with different names whose numbers fit an integer, given
  directly or in files, loading succeeds and installs exactly the described drives with both
  interfaces and their credentials, exactly the described clusters, the capacity of the cache and the
  sizes of the thread pool; all cluster objects built from the previous configuration are dropped from
  the cluster map.\<close>

theorem configuration_roundtrip:
  assumes "getenv ''KINETIC_DRIVE_LOCATION'' = Some lv" and "getenv ''KINETIC_DRIVE_SECURITY'' = Some sv"
    and "getenv ''KINETIC_CLUSTER_DEFINITION'' = Some cv"
    and "config_text files lv = Inr lt" and "config_text files sv = Inr st" and "config_text files cv = Inr ct"
    and "denotes jl (json_tokener_parse jl lt) (JObject [(''location'', JArray (map location_json ds))])"
    and "denotes jl (json_tokener_parse jl st) (JObject [(''security'', JArray (map security_json ds))])"
    and "denotes jl (json_tokener_parse jl ct)
           (JObject [(''cluster'', JArray (map cluster_json cs)), (''configuration'', configuration_json c)])"
    and "distinct (map dd_wwn ds)" and "distinct (map fst cs)" and "\<And>x. x \<in> set cs \<Longrightarrow> info_fits (snd x)"
    and "configuration_fits c"
  shows "\<exists>s'. loadConfiguration jl dflt getenv files s = Some (Inr (), s') \<and> configuration s' = c \<and>
           readaheadWindowSize s' = readahead_window_size c \<and>
           driveInfoMap (clusterMap s') = map_of (map (\<lambda>d. (dd_wwn d, drive_options dflt d)) ds) \<and>
           clusterInfoMap (clusterMap s') = map_of cs \<and> clusterCache (clusterMap s') = Map.empty \<and>
           cache_capacity (dataCache s') = stripecache_capacity c \<and>
           pool (dataCache s') = changeConfiguration (to_size (background_io_threads c))
             (to_size (background_io_queue_capacity c)) (pool (dataCache s))"
  using loadConfiguration_denotes [OF assms]
  by (intro exI conjI) (assumption, simp_all add: install_def map_reset_def readaheadWindowSize_def Let_def)


subsection \<open>A JSON library\<close>

text \<open>Pointers to documents, with the parser given by a function.\<close>

definition tree_lib :: "(string \<Rightarrow> json option) \<Rightarrow> json option json_lib" where
  "tree_lib parse =
     \<lparr>json_tokener_parse = parse, json_is_null = (\<lambda>j. j = None),
      json_object_get_ex = (\<lambda>j k. case j of Some (JObject fs) \<Rightarrow> map_option Some (map_of fs k) | _ \<Rightarrow> None),
      json_array_length = (\<lambda>j. case j of Some (JArray ts) \<Rightarrow> int (length ts) | _ \<Rightarrow> 0),
      json_array_get_idx = (\<lambda>j i. case j of Some (JArray ts) \<Rightarrow>
        (if 0 \<le> i \<and> nat i < length ts then Some (ts ! nat i) else None) | _ \<Rightarrow> None),
      json_get_string = (\<lambda>j. case j of Some (JString s) \<Rightarrow> Some s | Some (JInt k) \<Rightarrow> Some (dec_int k) | _ \<Rightarrow> None),
      json_get_int = (\<lambda>j. case j of Some (JInt k) \<Rightarrow> k | _ \<Rightarrow> 0)\<rparr>"

lemma tree_lib_denotes: "denotes (tree_lib parse) (Some t) t"
proof (induction t)
  case (JArray ts)
  then show ?case by (simp add: denotes_array tree_lib_def)
next
  case (JObject fs)
  have "rel_option (denotes (tree_lib parse)) (map_option Some (map_of fs k)) (map_of fs k)" for k
  proof (cases "map_of fs k")
    case (Some t)
    then have "(k, t) \<in> set fs" by (rule map_of_SomeD)
    with JObject Some show ?thesis by simp
  qed simp
  then show ?case by (simp add: denotes_object tree_lib_def)
qed (simp_all add: tree_lib_def)

definition demo_drive :: "string \<Rightarrow> drive_description" where
  "demo_drive i = \<lparr>dd_wwn = ''d'' @ i, dd_first = ''host'' @ i, dd_second = ''alt'' @ i, dd_port = 8123,
     dd_user = 1, dd_key = ''key''\<rparr>"

definition demo_configuration :: Configuration where
  "demo_configuration = \<lparr>stripecache_capacity = 1048576, readahead_window_size = 3, background_io_threads = 2,
     background_io_queue_capacity = 4\<rparr>"

definition demo_cluster_info :: ClusterInformation where
  "demo_cluster_info = demo_info\<lparr>info_blockSize := 2048\<rparr>"

definition demo_getenv :: "string \<rightharpoonup> string" where
  "demo_getenv = [''KINETIC_DRIVE_LOCATION'' \<mapsto> ''/l'', ''KINETIC_DRIVE_SECURITY'' \<mapsto> ''s'',
     ''KINETIC_CLUSTER_DEFINITION'' \<mapsto> ''c'']"

definition demo_files :: "string \<Rightarrow> string" where
  "demo_files p = (if p = ''/l'' then ''l'' else [])"

definition demo_parse :: "string \<Rightarrow> json option" where
  "demo_parse t =
     (if t = ''l'' then Some (JObject [(''location'', JArray (map location_json [demo_drive ''1'', demo_drive ''2'', demo_drive ''3'']))])
      else if t = ''s'' then Some (JObject [(''security'', JArray (map security_json [demo_drive ''1'', demo_drive ''2'', demo_drive ''3'']))])
      else if t = ''c'' then Some (JObject [(''cluster'', JArray (map cluster_json [(''c'', demo_cluster_info)])),
        (''configuration'', configuration_json demo_configuration)])
      else None)"

lemma demo_denotes:
  "demo_parse t = Some j \<Longrightarrow> denotes (tree_lib demo_parse) (json_tokener_parse (tree_lib demo_parse) t) j"
  using tree_lib_denotes [of demo_parse j] by (simp add: tree_lib_def)

theorem configuration_roundtrip_witness:
  "\<forall>s. \<exists>s'. loadConfiguration (tree_lib demo_parse) demo_options demo_getenv demo_files s = Some (Inr (), s') \<and>
     configuration s' = demo_configuration \<and> clusterInfoMap (clusterMap s') ''c'' = Some demo_cluster_info \<and>
     driveInfoMap (clusterMap s') ''d2'' = Some (drive_options demo_options (demo_drive ''2'')) \<and>
     cache_capacity (dataCache s') = 1048576"
proof
  fix s
  have "\<exists>s'. loadConfiguration (tree_lib demo_parse) demo_options demo_getenv demo_files s = Some (Inr (), s') \<and>
      configuration s' = demo_configuration \<and> readaheadWindowSize s' = readahead_window_size demo_configuration \<and>
      driveInfoMap (clusterMap s') =
        map_of (map (\<lambda>d. (dd_wwn d, drive_options demo_options d)) [demo_drive ''1'', demo_drive ''2'', demo_drive ''3'']) \<and>
      clusterInfoMap (clusterMap s') = map_of [(''c'', demo_cluster_info)] \<and> clusterCache (clusterMap s') = Map.empty \<and>
      cache_capacity (dataCache s') = stripecache_capacity demo_configuration \<and>
      pool (dataCache s') = changeConfiguration (to_size (background_io_threads demo_configuration))
        (to_size (background_io_queue_capacity demo_configuration)) (pool (dataCache s))"
    by (rule configuration_roundtrip [where lv = "''/l''" and sv = "''s''" and cv = "''c''" and lt = "''l''" and st = "''s''" and ct = "''c''"])
      (simp_all add: demo_getenv_def config_text_def readfile_def demo_files_def demo_denotes demo_parse_def demo_drive_def
        info_fits_def demo_cluster_info_def demo_info_def configuration_fits_def demo_configuration_def)
  then show "\<exists>s'. loadConfiguration (tree_lib demo_parse) demo_options demo_getenv demo_files s = Some (Inr (), s') \<and>
     configuration s' = demo_configuration \<and> clusterInfoMap (clusterMap s') ''c'' = Some demo_cluster_info \<and>
     driveInfoMap (clusterMap s') ''d2'' = Some (drive_options demo_options (demo_drive ''2'')) \<and>
     cache_capacity (dataCache s') = 1048576"
    by (elim exE conjE, intro exI conjI) (assumption, simp_all add: demo_configuration_def demo_drive_def)
qed


section \<open>Failed and malformed configurations\<close>

lemma lift_bnd_SomeE:
  assumes "bnd (lift_res r) f s = Some (x, t)"
  obtains (normal) y where "r = Inr y" "f y s = Some (x, t)" | (exn) e where "r = Inl e" "x = Inl e" "t = s"
  using assms by (cases r) auto

lemma parseConfiguration_cases:
  assumes "parseConfiguration jl j s = Some (r, s')"
  obtains (failed) e c where "r = Inl e" "s' = s\<lparr>configuration := c\<rparr>"
      "background_io_queue_capacity c = background_io_queue_capacity (configuration s)"
      "stripecache_capacity c = stripecache_capacity (configuration s) \<or> (\<exists>k. stripecache_capacity c = size_mult (to_size k) 1048576)"
      "readahead_window_size c = readahead_window_size (configuration s) \<or> (\<exists>k. readahead_window_size c = to_size k)"
  | (success) mb window n qn where "r = Inr ()"
      "s' = s\<lparr>configuration := \<lparr>stripecache_capacity = size_mult (to_size mb) 1048576, readahead_window_size = to_size window,
                background_io_threads = n, background_io_queue_capacity = qn\<rparr>\<rparr>"
proof -
  let ?c = "configuration s"
  from assms show ?thesis
    unfolding parseConfiguration_def
  proof (cases rule: lift_bnd_SomeE)
    case (exn e)
    then show ?thesis by (intro failed [of e ?c]) simp_all
  next
    case (normal mb)
    note mb = this(2) [unfolded seq_configure]
    from mb show ?thesis
    proof (cases rule: lift_bnd_SomeE)
      case (exn e)
      then show ?thesis by (intro failed [of e "?c\<lparr>stripecache_capacity := size_mult (to_size mb) 1048576\<rparr>"]) auto
    next
      case (normal window)
      note window = this(2) [unfolded seq_configure]
      from window show ?thesis
      proof (cases rule: lift_bnd_SomeE)
        case (exn e)
        then show ?thesis
          by (intro failed [of e "?c\<lparr>stripecache_capacity := size_mult (to_size mb) 1048576, readahead_window_size := to_size window\<rparr>"]) auto
      next
        case (normal n)
        note n = this(2) [unfolded seq_configure]
        from n show ?thesis
        proof (cases rule: lift_bnd_SomeE)
          case (exn e)
          then show ?thesis
            by (intro failed [of e "?c\<lparr>stripecache_capacity := size_mult (to_size mb) 1048576,
                readahead_window_size := to_size window, background_io_threads := n\<rparr>"]) auto
        next
          case (normal qn)
          then show ?thesis
            by (intro success [of mb window n qn]) (auto simp: configure_def modify_def)
        qed
      qed
    qed
  qed
qed

lemma loadConfiguration_cases:
  assumes "loadConfiguration jl dflt getenv files s = Some (r, s')"
  obtains (early) e where "r = Inl e" "s' = s"
  | (late) e j where "r = Inl e" "parseConfiguration jl j s = Some (Inl e, s')"
  | (success) o1 o2 o3 j drives infos s1 where "r = Inr ()" "parseDrives jl dflt o1 o2 = Inr drives" "parseClusters jl o3 = Inr infos"
      "parseConfiguration jl j s = Some (Inr (), s1)" "s' = install infos drives s1"
proof -
  from assms show ?thesis
    unfolding loadConfiguration_def
  proof (cases rule: lift_bnd_SomeE)
    case (normal roots)
    obtain a b c where "roots = (a, b, c)" by (cases roots)
    with normal(2) show ?thesis
      by (simp only: prod.case, elim lift_bnd_SomeE seq_eq_SomeE) (auto simp: modify_def intro: early late success)
  qed (auto intro: early)
qed


text \<open>C34: A reload that fails, for whatever reason, leaves the cluster map with all its cluster objects, the
  data cache and the thread pool exactly as they were. Only members of the configuration record may
  have been assigned, and never the length of the queue.\<close>

theorem failed_load_keeps_clusters:
  assumes "loadConfiguration jl dflt getenv files s = Some (Inl e, s')"
  shows "clusterMap s' = clusterMap s \<and> dataCache s' = dataCache s \<and>
         (\<exists>c. s' = s\<lparr>configuration := c\<rparr> \<and> background_io_queue_capacity c = background_io_queue_capacity (configuration s))"
  using assms
proof (cases rule: loadConfiguration_cases)
  case (early e')
  then show ?thesis by (intro conjI exI [of _ "configuration s"]) simp_all
next
  case (late e' j)
  from late(2) show ?thesis by (cases rule: parseConfiguration_cases) auto
qed simp

text \<open>A document without the number of threads: the load fails, but the readahead window is already changed.\<close>

definition partial_parse :: "string \<Rightarrow> json option" where
  "partial_parse t =
     (if t = ''l'' then Some (JObject [(''location'', JArray [])])
      else if t = ''s'' then Some (JObject [(''security'', JArray [])])
      else Some (JObject [(''cluster'', JArray []), (''configuration'', JObject
        [(''cacheCapacityMB'', JInt 1), (''maxReadaheadWindow'', JInt 9)])]))"

definition demo_singleton :: "nat \<Rightarrow> (unit, unit) singleton" where
  "demo_singleton n = \<lparr>configuration = \<lparr>stripecache_capacity = 0, readahead_window_size = n, background_io_threads = 1,
     background_io_queue_capacity = 1\<rparr>, clusterMap = ClusterMap_new (), dataCache = small_cache 4\<rparr>"

theorem failed_load_keeps_clusters_witness:
  "\<exists>s'. loadConfiguration (tree_lib partial_parse) demo_options demo_getenv demo_files (demo_singleton 0) =
      Some (Inl (System_error invalid_argument), s') \<and>
    clusterMap s' = clusterMap (demo_singleton 0) \<and> dataCache s' = dataCache (demo_singleton 0) \<and> readaheadWindowSize s' = 9"
proof -
  let ?s = "demo_singleton 0\<lparr>configuration := (configuration (demo_singleton 0))\<lparr>stripecache_capacity := 1048576, readahead_window_size := 9\<rparr>\<rparr>"
  have "loadConfiguration (tree_lib partial_parse) demo_options demo_getenv demo_files (demo_singleton 0) =
      Some (Inl (System_error invalid_argument), ?s)"
    by (simp add: loadConfiguration_def json_sources_def env_variable_def demo_getenv_def config_text_def readfile_def
        demo_files_def json_root_def tree_lib_def partial_parse_def json_member_def parseDrives_def json_entries_def
        parseClusters_def parseConfiguration_def loadJsonIntEntry_def size_mult_def to_size_def)
  with failed_load_keeps_clusters [OF this] show ?thesis by (simp add: readaheadWindowSize_def)
qed

subsection \<open>What a successful load installs\<close>

text \<open>A field of a JSON object as the library shows it.\<close>

definition int_field :: "'j json_lib \<Rightarrow> 'j \<Rightarrow> string \<Rightarrow> int \<Rightarrow> bool" where
  "int_field jl j k n \<longleftrightarrow> (\<exists>x. json_object_get_ex jl j k = Some x \<and> json_get_int jl x = n)"

definition string_field :: "'j json_lib \<Rightarrow> 'j \<Rightarrow> string \<Rightarrow> string \<Rightarrow> bool" where
  "string_field jl j k t \<longleftrightarrow> (\<exists>x. json_object_get_ex jl j k = Some x \<and> json_get_string jl x = Some t)"

text \<open>What an entry of the three documents says, in terms of its fields.\<close>

definition describes_location :: "'j json_lib \<Rightarrow> ConnectionOptions \<Rightarrow> 'j \<Rightarrow> string \<times> drive_info \<Rightarrow> bool" where
  "describes_location jl dflt j d \<longleftrightarrow>
     (\<exists>x first second port. string_field jl j ''wwn'' (fst d) \<and> int_field jl j ''port'' port \<and>
        json_object_get_ex jl j ''inet4'' = Some x \<and>
        json_get_string jl (json_array_get_idx jl x 0) = Some first \<and>
        (if json_is_null jl (json_array_get_idx jl x 1) then second = first
         else json_get_string jl (json_array_get_idx jl x 1) = Some second) \<and>
        snd d = (dflt\<lparr>opt_host := first, opt_port := port, opt_use_ssl := False\<rparr>,
                 dflt\<lparr>opt_host := second, opt_port := port, opt_use_ssl := False\<rparr>))"

definition describes_security :: "'j json_lib \<Rightarrow> 'j \<Rightarrow> string \<times> int \<times> string \<Rightarrow> bool" where
  "describes_security jl j c \<longleftrightarrow>
     string_field jl j ''wwn'' (fst c) \<and> int_field jl j ''userId'' (fst (snd c)) \<and> string_field jl j ''key'' (snd (snd c))"

definition describes_cluster :: "'j json_lib \<Rightarrow> 'j \<Rightarrow> string \<times> ClusterInformation \<Rightarrow> bool" where
  "describes_cluster jl j c \<longleftrightarrow>
     (\<exists>nd np kb list. string_field jl j ''clusterID'' (fst c) \<and>
        int_field jl j ''numData'' nd \<and> info_numData (snd c) = to_size nd \<and>
        int_field jl j ''numParity'' np \<and> info_numParity (snd c) = to_size np \<and>
        int_field jl j ''chunkSizeKB'' kb \<and> info_blockSize (snd c) = size_mult (to_size kb) 1024 \<and>
        int_field jl j ''minReconnectInterval'' (info_min_reconnect_interval (snd c)) \<and>
        int_field jl j ''timeout'' (info_operation_timeout (snd c)) \<and>
        json_object_get_ex jl j ''drives'' = Some list \<and>
        list_all2 (\<lambda>d. string_field jl d ''wwn'') (json_entries jl list) (info_drives (snd c)))"

definition describes_configuration :: "'j json_lib \<Rightarrow> 'j \<Rightarrow> Configuration \<Rightarrow> bool" where
  "describes_configuration jl j c \<longleftrightarrow>
     (\<exists>mb window. int_field jl j ''cacheCapacityMB'' mb \<and> stripecache_capacity c = size_mult (to_size mb) 1048576 \<and>
        int_field jl j ''maxReadaheadWindow'' window \<and> readahead_window_size c = to_size window \<and>
        int_field jl j ''maxBackgroundIoThreads'' (background_io_threads c) \<and>
        int_field jl j ''maxBackgroundIoQueue'' (background_io_queue_capacity c))"

definition with_credentials :: "(int \<times> string) option \<Rightarrow> drive_info \<Rightarrow> drive_info" where
  "with_credentials c d =
     (case c of None \<Rightarrow> d
      | Some (user, hmac) \<Rightarrow> (case d of (a, b) \<Rightarrow>
          (a\<lparr>opt_user_id := user, opt_hmac_key := hmac\<rparr>, b\<lparr>opt_user_id := user, opt_hmac_key := hmac\<rparr>)))"

lemma json_member_Inr: "json_member jl j k = Inr x \<longleftrightarrow> json_object_get_ex jl j k = Some x"
  by (auto simp: json_member_def split: option.splits)

lemma json_string_Inr: "json_string_of jl x = Inr t \<longleftrightarrow> json_get_string jl x = Some t"
  by (auto simp: json_string_of_def split: option.splits)

lemma entry_Inr:
  "loadJsonIntEntry jl j k = Inr n \<longleftrightarrow> int_field jl j k n"
  "loadJsonStringEntry jl j k = Inr t \<longleftrightarrow> string_field jl j k t"
  by (auto simp: loadJsonIntEntry_def loadJsonStringEntry_def res_bind_Inr_iff json_member_Inr json_string_Inr
      int_field_def string_field_def)

lemma if_Inr: "(if c then Inl e else r) = Inr y \<longleftrightarrow> \<not> c \<and> r = Inr y"
  by simp

lemma if_string_Inr:
  "(if \<not> c then json_string_of jl h else Inr x) = Inr y \<longleftrightarrow> (if c then y = x else json_get_string jl h = Some y)"
  by (auto simp: json_string_Inr)

lemmas reading = res_bind_Inr_iff json_member_Inr json_string_Inr entry_Inr

text \<open>Entries that are inserted: the first one under a name stays.\<close>

lemma json_fold_insert:
  assumes "json_fold f js m = Inr m'"
    and "\<And>j m m'. f j m = Inr m' \<Longrightarrow> \<exists>kv. D j kv \<and> m' = map_insert (fst kv) (snd kv) m"
  shows "\<exists>kvs. list_all2 D js kvs \<and> m' = map_of kvs ++ m"
  using assms(1)
proof (induction js arbitrary: m)
  case (Cons j js)
  then obtain m1 where m1: "f j m = Inr m1" "json_fold f js m1 = Inr m'" by (auto simp: res_bind_Inr_iff)
  obtain kv where kv: "D j kv" "m1 = map_insert (fst kv) (snd kv) m" using assms(2) [OF m1(1)] by blast
  from Cons.IH [OF m1(2)] obtain kvs where kvs: "list_all2 D js kvs" "m' = map_of kvs ++ m1" by blast
  have "m' = map_of (kv # kvs) ++ m"
    unfolding kvs(2) kv(2) by (cases kv) (auto simp: map_insert_def map_add_def fun_eq_iff split: option.splits)
  moreover have "list_all2 D (j # js) (kv # kvs)" using kv(1) kvs(1) by simp
  ultimately show ?case by blast
qed simp

text \<open>Credentials that are assigned: the last ones stay, and every one is for a drive that has a location.\<close>

lemma json_fold_credentials:
  assumes "json_fold (parse_security jl) js m = Inr m'"
  shows "\<exists>cs. list_all2 (describes_security jl) js cs \<and> fst ` set cs \<subseteq> dom m \<and>
    m' = (\<lambda>w. map_option (with_credentials (map_of (rev cs) w)) (m w))"
  using assms
proof (induction js arbitrary: m)
  case Nil
  then show ?case by (auto simp: with_credentials_def option.map_ident)
next
  case (Cons j js)
  then obtain m1 where m1: "parse_security jl j m = Inr m1" "json_fold (parse_security jl) js m1 = Inr m'"
    by (auto simp: res_bind_Inr_iff)
  then obtain wwn d user hmac where d: "describes_security jl j (wwn, user, hmac)" "m wwn = Some d"
    "m1 = m(wwn \<mapsto> with_credentials (Some (user, hmac)) d)"
    by (auto simp: parse_security_def reading describes_security_def with_credentials_def split: option.splits)
  from Cons.IH [OF m1(2)] obtain cs where cs: "list_all2 (describes_security jl) js cs" "fst ` set cs \<subseteq> dom m1"
    "m' = (\<lambda>w. map_option (with_credentials (map_of (rev cs) w)) (m1 w))" by blast
  have again: "with_credentials c (with_credentials c' e) = with_credentials (case c of None \<Rightarrow> c' | Some x \<Rightarrow> c) e" for c c' e
    by (cases e) (auto simp: with_credentials_def split: option.splits)
  have "m' = (\<lambda>w. map_option (with_credentials (map_of (rev ((wwn, user, hmac) # cs)) w)) (m w))"
    unfolding cs(3) d(3) using d(2)
    by (auto simp: fun_eq_iff again map_add_def option.map_comp split: option.splits)
  moreover have "fst ` set ((wwn, user, hmac) # cs) \<subseteq> dom m" using cs(2) d(2,3) by auto
  ultimately show ?case using d(1) cs(1) by (intro exI [of _ "(wwn, user, hmac) # cs"]) simp
qed

lemma parse_location_describes:
  assumes "parse_location jl dflt j m = Inr m'"
  shows "\<exists>d. describes_location jl dflt j d \<and> m' = map_insert (fst d) (snd d) m"
proof -
  from assms obtain wwn x first second port where
    d: "string_field jl j ''wwn'' wwn" "json_object_get_ex jl j ''inet4'' = Some x"
    "json_get_string jl (json_array_get_idx jl x 0) = Some first"
    "if json_is_null jl (json_array_get_idx jl x 1) then second = first
     else json_get_string jl (json_array_get_idx jl x 1) = Some second" "int_field jl j ''port'' port"
    and m': "m' = map_insert wwn (dflt\<lparr>opt_host := first, opt_port := port, opt_use_ssl := False\<rparr>,
        dflt\<lparr>opt_host := second, opt_port := port, opt_use_ssl := False\<rparr>) m"
    by (auto simp: parse_location_def Let_def reading if_Inr if_string_Inr split del: if_split)
  have "describes_location jl dflt j (wwn, dflt\<lparr>opt_host := first, opt_port := port, opt_use_ssl := False\<rparr>,
        dflt\<lparr>opt_host := second, opt_port := port, opt_use_ssl := False\<rparr>)"
    unfolding describes_location_def fst_conv snd_conv using d by blast
  with m' show ?thesis by fastforce
qed

lemma parse_cluster_drives_describes:
  assumes "parse_cluster_drives jl list = Inr wwns"
  shows "list_all2 (\<lambda>d. string_field jl d ''wwn'') (json_entries jl list) wwns"
proof -
  have "json_fold (\<lambda>drive wwns. res_bind (loadJsonStringEntry jl drive ''wwn'') (\<lambda>wwn. Inr (wwns @ [wwn]))) js ws = Inr wwns \<Longrightarrow>
      \<exists>vs. wwns = ws @ vs \<and> list_all2 (\<lambda>d. string_field jl d ''wwn'') js vs" for js ws
    by (induction js arbitrary: ws) (fastforce simp: reading list_all2_Cons1)+
  from this [OF assms [unfolded parse_cluster_drives_def]] show ?thesis by simp
qed

lemma parse_cluster_describes:
  assumes "parse_cluster jl j m = Inr m'"
  shows "\<exists>c. describes_cluster jl j c \<and> m' = map_insert (fst c) (snd c) m"
proof -
  from assms obtain cid nd np kb interval timeout list wwns where
    d: "string_field jl j ''clusterID'' cid" "int_field jl j ''numData'' nd" "int_field jl j ''numParity'' np"
    "int_field jl j ''chunkSizeKB'' kb" "int_field jl j ''minReconnectInterval'' interval" "int_field jl j ''timeout'' timeout"
    "json_object_get_ex jl j ''drives'' = Some list" "parse_cluster_drives jl list = Inr wwns" and
    m': "m' = map_insert cid \<lparr>info_numData = to_size nd, info_numParity = to_size np, info_blockSize = size_mult (to_size kb) 1024,
        info_min_reconnect_interval = interval, info_operation_timeout = timeout, info_drives = wwns\<rparr> m"
    by (auto simp: parse_cluster_def reading)
  have "describes_cluster jl j (cid, \<lparr>info_numData = to_size nd, info_numParity = to_size np,
      info_blockSize = size_mult (to_size kb) 1024, info_min_reconnect_interval = interval, info_operation_timeout = timeout,
      info_drives = wwns\<rparr>)"
    unfolding describes_cluster_def fst_conv snd_conv ClusterInformation.select_convs
    using d(1-7) parse_cluster_drives_describes [OF d(8)] by blast
  with m' show ?thesis by fastforce
qed

lemma parseConfiguration_describes:
  assumes "parseConfiguration jl j s = Some (Inr (), s')"
  shows "describes_configuration jl j (configuration s') \<and> s' = s\<lparr>configuration := configuration s'\<rparr>"
  using assms unfolding parseConfiguration_def seq_configure
  by (elim lift_bnd_SomeE) (auto simp: reading describes_configuration_def configure_def modify_def, blast)

text \<open>C33: A successful load installs exactly what the documents say, whatever they say and whatever the
  JSON library makes of it. Every cluster of the new map is the first entry of the cluster document
  under its name, with the numbers and drives of its fields; every drive has the address of the first location entry with
  its name and the credentials of the last security entry with its name, if there is one, and every
  security entry is for a drive with a location; the parameters of the library are the fields of the
  configuration entry, cache and thread pool are set to them, and no cluster object built for an
  earlier configuration is left.\<close>

theorem load_installs_documents:
  assumes "loadConfiguration jl dflt getenv files s = Some (Inr (), s')"
  shows "\<exists>lr sr cr lo se cl co ls ss cs.
    json_sources jl getenv files = Inr (lr, sr, cr) \<and>
    json_object_get_ex jl lr ''location'' = Some lo \<and> json_object_get_ex jl sr ''security'' = Some se \<and>
    json_object_get_ex jl cr ''cluster'' = Some cl \<and> json_object_get_ex jl cr ''configuration'' = Some co \<and>
    list_all2 (describes_location jl dflt) (json_entries jl lo) ls \<and>
    list_all2 (describes_security jl) (json_entries jl se) ss \<and> fst ` set ss \<subseteq> fst ` set ls \<and>
    list_all2 (describes_cluster jl) (json_entries jl cl) cs \<and>
    describes_configuration jl co (configuration s') \<and>
    clusterInfoMap (clusterMap s') = map_of cs \<and>
    driveInfoMap (clusterMap s') = (\<lambda>w. map_option (with_credentials (map_of (rev ss) w)) (map_of ls w)) \<and>
    clusterCache (clusterMap s') = Map.empty \<and>
    cache_capacity (dataCache s') = stripecache_capacity (configuration s') \<and>
    pool (dataCache s') = changeConfiguration (to_size (background_io_threads (configuration s')))
      (to_size (background_io_queue_capacity (configuration s'))) (pool (dataCache s))"
proof -
  from assms obtain lr sr cr lo se cl co drives infos s1 where roots: "json_sources jl getenv files = Inr (lr, sr, cr)"
    and members: "json_object_get_ex jl lr ''location'' = Some lo" "json_object_get_ex jl sr ''security'' = Some se"
      "json_object_get_ex jl cr ''cluster'' = Some cl" "json_object_get_ex jl cr ''configuration'' = Some co"
    and drives: "parseDrives jl dflt lo se = Inr drives" and infos: "parseClusters jl cl = Inr infos"
    and conf: "parseConfiguration jl co s = Some (Inr (), s1)" and s': "s' = install infos drives s1"
    unfolding loadConfiguration_def
    by (elim lift_bnd_SomeE; clarsimp split: prod.splits; elim lift_bnd_SomeE seq_eq_SomeE) (auto simp: reading modify_def)
  obtain m where m: "json_fold (parse_location jl dflt) (json_entries jl lo) Map.empty = Inr m"
    "json_fold (parse_security jl) (json_entries jl se) m = Inr drives"
    using drives by (auto simp: parseDrives_def res_bind_Inr_iff)
  obtain ls where ls: "list_all2 (describes_location jl dflt) (json_entries jl lo) ls" "m = map_of ls"
    using json_fold_insert [where D = "describes_location jl dflt", OF m(1) parse_location_describes] by auto
  obtain ss where ss: "list_all2 (describes_security jl) (json_entries jl se) ss" "fst ` set ss \<subseteq> dom m"
    "drives = (\<lambda>w. map_option (with_credentials (map_of (rev ss) w)) (m w))"
    using json_fold_credentials [OF m(2)] by blast
  obtain cs where cs: "list_all2 (describes_cluster jl) (json_entries jl cl) cs" "infos = map_of cs"
    using json_fold_insert [where D = "describes_cluster jl", OF infos [unfolded parseClusters_def] parse_cluster_describes] by auto
  obtain c where c: "describes_configuration jl co c" "s1 = s\<lparr>configuration := c\<rparr>"
    using parseConfiguration_describes [OF conf] by metis
  show ?thesis
    by (intro exI conjI, rule roots, rule members, rule members, rule members, rule members, rule ls, rule ss)
      (use ss ls cs c in \<open>simp_all add: s' install_def Let_def map_reset_def dom_map_of_conv_image_fst\<close>)
qed

text \<open>Two clusters of the same name, the first with a negative number of data chunks.\<close>

definition twice_entry :: "int \<Rightarrow> json" where
  "twice_entry n = JObject [(''clusterID'', JString ''c''), (''numData'', JInt n), (''numParity'', JInt 1),
     (''chunkSizeKB'', JInt 2), (''minReconnectInterval'', JInt 3), (''timeout'', JInt 4), (''drives'', JArray [])]"

definition twice_parse :: "string \<Rightarrow> json option" where
  "twice_parse t =
     (if t = ''l'' then Some (JObject [(''location'', JArray [])])
      else if t = ''s'' then Some (JObject [(''security'', JArray [])])
      else Some (JObject [(''cluster'', JArray [twice_entry (- 1), twice_entry 2]),
        (''configuration'', JObject [(''cacheCapacityMB'', JInt 1), (''maxReadaheadWindow'', JInt 9),
          (''maxBackgroundIoThreads'', JInt 2), (''maxBackgroundIoQueue'', JInt 4)])]))"

lemmas load_simps = loadConfiguration_def json_sources_def env_variable_def demo_getenv_def config_text_def readfile_def
  demo_files_def json_root_def tree_lib_def twice_parse_def json_member_def parseDrives_def json_entries_def
  parseClusters_def parse_cluster_def parse_cluster_drives_def parseConfiguration_def loadJsonIntEntry_def
  loadJsonStringEntry_def json_string_of_def size_mult_def to_size_def map_insert_def configure_def modify_def demo_singleton_def
  upt_rec

lemma twice_entry_describes:
  "describes_cluster (tree_lib p) (Some (twice_entry n)) c \<Longrightarrow>
     fst c = ''c'' \<and> info_numData (snd c) = to_size n \<and> info_blockSize (snd c) = 2048"
  by (auto simp: describes_cluster_def int_field_def string_field_def tree_lib_def twice_entry_def size_mult_def to_size_def)

theorem load_installs_documents_witness:
  "\<exists>s' ki. loadConfiguration (tree_lib twice_parse) demo_options demo_getenv demo_files (demo_singleton 0) = Some (Inr (), s') \<and>
    clusterInfoMap (clusterMap s') ''c'' = Some ki \<and> info_numData ki = 18446744073709551615 \<and> info_blockSize ki = 2048 \<and>
    readahead_window_size (configuration s') = 9"
proof -
  let ?jl = "tree_lib twice_parse"
  have "\<exists>s'. loadConfiguration ?jl demo_options demo_getenv demo_files (demo_singleton 0) = Some (Inr (), s')"
    by (simp add: load_simps twice_entry_def)
  then obtain s' where load: "loadConfiguration ?jl demo_options demo_getenv demo_files (demo_singleton 0) = Some (Inr (), s')" ..
  from load_installs_documents [OF load] obtain lr sr cr cl co cs where
    c: "json_sources ?jl demo_getenv demo_files = Inr (lr, sr, cr)" "json_object_get_ex ?jl cr ''cluster'' = Some cl"
      "json_object_get_ex ?jl cr ''configuration'' = Some co"
      "list_all2 (describes_cluster ?jl) (json_entries ?jl cl) cs" "describes_configuration ?jl co (configuration s')"
      "clusterInfoMap (clusterMap s') = map_of cs" by blast
  have cr: "cr = twice_parse ''c''" using c(1) by (simp add: load_simps)
  have "json_entries ?jl cl = [Some (twice_entry (- 1)), Some (twice_entry 2)]"
    using c(2) unfolding cr by (auto simp: twice_parse_def tree_lib_def json_entries_def upt_rec)
  with c(4) obtain ki rest where ki: "describes_cluster ?jl (Some (twice_entry (- 1))) ki" "cs = ki # rest"
    by (auto simp: list_all2_Cons1)
  have "readahead_window_size (configuration s') = 9"
    using c(3,5) unfolding cr
    by (auto simp: twice_parse_def tree_lib_def describes_configuration_def int_field_def to_size_def)
  with load c(6) ki(2) twice_entry_describes [OF ki(1)] show ?thesis
    by (intro exI [of _ s'] exI [of _ "snd ki"]) (cases ki, simp add: to_size_def)
qed

end
