(* ===== verification/Admin_Status.thy ===== *)
theory Admin_Status
  imports Admin_Cluster
begin

text \<open>
  \<^verbatim>\<open>KineticAdminCluster::status\<close> with its benchmark (src/KineticAdminCluster.cc): the state of every
  connection and the health of the cluster from the statistics snapshot, for which it waits.

  Whether a connection can be obtained, the names of the connections, the shuffling of the benchmark
  keys and the text of the measured rates, which are floating point numbers in the program, are
  arguments. A request of the benchmark that is not answered within ten seconds fails. Whether the
  thread pool runs a scheduled update of the snapshot during a sleep is the argument \<open>pool_runs\<close>;
  an exception in the pool is caught there.
\<close>

section \<open>Model\<close>

subsection \<open>Benchmark\<close>

text \<open>\<^verbatim>\<open>duration_cast<milliseconds>\<close> truncates toward zero.\<close>

definition whole_milliseconds :: "int \<Rightarrow> int" where
  "whole_milliseconds us = (if us < 0 then - ((- us) div 1000) else us div 1000)"

definition finish_timed_operation :: "'w env \<Rightarrow> nat \<Rightarrow> 'a reply \<Rightarrow> 'w \<Rightarrow> int res" where
  "finish_timed_operation env run_start r w =
     (case r of
        Answered _ (Inr _) \<Rightarrow> Inr (to_int32 (whole_milliseconds (int (env_now env w) - int run_start)))
      | _ \<Rightarrow> Inl Runtime_error)"

definition timed_put :: "'w env \<Rightarrow> nat \<Rightarrow> string \<Rightarrow> 'w \<Rightarrow> int res \<times> 'w" where
  "timed_put env c k w =
     (let run_start = env_now env w;
          (r, w) = env_put env c 10 k [] IGNORE_VERSION
            \<lparr>rec_value = replicate (1024 * 1024) CHR ''x'', rec_version = [], rec_tag = []\<rparr> w
      in (finish_timed_operation env run_start r w, w))"

definition timed_remove :: "'w env \<Rightarrow> nat \<Rightarrow> string \<Rightarrow> 'w \<Rightarrow> int res \<times> 'w" where
  "timed_remove env c k w =
     (let run_start = env_now env w; (r, w) = env_delete env c 10 k [] IGNORE_VERSION w
      in (finish_timed_operation env run_start r w, w))"

definition timed_get :: "'w env \<Rightarrow> nat \<Rightarrow> string \<Rightarrow> 'w \<Rightarrow> int res \<times> 'w" where
  "timed_get env c k w =
     (let run_start = env_now env w; (r, w) = env_get env c 10 k w
      in (finish_timed_operation env run_start r w, w))"

fun benchmark_loop :: "(string \<Rightarrow> 'w \<Rightarrow> int res \<times> 'w) \<Rightarrow> string list \<Rightarrow> int \<Rightarrow> 'w \<Rightarrow> int res \<times> 'w" where
  "benchmark_loop f [] timing w = (Inr timing, w)"
| "benchmark_loop f (k # ks) timing w =
     (case f k w of
        (Inl e, w) \<Rightarrow> (Inl e, w)
      | (Inr t, w) \<Rightarrow> benchmark_loop f ks (to_int32 (timing + t)) w)"

definition benchmark_function :: "string list \<Rightarrow> (string \<Rightarrow> 'w \<Rightarrow> int res \<times> 'w) \<Rightarrow> 'w \<Rightarrow> (rat res \<times> 'w) option" where
  "benchmark_function ks f w =
     (case benchmark_loop f ks 1 w of
        (r, w) \<Rightarrow> Some (res_bind r (\<lambda>timing. Inr (of_nat (length ks) / (of_int timing / 1000))), w))"

definition benchmark_keys :: "int \<Rightarrow> string list" where
  "benchmark_keys n = map (\<lambda>i. ''benchmark_key_'' @ zpad 10 (dec i)) [0..<nat n]"

definition benchmark_connection ::
  "'w env \<Rightarrow> (nat \<Rightarrow> string list \<Rightarrow> string list) \<Rightarrow> (rat \<Rightarrow> string) \<Rightarrow> int \<Rightarrow> nat \<Rightarrow> ('w, string) kio" where
  "benchmark_connection env shuffle fmt n c =
     (let ks = benchmark_keys n
      in bnd (benchmark_function ks (timed_put env c)) (\<lambda>seq_put.
         bnd (benchmark_function ks (timed_get env c)) (\<lambda>seq_get.
         seq (benchmark_function ks (timed_remove env c))
         (let ks = shuffle 0 ks
          in bnd (benchmark_function ks (timed_put env c)) (\<lambda>rnd_put.
         (let ks = shuffle 1 ks
          in bnd (benchmark_function ks (timed_get env c)) (\<lambda>rnd_get.
         (let ks = shuffle 2 ks
          in seq (benchmark_function ks (timed_remove env c))
         (ret (Convert_toString ['' :: MB/s seq_put='', fmt seq_put, '' seq_get='', fmt seq_get,
            '' rnd_put='', fmt rnd_put, '' rnd_get='', fmt rnd_get])))))))))) "

subsection \<open>Status\<close>

record 'w status_env =
  con_name :: "nat \<Rightarrow> string"
  con_get :: "nat \<Rightarrow> 'w \<Rightarrow> bool \<times> 'w"
  shuffle_keys :: "nat \<Rightarrow> string list \<Rightarrow> string list"
  format_rate :: "rat \<Rightarrow> string"
  pool_runs :: "'w admin_state \<Rightarrow> bool"
  fmul_capacity :: "nat \<Rightarrow> rat \<Rightarrow> nat"

text \<open>One turn of the loop over the connections: the location and whether it is connected.\<close>

definition status_connection :: "'w env \<Rightarrow> 'w status_env \<Rightarrow> int \<Rightarrow> nat \<Rightarrow> ('w, string \<times> bool) kio" where
  "status_connection env se num_bench_keys c =
     catch
       (seq (\<lambda>w. case con_get se c w of
               (up, w) \<Rightarrow> Some (if up then Inr () else Inl (System_error not_connected), w))
        (if num_bench_keys \<noteq> 0
         then bnd (benchmark_connection env (shuffle_keys se) (format_rate se) num_bench_keys c)
           (\<lambda>suffix. ret (con_name se c @ suffix, True))
         else ret (con_name se c, True)))
       (\<lambda>e. ret (con_name se c, False))"

fun status_connections :: "'w env \<Rightarrow> 'w status_env \<Rightarrow> int \<Rightarrow> nat list \<Rightarrow> ('w, (string \<times> bool) list) kio" where
  "status_connections env se n [] = ret []"
| "status_connections env se n (c # cs) =
     bnd (status_connection env se n c) (\<lambda>x. bnd (status_connections env se n cs) (\<lambda>xs. ret (x # xs)))"

definition pool_turn :: "'w env \<Rightarrow> 'w status_env \<Rightarrow> ('w, unit) admin" where
  "pool_turn env se =
     bnd (asks (pool_runs se)) (\<lambda>runs.
     if runs then catch (on_cluster (kc_run_update env (fmul_capacity se))) (\<lambda>e. ret ()) else ret ())"

partial_function (option) status_wait :: "'w env \<Rightarrow> 'w status_env \<Rightarrow> 'w admin_state \<Rightarrow> (unit res \<times> 'w admin_state) option" where
  "status_wait env se s =
     bnd (on_cluster (kc_stats env)) (\<lambda>st.
       if bytes_total st = 1
       then seq (with_world (\<lambda>cl w. ((), env_sleep env 100 w))) (seq (pool_turn env se) (status_wait env se))
       else ret ()) s"

definition admin_status :: "'w env \<Rightarrow> 'w status_env \<Rightarrow> int \<Rightarrow> ('w, ClusterStatus) admin" where
  "admin_status env se num_bench_keys =
     bnd (asks (\<lambda>s. connections (kinetic_object (adm_cluster s)))) (\<lambda>n.
     bnd (on_cluster (kc_call_const (\<lambda>cl. status_connections env se num_bench_keys [0..<n]))) (\<lambda>cons.
     seq (status_wait env se)
     (bnd (on_cluster (kc_stats env)) (\<lambda>st.
      ret ((health st)\<lparr>connected := map snd cons, location := map fst cons\<rparr>)))))"


section \<open>Lemmas\<close>

lemma status_connection_ends:
  "\<exists>x w'. status_connection env se n c w = Some (Inr x, w') \<and> (\<exists>t. fst x = con_name se c @ t) \<and>
     (\<not> fst (con_get se c w) \<longrightarrow> x = (con_name se c, False))"
proof -
  have bench: "benchmark_function ks f w \<noteq> None" for ks and f :: "string \<Rightarrow> 'a \<Rightarrow> int res \<times> 'a" and w
    by (simp add: benchmark_function_def split: prod.splits)
  have bnd: "bnd m k w \<noteq> None" if "\<And>w. m w \<noteq> None" "\<And>x w. k x w \<noteq> None" for m :: "('a, 'c) kio" and k :: "'c \<Rightarrow> ('a, 'd) kio" and w
    using that by (auto simp: bnd_def split: bind_splits sum.splits)
  have all: "benchmark_connection env (shuffle_keys se) (format_rate se) n c w \<noteq> None" for w
    unfolding benchmark_connection_def seq_def Let_def by (intro bnd bench) (simp add: ret_def)
  obtain up w1 where g: "con_get se c w = (up, w1)" by fastforce
  show ?thesis
  proof (cases "up \<and> n \<noteq> 0")
    case True
    obtain r w2 where "benchmark_connection env (shuffle_keys se) (format_rate se) n c w1 = Some (r, w2)"
      using all [of w1] by auto
    with True g show ?thesis
      by (cases r) (auto simp: status_connection_def catch_def seq_def bnd_def ret_def)
  next
    case False
    with g show ?thesis
      by (cases up) (auto simp: status_connection_def catch_def seq_def bnd_def ret_def)
  qed
qed

lemma status_connections_ends:
  "\<exists>xs w'. status_connections env se n cs w = Some (Inr xs, w') \<and> length xs = length cs \<and>
     (\<forall>i < length cs. \<exists>t. fst (xs ! i) = con_name se (cs ! i) @ t)"
proof (induction cs arbitrary: w)
  case Nil
  show ?case by (simp add: ret_def)
next
  case (Cons c cs)
  obtain x w1 where x: "status_connection env se n c w = Some (Inr x, w1)" "\<exists>t. fst x = con_name se c @ t"
    using status_connection_ends [of env se n c w] by auto
  obtain xs w2 where xs: "status_connections env se n cs w1 = Some (Inr xs, w2)" "length xs = length cs"
    "\<forall>i < length cs. \<exists>t. fst (xs ! i) = con_name se (cs ! i) @ t"
    using Cons by blast
  show ?case
    using x xs by (intro exI [of _ "x # xs"] exI [of _ w2]) (auto simp: ret_def nth_Cons split: nat.splits)
qed

lemma kc_stats_eq:
  "on_cluster (kc_stats env) s = Some (Inr (statistics_snapshot (kinetic_object (adm_cluster s))),
     s\<lparr>adm_cluster := (case cluster_stats env (kinetic_object (adm_cluster s)) (kinetic_world (adm_cluster s)) of
        (st, scheduled, cl) \<Rightarrow> (adm_cluster s)\<lparr>kinetic_object := cl,
          updates_pending := (if scheduled then Suc (updates_pending (adm_cluster s)) else updates_pending (adm_cluster s))\<rparr>)\<rparr>)"
  by (simp add: on_cluster_def zoom_def kc_stats_def cluster_stats_def)

lemma cluster_stats_keeps:
  "cluster_stats env cl w = (st, sch, cl') \<Longrightarrow> statistics_snapshot cl' = statistics_snapshot cl \<and> destructed cl' = destructed cl"
  by (auto simp: cluster_stats_def split: if_splits)

lemma status_wait_done:
  assumes "bytes_total (statistics_snapshot (kinetic_object (adm_cluster s))) \<noteq> 1"
  shows "\<exists>s'. status_wait env se s = Some (Inr (), s') \<and>
    statistics_snapshot (kinetic_object (adm_cluster s')) = statistics_snapshot (kinetic_object (adm_cluster s))"
  by (subst status_wait.simps) (use assms in \<open>auto simp: kc_stats_eq bnd_def ret_def split: prod.splits dest: cluster_stats_keeps\<close>)

lemma status_wait_update:
  assumes "bytes_total (statistics_snapshot (kinetic_object (adm_cluster s))) = 1"
    and "\<not> destructed (kinetic_object (adm_cluster s))" and "0 < updates_pending (adm_cluster s)" and "\<And>s. pool_runs se s"
    and "\<And>cl w cl' w'. updateSnapshot env (fmul_capacity se) cl w = (Inr cl', w') \<Longrightarrow> bytes_total (statistics_snapshot cl') \<noteq> 1"
  shows "\<exists>s'. status_wait env se s = Some (Inr (), s')"
proof -
  obtain st sch cl where c: "cluster_stats env (kinetic_object (adm_cluster s)) (kinetic_world (adm_cluster s)) = (st, sch, cl)"
    by (cases "cluster_stats env (kinetic_object (adm_cluster s)) (kinetic_world (adm_cluster s))")
  have cl: "\<not> destructed cl" using cluster_stats_keeps [OF c] assms(2) by simp
  define k where "k = (adm_cluster s)\<lparr>kinetic_object := cl,
    updates_pending := (if sch then Suc (updates_pending (adm_cluster s)) else updates_pending (adm_cluster s)),
    kinetic_world := env_sleep env 100 (kinetic_world (adm_cluster s))\<rparr>"
  obtain cl' w' where u: "updateSnapshot env (fmul_capacity se) cl (kinetic_world k) = (Inr cl', w')"
    using cl by (cases "updateSnapshot env (fmul_capacity se) cl (kinetic_world k)")
      (auto simp: updateSnapshot_def Let_def split: prod.splits)
  define s2 where "s2 = s\<lparr>adm_cluster := k\<lparr>kinetic_world := w', updates_pending := updates_pending k - 1, kinetic_object := cl'\<rparr>\<rparr>"
  have pending: "updates_pending k \<noteq> 0" "kinetic_object k = cl" using assms(3) by (simp_all add: k_def)
  have turn: "pool_turn env se (s\<lparr>adm_cluster := k\<rparr>) = Some (Inr (), s2)"
    using assms(4) pending u
    by (simp add: pool_turn_def catch_def on_cluster_def zoom_def kc_run_update_def s2_def)
  define k0 where "k0 = (adm_cluster s)\<lparr>kinetic_object := cl,
    updates_pending := (if sch then Suc (updates_pending (adm_cluster s)) else updates_pending (adm_cluster s))\<rparr>"
  have stats: "on_cluster (kc_stats env) s = Some (Inr (statistics_snapshot (kinetic_object (adm_cluster s))), s\<lparr>adm_cluster := k0\<rparr>)"
    by (simp add: kc_stats_eq c k0_def)
  have sleep: "with_world (\<lambda>cl w. ((), env_sleep env 100 w)) (s\<lparr>adm_cluster := k0\<rparr>) = Some (Inr (), s\<lparr>adm_cluster := k\<rparr>)"
    by (simp add: with_world_def on_cluster_def kc_call_const_def zoom_def k_def k0_def)
  have "status_wait env se s = seq (with_world (\<lambda>cl w. ((), env_sleep env 100 w)))
      (seq (pool_turn env se) (status_wait env se)) (s\<lparr>adm_cluster := k0\<rparr>)"
    using stats assms(1) by (subst status_wait.simps) simp
  also have "\<dots> = status_wait env se s2"
    by (simp add: seq_def bnd_def sleep turn)
  finally have "status_wait env se s = status_wait env se s2" .
  moreover have "bytes_total (statistics_snapshot (kinetic_object (adm_cluster s2))) \<noteq> 1"
    using assms(5) [OF u] by (simp add: s2_def)
  ultimately show ?thesis using status_wait_done [of s2 env se] by auto
qed


section \<open>Properties\<close>

text \<open>The status of a cluster is reported for all its connections. When a statistics snapshot exists,
  or when the first update of it is waiting and the pool executes updates, \<^verbatim>\<open>status\<close> returns whatever
  the drives answer to the benchmark, with one entry per connection, in the order of the connections,
  that starts with the name of that connection.\<close>

theorem status_reports_all_connections:
  assumes "bytes_total (statistics_snapshot (kinetic_object (adm_cluster s))) \<noteq> 1 \<or>
      \<not> destructed (kinetic_object (adm_cluster s)) \<and> 0 < updates_pending (adm_cluster s) \<and> (\<forall>s. pool_runs se s) \<and>
      (\<forall>cl w cl' w'. updateSnapshot env (fmul_capacity se) cl w = (Inr cl', w') \<longrightarrow> bytes_total (statistics_snapshot cl') \<noteq> 1)"
  shows "\<exists>r s'. admin_status env se num_bench_keys s = Some (Inr r, s') \<and>
    length (connected r) = connections (kinetic_object (adm_cluster s)) \<and>
    length (location r) = connections (kinetic_object (adm_cluster s)) \<and>
    (\<forall>i < length (location r). \<exists>t. location r ! i = con_name se i @ t)"
proof -
  let ?k = "adm_cluster s" let ?n = "connections (kinetic_object ?k)"
  obtain xs w1 where xs: "status_connections env se num_bench_keys [0..<?n] (kinetic_world ?k) = Some (Inr xs, w1)"
    "length xs = ?n" "\<forall>i < ?n. \<exists>t. fst (xs ! i) = con_name se i @ t"
    using status_connections_ends [of env se num_bench_keys "[0..<?n]" "kinetic_world ?k"] by auto
  let ?s1 = "s\<lparr>adm_cluster := ?k\<lparr>kinetic_world := w1\<rparr>\<rparr>"
  have cons: "on_cluster (kc_call_const (\<lambda>cl. status_connections env se num_bench_keys [0..<?n])) s = Some (Inr xs, ?s1)"
    using xs(1) by (simp add: on_cluster_def kc_call_const_def zoom_def)
  obtain s2 where s2: "status_wait env se ?s1 = Some (Inr (), s2)"
  proof (cases "bytes_total (statistics_snapshot (kinetic_object ?k)) = 1")
    case True
    with assms have waits: "\<not> destructed (kinetic_object ?k)" "0 < updates_pending ?k" "\<And>s. pool_runs se s"
      "\<And>cl w cl' w'. updateSnapshot env (fmul_capacity se) cl w = (Inr cl', w') \<Longrightarrow> bytes_total (statistics_snapshot cl') \<noteq> 1"
      by blast+
    have "\<exists>s'. status_wait env se ?s1 = Some (Inr (), s')"
      by (rule status_wait_update [OF _ _ _ waits(3,4)]) (simp_all add: True waits(1,2))
    then show ?thesis by (auto intro: that)
  next
    case False
    with status_wait_done [of ?s1 env se] show ?thesis by (auto intro: that)
  qed
  have "\<exists>(st :: ClusterStats) s3. admin_status env se num_bench_keys s = Some (Inr ((health st)\<lparr>connected := map snd xs, location := map fst xs\<rparr>), s3)"
    using cons s2 by (simp add: admin_status_def kc_stats_eq ret_def) blast
  then show ?thesis using xs(2,3) by fastforce
qed

definition status_demo_env :: "sim status_env" where
  "status_demo_env = \<lparr>con_name = (\<lambda>i. ''drive'' @ dec i), con_get = (\<lambda>i w. (\<not> sim_down w i, w)), shuffle_keys = (\<lambda>i ks. rev ks),
     format_rate = (\<lambda>r. ''1.0''), pool_runs = (\<lambda>s. True), fmul_capacity = (\<lambda>n r. n)\<rparr>"

definition status_demo_state :: "sim admin_state" where
  "status_demo_state =
     \<lparr>adm_cluster = \<lparr>kinetic_object = demo_cluster\<lparr>statistics_snapshot := (statistics_snapshot demo_cluster)\<lparr>bytes_total := 4000\<rparr>\<rparr>,
        kinetic_world = sim_init [3], updates_pending = 0\<rparr>,
      adm_counts = KeyCountsInternal_new, adm_pages = []\<rparr>"

theorem status_reports_all_connections_witness:
  "\<exists>r s'. admin_status sim_env status_demo_env 2 status_demo_state = Some (Inr r, s') \<and> length (connected r) = 4 \<and>
     (\<exists>t. location r ! 1 = ''drive'' @ dec 1 @ t)"
proof -
  have "bytes_total (statistics_snapshot (kinetic_object (adm_cluster status_demo_state))) \<noteq> 1"
    by (simp add: status_demo_state_def)
  then have "\<exists>r s'. admin_status sim_env status_demo_env 2 status_demo_state = Some (Inr r, s') \<and>
      length (connected r) = connections (kinetic_object (adm_cluster status_demo_state)) \<and>
      length (location r) = connections (kinetic_object (adm_cluster status_demo_state)) \<and>
      (\<forall>i < length (location r). \<exists>t. location r ! i = con_name status_demo_env i @ t)"
    by (intro status_reports_all_connections) (rule disjI1)
  then obtain r s' where r: "admin_status sim_env status_demo_env 2 status_demo_state = Some (Inr r, s')"
    "length (connected r) = connections (kinetic_object (adm_cluster status_demo_state))"
    "length (location r) = connections (kinetic_object (adm_cluster status_demo_state))"
    "\<forall>i < length (location r). \<exists>t. location r ! i = con_name status_demo_env i @ t" by blast
  have n: "connections (kinetic_object (adm_cluster status_demo_state)) = 4" by (simp add: status_demo_state_def)
  with r(3,4) have "\<exists>t. location r ! 1 = con_name status_demo_env 1 @ t" by (metis one_less_numeral_iff semiring_norm(76))
  with r(1,2) n show ?thesis by (auto simp: status_demo_env_def)
qed

end
