(* ===== verification/Logging.thy ===== *)
theory Logging
  imports Cluster_Interface
begin

text \<open>
  \<^verbatim>\<open>Logger\<close> (include/Logging.hh), its registration through the factory (src/KineticIoFactory.cc), and the log
  functions that the administration tool registers (tools/admin.cc).

  The registered functions belong to the client. They are values of a type of their own, and what a call of
  one does is a parameter: a record of programs over the state of the logger and the client's world. So
  a client function may return, throw, or call the logger again. The logger holds its mutex while
  it calls the client; a thread that asks for a mutex it holds never goes on, which is the result \<open>None\<close>.
  Messages reach the client as C strings, which end at the first null character.
\<close>

section \<open>Model\<close>

text \<open>The levels of syslog.\<close>

definition LOG_ERR :: int where "LOG_ERR = 3"
definition LOG_WARNING :: int where "LOG_WARNING = 4"
definition LOG_NOTICE :: int where "LOG_NOTICE = 5"
definition LOG_DEBUG :: int where "LOG_DEBUG = 7"

text \<open>\<open>None\<close> is an empty \<^verbatim>\<open>std::function\<close>.\<close>

record ('f, 'g, 'w) logger =
  logFunction :: "'f option"
  shouldLog :: "'g option"
  log_mutex :: bool
  log_world :: 'w

record ('f, 'g, 'w) log_client =
  call_log :: "'f \<Rightarrow> string \<Rightarrow> string \<Rightarrow> int \<Rightarrow> int \<Rightarrow> string \<Rightarrow> (('f, 'g, 'w) logger, unit) kio"
  call_should :: "'g \<Rightarrow> string \<Rightarrow> int \<Rightarrow> (('f, 'g, 'w) logger, bool) kio"

definition Logger_new :: "'w \<Rightarrow> ('f, 'g, 'w) logger" where
  "Logger_new w = \<lparr>logFunction = None, shouldLog = None, log_mutex = False, log_world = w\<rparr>"

definition c_str :: "string \<Rightarrow> string" where
  "c_str s = takeWhile (\<lambda>c. c \<noteq> CHR 0x00) s"

text \<open>A \<^verbatim>\<open>std::lock_guard\<close>: the mutex is released when the block is left, by an exception too.\<close>

definition locked :: "(('f, 'g, 'w) logger, 'a) kio \<Rightarrow> (('f, 'g, 'w) logger, 'a) kio" where
  "locked m s =
     (if log_mutex s then None
      else map_option (\<lambda>(r, s). (r, s\<lparr>log_mutex := False\<rparr>)) (m (s\<lparr>log_mutex := True\<rparr>)))"

definition Logger_registerLogFunction :: "'f option \<Rightarrow> 'g option \<Rightarrow> (('f, 'g, 'w) logger, unit) kio" where
  "Logger_registerLogFunction lfunc shouldfunc = locked (modify (\<lambda>s. s\<lparr>logFunction := lfunc, shouldLog := shouldfunc\<rparr>))"

text \<open>\<open>args\<close> are the arguments as they are written to the stream.\<close>

definition Logger_log ::
  "('f, 'g, 'w) log_client \<Rightarrow> string \<Rightarrow> string \<Rightarrow> int \<Rightarrow> int \<Rightarrow> string list \<Rightarrow> (('f, 'g, 'w) logger, unit) kio" where
  "Logger_log client func file line level args =
     locked (bnd (asks (\<lambda>s. (logFunction s, shouldLog s))) (\<lambda>fs. case fs of
        (Some f, Some g) \<Rightarrow>
          bnd (call_should client g func level) (\<lambda>b.
            if \<not> b then ret () else call_log client f func file line level (c_str (Convert_toString args)))
      | _ \<Rightarrow> ret ()))"

text \<open>A sequence of messages of the library.\<close>

type_synonym log_message = "string \<times> string \<times> int \<times> int \<times> string list"

definition log_all :: "('f, 'g, 'w) log_client \<Rightarrow> log_message list \<Rightarrow> (('f, 'g, 'w) logger, unit) kio" where
  "log_all client = for_each (\<lambda>(func, file, line, level, args). Logger_log client func file line level args)"

text \<open>The factory announces the library. The version comes from the build, the file name from the compiler.\<close>

definition Factory_registerLogFunction ::
  "('f, 'g, 'w) log_client \<Rightarrow> string \<Rightarrow> string \<Rightarrow> 'f option \<Rightarrow> 'g option \<Rightarrow> (('f, 'g, 'w) logger, unit) kio" where
  "Factory_registerLogFunction client file KIO_VERSION lfunc shouldfunc =
     seq (Logger_registerLogFunction lfunc shouldfunc)
       (Logger_log client ''registerLogFunction'' file 32 LOG_NOTICE [''Registered log function. Library Version = '', KIO_VERSION])"

subsection \<open>The administration tool as a client\<close>

text \<open>The world of the tool is what it printed. The function that decides is bound to the verbosity.\<close>

definition mshouldLog :: "string \<Rightarrow> int \<Rightarrow> int \<Rightarrow> bool" where
  "mshouldLog func level target_level \<longleftrightarrow> level \<le> target_level"

definition mlog :: "string \<Rightarrow> string \<Rightarrow> int \<Rightarrow> int \<Rightarrow> string \<Rightarrow> string" where
  "mlog func file line level msg =
     (if level = LOG_DEBUG then ''DEBUG:''
      else if level = LOG_NOTICE then ''NOTICE:''
      else if level = LOG_WARNING then ''WARNING:''
      else if level = LOG_ERR then ''ERROR:''
      else []) @ '' '' @ msg @ [CHR 0x0A]"

definition tool_client :: "(unit, int, string) log_client" where
  "tool_client =
     \<lparr>call_log = (\<lambda>_ func file line level msg. modify (\<lambda>s. s\<lparr>log_world := log_world s @ mlog func file line level msg\<rparr>)),
      call_should = (\<lambda>target func level. ret (mshouldLog func level target))\<rparr>"

section \<open>Well-behaved clients\<close>

text \<open>A client whose functions return and do not touch the logger.\<close>

locale plain_client =
  fixes client :: "('f, 'g, 'w) log_client"
    and emit :: "'f \<Rightarrow> string \<Rightarrow> string \<Rightarrow> int \<Rightarrow> int \<Rightarrow> string \<Rightarrow> 'w \<Rightarrow> 'w"
    and wants :: "'g \<Rightarrow> string \<Rightarrow> int \<Rightarrow> 'w \<Rightarrow> bool"
  assumes plain_log: "call_log client f func file line level msg s =
      Some (Inr (), s\<lparr>log_world := emit f func file line level msg (log_world s)\<rparr>)"
    and plain_should: "call_should client g func level s = Some (Inr (wants g func level (log_world s)), s)"
begin

lemma log_registered:
  assumes "\<not> log_mutex s" and "logFunction s = Some f" and "shouldLog s = Some g"
  shows "Logger_log client func file line level args s =
    Some (Inr (), s\<lparr>log_world := if wants g func level (log_world s)
        then emit f func file line level (c_str (Convert_toString args)) (log_world s) else log_world s\<rparr>)"
  using assms by (cases s) (simp add: Logger_log_def locked_def plain_log plain_should bnd_def asks_def ret_def)

lemma log_unregistered:
  assumes "\<not> log_mutex s" and "logFunction s = None \<or> shouldLog s = None"
  shows "Logger_log client func file line level args s = Some (Inr (), s)"
  using assms by (cases s) (auto simp: Logger_log_def locked_def bnd_def asks_def ret_def split: option.splits)

lemma log_all_registered:
  assumes "\<not> log_mutex s" and "logFunction s = Some f" and "shouldLog s = Some g"
  shows "log_all client ms s = Some (Inr (), s\<lparr>log_world :=
    fold (\<lambda>(func, file, line, level, args) w. if wants g func level w
        then emit f func file line level (c_str (Convert_toString args)) w else w) ms (log_world s)\<rparr>)"
  using assms
proof (induction ms arbitrary: s)
  case Nil
  then show ?case by (simp add: log_all_def ret_def)
next
  case (Cons m ms)
  obtain fn fl ln level args where m: "m = (fn, fl, ln, level, args)" by (cases m)
  show ?case
    using Cons.IH [of "s\<lparr>log_world := if wants g fn level (log_world s)
        then emit f fn fl ln level (c_str (Convert_toString args)) (log_world s) else log_world s\<rparr>"] Cons.prems
    by (simp add: log_all_def m seq_def bnd_def log_registered)
qed

lemma register_announces:
  assumes "\<not> log_mutex s"
  shows "Factory_registerLogFunction client file ver (Some f) (Some g) s =
    Logger_log client ''registerLogFunction'' file 32 LOG_NOTICE [''Registered log function. Library Version = '', ver]
      (s\<lparr>logFunction := Some f, shouldLog := Some g\<rparr>)"
  using assms by (cases s)
    (simp add: Factory_registerLogFunction_def Logger_registerLogFunction_def locked_def seq_def bnd_def modify_def)

end

interpretation tool_logging: plain_client tool_client "\<lambda>_ func file line level msg out. out @ mlog func file line level msg"
  "\<lambda>target func level out. mshouldLog func level target"
  by unfold_locales (simp_all add: tool_client_def modify_def ret_def)

lemma tool_lines:
  "fold (\<lambda>(func, file, line, level, args) out. if mshouldLog func level v
      then out @ mlog func file line level (c_str (Convert_toString args)) else out) ms out =
   out @ concat (map (\<lambda>(func, file, line, level, args). mlog func file line level (c_str (Convert_toString args)))
     (filter (\<lambda>(func, file, line, level, args). level \<le> v) ms))"
  by (induction ms arbitrary: out) (auto simp: mshouldLog_def)

section \<open>Property\<close>

text \<open>C23: The messages of the library reach the client. After the administration tool registered its log
  functions it has printed, in this order and nothing else, the announcement of the library and the
  messages of the library whose level is within the chosen verbosity, each as one line with the name
  of its level; without registered functions logging has no effect. An exception of a client's log function is passed on and
  leaves the logger free, but a log function that begins with logging a message itself never returns.\<close>

theorem logging_delivers:
  assumes "\<not> log_mutex s" and "\<not> log_mutex t" and "logFunction t = Some f" and "shouldLog t = Some g"
    and "call_should client g func level (t\<lparr>log_mutex := True\<rparr>) = Some (Inr True, t\<lparr>log_mutex := True\<rparr>)"
  shows "(\<exists>s'. seq (Factory_registerLogFunction tool_client file ver (Some ()) (Some v)) (log_all tool_client ms) s = Some (Inr (), s') \<and>
      \<not> log_mutex s' \<and> log_world s' = log_world s @
        concat (map (\<lambda>(func, file, line, level, args). mlog func file line level (c_str (Convert_toString args)))
          (filter (\<lambda>(func, file, line, level, args). level \<le> v)
            ((''registerLogFunction'', file, 32, LOG_NOTICE, [''Registered log function. Library Version = '', ver]) # ms)))) \<and>
    (logFunction s = None \<longrightarrow> Logger_log tool_client func file line level args s = Some (Inr (), s)) \<and>
    (\<forall>e. call_log client f func file line level (c_str (Convert_toString args)) (t\<lparr>log_mutex := True\<rparr>) = Some (Inl e, t\<lparr>log_mutex := True\<rparr>) \<longrightarrow>
       Logger_log client func file line level args t = Some (Inl e, t)) \<and>
    (\<forall>func' file' line' level' args' k. call_log client f func file line level (c_str (Convert_toString args)) (t\<lparr>log_mutex := True\<rparr>) =
         bnd (Logger_log client func' file' line' level' args') k (t\<lparr>log_mutex := True\<rparr>) \<longrightarrow>
       Logger_log client func file line level args t = None)"
proof (intro conjI)
  let ?n = "(''registerLogFunction'', file, 32, LOG_NOTICE, [''Registered log function. Library Version = '', ver])"
  let ?s = "s\<lparr>logFunction := Some (), shouldLog := Some v\<rparr>"
  have "seq (Factory_registerLogFunction tool_client file ver (Some ()) (Some v)) (log_all tool_client ms) s = log_all tool_client (?n # ms) ?s"
    using tool_logging.register_announces [OF assms(1)] by (simp add: log_all_def seq_def bnd_def)
  then show "\<exists>s'. seq (Factory_registerLogFunction tool_client file ver (Some ()) (Some v)) (log_all tool_client ms) s = Some (Inr (), s') \<and>
      \<not> log_mutex s' \<and> log_world s' = log_world s @
        concat (map (\<lambda>(func, file, line, level, args). mlog func file line level (c_str (Convert_toString args)))
          (filter (\<lambda>(func, file, line, level, args). level \<le> v) (?n # ms)))"
    using tool_logging.log_all_registered [of ?s "()" v "?n # ms"] assms(1) unfolding tool_lines by simp
qed (use assms in \<open>auto simp: tool_logging.log_unregistered, cases t, auto simp: Logger_log_def locked_def bnd_def asks_def\<close>)

text \<open>A client whose log function logs the message again.\<close>

definition looping_client :: "(unit, unit, unit) log_client" where
  "looping_client =
     \<lparr>call_log = (\<lambda>_ func file line level msg s.
        if log_mutex s \<or> logFunction s \<noteq> None \<and> shouldLog s \<noteq> None then None else Some (Inr (), s)),
      call_should = (\<lambda>_ func level. ret True)\<rparr>"

lemma looping_client_logs: "call_log looping_client f func file line level msg = Logger_log looping_client func file line level [msg]"
proof
  fix s :: "(unit, unit, unit) logger"
  show "call_log looping_client f func file line level msg s = Logger_log looping_client func file line level [msg] s"
    by (cases s) (auto simp: looping_client_def Logger_log_def locked_def bnd_def asks_def ret_def split: option.splits)
qed

theorem logging_delivers_witness:
  "(\<exists>s'. seq (Factory_registerLogFunction tool_client ''f.cc'' ''1'' (Some ()) (Some LOG_WARNING))
        (log_all tool_client [(''g'', ''h.cc'', 7, LOG_ERR, [''key '', ''k'']), (''g'', ''h.cc'', 8, LOG_DEBUG, [''x''])]) (Logger_new ''>'') =
      Some (Inr (), s') \<and> log_world s' = ''>ERROR: key k'' @ [CHR 0x0A]) \<and>
   Logger_log looping_client ''g'' ''f.cc'' 7 LOG_ERR [''a''] \<lparr>logFunction = Some (), shouldLog = Some (), log_mutex = False, log_world = ()\<rparr> = None"
proof -
  let ?t = "\<lparr>logFunction = Some (), shouldLog = Some (), log_mutex = False, log_world = ()\<rparr>"
  have t: "\<not> log_mutex (Logger_new ''>'')" "\<not> log_mutex ?t" "logFunction ?t = Some ()" "shouldLog ?t = Some ()"
    "call_should looping_client () ''g'' LOG_ERR (?t\<lparr>log_mutex := True\<rparr>) = Some (Inr True, ?t\<lparr>log_mutex := True\<rparr>)"
    by (simp_all add: Logger_new_def looping_client_def ret_def)
  note d = logging_delivers [OF t, of "''f.cc''" "''1''" LOG_WARNING
      "[(''g'', ''h.cc'', 7, LOG_ERR, [''key '', ''k'']), (''g'', ''h.cc'', 8, LOG_DEBUG, [''x''])]" 7 "[''a'']"]
  have "call_log looping_client () ''g'' ''f.cc'' 7 LOG_ERR (c_str (Convert_toString [''a''])) (?t\<lparr>log_mutex := True\<rparr>) =
      bnd (Logger_log looping_client ''g'' ''f.cc'' 7 LOG_ERR [''a'']) ret (?t\<lparr>log_mutex := True\<rparr>)"
    by (simp add: looping_client_logs) (simp add: Logger_log_def locked_def bnd_def)
  then have "Logger_log looping_client ''g'' ''f.cc'' 7 LOG_ERR [''a''] ?t = None" using d by blast
  with d show ?thesis
    by (auto simp: Logger_new_def LOG_WARNING_def LOG_NOTICE_def LOG_ERR_def LOG_DEBUG_def mlog_def c_str_def Convert_toString_def)
qed

end
