(* ===== verification/Admin_Tool.thy ===== *)
theory Admin_Tool
  imports Io_Configuration Admin_Storage Admin_Status Logging
begin

text \<open>
  The command line tool (tools/admin.cc) in the build without EOS: parsing the arguments, running an
  administrative operation on all its targets and adding up the results, and the exit code.

  The text that the tool prints is left out; \<open>do_operation\<close> returns the values it prints. The
  progress callback returns the flag that the signal handler clears, so it is an argument \<open>running\<close>.
\<close>

section \<open>Model\<close>

datatype tool_op =
  OP_STATUS | OP_COUNT | OP_SCAN | OP_REPAIR | OP_RESET | OP_INVALID | OP_CONFIG_SHOW | OP_CONFIG_PUBLISH | OP_CONFIG_UPLOAD

record tool_config =
  tc_op :: tool_op
  tc_targets :: "OperationTarget list"
  tc_id :: string
  tc_space :: string
  tc_file :: string
  tc_tag :: string
  tc_numthreads :: int
  tc_verbosity :: int
  tc_numbench :: int
  tc_monitoring :: bool

text \<open>\<^verbatim>\<open>atoi\<close> of the C library: the value of \<^verbatim>\<open>strtol\<close>, a 64 bit number, cut to an \<^verbatim>\<open>int\<close>.\<close>

definition atoi :: "string \<Rightarrow> int" where
  "atoi s =
     (case scan_digits s of (neg, ds) \<Rightarrow>
        let v = int (digits_val ds); k = (if neg then - v else v)
        in to_int32 (if k < - 9223372036854775808 then - 9223372036854775808
                     else if 9223372036854775807 < k then 9223372036854775807 else k))"

definition target_of :: "string \<Rightarrow> OperationTarget option" where
  "target_of s =
     (if s = ''indicator'' then Some INDICATOR
      else if s = ''data'' then Some DATA
      else if s = ''metadata'' then Some METADATA
      else if s = ''attribute'' then Some ATTRIBUTE
      else None)"

definition verbosity_of :: "string \<Rightarrow> int option" where
  "verbosity_of s =
     (if s = ''debug'' then Some LOG_DEBUG
      else if s = ''notice'' then Some LOG_NOTICE
      else if s = ''warning'' then Some LOG_WARNING
      else if s = ''error'' then Some LOG_ERR
      else None)"

text \<open>The words behind \<^verbatim>\<open>config\<close>.\<close>

definition config_mode :: "string \<Rightarrow> tool_op \<Rightarrow> string list \<times> tool_config \<Rightarrow> string list \<times> tool_config" where
  "config_mode word op x =
     (case x of (arg # rest, c) \<Rightarrow> if arg = word then (rest, c\<lparr>tc_op := op\<rparr>) else x | ([], c) \<Rightarrow> x)"

text \<open>An option with a value; \<open>None\<close> for \<^verbatim>\<open>return false\<close>. The boolean is whether the value was consumed:
  an unknown argument is skipped alone.\<close>

definition parse_pair :: "string \<Rightarrow> string \<Rightarrow> tool_config \<Rightarrow> (bool \<times> tool_config) option" where
  "parse_pair arg v c =
     (if arg = ''--target''
      then map_option (\<lambda>t. (True, c\<lparr>tc_targets := tc_targets c @ [t]\<rparr>)) (target_of v)
      else if arg = ''--verbosity'' then map_option (\<lambda>l. (True, c\<lparr>tc_verbosity := l\<rparr>)) (verbosity_of v)
      else if arg = ''--id'' then Some (True, c\<lparr>tc_id := v\<rparr>)
      else if arg = ''--space'' then Some (True, c\<lparr>tc_space := v\<rparr>)
      else if arg = ''--file'' then Some (True, c\<lparr>tc_file := v\<rparr>)
      else if arg = ''--threads'' then Some (True, c\<lparr>tc_numthreads := atoi v\<rparr>)
      else if arg = ''--bench'' then Some (True, c\<lparr>tc_numbench := atoi v\<rparr>)
      else Some (False, c))"

definition parse_word :: "string \<Rightarrow> tool_config \<Rightarrow> tool_config option" where
  "parse_word arg c =
     (if arg = ''scan'' then Some (c\<lparr>tc_op := OP_SCAN\<rparr>)
      else if arg = ''count'' then Some (c\<lparr>tc_op := OP_COUNT\<rparr>)
      else if arg = ''repair'' then Some (c\<lparr>tc_op := OP_REPAIR\<rparr>)
      else if arg = ''status'' then Some (c\<lparr>tc_op := OP_STATUS\<rparr>)
      else if arg = ''reset'' then Some (c\<lparr>tc_op := OP_RESET\<rparr>)
      else if arg = ''--security'' then Some (c\<lparr>tc_tag := ''security''\<rparr>)
      else if arg = ''--location'' then Some (c\<lparr>tc_tag := ''location''\<rparr>)
      else if arg = ''--cluster'' then Some (c\<lparr>tc_tag := ''cluster''\<rparr>)
      else if arg = ''-m'' then Some (c\<lparr>tc_monitoring := True\<rparr>)
      else None)"

function parse_loop :: "string list \<Rightarrow> tool_config \<Rightarrow> tool_config option" where
  "parse_loop [] c = Some c"
| "parse_loop (arg # rest) c =
     (if arg = ''config'' then
        case config_mode ''--upload'' OP_CONFIG_UPLOAD (config_mode ''--publish'' OP_CONFIG_PUBLISH
               (rest, c\<lparr>tc_op := OP_CONFIG_SHOW\<rparr>)) of
          (rest', c) \<Rightarrow> parse_loop rest' c
      else case parse_word arg c of
          Some c \<Rightarrow> parse_loop rest c
        | None \<Rightarrow>
            (case rest of
               [] \<Rightarrow> None
             | v # rest' \<Rightarrow>
                 (case parse_pair arg v c of
                    None \<Rightarrow> None
                  | Some (consumed, c) \<Rightarrow> parse_loop (if consumed then rest' else rest) c)))"
  by pat_completeness auto

termination
  by (relation "measure (\<lambda>(args, c). length args)") (auto simp: config_mode_def split: list.splits if_splits)

declare parse_loop.simps(2) [simp del]

definition tool_default :: tool_config where
  "tool_default = \<lparr>tc_op = OP_INVALID, tc_targets = [], tc_id = [], tc_space = ''default'', tc_file = [], tc_tag = [],
     tc_numthreads = 1, tc_verbosity = LOG_WARNING, tc_numbench = 0, tc_monitoring = False\<rparr>"

definition parseArguments :: "string list \<Rightarrow> tool_config option" where
  "parseArguments arguments =
     (case parse_loop arguments tool_default of
        None \<Rightarrow> None
      | Some c \<Rightarrow>
          let c = (if tc_targets c = [] then c\<lparr>tc_targets := [METADATA, ATTRIBUTE, DATA]\<rparr> else c)
          in if tc_op c = OP_INVALID then None
             else if tc_id c = [] \<and> tc_op c \<noteq> OP_CONFIG_PUBLISH \<and> tc_op c \<noteq> OP_CONFIG_SHOW \<and> tc_op c \<noteq> OP_CONFIG_UPLOAD then None
             else if tc_op c = OP_CONFIG_UPLOAD \<and> (tc_file c = [] \<or> tc_tag c = []) then None
             else Some c)"

subsection \<open>Running an operation\<close>

text \<open>Sums of \<^verbatim>\<open>int\<close> wrap around; in C++ a sum that leaves the range is undefined.\<close>

definition KeyCounts_plus :: "KeyCounts \<Rightarrow> KeyCounts \<Rightarrow> KeyCounts" where
  "KeyCounts_plus l r =
     \<lparr>kc_total = to_int32 (kc_total l + kc_total r), kc_incomplete = to_int32 (kc_incomplete l + kc_incomplete r),
      kc_need_action = to_int32 (kc_need_action l + kc_need_action r), kc_repaired = to_int32 (kc_repaired l + kc_repaired r),
      kc_removed = to_int32 (kc_removed l + kc_removed r),
      kc_unrepairable = to_int32 (kc_unrepairable l + kc_unrepairable r)\<rparr>"

datatype tool_result = Shown ClusterStatus | Counted int | Processed KeyCounts

fun count_targets :: "(OperationTarget \<Rightarrow> ('s, int) kio) \<Rightarrow> OperationTarget list \<Rightarrow> int \<Rightarrow> ('s, int) kio" where
  "count_targets f [] n = ret n"
| "count_targets f (t # ts) n = bnd (f t) (\<lambda>k. count_targets f ts (to_int32 (n + k)))"

fun process_targets :: "(OperationTarget \<Rightarrow> ('s, KeyCounts) kio) \<Rightarrow> OperationTarget list \<Rightarrow> KeyCounts \<Rightarrow> ('s, KeyCounts) kio" where
  "process_targets f [] k = ret k"
| "process_targets f (t # ts) k = bnd (f t) (\<lambda>k'. process_targets f ts (KeyCounts_plus k k'))"

definition do_operation ::
  "'w env \<Rightarrow> isal \<Rightarrow> 'w status_env \<Rightarrow> ('w admin_state \<Rightarrow> nat) \<Rightarrow> (int \<Rightarrow> bool) \<Rightarrow> tool_config \<Rightarrow> ('w, tool_result) admin" where
  "do_operation env lib se sched running c =
     (let nt = to_size (tc_numthreads c);
          total = (\<lambda>f. bnd (process_targets f (tc_targets c) KeyCountsInternal_new) (\<lambda>k. ret (Processed k)))
      in case tc_op c of
           OP_STATUS \<Rightarrow> bnd (admin_status env se (tc_numbench c)) (\<lambda>v. ret (Shown v))
         | OP_COUNT \<Rightarrow> bnd (count_targets (\<lambda>t. admin_count env lib t (Some running)) (tc_targets c) 0) (\<lambda>n. ret (Counted n))
         | OP_SCAN \<Rightarrow> total (\<lambda>t. admin_scan env lib sched t (Some running) nt)
         | OP_REPAIR \<Rightarrow> total (\<lambda>t. admin_repair env lib sched t (Some running) nt)
         | OP_RESET \<Rightarrow> total (\<lambda>t. admin_reset env lib sched t (Some running) nt)
         | _ \<Rightarrow> if tc_targets c = [] then ret (Processed KeyCountsInternal_new) else throw Runtime_error)"

text \<open>\<^verbatim>\<open>main\<close>: the exit code and what was printed. The administrative object is obtained from the cluster map.\<close>

definition on_object :: "nat \<Rightarrow> ('w, 'a) admin \<Rightarrow> ('w cluster_map, 'a) kio" where
  "on_object a m s =
     (let ob = cluster_heap s ! a
      in map_option (\<lambda>(r, t). (r, s\<lparr>map_world := kinetic_world (adm_cluster t),
              cluster_heap := (cluster_heap s)[a := ob\<lparr>obj_cluster := kinetic_object (adm_cluster t)\<rparr>]\<rparr>))
           (m \<lparr>adm_cluster = \<lparr>kinetic_object = obj_cluster ob, kinetic_world = map_world s, updates_pending = 1\<rparr>,
               adm_counts = KeyCountsInternal_new, adm_pages = []\<rparr>))"

definition tool_main ::
  "'w dialer \<Rightarrow> ('w auto_connection list \<Rightarrow> 'w env) \<Rightarrow> isal \<Rightarrow> 'w status_env \<Rightarrow> ('w admin_state \<Rightarrow> nat) \<Rightarrow> (int \<Rightarrow> bool) \<Rightarrow>
   string list \<Rightarrow> 'w cluster_map \<Rightarrow> ((int \<times> tool_result option) \<times> 'w cluster_map) option" where
  "tool_main dial env_of lib se sched running args m =
     (case parseArguments args of
        None \<Rightarrow> Some ((1, None), m)
      | Some c \<Rightarrow>
          map_option (\<lambda>(r, m). case r of Inl e \<Rightarrow> ((1, None), m) | Inr x \<Rightarrow> ((0, Some x), m))
            (bnd (getAdminCluster dial env_of lib (\<lambda>m. m) (tc_id c)) (\<lambda>a m.
               on_object a (do_operation (env_of (obj_connections (cluster_heap m ! a))) lib se sched running c) m) m))"


section \<open>Lemmas\<close>

definition is_int32 :: "int \<Rightarrow> bool" where
  "is_int32 k \<longleftrightarrow> - 2147483648 \<le> k \<and> k \<le> 2147483647"

definition loop_ok :: "tool_config \<Rightarrow> bool" where
  "loop_ok c \<longleftrightarrow> INVALID \<notin> set (tc_targets c) \<and> tc_tag c \<in> {[], ''security'', ''location'', ''cluster''} \<and>
     tc_verbosity c \<in> {LOG_ERR, LOG_WARNING, LOG_NOTICE, LOG_DEBUG} \<and> is_int32 (tc_numthreads c) \<and> is_int32 (tc_numbench c)"

lemma is_int32_to_int32 [simp]: "is_int32 (to_int32 k)"
proof -
  have "- (2 ^ 31) \<le> sint (word_of_int k :: 32 word)" "sint (word_of_int k :: 32 word) < 2 ^ 31"
    using sint_greater_eq [of "word_of_int k :: 32 word"] sint_less [of "word_of_int k :: 32 word"] by simp_all
  then show ?thesis by (simp add: is_int32_def to_int32_def)
qed

lemma is_int32_atoi [simp]: "is_int32 (atoi s)"
  by (simp add: atoi_def Let_def split: prod.splits)

lemma parse_word_ok: "parse_word arg c = Some c' \<Longrightarrow> loop_ok c \<Longrightarrow> loop_ok c'"
  unfolding parse_word_def by (auto simp: loop_ok_def split: if_splits)

lemma target_of_valid: "target_of v = Some t \<Longrightarrow> t \<noteq> INVALID"
  by (auto simp: target_of_def split: if_split_asm)

lemma verbosity_of_level: "verbosity_of v = Some l \<Longrightarrow> l \<in> {LOG_ERR, LOG_WARNING, LOG_NOTICE, LOG_DEBUG}"
  by (auto simp: verbosity_of_def split: if_split_asm)

lemma parse_pair_ok: "parse_pair arg v c = Some (b, c') \<Longrightarrow> loop_ok c \<Longrightarrow> loop_ok c'"
  unfolding parse_pair_def
  by (auto simp: loop_ok_def dest: verbosity_of_level target_of_valid split: if_split_asm)

lemma config_mode_ok: "config_mode word op (args, c) = (rest, c') \<Longrightarrow> loop_ok c \<Longrightarrow> loop_ok c'"
  by (auto simp: config_mode_def loop_ok_def split: list.splits if_splits)

lemma parse_loop_word:
  "arg \<noteq> ''config'' \<Longrightarrow> parse_word arg c = Some c' \<Longrightarrow> parse_loop (arg # rest) c = parse_loop rest c'"
  by (simp add: parse_loop.simps(2))

lemma parse_loop_pair:
  "arg \<noteq> ''config'' \<Longrightarrow> parse_word arg c = None \<Longrightarrow> parse_pair arg v c = Some (True, c') \<Longrightarrow>
     parse_loop (arg # v # rest) c = parse_loop rest c'"
  by (simp add: parse_loop.simps(2))

lemma parse_loop_ok: "parse_loop args c = Some c' \<Longrightarrow> loop_ok c \<Longrightarrow> loop_ok c'"
proof (induction args c rule: parse_loop.induct)
  case (1 c)
  then show ?case by simp
next
  case (2 arg rest c)
  show ?case
  proof (cases "arg = ''config''")
    case True
    obtain r1 c1 where c1: "config_mode ''--publish'' OP_CONFIG_PUBLISH (rest, c\<lparr>tc_op := OP_CONFIG_SHOW\<rparr>) = (r1, c1)" by fastforce
    obtain r2 c2 where c2: "config_mode ''--upload'' OP_CONFIG_UPLOAD (r1, c1) = (r2, c2)" by fastforce
    have "loop_ok (c\<lparr>tc_op := OP_CONFIG_SHOW\<rparr>)" using 2(5) by (simp add: loop_ok_def)
    then have "loop_ok c2" using config_mode_ok [OF c2] config_mode_ok [OF c1] by simp
    moreover have "parse_loop r2 c2 = Some c'" using 2(4) True c1 c2 by (simp add: parse_loop.simps(2))
    ultimately show ?thesis using 2(1) [OF True] c1 c2 by simp
  next
    case False
    show ?thesis
    proof (cases "parse_word arg c")
      case (Some c1)
      then show ?thesis using 2(3) [OF False Some] 2(4,5) parse_loop_word [OF False Some] parse_word_ok by simp
    next
      case None
      with 2(4) False obtain v rest' b c1 where r: "rest = v # rest'" "parse_pair arg v c = Some (b, c1)"
        "parse_loop (if b then rest' else rest) c1 = Some c'"
        unfolding parse_loop.simps(2) by (auto split: list.splits option.splits prod.splits)
      then show ?thesis using 2(2) [OF False None r(1,2)] 2(5) parse_pair_ok by simp
    qed
  qed
qed


subsection \<open>Rendering a configuration as arguments\<close>

fun op_word :: "tool_op \<Rightarrow> string list" where
  "op_word OP_STATUS = [''status'']"
| "op_word OP_COUNT = [''count'']"
| "op_word OP_SCAN = [''scan'']"
| "op_word OP_REPAIR = [''repair'']"
| "op_word OP_RESET = [''reset'']"
| "op_word OP_INVALID = []"
| "op_word OP_CONFIG_SHOW = [''config'']"
| "op_word OP_CONFIG_PUBLISH = [''config'', ''--publish'']"
| "op_word OP_CONFIG_UPLOAD = [''config'', ''--upload'']"

fun target_word :: "OperationTarget \<Rightarrow> string" where
  "target_word DATA = ''data''"
| "target_word METADATA = ''metadata''"
| "target_word ATTRIBUTE = ''attribute''"
| "target_word INDICATOR = ''indicator''"
| "target_word INVALID = ''invalid''"

definition verbosity_word :: "int \<Rightarrow> string" where
  "verbosity_word l = (if l = LOG_DEBUG then ''debug'' else if l = LOG_NOTICE then ''notice''
     else if l = LOG_WARNING then ''warning'' else ''error'')"

definition tag_word :: "string \<Rightarrow> string list" where
  "tag_word t = (if t = [] then [] else [''--'' @ t])"

definition arguments_of :: "tool_config \<Rightarrow> string list" where
  "arguments_of c =
     op_word (tc_op c) @ tag_word (tc_tag c) @ (if tc_monitoring c then [''-m''] else []) @
     [''--id'', tc_id c, ''--space'', tc_space c, ''--file'', tc_file c, ''--threads'', dec_int (tc_numthreads c),
      ''--bench'', dec_int (tc_numbench c), ''--verbosity'', verbosity_word (tc_verbosity c)] @
     concat (map (\<lambda>t. [''--target'', target_word t]) (tc_targets c))"

definition tool_config_ok :: "tool_config \<Rightarrow> bool" where
  "tool_config_ok c \<longleftrightarrow> loop_ok c \<and> tc_targets c \<noteq> [] \<and> tc_op c \<noteq> OP_INVALID \<and>
     (tc_id c = [] \<longrightarrow> tc_op c \<in> {OP_CONFIG_SHOW, OP_CONFIG_PUBLISH, OP_CONFIG_UPLOAD}) \<and>
     (tc_op c = OP_CONFIG_UPLOAD \<longrightarrow> tc_file c \<noteq> [] \<and> tc_tag c \<noteq> [])"

lemma scan_digits_dec_int: "scan_digits (dec_int k) = (k < 0, dec (nat \<bar>k\<bar>))"
proof (cases "k < 0")
  case True
  have "takeWhile is_digit (dec (nat (- k))) = dec (nat (- k))" using set_dec by simp
  then show ?thesis using True by (simp add: scan_digits_def dec_int_def is_space_def)
next
  case False
  then show ?thesis using scan_digits_all [OF set_dec] by (simp add: dec_int_def)
qed

lemma atoi_dec_int: "is_int32 k \<Longrightarrow> atoi (dec_int k) = k"
  by (auto simp: atoi_def scan_digits_dec_int digits_val_dec is_int32_def Let_def to_int32_id)

lemma verbosity_of_word: "l \<in> {LOG_ERR, LOG_WARNING, LOG_NOTICE, LOG_DEBUG} \<Longrightarrow> verbosity_of (verbosity_word l) = Some l"
  by (auto simp: verbosity_of_def verbosity_word_def LOG_ERR_def LOG_WARNING_def LOG_NOTICE_def LOG_DEBUG_def)

lemma target_of_word: "t \<noteq> INVALID \<Longrightarrow> target_of (target_word t) = Some t"
  by (cases t) (simp_all add: target_of_def)

lemma parse_loop_option:
  "arg \<in> {''--target'', ''--verbosity'', ''--id'', ''--space'', ''--file'', ''--threads'', ''--bench''} \<Longrightarrow>
     parse_pair arg v c = Some (True, c') \<Longrightarrow> parse_loop (arg # v # rest) c = parse_loop rest c'"
  by (rule parse_loop_pair) (auto simp: parse_word_def)

lemma parse_targets:
  "INVALID \<notin> set ts \<Longrightarrow> parse_loop (concat (map (\<lambda>t. [''--target'', target_word t]) ts)) c = Some (c\<lparr>tc_targets := tc_targets c @ ts\<rparr>)"
proof (induction ts arbitrary: c)
  case (Cons t ts)
  have "parse_pair ''--target'' (target_word t) c = Some (True, c\<lparr>tc_targets := tc_targets c @ [t]\<rparr>)"
    using Cons.prems by (simp add: parse_pair_def target_of_word [of t] not_sym)
  then have "parse_loop (''--target'' # target_word t # concat (map (\<lambda>t. [''--target'', target_word t]) ts)) c =
      parse_loop (concat (map (\<lambda>t. [''--target'', target_word t]) ts)) (c\<lparr>tc_targets := tc_targets c @ [t]\<rparr>)"
    by (intro parse_loop_option) simp_all
  with Cons show ?case by simp
qed simp

lemma parse_op_word:
  assumes "tc_op c \<noteq> OP_INVALID" and "rest = [] \<or> hd rest \<noteq> ''--publish'' \<and> hd rest \<noteq> ''--upload''"
  shows "parse_loop (op_word (tc_op c) @ rest) d = parse_loop rest (d\<lparr>tc_op := tc_op c\<rparr>)"
proof -
  have mode: "config_mode w op (rest, x) = (rest, x)" if "w = ''--publish'' \<or> w = ''--upload''" for w op x
    using assms(2) that by (cases rest) (auto simp: config_mode_def)
  have hit: "config_mode w op (w # r, x) = (r, x\<lparr>tc_op := op\<rparr>)" for w op r x by (simp add: config_mode_def)
  have miss: "config_mode ''--publish'' op (''--upload'' # r, x) = (''--upload'' # r, x)" for op r x by (simp add: config_mode_def)
  show ?thesis
  proof (cases "tc_op c")
    case OP_CONFIG_SHOW
    then show ?thesis by (simp add: parse_loop.simps(2) mode)
  next
    case OP_CONFIG_PUBLISH
    then show ?thesis by (simp add: parse_loop.simps(2) hit mode)
  next
    case OP_CONFIG_UPLOAD
    then show ?thesis by (simp add: parse_loop.simps(2) hit miss mode)
  qed (use assms(1) in \<open>simp_all add: parse_loop_word parse_word_def\<close>)
qed

lemma parse_tag_word:
  "tc_tag c \<in> {[], ''security'', ''location'', ''cluster''} \<Longrightarrow> tc_tag d = [] \<Longrightarrow>
     parse_loop (tag_word (tc_tag c) @ rest) d = parse_loop rest (d\<lparr>tc_tag := tc_tag c\<rparr>)"
  by (cases d) (auto simp: tag_word_def parse_loop_word parse_word_def)

lemma parse_monitoring:
  "tc_monitoring d = False \<Longrightarrow>
     parse_loop ((if m then [''-m''] else []) @ rest) d = parse_loop rest (d\<lparr>tc_monitoring := m\<rparr>)"
  by (cases d) (simp add: parse_loop_word parse_word_def)

lemma parse_options:
  assumes "is_int32 n" and "is_int32 b" and "l \<in> {LOG_ERR, LOG_WARNING, LOG_NOTICE, LOG_DEBUG}"
  shows "parse_loop ([''--id'', cid, ''--space'', sp, ''--file'', f, ''--threads'', dec_int n, ''--bench'', dec_int b,
      ''--verbosity'', verbosity_word l] @ rest) d =
    parse_loop rest (d\<lparr>tc_id := cid, tc_space := sp, tc_file := f, tc_numthreads := n, tc_numbench := b, tc_verbosity := l\<rparr>)"
  using assms
  by (simp add: parse_loop_option parse_pair_def atoi_dec_int verbosity_of_word)

section \<open>Properties\<close>

text \<open>C36: The command line is understood as it is meant: every configuration of the tool that makes sense is
  obtained from the arguments that describe it, and every configuration that the parser accepts, from
  whatever arguments, makes sense: it has an operation, at least one target and no invalid one, a
  cluster name unless the operation concerns the configuration, and a file and a kind for an upload.\<close>

theorem arguments_roundtrip:
  "(tool_config_ok c \<longrightarrow> parseArguments (arguments_of c) = Some c) \<and>
   (parseArguments args = Some c' \<longrightarrow> tool_config_ok c')"
proof
  show "tool_config_ok c \<longrightarrow> parseArguments (arguments_of c) = Some c"
  proof
    assume ok: "tool_config_ok c"
    let ?rest = "(if tc_monitoring c then [''-m''] else []) @
     [''--id'', tc_id c, ''--space'', tc_space c, ''--file'', tc_file c, ''--threads'', dec_int (tc_numthreads c),
      ''--bench'', dec_int (tc_numbench c), ''--verbosity'', verbosity_word (tc_verbosity c)] @
     concat (map (\<lambda>t. [''--target'', target_word t]) (tc_targets c))"
    have tag: "tc_tag c \<in> {[], ''security'', ''location'', ''cluster''}" using ok by (simp add: tool_config_ok_def loop_ok_def)
    then have hd: "hd (tag_word (tc_tag c) @ ?rest) \<noteq> ''--publish'' \<and> hd (tag_word (tc_tag c) @ ?rest) \<noteq> ''--upload''"
      by (auto simp: tag_word_def)
    have "parse_loop (arguments_of c) tool_default = parse_loop (tag_word (tc_tag c) @ ?rest) (tool_default\<lparr>tc_op := tc_op c\<rparr>)"
      unfolding arguments_of_def using ok hd by (intro parse_op_word) (simp_all add: tool_config_ok_def)
    also have "\<dots> = parse_loop ?rest (tool_default\<lparr>tc_op := tc_op c, tc_tag := tc_tag c\<rparr>)"
      using parse_tag_word [OF tag] by (simp add: tool_default_def)
    also have "\<dots> = Some (c\<lparr>tc_targets := tc_targets tool_default @ tc_targets c\<rparr>)"
      using ok parse_options [of "tc_numthreads c" "tc_numbench c" "tc_verbosity c"] parse_targets
      by (cases c) (simp add: parse_monitoring tool_default_def tool_config_ok_def loop_ok_def)
    finally have "parse_loop (arguments_of c) tool_default = Some c" by (cases c) (simp add: tool_default_def)
    with ok show "parseArguments (arguments_of c) = Some c"
      by (auto simp: parseArguments_def tool_config_ok_def)
  qed
  have "loop_ok tool_default" by (simp add: loop_ok_def tool_default_def is_int32_def)
  then have "tool_config_ok c'" if "parseArguments args = Some c'"
  proof -
    from that obtain d where d: "parse_loop args tool_default = Some d" and
      c': "c' = (if tc_targets d = [] then d\<lparr>tc_targets := [METADATA, ATTRIBUTE, DATA]\<rparr> else d)" and
      checks: "tc_op c' \<noteq> OP_INVALID"
        "\<not> (tc_id c' = [] \<and> tc_op c' \<noteq> OP_CONFIG_PUBLISH \<and> tc_op c' \<noteq> OP_CONFIG_SHOW \<and> tc_op c' \<noteq> OP_CONFIG_UPLOAD)"
        "\<not> (tc_op c' = OP_CONFIG_UPLOAD \<and> (tc_file c' = [] \<or> tc_tag c' = []))"
      unfolding parseArguments_def Let_def by (simp split: option.splits if_split_asm)
    have "loop_ok d" using parse_loop_ok [OF d] \<open>loop_ok tool_default\<close> by simp
    then have "loop_ok c'" "tc_targets c' \<noteq> []" unfolding c' loop_ok_def by simp_all
    with checks show ?thesis unfolding tool_config_ok_def by blast
  qed
  then show "parseArguments args = Some c' \<longrightarrow> tool_config_ok c'" by blast
qed


definition demo_tool :: tool_config where
  "demo_tool = tool_default\<lparr>tc_op := OP_COUNT, tc_id := ''demo'', tc_targets := [METADATA, ATTRIBUTE], tc_numthreads := - 4\<rparr>"

theorem arguments_roundtrip_witness:
  "parseArguments (arguments_of demo_tool) = Some demo_tool \<and> tool_config_ok demo_tool"
proof -
  have "tool_config_ok demo_tool"
    by (simp add: tool_config_ok_def demo_tool_def loop_ok_def tool_default_def is_int32_def)
  with arguments_roundtrip [of demo_tool "arguments_of demo_tool" demo_tool] show ?thesis by blast
qed

subsection \<open>Counting from the command line\<close>

definition target_keys :: "string \<Rightarrow> OperationTarget \<Rightarrow> string list \<Rightarrow> string list" where
  "target_keys cid t ks = (case initRangeKeys cid t of Inl e \<Rightarrow> [] | Inr (a, b) \<Rightarrow> filter (in_range a b) ks)"

lemma count_targets_sum:
  assumes "honest_range env up keys" and "codes_ok (env_code env)" and "range_ready cl up w m"
    and "K = cluster_keys (connections cl) up keys w"
    and "\<And>t. t \<in> set ts \<Longrightarrow> \<exists>a b. initRangeKeys (identity cl) t = Inr (a, b) \<and> b \<notin> set K"
    and "count_state up keys cl w s" and "to_int32 n = n" and "goes_on cb"
  shows "\<exists>s'. count_targets (\<lambda>t. admin_count env lib t cb) ts n s =
    Some (Inr (to_int32 (n + int (sum_list (map (\<lambda>t. length (target_keys (identity cl) t K)) ts)))), s')"
  using assms(5-7)
proof (induction ts arbitrary: s n)
  case Nil
  then show ?case by (simp add: ret_def)
next
  case (Cons t ts)
  obtain a b where ab: "initRangeKeys (identity cl) t = Inr (a, b)" "b \<notin> set (cluster_keys (connections cl) up keys w)"
    using Cons.prems(1) [of t] assms(4) by auto
  let ?k = "int (length (filter (in_range a b) K))"
  obtain s1 where s1: "admin_count env lib t cb s = Some (Inr (to_int32 ?k), s1)" "count_state up keys cl w s1"
    using admin_count_result [OF assms(1-3) ab Cons.prems(2) assms(8)] unfolding assms(4) by blast
  obtain s2 where "count_targets (\<lambda>t. admin_count env lib t cb) ts (to_int32 (n + to_int32 ?k)) s1 =
      Some (Inr (to_int32 (to_int32 (n + to_int32 ?k) + int (sum_list (map (\<lambda>t. length (target_keys (identity cl) t K)) ts)))), s2)"
    using Cons.IH [OF _ s1(2), of "to_int32 (n + to_int32 ?k)"] Cons.prems(1) to_int32_add [of _ 0] by auto
  moreover have "to_int32 (n + to_int32 ?k) = to_int32 (n + ?k)" by (metis add.commute to_int32_add)
  ultimately show ?case
    using s1(1) ab(1) by (simp add: to_int32_add target_keys_def add.assoc)
qed

lemma do_count_result:
  assumes "honest_range env up keys" and "codes_ok (env_code env)" and "range_ready cl up w m"
    and "K = cluster_keys (connections cl) up keys w"
    and "\<And>t. t \<in> set (tc_targets c) \<Longrightarrow> \<exists>a b. initRangeKeys (identity cl) t = Inr (a, b) \<and> b \<notin> set K"
    and "kinetic_object (adm_cluster s) = cl" and "kinetic_world (adm_cluster s) = w" and "tc_op c = OP_COUNT"
  shows "\<exists>s'. do_operation env lib se sched (\<lambda>_. True) c s =
    Some (Inr (Counted (to_int32 (int (sum_list (map (\<lambda>t. length (target_keys (identity cl) t K)) (tc_targets c)))))), s')"
proof -
  have s: "count_state up keys cl w s" using assms(6,7) by (simp add: count_state_def)
  obtain s' where "count_targets (\<lambda>t. admin_count env lib t (Some (\<lambda>_. True))) (tc_targets c) 0 s =
      Some (Inr (to_int32 (0 + int (sum_list (map (\<lambda>t. length (target_keys (identity cl) t K)) (tc_targets c))))), s')"
    using count_targets_sum [OF assms(1-5) s _ goes_on_simps(2), where n = 0 and lib = lib] by (auto simp: to_int32_id)
  then show ?thesis using assms(8) by (simp add: do_operation_def ret_def)
qed

text \<open>C20: Counting from the command line is complete. When the tool is asked to count and is not interrupted,
  on a cluster whose drives answer range requests from their sorted keys with at most as many drives
  down as there are parities, it ends and reports the number of keys of all its targets together, as a
  32 bit integer, if no key is equal to the upper bound of a range.\<close>

theorem tool_counts_all_targets:
  assumes "honest_range env up keys" and "codes_ok (env_code env)" and "range_ready cl up w m"
    and "K = cluster_keys (connections cl) up keys w"
    and "\<And>t. t \<in> set (tc_targets c) \<Longrightarrow> \<exists>a b. initRangeKeys (identity cl) t = Inr (a, b) \<and> b \<notin> set K"
    and "kinetic_object (adm_cluster s) = cl" and "kinetic_world (adm_cluster s) = w" and "tc_op c = OP_COUNT"
  shows "\<exists>s'. do_operation env lib se sched (\<lambda>_. True) c s =
    Some (Inr (Counted (to_int32 (int (sum_list (map (\<lambda>t. length (target_keys (identity cl) t K)) (tc_targets c)))))), s')"
  using assms by (rule do_count_result)


abbreviation tool_demo_keys :: "string list" where
  "tool_demo_keys \<equiv> [''demo:attribute:b:c'', ''demo:metadata:a'', ''demo:metadata:b'']"

abbreviation tool_demo_state :: "sim admin_state" where
  "tool_demo_state \<equiv> admin_demo_state [''demo:metadata:a'', ''demo:attribute:b:c'', ''demo:metadata:b'']"

lemma tool_demo:
  "tool_demo_keys = cluster_keys (connections admin_demo_cluster) sim_up sim_keys (kinetic_world (adm_cluster tool_demo_state))"
  "t \<in> set (tc_targets demo_tool) \<Longrightarrow> \<exists>a b. initRangeKeys (identity admin_demo_cluster) t = Inr (a, b) \<and> b \<notin> set tool_demo_keys"
  "to_int32 (int (sum_list (map (\<lambda>t. length (target_keys (identity admin_demo_cluster) t tool_demo_keys)) (tc_targets demo_tool)))) = 3"
  "kinetic_object (adm_cluster tool_demo_state) = admin_demo_cluster" "tc_op demo_tool = OP_COUNT"
proof -
  have i: "identity admin_demo_cluster = ''demo''" by (simp add: admin_demo_cluster_def demo_cluster_def)
  have t: "tc_targets demo_tool = [METADATA, ATTRIBUTE]" by (simp add: demo_tool_def)
  show "tool_demo_keys = cluster_keys (connections admin_demo_cluster) sim_up sim_keys (kinetic_world (adm_cluster tool_demo_state))"
    unfolding admin_demo_keys by code_simp
  have "\<forall>t \<in> set (tc_targets demo_tool). (case initRangeKeys ''demo'' t of Inl e \<Rightarrow> False | Inr (a, b) \<Rightarrow> b \<notin> set tool_demo_keys)"
    unfolding t by code_simp
  then show "t \<in> set (tc_targets demo_tool) \<Longrightarrow> \<exists>a b. initRangeKeys (identity admin_demo_cluster) t = Inr (a, b) \<and> b \<notin> set tool_demo_keys"
    unfolding i by (cases "initRangeKeys ''demo'' t") auto
  show "to_int32 (int (sum_list (map (\<lambda>t. length (target_keys (identity admin_demo_cluster) t tool_demo_keys)) (tc_targets demo_tool)))) = 3"
    unfolding t i by code_simp
qed (simp_all add: admin_demo_state_def demo_tool_def)

theorem tool_counts_all_targets_witness:
  "\<exists>s'. do_operation sim_env sum_lib status_demo_env (\<lambda>_. 0) (\<lambda>_. True) demo_tool tool_demo_state = Some (Inr (Counted 3), s')"
  using tool_counts_all_targets [OF sim_honest_range sim_codes admin_demo_ready tool_demo(1,2,4) refl tool_demo(5),
      where lib = sum_lib and se = status_demo_env and sched = "\<lambda>_. 0"] unfolding tool_demo(3) .

end
