(* ===== verification/Admin_Console.thy ===== *)
theory Admin_Console
  imports Admin_Tool
begin

text \<open>
  What the administration tool prints (tools/admin.cc): the help text, the announcements of an operation,
  its result as text for people or as keys and values for monitoring, and errors. The printing
  operations run those of \<open>Admin_Tool\<close> on a state that carries the printed text.

  The progress that the callback prints while an operation runs is left out: how often the callback is
  called depends on the clock. Text passed to \<^verbatim>\<open>printf\<close> ends at the first null character.
\<close>

section \<open>Model\<close>

definition nl :: string where
  "nl = [CHR 0x0A]"

fun to_str :: "OperationTarget \<Rightarrow> string" where
  "to_str ATTRIBUTE = ''ATTRIBUTE''"
| "to_str INVALID = ''INVALID''"
| "to_str INDICATOR = ''INDICATOR''"
| "to_str METADATA = ''METADATA''"
| "to_str DATA = ''DATA''"

text \<open>\<open>eos\<close> is whether the tool is built for EOS.\<close>

definition kinetic_help :: "bool \<Rightarrow> string" where
  "kinetic_help eos =
     concat [''------------------------------------------------------------------------------------------------'' @ nl] @
     (if eos then concat [''usage: kinetic config [--publish|--upload] ...'' @ nl,
       nl,
       ''       kinetic config [--space <name> ] [--security|--cluster|--location] '' @ nl,
       ''             shows the currently deployed kinetic configuration - by default '' @ [CHR 0x27] @ ''default'' @ [CHR 0x27] @ '' space'' @ nl,
       ''             setting --security, --cluster, or --location shows only the selected subconfiguration'' @ nl,
       nl,
       ''       kinetic config --publish [--space <name>]'' @ nl,
       ''             publishes the configuration files under <mgm>:/var/eos/kinetic/ to all currently'' @ nl,
       ''             existing FSTs in default or referenced space'' @ nl,
       nl,
       ''       kinetic config --upload {--cluster|--security|--location} --file <local-json-file> [--space <name>] '' @ nl,
       ''             uploads the supplied local-json-file as current version for the selected'' @ nl,
       ''             subconfiguration to <mgm>:/var/eos/kinetic/ '' @ nl,
       nl] else []) @
     concat [''usage: kinetic --id <name> <operation> [OPTIONS] '' @ nl,
       nl,
       ''       --id <name> '' @ nl,
       ''           the name of target cluster (see kinetic config)'' @ nl,
       nl,
       ''       <operation> '' @ nl,
       ''           count  : count number of keys existing in the cluster'' @ nl,
       ''           scan   : check keys and display their status information'' @ nl,
       ''           repair : check keys, repair as required, display key status information'' @ nl,
       ''           reset  : force remove keys (Warning: Data will be lost!)'' @ nl,
       ''           status : show health status of cluster. '' @ nl,
       nl,
       ''    OPTIONS'' @ nl,
       ''       --target data|metadata|attribute|indicator  '' @ nl,
       ''           Operations can be limited to a specific key-type. Setting the '' @ [CHR 0x27] @ ''indicator'' @ [CHR 0x27] @ '' type will '' @ nl,
       ''           perform the operation on keys of any type that have been marked as problematic. In '' @ nl,
       ''           most cases this is sufficient and much faster. Use full scan / repair operations '' @ nl,
       ''           after a drive replacement or cluster-wide power loss event. '' @ nl,
       nl,
       ''       --threads <number> '' @ nl,
       ''           Specify the number of background io threads used for a scan/repair/reset operation. '' @ nl,
       nl] @
     (if eos then concat [''       --space <name> '' @ nl,
       ''           Use the kinetic configuration for the referenced space - by default '' @ [CHR 0x27] @ ''default'' @ [CHR 0x27] @ '' space '' @ nl,
       ''           is used (see kinetic config). '' @ nl,
       nl]
      else concat [''       --verbosity debug|notice|warning|error '' @ nl,
       ''           Specify verbosity level. Messages are printed to stdout (warning set as default). '' @ nl,
       nl]) @
     concat [''       --bench <number>'' @ nl,
       ''           Only for status operation. Benchmark put/get/delete performance for each  connection '' @ nl,
       ''           using <number> 1MB keys to get rough per-connection throughput. '' @ nl,
       nl,
       ''       -m : monitoring key=value output format'' @ nl,
       ''------------------------------------------------------------------------------------------------'' @ nl]"

subsection \<open>Results\<close>

text \<open>A line of keys and values.\<close>

fun joined :: "string list \<Rightarrow> string" where
  "joined [] = []"
| "joined [w] = w"
| "joined (w # ws) = w @ '' '' @ joined ws"

definition key_line :: "(string \<times> string) list \<Rightarrow> string" where
  "key_line ps = joined (map (\<lambda>(k, v). k @ ''='' @ v) ps) @ nl"

definition ruler :: string where
  "ruler = ''# ------------------------------------------------------------------------'' @ nl"

definition printResults :: "tool_config \<Rightarrow> KeyCounts \<Rightarrow> string" where
  "printResults c kc =
     (if tc_monitoring c then
        key_line [(''kinetic.stat.keys.n'', dec_int (kc_total kc)),
          (''kinetic.stat.drives.inaccessible.n'', dec_int (kc_incomplete kc)),
          (''kinetic.stat.require.action.n'', dec_int (kc_need_action kc)),
          (''kinetic.stat.repaired.n'', dec_int (kc_repaired kc)),
          (''kinetic.stat.removed.n'', dec_int (kc_removed kc)),
          (''Kinetic.stat.notrepairable.n'', dec_int (kc_unrepairable kc))]
      else
        nl @ ruler @ ''# Total keys processed:                      '' @ dec_int (kc_total kc) @ '' '' @ nl @
        (case tc_op c of
           OP_SCAN \<Rightarrow>
             ''# Keys where an action may be taken:         '' @ dec_int (kc_need_action kc) @ nl @
             ''# Keys that are currently not readable:      '' @ dec_int (kc_unrepairable kc) @ nl
         | OP_REPAIR \<Rightarrow>
             ''# Keys Repaired:                             '' @ dec_int (kc_repaired kc) @ nl @
             ''# Orphaned chunks removed for:               '' @ dec_int (kc_removed kc) @ nl @
             ''# Failed to repair:                          '' @ dec_int (kc_unrepairable kc) @ nl
         | OP_RESET \<Rightarrow>
             ''# Keys removed:                              '' @ dec_int (kc_removed kc) @ nl @
             ''# Failed to remove:                          '' @ dec_int (kc_unrepairable kc) @ nl
         | _ \<Rightarrow> []) @
        ''# Keys with chunks on inaccessible drives:   '' @ dec_int (kc_incomplete kc) @ nl @ ruler)"

definition print_count :: "tool_config \<Rightarrow> int \<Rightarrow> string" where
  "print_count c n =
     (if tc_monitoring c then key_line [(''kinetic.stat.keys.n'', dec_int n)]
      else nl @ ruler @ ''# Completed Operation - Counted a total of '' @ dec_int n @ '' keys'' @ nl @ ruler)"

text \<open>\<^verbatim>\<open>%2u\<close> fills up with blanks.\<close>

definition pad2 :: "string \<Rightarrow> string" where
  "pad2 s = replicate (2 - length s) (CHR '' '') @ s"

definition print_status :: "tool_config \<Rightarrow> ClusterStatus \<Rightarrow> string" where
  "print_status c v =
     (if tc_monitoring c then
        key_line [(''kinetic.connections.total'', dec (drives_total v)), (''kinetic.connections.failed'', dec (drives_failed v))] @
        key_line [(''kinetic.redundancy_factor'', dec (redundancy_factor v))] @
        key_line [(''kinetic.indicator_exist'', if indicator_exist v then ''YES'' else ''NO'')] @
        concat (map (\<lambda>i. key_line [(''kinetic.drive.index'', dec i),
          (''kinetic.drive.status'', if connected v ! i then ''OK'' else ''FAILED'')]) [0..<length (connected v)])
      else
        ruler @ ''# Cluster Status'' @ nl @
        ''# '' @ [CHR 0x09] @ ''Connections Failed: '' @ dec (drives_failed v) @ '' of '' @ dec (drives_total v) @ '' '' @ nl @
        ''# '' @ [CHR 0x09] @ ''Redundancy Factor: '' @ dec (redundancy_factor v) @ nl @
        ''# '' @ [CHR 0x09] @ ''Indicator keys: '' @ (if indicator_exist v then ''EXIST'' else ''NONE'') @ '' '' @ nl @ ruler @
        concat (map (\<lambda>i. ''# drive '' @ pad2 (dec i) @ '' : '' @ (if connected v ! i then ''OK'' else ''FAILED'') @ '' '' @
          c_str (location v ! i) @ nl) [0..<length (connected v)]))"

subsection \<open>Running an operation\<close>

definition say :: "string \<Rightarrow> ('s \<times> string, unit) kio" where
  "say t = modify (\<lambda>(s, out). (s, out @ t))"

definition silently :: "('s, 'a) kio \<Rightarrow> ('s \<times> string, 'a) kio" where
  "silently m = zoom fst (\<lambda>s (_, out). (s, out)) m"

definition announcement :: "tool_config \<Rightarrow> OperationTarget \<Rightarrow> string" where
  "announcement c t =
     (if tc_monitoring c then [] else ''Performing operation on all '' @ to_str t @ '' keys of the cluster... '' @ nl)"

definition on_target :: "tool_config \<Rightarrow> (OperationTarget \<Rightarrow> ('s, 'a) kio) \<Rightarrow> OperationTarget \<Rightarrow> ('s \<times> string, 'a) kio" where
  "on_target c f t =
     seq (say (announcement c t)) (bnd (silently (f t)) (\<lambda>x. seq (say (if tc_monitoring c then [] else nl)) (ret x)))"

definition print_operation ::
  "'w env \<Rightarrow> isal \<Rightarrow> 'w status_env \<Rightarrow> ('w admin_state \<Rightarrow> nat) \<Rightarrow> (int \<Rightarrow> bool) \<Rightarrow> tool_config \<Rightarrow>
   ('w admin_state \<times> string, unit) kio" where
  "print_operation env lib se sched running c =
     (let nt = to_size (tc_numthreads c);
          total = (\<lambda>f. bnd (process_targets (on_target c f) (tc_targets c) KeyCountsInternal_new) (\<lambda>k. say (printResults c k)))
      in case tc_op c of
           OP_STATUS \<Rightarrow> bnd (silently (admin_status env se (tc_numbench c))) (\<lambda>v. say (print_status c v))
         | OP_COUNT \<Rightarrow> bnd (count_targets (on_target c (\<lambda>t. admin_count env lib t (Some running))) (tc_targets c) 0)
             (\<lambda>n. say (print_count c n))
         | OP_SCAN \<Rightarrow> total (\<lambda>t. admin_scan env lib sched t (Some running) nt)
         | OP_REPAIR \<Rightarrow> total (\<lambda>t. admin_repair env lib sched t (Some running) nt)
         | OP_RESET \<Rightarrow> total (\<lambda>t. admin_reset env lib sched t (Some running) nt)
         | _ \<Rightarrow> (case tc_targets c of
             [] \<Rightarrow> say (printResults c KeyCountsInternal_new)
           | t # ts \<Rightarrow> seq (say (announcement c t)) (throw Runtime_error)))"

text \<open>An interrupted operation: the callback reports the flag that the signal handler clears.\<close>

definition sigint_handler :: "bool \<times> string \<Rightarrow> bool \<times> string" where
  "sigint_handler = (\<lambda>(continue_execution, out).
     (False, out @ ''Caught SIGINT, initializing clean shutdown...'' @ nl))"

definition callbackfunction :: "bool \<Rightarrow> int \<Rightarrow> bool \<times> string \<Rightarrow> bool \<times> bool \<times> string" where
  "callbackfunction do_print value = (\<lambda>(continue_execution, out).
     (continue_execution, continue_execution,
      out @ (if do_print then [CHR 0x09] @ '' '' @ dec_int value @ [CHR 0x0D] else [])))"


section \<open>Lemmas\<close>

lemma say_simp [simp]: "say t (s, out) = Some (Inr (), s, out @ t)"
  by (simp add: say_def modify_def)

lemma silently_simp [simp]: "silently m (s, out) = map_option (\<lambda>(r, s). (r, s, out)) (m s)"
  by (simp add: silently_def zoom_def)

text \<open>What is printed around the operations on the targets.\<close>

definition announced :: "tool_config \<Rightarrow> OperationTarget list \<Rightarrow> string" where
  "announced c ts = concat (map (\<lambda>t. announcement c t @ (if tc_monitoring c then [] else nl)) ts)"

lemma on_target_cases:
  "f t s = Some (Inr x, s') \<Longrightarrow> on_target c f t (s, out) = Some (Inr x, s', out @ announced c [t])"
  "f t s = Some (Inl e, s') \<Longrightarrow> on_target c f t (s, out) = Some (Inl e, s', out @ announcement c t)"
  by (simp_all add: on_target_def announced_def seq_def bnd_def ret_def)

lemma count_targets_printing:
  assumes "count_targets f ts n s = Some (r, s')"
  shows "\<exists>text. count_targets (on_target c f) ts n (s, out) = Some (r, s', out @ text) \<and> (\<forall>x. r = Inr x \<longrightarrow> text = announced c ts)"
  using assms
proof (induction ts arbitrary: n s out)
  case Nil
  then show ?case by (simp add: ret_def announced_def)
next
  case (Cons t ts)
  from Cons.prems [simplified] show ?case
  proof (cases rule: bnd_eq_SomeE)
    case (normal k s1)
    from Cons.IH [OF normal(2), of "out @ announced c [t]"] normal(1) show ?thesis
      by (auto simp: bnd_def on_target_cases announced_def)
  next
    case (exn e)
    then show ?thesis by (auto simp: bnd_def on_target_cases)
  qed
qed

lemma process_targets_printing:
  assumes "process_targets f ts k s = Some (r, s')"
  shows "\<exists>text. process_targets (on_target c f) ts k (s, out) = Some (r, s', out @ text) \<and> (\<forall>x. r = Inr x \<longrightarrow> text = announced c ts)"
  using assms
proof (induction ts arbitrary: k s out)
  case Nil
  then show ?case by (simp add: ret_def announced_def)
next
  case (Cons t ts)
  from Cons.prems [simplified] show ?case
  proof (cases rule: bnd_eq_SomeE)
    case (normal k' s1)
    from Cons.IH [OF normal(2), of "out @ announced c [t]"] normal(1) show ?thesis
      by (auto simp: bnd_def on_target_cases announced_def)
  next
    case (exn e)
    then show ?thesis by (auto simp: bnd_def on_target_cases)
  qed
qed

fun result_text :: "tool_config \<Rightarrow> tool_result \<Rightarrow> string" where
  "result_text c (Shown v) = print_status c v"
| "result_text c (Counted n) = print_count c n"
| "result_text c (Processed k) = printResults c k"

text \<open>Printing does not change what is done: the printing operation ends as the silent one does, and prints
  its result behind the announcements.\<close>

lemma print_counted:
  assumes "bnd (count_targets f ts n) (\<lambda>k. ret (Counted k)) s = Some (r, s')"
  shows "\<exists>text. bnd (count_targets (on_target c f) ts n) (\<lambda>k. say (print_count c k)) (s, out) =
      Some (map_sum id (\<lambda>_. ()) r, s', out @ text) \<and> (\<forall>x. r = Inr x \<longrightarrow> text = announced c ts @ result_text c x)"
  using assms
proof (cases rule: bnd_eq_SomeE)
  case (normal k s1)
  with count_targets_printing [OF normal(1), of c out] show ?thesis by (auto simp: ret_def bnd_def)
next
  case (exn e)
  with count_targets_printing [OF exn(1), of c out] show ?thesis by (auto simp: bnd_def)
qed

lemma print_processed:
  assumes "bnd (process_targets f ts k) (\<lambda>k. ret (Processed k)) s = Some (r, s')"
  shows "\<exists>text. bnd (process_targets (on_target c f) ts k) (\<lambda>k. say (printResults c k)) (s, out) =
      Some (map_sum id (\<lambda>_. ()) r, s', out @ text) \<and> (\<forall>x. r = Inr x \<longrightarrow> text = announced c ts @ result_text c x)"
  using assms
proof (cases rule: bnd_eq_SomeE)
  case (normal k s1)
  with process_targets_printing [OF normal(1), of c out] show ?thesis by (auto simp: ret_def bnd_def)
next
  case (exn e)
  with process_targets_printing [OF exn(1), of c out] show ?thesis by (auto simp: bnd_def)
qed

lemma print_operation_refines:
  assumes "do_operation env lib se sched running c s = Some (r, s')"
  shows "\<exists>text. print_operation env lib se sched running c (s, out) = Some (map_sum id (\<lambda>_. ()) r, s', out @ text) \<and>
    (\<forall>x. r = Inr x \<longrightarrow> text = (if tc_op c = OP_STATUS then [] else announced c (tc_targets c)) @ result_text c x)"
proof (cases "tc_op c")
  case OP_STATUS
  with assms show ?thesis by (auto simp: do_operation_def print_operation_def ret_def bnd_def split: bind_splits prod.splits sum.splits)
next
  case OP_COUNT
  with assms print_counted [of _ "tc_targets c" 0 s r s' c out] show ?thesis by (simp add: do_operation_def print_operation_def)
next
  case OP_SCAN
  with assms print_processed [of _ "tc_targets c" KeyCountsInternal_new s r s' c out] show ?thesis by (simp add: do_operation_def print_operation_def)
next
  case OP_REPAIR
  with assms print_processed [of _ "tc_targets c" KeyCountsInternal_new s r s' c out] show ?thesis by (simp add: do_operation_def print_operation_def)
next
  case OP_RESET
  with assms print_processed [of _ "tc_targets c" KeyCountsInternal_new s r s' c out] show ?thesis by (simp add: do_operation_def print_operation_def)
qed (use assms in \<open>auto simp: do_operation_def print_operation_def ret_def throw_def announced_def seq_def bnd_def split: if_splits list.splits\<close>)


section \<open>Reading the output of the monitoring format\<close>

text \<open>What a monitoring system does: it cuts the text at white space and every word at its equals sign.\<close>

fun cut :: "string \<Rightarrow> string list" where
  "cut [] = [[]]"
| "cut (x # xs) = (if is_space x then [] # cut xs else (x # hd (cut xs)) # tl (cut xs))"

definition text_words :: "string \<Rightarrow> string list" where
  "text_words s = filter (\<lambda>w. w \<noteq> []) (cut s)"

definition key_value :: "string \<Rightarrow> string \<times> string" where
  "key_value w = (takeWhile (\<lambda>x. x \<noteq> CHR ''='') w, drop 1 (dropWhile (\<lambda>x. x \<noteq> CHR ''='') w))"

definition monitor_pairs :: "string \<Rightarrow> (string \<times> string) list" where
  "monitor_pairs s = map key_value (text_words s)"

definition read_counts :: "(string \<times> string) list \<Rightarrow> KeyCounts" where
  "read_counts ps =
     \<lparr>kc_total = atoi (the (map_of ps ''kinetic.stat.keys.n'')), kc_incomplete = atoi (the (map_of ps ''kinetic.stat.drives.inaccessible.n'')),
      kc_need_action = atoi (the (map_of ps ''kinetic.stat.require.action.n'')), kc_repaired = atoi (the (map_of ps ''kinetic.stat.repaired.n'')),
      kc_removed = atoi (the (map_of ps ''kinetic.stat.removed.n'')), kc_unrepairable = atoi (the (map_of ps ''Kinetic.stat.notrepairable.n''))\<rparr>"

definition read_status :: "(string \<times> string) list \<Rightarrow> ClusterStatus" where
  "read_status ps =
     \<lparr>indicator_exist = (map_of ps ''kinetic.indicator_exist'' = Some ''YES''),
      redundancy_factor = digits_val (the (map_of ps ''kinetic.redundancy_factor'')),
      drives_total = digits_val (the (map_of ps ''kinetic.connections.total'')),
      drives_failed = digits_val (the (map_of ps ''kinetic.connections.failed'')),
      connected = map (\<lambda>(k, v). v = ''OK'') (filter (\<lambda>(k, v). k = ''kinetic.drive.status'') ps), location = []\<rparr>"

fun read_result :: "tool_op \<Rightarrow> (string \<times> string) list \<Rightarrow> tool_result" where
  "read_result OP_STATUS ps = Shown (read_status ps)"
| "read_result OP_COUNT ps = Counted (atoi (the (map_of ps ''kinetic.stat.keys.n'')))"
| "read_result _ ps = Processed (read_counts ps)"

lemma cut_word:
  "\<forall>x \<in> set w. \<not> is_space x \<Longrightarrow> is_space y \<Longrightarrow> cut (w @ y # s) = w # cut s"
  by (induction w) auto

lemma words_word:
  "w \<noteq> [] \<Longrightarrow> \<forall>x \<in> set w. \<not> is_space x \<Longrightarrow> is_space y \<Longrightarrow> text_words (w @ y # s) = w # text_words s"
  by (simp add: text_words_def cut_word)

lemma words_joined:
  "\<forall>w \<in> set ws. w \<noteq> [] \<and> (\<forall>x \<in> set w. \<not> is_space x) \<Longrightarrow> ws \<noteq> [] \<Longrightarrow> text_words (joined ws @ nl @ s) = ws @ text_words s"
proof (induction ws rule: joined.induct)
  case (2 w)
  then show ?case using words_word [of w "CHR 0x0A" s] by (simp add: nl_def is_space_def)
next
  case (3 w v ws)
  then show ?case using words_word [of w "CHR '' ''" "joined (v # ws) @ nl @ s"] by (simp add: is_space_def)
qed simp

text \<open>Keys and values that the reader takes apart correctly.\<close>

definition clean_pair :: "string \<times> string \<Rightarrow> bool" where
  "clean_pair p \<longleftrightarrow> CHR ''='' \<notin> set (fst p) \<and> (\<forall>x \<in> set (fst p) \<union> set (snd p). \<not> is_space x)"

lemma key_value_pair: "CHR ''='' \<notin> set k \<Longrightarrow> key_value (k @ CHR ''='' # v) = (k, v)"
  by (induction k) (auto simp: key_value_def)

lemma monitor_line:
  assumes "list_all clean_pair ps" and "ps \<noteq> []"
  shows "monitor_pairs (key_line ps @ s) = ps @ monitor_pairs s"
proof -
  have "text_words (joined (map (\<lambda>(k, v). k @ ''='' @ v) ps) @ nl @ s) = map (\<lambda>(k, v). k @ ''='' @ v) ps @ text_words s"
    by (rule words_joined) (use assms in \<open>auto simp: list_all_iff clean_pair_def is_space_def\<close>)
  moreover have "map key_value (map (\<lambda>(k, v). k @ ''='' @ v) ps) = ps"
    using assms(1) by (induction ps) (auto simp: clean_pair_def key_value_pair)
  ultimately show ?thesis by (simp add: monitor_pairs_def key_line_def)
qed

lemma monitor_lines:
  "\<forall>ps \<in> set pss. list_all clean_pair ps \<and> ps \<noteq> [] \<Longrightarrow> monitor_pairs (concat (map key_line pss) @ s) = concat pss @ monitor_pairs s"
  by (induction pss) (simp_all add: monitor_line)

lemma monitor_nil [simp]: "monitor_pairs [] = []"
  by (simp add: monitor_pairs_def text_words_def)

lemma monitor_one: "list_all clean_pair ps \<Longrightarrow> ps \<noteq> [] \<Longrightarrow> monitor_pairs (key_line ps) = ps"
  using monitor_line [of ps "[]"] by simp

lemma space_not_digit: "is_digit x \<Longrightarrow> \<not> is_space x"
  by (auto simp: is_digit_def is_space_def)

lemma no_space_dec: "x \<in> set (dec n) \<Longrightarrow> \<not> is_space x"
  using set_dec space_not_digit by blast

lemma no_space_dec_int: "x \<in> set (dec_int k) \<Longrightarrow> \<not> is_space x"
  using no_space_dec by (auto simp: dec_int_def is_space_def split: if_splits)

definition clean_key :: "string \<Rightarrow> bool" where
  "clean_key k \<longleftrightarrow> list_all (\<lambda>x. x \<noteq> CHR ''='' \<and> \<not> is_space x) k"

lemma clean_pairI:
  "clean_key k \<Longrightarrow> clean_pair (k, dec n)" "clean_key k \<Longrightarrow> clean_pair (k, dec_int i)"
  "clean_key k \<Longrightarrow> clean_key v \<Longrightarrow> clean_pair (k, v)"
  unfolding clean_pair_def clean_key_def list_all_iff by (auto dest: no_space_dec no_space_dec_int)

lemma is_space_chars:
  "is_space x \<longleftrightarrow> x = CHR 0x09 \<or> x = CHR 0x0A \<or> x = CHR 0x0B \<or> x = CHR 0x0C \<or> x = CHR 0x0D \<or> x = CHR 0x20"
proof -
  have "of_char (CHR 0x09) = (9 :: nat)" "of_char (CHR 0x0A) = (10 :: nat)" "of_char (CHR 0x0B) = (11 :: nat)"
    "of_char (CHR 0x0C) = (12 :: nat)" "of_char (CHR 0x0D) = (13 :: nat)" "of_char (CHR 0x20) = (32 :: nat)"
    by simp_all
  note e = this [symmetric]
  show ?thesis unfolding is_space_def e insert_iff empty_iff of_char_eq_iff by blast
qed

lemma clean_keys:
  "clean_key ''kinetic.stat.keys.n''" "clean_key ''kinetic.stat.drives.inaccessible.n''" "clean_key ''kinetic.stat.require.action.n''"
  "clean_key ''kinetic.stat.repaired.n''" "clean_key ''kinetic.stat.removed.n''" "clean_key ''Kinetic.stat.notrepairable.n''"
  "clean_key ''kinetic.connections.total''" "clean_key ''kinetic.connections.failed''" "clean_key ''kinetic.redundancy_factor''"
  "clean_key ''kinetic.indicator_exist''" "clean_key ''kinetic.drive.index''" "clean_key ''kinetic.drive.status''"
  "clean_key ''YES''" "clean_key ''NO''" "clean_key ''OK''" "clean_key ''FAILED''"
  by (simp_all add: clean_key_def is_space_chars)

lemmas clean_simps = clean_pairI clean_keys


definition counts_fit :: "KeyCounts \<Rightarrow> bool" where
  "counts_fit k \<longleftrightarrow> is_int32 (kc_total k) \<and> is_int32 (kc_incomplete k) \<and> is_int32 (kc_need_action k) \<and>
     is_int32 (kc_repaired k) \<and> is_int32 (kc_removed k) \<and> is_int32 (kc_unrepairable k)"

lemma count_targets_fit: "count_targets f ts n s = Some (Inr k, s') \<Longrightarrow> is_int32 n \<Longrightarrow> is_int32 k"
  by (induction ts arbitrary: n s) (auto simp: ret_def elim!: bnd_eq_SomeE)

lemma process_targets_fit: "process_targets f ts n s = Some (Inr k, s') \<Longrightarrow> counts_fit n \<Longrightarrow> counts_fit k"
proof (induction ts arbitrary: n s)
  case (Cons t ts)
  then show ?case by (auto simp: counts_fit_def KeyCounts_plus_def elim!: bnd_eq_SomeE)
qed (simp add: ret_def)

lemma counts_fit_new: "counts_fit KeyCountsInternal_new" "is_int32 0"
  by (simp_all add: counts_fit_def KeyCountsInternal_new_def is_int32_def)

fun result_fits :: "tool_op \<Rightarrow> tool_result \<Rightarrow> bool" where
  "result_fits op (Shown v) \<longleftrightarrow> op = OP_STATUS"
| "result_fits op (Counted n) \<longleftrightarrow> op = OP_COUNT \<and> is_int32 n"
| "result_fits op (Processed k) \<longleftrightarrow> op \<noteq> OP_STATUS \<and> op \<noteq> OP_COUNT \<and> counts_fit k"

lemma do_operation_fits:
  "do_operation env lib se sched running c s = Some (Inr r, s') \<Longrightarrow> result_fits (tc_op c) r"
  by (cases "tc_op c") (auto simp: do_operation_def ret_def throw_def counts_fit_new split: if_splits elim!: bnd_eq_SomeE
      dest!: count_targets_fit [OF _ counts_fit_new(2)] process_targets_fit [OF _ counts_fit_new(1)])

lemma read_printed_counts:
  assumes "tc_monitoring c" and "counts_fit k"
  shows "read_counts (monitor_pairs (printResults c k)) = k"
proof -
  have "monitor_pairs (printResults c k) = [(''kinetic.stat.keys.n'', dec_int (kc_total k)),
          (''kinetic.stat.drives.inaccessible.n'', dec_int (kc_incomplete k)),
          (''kinetic.stat.require.action.n'', dec_int (kc_need_action k)),
          (''kinetic.stat.repaired.n'', dec_int (kc_repaired k)),
          (''kinetic.stat.removed.n'', dec_int (kc_removed k)),
          (''Kinetic.stat.notrepairable.n'', dec_int (kc_unrepairable k))]"
    using assms(1) by (simp add: printResults_def monitor_one clean_simps)
  then show ?thesis using assms(2) by (cases k) (simp add: read_counts_def counts_fit_def atoi_dec_int)
qed

lemma read_printed_count:
  assumes "tc_monitoring c" and "is_int32 n"
  shows "atoi (the (map_of (monitor_pairs (print_count c n)) ''kinetic.stat.keys.n'')) = n"
  using assms by (simp add: print_count_def monitor_one clean_simps atoi_dec_int)

lemma read_printed_status:
  assumes "tc_monitoring c"
  shows "read_status (monitor_pairs (print_status c v)) = v\<lparr>location := []\<rparr>"
proof -
  let ?drives = "map (\<lambda>i. [(''kinetic.drive.index'', dec i), (''kinetic.drive.status'', if connected v ! i then ''OK'' else ''FAILED'')])
    [0..<length (connected v)]"
  let ?head = "[[(''kinetic.connections.total'', dec (drives_total v)), (''kinetic.connections.failed'', dec (drives_failed v))],
    [(''kinetic.redundancy_factor'', dec (redundancy_factor v))],
    [(''kinetic.indicator_exist'', if indicator_exist v then ''YES'' else ''NO'')]]"
  have "print_status c v = concat (map key_line (?head @ ?drives))"
    using assms by (simp add: print_status_def comp_def)
  moreover have "\<forall>ps \<in> set (?head @ ?drives). list_all clean_pair ps \<and> ps \<noteq> []"
    by (auto simp: clean_simps)
  ultimately have pairs: "monitor_pairs (print_status c v) = concat ?head @ concat ?drives"
    using monitor_lines [of "?head @ ?drives" "[]"] by simp
  have drives: "map (\<lambda>(k, v). v = ''OK'') (filter (\<lambda>(k, v). k = ''kinetic.drive.status'') (concat
      (map (\<lambda>i. [(''kinetic.drive.index'', dec i), (''kinetic.drive.status'', if bs ! i then ''OK'' else ''FAILED'')]) xs))) = map ((!) bs) xs"
    for bs and xs :: "nat list"
    by (induction xs) auto
  show ?thesis
    unfolding pairs using drives [of "connected v" "[0..<length (connected v)]"]
    by (cases v) (simp add: read_status_def digits_val_dec map_nth)
qed

section \<open>Property\<close>

text \<open>C21: The monitoring output of the tool is complete and unambiguous. When the monitoring format is chosen and
  an operation succeeds, the tool does and ends exactly as described without printing, and from the text
  that it prints, cut at white space and equals signs, the result of the operation can be read back: the
  number of keys of a count, all six counters of a scan, repair or reset, and the status of the
  cluster without the names of the drives. The unrepairable keys have to be looked up under a key that,
  unlike all others, begins with a capital letter.\<close>

theorem monitoring_roundtrip:
  assumes "do_operation env lib se sched running c s = Some (Inr r, s')" and "tc_monitoring c"
  shows "\<exists>out. print_operation env lib se sched running c (s, []) = Some (Inr (), s', out) \<and>
    read_result (tc_op c) (monitor_pairs out) = (case r of Shown v \<Rightarrow> Shown (v\<lparr>location := []\<rparr>) | _ \<Rightarrow> r)"
proof -
  have "announced c ts = []" for ts using assms(2) by (simp add: announced_def announcement_def)
  with print_operation_refines [OF assms(1), of "[]"]
  have "print_operation env lib se sched running c (s, []) = Some (Inr (), s', result_text c r)" by auto
  moreover have "read_result (tc_op c) (monitor_pairs (result_text c r)) = (case r of Shown v \<Rightarrow> Shown (v\<lparr>location := []\<rparr>) | _ \<Rightarrow> r)"
    using do_operation_fits [OF assms(1)] assms(2)
    by (cases r; cases "tc_op c") (simp_all add: read_printed_status read_printed_count read_printed_counts)
  ultimately show ?thesis by blast
qed

theorem monitoring_roundtrip_witness:
  "\<exists>s' out. print_operation sim_env sum_lib status_demo_env (\<lambda>_. 0) (\<lambda>_. True) (demo_tool\<lparr>tc_monitoring := True\<rparr>) (tool_demo_state, []) =
     Some (Inr (), s', out) \<and> read_result OP_COUNT (monitor_pairs out) = Counted 3"
proof -
  let ?c = "demo_tool\<lparr>tc_monitoring := True\<rparr>"
  have c: "tc_targets ?c = tc_targets demo_tool" "tc_op ?c = OP_COUNT" "tc_monitoring ?c" using tool_demo(5) by simp_all
  obtain s' where "do_operation sim_env sum_lib status_demo_env (\<lambda>_. 0) (\<lambda>_. True) ?c tool_demo_state = Some (Inr (Counted 3), s')"
    using do_count_result [OF sim_honest_range sim_codes admin_demo_ready tool_demo(1,2) [folded c(1)] tool_demo(4) refl c(2),
        where lib = sum_lib and se = status_demo_env and sched = "\<lambda>_. 0"] unfolding c(1) tool_demo(3) by blast
  from monitoring_roundtrip [OF this c(3)] show ?thesis unfolding c(2) by auto
qed

end
