(* ===== verification/Admin_Eos.thy ===== *)
theory Admin_Eos
  imports Admin_Console
begin

text \<open>
  The complete administration tool (tools/admin.cc): its main function with the printed text, and its
  variant as a command of the EOS console, which obtains the configuration of the library from the
  management service and can show, publish and upload it.

  EOS and the XRootD library are parameters: the administrative commands of the console over the state of the
  service, the string class, the tokenizer and the decoder for base 64. So is the function of EOS that loads
  the library and makes the administrative object. The text of an exception is a parameter as well. Log
  messages, which the tool prints too, are in \<open>Logging\<close>.
\<close>

section \<open>Model\<close>

subsection \<open>Running an operation with its output\<close>

definition exception_line :: "(exn \<Rightarrow> string) \<Rightarrow> exn \<Rightarrow> string" where
  "exception_line what e = ''Encountered Exception: '' @ c_str (what e) @ nl"

definition run_admin ::
  "(exn \<Rightarrow> string) \<Rightarrow> (string \<Rightarrow> ('w cluster_map, nat) kio) \<Rightarrow> ('w auto_connection list \<Rightarrow> 'w env) \<Rightarrow> isal \<Rightarrow> 'w status_env \<Rightarrow>
   ('w admin_state \<Rightarrow> nat) \<Rightarrow> (int \<Rightarrow> bool) \<Rightarrow> tool_config \<Rightarrow> 'w cluster_map \<Rightarrow> ((int \<times> string) \<times> 'w cluster_map) option" where
  "run_admin what make_admin env_of lib se sched running c m =
     map_option (\<lambda>(r, m).
         (case r of
            Inl e \<Rightarrow> (1, exception_line what e)
          | Inr (Inl e, out) \<Rightarrow> (1, out @ exception_line what e)
          | Inr (Inr u, out) \<Rightarrow> (0, out), m))
       (bnd (make_admin (tc_id c)) (\<lambda>a m.
          on_object a (\<lambda>s. map_option (\<lambda>(r, s, out). (Inr (r, out), s))
            (print_operation (env_of (obj_connections (cluster_heap m ! a))) lib se sched running c (s, []))) m) m)"

definition admin_main ::
  "(exn \<Rightarrow> string) \<Rightarrow> 'w dialer \<Rightarrow> ('w auto_connection list \<Rightarrow> 'w env) \<Rightarrow> isal \<Rightarrow> 'w status_env \<Rightarrow> ('w admin_state \<Rightarrow> nat) \<Rightarrow>
   (int \<Rightarrow> bool) \<Rightarrow> string list \<Rightarrow> 'w cluster_map \<Rightarrow> ((int \<times> string) \<times> 'w cluster_map) option" where
  "admin_main what dial env_of lib se sched running args m =
     (case parseArguments args of
        None \<Rightarrow> Some ((1, kinetic_help False), m)
      | Some c \<Rightarrow> run_admin what (getAdminCluster dial env_of lib (\<lambda>m. m)) env_of lib se sched running c m)"

subsection \<open>EOS\<close>

record ('r, 'e) eos =
  client_admin_command :: "string \<Rightarrow> 'e \<Rightarrow> 'r \<times> 'e"
  com_space :: "string \<Rightarrow> 'e \<Rightarrow> 'e"
  result_stdout :: "'r \<Rightarrow> string"
  has_line :: "string \<Rightarrow> bool"
  line_tokens :: "string \<Rightarrow> string list"
  xrd_find :: "string \<Rightarrow> string \<Rightarrow> int"
  xrd_erase :: "string \<Rightarrow> int \<Rightarrow> int \<Rightarrow> string"
  de_base64 :: "string \<Rightarrow> string \<Rightarrow> string"

text \<open>\<open>line_tokens\<close> are the tokens of the first line; asking for more gives the empty string. The name of the node, which
  the code cuts off as well, is not used.\<close>

definition get_token :: "('r, 'e) eos \<Rightarrow> string \<Rightarrow> string" where
  "get_token sh val = (case line_tokens sh val of [] \<Rightarrow> [] | t # ts \<Rightarrow> t)"

definition resultToString :: "('r, 'e) eos \<Rightarrow> 'r \<Rightarrow> string" where
  "resultToString sh result =
     (let val = result_stdout sh result
      in if has_line sh val then
           let nodeline = get_token sh val;
               nodeline = xrd_erase sh nodeline 0 (xrd_find sh nodeline '':='');
               nodeline = xrd_erase sh nodeline 0 2
           in de_base64 sh nodeline val
         else val)"

definition node_get :: "tool_config \<Rightarrow> string \<Rightarrow> string" where
  "node_get c kind = ''mgm.cmd=space&mgm.subcmd=node-get&mgm.space='' @ tc_space c @ ''&mgm.space.node-get.key='' @
     ''kinetic.'' @ kind @ ''.'' @ tc_space c"

definition setEnvironmentVariables ::
  "('r, 'e) eos \<Rightarrow> tool_config \<Rightarrow> 'e \<times> (string \<rightharpoonup> string) \<Rightarrow> 'e \<times> (string \<rightharpoonup> string)" where
  "setEnvironmentVariables sh c = (\<lambda>(e, environ).
     let (location_result, e) = client_admin_command sh (node_get c ''location'') e;
         (security_result, e) = client_admin_command sh (node_get c ''security'') e;
         (cluster_result, e) = client_admin_command sh (node_get c ''cluster'') e
     in (e, environ(''KINETIC_DRIVE_LOCATION'' \<mapsto> c_str (resultToString sh location_result),
                    ''KINETIC_DRIVE_SECURITY'' \<mapsto> c_str (resultToString sh security_result),
                    ''KINETIC_CLUSTER_DEFINITION'' \<mapsto> c_str (resultToString sh cluster_result))))"

definition show_command :: "tool_config \<Rightarrow> string \<Rightarrow> string" where
  "show_command c kind = ''node-get '' @ tc_space c @ '' kinetic.'' @ kind @ ''.'' @ tc_space c"

definition publish_command :: "tool_config \<Rightarrow> string \<Rightarrow> string" where
  "publish_command c kind = ''node-set '' @ tc_space c @ '' kinetic.'' @ kind @ ''.'' @ tc_space c @
     '' file:/var/eos/kinetic/kinetic-'' @ kind @ ''-'' @ tc_space c @ ''.json''"

definition config_commands :: "tool_config \<Rightarrow> string list" where
  "config_commands c =
     (case tc_op c of
        OP_CONFIG_SHOW \<Rightarrow>
          if tc_tag c = [] then [show_command c ''cluster'', show_command c ''location'', show_command c ''security'']
          else (if tc_tag c = ''cluster'' then [show_command c ''cluster''] else []) @
               (if tc_tag c = ''location'' then [show_command c ''location''] else []) @
               (if tc_tag c = ''security'' then [show_command c ''security''] else [])
      | OP_CONFIG_PUBLISH \<Rightarrow>
          [publish_command c ''cluster'', publish_command c ''location'', publish_command c ''security'',
           ''node-set '' @ tc_space c @ '' kinetic.reload '' @ tc_space c]
      | OP_CONFIG_UPLOAD \<Rightarrow> [''kinetic-json-store '' @ tc_space c @ '' '' @ tc_tag c @ '' '' @ tc_file c]
      | _ \<Rightarrow> [])"

definition doConfig :: "('r, 'e) eos \<Rightarrow> tool_config \<Rightarrow> 'e \<Rightarrow> 'e" where
  "doConfig sh c e = fold (com_space sh) (config_commands c) e"

text \<open>The command of the console. The arguments end at the first empty token.\<close>

definition com_kinetic ::
  "(exn \<Rightarrow> string) \<Rightarrow> ('r, 'e) eos \<Rightarrow> ((string \<rightharpoonup> string) \<Rightarrow> string \<Rightarrow> ('w cluster_map, nat) kio) \<Rightarrow> ('w auto_connection list \<Rightarrow> 'w env) \<Rightarrow>
   isal \<Rightarrow> 'w status_env \<Rightarrow> ('w admin_state \<Rightarrow> nat) \<Rightarrow> (int \<Rightarrow> bool) \<Rightarrow> string \<Rightarrow> ('e \<times> (string \<rightharpoonup> string)) \<times> 'w cluster_map \<Rightarrow>
   ((int \<times> string) \<times> ('e \<times> (string \<rightharpoonup> string)) \<times> 'w cluster_map) option" where
  "com_kinetic what sh make_admin env_of lib se sched running arg = (\<lambda>((e, environ), m).
     case parseArguments (takeWhile (\<lambda>t. t \<noteq> []) (line_tokens sh arg)) of
       None \<Rightarrow> Some ((1, kinetic_help True), (e, environ), m)
     | Some c \<Rightarrow>
         if tc_op c = OP_CONFIG_SHOW \<or> tc_op c = OP_CONFIG_PUBLISH \<or> tc_op c = OP_CONFIG_UPLOAD
         then Some ((0, []), (doConfig sh c e, environ), m)
         else let (e, environ) = setEnvironmentVariables sh c (e, environ)
              in map_option (\<lambda>(r, m). (r, (e, environ), m)) (run_admin what (make_admin environ) env_of lib se sched running c m))"

section \<open>Lemmas\<close>

text \<open>The main function ends as its description without printing in \<open>Admin_Tool\<close>.\<close>

lemma on_object_Some:
  "on_object a m s = Some (r, s') \<longleftrightarrow> (\<exists>t. m \<lparr>adm_cluster = \<lparr>kinetic_object = obj_cluster (cluster_heap s ! a), kinetic_world = map_world s, updates_pending = 1\<rparr>,
      adm_counts = KeyCountsInternal_new, adm_pages = []\<rparr> = Some (r, t) \<and>
    s' = s\<lparr>map_world := kinetic_world (adm_cluster t),
      cluster_heap := (cluster_heap s)[a := (cluster_heap s ! a)\<lparr>obj_cluster := kinetic_object (adm_cluster t)\<rparr>]\<rparr>)"
  by (auto simp: on_object_def Let_def)

lemma admin_main_refines:
  assumes "tool_main dial env_of lib se sched running args m = Some ((code, r), m')"
  shows "\<exists>text. admin_main what dial env_of lib se sched running args m = Some ((code, text), m')"
proof (cases "parseArguments args")
  case None
  with assms show ?thesis by (auto simp: tool_main_def admin_main_def)
next
  case (Some c)
  let ?run = "bnd (getAdminCluster dial env_of lib (\<lambda>m. m) (tc_id c)) (\<lambda>a m.
      on_object a (do_operation (env_of (obj_connections (cluster_heap m ! a))) lib se sched running c) m) m"
  obtain q m2 where run: "?run = Some (q, m2)" using assms Some by (cases ?run) (auto simp: tool_main_def)
  then have q: "?run = Some (q, m')" "code = (case q of Inl e \<Rightarrow> 1 | Inr x \<Rightarrow> 0)"
    using assms Some by (cases q; simp add: tool_main_def)+
  from q(1) show ?thesis
  proof (cases rule: bnd_eq_SomeE)
    case (exn e)
    with q(2) Some show ?thesis by (auto simp: admin_main_def run_admin_def bnd_def)
  next
    case (normal a m1)
    then obtain t where t: "do_operation (env_of (obj_connections (cluster_heap m1 ! a))) lib se sched running c
        \<lparr>adm_cluster = \<lparr>kinetic_object = obj_cluster (cluster_heap m1 ! a), kinetic_world = map_world m1, updates_pending = 1\<rparr>,
         adm_counts = KeyCountsInternal_new, adm_pages = []\<rparr> = Some (q, t)"
      "m' = m1\<lparr>map_world := kinetic_world (adm_cluster t),
        cluster_heap := (cluster_heap m1)[a := (cluster_heap m1 ! a)\<lparr>obj_cluster := kinetic_object (adm_cluster t)\<rparr>]\<rparr>"
      unfolding on_object_Some by blast
    let ?print = "print_operation (env_of (obj_connections (cluster_heap m1 ! a))) lib se sched running c"
    obtain out where "?print (\<lparr>adm_cluster = \<lparr>kinetic_object = obj_cluster (cluster_heap m1 ! a), kinetic_world = map_world m1, updates_pending = 1\<rparr>,
         adm_counts = KeyCountsInternal_new, adm_pages = []\<rparr>, []) = Some (map_sum id (\<lambda>_. ()) q, t, out)"
      using print_operation_refines [OF t(1), of "[]"] by auto
    then have "on_object a (\<lambda>s. map_option (\<lambda>(r, s, out). (Inr (r, out), s)) (?print (s, []))) m1 =
        Some (Inr (map_sum id (\<lambda>_. ()) q, out), m')"
      unfolding on_object_Some t(2) by auto
    with normal(1) have "run_admin what (getAdminCluster dial env_of lib (\<lambda>m. m)) env_of lib se sched running c m =
        Some ((case map_sum id (\<lambda>_. ()) q of Inl e \<Rightarrow> (1, out @ exception_line what e) | Inr u \<Rightarrow> (0, out)), m')"
      by (simp add: run_admin_def split: sum.splits)
    with q(2) Some show ?thesis by (cases q) (simp_all add: admin_main_def)
  qed
qed

section \<open>Property\<close>

text \<open>What the documentation of the string class says: \<^verbatim>\<open>find\<close> gives the index of the first occurrence, and
  \<^verbatim>\<open>erase(0, n)\<close> drops the first \<open>n\<close> characters for \<open>n > 0\<close>. A size of zero, the default, stands for the rest of the
  string; nothing is assumed of it, so the text before the separator must not be empty.\<close>

definition xrd_strings :: "('r, 'e) eos \<Rightarrow> bool" where
  "xrd_strings sh \<longleftrightarrow> (\<forall>s n. 0 < n \<longrightarrow> xrd_erase sh s 0 (int n) = drop n s) \<and>
     (\<forall>a b. \<not> sublist '':='' (a @ '':'') \<longrightarrow> xrd_find sh (a @ '':='' @ b) '':='' = int (length a))"

text \<open>The document in an answer: what the first token has after its first separator, decoded; an answer
  without a line is the document itself.\<close>

definition carries :: "('r, 'e) eos \<Rightarrow> 'r \<Rightarrow> string \<Rightarrow> bool" where
  "carries sh r doc \<longleftrightarrow> (let out = result_stdout sh r
     in if has_line sh out
        then \<exists>node body ts. node \<noteq> [] \<and> \<not> sublist '':='' (node @ '':'') \<and>
          line_tokens sh out = (node @ '':='' @ body) # ts \<and> de_base64 sh body out = doc
        else out = doc)"

definition plain_document :: "string \<Rightarrow> bool" where
  "plain_document d \<longleftrightarrow> CHR 0x00 \<notin> set d \<and> (d \<noteq> [] \<longrightarrow> hd d \<noteq> CHR ''/'' \<and> hd d \<noteq> CHR ''.'')"

lemma carried_document:
  assumes sh: "xrd_strings sh" and r: "carries sh r doc"
  shows "resultToString sh r = doc"
proof (cases "has_line sh (result_stdout sh r)")
  case True
  then obtain node body ts where n: "node \<noteq> []" "\<not> sublist '':='' (node @ '':'')"
    "line_tokens sh (result_stdout sh r) = (node @ '':='' @ body) # ts" "de_base64 sh body (result_stdout sh r) = doc"
    using r unfolding carries_def Let_def by auto
  have "xrd_find sh (node @ '':='' @ body) '':='' = int (length node)"
    using sh n(2) unfolding xrd_strings_def by blast
  moreover have erase: "xrd_erase sh t 0 (int k) = drop k t" if "0 < k" for t k
    using sh that unfolding xrd_strings_def by blast
  ultimately have "xrd_erase sh (node @ '':='' @ body) 0 (xrd_find sh (node @ '':='' @ body) '':='') = '':='' @ body"
    using n(1) by simp
  moreover have "xrd_erase sh ('':='' @ body) 0 2 = body"
    using erase [of 2 "'':='' @ body"] by simp
  ultimately show ?thesis
    using True n(3,4) by (simp add: resultToString_def get_token_def Let_def)
qed (use r in \<open>simp add: carries_def resultToString_def\<close>)

lemma plain_document_text: "plain_document d \<Longrightarrow> config_text files (c_str d) = Inr d"
proof -
  assume d: "plain_document d"
  then have "c_str d = d" by (simp add: plain_document_def c_str_def takeWhile_eq_all_conv) (metis)
  with d show ?thesis by (cases d) (auto simp: plain_document_def config_text_def)
qed

text \<open>C22: The configuration that the library loads is the one in the answers of the management service. The
  tool asks for the drives, the credentials and the clusters of the space that was chosen on the command line,
  takes out of every answer the document behind the name of the node, whatever the node is called, and puts it
  into the variable from which the library loads that kind of document. When the three documents describe
  drives, clusters and parameters of the library, these are loaded, each drive with its own credentials.\<close>

theorem eos_configuration_arrives:
  assumes "xrd_strings sh"
    and "client_admin_command sh (node_get c ''location'') e = (r1, e1)"
    and "client_admin_command sh (node_get c ''security'') e1 = (r2, e2)"
    and "client_admin_command sh (node_get c ''cluster'') e2 = (r3, e3)"
    and "carries sh r1 lt" and "carries sh r2 st" and "carries sh r3 ct"
    and "plain_document lt" and "plain_document st" and "plain_document ct"
    and "denotes jl (json_tokener_parse jl lt) (JObject [(''location'', JArray (map location_json ds))])"
    and "denotes jl (json_tokener_parse jl st) (JObject [(''security'', JArray (map security_json ds))])"
    and "denotes jl (json_tokener_parse jl ct)
           (JObject [(''cluster'', JArray (map cluster_json cs)), (''configuration'', configuration_json cfg)])"
    and "distinct (map dd_wwn ds)" and "distinct (map fst cs)" and "\<And>x. x \<in> set cs \<Longrightarrow> info_fits (snd x)"
    and "configuration_fits cfg"
  shows "\<exists>environ'. setEnvironmentVariables sh c (e, environ) = (e3, environ') \<and>
    loadConfiguration jl dflt environ' files s =
      Some (Inr (), install (map_of cs) (map_of (map (\<lambda>d. (dd_wwn d, drive_options dflt d)) ds)) (s\<lparr>configuration := cfg\<rparr>))"
proof -
  let ?environ = "environ(''KINETIC_DRIVE_LOCATION'' \<mapsto> c_str lt,
      ''KINETIC_DRIVE_SECURITY'' \<mapsto> c_str st, ''KINETIC_CLUSTER_DEFINITION'' \<mapsto> c_str ct)"
  have "setEnvironmentVariables sh c (e, environ) = (e3, ?environ)"
    using carried_document [OF assms(1)] assms(2-7) by (simp add: setEnvironmentVariables_def)
  moreover have "loadConfiguration jl dflt ?environ files s =
      Some (Inr (), install (map_of cs) (map_of (map (\<lambda>d. (dd_wwn d, drive_options dflt d)) ds)) (s\<lparr>configuration := cfg\<rparr>))"
    by (intro loadConfiguration_denotes [OF _ _ _ plain_document_text [OF assms(8)] plain_document_text [OF assms(9)]
          plain_document_text [OF assms(10)] assms(11-17)]) simp_all
  ultimately show ?thesis by blast
qed

subsection \<open>Example\<close>

definition first_index :: "string \<Rightarrow> string \<Rightarrow> int" where
  "first_index s t = (case find (\<lambda>i. take (length t) (drop i s) = t) [0..<Suc (length s)] of None \<Rightarrow> - 1 | Some i \<Rightarrow> int i)"

definition erase_range :: "string \<Rightarrow> int \<Rightarrow> int \<Rightarrow> string" where
  "erase_range s i n = take (nat i) s @ (if n = 0 then [] else drop (nat (i + n)) s)"

text \<open>A service that stores documents backwards.\<close>

definition demo_eos :: "(string, unit) eos" where
  "demo_eos =
     \<lparr>client_admin_command = (\<lambda>cmd e. (if cmd = node_get demo_tool ''location'' then ''node:='' @ rev ''l''
         else if cmd = node_get demo_tool ''security'' then ''node:='' @ rev ''s'' else ''node:='' @ rev ''c'', e)),
      com_space = (\<lambda>cmd e. e), result_stdout = (\<lambda>r. r), has_line = (\<lambda>s. s \<noteq> []), line_tokens = (\<lambda>s. [s]),
      xrd_find = first_index, xrd_erase = erase_range, de_base64 = (\<lambda>s old. rev s)\<rparr>"

lemma first_index_separator:
  assumes "\<not> sublist '':='' (a @ '':'')"
  shows "first_index (a @ '':='' @ b) '':='' = int (length a)"
proof -
  let ?P = "\<lambda>i. take 2 (drop i (a @ '':='' @ b)) = '':=''"
  have "\<not> ?P i" if "i < length a" for i
  proof
    assume p: "?P i"
    have "take 2 (drop i (a @ '':'')) = take 2 (drop i (a @ '':='' @ b))"
      using that by (cases "Suc i = length a") (auto simp: take_drop)
    then have "a @ '':'' = take i (a @ '':'') @ '':='' @ drop (i + 2) (a @ '':'')"
      using p by (metis append_take_drop_id drop_drop add.commute)
    then have "sublist '':='' (a @ '':'')" by (metis sublist_appendI)
    with assms show False ..
  qed
  moreover have "?P (length a)" by simp
  ultimately have "find ?P [0..<Suc (length (a @ '':='' @ b))] = Some (length a)"
    unfolding find_Some_iff by (intro exI [of _ "length a"]) (auto simp del: upt_Suc)
  then show ?thesis by (simp add: first_index_def numeral_2_eq_2)
qed


lemma demo_eos_ok:
  "xrd_strings demo_eos"
  "client_admin_command demo_eos (node_get demo_tool ''location'') () = (''node:=l'', ())"
  "client_admin_command demo_eos (node_get demo_tool ''security'') () = (''node:=s'', ())"
  "client_admin_command demo_eos (node_get demo_tool ''cluster'') () = (''node:=c'', ())"
  "carries demo_eos ''node:=l'' ''l''" "carries demo_eos ''node:=s'' ''s''" "carries demo_eos ''node:=c'' ''c''"
proof -
  show "xrd_strings demo_eos"
    unfolding xrd_strings_def by (simp add: demo_eos_def erase_range_def first_index_separator [simplified])
  have "node_get demo_tool ''security'' \<noteq> node_get demo_tool ''location''" "node_get demo_tool ''cluster'' \<noteq> node_get demo_tool ''location''"
    "node_get demo_tool ''cluster'' \<noteq> node_get demo_tool ''security''"
    by (simp_all add: node_get_def demo_tool_def tool_default_def)
  then show "client_admin_command demo_eos (node_get demo_tool ''location'') () = (''node:=l'', ())"
    "client_admin_command demo_eos (node_get demo_tool ''security'') () = (''node:=s'', ())"
    "client_admin_command demo_eos (node_get demo_tool ''cluster'') () = (''node:=c'', ())"
    by (simp_all add: demo_eos_def)
  have "carries demo_eos (''node'' @ '':='' @ [x]) [x]" for x
    unfolding carries_def Let_def demo_eos_def
    by (simp add: sublist_code)
  from this [of "CHR ''l''"] this [of "CHR ''s''"] this [of "CHR ''c''"]
  show "carries demo_eos ''node:=l'' ''l''" "carries demo_eos ''node:=s'' ''s''" "carries demo_eos ''node:=c'' ''c''"
    by simp_all
qed

theorem eos_configuration_arrives_witness:
  "\<forall>files s. \<exists>environ s'. setEnvironmentVariables demo_eos demo_tool ((), Map.empty) = ((), environ) \<and>
     loadConfiguration (tree_lib demo_parse) demo_options environ files s = Some (Inr (), s') \<and>
     configuration s' = demo_configuration \<and> clusterInfoMap (clusterMap s') ''c'' = Some demo_cluster_info"
proof (intro allI)
  fix files s
  let ?ds = "[demo_drive ''1'', demo_drive ''2'', demo_drive ''3'']"
  have "\<exists>environ. setEnvironmentVariables demo_eos demo_tool ((), Map.empty) = ((), environ) \<and>
      loadConfiguration (tree_lib demo_parse) demo_options environ files s =
      Some (Inr (), install (map_of [(''c'', demo_cluster_info)]) (map_of (map (\<lambda>d. (dd_wwn d, drive_options demo_options d)) ?ds))
        (s\<lparr>configuration := demo_configuration\<rparr>))"
    by (rule eos_configuration_arrives [OF demo_eos_ok])
      (simp_all add: plain_document_def demo_denotes demo_parse_def demo_drive_def info_fits_def demo_cluster_info_def demo_info_def
        configuration_fits_def demo_configuration_def)
  then show "\<exists>environ s'. setEnvironmentVariables demo_eos demo_tool ((), Map.empty) = ((), environ) \<and>
      loadConfiguration (tree_lib demo_parse) demo_options environ files s = Some (Inr (), s') \<and>
      configuration s' = demo_configuration \<and> clusterInfoMap (clusterMap s') ''c'' = Some demo_cluster_info"
    by (auto simp: install_def Let_def map_reset_def)
qed

end
