(* ===== verification/Io_Factory.thy ===== *)
theory Io_Factory
  imports Io_Configuration File_Storage Logging Cluster_Shape
begin

text \<open>
  The entry points of the library (src/KineticIoFactory.cc) and how they tie the components together: a
  file is made on a cluster object that the cluster map provides, all files share one data cache and
  one configuration, and a reload replaces the configuration under the files that exist.

  The world of the cache and of the files is the cluster map with its heap of cluster objects. A cluster
  object becomes a \<^verbatim>\<open>ClusterInterface\<close> by running the operations of \<^verbatim>\<open>KineticCluster\<close> on its place in the heap; the
  statistics updates that \<^verbatim>\<open>stats\<close> schedules do not run here. Which drives the object reaches is a function of
  its connections, as in \<open>Cluster_Map\<close>. The class for dynamic loading forwards to the same four
  functions; registering a log function is in \<open>Logging\<close>.
\<close>

section \<open>Model\<close>

text \<open>An operation of the cluster object at address \<open>a\<close>.\<close>

definition on_cluster :: "nat \<Rightarrow> ('w kinetic_state, 'a) kio \<Rightarrow> ('w cluster_map, 'a) kio" where
  "on_cluster a m s =
     (let ob = cluster_heap s ! a
      in map_option (\<lambda>(r, t). (r, s\<lparr>map_world := kinetic_world t,
              cluster_heap := (cluster_heap s)[a := ob\<lparr>obj_cluster := kinetic_object t\<rparr>]\<rparr>))
           (m \<lparr>kinetic_object = obj_cluster ob, kinetic_world = map_world s, updates_pending = 0\<rparr>))"

definition object_interface ::
  "('w auto_connection list \<Rightarrow> 'w env) \<Rightarrow> isal \<Rightarrow> nat \<Rightarrow> 'w cluster_object \<Rightarrow> 'w cluster_map ClusterInterface" where
  "object_interface env_of lib a ob =
     (let ci = KineticCluster_interface (env_of (obj_connections ob)) lib (obj_cluster ob)
      in \<lparr>ci_id = ci_id ci, ci_instanceId = ci_instanceId ci, ci_limits = ci_limits ci,
          ci_stats = on_cluster a (ci_stats ci),
          ci_get = (\<lambda>k v x. on_cluster a (ci_get ci k v x)),
          ci_get_version = (\<lambda>k v. on_cluster a (ci_get_version ci k v)),
          ci_put = (\<lambda>k v x out. on_cluster a (ci_put ci k v x out)),
          ci_put_forced = (\<lambda>k x out. on_cluster a (ci_put_forced ci k x out)),
          ci_remove = (\<lambda>k v. on_cluster a (ci_remove ci k v)),
          ci_remove_forced = (\<lambda>k. on_cluster a (ci_remove_forced ci k)),
          ci_flush = on_cluster a (ci_flush ci),
          ci_range = (\<lambda>x y ks m. on_cluster a (ci_range ci x y ks m))\<rparr>)"

text \<open>What the library takes from outside.\<close>

record ('w, 'j) platform =
  pf_dial :: "'w dialer"
  pf_env_of :: "'w auto_connection list \<Rightarrow> 'w env"
  pf_isal :: isal
  pf_json :: "'j json_lib"
  pf_options :: ConnectionOptions
  pf_now :: "'w \<Rightarrow> nat"
  pf_order :: "distance_map \<Rightarrow> distance_map"
  pf_quotient_text :: "nat \<Rightarrow> nat list \<Rightarrow> string"

text \<open>The members of \<^verbatim>\<open>KineticIoSingleton\<close> and the files that clients hold.\<close>

record 'w library =
  lib_configuration :: Configuration
  lib_files :: "nat \<Rightarrow> 'w cluster_map FileIo"
  lib_cache :: "'w cluster_map kio_state"

abbreviation lib_map :: "'w library \<Rightarrow> 'w cluster_map" where
  "lib_map l \<equiv> world (lib_cache l)"

definition provided_cluster :: "('w, 'j) platform \<Rightarrow> string \<Rightarrow> ('w cluster_map, 'w cluster_map ClusterInterface) kio" where
  "provided_cluster pf cid =
     bnd (getCluster (pf_dial pf) (pf_env_of pf) (pf_isal pf) cid) (\<lambda>a.
     asks (\<lambda>m. object_interface (pf_env_of pf) (pf_isal pf) a (cluster_heap m ! a)))"

definition library_env :: "('w, 'j) platform \<Rightarrow> Configuration \<Rightarrow> 'w cluster_map fio_env" where
  "library_env pf c =
     \<lparr>fe_now = (\<lambda>m. pf_now pf (map_world m)), fe_order = pf_order pf, fe_window = readahead_window_size c,
      fe_getCluster = provided_cluster pf, fe_quotient_text = pf_quotient_text pf\<rparr>"

text \<open>\<open>self\<close> is the address of the new object.\<close>

definition new_FileIo :: "('w, 'j) platform \<Rightarrow> nat \<Rightarrow> string \<Rightarrow> ('w library, unit) kio" where
  "new_FileIo pf self url l =
     map_option (\<lambda>(r, fs, st). (r, l\<lparr>lib_files := fs, lib_cache := st\<rparr>))
       (FileIo_new (library_env pf (lib_configuration l)) self url (lib_files l, lib_cache l))"

text \<open>The abstract class that clients see. The arguments \<^verbatim>\<open>mode\<close>, \<^verbatim>\<open>opaque\<close> and \<^verbatim>\<open>timeout\<close>, which are ignored, are left out; a
  buffer that is filled is returned.\<close>

record 'l FileIoInterface =
  fi_ListFiles :: "string \<Rightarrow> nat \<Rightarrow> ('l, string list) kio"
  fi_Open :: "int \<Rightarrow> ('l, unit) kio"
  fi_Close :: "('l, unit) kio"
  fi_Read :: "int \<Rightarrow> string \<Rightarrow> int \<Rightarrow> ('l, int \<times> string) kio"
  fi_Write :: "int \<Rightarrow> string \<Rightarrow> int \<Rightarrow> ('l, int \<times> string) kio"
  fi_Truncate :: "int \<Rightarrow> ('l, unit) kio"
  fi_Sync :: "('l, unit) kio"
  fi_Stat :: "('l, stat_buf) kio"
  fi_Remove :: "('l, unit) kio"
  fi_attrSet :: "string \<Rightarrow> string \<Rightarrow> ('l, unit) kio"
  fi_attrDelete :: "string \<Rightarrow> ('l, unit) kio"
  fi_attrGet :: "string \<Rightarrow> ('l, string) kio"
  fi_attrList :: "('l, string list) kio"
  fi_Statfs :: "('l, statfs_buf) kio"
  fi_destroy :: "('l, unit) kio"

definition on_files :: "('w, 'j) platform \<Rightarrow> ('w cluster_map fio_env \<Rightarrow> ('w cluster_map, 'a) fio) \<Rightarrow> ('w library, 'a) kio" where
  "on_files pf f l =
     zoom (\<lambda>l. (lib_files l, lib_cache l)) (\<lambda>(fs, st) l. l\<lparr>lib_files := fs, lib_cache := st\<rparr>) (f (library_env pf (lib_configuration l))) l"

text \<open>The flag \<^verbatim>\<open>SFS_O_CREAT\<close> is the bit of value 256.\<close>

definition creates :: "int \<Rightarrow> bool" where
  "creates flags \<longleftrightarrow> odd (flags div 0x100)"

definition FileIo_interface :: "('w, 'j) platform \<Rightarrow> nat \<Rightarrow> 'w library FileIoInterface" where
  "FileIo_interface pf self =
     \<lparr>fi_ListFiles = (\<lambda>subtree n. on_files pf (\<lambda>env. ListFiles self subtree n)),
      fi_Open = (\<lambda>flags. on_files pf (\<lambda>env. Open env self (creates flags))),
      fi_Close = on_files pf (\<lambda>env. Close env self),
      fi_Read = (\<lambda>off buf len. on_files pf (\<lambda>env. Read env self off buf len)),
      fi_Write = (\<lambda>off buf len. on_files pf (\<lambda>env. Write env self off buf len)),
      fi_Truncate = (\<lambda>off. on_files pf (\<lambda>env. Truncate env self off)),
      fi_Sync = on_files pf (\<lambda>env. Sync env self),
      fi_Stat = on_files pf (\<lambda>env. Stat env self),
      fi_Remove = on_files pf (\<lambda>env. Remove env self),
      fi_attrSet = (\<lambda>name v. on_files pf (\<lambda>env. attrSet self name v)),
      fi_attrDelete = (\<lambda>name. on_files pf (\<lambda>env. attrDelete self name)),
      fi_attrGet = (\<lambda>name. on_files pf (\<lambda>env. attrGet env self name)),
      fi_attrList = on_files pf (\<lambda>env. attrList self),
      fi_Statfs = on_files pf (\<lambda>env. Statfs self),
      fi_destroy = on_files pf (\<lambda>env. FileIo_destroy self)\<rparr>"

definition makeFileIo :: "('w, 'j) platform \<Rightarrow> nat \<Rightarrow> string \<Rightarrow> ('w library, 'w library FileIoInterface) kio" where
  "makeFileIo pf self url = seq (new_FileIo pf self url) (ret (FileIo_interface pf self))"

definition makeAdminCluster ::
  "('w, 'j) platform \<Rightarrow> ('w cluster_map \<Rightarrow> 'w cluster_map) \<Rightarrow> string \<Rightarrow> ('w library, nat) kio" where
  "makeAdminCluster pf others cid =
     zoom lib_map (\<lambda>m l. l\<lparr>lib_cache := (lib_cache l)\<lparr>world := m\<rparr>\<rparr>)
       (getAdminCluster (pf_dial pf) (pf_env_of pf) (pf_isal pf) others cid)"

definition reloadConfiguration ::
  "('w, 'j) platform \<Rightarrow> (string \<rightharpoonup> string) \<Rightarrow> (string \<Rightarrow> string) \<Rightarrow> ('w library, unit) kio" where
  "reloadConfiguration pf getenv files =
     zoom (\<lambda>l. \<lparr>configuration = lib_configuration l, clusterMap = lib_map l, dataCache = lib_cache l\<rparr>)
       (\<lambda>s l. l\<lparr>lib_configuration := configuration s, lib_cache := (dataCache s)\<lparr>world := clusterMap s\<rparr>\<rparr>)
       (loadConfiguration (pf_json pf) (pf_options pf) getenv files)"

subsection \<open>The factory for dynamic loading\<close>

record ('l, 'f, 'g, 'v) LoadableKineticIoFactory =
  lf_makeFileIo :: "nat \<Rightarrow> string \<Rightarrow> ('l, 'l FileIoInterface) kio"
  lf_makeAdminCluster :: "string \<Rightarrow> ('l, nat) kio"
  lf_registerLogFunction :: "'f option \<Rightarrow> 'g option \<Rightarrow> (('f, 'g, 'v) logger, unit) kio"
  lf_reloadConfiguration :: "('l, unit) kio"

definition getKineticIoFactory ::
  "('w, 'j) platform \<Rightarrow> ('w cluster_map \<Rightarrow> 'w cluster_map) \<Rightarrow> (string \<rightharpoonup> string) \<Rightarrow> (string \<Rightarrow> string) \<Rightarrow>
   ('f, 'g, 'v) log_client \<Rightarrow> string \<Rightarrow> string \<Rightarrow> ('w library, 'f, 'g, 'v) LoadableKineticIoFactory" where
  "getKineticIoFactory pf others getenv files client file KIO_VERSION =
     \<lparr>lf_makeFileIo = makeFileIo pf, lf_makeAdminCluster = makeAdminCluster pf others,
      lf_registerLogFunction = Factory_registerLogFunction client file KIO_VERSION,
      lf_reloadConfiguration = reloadConfiguration pf getenv files\<rparr>"

section \<open>Lemmas\<close>

lemma makeFileIo_Inr [simp]:
  "makeFileIo pf self url l = Some (Inr fi, l') \<longleftrightarrow> new_FileIo pf self url l = Some (Inr (), l') \<and> fi = FileIo_interface pf self"
  by (auto simp: makeFileIo_def seq_def bnd_def ret_def split: bind_splits sum.splits)

text \<open>Operations on one object leave the map, the other objects and the shape of the object alone.\<close>

lemma cluster_shape_eq:
  "cluster_shape cl = cluster_shape cl' \<Longrightarrow> identity cl = identity cl' \<and> chunkCapacity cl = chunkCapacity cl' \<and>
     operation_timeout cl = operation_timeout cl' \<and> connections cl = connections cl' \<and>
     nData (redundancy cl) = nData (redundancy cl') \<and> nParity (redundancy cl) = nParity (redundancy cl')"
  by (cases cl; cases cl'; cases "redundancy cl"; cases "redundancy cl'") (simp add: cluster_shape_def rp_shape_def)

lemma built_shape:
  assumes "built m cid ki ob" and "cluster_shape cl = cluster_shape (obj_cluster ob)"
  shows "built m cid ki (ob\<lparr>obj_cluster := cl\<rparr>)"
  using assms(1) cluster_shape_eq [OF assms(2)] by (simp add: built_def Let_def)

lemma on_cluster_keeps:
  assumes "keeps_shape op" and "on_cluster a op m = Some (r, m')" and "map_inv m"
  shows "map_inv m' \<and> clusterCache m' = clusterCache m \<and> clusterInfoMap m' = clusterInfoMap m \<and> driveInfoMap m' = driveInfoMap m \<and>
    (\<forall>b. b \<noteq> a \<longrightarrow> cluster_heap m' ! b = cluster_heap m ! b)"
proof -
  let ?ob = "cluster_heap m ! a"
  obtain t where t: "op \<lparr>kinetic_object = obj_cluster ?ob, kinetic_world = map_world m, updates_pending = 0\<rparr> = Some (r, t)"
    "m' = m\<lparr>map_world := kinetic_world t, cluster_heap := (cluster_heap m)[a := ?ob\<lparr>obj_cluster := kinetic_object t\<rparr>]\<rparr>"
    using assms(2) by (auto simp: on_cluster_def Let_def)
  have shape: "cluster_shape (kinetic_object t) = cluster_shape (obj_cluster ?ob)"
    using assms(1) t(1) by (auto simp: keeps_shape_def)
  have built: "built m' cid ki ob \<longleftrightarrow> built m cid ki ob" for cid ki ob by (simp add: t(2) built_def Let_def)
  have "map_inv m'"
    unfolding map_inv_def
  proof (intro conjI allI impI)
    fix cid b assume b: "clusterCache m' cid = Some b"
    then have c: "clusterCache m cid = Some b" by (simp add: t(2))
    then show "b < length (cluster_heap m')" using map_invD(1) [OF assms(3)] by (simp add: t(2))
    then show "\<exists>ki. clusterInfoMap m' cid = Some ki \<and> built m' cid ki (cluster_heap m' ! b)"
      using map_invD(2) [OF assms(3) c] built_shape [OF _ shape] unfolding built by (cases "b = a") (auto simp: t(2))
  qed (use map_invD(3,4) [OF assms(3)] in \<open>simp_all add: t(2)\<close>)
  then show ?thesis by (simp add: t(2))
qed

interpretation oi: cluster_contract "object_interface env_of lib a ob"
  by unfold_locales
    (auto simp: object_interface_def Let_def on_cluster_def dest: kc.get_error kc.get_version_error kc.put_error kc.put_ok kc.put_forced_error)

text \<open>The library from its construction on. A file operation is a sequence of steps in which files and cache
  change or one operation of a cluster object runs, whose result is dropped here.\<close>

definition library_new ::
  "('w, 'j) platform \<Rightarrow> (string \<rightharpoonup> string) \<Rightarrow> (string \<Rightarrow> string) \<Rightarrow> 'w \<Rightarrow> 'w cluster_map DataBlock \<Rightarrow>
   (nat \<Rightarrow> 'w cluster_map FileIo) \<Rightarrow> 'w library option" where
  "library_new pf getenv files w b0 fs =
     map_option (\<lambda>(r, s). \<lparr>lib_configuration = configuration s, lib_files = fs, lib_cache = (dataCache s)\<lparr>world := clusterMap s\<rparr>\<rparr>)
       (KineticIoSingleton_new (pf_json pf) (pf_options pf) getenv files w b0 (ClusterMap_new w))"

inductive lib_reachable :: "('w, 'j) platform \<Rightarrow> 'w library \<Rightarrow> bool" for pf where
  constructed: "library_new pf getenv files w b0 fs = Some l \<Longrightarrow> lib_reachable pf l"
| made_file: "lib_reachable pf l \<Longrightarrow> makeFileIo pf self url l = Some (r, l') \<Longrightarrow> lib_reachable pf l'"
| made_admin: "lib_reachable pf l \<Longrightarrow> makeAdminCluster pf (\<lambda>m. m) cid l = Some (r', l') \<Longrightarrow> lib_reachable pf l'"
| reloaded: "lib_reachable pf l \<Longrightarrow> reloadConfiguration pf getenv files l = Some (r, l') \<Longrightarrow> lib_reachable pf l'"
| worked: "lib_reachable pf l \<Longrightarrow> lib_reachable pf (l\<lparr>lib_files := fs, lib_cache := st\<lparr>world := lib_map l\<rparr>\<rparr>)"
| called: "lib_reachable pf l \<Longrightarrow> keeps_shape (op :: ('w kinetic_state, unit) kio) \<Longrightarrow> on_cluster a op (lib_map l) = Some (r, m) \<Longrightarrow>
    lib_reachable pf (l\<lparr>lib_cache := (lib_cache l)\<lparr>world := m\<rparr>\<rparr>)"

lemma FileIo_new_result:
  assumes "FileIo_new env self url (fs, st) = Some (Inr (), s')"
  obtains p cid ci m where "urlToPath url = Inr p" "urlToClusterId url = Inr cid" "fe_getCluster env cid (world st) = Some (Inr ci, m)"
    "take (length ''kinetic://'') url = ''kinetic://''"
    "s' = (fs(self := \<lparr>file_cluster = ci, prefetchOracle = PrefetchOracle_new (fe_window env), eof_blocknumber = 0,
          eof_verification_time = 0, exceptions = [], opened = False, path = p\<rparr>), st\<lparr>world := m\<rparr>)"
  using assms unfolding FileIo_new_def
  by (auto simp: lift_res_def on_world_def on_cache_def zoom_def set_this_def modify_def throw_def split: if_splits
      elim!: bnd_eq_SomeE intro: that)

lemma new_FileIo_result:
  assumes "new_FileIo pf self url l = Some (Inr (), l1)"
  obtains p cid a m where "urlToPath url = Inr p" "urlToClusterId url = Inr cid"
    "getCluster (pf_dial pf) (pf_env_of pf) (pf_isal pf) cid (lib_map l) = Some (Inr a, m)"
    "l1 = l\<lparr>lib_files := (lib_files l)(self := \<lparr>file_cluster = object_interface (pf_env_of pf) (pf_isal pf) a (cluster_heap m ! a),
          prefetchOracle = PrefetchOracle_new (readahead_window_size (lib_configuration l)), eof_blocknumber = 0,
          eof_verification_time = 0, exceptions = [], opened = False, path = p\<rparr>), lib_cache := (lib_cache l)\<lparr>world := m\<rparr>\<rparr>"
    "take (length ''kinetic://'') url = ''kinetic://''"
proof -
  obtain fs st where n: "FileIo_new (library_env pf (lib_configuration l)) self url (lib_files l, lib_cache l) = Some (Inr (), fs, st)"
    "l1 = l\<lparr>lib_files := fs, lib_cache := st\<rparr>"
    using assms by (auto simp: new_FileIo_def)
  from n(1) show ?thesis
  proof (cases rule: FileIo_new_result)
    case (1 p cid ci m)
    from 1(3) obtain a where "getCluster (pf_dial pf) (pf_env_of pf) (pf_isal pf) cid (lib_map l) = Some (Inr a, m)"
      "ci = object_interface (pf_env_of pf) (pf_isal pf) a (cluster_heap m ! a)"
      by (auto simp: library_env_def provided_cluster_def asks_def elim!: bnd_eq_SomeE)
    with 1 n(2) show ?thesis by (intro that) (auto simp: library_env_def)
  qed
qed

lemma new_FileIo_known:
  assumes "urlToPath url = Inr p" and "urlToClusterId url = Inr cid" and "take (length ''kinetic://'') url = ''kinetic://''"
    and "clusterCache (lib_map l) cid = Some a"
  shows "new_FileIo pf self url l = Some (Inr (), l\<lparr>lib_files := (lib_files l)(self :=
      \<lparr>file_cluster = object_interface (pf_env_of pf) (pf_isal pf) a (cluster_heap (lib_map l) ! a),
       prefetchOracle = PrefetchOracle_new (readahead_window_size (lib_configuration l)), eof_blocknumber = 0,
       eof_verification_time = 0, exceptions = [], opened = False, path = p\<rparr>)\<rparr>)"
proof -
  have "provided_cluster pf cid (lib_map l) =
      Some (Inr (object_interface (pf_env_of pf) (pf_isal pf) a (cluster_heap (lib_map l) ! a)), lib_map l)"
    using assms(4) by (simp add: provided_cluster_def getCluster_def bnd_def asks_def)
  then show ?thesis
    using assms(1-3) by (simp add: new_FileIo_def FileIo_new_def library_env_def on_world_def on_cache_def zoom_def set_this_def modify_def bnd_def lift_res_def)
qed


lemma new_FileIo_map:
  assumes "new_FileIo pf self url l = Some (r, l')" and "map_inv (lib_map l)"
  shows "map_inv (lib_map l')"
proof -
  have "lib_map l' = lib_map l \<or> (\<exists>cid q. getCluster (pf_dial pf) (pf_env_of pf) (pf_isal pf) cid (lib_map l) = Some (q, lib_map l'))"
    using assms(1) unfolding new_FileIo_def FileIo_new_def
    by (auto simp: lift_res_def on_world_def on_cache_def zoom_def set_this_def modify_def throw_def library_env_def provided_cluster_def
        asks_def split: if_splits elim!: bnd_eq_SomeE)
  then show ?thesis using getCluster_inv [OF assms(2)] assms(2) by auto
qed

lemma makeFileIo_map:
  assumes "makeFileIo pf self url l = Some (r, l')" and "map_inv (lib_map l)"
  shows "map_inv (lib_map l')"
  using assms new_FileIo_map [of pf self url l] by (auto simp: makeFileIo_def ret_def elim!: seq_eq_SomeE)

lemma makeAdminCluster_map:
  assumes "makeAdminCluster pf (\<lambda>m. m) cid l = Some (r, l')" and "map_inv (lib_map l)"
  shows "map_inv (lib_map l')"
proof -
  have "\<exists>q. getCluster (pf_dial pf) (pf_env_of pf) (pf_isal pf) cid (lib_map l) = Some (q, lib_map l')"
    using assms(1) unfolding makeAdminCluster_def getAdminCluster_def
    by (auto simp: zoom_def modify_def split: option.splits elim!: seq_eq_SomeE)
  then show ?thesis using getCluster_inv [OF assms(2)] by auto
qed

lemma loadConfiguration_map:
  assumes "loadConfiguration jl dflt getenv files s = Some (r, s')" and "map_inv (clusterMap s)"
  shows "map_inv (clusterMap s')"
  using assms(1)
proof (cases rule: loadConfiguration_cases)
  case (late e j)
  from late(2) assms(2) show ?thesis by (cases rule: parseConfiguration_cases) auto
next
  case (success o1 o2 o3 j drives infos s1)
  from success(4) have "clusterMap s1 = clusterMap s" by (cases rule: parseConfiguration_cases) auto
  with success(5) assms(2) show ?thesis by (simp add: install_def Let_def map_inv_reset)
qed (simp add: assms(2))

lemma reload_result:
  assumes "reloadConfiguration pf getenv files l = Some (Inr (), l')"
  shows "lib_files l' = lib_files l" and "\<exists>infos drives. lib_map l' = map_reset infos drives (lib_map l)"
proof -
  let ?s = "\<lparr>configuration = lib_configuration l, clusterMap = lib_map l, dataCache = lib_cache l\<rparr>"
  obtain s' where s': "loadConfiguration (pf_json pf) (pf_options pf) getenv files ?s = Some (Inr (), s')"
    "l' = l\<lparr>lib_configuration := configuration s', lib_cache := (dataCache s')\<lparr>world := clusterMap s'\<rparr>\<rparr>"
    using assms by (auto simp: reloadConfiguration_def zoom_def)
  then show "lib_files l' = lib_files l" by simp
  from s'(1) show "\<exists>infos drives. lib_map l' = map_reset infos drives (lib_map l)"
  proof (cases rule: loadConfiguration_cases)
    case (success o1 o2 o3 j drives infos s1)
    from success(4) have "clusterMap s1 = lib_map l" by (cases rule: parseConfiguration_cases) auto
    with success(5) s'(2) show ?thesis by (auto simp: install_def Let_def)
  qed simp_all
qed

lemma lib_reachable_inv: "lib_reachable pf l \<Longrightarrow> map_inv (lib_map l)"
proof (induction rule: lib_reachable.induct)
  case (constructed getenv files w b0 fs l)
  have "map_inv (ClusterMap_new w)" by (rule map_reachable_inv [OF map_reachable.map_start])
  with constructed show ?case
    by (auto simp: library_new_def KineticIoSingleton_new_def catch_def ret_def split: bind_splits sum.splits dest!: loadConfiguration_map)
next
  case (reloaded l getenv files r l')
  then show ?case by (auto simp: reloadConfiguration_def zoom_def dest!: loadConfiguration_map)
next
  case (called l op a r m)
  then show ?case using on_cluster_keeps [OF called.hyps(2,3)] by simp
qed (simp_all add: makeFileIo_map makeAdminCluster_map)

section \<open>Property\<close>

text \<open>C17: Files are made on the clusters of the configuration in force. In every reachable state of the library, a
  file that is made for a url has the path of the url and works on the cluster object that was built from the
  configuration for the url's cluster; other files, the cache and the configuration stay as they are.
  Files for the same url share the cluster object, as does the administrative interface for its name. A
  reload leaves every file and every cluster object in use alone, and a file made after it gets another
  cluster object, which does not touch the one of the older files.\<close>

theorem factory_files:
  assumes "lib_reachable pf l" and "makeFileIo pf self url l = Some (Inr fi, l1)"
  shows "\<exists>cid p a ki. urlToClusterId url = Inr cid \<and> urlToPath url = Inr p \<and>
    clusterInfoMap (lib_map l1) cid = Some ki \<and> built (lib_map l1) cid ki (cluster_heap (lib_map l1) ! a) \<and>
    fi = FileIo_interface pf self \<and> path (lib_files l1 self) = p \<and> \<not> opened (lib_files l1 self) \<and>
    file_cluster (lib_files l1 self) = object_interface (pf_env_of pf) (pf_isal pf) a (cluster_heap (lib_map l1) ! a) \<and>
    (\<forall>other. other \<noteq> self \<longrightarrow> lib_files l1 other = lib_files l other) \<and>
    lib_cache l1 = (lib_cache l)\<lparr>world := lib_map l1\<rparr> \<and> lib_configuration l1 = lib_configuration l \<and>
    makeAdminCluster pf (\<lambda>m. m) cid l1 = Some (Inr a, l1) \<and>
    (\<forall>self'. makeFileIo pf self' url l1 = Some (Inr (FileIo_interface pf self'), l1\<lparr>lib_files := (lib_files l1)(self' := lib_files l1 self)\<rparr>)) \<and>
    (\<forall>getenv files l2. reloadConfiguration pf getenv files l1 = Some (Inr (), l2) \<longrightarrow>
       lib_files l2 = lib_files l1 \<and> cluster_heap (lib_map l2) = cluster_heap (lib_map l1) \<and>
       (\<forall>self' fi' l3. makeFileIo pf self' url l2 = Some (Inr fi', l3) \<longrightarrow>
          cluster_heap (lib_map l3) ! a = cluster_heap (lib_map l1) ! a \<and>
          (\<exists>b. b \<noteq> a \<and> file_cluster (lib_files l3 self') = object_interface (pf_env_of pf) (pf_isal pf) b (cluster_heap (lib_map l3) ! b))))"
  using assms(2) [unfolded makeFileIo_Inr, THEN conjunct1]
proof (cases rule: new_FileIo_result)
  case (1 p cid a m)
  have inv: "map_inv (lib_map l)" by (rule lib_reachable_inv [OF assms(1)])
  have inv': "map_inv m" by (rule getCluster_inv [OF inv 1(3)])
  have m: "lib_map l1 = m" using 1(4) by simp
  from 1(3) inv have c: "clusterCache m cid = Some a" by (cases rule: getCluster_cases) auto
  obtain ki where ki: "clusterInfoMap m cid = Some ki" "built m cid ki (cluster_heap m ! a)" using map_invD(2) [OF inv' c] by blast
  have admin: "makeAdminCluster pf (\<lambda>m. m) cid l1 = Some (Inr a, l1)"
    using c by (simp add: makeAdminCluster_def zoom_def getAdminCluster_def getCluster_def m seq_def bnd_def modify_def 1(4))
  have again: "new_FileIo pf self' url l1 = Some (Inr (), l1\<lparr>lib_files := (lib_files l1)(self' := lib_files l1 self)\<rparr>)" for self'
    using new_FileIo_known [OF 1(1,2,5), of l1 a pf self'] c unfolding m by (simp add: 1(4))
  have reload: "lib_files l2 = lib_files l1 \<and> cluster_heap (lib_map l2) = cluster_heap (lib_map l1) \<and>
       (\<forall>self' l3. new_FileIo pf self' url l2 = Some (Inr (), l3) \<longrightarrow>
          cluster_heap (lib_map l3) ! a = cluster_heap (lib_map l1) ! a \<and>
          (\<exists>b. b \<noteq> a \<and> file_cluster (lib_files l3 self') = object_interface (pf_env_of pf) (pf_isal pf) b (cluster_heap (lib_map l3) ! b)))"
    if l2: "reloadConfiguration pf getenv files l1 = Some (Inr (), l2)" for getenv files l2
  proof -
    obtain infos drives where r: "lib_map l2 = map_reset infos drives m" using reload_result(2) [OF l2] m by auto
    have "cluster_heap (lib_map l3) ! a = cluster_heap m ! a \<and>
        (\<exists>b. b \<noteq> a \<and> file_cluster (lib_files l3 self') = object_interface (pf_env_of pf) (pf_isal pf) b (cluster_heap (lib_map l3) ! b))"
      if "new_FileIo pf self' url l2 = Some (Inr (), l3)" for self' l3
      using that
    proof (cases rule: new_FileIo_result)
      case (1 p' cid' b m3)
      have b: "b = length (cluster_heap m)" "prefix (cluster_heap m) (cluster_heap m3)"
        using 1(3) map_inv_reset [OF inv', of infos drives] getCluster_heap [OF map_inv_reset [OF inv', of infos drives]] unfolding r
        by (auto simp: map_reset_def elim!: getCluster_cases)
      with map_invD(1) [OF inv' c] 1(4) show ?thesis by (auto simp: prefix_def nth_append)
    qed
    with reload_result(1) [OF l2] r m show ?thesis by (simp add: map_reset_def)
  qed
  have fields: "path (lib_files l1 self) = p \<and> \<not> opened (lib_files l1 self) \<and>
    file_cluster (lib_files l1 self) = object_interface (pf_env_of pf) (pf_isal pf) a (cluster_heap (lib_map l1) ! a) \<and>
    (\<forall>other. other \<noteq> self \<longrightarrow> lib_files l1 other = lib_files l other) \<and>
    lib_cache l1 = (lib_cache l)\<lparr>world := lib_map l1\<rparr> \<and> lib_configuration l1 = lib_configuration l"
    by (simp add: 1(4))
  show ?thesis
    by (rule exI [of _ cid], rule exI [of _ p], rule exI [of _ a], rule exI [of _ ki])
      (use 1(1,2) ki [folded m] admin again reload fields assms(2) in \<open>simp only: makeFileIo_Inr, blast\<close>)
qed


subsection \<open>Example\<close>

text \<open>The drives take values of 4096 bytes; the first one is down.\<close>

definition library_drives :: "sim env" where
  "library_drives = sim_env\<lparr>env_log := (\<lambda>c t ts w. (if sim_down w c then NotConnected else
     Answered True (Inr \<lparr>limit_value_size = 4096, limit_key_size = 8, limit_version_size = 8,
       nominal_capacity_in_bytes = 8, portion_full = 0, operation_statistics = []\<rparr>), w))\<rparr>"

definition demo_platform :: "(sim, json option) platform" where
  "demo_platform =
     \<lparr>pf_dial = quiet_dial, pf_env_of = (\<lambda>cons. library_drives), pf_isal = sum_lib, pf_json = tree_lib demo_parse,
      pf_options = demo_options, pf_now = sim_clock, pf_order = (\<lambda>d. d), pf_quotient_text = (\<lambda>x ds. dec x)\<rparr>"

definition loaded_map :: "sim cluster_map" where
  "loaded_map = map_reset (map_of [(''c'', demo_cluster_info)])
     (map_of (map (\<lambda>d. (dd_wwn d, drive_options demo_options d)) [demo_drive ''1'', demo_drive ''2'', demo_drive ''3'']))
     (ClusterMap_new (sim_init [0]))"

lemma demo_loads:
  "loadConfiguration (tree_lib demo_parse) demo_options demo_getenv demo_files s =
    Some (Inr (), install (map_of [(''c'', demo_cluster_info)])
      (map_of (map (\<lambda>d. (dd_wwn d, drive_options demo_options d)) [demo_drive ''1'', demo_drive ''2'', demo_drive ''3'']))
      (s\<lparr>configuration := demo_configuration\<rparr>))"
  by (rule loadConfiguration_denotes [where lv = "''/l''" and sv = "''s''" and cv = "''c''" and lt = "''l''" and st = "''s''" and ct = "''c''"])
    (simp_all add: demo_getenv_def config_text_def readfile_def demo_files_def demo_denotes demo_parse_def demo_drive_def
      info_fits_def demo_cluster_info_def demo_info_def configuration_fits_def demo_configuration_def)

lemma loaded_lookup: "\<exists>m. getCluster quiet_dial (\<lambda>cons. library_drives) sum_lib ''c'' loaded_map = Some (Inr 0, m)"
proof -
  have "map_option fst (getCluster quiet_dial (\<lambda>cons. library_drives) sum_lib ''c'' loaded_map) = Some (Inr 0)" by code_simp
  then show ?thesis by auto
qed

theorem factory_files_witness:
  "\<forall>b0 fs. \<exists>l l1. library_new demo_platform demo_getenv demo_files (sim_init [0]) b0 fs = Some l \<and>
     makeFileIo demo_platform 7 ''kinetic://c/dir/f'' l = Some (Inr (FileIo_interface demo_platform 7), l1) \<and> path (lib_files l1 7) = ''dir/f'' \<and>
     clusterInfoMap (lib_map l1) ''c'' = Some demo_cluster_info \<and>
     makeAdminCluster demo_platform (\<lambda>m. m) ''c'' l1 = Some (Inr 0, l1) \<and>
     (\<exists>l2. reloadConfiguration demo_platform demo_getenv demo_files l1 = Some (Inr (), l2) \<and> lib_files l2 = lib_files l1)"
proof (intro allI)
  fix b0 and fs :: "nat \<Rightarrow> sim cluster_map FileIo"
  obtain l where l: "library_new demo_platform demo_getenv demo_files (sim_init [0]) b0 fs = Some l" "lib_map l = loaded_map"
    by (simp add: library_new_def KineticIoSingleton_new_def catch_def demo_platform_def demo_loads install_def Let_def loaded_map_def)
  have url: "urlToPath ''kinetic://c/dir/f'' = Inr ''dir/f''" "urlToClusterId ''kinetic://c/dir/f'' = Inr ''c''"
    using urlToPath_segments [of "''c''" "''dir/f''"] urlToClusterId_segments [of "''c''" "''dir/f''"] by (simp_all add: npos_def)
  obtain m where m: "getCluster quiet_dial (\<lambda>cons. library_drives) sum_lib ''c'' loaded_map = Some (Inr 0, m)" using loaded_lookup by blast
  then obtain l1 where l1: "new_FileIo demo_platform 7 ''kinetic://c/dir/f'' l = Some (Inr (), l1)" "lib_map l1 = m"
    using l(2) url by (simp add: new_FileIo_def FileIo_new_def library_env_def on_world_def on_cache_def zoom_def set_this_def modify_def
        bnd_def lift_res_def provided_cluster_def demo_platform_def asks_def)
  have reach: "lib_reachable demo_platform l" by (rule lib_reachable.constructed [OF l(1)])
  have made: "makeFileIo demo_platform 7 ''kinetic://c/dir/f'' l = Some (Inr (FileIo_interface demo_platform 7), l1)" using l1(1) by simp
  from factory_files [OF reach made] url obtain a ki where a: "path (lib_files l1 7) = ''dir/f''"
    "clusterInfoMap (lib_map l1) ''c'' = Some ki" "makeAdminCluster demo_platform (\<lambda>m. m) ''c'' l1 = Some (Inr a, l1)"
    "\<And>getenv files l2. reloadConfiguration demo_platform getenv files l1 = Some (Inr (), l2) \<Longrightarrow> lib_files l2 = lib_files l1"
    by auto
  have c: "clusterCache m ''c'' = Some 0" "clusterInfoMap m = clusterInfoMap loaded_map"
    using m map_reachable_inv [OF map_reachable.map_load [OF map_reachable.map_start]] unfolding loaded_map_def
    by (auto elim!: getCluster_cases)
  then have "a = 0" "ki = demo_cluster_info" using a(2,3) l1(2)
    by (auto simp: makeAdminCluster_def zoom_def getAdminCluster_def getCluster_def seq_def bnd_def modify_def loaded_map_def map_reset_def)
  moreover obtain l2 where "reloadConfiguration demo_platform demo_getenv demo_files l1 = Some (Inr (), l2)"
    by (simp add: reloadConfiguration_def zoom_def demo_platform_def demo_loads)
  ultimately show "\<exists>l l1. library_new demo_platform demo_getenv demo_files (sim_init [0]) b0 fs = Some l \<and>
     makeFileIo demo_platform 7 ''kinetic://c/dir/f'' l = Some (Inr (FileIo_interface demo_platform 7), l1) \<and> path (lib_files l1 7) = ''dir/f'' \<and>
     clusterInfoMap (lib_map l1) ''c'' = Some demo_cluster_info \<and>
     makeAdminCluster demo_platform (\<lambda>m. m) ''c'' l1 = Some (Inr 0, l1) \<and>
     (\<exists>l2. reloadConfiguration demo_platform demo_getenv demo_files l1 = Some (Inr (), l2) \<and> lib_files l2 = lib_files l1)"
    using l(1) made a by blast
qed

end
