(* ===== verification/Destruction_Mutex.thy ===== *)
theory Destruction_Mutex
  imports Kinetic_Cluster Cluster_Storage
begin

text \<open>
  \<^verbatim>\<open>DestructionMutex\<close> (include/DestructionMutex.hh) at its place of use: the lock that a
  \<^verbatim>\<open>KineticCluster\<close> shares with the statistics updates it hands to the thread pool. An update may run
  after the cluster is gone; the lock outlives the cluster and tells the update so.

  The mutex, the cluster and the threads are a transition system. A step is what one thread does up to
  the next point where others may interfere; the update itself, which the lock protects, is one step.
  The history of the calls in the order in which they took effect is kept for the statements of
  correctness; nothing depends on it.
\<close>

section \<open>Model\<close>

text \<open>\<open>dm_owner\<close> is the thread that holds the mutex.\<close>

record DestructionMutex =
  dm_destructed :: bool
  dm_owner :: "nat option"

definition DestructionMutex_new :: DestructionMutex where
  "DestructionMutex_new = \<lparr>dm_destructed = False, dm_owner = None\<rparr>"

text \<open>A thread waits while another one holds the mutex.\<close>

definition mutex_lock :: "nat \<Rightarrow> DestructionMutex \<Rightarrow> DestructionMutex option" where
  "mutex_lock i m = (if dm_owner m = None then Some (m\<lparr>dm_owner := Some i\<rparr>) else None)"

definition mutex_unlock :: "DestructionMutex \<Rightarrow> DestructionMutex" where
  "mutex_unlock m = m\<lparr>dm_owner := None\<rparr>"

text \<open>The positions of a thread in \<^verbatim>\<open>updateSnapshot\<close> and in the destructor of the cluster. A thread in
  \<open>Update_dangling\<close> used the members of a cluster that does not exist any more.\<close>

datatype dm_thread =
    Update_called
  | Update_locked
  | Update_throwing
  | Update_inside
  | Update_leaving
  | Update_failed
  | Update_done
  | Update_dangling
  | Destroy_called
  | Destroy_locked
  | Destroy_unlocking
  | Destroy_members
  | Destroy_done

datatype dm_call = Snapshot nat | Destruction nat

record 'w guarded =
  dmutex :: DestructionMutex
  guarded_cluster :: "KineticCluster option"
  guarded_world :: 'w
  guarded_threads :: "dm_thread list"
  history :: "(dm_call \<times> exn option) list"

definition guarded_new :: "KineticCluster \<Rightarrow> 'w \<Rightarrow> 'w guarded" where
  "guarded_new cl w = \<lparr>dmutex = DestructionMutex_new, guarded_cluster = Some cl, guarded_world = w,
     guarded_threads = [], history = []\<rparr>"

definition took_effect :: "dm_call \<Rightarrow> exn option \<Rightarrow> 'w guarded \<Rightarrow> 'w guarded" where
  "took_effect c r g = g\<lparr>history := history g @ [(c, r)]\<rparr>"

text \<open>\<^verbatim>\<open>DestructionMutex::lock\<close>: taking the mutex, then looking at the flag; when it is set the mutex is
  released again before the exception.\<close>

definition dm_lock_check :: "nat \<Rightarrow> 'w guarded \<Rightarrow> dm_thread \<times> 'w guarded" where
  "dm_lock_check i g =
     (if dm_destructed (dmutex g) then (Update_throwing, took_effect (Snapshot i) (Some Logic_error) g)
      else (Update_inside, g))"

definition update_inside ::
  "'w env \<Rightarrow> (nat \<Rightarrow> rat \<Rightarrow> nat) \<Rightarrow> nat \<Rightarrow> 'w guarded \<Rightarrow> dm_thread \<times> 'w guarded" where
  "update_inside env fmul i g =
     (case guarded_cluster g of
        None \<Rightarrow> (Update_dangling, g)
      | Some cl \<Rightarrow> let (cl, w) = refresh_snapshot env fmul cl (guarded_world g)
          in (Update_leaving, took_effect (Snapshot i) None (g\<lparr>guarded_cluster := Some cl, guarded_world := w\<rparr>)))"

definition dm_setDestructed :: "nat \<Rightarrow> 'w guarded \<Rightarrow> dm_thread \<times> 'w guarded" where
  "dm_setDestructed i g =
     (Destroy_unlocking, took_effect (Destruction i) None (g\<lparr>dmutex := (dmutex g)\<lparr>dm_destructed := True\<rparr>\<rparr>))"

definition acquire :: "nat \<Rightarrow> dm_thread \<Rightarrow> 'w guarded \<Rightarrow> (dm_thread \<times> 'w guarded) option" where
  "acquire i t g = map_option (\<lambda>m. (t, g\<lparr>dmutex := m\<rparr>)) (mutex_lock i (dmutex g))"

definition release :: "dm_thread \<Rightarrow> 'w guarded \<Rightarrow> dm_thread \<times> 'w guarded" where
  "release t g = (t, g\<lparr>dmutex := mutex_unlock (dmutex g)\<rparr>)"

text \<open>One step of thread \<open>i\<close> at position \<open>t\<close>; \<open>None\<close> when it has to wait or has ended.\<close>

fun dm_step ::
  "'w env \<Rightarrow> (nat \<Rightarrow> rat \<Rightarrow> nat) \<Rightarrow> nat \<Rightarrow> dm_thread \<Rightarrow> 'w guarded \<Rightarrow> (dm_thread \<times> 'w guarded) option" where
  "dm_step env fmul i Update_called g = acquire i Update_locked g"
| "dm_step env fmul i Update_locked g = Some (dm_lock_check i g)"
| "dm_step env fmul i Update_throwing g = Some (release Update_failed g)"
| "dm_step env fmul i Update_inside g = Some (update_inside env fmul i g)"
| "dm_step env fmul i Update_leaving g = Some (release Update_done g)"
| "dm_step env fmul i Destroy_called g = acquire i Destroy_locked g"
| "dm_step env fmul i Destroy_locked g = Some (dm_setDestructed i g)"
| "dm_step env fmul i Destroy_unlocking g = Some (release Destroy_members g)"
| "dm_step env fmul i Destroy_members g = Some (Destroy_done, g\<lparr>guarded_cluster := None\<rparr>)"
| "dm_step env fmul i _ g = None"

definition set_thread :: "nat \<Rightarrow> dm_thread \<times> 'w guarded \<Rightarrow> 'w guarded" where
  "set_thread i = (\<lambda>(t, g). g\<lparr>guarded_threads := (guarded_threads g)[i := t]\<rparr>)"

text \<open>Updates are scheduled, and the cluster is destroyed, while somebody owns the cluster.\<close>

fun destroying :: "dm_thread \<Rightarrow> bool" where
  "destroying Destroy_called = True"
| "destroying Destroy_locked = True"
| "destroying Destroy_unlocking = True"
| "destroying Destroy_members = True"
| "destroying Destroy_done = True"
| "destroying _ = False"

inductive dm_moves :: "'w env \<Rightarrow> (nat \<Rightarrow> rat \<Rightarrow> nat) \<Rightarrow> 'w guarded \<Rightarrow> 'w guarded \<Rightarrow> bool" for env fmul where
  "i < length (guarded_threads g) \<Longrightarrow> dm_step env fmul i (guarded_threads g ! i) g = Some r \<Longrightarrow>
   dm_moves env fmul g (set_thread i r)"

inductive dm_reachable :: "'w env \<Rightarrow> (nat \<Rightarrow> rat \<Rightarrow> nat) \<Rightarrow> KineticCluster \<Rightarrow> 'w \<Rightarrow> 'w guarded \<Rightarrow> bool" for env fmul cl w where
  created: "dm_reachable env fmul cl w (guarded_new cl w)"
| moved: "dm_reachable env fmul cl w g \<Longrightarrow> dm_moves env fmul g g' \<Longrightarrow> dm_reachable env fmul cl w g'"
| scheduled: "dm_reachable env fmul cl w g \<Longrightarrow> \<not> list_ex destroying (guarded_threads g) \<Longrightarrow>
    dm_reachable env fmul cl w (g\<lparr>guarded_threads := guarded_threads g @ [Update_called]\<rparr>)"
| destroyed: "dm_reachable env fmul cl w g \<Longrightarrow> \<not> list_ex destroying (guarded_threads g) \<Longrightarrow>
    dm_reachable env fmul cl w (g\<lparr>guarded_threads := guarded_threads g @ [Destroy_called]\<rparr>)"

section \<open>Specification\<close>

text \<open>The calls one after the other, on a cluster that carries the flag itself.\<close>

fun serial_call ::
  "'w env \<Rightarrow> (nat \<Rightarrow> rat \<Rightarrow> nat) \<Rightarrow> dm_call \<Rightarrow> KineticCluster \<times> 'w \<Rightarrow> exn option \<times> KineticCluster \<times> 'w" where
  "serial_call env fmul (Snapshot i) (cl, w) =
     (case updateSnapshot env fmul cl w of (Inl e, w) \<Rightarrow> (Some e, cl, w) | (Inr cl, w) \<Rightarrow> (None, cl, w))"
| "serial_call env fmul (Destruction i) (cl, w) = (None, KineticCluster_destroy cl, w)"

fun serial_run ::
  "'w env \<Rightarrow> (nat \<Rightarrow> rat \<Rightarrow> nat) \<Rightarrow> dm_call list \<Rightarrow> KineticCluster \<times> 'w \<Rightarrow> exn option list \<times> KineticCluster \<times> 'w" where
  "serial_run env fmul [] s = ([], s)"
| "serial_run env fmul (c # cs) s =
     (let (r, s) = serial_call env fmul c s; (rs, s) = serial_run env fmul cs s in (r # rs, s))"

lemma serial_run_append:
  "serial_run env fmul cs s = (rs, s') \<Longrightarrow> serial_call env fmul c s' = (r, s2) \<Longrightarrow>
   serial_run env fmul (cs @ [c]) s = (rs @ [r], s2)"
  by (induction cs arbitrary: s rs) (auto split: prod.splits)

section \<open>Invariant\<close>

fun holding_dm :: "dm_thread \<Rightarrow> bool" where
  "holding_dm Update_locked = True"
| "holding_dm Update_throwing = True"
| "holding_dm Update_inside = True"
| "holding_dm Update_leaving = True"
| "holding_dm Destroy_locked = True"
| "holding_dm Destroy_unlocking = True"
| "holding_dm _ = False"

fun ended :: "dm_thread \<Rightarrow> bool" where
  "ended Update_failed = True"
| "ended Update_done = True"
| "ended Update_dangling = True"
| "ended Destroy_done = True"
| "ended _ = False"

text \<open>The entry that a thread at a position has in the history.\<close>

fun entry :: "nat \<Rightarrow> dm_thread \<Rightarrow> (dm_call \<times> exn option) list" where
  "entry i Update_throwing = [(Snapshot i, Some Logic_error)]"
| "entry i Update_failed = [(Snapshot i, Some Logic_error)]"
| "entry i Update_leaving = [(Snapshot i, None)]"
| "entry i Update_done = [(Snapshot i, None)]"
| "entry i Destroy_unlocking = [(Destruction i, None)]"
| "entry i Destroy_members = [(Destruction i, None)]"
| "entry i Destroy_done = [(Destruction i, None)]"
| "entry i _ = []"

fun caller :: "dm_call \<Rightarrow> nat" where
  "caller (Snapshot i) = i"
| "caller (Destruction i) = i"

definition entries :: "nat \<Rightarrow> 'w guarded \<Rightarrow> (dm_call \<times> exn option) list" where
  "entries i g = filter (\<lambda>(c, r). caller c = i) (history g)"

definition dm_inv :: "'w guarded \<Rightarrow> bool" where
  "dm_inv g \<longleftrightarrow>
     (\<forall>i < length (guarded_threads g). holding_dm (guarded_threads g ! i) \<longleftrightarrow> dm_owner (dmutex g) = Some i) \<and>
     (\<forall>i. dm_owner (dmutex g) = Some i \<longrightarrow> i < length (guarded_threads g)) \<and>
     (\<forall>i < length (guarded_threads g). entries i g = entry i (guarded_threads g ! i)) \<and>
     (\<forall>i. length (guarded_threads g) \<le> i \<longrightarrow> entries i g = []) \<and>
     (Update_inside \<in> set (guarded_threads g) \<longrightarrow> \<not> dm_destructed (dmutex g)) \<and>
     (guarded_cluster g = None \<longrightarrow> dm_destructed (dmutex g)) \<and>
     (Destroy_unlocking \<in> set (guarded_threads g) \<or> Destroy_members \<in> set (guarded_threads g) \<longrightarrow> dm_destructed (dmutex g)) \<and>
     Update_dangling \<notin> set (guarded_threads g)"

text \<open>The cluster with the flag of the mutex is the cluster of the serial run.\<close>

definition dm_serial :: "'w env \<Rightarrow> (nat \<Rightarrow> rat \<Rightarrow> nat) \<Rightarrow> KineticCluster \<Rightarrow> 'w \<Rightarrow> 'w guarded \<Rightarrow> bool" where
  "dm_serial env fmul cl0 w0 g \<longleftrightarrow>
     (\<exists>cl. serial_run env fmul (map fst (history g)) (cl0, w0) = (map snd (history g), cl, guarded_world g) \<and>
        destructed cl = dm_destructed (dmutex g) \<and>
        (\<forall>c. guarded_cluster g = Some c \<longrightarrow> \<not> destructed c \<and> cl = c\<lparr>destructed := dm_destructed (dmutex g)\<rparr>))"

lemma refresh_keeps: "refresh_snapshot env fmul cl w = (cl', w') \<Longrightarrow> destructed cl' = destructed cl"
  by (auto simp: refresh_snapshot_def Let_def split: prod.splits)

lemma took_effect_fields [simp]:
  "dmutex (took_effect c r g) = dmutex g" "guarded_cluster (took_effect c r g) = guarded_cluster g"
  "guarded_world (took_effect c r g) = guarded_world g" "guarded_threads (took_effect c r g) = guarded_threads g"
  "history (took_effect c r g) = history g @ [(c, r)]"
  by (simp_all add: took_effect_def)

lemma entries_simps [simp]:
  "entries i (g\<lparr>dmutex := m\<rparr>) = entries i g" "entries i (g\<lparr>guarded_cluster := cl\<rparr>) = entries i g"
  "entries i (g\<lparr>guarded_world := w\<rparr>) = entries i g" "entries i (g\<lparr>guarded_threads := ts\<rparr>) = entries i g"
  "entries i (took_effect c r g) = entries i g @ (if caller c = i then [(c, r)] else [])"
  by (simp_all add: entries_def)

lemmas dm_step_defs = acquire_def release_def mutex_lock_def mutex_unlock_def dm_lock_check_def update_inside_def
  dm_setDestructed_def

text \<open>What a step changes: the entries of the thread itself, and whether it holds the mutex.\<close>

lemma dm_step_keeps:
  assumes "dm_step env fmul i t g = Some (t', g')"
  shows "guarded_threads g' = guarded_threads g" "i \<noteq> j \<Longrightarrow> entries j g' = entries j g"
  using assms by (cases t; auto simp: dm_step_defs Let_def split: if_splits option.splits prod.splits)+

lemma dm_step_entries:
  assumes "dm_step env fmul i t g = Some (t', g')" and "entries i g = entry i t"
  shows "entries i g' = entry i t'"
  using assms by (cases t; auto simp: dm_step_defs Let_def split: if_splits option.splits prod.splits)

lemma dm_step_owner:
  assumes "dm_step env fmul i t g = Some (t', g')" and "holding_dm t \<longleftrightarrow> dm_owner (dmutex g) = Some i"
    and "t = Update_inside \<Longrightarrow> guarded_cluster g \<noteq> None"
  shows "(holding_dm t' \<longleftrightarrow> dm_owner (dmutex g') = Some i) \<and> t' \<noteq> Update_dangling \<and>
    (\<forall>j. i \<noteq> j \<longrightarrow> (dm_owner (dmutex g') = Some j \<longleftrightarrow> dm_owner (dmutex g) = Some j))"
proof (cases t)
  case Update_inside
  with assms show ?thesis by (auto simp: update_inside_def split: option.splits prod.splits)
qed (use assms in \<open>auto simp: dm_step_defs split: if_splits\<close>)

text \<open>Only the destructor sets the flag and takes the cluster away.\<close>

lemma dm_step_flag:
  assumes "dm_step env fmul i t g = Some (t', g')"
  shows "dm_destructed (dmutex g') \<longleftrightarrow> dm_destructed (dmutex g) \<or> t = Destroy_locked"
    "guarded_cluster g' = None \<longleftrightarrow> guarded_cluster g = None \<or> t = Destroy_members"
    "t' = Destroy_unlocking \<longleftrightarrow> t = Destroy_locked" "t' = Destroy_members \<longleftrightarrow> t = Destroy_unlocking"
    "t' = Update_inside \<longleftrightarrow> t = Update_locked \<and> \<not> dm_destructed (dmutex g)"
  using assms by (cases t; auto simp: dm_step_defs Let_def split: if_splits option.splits prod.splits)+

lemma dm_inv_move:
  assumes "dm_inv g" and "dm_moves env fmul g g'"
  shows "dm_inv g'"
  using assms(2)
proof (cases rule: dm_moves.cases)
  case (1 i r)
  let ?ts = "guarded_threads g" let ?t = "guarded_threads g ! i"
  obtain t' g1 where r: "r = (t', g1)" by fastforce
  note st = 1(3) [unfolded r]
  note inv = assms(1) [unfolded dm_inv_def]
  have mem: "?t \<in> set ?ts" using 1(2) by simp
  have own: "holding_dm (?ts ! j) \<longleftrightarrow> dm_owner (dmutex g) = Some j" if "j < length ?ts" for j using inv that by blast
  have live: "guarded_cluster g \<noteq> None" if "?t = Update_inside" using inv mem that by metis
  note owner = dm_step_owner [OF st own [OF 1(2)] live]
  note flag = dm_step_flag [OF st]
  have ts: "guarded_threads g' = ?ts[i := t']" "dmutex g' = dmutex g1" "guarded_cluster g' = guarded_cluster g1" "\<And>j. entries j g' = entries j g1"
    using dm_step_keeps(1) [OF st] by (simp_all add: 1(1) r set_thread_def)
  have in_ts: "x = t' \<or> x \<in> set ?ts" if "x \<in> set (guarded_threads g')" for x
    using that set_update_subset_insert [of ?ts i t'] by (auto simp: ts)
  have alone: "Update_inside \<notin> set (guarded_threads g')" if "?t = Destroy_locked"
  proof
    assume "Update_inside \<in> set (guarded_threads g')"
    then obtain j where "j < length ?ts" "(?ts[i := t']) ! j = Update_inside" unfolding ts(1) in_set_conv_nth by auto
    with flag(5) own [of j] own [OF 1(2)] that show False by (cases "j = i") auto
  qed
  show ?thesis
    unfolding dm_inv_def
  proof (intro conjI allI impI)
    fix j assume "j < length (guarded_threads g')"
    then show "holding_dm (guarded_threads g' ! j) \<longleftrightarrow> dm_owner (dmutex g') = Some j"
      "entries j g' = entry j (guarded_threads g' ! j)"
      using own [of j] owner dm_step_keeps(2) [OF st, of j] dm_step_entries [OF st] inv by (cases "j = i"; simp add: ts)+
  next
    fix j
    show "dm_owner (dmutex g') = Some j \<Longrightarrow> j < length (guarded_threads g')"
      using owner inv 1(2) by (cases "j = i") (auto simp: ts)
    show "length (guarded_threads g') \<le> j \<Longrightarrow> entries j g' = []"
      using dm_step_keeps(2) [OF st, of j] inv 1(2) by (auto simp: ts)
  qed (use in_ts flag inv owner alone mem in \<open>(simp add: ts; metis)+\<close>)
qed

lemma dm_inv_schedule:
  assumes "dm_inv g" and "\<not> holding_dm t" and "entry (length (guarded_threads g)) t = []"
    and "t \<notin> {Update_inside, Update_dangling, Destroy_unlocking, Destroy_members}"
  shows "dm_inv (g\<lparr>guarded_threads := guarded_threads g @ [t]\<rparr>)"
  using assms by (auto simp: dm_inv_def nth_append less_Suc_eq)

lemma dm_inv_reachable: "dm_reachable env fmul cl w g \<Longrightarrow> dm_inv g"
proof (induction rule: dm_reachable.induct)
  case created
  then show ?case by (simp add: dm_inv_def guarded_new_def DestructionMutex_new_def entries_def)
qed (simp_all add: dm_inv_move dm_inv_schedule)

lemma dm_serial_step:
  assumes "dm_serial env fmul cl0 w0 g" and "dm_step env fmul i t g = Some (t', g')" and "t = Update_inside \<Longrightarrow> \<not> dm_destructed (dmutex g)"
  shows "dm_serial env fmul cl0 w0 g'"
proof -
  obtain cl where run: "serial_run env fmul (map fst (history g)) (cl0, w0) = (map snd (history g), cl, guarded_world g)"
    and cl: "destructed cl = dm_destructed (dmutex g)"
      "\<And>c. guarded_cluster g = Some c \<Longrightarrow> \<not> destructed c \<and> cl = c\<lparr>destructed := dm_destructed (dmutex g)\<rparr>"
    using assms(1) by (auto simp: dm_serial_def)
  note further = serial_run_append [OF run]
  show ?thesis
  proof (cases t)
    case Update_locked
    with assms(2) run cl further [of "Snapshot i"] show ?thesis
      by (auto simp: dm_serial_def dm_lock_check_def updateSnapshot_def split: if_splits)
  next
    case Update_inside
    show ?thesis
    proof (cases "guarded_cluster g")
      case None
      with Update_inside assms(1,2) show ?thesis by (auto simp: update_inside_def)
    next
      case (Some c)
      then have c: "cl = c" "\<not> destructed c" using cl(2) assms(3) [OF Update_inside] by simp_all
      obtain c' w' where r: "refresh_snapshot env fmul c (guarded_world g) = (c', w')" by fastforce
      then have "serial_call env fmul (Snapshot i) (cl, guarded_world g) = (None, c', w')"
        using c by (simp add: updateSnapshot_def)
      from further [OF this] refresh_keeps [OF r] Update_inside Some assms(2,3) c r cl(1) show ?thesis
        by (auto simp: dm_serial_def update_inside_def)
    qed
  next
    case Destroy_locked
    with assms(2) cl further [of "Destruction i"] show ?thesis
      by (auto simp: dm_serial_def dm_setDestructed_def KineticCluster_destroy_def)
  qed (use assms(1,2) in \<open>auto simp: dm_serial_def acquire_def release_def mutex_lock_def mutex_unlock_def split: if_splits\<close>)
qed

lemma dm_serial_reachable:
  "dm_reachable env fmul cl w g \<Longrightarrow> \<not> destructed cl \<Longrightarrow> dm_serial env fmul cl w g"
proof (induction rule: dm_reachable.induct)
  case created
  then show ?case by (simp add: dm_serial_def guarded_new_def DestructionMutex_new_def)
next
  case (moved g g')
  note serial = moved.IH [OF moved.prems] and inv = dm_inv_reachable [OF moved.hyps(1), unfolded dm_inv_def]
  from moved.hyps(2) show ?case
  proof (cases rule: dm_moves.cases)
    case (1 i r)
    obtain t' g1 where r: "r = (t', g1)" by fastforce
    have "dm_serial env fmul cl w g1"
      using dm_serial_step [OF serial 1(3) [unfolded r]] inv nth_mem [OF 1(2)] by metis
    then show ?thesis by (simp add: 1(1) r set_thread_def dm_serial_def)
  qed
qed (simp_all add: dm_serial_def)

section \<open>Progress\<close>

fun dm_rank :: "dm_thread \<Rightarrow> nat" where
  "dm_rank Update_called = 4"
| "dm_rank Update_locked = 3"
| "dm_rank Update_inside = 2"
| "dm_rank Update_throwing = 1"
| "dm_rank Update_leaving = 1"
| "dm_rank Destroy_called = 4"
| "dm_rank Destroy_locked = 3"
| "dm_rank Destroy_unlocking = 2"
| "dm_rank Destroy_members = 1"
| "dm_rank _ = 0"

abbreviation dm_left :: "'w guarded \<Rightarrow> nat" where
  "dm_left g \<equiv> sum_list (map dm_rank (guarded_threads g))"

lemma dm_left_move: "dm_moves env fmul g g' \<Longrightarrow> dm_left g' < dm_left g \<and> length (guarded_threads g') = length (guarded_threads g)"
proof (induction rule: dm_moves.induct)
  case (1 i g r)
  obtain t' g1 where r: "r = (t', g1)" by fastforce
  have "dm_rank t' < dm_rank (guarded_threads g ! i)"
    using 1(2) unfolding r by (cases "guarded_threads g ! i"; auto simp: dm_step_defs Let_def split: if_splits option.splits prod.splits)
  moreover have "guarded_threads (set_thread i r) = (guarded_threads g)[i := t']"
    using dm_step_keeps(1) 1(2) unfolding r set_thread_def by fastforce
  ultimately show ?case
    using sum_list_update [of i "map dm_rank (guarded_threads g)" "dm_rank t'"] elem_le_sum_list [of i "map dm_rank (guarded_threads g)"] 1(1)
    by (simp add: map_update)
qed

lemma dm_moves_bounded: "(dm_moves env fmul ^^ n) g g' \<Longrightarrow> n + dm_left g' \<le> dm_left g"
proof (induction n arbitrary: g')
  case (Suc n)
  then show ?case using dm_left_move by fastforce
qed simp

lemma dm_left_bound: "dm_left g \<le> 4 * length (guarded_threads g)"
proof -
  have "dm_rank t \<le> 4" for t by (cases t) simp_all
  then have "dm_left g \<le> sum_list (map (\<lambda>t. 4) (guarded_threads g))" by (intro sum_list_mono)
  then show ?thesis by (simp add: sum_list_triv)
qed

lemma dm_progress:
  assumes "dm_inv g" and "t \<in> set (guarded_threads g)" and "\<not> ended t"
  shows "\<exists>g'. dm_moves env fmul g g'"
proof -
  have "\<exists>i < length (guarded_threads g). \<not> ended (guarded_threads g ! i) \<and> (holding_dm (guarded_threads g ! i) \<or> dm_owner (dmutex g) = None)"
  proof (cases "dm_owner (dmutex g)")
    case None
    with assms(2,3) show ?thesis by (auto simp: in_set_conv_nth)
  next
    case (Some i)
    then have "i < length (guarded_threads g)" "holding_dm (guarded_threads g ! i)" using assms(1) by (auto simp: dm_inv_def)
    then show ?thesis by (intro exI [of _ i]) (cases "guarded_threads g ! i"; simp)
  qed
  then obtain i where i: "i < length (guarded_threads g)" "\<not> ended (guarded_threads g ! i)"
    "holding_dm (guarded_threads g ! i) \<or> dm_owner (dmutex g) = None" by blast
  then obtain r where "dm_step env fmul i (guarded_threads g ! i) g = Some r"
    by (cases "guarded_threads g ! i") (auto simp: acquire_def mutex_lock_def)
  with i(1) show ?thesis by (blast intro: dm_moves.intros)
qed

lemma dm_reachable_moves:
  "(dm_moves env fmul)\<^sup>*\<^sup>* g g' \<Longrightarrow> dm_reachable env fmul cl w g \<Longrightarrow> dm_reachable env fmul cl w g'"
  by (induction rule: rtranclp_induct) (auto intro: dm_reachable.moved)


section \<open>Property\<close>

text \<open>C18: A statistics update never uses a destroyed cluster, and the threads behave as if their calls ran one
  after the other. In every reachable state of the updates and the destructor of a cluster no update
  used the members of a cluster that is gone and at most one thread holds the mutex; every call that took
  effect is in the history once, with its result, and the calls made one after the other in the order of the history give
  the same results, the same drives and, while it exists, the same cluster. In particular every update
  that takes the lock after the destructor set the flag fails. The threads wait for each other at most
  for a bounded number of steps, and when no thread can move all of them have ended.\<close>

theorem cluster_destruction_safe:
  assumes "dm_reachable env fmul cl w g" and "\<not> destructed cl"
  shows "Update_dangling \<notin> set (guarded_threads g) \<and>
    (\<forall>i < length (guarded_threads g). \<forall>j < length (guarded_threads g).
       holding_dm (guarded_threads g ! i) \<and> holding_dm (guarded_threads g ! j) \<longrightarrow> i = j) \<and>
    (\<forall>i < length (guarded_threads g). filter (\<lambda>(c, r). caller c = i) (history g) = entry i (guarded_threads g ! i)) \<and>
    (\<exists>cl'. serial_run env fmul (map fst (history g)) (cl, w) = (map snd (history g), cl', guarded_world g) \<and>
       (\<forall>c. guarded_cluster g = Some c \<longrightarrow> cl' = c\<lparr>destructed := dm_destructed (dmutex g)\<rparr>)) \<and>
    (\<forall>n g'. (dm_moves env fmul ^^ n) g g' \<longrightarrow> n \<le> 4 * length (guarded_threads g) \<and>
       ((\<nexists>g''. dm_moves env fmul g' g'') \<longrightarrow> list_all ended (guarded_threads g')))"
proof -
  note inv = dm_inv_reachable [OF assms(1), unfolded dm_inv_def]
  have "n \<le> 4 * length (guarded_threads g)" if "(dm_moves env fmul ^^ n) g g'" for n g'
    using dm_moves_bounded [OF that] dm_left_bound [of g] by linarith
  moreover have "list_all ended (guarded_threads g')" if "(dm_moves env fmul ^^ n) g g'" "\<nexists>g''. dm_moves env fmul g' g''" for n g'
    using dm_progress [OF dm_inv_reachable [OF dm_reachable_moves [OF relpowp_imp_rtranclp [OF that(1)] assms(1)]]] that(2)
    by (auto simp: list_all_iff)
  moreover have "holding_dm (guarded_threads g ! i) \<Longrightarrow> holding_dm (guarded_threads g ! j) \<Longrightarrow> i = j"
    if "i < length (guarded_threads g)" "j < length (guarded_threads g)" for i j
    using inv that by (metis option.inject)
  ultimately show ?thesis
    using inv dm_serial_reachable [OF assms] unfolding dm_serial_def entries_def by blast
qed

text \<open>The cluster is destroyed before a scheduled update begins.\<close>

definition destroyed_demo :: "sim guarded" where
  "destroyed_demo = \<lparr>dmutex = \<lparr>dm_destructed = True, dm_owner = None\<rparr>, guarded_cluster = None, guarded_world = sim_init [],
     guarded_threads = [Update_failed, Destroy_done], history = [(Destruction 1, None), (Snapshot 0, Some Logic_error)]\<rparr>"

definition drive_thread :: "nat \<Rightarrow> sim guarded \<Rightarrow> sim guarded" where
  "drive_thread i g = set_thread i (the (dm_step sim_env (\<lambda>c p. 0) i (guarded_threads g ! i) g))"

lemma drive_thread_reachable:
  "dm_reachable sim_env (\<lambda>c p. 0) cl w g \<Longrightarrow> i < length (guarded_threads g) \<Longrightarrow>
   dm_step sim_env (\<lambda>c p. 0) i (guarded_threads g ! i) g \<noteq> None \<Longrightarrow> dm_reachable sim_env (\<lambda>c p. 0) cl w (drive_thread i g)"
  unfolding drive_thread_def by (erule dm_reachable.moved, rule dm_moves.intros) simp_all

lemma destroyed_demo_reachable: "dm_reachable sim_env (\<lambda>c p. 0) demo_cluster (sim_init []) destroyed_demo"
proof -
  let ?g = "guarded_new demo_cluster (sim_init [])\<lparr>guarded_threads := [Update_called, Destroy_called]\<rparr>"
  note defs = dm_step_defs drive_thread_def set_thread_def took_effect_def guarded_new_def DestructionMutex_new_def
  have "dm_reachable sim_env (\<lambda>c p. 0) demo_cluster (sim_init []) (guarded_new demo_cluster (sim_init [])\<lparr>guarded_threads := [Update_called]\<rparr>)"
    using dm_reachable.scheduled [OF dm_reachable.created] by (simp add: guarded_new_def)
  from dm_reachable.destroyed [OF this] have "dm_reachable sim_env (\<lambda>c p. 0) demo_cluster (sim_init []) ?g"
    by (simp add: guarded_new_def)
  then have "dm_reachable sim_env (\<lambda>c p. 0) demo_cluster (sim_init [])
      (drive_thread 0 (drive_thread 0 (drive_thread 0 (drive_thread 1 (drive_thread 1 (drive_thread 1 (drive_thread 1 ?g)))))))"
    by (intro drive_thread_reachable) (simp_all add: defs)
  then show ?thesis by (simp add: destroyed_demo_def defs)
qed

theorem cluster_destruction_safe_witness:
  "dm_reachable sim_env (\<lambda>c p. 0) demo_cluster (sim_init []) destroyed_demo \<and>
   guarded_threads destroyed_demo = [Update_failed, Destroy_done] \<and>
   (\<exists>cl'. serial_run sim_env (\<lambda>c p. 0) [Destruction 1, Snapshot 0] (demo_cluster, sim_init []) =
      ([None, Some Logic_error], cl', sim_init []))"
  using cluster_destruction_safe [OF destroyed_demo_reachable] destroyed_demo_reachable
  by (auto simp: destroyed_demo_def demo_cluster_def)

end
