(* ===== verification/Socket_Listener.thy ===== *)
theory Socket_Listener
  imports Auto_Connection
begin

text \<open>
  \<^verbatim>\<open>SocketListener\<close> (src/SocketListener.cc): the thread that waits for activity on the sockets of all
  connections and lets the client library process it, together with the connections it serves.

  A connection object has an address, and the kernel returns with every event the address that was
  registered for the socket; the event of the pipe by which the destructor wakes the thread has the
  null address. The state holds the objects that exist, the events of the last \<^verbatim>\<open>epoll_wait\<close> that are
  not handled yet, the flag \<^verbatim>\<open>shutdown\<close>, whether the thread has left its loop, and the world, which all
  connections share: an operation on a connection starts from the current world. Following an address
  at which no object exists is undefined behaviour.
\<close>

section \<open>Model\<close>

record 'w listener =
  lst_connections :: "nat \<rightharpoonup> 'w auto_connection"
  lst_events :: "nat option list"
  lst_shutdown :: bool
  lst_exited :: bool
  lst_world :: 'w

type_synonym ('w, 'a) lst_op = "('w listener, 'a) kio"

definition SocketListener_new :: "errc option \<Rightarrow> 'w \<Rightarrow> 'w listener res" where
  "SocketListener_new epoll_error w =
     (case epoll_error of
        Some e \<Rightarrow> Inl (System_error e)
      | None \<Rightarrow> Inr \<lparr>lst_connections = Map.empty, lst_events = [], lst_shutdown = False, lst_exited = False, lst_world = w\<rparr>)"

text \<open>The destructor up to the point where it waits for the thread.\<close>

definition SocketListener_destroy :: "'w listener \<Rightarrow> 'w listener" where
  "SocketListener_destroy s = s\<lparr>lst_shutdown := True\<rparr>"

text \<open>The object at an address with the current world, and the way back.\<close>

definition con_at :: "nat \<Rightarrow> 'w listener \<Rightarrow> 'w auto_connection option" where
  "con_at p s = map_option (\<lambda>c. c\<lparr>con_world := lst_world s\<rparr>) (lst_connections s p)"

definition con_update :: "nat \<Rightarrow> 'w auto_connection \<Rightarrow> 'w listener \<Rightarrow> 'w listener" where
  "con_update p c s = s\<lparr>lst_connections := (lst_connections s)(p \<mapsto> c), lst_world := con_world c\<rparr>"

subsection \<open>The thread\<close>

text \<open>The body of the loop over the events: \<^verbatim>\<open>con->get()->Run(...)\<close> with its exceptions caught.\<close>

definition handle_event :: "'w dialer \<Rightarrow> nat option \<Rightarrow> ('w, unit) lst_op" where
  "handle_event dial event s =
     (case event of
        None \<Rightarrow> Some (Inr (), s)
      | Some p \<Rightarrow>
          (case con_at p s of
             None \<Rightarrow> Some (Inl Undefined_behaviour, s)
           | Some c \<Rightarrow>
               (case auto_get dial c of
                  None \<Rightarrow> None
                | Some (Inl e, c) \<Rightarrow> Some (Inr (), con_update p c s)
                | Some (Inr None, c) \<Rightarrow> Some (Inl Undefined_behaviour, con_update p c s)
                | Some (Inr (Some con), c) \<Rightarrow>
                    (let (_, w) = dial_run dial con (con_world c)
                     in Some (Inr (), con_update p (c\<lparr>con_world := w\<rparr>) s)))))"

text \<open>The loop over the events, taking one off at a time.\<close>

fun handle_events :: "'w dialer \<Rightarrow> nat option list \<Rightarrow> ('w, unit) lst_op" where
  "handle_events dial [] s = Some (Inr (), s\<lparr>lst_events := []\<rparr>)"
| "handle_events dial (e # es) s =
     (case handle_event dial e (s\<lparr>lst_events := es\<rparr>) of
        Some (Inr _, s') \<Rightarrow> handle_events dial es s'
      | r \<Rightarrow> r)"

text \<open>What the thread does when \<^verbatim>\<open>epoll_wait\<close> returns; a failure returns no events.\<close>

definition listener_wake :: "nat option list \<Rightarrow> 'w listener \<Rightarrow> 'w listener" where
  "listener_wake events s =
     (if lst_shutdown s then s\<lparr>lst_exited := True\<rparr> else s\<lparr>lst_events := events\<rparr>)"

subsection \<open>The thread among others\<close>

text \<open>Between two steps of the thread other threads create, use and destroy connections, the world
  moves on, and the listener may be asked to shut down. The kernel reports at most ten events, for
  connections with a registered socket.\<close>

inductive lst_step :: "'w dialer \<Rightarrow> 'w listener \<Rightarrow> 'w listener \<Rightarrow> bool" for dial where
  wake: "lst_events s = [] \<Longrightarrow> \<not> lst_exited s \<Longrightarrow> length events \<le> 10 \<Longrightarrow>
    (\<And>p. Some p \<in> set events \<Longrightarrow> \<exists>c. lst_connections s p = Some c \<and> watched c \<noteq> {}) \<Longrightarrow>
    lst_step dial s (listener_wake events s)"
| handle: "lst_events s = e # es \<Longrightarrow> handle_event dial e (s\<lparr>lst_events := es\<rparr>) = Some (Inr (), s') \<Longrightarrow> lst_step dial s s'"
| create: "lst_connections s p = None \<Longrightarrow>
    lst_step dial s (con_update p (KineticAutoConnection_new dial opts r (lst_world s)) s)"
| use_connection: "con_at p s = Some c \<Longrightarrow> conn_step dial c c' \<Longrightarrow> lst_step dial s (con_update p c' s)"
| destroy_connection: "lst_step dial s (s\<lparr>lst_connections := (lst_connections s)(p := None)\<rparr>)"
| world: "dial_now dial (lst_world s) \<le> dial_now dial w \<Longrightarrow> lst_step dial s (s\<lparr>lst_world := w\<rparr>)"
| stop: "lst_step dial s (SocketListener_destroy s)"

inductive lst_reachable :: "'w dialer \<Rightarrow> 'w listener \<Rightarrow> bool" for dial where
  created: "SocketListener_new None w = Inr s \<Longrightarrow> lst_reachable dial s"
| further: "lst_reachable dial s \<Longrightarrow> lst_step dial s s' \<Longrightarrow> lst_reachable dial s'"

section \<open>Lemmas\<close>

lemma con_at_update [simp]: "con_at p (con_update q' c s) =
    (if p = q' then Some c else map_option (\<lambda>d. d\<lparr>con_world := con_world c\<rparr>) (lst_connections s p))"
  by (cases c) (simp add: con_at_def con_update_def)

subsection \<open>The clock of a connection\<close>

lemma get_locked_frame:
  assumes "get_locked dial c = Some (r, c')"
  shows "con_world c' = con_world c" and "initial_connect c' = initial_connect c"
  using assms by (auto simp: get_locked_def schedule_reconnect_def Let_def split: if_splits prod.splits bool.splits)

lemma auto_get_clock:
  assumes "steady dial" and "auto_get dial c = Some (r, c')"
  shows "dial_now dial (con_world c) \<le> dial_now dial (con_world c')"
  using assms(2)
proof (cases rule: auto_get_cases)
  case (first d)
  from assms(1) first(2) get_locked_frame(1) [OF first(3)] show ?thesis by (auto elim!: connect_cases)
next
  case (failed e)
  from assms(1) failed(2) show ?thesis by (auto elim!: connect_cases)
qed (simp add: get_locked_frame)

lemma conn_step_clock: "conn_step dial c c' \<Longrightarrow> steady dial \<Longrightarrow> dial_now dial (con_world c) \<le> dial_now dial (con_world c')"
proof (induction rule: conn_step.induct)
  case (client_get c r c')
  then show ?case by (metis auto_get_clock)
next
  case (client_error c con)
  then show ?case by (simp add: setError_def unsubscribe_def Let_def)
next
  case (bg_connect i c r c')
  then show ?case by (auto elim!: connect_cases)
qed simp_all

subsection \<open>The first use of a connection\<close>

definition first_inv :: "'w auto_connection \<Rightarrow> bool" where
  "first_inv c \<longleftrightarrow> (\<not> initial_connect c \<longrightarrow> watched c = {} \<and> threads (bg c) = [])"

lemma conn_step_first:
  "conn_step dial c c' \<Longrightarrow> steady dial \<Longrightarrow> first_inv c \<Longrightarrow> first_inv c' \<and> (initial_connect c \<longrightarrow> initial_connect c')"
proof (induction rule: conn_step.induct)
  case (client_get c r c')
  from client_get.hyps show ?case
  proof (cases rule: auto_get_cases)
    case (failed e)
    with client_get show ?thesis by (auto simp: first_inv_def elim!: connect_cases)
  qed (auto simp: first_inv_def dest: get_locked_frame(2))
next
  case (client_error c con)
  then show ?case by (auto simp: first_inv_def setError_def unsubscribe_def Let_def)
next
  case (bg_connect i c r c')
  then show ?case by (auto simp: first_inv_def elim!: connect_cases)
next
  case (bg_thread i c t h)
  then show ?case by (auto simp: first_inv_def)
qed (simp add: first_inv_def)

lemma reachable_first: "conn_reachable dial c \<Longrightarrow> steady dial \<Longrightarrow> first_inv c"
  by (induction rule: conn_reachable.induct)
    (simp_all add: conn_step_first, simp add: first_inv_def KineticAutoConnection_new_def handler_init_def)

subsection \<open>The connections of a listener\<close>

definition lst_inv :: "'w dialer \<Rightarrow> 'w listener \<Rightarrow> bool" where
  "lst_inv dial s \<longleftrightarrow> (\<forall>p c. lst_connections s p = Some c \<longrightarrow>
     conn_reachable dial c \<and> dial_now dial (con_world c) \<le> dial_now dial (lst_world s))"

lemma lst_invD: "lst_inv dial s \<Longrightarrow> con_at p s = Some c \<Longrightarrow> conn_reachable dial c"
  by (auto simp: lst_inv_def con_at_def intro: reachable_wait)

lemma con_at_world: "con_at p s = Some c \<Longrightarrow> con_world c = lst_world s"
  by (auto simp: con_at_def)

lemma con_update_inv:
  assumes "lst_inv dial s" and "conn_reachable dial c" and "dial_now dial (lst_world s) \<le> dial_now dial (con_world c)"
  shows "lst_inv dial (con_update p c s)"
  using assms by (auto simp: lst_inv_def con_update_def intro: le_trans)

lemma handle_event_cases:
  assumes "handle_event dial e s = Some (r, s')"
  obtains (pipe) "e = None" "r = Inr ()" "s' = s"
  | (dangling) p where "e = Some p" "lst_connections s p = None" "r = Inl Undefined_behaviour" "s' = s"
  | (error) p c x c' where "e = Some p" "con_at p s = Some c" "auto_get dial c = Some (Inl x, c')" "r = Inr ()" "s' = con_update p c' s"
  | (null) p c c' where "e = Some p" "con_at p s = Some c" "auto_get dial c = Some (Inr None, c')" "r = Inl Undefined_behaviour"
      "s' = con_update p c' s"
  | (run) p c con c' b w where "e = Some p" "con_at p s = Some c" "auto_get dial c = Some (Inr (Some con), c')"
      "dial_run dial con (con_world c') = (b, w)" "r = Inr ()" "s' = con_update p (c'\<lparr>con_world := w\<rparr>) s"
proof (cases e)
  case None
  with assms show ?thesis by (intro pipe) (simp_all add: handle_event_def)
next
  case e: (Some p)
  show ?thesis
  proof (cases "con_at p s")
    case None
    with assms e show ?thesis by (intro dangling [of p]) (simp_all add: handle_event_def con_at_def)
  next
    case c: (Some c)
    from assms e c obtain x c' where get: "auto_get dial c = Some (x, c')"
      by (cases "auto_get dial c") (auto simp: handle_event_def)
    obtain b w where w: "dial_run dial (the (projr x)) (con_world c') = (b, w)" by fastforce
    from assms e c get w show ?thesis
      using error [OF e c] null [OF e c] run [OF e c]
      by (cases x; cases "projr x") (simp_all add: handle_event_def)
  qed
qed

lemma get_inv:
  assumes "steady dial" and "lst_inv dial s" and "con_at p s = Some c" and "auto_get dial c = Some (r, c')"
  shows "conn_reachable dial c'" and "dial_now dial (lst_world s) \<le> dial_now dial (con_world c')"
    and "lst_inv dial (con_update p c' s)"
proof -
  show 1: "conn_reachable dial c'"
    by (rule conn_reachable.further [OF lst_invD [OF assms(2,3)] conn_step.client_get [OF assms(4)]])
  show 2: "dial_now dial (lst_world s) \<le> dial_now dial (con_world c')"
    using auto_get_clock [OF assms(1,4)] con_at_world [OF assms(3)] by simp
  show "lst_inv dial (con_update p c' s)" by (rule con_update_inv [OF assms(2) 1 2])
qed

lemma handle_event_inv:
  assumes "steady dial" and "lst_inv dial s" and "handle_event dial e s = Some (r, s')"
  shows "lst_inv dial s'"
  using assms(3)
proof (cases rule: handle_event_cases)
  case (error p c x c')
  then show ?thesis by (simp add: get_inv(3) [OF assms(1,2)])
next
  case (null p c c')
  then show ?thesis by (simp add: get_inv(3) [OF assms(1,2)])
next
  case (run p c con c' b w)
  note get = get_inv [OF assms(1,2) run(2,3)]
  have t: "dial_now dial (con_world c') \<le> dial_now dial w" by (rule steadyD(4) [OF assms(1) run(4)])
  show ?thesis
    unfolding run(6) by (rule con_update_inv [OF assms(2) reachable_wait [OF get(1) t]]) (use get(2) t in simp)
qed (use assms(2) in simp_all)

lemma lst_step_inv: "lst_step dial s s' \<Longrightarrow> steady dial \<Longrightarrow> lst_inv dial s \<Longrightarrow> lst_inv dial s'"
proof (induction rule: lst_step.induct)
  case (wake s events)
  then show ?case by (simp add: lst_inv_def listener_wake_def)
next
  case (handle s e es s')
  have "lst_inv dial (s\<lparr>lst_events := es\<rparr>)" using handle.prems(2) by (simp add: lst_inv_def)
  with handle show ?case by (metis handle_event_inv)
next
  case (create s p opts r)
  show ?case
    by (rule con_update_inv [OF create.prems(2) conn_reachable.created]) (simp add: KineticAutoConnection_new_def)
next
  case (use_connection p s c c')
  show ?case
  proof (rule con_update_inv [OF use_connection.prems(2)])
    show "conn_reachable dial c'"
      by (rule conn_reachable.further [OF lst_invD [OF use_connection.prems(2) use_connection.hyps(1)] use_connection.hyps(2)])
    show "dial_now dial (lst_world s) \<le> dial_now dial (con_world c')"
      using conn_step_clock [OF use_connection.hyps(2) use_connection.prems(1)] con_at_world [OF use_connection.hyps(1)] by simp
  qed
qed (auto simp: lst_inv_def SocketListener_destroy_def intro: le_trans)

lemma lst_reachable_inv: "lst_reachable dial s \<Longrightarrow> steady dial \<Longrightarrow> lst_inv dial s"
proof (induction rule: lst_reachable.induct)
  case (created w s)
  then show ?case by (auto simp: SocketListener_new_def lst_inv_def)
next
  case (further s s')
  then show ?case by (metis lst_step_inv)
qed

subsection \<open>Handling events\<close>

definition event_ok :: "'w listener \<Rightarrow> nat option \<Rightarrow> bool" where
  "event_ok s e \<longleftrightarrow> (\<forall>p. e = Some p \<longrightarrow> (\<exists>c. lst_connections s p = Some c \<and> initial_connect c))"

lemma con_update_ok: "initial_connect c \<Longrightarrow> event_ok s e \<Longrightarrow> event_ok (con_update p c s) e"
  by (simp add: event_ok_def con_update_def)

lemma handle_event_returns:
  assumes "steady dial" and "lst_inv dial s" and "event_ok s e"
  shows "\<exists>s'. handle_event dial e s = Some (Inr (), s') \<and> (\<forall>e'. event_ok s e' \<longrightarrow> event_ok s' e') \<and>
    lst_events s' = lst_events s \<and> (\<forall>p. e \<noteq> Some p \<longrightarrow> lst_connections s' p = lst_connections s p)"
proof (cases e)
  case None
  then show ?thesis by (simp add: handle_event_def)
next
  case (Some p)
  with assms(3) obtain c where c: "con_at p s = Some c" "initial_connect c" by (auto simp: event_ok_def con_at_def)
  obtain r c' where get: "get_locked dial c = Some (r, c')" by (cases "healthy c") (auto simp: get_locked_def)
  then have auto: "auto_get dial c = Some (r, c')" using c(2) by (simp add: auto_get_def)
  have first: "initial_connect c'" using get_locked_frame(2) [OF get] c(2) by simp
  have "r \<noteq> Inr None"
    using get conn_reachable_inv [OF lst_invD [OF assms(2) c(1)] assms(1)] by (auto simp: get_locked_def conn_inv_def split: if_splits)
  moreover have "event_ok (con_update p (c'\<lparr>con_world := w\<rparr>) s) e'" "event_ok (con_update p c' s) e'" if "event_ok s e'" for e' w
    using that first by (simp_all add: con_update_ok)
  ultimately show ?thesis
    using Some c auto by (cases r; cases "projr r") (auto simp: handle_event_def Let_def con_update_def split: prod.splits)
qed

lemma handle_events_return:
  assumes "steady dial" and "lst_inv dial s" and "\<And>e. e \<in> set es \<Longrightarrow> event_ok s e" and "lst_events s = es"
  shows "\<exists>s'. handle_events dial es s = Some (Inr (), s') \<and> (lst_step dial)\<^sup>*\<^sup>* s s' \<and> lst_events s' = [] \<and>
    (\<forall>p. Some p \<notin> set es \<longrightarrow> lst_connections s' p = lst_connections s p)"
  using assms
proof (induction es arbitrary: s)
  case Nil
  then show ?case by (cases s) simp
next
  case (Cons e es)
  let ?s = "s\<lparr>lst_events := es\<rparr>"
  have inv: "lst_inv dial ?s" using Cons.prems(2) by (simp add: lst_inv_def)
  have ok: "event_ok ?s e' \<longleftrightarrow> event_ok s e'" for e' by (simp add: event_ok_def)
  obtain s1 where s1: "handle_event dial e ?s = Some (Inr (), s1)" "\<And>e'. event_ok s e' \<Longrightarrow> event_ok s1 e'"
    "lst_events s1 = es" "\<And>p. e \<noteq> Some p \<Longrightarrow> lst_connections s1 p = lst_connections s p"
    using handle_event_returns [OF Cons.prems(1) inv, of e] Cons.prems(3) by (auto simp: ok)
  have step: "lst_step dial s s1" by (rule lst_step.handle [OF Cons.prems(4) s1(1)])
  obtain s2 where "handle_events dial es s1 = Some (Inr (), s2)" "(lst_step dial)\<^sup>*\<^sup>* s1 s2" "lst_events s2 = []"
    "\<forall>p. Some p \<notin> set es \<longrightarrow> lst_connections s2 p = lst_connections s1 p"
    using Cons.IH [OF Cons.prems(1) lst_step_inv [OF step Cons.prems(1,2)]] s1(2,3) Cons.prems(3) by auto
  note s2 = this
  show ?case
  proof (intro exI conjI allI impI)
    show "handle_events dial (e # es) s = Some (Inr (), s2)" using s1(1) s2(1) by simp
    show "(lst_step dial)\<^sup>*\<^sup>* s s2" by (rule converse_rtranclp_into_rtranclp [OF step s2(2)])
    show "lst_events s2 = []" by (rule s2(3))
    show "lst_connections s2 p = lst_connections s p" if "Some p \<notin> set (e # es)" for p
      using that s1(4) s2(4) by auto
  qed
qed

lemma lst_reachable_steps: "(lst_step dial)\<^sup>*\<^sup>* s s' \<Longrightarrow> lst_reachable dial s \<Longrightarrow> lst_reachable dial s'"
  by (induction rule: rtranclp_induct) (auto intro: lst_reachable.further)

section \<open>Properties\<close>

text \<open>C25: The listener survives its connections. In every reachable state of the listener and the threads that
  create, use and destroy connections, when the thread wakes up it exits if a shutdown was requested;
  otherwise all reported events are handled without an exception that would end the thread, whatever
  the drives answer, only the connections with events are touched, and all connections remain in states that connections reach by
  themselves. If however a connection is destroyed while its event is pending, the thread follows a pointer to an object
  that does not exist.\<close>

theorem listener_serves_events:
  assumes "lst_reachable dial s" and "steady dial" and "lst_events s = []" and "\<not> lst_exited s" and "length events \<le> 10"
    and "\<And>p. Some p \<in> set events \<Longrightarrow> \<exists>c. lst_connections s p = Some c \<and> watched c \<noteq> {}"
  shows "if lst_shutdown s then lst_exited (listener_wake events s)
    else (\<exists>s'. handle_events dial events (listener_wake events s) = Some (Inr (), s') \<and> (lst_step dial)\<^sup>*\<^sup>* s s' \<and>
        lst_events s' = [] \<and> (\<forall>p. Some p \<notin> set events \<longrightarrow> lst_connections s' p = lst_connections s p) \<and>
        (\<forall>p c. lst_connections s' p = Some c \<longrightarrow> conn_reachable dial c)) \<and>
      (\<forall>p es. events = Some p # es \<longrightarrow>
        (let s' = (listener_wake events s)\<lparr>lst_connections := (lst_connections s)(p := None)\<rparr>
         in lst_reachable dial s' \<and> handle_events dial events s' = Some (Inl Undefined_behaviour, s'\<lparr>lst_events := es\<rparr>)))"
proof (cases "lst_shutdown s")
  case False
  let ?s = "listener_wake events s"
  have wake: "lst_step dial s ?s" by (rule lst_step.wake [OF assms(3-6)])
  have reach: "lst_reachable dial ?s" by (rule lst_reachable.further [OF assms(1) wake])
  have s: "?s = s\<lparr>lst_events := events\<rparr>" using False by (simp add: listener_wake_def)
  have inv: "lst_inv dial s" by (rule lst_reachable_inv [OF assms(1,2)])
  have ok: "event_ok ?s e" if "e \<in> set events" for e
    using assms(6) that inv reachable_first [OF _ assms(2)] unfolding event_ok_def s lst_inv_def first_inv_def by fastforce
  obtain s' where s': "handle_events dial events ?s = Some (Inr (), s')" "(lst_step dial)\<^sup>*\<^sup>* ?s s'" "lst_events s' = []"
    "\<forall>p. Some p \<notin> set events \<longrightarrow> lst_connections s' p = lst_connections ?s p"
    using handle_events_return [OF assms(2) lst_reachable_inv [OF reach assms(2)] ok] by (auto simp: s)
  have "lst_inv dial s'" by (rule lst_reachable_inv [OF lst_reachable_steps [OF s'(2) reach] assms(2)])
  moreover have "(lst_step dial)\<^sup>*\<^sup>* s s'" by (rule converse_rtranclp_into_rtranclp [OF wake s'(2)])
  ultimately have "\<exists>s'. handle_events dial events ?s = Some (Inr (), s') \<and> (lst_step dial)\<^sup>*\<^sup>* s s' \<and>
        lst_events s' = [] \<and> (\<forall>p. Some p \<notin> set events \<longrightarrow> lst_connections s' p = lst_connections s p) \<and>
        (\<forall>p c. lst_connections s' p = Some c \<longrightarrow> conn_reachable dial c)"
    using s'(1,3,4) by (intro exI [of _ s']) (simp add: lst_inv_def s)
  moreover have "lst_reachable dial (?s\<lparr>lst_connections := (lst_connections s)(p := None)\<rparr>)" for p
    using lst_reachable.further [OF reach lst_step.destroy_connection [of dial ?s p]] by (simp add: s)
  moreover have "handle_events dial (Some p # es) (?s\<lparr>lst_connections := (lst_connections s)(p := None)\<rparr>) =
      Some (Inl Undefined_behaviour, (?s\<lparr>lst_connections := (lst_connections s)(p := None)\<rparr>)\<lparr>lst_events := es\<rparr>)" for p es
    by (simp add: handle_event_def con_at_def)
  ultimately show ?thesis unfolding Let_def if_not_P [OF False] by blast
qed (simp add: listener_wake_def)


text \<open>A listener with one connection that is in use.\<close>

definition demo_listener :: "nat listener" where
  "demo_listener = con_update 1 (snd (the (auto_get demo_dial demo_new)))
     \<lparr>lst_connections = Map.empty, lst_events = [], lst_shutdown = False, lst_exited = False, lst_world = 0\<rparr>"

lemma demo_listener_reachable: "lst_reachable demo_dial demo_listener"
proof -
  let ?s = "\<lparr>lst_connections = Map.empty, lst_events = [], lst_shutdown = False, lst_exited = False, lst_world = 0\<rparr>"
  have "lst_reachable demo_dial ?s" by (rule lst_reachable.created [of 0]) (simp add: SocketListener_new_def)
  then have "lst_reachable demo_dial (con_update 1 demo_new ?s)"
    using lst_reachable.further [OF _ lst_step.create [of ?s 1 demo_dial "(demo_options, demo_options)" 2]] by simp
  moreover have "con_at 1 (con_update 1 demo_new ?s) = Some demo_new" by simp
  moreover have "conn_step demo_dial demo_new (snd (the (auto_get demo_dial demo_new)))"
    using conn_step.client_get [OF demo_first_get] by (simp add: demo_first_get)
  ultimately have "lst_reachable demo_dial (con_update 1 (snd (the (auto_get demo_dial demo_new))) (con_update 1 demo_new ?s))"
    by (metis lst_reachable.further lst_step.use_connection)
  then show ?thesis by (simp add: demo_listener_def con_update_def)
qed

theorem listener_serves_events_witness:
  "\<exists>s. lst_reachable demo_dial s \<and> (\<exists>s'. handle_events demo_dial [Some 1] (listener_wake [Some 1] s) = Some (Inr (), s')) \<and>
     (\<exists>s'. lst_reachable demo_dial s' \<and> handle_events demo_dial [Some 1] s' = Some (Inl Undefined_behaviour, s'\<lparr>lst_events := []\<rparr>))"
proof -
  have s: "lst_events demo_listener = []" "\<not> lst_exited demo_listener" "\<not> lst_shutdown demo_listener"
    by (simp_all add: demo_listener_def con_update_def)
  have w: "\<exists>c. lst_connections demo_listener p = Some c \<and> watched c \<noteq> {}" if "Some p \<in> set [Some 1]" for p
    using that by (simp add: demo_listener_def con_update_def demo_first_get)
  have "length [Some (1 :: nat)] \<le> 10" by simp
  from listener_serves_events [OF demo_listener_reachable demo_steady s(1,2) this w] s(3) demo_listener_reachable
  show ?thesis unfolding Let_def if_not_P [OF s(3)] by blast
qed

end
