(* ===== verification/Spec2Isabelle.thy ===== *)
theory Spec2Isabelle
  imports Utility Murmur_Variants Crc32c_Hw Prefetch_Oracle Redundancy_Provider Cluster_Liveness Flush_Conflict File_Durability Admin_Repair Admin_Accounting
    Admin_Eos Io_Factory Destruction_Mutex Socket_Listener
begin

text \<open>
  \<^bold>\<open>A verification development of kineticio\<close>

  kineticio (under \<^verbatim>\<open>src/\<close>) is a C++ library that offers files on clusters of kinetic drives. A kinetic
  drive is a network attached disk with a key-value interface whose records carry versions. A file is
  cut into blocks; a block is the value of one key of a cluster; the value is cut into data chunks, to
  which Reed-Solomon parities are added, and the chunks of this stripe are records of different drives.

  \<^bold>\<open>The parts of the program and how they interact.\<close> From the bottom to the top:

  \<^item> \<^verbatim>\<open>KineticAutoConnection\<close> holds the connection to one drive and reconnects in the background;
    \<^verbatim>\<open>SocketListener\<close> watches its socket. \<^verbatim>\<open>BackgroundOperationHandler\<close> is the thread pool used here and above.
  \<^item> \<^verbatim>\<open>KineticClusterOperation\<close> sends one request to several drives, collects the answers in
    callbacks (\<^verbatim>\<open>KineticCallbacks\<close>) until a timeout, and sums them up.
  \<^item> \<^verbatim>\<open>KineticClusterStripeOperation\<close> reads, writes and removes stripes: placement by hash
    (\<^verbatim>\<open>MurmurHash3\<close>), checksums (\<^verbatim>\<open>crc32c\<close>), parities (\<^verbatim>\<open>RedundancyProvider\<close>), repair of partial writes,
    indicator and handoff keys.
  \<^item> \<^verbatim>\<open>KineticCluster\<close> implements the abstract \<^verbatim>\<open>ClusterInterface\<close> with them; \<^verbatim>\<open>KineticAdminCluster\<close> adds
    the maintenance of all keys: count, scan, repair, reset, status.
  \<^item> \<^verbatim>\<open>DataBlock\<close> is a block in memory with its local writes, \<^verbatim>\<open>DataCache\<close> shares blocks between files,
    \<^verbatim>\<open>FileIo\<close> provides reads, writes, truncation, removal, attributes and listings, with \<^verbatim>\<open>PrefetchOracle\<close>
    deciding what to read ahead.
  \<^item> \<^verbatim>\<open>ClusterMap\<close> builds and shares the cluster objects, \<^verbatim>\<open>KineticIoSingleton\<close> loads the configuration,
    \<^verbatim>\<open>KineticIoFactory\<close> is the entry to the library, \<^verbatim>\<open>Logger\<close> passes messages to the client, and \<^verbatim>\<open>tools/admin.cc\<close>
    is the command line tool for the maintenance, also as a command of the EOS console.

  \<^bold>\<open>How the code is represented.\<close> A class is a record with the members of the class; an enumeration
  or a hierarchy of classes is a datatype. An operation is a function from the state to a result and
  a new state. The result type \<open>'a res\<close> of \<^verbatim>\<open>Kio_Prelude\<close> is \<open>exn + 'a\<close>: every \<^verbatim>\<open>throw\<close>, \<^verbatim>\<open>at\<close> and
  out-of-range access is a value \<open>Inl\<close>, and so is undefined behaviour such as a null pointer that is followed. Operations
  that contain a waiting loop return an option, and \<open>None\<close> stands for a loop that never ends: these loops
  are \<^verbatim>\<open>partial_function (option)\<close> (\<open>resolve_loop\<close>, \<open>do_get\<close>, \<open>concurrency_check\<close>, \<open>flush_loop\<close>, \<open>rw_loop\<close>,
  \<open>truncate_loop\<close>, \<open>attr_loop\<close>, \<open>list_loop\<close>, \<open>doOperation_loop\<close>, \<open>noop_loop\<close>, \<open>answer_loop\<close>, \<open>status_wait\<close>), so
  there is no fuel and no bound to choose, and a statement that an operation returns says that its value
  is \<open>Some\<close> of a result, which for the writes of a cluster is a status and not undefined behaviour. Integers are unbounded where the code cannot overflow and are reduced to their width
  where it can (\<open>to_int32\<close>, \<open>to_size\<close>, words for hashes, checksums and field elements). Objects
  that several owners share (blocks, connections, clusters) live in a heap, a list indexed by addresses.

  \<^bold>\<open>What is a parameter.\<close> Code outside of the repository is an argument: the drives, the clock and
  the unique ids (\<open>env\<close>, \<^verbatim>\<open>Drive_Env\<close>), connecting, the socket listener's epoll and the random choice (\<open>dialer\<close>,
  \<^verbatim>\<open>Auto_Connection\<close>), the isa-l coding library (\<open>isal\<close>, \<^verbatim>\<open>Redundancy_Provider\<close>), json-c (\<open>json_lib\<close>,
  \<^verbatim>\<open>Io_Configuration\<close>), the crc32 instructions (\<^verbatim>\<open>Crc32c_Hw\<close>), the clock and the clusters that files see
  (\<open>fio_env\<close>, \<^verbatim>\<open>File_Io\<close>), the progress of background threads (\<open>sched\<close>, \<^verbatim>\<open>Admin_Cluster\<close>) and the
  floating point arithmetic of the status report (\<open>status_env\<close>, \<^verbatim>\<open>Admin_Status\<close>), the log functions of a client (\<open>log_client\<close>,
  \<^verbatim>\<open>Logging\<close>), EOS with the string class of XRootD (\<open>eos\<close>, \<^verbatim>\<open>Admin_Eos\<close>), all of these together for the library (\<open>platform\<close>,
  \<^verbatim>\<open>Io_Factory\<close>). What is assumed of them is a
  named hypothesis (such as \<open>isal_ok\<close>, \<open>honest_range\<close>, \<open>steady\<close>, \<open>denotes\<close>), and witnesses run on concrete instances, above
  all the four simulated drives of \<^verbatim>\<open>Drive_Simulation\<close> and the sum code \<open>sum_lib\<close>.

  \<^bold>\<open>The theories.\<close>

  \<^item> \<^verbatim>\<open>Kio_Prelude\<close>: exceptions, the state monad of operations, strings, decimal numbers, integer
    conversions, shared lemmas. \<^verbatim>\<open>Kinetic_Types\<close>, \<^verbatim>\<open>Drive_Env\<close>: statuses and records of the client library, the
    environment. \<^verbatim>\<open>Drive_Simulation\<close>: simulated drives.
  \<^item> \<^verbatim>\<open>Utility\<close> (\<^verbatim>\<open>src/Utility.cc\<close>): keys and their order, sizes in versions, urls. \<^verbatim>\<open>Murmur_Hash\<close> and \<^verbatim>\<open>Murmur_Variants\<close>
    (\<^verbatim>\<open>outside/MurmurHash3.cpp\<close>): the three hashes, which separate keys that differ within one block. \<^verbatim>\<open>Crc32c\<close>
    and \<^verbatim>\<open>Crc32c_Hw\<close> (\<^verbatim>\<open>outside/crc32c.c\<close>): the table driven routine and the three-way routine of processors with
    a crc32 instruction equal the bitwise definition of the checksum.
  \<^item> \<^verbatim>\<open>Prefetch_Oracle\<close> (\<^verbatim>\<open>src/PrefetchOracle.cc\<close>): history and predictions.
  \<^item> \<^verbatim>\<open>Redundancy_Provider\<close> (\<^verbatim>\<open>src/RedundancyProvider.cc\<close>): a stripe with at most as many losses as parities is restored exactly;
    the arithmetic of the Galois field and the decoding matrix are proved correct for the code's
    own elimination, stripes that cannot be completed are refused, the table cache changes nothing.
  \<^item> \<^verbatim>\<open>Callbacks\<close>, \<^verbatim>\<open>Cluster_Operation\<close> (\<^verbatim>\<open>src/KineticCallbacks.cc\<close>, \<^verbatim>\<open>src/KineticClusterOperation.cc\<close>): after an operation vector
    was executed every callback holds what its drive answered; flushes succeed by quorum; ranges merge the keys of the drives.
  \<^item> \<^verbatim>\<open>Stripe_Operation\<close> (\<^verbatim>\<open>src/KineticClusterStripeOperation.cc\<close>) with \<^verbatim>\<open>Stripe_Placement\<close>, \<^verbatim>\<open>Stripe_Get\<close>, \<^verbatim>\<open>Stripe_Put\<close>:
    where chunks are placed, what a get computes from truthful drives, what a put leaves on them.
  \<^item> \<^verbatim>\<open>Kinetic_Cluster\<close> (\<^verbatim>\<open>src/KineticCluster.cc\<close>) with \<^verbatim>\<open>Cluster_Storage\<close> (a put is read back although drives
    fail), \<^verbatim>\<open>Cluster_Liveness\<close> (puts and removes return, and a get waits for others at most for the operation timeout) and \<^verbatim>\<open>Cluster_Shape\<close> (no
    operation changes the parameters of a cluster). \<^verbatim>\<open>Destruction_Mutex\<close> (\<^verbatim>\<open>include/DestructionMutex.hh\<close>): a step relation
    over the destructor of a cluster and its statistics updates, which is equivalent to running the calls one
    after the other and never uses a destroyed cluster.
  \<^item> \<^verbatim>\<open>Cluster_Interface\<close> (\<^verbatim>\<open>include/ClusterInterface.hh\<close>): the abstract class as a record of operations.
  \<^item> \<^verbatim>\<open>Data_Block\<close>, \<^verbatim>\<open>Block_Storage\<close> (\<^verbatim>\<open>src/DataBlock.cc\<close>): reading, writing, merging concurrent writes, flushing;
    \<^verbatim>\<open>Flush_Conflict\<close>: a flush against a newer version, from the rejected put to the stored merge;
    \<^verbatim>\<open>Data_Cache\<close> (\<^verbatim>\<open>src/DataCache.cc\<close>): the invariant of the cache; \<^verbatim>\<open>File_Io\<close>, \<^verbatim>\<open>File_Storage\<close> (\<^verbatim>\<open>src/FileIo.cc\<close>): block positions,
    append and read, end of file, attributes; \<^verbatim>\<open>File_Durability\<close>: what is written to a file and synced is read back by
    other files although drives are lost, through all layers down to the drives.
  \<^item> \<^verbatim>\<open>Background_Handler\<close> (\<^verbatim>\<open>src/BackgroundOperationHandler.cc\<close>): a step relation over the threads of the pool; nothing
    is lost, duplicated or started out of order.
  \<^item> \<^verbatim>\<open>Admin_Cluster\<close>, \<^verbatim>\<open>Admin_Storage\<close>, \<^verbatim>\<open>Admin_Repair\<close>, \<^verbatim>\<open>Admin_Accounting\<close>, \<^verbatim>\<open>Admin_Status\<close> (\<^verbatim>\<open>src/KineticAdminCluster.cc\<close>): a count
    is exact, a repair restores, a reset accounts for every key, a status covers all connections.
  \<^item> \<^verbatim>\<open>Auto_Connection\<close> (\<^verbatim>\<open>src/KineticAutoConnection.cc\<close>): a step relation over clients and the reconnecting
    thread, whose reachable states are healthy only with a watched connection and whose reconnects are
    rate limited. \<^verbatim>\<open>Socket_Listener\<close> (\<^verbatim>\<open>src/SocketListener.cc\<close>): the listening thread among the threads that use
    connections, which serves all events and dies only of destroyed connections. \<^verbatim>\<open>Cluster_Map\<close> (\<^verbatim>\<open>src/ClusterMap.cc\<close>): cluster objects agree with the configuration.
    \<^verbatim>\<open>Io_Configuration\<close> (\<^verbatim>\<open>src/KineticIoSingleton.cc\<close>): documents and loaded configuration agree, for documents that are
    made for a configuration and for any documents that load, and failed loads. \<^verbatim>\<open>Io_Factory\<close> (\<^verbatim>\<open>src/KineticIoFactory.cc\<close>, \<^verbatim>\<open>include/kio/\<close>): the library as one state; files are made on the
    clusters of the configuration in force and keep them over a reload.
  \<^item> \<^verbatim>\<open>Logging\<close> (\<^verbatim>\<open>include/Logging.hh\<close>): which messages reach the client, and clients that fail or log themselves.
    \<^verbatim>\<open>Admin_Tool\<close>, \<^verbatim>\<open>Admin_Console\<close>, \<^verbatim>\<open>Admin_Eos\<close> (\<^verbatim>\<open>tools/admin.cc\<close>): arguments and operations of the tool, its output, which
    can be read back in the monitoring format, and the command of the EOS console, through which the
    published configuration reaches the library.

  \<^bold>\<open>The interfaces between the parts\<close> are locales, interpreted on the definitions of the code:
  \<open>cluster_contract\<close> (what clients of \<^verbatim>\<open>ClusterInterface\<close> rely on; provided by the object of \<^verbatim>\<open>KineticCluster\<close>
  as \<open>kc\<close>, by the objects of the cluster map as \<open>oi\<close>, and used for blocks), \<open>redundancy_code\<close> (what stripe operations rely on; provided by \<open>compute\<close> and \<open>encode\<close> as \<open>rp\<close>),
  \<open>drive_request\<close> (requests that all drives answer by themselves; provided by range, version and flush
  requests as \<open>ranges\<close>, \<open>versions\<close> and \<open>flushes\<close>), \<open>plain_client\<close> (log functions that return and leave the logger alone;
  provided by those of the administration tool as \<open>tool_logging\<close>), \<open>block_hash\<close> (round, tail and final mixing of a hash; provided by the three
  hashes as \<open>x86_32\<close>, \<open>x86_128\<close> and \<open>x64_128\<close>) and \<open>crc_instructions\<close> (the instructions' semantics; provided by the
  byte step of the software as \<open>sw_steps\<close>).

  \<^bold>\<open>Behaviour that the interface does not announce\<close> is stated as theorems too: the parities that a get looks for
  on other drives after a 32 bit overflow, truncations that a flush loses, recycled blocks that keep
  foreign bytes, removed blocks, forced eviction, attributes listed twice, the endless count, keys outside of the maintenance,
  threads that are not counted yet, a reload during a lookup, events of destroyed connections.

  \<^bold>\<open>What is not modelled.\<close> Mutexes inside of one object: an operation on one object is atomic, and
  interleavings are modelled where the code gives up a lock in between or runs threads (the thread pool,
  connections, flushes against concurrent clients, the pages of the maintenance, a reload during a lookup,
  the destruction of a cluster). The waiting itself of the socket listener and the variant for kqueue. The messages that
  the operations log and the progress that the tool prints while an operation runs: nothing depends on
  them, only the delivery of messages is modelled. Random ids and floating point results are
  arguments. The tests and the launcher for the drive simulator.
\<close>

end
